(* ===== verification/Prelude.thy ===== *)
theory Prelude
  imports Main "HOL-Library.Word"
begin

text \<open>
  Shared vocabulary of the development: the machine integers of the kernel, byte buffers and the
  little-endian layout of the packed C structures that the disk and network code reads and writes
  through pointer casts, C strings, and the collections of rewrite rules the components use.

  Conventions used everywhere.  A C buffer is a \<open>u8 list\<close> of the size the source declares.
  A \<open>const char *\<close> argument is the list of the characters before its terminator: reading at the
  end of the list yields the terminator (\<open>char_at\<close>).  A C \<open>int\<close> result is an \<open>int\<close>, unsigned
  quantities are words of their width and wrap around as the compiled code does.
\<close>

unbundle bit_operations_syntax

type_synonym u8 = "8 word"
type_synonym u16 = "16 word"
type_synonym u32 = "32 word"
type_synonym u64 = "64 word"

named_theorems buf_simps \<open>reading and writing byte buffers\<close>

section \<open>Buffers: memcpy and sub-buffers\<close>

text \<open>\<open>splice b k xs\<close> is the buffer after \<open>memcpy(b + k, xs, length xs)\<close>;
  \<open>slice b k n\<close> is what \<open>memcpy(dst, b + k, n)\<close> copies.\<close>

definition splice :: "'a list \<Rightarrow> nat \<Rightarrow> 'a list \<Rightarrow> 'a list" where
  "splice b k xs = take k b @ xs @ drop (k + length xs) b"

definition slice :: "'a list \<Rightarrow> nat \<Rightarrow> nat \<Rightarrow> 'a list" where
  "slice b k n = take n (drop k b)"

lemma length_splice [simp, buf_simps]:
  "k + length xs \<le> length b \<Longrightarrow> length (splice b k xs) = length b"
  by (simp add: splice_def)

lemma length_slice [simp, buf_simps]: "k + n \<le> length b \<Longrightarrow> length (slice b k n) = n"
  by (simp add: slice_def)

lemma nth_splice [buf_simps]:
  "k + length xs \<le> length b \<Longrightarrow> i < length b \<Longrightarrow>
   splice b k xs ! i = (if k \<le> i \<and> i < k + length xs then xs ! (i - k) else b ! i)"
  by (auto simp: splice_def nth_append min_def)

lemma nth_slice [buf_simps]: "k + n \<le> length b \<Longrightarrow> i < n \<Longrightarrow> slice b k n ! i = b ! (k + i)"
  by (simp add: slice_def)

lemma slice_splice_same [simp, buf_simps]:
  "k \<le> length b \<Longrightarrow> slice (splice b k xs) k (length xs) = xs"
  by (simp add: slice_def splice_def)

lemma slice_splice_other [buf_simps]:
  assumes "k + length xs \<le> length b" and "p + n \<le> k \<or> k + length xs \<le> p"
  shows "slice (splice b k xs) p n = slice b p n"
proof (rule nth_equalityI)
  show "length (slice (splice b k xs) p n) = length (slice b p n)"
    using assms(1) by (simp add: slice_def)
next
  fix i assume "i < length (slice (splice b k xs) p n)"
  with assms show "slice (splice b k xs) p n ! i = slice b p n ! i"
    by (auto simp: slice_def nth_splice)
qed

lemma splice_slice_self [buf_simps]:
  "k + n \<le> length b \<Longrightarrow> splice b k (slice b k n) = b"
  by (simp add: splice_def slice_def) (metis append_take_drop_id drop_drop add.commute)

lemma slice_all [simp]: "slice b 0 (length b) = b"
  by (simp add: slice_def)

section \<open>Little-endian words in buffers\<close>

definition le16 :: "u16 \<Rightarrow> u8 list" where
  "le16 w = [ucast w, ucast (drop_bit 8 w)]"

definition le32 :: "u32 \<Rightarrow> u8 list" where
  "le32 w = [ucast w, ucast (drop_bit 8 w), ucast (drop_bit 16 w), ucast (drop_bit 24 w)]"

definition rd16 :: "u8 list \<Rightarrow> nat \<Rightarrow> u16" where
  "rd16 b k = ucast (b ! k) OR push_bit 8 (ucast (b ! (k + 1)))"

definition rd32 :: "u8 list \<Rightarrow> nat \<Rightarrow> u32" where
  "rd32 b k = ucast (b ! k) OR push_bit 8 (ucast (b ! (k + 1)))
     OR push_bit 16 (ucast (b ! (k + 2))) OR push_bit 24 (ucast (b ! (k + 3)))"

lemma length_le [simp, buf_simps]: "length (le16 w) = 2" "length (le32 v) = 4"
  by (simp_all add: le16_def le32_def)

lemma rd16_le16 [simp]: "rd16 (le16 w) 0 = w"
  by (rule bit_word_eqI) (auto simp: rd16_def le16_def bit_simps not_less)

lemma rd32_le32 [simp]: "rd32 (le32 w) 0 = w"
proof (rule bit_word_eqI)
  fix n assume "n < LENGTH(32)"
  then consider "n < 8" | "8 \<le> n \<and> n < 16" | "16 \<le> n \<and> n < 24" | "24 \<le> n \<and> n < 32"
    by force
  then show "bit (rd32 (le32 w) 0) n = bit w n"
    by cases (auto simp: rd32_def le32_def bit_simps)
qed

lemma rd16_slice: "k + 2 \<le> length b \<Longrightarrow> rd16 b k = rd16 (slice b k 2) 0"
  by (simp add: rd16_def nth_slice)

lemma rd32_slice: "k + 4 \<le> length b \<Longrightarrow> rd32 b k = rd32 (slice b k 4) 0"
  by (simp add: rd32_def nth_slice)

lemma rd16_append_ge [buf_simps]:
  "length a \<le> k \<Longrightarrow> rd16 (a @ b) k = rd16 b (k - length a)"
  by (simp add: rd16_def nth_append Suc_diff_le)

lemma rd32_append_ge [buf_simps]:
  "length a \<le> k \<Longrightarrow> rd32 (a @ b) k = rd32 b (k - length a)"
  by (simp add: rd32_def nth_append Suc_diff_le numeral_2_eq_2 numeral_3_eq_3)

lemma rd16_append_lt [buf_simps]: "k + 2 \<le> length a \<Longrightarrow> rd16 (a @ b) k = rd16 a k"
  by (simp add: rd16_def nth_append)

lemma rd32_append_lt [buf_simps]: "k + 4 \<le> length a \<Longrightarrow> rd32 (a @ b) k = rd32 a k"
  by (simp add: rd32_def nth_append)

lemma rd32_splice_same [buf_simps]:
  "k + 4 \<le> length b \<Longrightarrow> rd32 (splice b k (le32 w)) k = w"
  using rd32_slice [of k "splice b k (le32 w)"] slice_splice_same [of k b "le32 w"] by simp

lemma rd32_splice_other [buf_simps]:
  assumes "k + length xs \<le> length b" "p + 4 \<le> k \<or> k + length xs \<le> p" "p + 4 \<le> length b"
  shows "rd32 (splice b k xs) p = rd32 b p"
  using assms rd32_slice [of p b] rd32_slice [of p "splice b k xs"]
    slice_splice_other [of k xs b p 4] by simp

lemma bit_u8_high [simp]: "8 \<le> n \<Longrightarrow> \<not> bit (w :: u8) n"
  using bit_imp_le_length [of w n] by auto

lemma le32_rd32: "length b = 4 \<Longrightarrow> le32 (rd32 b 0) = b"
proof -
  assume l: "length b = 4"
  then obtain p q r s where b: "b = [p, q, r, s]"
    by (auto simp: numeral_eq_Suc length_Suc_conv)
  show ?thesis
    unfolding b le32_def rd32_def
    by (auto intro!: bit_word_eqI simp: bit_simps bit_u8_high)
qed

section \<open>Widening\<close>

lemma unat_ucast_up [simp]:
  "unat (ucast (a :: u8) :: u32) = unat a" "unat (ucast (a :: u8) :: u16) = unat a"
  "unat (ucast (b :: u16) :: u32) = unat b" "unat (ucast (c :: u32) :: u64) = unat c"
  by (simp_all add: unsigned_ucast_eq take_bit_nat_eq_self_iff unsigned_less [THEN less_le_trans])

lemma unat_eq_iff: "unat a = unat b \<longleftrightarrow> a = b"
  by (rule iffI, erule unsigned_word_eqI, simp)

section \<open>C strings\<close>

definition char_at :: "u8 list \<Rightarrow> nat \<Rightarrow> u8" where
  "char_at s i = (if i < length s then s ! i else 0)"

text \<open>The string a NUL-terminated buffer holds.\<close>

definition cstr :: "u8 list \<Rightarrow> u8 list" where
  "cstr b = takeWhile (\<lambda>c. c \<noteq> 0) b"

definition is_cstr :: "u8 list \<Rightarrow> bool" where
  "is_cstr s \<longleftrightarrow> 0 \<notin> set s"

text \<open>The bytes of a string literal of the source.\<close>

definition bytes :: "string \<Rightarrow> u8 list" where
  "bytes s = map (\<lambda>c. of_nat (of_char c)) s"

lemma bytes_Nil [simp]: "bytes [] = []"
  by (simp add: bytes_def)

lemma bytes_Cons [simp]: "bytes (c # s) = of_nat (of_char c) # bytes s"
  by (simp add: bytes_def)

lemma is_cstr_simps [simp]:
  "is_cstr []" "is_cstr (c # s) \<longleftrightarrow> c \<noteq> 0 \<and> is_cstr s" "is_cstr (s @ t) \<longleftrightarrow> is_cstr s \<and> is_cstr t"
  by (auto simp: is_cstr_def)

lemma is_cstr_cstr [simp]: "is_cstr (cstr b)"
  by (auto simp: is_cstr_def cstr_def dest: set_takeWhileD)

lemma cstr_id [simp]: "is_cstr s \<Longrightarrow> cstr s = s"
  unfolding is_cstr_def cstr_def by (metis (mono_tags, lifting) takeWhile_eq_all_conv)

lemma cstr_append: "is_cstr s \<Longrightarrow> cstr (s @ t) = s @ cstr t"
  by (induction s) (auto simp: is_cstr_def cstr_def)

lemma cstr_simps [simp]: "cstr [] = []" "cstr (0 # t) = []" "c \<noteq> 0 \<Longrightarrow> cstr (c # t) = c # cstr t"
  by (simp_all add: cstr_def)

lemma cstr_append_0 [simp]: "is_cstr s \<Longrightarrow> cstr (s @ 0 # t) = s"
  by (simp add: cstr_append)

lemma cstr_replicate_0 [simp]: "is_cstr s \<Longrightarrow> cstr (s @ replicate n 0) = s"
  by (cases n) simp_all

lemma is_cstr_take [simp]: "is_cstr s \<Longrightarrow> is_cstr (take n s)"
  by (auto simp: is_cstr_def dest: in_set_takeD)

lemma is_cstr_drop [simp]: "is_cstr s \<Longrightarrow> is_cstr (drop n s)"
  by (auto simp: is_cstr_def dest: in_set_dropD)

end
