(* ===== verification/KString.thy ===== *)
theory KString
  imports Prelude
begin

text \<open>
  \<^verbatim>\<open>kernel/disk/kstring.c\<close>: the kernel's memory and string routines, loop by loop.  Each loop is
  proved equal to its closed form on lists (\<open>splice\<close>, \<open>cstr\<close>, \<open>take\<close>), which is what the other
  components rewrite with.
\<close>

section \<open>The routines\<close>

text \<open>\<open>k_memcpy d p s q n\<close>: the buffer \<open>d\<close> after copying \<open>n\<close> bytes from \<open>s + q\<close> to \<open>d + p\<close>.\<close>

fun k_memcpy :: "u8 list \<Rightarrow> nat \<Rightarrow> u8 list \<Rightarrow> nat \<Rightarrow> nat \<Rightarrow> u8 list" where
  "k_memcpy d p s q 0 = d"
| "k_memcpy d p s q (Suc n) = k_memcpy (d[p := s ! q]) (Suc p) s (Suc q) n"

fun k_memset :: "u8 list \<Rightarrow> nat \<Rightarrow> u8 \<Rightarrow> nat \<Rightarrow> u8 list" where
  "k_memset d p c 0 = d"
| "k_memset d p c (Suc n) = k_memset (d[p := c]) (Suc p) c n"

function k_strcmp :: "u8 list \<Rightarrow> u8 list \<Rightarrow> int" where
  "k_strcmp a b =
     (let x = char_at a 0; y = char_at b 0 in
      if x \<noteq> 0 \<and> x = y then k_strcmp (tl a) (tl b) else uint x - uint y)"
  by pat_completeness auto
termination
  by (relation "measure (\<lambda>(a, b). length a)") (auto simp: char_at_def split: if_splits)

fun k_strncmp :: "u8 list \<Rightarrow> u8 list \<Rightarrow> nat \<Rightarrow> int" where
  "k_strncmp a b 0 = 0"
| "k_strncmp a b (Suc n) =
     (let x = char_at a 0; y = char_at b 0 in
      if x \<noteq> 0 \<and> x = y then k_strncmp (tl a) (tl b) n else uint x - uint y)"

function k_strlen :: "u8 list \<Rightarrow> nat" where
  "k_strlen s = (if char_at s 0 \<noteq> 0 then Suc (k_strlen (tl s)) else 0)"
  by pat_completeness auto
termination
  by (relation "measure length") (auto simp: char_at_def split: if_splits)

text \<open>\<open>k_strncpy d p s n\<close>: copy to \<open>d + p\<close>, then pad to \<open>n\<close> bytes with zeros.\<close>

fun k_strncpy :: "u8 list \<Rightarrow> nat \<Rightarrow> u8 list \<Rightarrow> nat \<Rightarrow> u8 list" where
  "k_strncpy d p s 0 = d"
| "k_strncpy d p s (Suc n) =
     (if char_at s 0 \<noteq> 0 then k_strncpy (d[p := char_at s 0]) (Suc p) (tl s) n
      else k_memset d p 0 (Suc n))"

definition k_toupper :: "u8 \<Rightarrow> u8" where
  "k_toupper c = (if 97 \<le> c \<and> c \<le> 122 then c - 32 else c)"

declare k_strcmp.simps [simp del] k_strlen.simps [simp del]

section \<open>Closed forms\<close>

lemma splice_Cons:
  "p < length d \<Longrightarrow> splice d p (x # xs) = splice (d[p := x]) (Suc p) xs"
  by (simp add: splice_def take_Suc_conv_app_nth)

lemma k_memcpy_splice:
  "p + n \<le> length d \<Longrightarrow> q + n \<le> length s \<Longrightarrow> k_memcpy d p s q n = splice d p (slice s q n)"
proof (induction n arbitrary: d p q)
  case 0
  then show ?case by (simp add: splice_def slice_def)
next
  case (Suc n)
  then have "slice s q (Suc n) = s ! q # slice s (Suc q) n"
    by (simp add: slice_def Cons_nth_drop_Suc [symmetric])
  with Suc show ?case by (simp add: splice_Cons)
qed

lemma k_memset_splice:
  "p + n \<le> length d \<Longrightarrow> k_memset d p c n = splice d p (replicate n c)"
  by (induction n arbitrary: d p) (simp_all add: splice_Cons, simp add: splice_def)

lemma cstr_step:
  "char_at s 0 \<noteq> 0 \<Longrightarrow> cstr s = char_at s 0 # cstr (tl s)"
  by (cases s) (auto simp: char_at_def cstr_def)

lemma cstr_stop: "char_at s 0 = 0 \<Longrightarrow> cstr s = []"
  by (cases s) (auto simp: char_at_def cstr_def split: if_splits)

lemma k_strlen_eq: "k_strlen s = length (cstr s)"
  by (induction s rule: k_strlen.induct)
    (subst k_strlen.simps, auto simp: cstr_step cstr_stop)

lemma cstr_eq_step:
  "x = char_at a 0 \<Longrightarrow> y = char_at b 0 \<Longrightarrow> \<not> (x \<noteq> 0 \<and> x = y) \<Longrightarrow>
   (cstr a = cstr b \<longleftrightarrow> x = y)"
  by (cases "x = 0"; cases "y = 0") (auto simp: cstr_step cstr_stop)

lemma uint_diff_eq_0: "uint (x :: u8) - uint y = 0 \<longleftrightarrow> x = y"
  by (auto simp: word_uint_eq_iff)

lemma k_strcmp_eq_0: "k_strcmp a b = 0 \<longleftrightarrow> cstr a = cstr b"
proof (induction a b rule: k_strcmp.induct)
  case (1 a b)
  show ?case
  proof (cases "char_at a 0 \<noteq> 0 \<and> char_at a 0 = char_at b 0")
    case True
    with 1 show ?thesis
      by (subst k_strcmp.simps) (auto simp: Let_def cstr_step [of a] cstr_step [of b])
  next
    case False
    have "cstr a = cstr b \<longleftrightarrow> char_at a 0 = char_at b 0"
      by (rule cstr_eq_step [OF refl refl False])
    with False show ?thesis
      by (subst k_strcmp.simps) (simp only: Let_def if_False uint_diff_eq_0)
  qed
qed

lemma k_strncmp_eq_0: "k_strncmp a b n = 0 \<longleftrightarrow> take n (cstr a) = take n (cstr b)"
proof (induction n arbitrary: a b)
  case 0
  then show ?case by simp
next
  case (Suc n)
  show ?case
  proof (cases "char_at a 0 \<noteq> 0 \<and> char_at a 0 = char_at b 0")
    case True
    with Suc show ?thesis by (auto simp: Let_def cstr_step [of a] cstr_step [of b])
  next
    case False
    then have "take (Suc n) (cstr a) = take (Suc n) (cstr b) \<longleftrightarrow> char_at a 0 = char_at b 0"
      by (cases "char_at a 0 = 0"; cases "char_at b 0 = 0") (auto simp: cstr_step cstr_stop)
    with False show ?thesis
      by (simp only: k_strncmp.simps Let_def if_False uint_diff_eq_0)
  qed
qed

text \<open>The \<open>n\<close> bytes \<open>k_strncpy\<close> writes: the string cut at \<open>n\<close>, zero padded.\<close>

definition strn :: "u8 list \<Rightarrow> nat \<Rightarrow> u8 list" where
  "strn s n = take n (cstr s) @ replicate (n - length (cstr s)) 0"

lemma length_strn [simp]: "length (strn s n) = n"
  by (simp add: strn_def)

lemma k_strncpy_splice:
  "p + n \<le> length d \<Longrightarrow> k_strncpy d p s n = splice d p (strn s n)"
proof (induction n arbitrary: d p s)
  case 0
  then show ?case by (simp add: splice_def strn_def)
next
  case (Suc n)
  show ?case
  proof (cases "char_at s 0 = 0")
    case True
    with Suc.prems show ?thesis
      by (simp add: strn_def cstr_stop k_memset_splice del: k_memset.simps)
  next
    case False
    with Suc have "k_strncpy d p s (Suc n) = splice (d[p := char_at s 0]) (Suc p) (strn (tl s) n)"
      by simp
    also have "\<dots> = splice d p (strn s (Suc n))"
      using Suc.prems False by (simp add: splice_Cons [symmetric] strn_def cstr_step [of s])
    finally show ?thesis .
  qed
qed

text \<open>The destination is a terminated string exactly when the source is shorter than \<open>n\<close>.\<close>

lemma cstr_strn: "cstr (strn s n @ t) =
    (if length (cstr s) < n then cstr s else take n (cstr s) @ cstr t)"
proof (cases "length (cstr s) < n")
  case True
  then obtain m where "n - length (cstr s) = Suc m"
    by (metis Suc_diff_Suc)
  with True show ?thesis by (simp add: strn_def)
next
  case False
  then show ?thesis by (simp add: strn_def cstr_append)
qed

lemma k_toupper_idem [simp]: "k_toupper (k_toupper c) = k_toupper c"
  by (auto simp: k_toupper_def word_le_nat_alt unat_sub_if')

end
