(* ===== verification/Ata.thy ===== *)
theory Ata
  imports KString
begin

text \<open>
  \<^verbatim>\<open>kernel/disk/ata.c\<close>: programmed I/O with the two drives of the primary ATA channel.  The state holds the
  driver's flags and the controller the port instructions talk to: the registers it latches, the
  status it shows at each read (\<open>status_em\<close>, an arbitrary stream), and the sectors of the two drives.
  Sectors travel a 16-bit word at a time through the data port, as the loops of the driver move them.
  \<open>escritas\<close> records the sector writes in the order they reach a drive.

  \<open>bloco_disp\<close> is the contract the file systems use: with a ready controller, one-sector reads and
  writes of drive 1 act on its sectors and nothing else.
\<close>

section \<open>The controller\<close>

type_synonym setor = "u8 list"

record ata =
  disco_presente :: bool
  disco1_presente :: bool
  status_em :: "nat \<Rightarrow> u8"
  relogio :: nat
  reg_drive :: u8
  reg_count :: u8
  reg_low :: u8
  reg_mid :: u8
  reg_high :: u8
  reg_cmd :: u8
  id_mid :: u8
  id_high :: u8
  discos :: "bool \<Rightarrow> u32 \<Rightarrow> setor"
  dev_pos :: nat
  dev_buf :: "u8 list"
  escritas :: "(bool \<times> u32 \<times> setor) list"

definition ATA_DATA :: u16 where "ATA_DATA = 0x1F0"
definition ATA_SETOR_COUNT :: u16 where "ATA_SETOR_COUNT = 0x1F2"
definition ATA_LBA_LOW :: u16 where "ATA_LBA_LOW = 0x1F3"
definition ATA_LBA_MID :: u16 where "ATA_LBA_MID = 0x1F4"
definition ATA_LBA_HIGH :: u16 where "ATA_LBA_HIGH = 0x1F5"
definition ATA_DRIVE :: u16 where "ATA_DRIVE = 0x1F6"
definition ATA_STATUS :: u16 where "ATA_STATUS = 0x1F7"
definition ATA_CMD :: u16 where "ATA_CMD = 0x1F7"
definition ATA_SR_BSY :: u8 where "ATA_SR_BSY = 0x80"
definition ATA_SR_DRQ :: u8 where "ATA_SR_DRQ = 0x08"
definition ATA_SR_ERR :: u8 where "ATA_SR_ERR = 0x01"
definition ATA_CMD_READ :: u8 where "ATA_CMD_READ = 0x20"
definition ATA_CMD_WRITE :: u8 where "ATA_CMD_WRITE = 0x30"
definition ATA_CMD_ID :: u8 where "ATA_CMD_ID = 0xEC"
definition SETOR_SIZE :: nat where "SETOR_SIZE = 512"

lemmas portas = ATA_DATA_def ATA_SETOR_COUNT_def ATA_LBA_LOW_def ATA_LBA_MID_def ATA_LBA_HIGH_def
  ATA_DRIVE_def ATA_STATUS_def ATA_CMD_def

text \<open>The four port instructions.  The drive is selected by bit 4 of the drive register, and the sector
  address is the 28 bits of the LBA registers; a command starts a new transfer.\<close>

definition out_byte :: "u16 \<Rightarrow> u8 \<Rightarrow> ata \<Rightarrow> ata" where
  "out_byte porta v a =
     (if porta = ATA_SETOR_COUNT then a\<lparr>reg_count := v\<rparr>
      else if porta = ATA_LBA_LOW then a\<lparr>reg_low := v\<rparr>
      else if porta = ATA_LBA_MID then a\<lparr>reg_mid := v\<rparr>
      else if porta = ATA_LBA_HIGH then a\<lparr>reg_high := v\<rparr>
      else if porta = ATA_DRIVE then a\<lparr>reg_drive := v\<rparr>
      else if porta = ATA_CMD then a\<lparr>reg_cmd := v, dev_pos := 0, dev_buf := []\<rparr>
      else a)"

definition in_byte :: "u16 \<Rightarrow> ata \<Rightarrow> u8 \<times> ata" where
  "in_byte porta a =
     (if porta = ATA_STATUS then (status_em a (relogio a), a\<lparr>relogio := relogio a + 1\<rparr>)
      else if porta = ATA_LBA_MID then (id_mid a, a)
      else if porta = ATA_LBA_HIGH then (id_high a, a)
      else (0, a))"

definition unidade :: "ata \<Rightarrow> bool" where "unidade a = bit (reg_drive a) 4"

definition lba28 :: "ata \<Rightarrow> u32" where
  "lba28 a = ucast (reg_low a) OR push_bit 8 (ucast (reg_mid a)) OR push_bit 16 (ucast (reg_high a))
     OR push_bit 24 (ucast (reg_drive a AND 0x0F))"

definition in_word :: "ata \<Rightarrow> u16 \<times> ata" where
  "in_word a =
     (rd16 (discos a (unidade a) (lba28 a + of_nat (dev_pos a div 256))) (2 * (dev_pos a mod 256)),
      a\<lparr>dev_pos := dev_pos a + 1\<rparr>)"

definition out_word :: "u16 \<Rightarrow> ata \<Rightarrow> ata" where
  "out_word w a =
     (let b = dev_buf a @ le16 w; u = unidade a; l = lba28 a + of_nat (dev_pos a div 256);
          a = a\<lparr>dev_pos := dev_pos a + 1\<rparr> in
      if length b = 512 then
        a\<lparr>dev_buf := [], discos := (discos a)(u := (discos a u)(l := b)), escritas := escritas a @ [(u, l, b)]\<rparr>
      else a\<lparr>dev_buf := b\<rparr>)"

section \<open>The driver\<close>

text \<open>The polling loops; \<open>r\<close> is the number of retries left, 100000 at first.\<close>

fun esperar_pronto :: "nat \<Rightarrow> ata \<Rightarrow> int \<times> ata" where
  "esperar_pronto r a =
     (let (st, a) = in_byte ATA_STATUS a in
      if st AND ATA_SR_BSY \<noteq> 0 then (case r of 0 \<Rightarrow> (- 1, a) | Suc r \<Rightarrow> esperar_pronto r a)
      else (0, a))"

fun esperar_drq :: "nat \<Rightarrow> ata \<Rightarrow> int \<times> ata" where
  "esperar_drq r a =
     (let (st, a) = in_byte ATA_STATUS a in
      if st AND ATA_SR_ERR \<noteq> 0 then (- 1, a)
      else if st AND ATA_SR_DRQ \<noteq> 0 then (0, a)
      else (case r of 0 \<Rightarrow> (- 1, a) | Suc r \<Rightarrow> esperar_drq r a))"

declare esperar_pronto.simps [simp del] esperar_drq.simps [simp del]

definition ata_esperar_pronto :: "ata \<Rightarrow> int \<times> ata" where "ata_esperar_pronto a = esperar_pronto 100000 a"
definition ata_esperar_drq :: "ata \<Rightarrow> int \<times> ata" where "ata_esperar_drq a = esperar_drq 100000 a"

fun descartar :: "nat \<Rightarrow> ata \<Rightarrow> ata" where
  "descartar 0 a = a"
| "descartar (Suc n) a = descartar n (snd (in_word a))"

definition identificar :: "u8 \<Rightarrow> ata \<Rightarrow> ata" where
  "identificar drive a =
     out_byte ATA_CMD ATA_CMD_ID (out_byte ATA_LBA_HIGH 0 (out_byte ATA_LBA_MID 0 (out_byte ATA_LBA_LOW 0
       (out_byte ATA_SETOR_COUNT 0 (out_byte ATA_DRIVE drive a)))))"

definition ata_init :: "ata \<Rightarrow> int \<times> ata" where
  "ata_init a =
     (let (st, a) = in_byte ATA_STATUS (identificar 0xA0 a) in
      if st = 0 then (- 1, a\<lparr>disco_presente := False\<rparr>)
      else let (r, a) = ata_esperar_pronto a in
        if r < 0 then (- 1, a\<lparr>disco_presente := False\<rparr>)
        else (0, (descartar 256 a)\<lparr>disco_presente := True\<rparr>))"

definition ata_init1 :: "ata \<Rightarrow> int \<times> ata" where
  "ata_init1 a =
     (let (st, a) = in_byte ATA_STATUS (identificar 0xB0 a) in
      if st = 0 \<or> st = 0xFF then (- 1, a\<lparr>disco1_presente := False\<rparr>)
      else let (r, a) = ata_esperar_pronto a in
        if r < 0 then (- 1, a\<lparr>disco1_presente := False\<rparr>)
        else let (mid, a) = in_byte ATA_LBA_MID a; (hi, a) = in_byte ATA_LBA_HIGH a in
          if mid \<noteq> 0 \<or> hi \<noteq> 0 then (- 1, a\<lparr>disco1_presente := False\<rparr>)
          else (0, (descartar 256 a)\<lparr>disco1_presente := True\<rparr>))"

definition ata_presente1 :: "ata \<Rightarrow> bool" where "ata_presente1 a = disco1_presente a"

definition comandar :: "u8 \<Rightarrow> u32 \<Rightarrow> u8 \<Rightarrow> u8 \<Rightarrow> ata \<Rightarrow> ata" where
  "comandar base lba count cmd a =
     out_byte ATA_CMD cmd (out_byte ATA_LBA_HIGH (ucast (drop_bit 16 lba AND 0xFF))
       (out_byte ATA_LBA_MID (ucast (drop_bit 8 lba AND 0xFF)) (out_byte ATA_LBA_LOW (ucast (lba AND 0xFF))
         (out_byte ATA_SETOR_COUNT count (out_byte ATA_DRIVE (base OR ucast (drop_bit 24 lba AND 0x0F)) a)))))"

fun ler_palavras :: "nat \<Rightarrow> nat \<Rightarrow> nat \<Rightarrow> u8 list \<Rightarrow> ata \<Rightarrow> u8 list \<times> ata" where
  "ler_palavras off i 0 b a = (b, a)"
| "ler_palavras off i (Suc n) b a =
     (let (w, a) = in_word a in ler_palavras off (Suc i) n (splice b (off + 2 * i) (le16 w)) a)"

fun gravar_palavras :: "nat \<Rightarrow> nat \<Rightarrow> nat \<Rightarrow> u8 list \<Rightarrow> ata \<Rightarrow> ata" where
  "gravar_palavras off i 0 b a = a"
| "gravar_palavras off i (Suc n) b a = gravar_palavras off (Suc i) n b (out_word (rd16 b (off + 2 * i)) a)"

fun ler_setores :: "nat \<Rightarrow> nat \<Rightarrow> u8 list \<Rightarrow> ata \<Rightarrow> int \<times> u8 list \<times> ata" where
  "ler_setores s 0 b a = (0, b, a)"
| "ler_setores s (Suc n) b a =
     (let (r, a) = ata_esperar_drq a in
      if r < 0 then (- 1, b, a)
      else let (b, a) = ler_palavras (s * SETOR_SIZE) 0 256 b a in ler_setores (Suc s) n b a)"

fun gravar_setores :: "nat \<Rightarrow> nat \<Rightarrow> u8 list \<Rightarrow> ata \<Rightarrow> int \<times> ata" where
  "gravar_setores s 0 b a = (0, a)"
| "gravar_setores s (Suc n) b a =
     (let (r, a) = ata_esperar_drq a in
      if r < 0 then (- 1, a)
      else gravar_setores (Suc s) n b (gravar_palavras (s * SETOR_SIZE) 0 256 b a))"

text \<open>No caller passes a null buffer; that check is left out.\<close>

definition ata_ler1 :: "u32 \<Rightarrow> u8 \<Rightarrow> u8 list \<Rightarrow> ata \<Rightarrow> int \<times> u8 list \<times> ata" where
  "ata_ler1 lba count buf a =
     (if \<not> disco1_presente a \<or> count = 0 then (- 1, buf, a)
      else let (r, a) = ata_esperar_pronto a in
        if r < 0 then (- 1, buf, a)
        else ler_setores 0 (unat count) buf (comandar 0xF0 lba count ATA_CMD_READ a))"

definition ata_gravar1 :: "u32 \<Rightarrow> u8 \<Rightarrow> u8 list \<Rightarrow> ata \<Rightarrow> int \<times> ata" where
  "ata_gravar1 lba count buf a =
     (if \<not> disco1_presente a \<or> count = 0 then (- 1, a)
      else let (r, a) = ata_esperar_pronto a in
        if r < 0 then (- 1, a)
        else gravar_setores 0 (unat count) buf (comandar 0xF0 lba count ATA_CMD_WRITE a))"

definition ata_ler :: "u32 \<Rightarrow> u8 \<Rightarrow> u8 list \<Rightarrow> ata \<Rightarrow> int \<times> u8 list \<times> ata" where
  "ata_ler lba count buf a =
     (if \<not> disco_presente a \<or> count = 0 then (- 1, buf, a)
      else let (r, a) = ata_esperar_pronto a in
        if r < 0 then (- 1, buf, a)
        else ler_setores 0 (unat count) buf (comandar 0xE0 lba count ATA_CMD_READ a))"

definition ata_gravar :: "u32 \<Rightarrow> u8 \<Rightarrow> u8 list \<Rightarrow> ata \<Rightarrow> int \<times> ata" where
  "ata_gravar lba count buf a =
     (if \<not> disco_presente a \<or> count = 0 then (- 1, a)
      else let (r, a) = ata_esperar_pronto a in
        if r < 0 then (- 1, a)
        else gravar_setores 0 (unat count) buf (comandar 0xE0 lba count ATA_CMD_WRITE a))"

section \<open>Registers\<close>

lemma bit_F [simp]: "bit (0x0F :: u8) n \<longleftrightarrow> n < 4" "bit (0x0F :: u32) n \<longleftrightarrow> n < 4" "bit (0x0F :: nat) n \<longleftrightarrow> n < 4" "bit (0x0F :: int) n \<longleftrightarrow> n < 4"
proof -
  have m: "(0x0F :: u8) = mask 4" "(0x0F :: u32) = mask 4" "(0x0F :: nat) = mask 4" "(0x0F :: int) = mask 4"
    by (simp_all add: mask_eq_exp_minus_1)
  show "bit (0x0F :: u8) n \<longleftrightarrow> n < 4" "bit (0x0F :: u32) n \<longleftrightarrow> n < 4" "bit (0x0F :: nat) n \<longleftrightarrow> n < 4" "bit (0x0F :: int) n \<longleftrightarrow> n < 4"
    unfolding m bit_mask_iff by auto
qed

lemma bit_FF [simp]: "bit (0xFF :: u32) n \<longleftrightarrow> n < 8" "bit (0xFF :: nat) n \<longleftrightarrow> n < 8" "bit (0xFF :: int) n \<longleftrightarrow> n < 8"
proof -
  have m: "(0xFF :: u32) = mask 8" "(0xFF :: nat) = mask 8" "(0xFF :: int) = mask 8"
    by (simp_all add: mask_eq_exp_minus_1)
  show "bit (0xFF :: u32) n \<longleftrightarrow> n < 8" "bit (0xFF :: nat) n \<longleftrightarrow> n < 8" "bit (0xFF :: int) n \<longleftrightarrow> n < 8"
    unfolding m bit_mask_iff by auto
qed

lemma comandar_regs:
  assumes "base = 0xF0 \<or> base = 0xE0" "lba < 2 ^ 28"
  shows "unidade (comandar base lba count cmd a) \<longleftrightarrow> base = 0xF0"
    and "lba28 (comandar base lba count cmd a) = lba"
proof -
  let ?d = "base OR ucast (drop_bit 24 lba AND 0x0F) :: u8"
  have r: "reg_drive (comandar base lba count cmd a) = ?d"
    "reg_low (comandar base lba count cmd a) = ucast (lba AND 0xFF)"
    "reg_mid (comandar base lba count cmd a) = ucast (drop_bit 8 lba AND 0xFF)"
    "reg_high (comandar base lba count cmd a) = ucast (drop_bit 16 lba AND 0xFF)"
    by (simp_all add: comandar_def out_byte_def portas)
  have b4: "\<not> bit (ucast (drop_bit 24 lba AND 0x0F) :: u8) 4" by (simp add: bit_simps)
  show "unidade (comandar base lba count cmd a) \<longleftrightarrow> base = 0xF0"
    using assms(1) b4 by (auto simp: unidade_def r bit_or_iff)
  have d: "?d AND 0x0F = ucast (drop_bit 24 lba AND 0x0F)"
  proof -
    have "base AND 0x0F = 0" using assms(1) by auto
    moreover have "(ucast (drop_bit 24 lba AND 0x0F) :: u8) AND 0x0F = ucast (drop_bit 24 lba AND 0x0F)"
      by (rule bit_word_eqI) (auto simp: bit_simps)
    ultimately show ?thesis by (simp add: bit.conj_disj_distrib2)
  qed
  have hi: "\<not> bit lba n" if "28 \<le> n" for n
  proof -
    have "drop_bit 28 lba = 0"
    proof -
      have "unat (drop_bit 28 lba) = 0"
        unfolding unat_drop_bit_eq using assms(2) by (simp add: drop_bit_eq_div word_less_nat_alt)
      then show ?thesis by (simp add: unat_eq_zero)
    qed
    then have "\<not> bit (drop_bit 28 lba) (n - 28)" by simp
    with that show ?thesis by (simp add: bit_drop_bit_eq)
  qed
  show "lba28 (comandar base lba count cmd a) = lba"
  proof (rule bit_word_eqI)
    fix n assume "n < LENGTH(32)"
    then consider "n < 8" | "8 \<le> n \<and> n < 16" | "16 \<le> n \<and> n < 24" | "24 \<le> n \<and> n < 28" | "28 \<le> n \<and> n < 32" by force
    then show "bit (lba28 (comandar base lba count cmd a)) n = bit lba n"
      unfolding lba28_def r d by cases (use hi in \<open>auto simp: bit_simps\<close>)
  qed
qed


section \<open>A ready controller\<close>

text \<open>What the drive promises when it works: never busy or in error, always with data ready; sectors of
  512 bytes.\<close>

definition saudavel :: "ata \<Rightarrow> bool" where
  "saudavel a \<longleftrightarrow> (\<forall>t. status_em a t AND ATA_SR_BSY = 0 \<and> status_em a t AND ATA_SR_ERR = 0 \<and>
     status_em a t AND ATA_SR_DRQ \<noteq> 0) \<and> (\<forall>u l. length (discos a u l) = 512)"

lemma in_byte_status: "in_byte ATA_STATUS a = (status_em a (relogio a), a\<lparr>relogio := relogio a + 1\<rparr>)"
  by (simp add: in_byte_def portas)

lemma pronto_ok: "saudavel a \<Longrightarrow> ata_esperar_pronto a = (0, a\<lparr>relogio := relogio a + 1\<rparr>)"
  by (simp add: ata_esperar_pronto_def esperar_pronto.simps in_byte_status saudavel_def)

lemma drq_ok: "saudavel a \<Longrightarrow> ata_esperar_drq a = (0, a\<lparr>relogio := relogio a + 1\<rparr>)"
  by (simp add: ata_esperar_drq_def esperar_drq.simps in_byte_status saudavel_def)

lemma saudavel_frame [simp]:
  "saudavel (a\<lparr>relogio := t\<rparr>) = saudavel a" "saudavel (a\<lparr>dev_pos := p\<rparr>) = saudavel a"
  "saudavel (comandar base lba count cmd a) = saudavel a"
  by (simp_all add: saudavel_def comandar_def out_byte_def portas)

lemma le_rd16: "k + 2 \<le> length b \<Longrightarrow> le16 (rd16 b k) = slice b k 2"
proof -
  assume k: "k + 2 \<le> length b"
  have "le16 (rd16 b k) = [b ! k, b ! (k + 1)]"
    unfolding le16_def rd16_def by (auto intro!: bit_word_eqI simp: bit_simps)
  also have "\<dots> = slice b k 2" using k by (simp add: slice_def numeral_2_eq_2 take_Suc_conv_app_nth)
  finally show ?thesis .
qed

lemma slice_join: "slice b k m @ slice b (k + m) n = slice b k (m + n)"
  by (simp add: slice_def take_add drop_drop add.commute)

lemma splice_join: "k + length xs + length ys \<le> length b \<Longrightarrow> splice (splice b k xs) (k + length xs) ys = splice b k (xs @ ys)"
  by (cases xs) (auto simp: splice_def min_def ac_simps)

text \<open>A run of 256 words through the data port moves one sector.\<close>

definition atual_setor :: "ata \<Rightarrow> setor" where
  "atual_setor a = discos a (unidade a) (lba28 a + of_nat (dev_pos a div 256))"

lemma avanca_pos [simp]:
  "unidade (a\<lparr>dev_pos := p\<rparr>) = unidade a" "lba28 (a\<lparr>dev_pos := p\<rparr>) = lba28 a"
  "unidade (a\<lparr>relogio := t\<rparr>) = unidade a" "lba28 (a\<lparr>relogio := t\<rparr>) = lba28 a"
  "unidade (a\<lparr>dev_buf := b\<rparr>) = unidade a" "lba28 (a\<lparr>dev_buf := b\<rparr>) = lba28 a"
  by (simp_all add: unidade_def lba28_def)

lemma ler_palavras_ok:
  assumes "saudavel a" "dev_pos a = 256 * s + i" "i + n = 256" "off + 512 \<le> length b"
  shows "ler_palavras off i n b a =
    (splice b (off + 2 * i) (slice (discos a (unidade a) (lba28 a + of_nat s)) (2 * i) (2 * n)),
     a\<lparr>dev_pos := 256 * s + 256\<rparr>)"
  using assms
proof (induction n arbitrary: i b a)
  case 0
  then show ?case by (simp add: splice_def slice_def)
next
  case (Suc n)
  let ?S = "discos a (unidade a) (lba28 a + of_nat s)"
  have l: "length ?S = 512" using Suc.prems(1) by (simp add: saudavel_def)
  have i: "i < 256" using Suc.prems(3) by simp
  have p: "dev_pos a div 256 = s" "dev_pos a mod 256 = i" using Suc.prems(2) i by simp_all
  have w: "in_word a = (rd16 ?S (2 * i), a\<lparr>dev_pos := 256 * s + Suc i\<rparr>)"
    using Suc.prems(2) unfolding in_word_def p by simp
  have c: "le16 (rd16 ?S (2 * i)) = slice ?S (2 * i) 2" using l i by (intro le_rd16) simp
  have ls: "length (slice ?S (2 * i) 2) = 2" using l i by simp
  have "ler_palavras off i (Suc n) b a =
      ler_palavras off (Suc i) n (splice b (off + 2 * i) (slice ?S (2 * i) 2)) (a\<lparr>dev_pos := 256 * s + Suc i\<rparr>)"
    by (simp add: w c)
  also have "\<dots> = (splice (splice b (off + 2 * i) (slice ?S (2 * i) 2)) (off + 2 * Suc i) (slice ?S (2 * Suc i) (2 * n)),
      a\<lparr>dev_pos := 256 * s + 256\<rparr>)"
    using Suc.IH [of "a\<lparr>dev_pos := 256 * s + Suc i\<rparr>" "Suc i" "splice b (off + 2 * i) (slice ?S (2 * i) 2)"] Suc.prems ls
    by simp
  also have "splice (splice b (off + 2 * i) (slice ?S (2 * i) 2)) (off + 2 * Suc i) (slice ?S (2 * Suc i) (2 * n)) =
      splice b (off + 2 * i) (slice ?S (2 * i) (2 * Suc n))"
    using splice_join [of "off + 2 * i" "slice ?S (2 * i) 2" "slice ?S (2 * Suc i) (2 * n)" b]
      slice_join [of ?S "2 * i" 2 "2 * n"] ls l Suc.prems by simp
  finally show ?case .
qed

lemma gravar_palavras_ok:
  assumes "dev_pos a = 256 * s + i" "dev_buf a = slice b off (2 * i)" "i + n = 256" "off + 512 \<le> length b" "0 < n"
  shows "gravar_palavras off i n b a =
    a\<lparr>dev_pos := 256 * s + 256, dev_buf := [],
      discos := (discos a)(unidade a := (discos a (unidade a))(lba28 a + of_nat s := slice b off 512)),
      escritas := escritas a @ [(unidade a, lba28 a + of_nat s, slice b off 512)]\<rparr>"
  using assms
proof (induction n arbitrary: i a)
  case 0
  from 0(5) have False by simp
  then show ?case ..
next
  case (Suc n)
  have i: "i < 256" using Suc.prems(3) by simp
  have p: "dev_pos a div 256 = s" using Suc.prems(1) i by simp
  have c: "le16 (rd16 b (off + 2 * i)) = slice b (off + 2 * i) 2" using Suc.prems(4) i by (intro le_rd16) simp
  have bf: "dev_buf a @ le16 (rd16 b (off + 2 * i)) = slice b off (2 * Suc i)"
    using Suc.prems(2) c slice_join [of b off "2 * i" 2] by simp
  have lb: "length (slice b off (2 * Suc i)) = 2 * Suc i" using Suc.prems(4) i by simp
  show ?case
  proof (cases "n = 0")
    case True
    then have i255: "2 * Suc i = 512" "Suc (dev_pos a) = 256 * s + 256" using Suc.prems(1,3) by simp_all
    note bf' = bf [unfolded i255(1)] and lb' = lb [unfolded i255(1)]
    have "out_word (rd16 b (off + 2 * i)) a =
      a\<lparr>dev_pos := Suc (dev_pos a), dev_buf := [],
        discos := (discos a)(unidade a := (discos a (unidade a))(lba28 a + of_nat s := slice b off 512)),
        escritas := escritas a @ [(unidade a, lba28 a + of_nat s, slice b off 512)]\<rparr>"
      unfolding out_word_def Let_def bf' p using lb' by simp
    then show ?thesis unfolding i255(2) True by (simp only: gravar_palavras.simps)
  next
    case False
    let ?a = "a\<lparr>dev_pos := 256 * s + Suc i, dev_buf := slice b off (2 * Suc i)\<rparr>"
    have "out_word (rd16 b (off + 2 * i)) a = ?a"
      using False Suc.prems(1,3) bf lb by (simp add: out_word_def Let_def)
    then have "gravar_palavras off i (Suc n) b a = gravar_palavras off (Suc i) n b ?a"
      by (simp only: gravar_palavras.simps)
    also have "\<dots> = a\<lparr>dev_pos := 256 * s + 256, dev_buf := [],
      discos := (discos a)(unidade a := (discos a (unidade a))(lba28 a + of_nat s := slice b off 512)),
      escritas := escritas a @ [(unidade a, lba28 a + of_nat s, slice b off 512)]\<rparr>"
    proof -
      have pre: "dev_pos ?a = 256 * s + Suc i" "dev_buf ?a = slice b off (2 * Suc i)" "Suc i + n = 256" "0 < n"
        using Suc.prems(3) False by simp_all
      have u: "unidade ?a = unidade a" "lba28 ?a = lba28 a" "discos ?a = discos a" "escritas ?a = escritas a" by simp_all
      show ?thesis unfolding Suc.IH [OF pre(1-3) Suc.prems(4) pre(4)] u by (cases a) (simp del: fun_upd_apply)
    qed
    finally show ?thesis .
  qed
qed


section \<open>Whole transfers\<close>

text \<open>What the file systems see of the controller state: the flags and the sectors.\<close>

definition visao :: "ata \<Rightarrow> bool \<times> bool \<times> (bool \<Rightarrow> u32 \<Rightarrow> setor) \<times> (nat \<Rightarrow> u8) \<times> (bool \<times> u32 \<times> setor) list" where
  "visao a = (disco_presente a, disco1_presente a, discos a, status_em a, escritas a)"

lemma visao_saudavel: "visao a = visao b \<Longrightarrow> saudavel a = saudavel b"
  by (simp add: visao_def saudavel_def)

lemma visao_frame [simp]:
  "visao (a\<lparr>relogio := t\<rparr>) = visao a" "visao (a\<lparr>dev_pos := p\<rparr>) = visao a"
  "visao (comandar base lba count cmd a) = visao a"
  by (simp_all add: visao_def comandar_def out_byte_def portas)

definition setores_de :: "ata \<Rightarrow> bool \<Rightarrow> u32 \<Rightarrow> nat \<Rightarrow> u8 list" where
  "setores_de a u lba n = concat (map (\<lambda>s. discos a u (lba + of_nat s)) [0..<n])"

lemma setores_de_frame [simp]:
  "setores_de (a\<lparr>relogio := t\<rparr>) = setores_de a" "setores_de (a\<lparr>dev_pos := p\<rparr>) = setores_de a"
  "setores_de (comandar base l count cmd a) = setores_de a"
  by (simp_all add: setores_de_def fun_eq_iff comandar_def out_byte_def portas)

lemma length_setores_de: "saudavel a \<Longrightarrow> length (setores_de a u lba n) = 512 * n"
  by (induction n) (simp_all add: setores_de_def saudavel_def)

lemma ler_setores_ok:
  assumes "saudavel a" "dev_pos a = 256 * s" "512 * (s + n) \<le> length b" "b = splice b0 0 (setores_de a (unidade a) (lba28 a) s)"
    "length b0 = length b"
  shows "\<exists>a'. ler_setores s n b a = (0, splice b0 0 (setores_de a (unidade a) (lba28 a) (s + n)), a') \<and> visao a' = visao a"
  using assms
proof (induction n arbitrary: s b a)
  case (Suc n)
  let ?a = "a\<lparr>relogio := relogio a + 1\<rparr>" and ?u = "unidade a" and ?l = "lba28 a"
  have S: "length (discos a ?u (?l + of_nat s)) = 512" using Suc.prems(1) by (simp add: saudavel_def)
  have w: "ler_palavras (s * 512) 0 256 b ?a =
      (splice b (s * 512) (discos a ?u (?l + of_nat s)), ?a\<lparr>dev_pos := 256 * s + 256\<rparr>)"
    using ler_palavras_ok [of ?a s 0 256 "s * 512" b] Suc.prems(1-3) slice_all [of "discos a ?u (?l + of_nat s)"] S by simp
  have sp: "splice b (s * 512) (discos a ?u (?l + of_nat s)) = splice b0 0 (setores_de a ?u ?l (Suc s))"
  proof -
    have "length (setores_de a ?u ?l s) = s * 512" using length_setores_de [OF Suc.prems(1)] by simp
    then have "splice (splice b0 0 (setores_de a ?u ?l s)) (s * 512) (discos a ?u (?l + of_nat s)) =
        splice b0 0 (setores_de a ?u ?l s @ discos a ?u (?l + of_nat s))"
      using splice_join [of 0 "setores_de a ?u ?l s" "discos a ?u (?l + of_nat s)" b0] Suc.prems(3,5) S by simp
    with Suc.prems(4) show ?thesis by (simp add: setores_de_def)
  qed
  let ?a2 = "?a\<lparr>dev_pos := 256 * Suc s\<rparr>" and ?b = "splice b0 0 (setores_de a ?u ?l (Suc s))"
  have lb: "length ?b = length b"
    using Suc.prems(3,5) length_setores_de [OF Suc.prems(1), of ?u ?l "Suc s"] by simp
  have "ler_setores s (Suc n) b a = ler_setores (Suc s) n ?b ?a2"
    using drq_ok [OF Suc.prems(1)] w sp by (simp add: SETOR_SIZE_def add.commute)
  moreover have "\<exists>a'. ler_setores (Suc s) n ?b ?a2 =
      (0, splice b0 0 (setores_de ?a2 (unidade ?a2) (lba28 ?a2) (Suc s + n)), a') \<and> visao a' = visao ?a2"
    by (rule Suc.IH) (use Suc.prems(1,3,5) lb in simp_all)
  ultimately show ?case by simp
qed auto

lemma ata_ler_ok:
  assumes "saudavel a" "count \<noteq> 0" "512 * unat count \<le> length b" "lba < 2 ^ 28"
  shows "disco1_presente a \<Longrightarrow> \<exists>a'. ata_ler1 lba count b a = (0, splice b 0 (setores_de a True lba (unat count)), a') \<and> visao a' = visao a"
    and "disco_presente a \<Longrightarrow> \<exists>a'. ata_ler lba count b a = (0, splice b 0 (setores_de a False lba (unat count)), a') \<and> visao a' = visao a"
proof -
  let ?c = "\<lambda>base. comandar base lba count ATA_CMD_READ (a\<lparr>relogio := relogio a + 1\<rparr>)"
  have p0: "dev_pos (?c base) = 256 * 0" for base by (simp add: comandar_def out_byte_def portas)
  have z: "b = splice b 0 (setores_de (?c base) u l 0)" for base u l by (simp add: setores_de_def splice_def)
  have g: "\<exists>a'. ler_setores 0 (unat count) b (?c base) = (0, splice b 0 (setores_de a (base = 0xF0) lba (unat count)), a') \<and> visao a' = visao a"
    if "base = 0xF0 \<or> base = 0xE0" for base
    using ler_setores_ok [of "?c base" 0 "unat count" b b, OF _ p0 _ z] assms(1,3) comandar_regs [OF that assms(4)]
    by simp
  show "disco1_presente a \<Longrightarrow> \<exists>a'. ata_ler1 lba count b a = (0, splice b 0 (setores_de a True lba (unat count)), a') \<and> visao a' = visao a"
    using g [of "0xF0"] assms(2) pronto_ok [OF assms(1)] by (simp add: ata_ler1_def)
  show "disco_presente a \<Longrightarrow> \<exists>a'. ata_ler lba count b a = (0, splice b 0 (setores_de a False lba (unat count)), a') \<and> visao a' = visao a"
    using g [of "0xE0"] assms(2) pronto_ok [OF assms(1)] by (simp add: ata_ler_def)
qed

text \<open>The drive after a list of sector writes.\<close>

fun aplicar :: "(u32 \<times> setor) list \<Rightarrow> (u32 \<Rightarrow> setor) \<Rightarrow> (u32 \<Rightarrow> setor)" where
  "aplicar [] d = d"
| "aplicar ((l, b) # ws) d = aplicar ws (d(l := b))"

lemma aplicar_append: "aplicar (xs @ ys) d = aplicar ys (aplicar xs d)"
  by (induction xs d rule: aplicar.induct) (simp_all del: fun_upd_apply)

definition pedacos :: "u32 \<Rightarrow> u8 list \<Rightarrow> nat \<Rightarrow> nat \<Rightarrow> (u32 \<times> setor) list" where
  "pedacos lba b s n = map (\<lambda>k. (lba + of_nat k, slice b (k * 512) 512)) [s..<s + n]"

definition gravado :: "ata \<Rightarrow> bool \<Rightarrow> (u32 \<times> setor) list \<Rightarrow> ata \<Rightarrow> bool" where
  "gravado a u ws a' \<longleftrightarrow> disco_presente a' = disco_presente a \<and> disco1_presente a' = disco1_presente a \<and>
     status_em a' = status_em a \<and> discos a' = (discos a)(u := aplicar ws (discos a u)) \<and>
     escritas a' = escritas a @ map (Pair u) ws"

lemma gravado_frame [simp]:
  "gravado (a\<lparr>relogio := t\<rparr>) = gravado a" "gravado (comandar base l count cmd a) = gravado a"
  by (simp_all add: gravado_def fun_eq_iff comandar_def out_byte_def portas)

lemma gravar_setores_ok:
  assumes "saudavel a" "dev_pos a = 256 * s" "dev_buf a = []" "512 * (s + n) \<le> length b"
  shows "\<exists>a'. gravar_setores s n b a = (0, a') \<and> gravado a (unidade a) (pedacos (lba28 a) b s n) a'"
  using assms
proof (induction n arbitrary: s a)
  case 0
  then show ?case by (simp add: pedacos_def gravado_def)
next
  case (Suc n)
  let ?a = "a\<lparr>relogio := relogio a + 1\<rparr>" and ?S = "slice b (s * 512) 512"
  let ?a2 = "?a\<lparr>dev_pos := 256 * s + 256, dev_buf := [],
      discos := (discos a)(unidade a := (discos a (unidade a))(lba28 a + of_nat s := ?S)),
      escritas := escritas a @ [(unidade a, lba28 a + of_nat s, ?S)]\<rparr>"
  have w: "gravar_palavras (s * 512) 0 256 b ?a = ?a2"
    using gravar_palavras_ok [of ?a s 0 b "s * 512" 256] Suc.prems by (simp add: slice_def)
  have "saudavel ?a2" using Suc.prems(1,4) by (simp add: saudavel_def)
  then obtain a' where a': "gravar_setores (Suc s) n b ?a2 = (0, a')"
    "gravado ?a2 (unidade ?a2) (pedacos (lba28 ?a2) b (Suc s) n) a'"
    using Suc.IH [of ?a2 "Suc s"] Suc.prems by auto
  have "gravar_setores s (Suc n) b a = gravar_setores (Suc s) n b ?a2"
    using drq_ok [OF Suc.prems(1)] w by (simp add: SETOR_SIZE_def)
  moreover have "unidade ?a2 = unidade a" "lba28 ?a2 = lba28 a" by (simp_all add: unidade_def lba28_def)
  moreover have "pedacos (lba28 a) b s (Suc n) = (lba28 a + of_nat s, ?S) # pedacos (lba28 a) b (Suc s) n"
    by (simp add: pedacos_def upt_conv_Cons del: upt_Suc)
  ultimately show ?case using a' by (simp add: gravado_def)
qed

lemma ata_gravar_ok:
  assumes "saudavel a" "count \<noteq> 0" "512 * unat count \<le> length b" "lba < 2 ^ 28"
  shows "disco1_presente a \<Longrightarrow> \<exists>a'. ata_gravar1 lba count b a = (0, a') \<and> gravado a True (pedacos lba b 0 (unat count)) a'"
    and "disco_presente a \<Longrightarrow> \<exists>a'. ata_gravar lba count b a = (0, a') \<and> gravado a False (pedacos lba b 0 (unat count)) a'"
proof -
  let ?c = "\<lambda>base. comandar base lba count ATA_CMD_WRITE (a\<lparr>relogio := relogio a + 1\<rparr>)"
  have p0: "dev_pos (?c base) = 256 * 0" "dev_buf (?c base) = []" for base by (simp_all add: comandar_def out_byte_def portas)
  have g: "\<exists>a'. gravar_setores 0 (unat count) b (?c base) = (0, a') \<and> gravado a (base = 0xF0) (pedacos lba b 0 (unat count)) a'"
    if "base = 0xF0 \<or> base = 0xE0" for base
    using gravar_setores_ok [of "?c base" 0 "unat count" b, OF _ p0] assms(1,3) comandar_regs [OF that assms(4)]
    by simp
  show "disco1_presente a \<Longrightarrow> \<exists>a'. ata_gravar1 lba count b a = (0, a') \<and> gravado a True (pedacos lba b 0 (unat count)) a'"
    using g [of "0xF0"] assms(2) pronto_ok [OF assms(1)] by (simp add: ata_gravar1_def)
  show "disco_presente a \<Longrightarrow> \<exists>a'. ata_gravar lba count b a = (0, a') \<and> gravado a False (pedacos lba b 0 (unat count)) a'"
    using g [of "0xE0"] assms(2) pronto_ok [OF assms(1)] by (simp add: ata_gravar_def)
qed

lemma gravado_saudavel: "saudavel a \<Longrightarrow> gravado a u ws a' \<Longrightarrow> (\<forall>(l, b) \<in> set ws. length b = 512) \<Longrightarrow> saudavel a'"
proof -
  have "(\<forall>(l, b) \<in> set ws. length b = 512) \<Longrightarrow> (\<forall>l. length (d l) = 512) \<Longrightarrow> length (aplicar ws d l) = 512" for d l
    by (induction ws d rule: aplicar.induct) auto
  then show "saudavel a \<Longrightarrow> gravado a u ws a' \<Longrightarrow> (\<forall>(l, b) \<in> set ws. length b = 512) \<Longrightarrow> saudavel a'"
    by (auto simp: saudavel_def gravado_def)
qed


section \<open>The block device contract\<close>

text \<open>One-sector access to drive 1.  \<open>disp s d\<close> says that in state \<open>s\<close> the device works and holds \<open>d\<close>;
  \<open>hist s\<close> is the list of its writes.\<close>

locale bloco_disp =
  fixes ler :: "u32 \<Rightarrow> setor \<Rightarrow> 's \<Rightarrow> int \<times> setor \<times> 's"
    and gravar :: "u32 \<Rightarrow> setor \<Rightarrow> 's \<Rightarrow> int \<times> 's"
    and disp :: "'s \<Rightarrow> (u32 \<Rightarrow> setor) \<Rightarrow> bool"
    and hist :: "'s \<Rightarrow> (u32 \<times> setor) list"
    and limite :: u32
  assumes ler_lei: "disp s d \<Longrightarrow> l < limite \<Longrightarrow> length b = 512 \<Longrightarrow>
      \<exists>s'. ler l b s = (0, d l, s') \<and> disp s' d \<and> hist s' = hist s"
    and gravar_lei: "disp s d \<Longrightarrow> l < limite \<Longrightarrow> length b = 512 \<Longrightarrow>
      \<exists>s'. gravar l b s = (0, s') \<and> disp s' (d(l := b)) \<and> hist s' = hist s @ [(l, b)]"
    and tamanho: "disp s d \<Longrightarrow> length (d l) = 512"
begin

lemma ler_depois_de_gravar:
  assumes "disp s d" "l < limite" "m < limite" "length b = 512" "length c = 512"
  obtains s1 s2 where "gravar l b s = (0, s1)" "ler m c s1 = (0, if m = l then b else d m, s2)"
    "disp s2 (d(l := b))" "hist s2 = hist s @ [(l, b)]"
proof -
  obtain s1 where s1: "gravar l b s = (0, s1)" "disp s1 (d(l := b))" "hist s1 = hist s @ [(l, b)]"
    using gravar_lei [OF assms(1,2,4)] by blast
  with ler_lei [OF s1(2) assms(3,5)] that show ?thesis by auto
qed

end

definition disp1 :: "ata \<Rightarrow> (u32 \<Rightarrow> setor) \<Rightarrow> bool" where
  "disp1 a d \<longleftrightarrow> saudavel a \<and> disco1_presente a \<and> discos a True = d"

definition hist1 :: "ata \<Rightarrow> (u32 \<times> setor) list" where
  "hist1 a = map snd (filter fst (escritas a))"

interpretation d1: bloco_disp "\<lambda>l b. ata_ler1 l 1 b" "\<lambda>l b. ata_gravar1 l 1 b" disp1 hist1 "2 ^ 28"
proof
  fix s d and l :: u32 and b :: setor assume h: "disp1 s d" "l < 2 ^ 28" "length b = 512"
  then obtain s' where s': "ata_ler1 l 1 b s = (0, splice b 0 (setores_de s True l 1), s')" "visao s' = visao s"
    using ata_ler_ok(1) [of s 1 b l] by (auto simp: disp1_def)
  have "length (d l) = 512" using h(1) by (auto simp: disp1_def saudavel_def)
  then have "splice b 0 (setores_de s True l 1) = d l"
    using h by (simp add: setores_de_def splice_def disp1_def)
  moreover have "disp1 s' d" "hist1 s' = hist1 s"
    using h(1) s'(2) visao_saudavel [OF s'(2)] by (simp_all add: disp1_def visao_def hist1_def)
  ultimately show "\<exists>s'. ata_ler1 l 1 b s = (0, d l, s') \<and> disp1 s' d \<and> hist1 s' = hist1 s" using s' by auto
next
  fix s d and l :: u32 and b :: setor assume h: "disp1 s d" "l < 2 ^ 28" "length b = 512"
  then obtain s' where s': "ata_gravar1 l 1 b s = (0, s')" "gravado s True (pedacos l b 0 1) s'"
    using ata_gravar_ok(1) [of s 1 b l] by (auto simp: disp1_def)
  have p: "pedacos l b 0 1 = [(l, b)]" using h(3) slice_all [of b] by (simp add: pedacos_def)
  have "saudavel s'"
    by (rule gravado_saudavel [OF _ s'(2)]) (use h(1,3) in \<open>simp_all only: p disp1_def, simp_all\<close>)
  then have "disp1 s' (d(l := b))" "hist1 s' = hist1 s @ [(l, b)]"
    using s'(2) [unfolded p] h(1) by (auto simp: disp1_def gravado_def hist1_def)
  then show "\<exists>s'. ata_gravar1 l 1 b s = (0, s') \<and> disp1 s' (d(l := b)) \<and> hist1 s' = hist1 s @ [(l, b)]"
    using s'(1) by blast
qed (auto simp: disp1_def saudavel_def)

section \<open>Properties\<close>

lemma unat_mais: "unat (x :: u32) + k < 2 ^ 32 \<Longrightarrow> unat (x + of_nat k) = unat x + k"
proof -
  assume h: "unat x + k < 2 ^ 32"
  then have "unat (of_nat k :: u32) = k" by (simp add: unat_of_nat take_bit_nat_eq_self)
  with h show ?thesis by (subst unat_add_lem [THEN iffD1]) simp_all
qed


definition ata_exemplo :: ata where
  "ata_exemplo = \<lparr>disco_presente = True, disco1_presente = True, status_em = (\<lambda>_. 0x48), relogio = 0,
     reg_drive = 0, reg_count = 0, reg_low = 0, reg_mid = 0, reg_high = 0, reg_cmd = 0, id_mid = 0, id_high = 0,
     discos = (\<lambda>_ _. replicate 512 0), dev_pos = 0, dev_buf = [], escritas = []\<rparr>"

lemma ata_exemplo_ok: "saudavel ata_exemplo" "disco1_presente ata_exemplo" "disp1 ata_exemplo (\<lambda>_. replicate 512 0)"
  by (simp_all add: saudavel_def disp1_def ata_exemplo_def ATA_SR_BSY_def ATA_SR_ERR_def ATA_SR_DRQ_def)


text \<open>a controller that never becomes ready cannot hang the kernel or corrupt a disk: if the status always
  shows busy, every read and write of either drive answers -1 after exactly 100001 polls, with the buffer
  and both disks as before.\<close>

theorem ata_ocupado:
  assumes "\<forall>t. status_em a t AND ATA_SR_BSY \<noteq> 0" "disco_presente a" "disco1_presente a" "count \<noteq> 0"
  shows "ata_ler1 lba count b a = (- 1, b, a\<lparr>relogio := relogio a + 100001\<rparr>) \<and>
    ata_ler lba count b a = (- 1, b, a\<lparr>relogio := relogio a + 100001\<rparr>) \<and>
    ata_gravar1 lba count b a = (- 1, a\<lparr>relogio := relogio a + 100001\<rparr>) \<and>
    ata_gravar lba count b a = (- 1, a\<lparr>relogio := relogio a + 100001\<rparr>)"
proof -
  have "esperar_pronto r a = (- 1, a\<lparr>relogio := relogio a + Suc r\<rparr>)" if "\<forall>t. status_em a t AND ATA_SR_BSY \<noteq> 0" for r a
    using that by (induction r arbitrary: a) (simp_all add: esperar_pronto.simps in_byte_status)
  from this [OF assms(1), of 100000] have "ata_esperar_pronto a = (- 1, a\<lparr>relogio := relogio a + 100001\<rparr>)"
    by (simp only: ata_esperar_pronto_def) simp
  then show ?thesis
    using assms by (simp add: ata_ler1_def ata_ler_def ata_gravar1_def ata_gravar_def)
qed

theorem ata_ocupado_witness:
  "ata_ler1 5 1 [] (ata_exemplo\<lparr>status_em := \<lambda>_. 0x80\<rparr>) =
     (- 1, [], ata_exemplo\<lparr>status_em := \<lambda>_. 0x80, relogio := 100001\<rparr>)"
  using ata_ocupado [of "ata_exemplo\<lparr>status_em := \<lambda>_. 0x80\<rparr>" 1 5 "[]"]
  by (simp add: ata_exemplo_def ATA_SR_BSY_def)

end
