(* ===== verification/Journal.thy ===== *)
theory Journal
  imports Ata
begin

text \<open>
  \<^verbatim>\<open>kernel/fs/journal.c\<close>: the write-ahead log of SpaceFS on drive 1, and the journaled sector write
  of \<^verbatim>\<open>spacefs.c\<close> that uses it.  The packed structures are records with their byte layout
  (\<open>meta_bytes\<close>, \<open>hdr_bytes\<close>); the loops over the ring of entries follow indices read from the disk, so
  they are \<open>partial_function (option)\<close>.

  \<open>journal_ok\<close> is the invariant between operations.  It speaks of the entries a power cut may have left
  uncommitted: their transaction ids are ones that no write will use before the entry is overwritten.
\<close>

section \<open>Structures and state\<close>

record j_meta =
  jm_magic :: u32
  jm_head :: u32
  jm_tail :: u32
  jm_next :: u32
  jm_pad :: "u8 list"

record j_entry_hdr =
  jh_txid :: u32
  jh_block :: u32
  jh_committed :: u32
  jh_checksum :: u32
  jh_pad :: "u8 list"

definition meta_bytes :: "j_meta \<Rightarrow> setor" where
  "meta_bytes m = le32 (jm_magic m) @ le32 (jm_head m) @ le32 (jm_tail m) @ le32 (jm_next m) @ jm_pad m"

definition meta_of :: "setor \<Rightarrow> j_meta" where
  "meta_of b = \<lparr>jm_magic = rd32 b 0, jm_head = rd32 b 4, jm_tail = rd32 b 8, jm_next = rd32 b 12, jm_pad = slice b 16 496\<rparr>"

definition hdr_bytes :: "j_entry_hdr \<Rightarrow> setor" where
  "hdr_bytes h = le32 (jh_txid h) @ le32 (jh_block h) @ le32 (jh_committed h) @ le32 (jh_checksum h) @ jh_pad h"

definition hdr_of :: "setor \<Rightarrow> j_entry_hdr" where
  "hdr_of b = \<lparr>jh_txid = rd32 b 0, jh_block = rd32 b 4, jh_committed = rd32 b 8, jh_checksum = rd32 b 12, jh_pad = slice b 16 496\<rparr>"

record jornal =
  j_ata :: ata
  jmeta :: j_meta
  j_ok :: bool

definition J_META_SECTOR :: u32 where "J_META_SECTOR = 35"
definition J_DATA_START :: u32 where "J_DATA_START = 36"
definition J_MAX_ENTRIES :: u32 where "J_MAX_ENTRIES = 31"
definition J_ENTRY_SECS :: u32 where "J_ENTRY_SECS = 2"
definition J_MAGIC :: u32 where "J_MAGIC = 0x4A524E4C"

lemmas j_consts = J_META_SECTOR_def J_DATA_START_def J_MAX_ENTRIES_def J_ENTRY_SECS_def

section \<open>Operations\<close>

text \<open>The one-sector accesses of the module, on the whole state.\<close>

definition j_ler :: "u32 \<Rightarrow> setor \<Rightarrow> 'a jornal_scheme \<Rightarrow> int \<times> setor \<times> 'a jornal_scheme" where
  "j_ler l b s = (let (r, b, a) = ata_ler1 l 1 b (j_ata s) in (r, b, s\<lparr>j_ata := a\<rparr>))"

definition j_gravar :: "u32 \<Rightarrow> setor \<Rightarrow> 'a jornal_scheme \<Rightarrow> int \<times> 'a jornal_scheme" where
  "j_gravar l b s = (let (r, a) = ata_gravar1 l 1 b (j_ata s) in (r, s\<lparr>j_ata := a\<rparr>))"

definition djb2 :: "u8 list \<Rightarrow> u32" where
  "djb2 d = fold (\<lambda>x h. (push_bit 5 h + h) + ucast x) d 5381"

definition j_flush_meta :: "'a jornal_scheme \<Rightarrow> 'a jornal_scheme" where
  "j_flush_meta s = snd (j_gravar J_META_SECTOR (meta_bytes (jmeta s)) s)"

definition j_entry_sector :: "u32 \<Rightarrow> u32" where
  "j_entry_sector idx = J_DATA_START + (idx mod J_MAX_ENTRIES) * J_ENTRY_SECS"

definition journal_init :: "'a jornal_scheme \<Rightarrow> 'a jornal_scheme" where
  "journal_init s =
     (if \<not> ata_presente1 (j_ata s) then s
      else let (r, b, s) = j_ler J_META_SECTOR (meta_bytes (jmeta s)) s; s = s\<lparr>jmeta := meta_of b\<rparr> in
        if r \<noteq> 0 then s
        else let s = (if jm_magic (jmeta s) \<noteq> J_MAGIC
            then j_flush_meta (s\<lparr>jmeta := \<lparr>jm_magic = J_MAGIC, jm_head = 0, jm_tail = 0, jm_next = 0, jm_pad = replicate 496 0\<rparr>\<rparr>)
            else s)
          in s\<lparr>j_ok := True\<rparr>)"

definition hdr0 :: setor where "hdr0 = replicate 512 0"

partial_function (option) recover_loop :: "u32 \<Rightarrow> setor \<Rightarrow> 'a jornal_scheme \<Rightarrow> 'a jornal_scheme option" where
  "recover_loop idx data s =
     (if idx = jm_tail (jmeta s) then Some s
      else let sec = j_entry_sector idx; (r, h, s) = j_ler sec hdr0 s in
        if r \<noteq> 0 then Some s
        else let (data, s) =
            (if jh_committed (hdr_of h) = 0 then
               let (r, data, s) = j_ler (sec + 1) data s in
               if r = 0 then (data, snd (j_gravar (jh_block (hdr_of h)) data s)) else (data, s)
             else (data, s))
          in recover_loop ((idx + 1) mod J_MAX_ENTRIES) data s)"

definition journal_recover :: "'a jornal_scheme \<Rightarrow> 'a jornal_scheme option" where
  "journal_recover s =
     (if \<not> j_ok s then Some s
      else case recover_loop (jm_head (jmeta s)) hdr0 s of None \<Rightarrow> None
      | Some s \<Rightarrow> Some (j_flush_meta (s\<lparr>jmeta := (jmeta s)\<lparr>jm_head := jm_tail (jmeta s)\<rparr>\<rparr>)))"

definition journal_begin :: "u32 \<Rightarrow> setor \<Rightarrow> 'a jornal_scheme \<Rightarrow> u32 \<times> 'a jornal_scheme" where
  "journal_begin block_num new_data s =
     (if \<not> j_ok s then (0, s)
      else let m = jmeta s; sec = j_entry_sector (jm_tail m);
               h = \<lparr>jh_txid = jm_next m, jh_block = block_num, jh_committed = 0,
                    jh_checksum = djb2 (slice new_data 0 512), jh_pad = replicate 496 0\<rparr>;
               s = snd (j_gravar sec (hdr_bytes h) s);
               s = snd (j_gravar (sec + 1) new_data s);
               s = s\<lparr>jmeta := m\<lparr>jm_tail := (jm_tail m + 1) mod J_MAX_ENTRIES, jm_next := jm_next m + 1\<rparr>\<rparr>
           in (jm_next m, j_flush_meta s))"

text \<open>The search for the transaction, \<open>n\<close> entries from \<open>i\<close> on; then the advance of the head.\<close>

fun commit_busca :: "u32 \<Rightarrow> nat \<Rightarrow> nat \<Rightarrow> 'a jornal_scheme \<Rightarrow> 'a jornal_scheme" where
  "commit_busca tx_id i 0 s = s"
| "commit_busca tx_id i (Suc n) s =
     (let sec = j_entry_sector (of_nat i); (r, h, s) = j_ler sec hdr0 s in
      if r \<noteq> 0 then commit_busca tx_id (Suc i) n s
      else if jh_txid (hdr_of h) = tx_id \<and> jh_committed (hdr_of h) = 0 then
        snd (j_gravar sec (hdr_bytes ((hdr_of h)\<lparr>jh_committed := 1\<rparr>)) s)
      else commit_busca tx_id (Suc i) n s)"

partial_function (option) avanca_head :: "'a jornal_scheme \<Rightarrow> 'a jornal_scheme option" where
  "avanca_head s =
     (if jm_head (jmeta s) = jm_tail (jmeta s) then Some s
      else let (r, h, s) = j_ler (j_entry_sector (jm_head (jmeta s))) hdr0 s in
        if r \<noteq> 0 \<or> jh_committed (hdr_of h) = 0 then Some s
        else avanca_head (s\<lparr>jmeta := (jmeta s)\<lparr>jm_head := (jm_head (jmeta s) + 1) mod J_MAX_ENTRIES\<rparr>\<rparr>))"

definition journal_commit :: "u32 \<Rightarrow> 'a jornal_scheme \<Rightarrow> 'a jornal_scheme option" where
  "journal_commit tx_id s =
     (if \<not> j_ok s then Some s
      else map_option j_flush_meta (avanca_head (commit_busca tx_id 0 (unat J_MAX_ENTRIES) s)))"

definition sfs_write_sec :: "u32 \<Rightarrow> setor \<Rightarrow> 'a jornal_scheme \<Rightarrow> (int \<times> 'a jornal_scheme) option" where
  "sfs_write_sec sec buf s =
     (let (txid, s) = journal_begin sec buf s; (ret, s) = j_gravar sec buf s in
      map_option (Pair ret) (journal_commit txid s))"

section \<open>Layout\<close>

lemma meta_roundtrip [simp]: "length (jm_pad m) = 496 \<Longrightarrow> meta_of (meta_bytes m) = m"
  by (cases m) (simp add: meta_of_def meta_bytes_def rd32_append_ge rd32_append_lt slice_def)

lemma hdr_roundtrip [simp]: "length (jh_pad h) = 496 \<Longrightarrow> hdr_of (hdr_bytes h) = h"
  by (cases h) (simp add: hdr_of_def hdr_bytes_def rd32_append_ge rd32_append_lt slice_def)

lemma bytes_length [simp]:
  "length (jm_pad m) = 496 \<Longrightarrow> length (meta_bytes m) = 512"
  "length (jh_pad h) = 496 \<Longrightarrow> length (hdr_bytes h) = 512"
  by (simp_all add: meta_bytes_def hdr_bytes_def)

lemma pads [simp]: "length b = 512 \<Longrightarrow> length (jm_pad (meta_of b)) = 496" "length b = 512 \<Longrightarrow> length (jh_pad (hdr_of b)) = 496"
  by (simp_all add: meta_of_def hdr_of_def)

lemma hdr0_length [simp]: "length hdr0 = 512"
  by (simp add: hdr0_def)

text \<open>Sector of entry \<open>i\<close>.\<close>

definition ent :: "nat \<Rightarrow> u32" where "ent i = 36 + 2 * of_nat i"

lemma unat_ent: "i < 31 \<Longrightarrow> unat (ent i) = 36 + 2 * i"
proof -
  assume i: "i < 31"
  have e: "ent i = of_nat (36 + 2 * i)" by (simp add: ent_def)
  show ?thesis unfolding e by (simp only: unat_of_nat take_bit_nat_eq_self_iff take_bit_nat_eq_self) (use i in \<open>simp add: take_bit_nat_eq_self\<close>)
qed

lemma entry_sector: "unat idx < 31 \<Longrightarrow> j_entry_sector idx = ent (unat idx)"
proof -
  assume h: "unat idx < 31"
  have "unat (idx mod 31) = unat idx" using h by (simp add: unat_mod)
  then have "idx mod 31 = idx" by (simp only: unat_eq_iff)
  then show ?thesis by (simp add: j_entry_sector_def j_consts ent_def)
qed

lemma proximo: "unat (x :: u32) < 31 \<Longrightarrow> unat ((x + 1) mod 31) = (unat x + 1) mod 31"
  using unat_mais [of x 1] by (simp add: unat_mod)

lemma ent_eqs:
  assumes "i < 31"
  shows "j < 31 \<Longrightarrow> ent i = ent j \<longleftrightarrow> i = j" "j < 31 \<Longrightarrow> ent i \<noteq> ent j + 1" "ent i \<noteq> 35" "ent i + 1 \<noteq> 35"
    "ent i < 2 ^ 28" "ent i + 1 < 2 ^ 28" "35 < ent i" "ent i + 1 \<le> 97" "ent i \<le> 97" "35 < ent i + 1" "ent i \<noteq> ent i + 1"
proof -
  have u: "unat (ent k) = 36 + 2 * k" "unat (ent k + 1) = 37 + 2 * k" if "k < 31" for k
    using unat_ent [OF that] unat_mais [of "ent k" 1] that by simp_all
  show "ent i = ent j \<longleftrightarrow> i = j" if "j < 31" using u(1) [OF assms] u(1) [OF that] by (auto simp flip: unat_eq_iff)
  show "ent i \<noteq> ent j + 1" if "j < 31"
  proof
    assume "ent i = ent j + 1"
    then have "36 + 2 * i = 37 + 2 * j" using u(1) [OF assms] u(2) [OF that] by simp
    then show False by presburger
  qed
  show "ent i \<noteq> 35" "ent i + 1 \<noteq> 35" using u [OF assms] by (auto simp flip: unat_eq_iff)
  show "ent i < 2 ^ 28" "ent i + 1 < 2 ^ 28" "35 < ent i" "ent i + 1 \<le> 97" "ent i \<le> 97" "35 < ent i + 1" "ent i \<noteq> ent i + 1"
    using u [OF assms] assms by (simp_all add: word_less_nat_alt word_le_nat_alt)
qed

section \<open>The accesses on a working drive\<close>

lemma j_ler_ok:
  assumes "disp1 (j_ata s) d" "l < 2 ^ 28" "length b = 512"
  obtains a where "j_ler l b s = (0, d l, s\<lparr>j_ata := a\<rparr>)" "disp1 a d" "hist1 a = hist1 (j_ata s)"
  using d1.ler_lei [OF assms] by (auto simp: j_ler_def)

lemma j_gravar_ok:
  assumes "disp1 (j_ata s) d" "l < 2 ^ 28" "length b = 512"
  obtains a where "j_gravar l b s = (0, s\<lparr>j_ata := a\<rparr>)" "disp1 a (d(l := b))" "hist1 a = hist1 (j_ata s) @ [(l, b)]"
  using d1.gravar_lei [OF assms] by (auto simp: j_gravar_def)

lemma flush_ok:
  assumes "disp1 (j_ata s) d" "length (jm_pad (jmeta s)) = 496"
  obtains a where "j_flush_meta s = s\<lparr>j_ata := a\<rparr>" "disp1 a (d(35 := meta_bytes (jmeta s)))"
    "hist1 a = hist1 (j_ata s) @ [(35, meta_bytes (jmeta s))]"
proof -
  obtain a where "j_gravar 35 (meta_bytes (jmeta s)) s = (0, s\<lparr>j_ata := a\<rparr>)" "disp1 a (d(35 := meta_bytes (jmeta s)))"
    "hist1 a = hist1 (j_ata s) @ [(35, meta_bytes (jmeta s))]"
    using j_gravar_ok [OF assms(1), of 35 "meta_bytes (jmeta s)"] assms(2) by (auto simp: word_less_nat_alt)
  with that show thesis by (simp add: j_flush_meta_def j_consts)
qed

lemma ordem [simp]: "s\<lparr>jmeta := m, j_ata := a\<rparr> = s\<lparr>j_ata := a, jmeta := m\<rparr>"
  by (cases s) simp

lemma flush_ok2:
  assumes "disp1 a0 d" "length (jm_pad m) = 496"
  obtains a where "j_flush_meta (s\<lparr>j_ata := a0, jmeta := m\<rparr>) = s\<lparr>j_ata := a, jmeta := m\<rparr>"
    "disp1 a (d(35 := meta_bytes m))" "hist1 a = hist1 a0 @ [(35, meta_bytes m)]"
  using flush_ok [of "s\<lparr>j_ata := a0, jmeta := m\<rparr>" d] assms that by auto

section \<open>The invariant\<close>

text \<open>Entry \<open>i\<close> is pending when its commit flag is 0.  A write searches its transaction from entry 0 on, so
  a pending entry \<open>i\<close> left behind by a power cut must not carry the id of a later write to an entry after
  \<open>i\<close>: \<open>j\<close> counts the writes to come before entry \<open>i\<close> is used again.\<close>

definition pend :: "(u32 \<Rightarrow> setor) \<Rightarrow> nat \<Rightarrow> bool" where
  "pend d i \<longleftrightarrow> jh_committed (hdr_of (d (ent i))) = 0"

definition txid_de :: "(u32 \<Rightarrow> setor) \<Rightarrow> nat \<Rightarrow> u32" where
  "txid_de d i = jh_txid (hdr_of (d (ent i)))"

definition sem_confusao :: "nat \<Rightarrow> u32 \<Rightarrow> (u32 \<Rightarrow> setor) \<Rightarrow> bool" where
  "sem_confusao t n d \<longleftrightarrow> (\<forall>i<31. pend d i \<longrightarrow> (\<forall>j<(i + 31 - t) mod 31. i < (t + j) mod 31 \<longrightarrow> txid_de d i \<noteq> n + of_nat j))"

definition journal_ok :: "'a jornal_scheme \<Rightarrow> (u32 \<Rightarrow> setor) \<Rightarrow> bool" where
  "journal_ok s d \<longleftrightarrow> disp1 (j_ata s) d \<and> j_ok s \<and> meta_of (d 35) = jmeta s \<and> jm_magic (jmeta s) = J_MAGIC \<and>
     jm_head (jmeta s) = jm_tail (jmeta s) \<and> unat (jm_tail (jmeta s)) < 31 \<and>
     sem_confusao (unat (jm_tail (jmeta s))) (jm_next (jmeta s)) d"

lemma sem_confusao_mesma:
  assumes "sem_confusao t n d" "t < 31" "\<forall>i<31. i \<noteq> t \<longrightarrow> d' (ent i) = d (ent i)"
  shows "sem_confusao t n d'"
  unfolding sem_confusao_def
proof (intro allI impI)
  fix i j assume h: "i < 31" "pend d' i" "j < (i + 31 - t) mod 31" "i < (t + j) mod 31"
  then have "i \<noteq> t" by auto
  then show "txid_de d' i \<noteq> n + of_nat j" using assms h by (simp add: sem_confusao_def pend_def txid_de_def)
qed

lemma sem_confusao_prox:
  assumes "sem_confusao t n d" "t < 31" "\<forall>i<31. i \<noteq> t \<longrightarrow> d' (ent i) = d (ent i)" "pend d' t \<Longrightarrow> txid_de d' t = n"
  shows "sem_confusao ((t + 1) mod 31) (n + 1) d'"
  unfolding sem_confusao_def
proof (intro allI impI)
  fix i j assume h: "i < 31" "pend d' i" "j < (i + 31 - (t + 1) mod 31) mod 31" "i < ((t + 1) mod 31 + j) mod 31"
  have p: "((t + 1) mod 31 + j) mod 31 = (t + (j + 1)) mod 31" by presburger
  show "txid_de d' i \<noteq> n + 1 + of_nat j"
  proof (cases "i = t")
    case True
    have "j < 31" using h(3) by (meson less_trans mod_less_divisor zero_less_numeral)
    then have "unat (of_nat (j + 1) :: u32) = j + 1" by (simp only: unat_of_nat take_bit_nat_eq_self_iff) (simp add: take_bit_nat_eq_self)
    then have "(of_nat (j + 1) :: u32) \<noteq> 0" by (metis unat_0 Suc_eq_plus1 nat.distinct(1))
    then show ?thesis using assms(4) h(2) True by (simp add: add.assoc)
  next
    case False
    have e: "(i + 31 - u) mod 31 = (if u \<le> i then i - u else i + 31 - u)" if "u < 31" for u :: nat
      using h(1) that by (auto simp: mod_if)
    have "j + 1 < (i + 31 - t) mod 31"
      using h(1,3) assms(2) False e [OF assms(2)] e [of "(t + 1) mod 31"]
      by (cases "t = 30") (simp_all split: if_splits)
    moreover have "pend d i" using assms(3) h(1,2) False by (simp add: pend_def)
    moreover have "i < (t + (j + 1)) mod 31" using h(4) by (simp only: p)
    ultimately have "txid_de d i \<noteq> n + of_nat (j + 1)"
      using assms(1) h(1) unfolding sem_confusao_def by blast
    then show ?thesis using assms(3) h(1) False by (simp add: txid_de_def add.assoc)
  qed
qed

section \<open>One journaled write\<close>

definition hdr_novo :: "'a jornal_scheme \<Rightarrow> u32 \<Rightarrow> setor \<Rightarrow> u32 \<Rightarrow> setor" where
  "hdr_novo s sec b c = hdr_bytes \<lparr>jh_txid = jm_next (jmeta s), jh_block = sec, jh_committed = c,
     jh_checksum = djb2 b, jh_pad = replicate 496 0\<rparr>"

definition meta1 :: "'a jornal_scheme \<Rightarrow> j_meta" where
  "meta1 s = (jmeta s)\<lparr>jm_tail := (jm_tail (jmeta s) + 1) mod 31, jm_next := jm_next (jmeta s) + 1\<rparr>"

definition meta2 :: "'a jornal_scheme \<Rightarrow> j_meta" where
  "meta2 s = (meta1 s)\<lparr>jm_head := jm_tail (meta1 s)\<rparr>"

definition vez :: "'a jornal_scheme \<Rightarrow> nat" where "vez s = unat (jm_tail (jmeta s))"

definition escritas_de :: "'a jornal_scheme \<Rightarrow> u32 \<Rightarrow> setor \<Rightarrow> (u32 \<times> setor) list" where
  "escritas_de s sec b =
     [(ent (vez s), hdr_novo s sec b 0), (ent (vez s) + 1, b), (35, meta_bytes (meta1 s)), (sec, b),
      (ent (vez s), hdr_novo s sec b 1), (35, meta_bytes (meta2 s))]"

lemma commit_busca_acha:
  assumes "disp1 (j_ata s) d" "i \<le> t" "t < i + n" "i + n \<le> 31"
    "\<forall>j. i \<le> j \<and> j < t \<longrightarrow> \<not> (pend d j \<and> txid_de d j = tx)" "pend d t" "txid_de d t = tx"
  shows "\<exists>a. commit_busca tx i n s = s\<lparr>j_ata := a\<rparr> \<and>
    disp1 a (d(ent t := hdr_bytes ((hdr_of (d (ent t)))\<lparr>jh_committed := 1\<rparr>))) \<and>
    hist1 a = hist1 (j_ata s) @ [(ent t, hdr_bytes ((hdr_of (d (ent t)))\<lparr>jh_committed := 1\<rparr>))]"
  using assms
proof (induction n arbitrary: i s)
  case (Suc n)
  have i: "i < 31" using Suc.prems by simp
  have es: "j_entry_sector (of_nat i) = ent i"
    using i entry_sector [of "of_nat i"] by (simp add: unat_of_nat take_bit_nat_eq_self)
  obtain a where a: "j_ler (ent i) hdr0 s = (0, d (ent i), s\<lparr>j_ata := a\<rparr>)" "disp1 a d" "hist1 a = hist1 (j_ata s)"
    using j_ler_ok [OF Suc.prems(1) ent_eqs(5) [OF i]] hdr0_length by blast
  show ?case
  proof (cases "i = t")
    case True
    let ?b = "hdr_bytes ((hdr_of (d (ent t)))\<lparr>jh_committed := 1\<rparr>)"
    have "length (d (ent t)) = 512" using d1.tamanho [OF a(2)] .
    then have l: "length ?b = 512" by simp
    obtain a' where "j_gravar (ent t) ?b (s\<lparr>j_ata := a\<rparr>) = (0, s\<lparr>j_ata := a'\<rparr>)" "disp1 a' (d(ent t := ?b))"
      "hist1 a' = hist1 a @ [(ent t, ?b)]"
      using j_gravar_ok [of "s\<lparr>j_ata := a\<rparr>" d "ent t" ?b] a(2) ent_eqs(5) [OF i] l True by auto
    then show ?thesis
      using True Suc.prems(6,7) a es by (auto simp: pend_def txid_de_def fun_upd_def intro!: exI [of _ a'])
  next
    case False
    then have n: "\<not> (pend d i \<and> txid_de d i = tx)" using Suc.prems(2,5) by auto
    have "commit_busca tx i (Suc n) s = commit_busca tx (Suc i) n (s\<lparr>j_ata := a\<rparr>)"
      using n by (auto simp: es a(1) pend_def txid_de_def Let_def)
    then show ?thesis using Suc.IH [of "s\<lparr>j_ata := a\<rparr>" "Suc i"] Suc.prems(2-7) a(2,3) False by simp
  qed
qed simp

lemma sfs_write_sec_passos:
  assumes ok: "journal_ok s d" and sec: "sec < 35 \<or> 97 < sec" "sec < 2 ^ 28" and b: "length b = 512"
  shows "\<exists>a. sfs_write_sec sec b s = Some (0, s\<lparr>j_ata := a, jmeta := meta2 s\<rparr>) \<and>
    disp1 a (aplicar (escritas_de s sec b) d) \<and> hist1 a = hist1 (j_ata s) @ escritas_de s sec b"
proof -
  define t where "t = vez s"
  have t: "t < 31" "unat (jm_tail (jmeta s)) = t" using ok by (simp_all add: t_def vez_def journal_ok_def)
  have dd: "disp1 (j_ata s) d" "j_ok s" "jm_head (jmeta s) = jm_tail (jmeta s)" "sem_confusao t (jm_next (jmeta s)) d"
    using ok by (simp_all add: journal_ok_def t_def vez_def)
  have pad: "length (jm_pad (jmeta s)) = 496" using ok d1.tamanho [OF dd(1), of 35] pads(1) [of "d 35"] by (simp add: journal_ok_def)
  let ?H = "hdr_novo s sec b"
  have lH: "length (?H c) = 512" "hdr_of (?H c) = \<lparr>jh_txid = jm_next (jmeta s), jh_block = sec, jh_committed = c,
     jh_checksum = djb2 b, jh_pad = replicate 496 0\<rparr>" for c by (simp_all add: hdr_novo_def)
  have es: "j_entry_sector (jm_tail (jmeta s)) = ent t" using entry_sector t by simp
  note E = ent_eqs [OF t(1)]
  \<comment> \<open>\<open>journal_begin\<close>\<close>
  obtain a1 where a1: "j_gravar (ent t) (?H 0) s = (0, s\<lparr>j_ata := a1\<rparr>)" "disp1 a1 (d(ent t := ?H 0))"
    "hist1 a1 = hist1 (j_ata s) @ [(ent t, ?H 0)]"
    using j_gravar_ok [OF dd(1) E(5) lH(1)] .
  obtain a2 where a2: "j_gravar (ent t + 1) b (s\<lparr>j_ata := a1\<rparr>) = (0, s\<lparr>j_ata := a2\<rparr>)"
    "disp1 a2 (d(ent t := ?H 0, ent t + 1 := b))" "hist1 a2 = hist1 (j_ata s) @ [(ent t, ?H 0), (ent t + 1, b)]"
    using j_gravar_ok [of "s\<lparr>j_ata := a1\<rparr>", OF _ E(6) b] a1 by auto
  let ?d3 = "d(ent t := ?H 0, ent t + 1 := b, 35 := meta_bytes (meta1 s))"
  obtain a3 where a3: "j_flush_meta (s\<lparr>j_ata := a2, jmeta := meta1 s\<rparr>) = s\<lparr>j_ata := a3, jmeta := meta1 s\<rparr>" "disp1 a3 ?d3"
    "hist1 a3 = hist1 (j_ata s) @ [(ent t, ?H 0), (ent t + 1, b), (35, meta_bytes (meta1 s))]"
    using flush_ok2 [OF a2(2), of "meta1 s" s] a2(3) pad by (auto simp: meta1_def)
  have B: "journal_begin sec b s = (jm_next (jmeta s), s\<lparr>j_ata := a3, jmeta := meta1 s\<rparr>)"
    using a1(1) a2(1) a3(1) dd(2) b slice_all [of b]
    by (simp add: journal_begin_def Let_def es hdr_novo_def meta1_def j_consts)
  \<comment> \<open>the block itself\<close>
  let ?s3 = "s\<lparr>j_ata := a3, jmeta := meta1 s\<rparr>"
  obtain a4 where a4: "j_gravar sec b ?s3 = (0, s\<lparr>j_ata := a4, jmeta := meta1 s\<rparr>)" "disp1 a4 (?d3(sec := b))"
    "hist1 a4 = hist1 a3 @ [(sec, b)]"
    using j_gravar_ok [of ?s3, OF _ sec(2) b] a3(2) by auto
  let ?s4 = "s\<lparr>j_ata := a4, jmeta := meta1 s\<rparr>" and ?d4 = "?d3(sec := b)"
  have ns: "ent j \<noteq> sec" "ent j + 1 \<noteq> sec" if "j < 31" for j
    using sec(1) ent_eqs(7-10) [OF that] by auto
  \<comment> \<open>\<open>journal_commit\<close>\<close>
  have d4: "?d4 (ent j) = (if j = t then ?H 0 else d (ent j))" if "j < 31" for j
    using ns [OF that] ent_eqs [OF that] E t(1) that by auto
  have q: "\<not> (pend ?d4 j \<and> txid_de ?d4 j = jm_next (jmeta s))" if "j < t" for j
  proof
    assume h: "pend ?d4 j \<and> txid_de ?d4 j = jm_next (jmeta s)"
    have j31: "j < 31" using that t(1) by simp
    have e: "?d4 (ent j) = d (ent j)" using d4 [OF j31] that by simp
    have "pend d j" "txid_de d j = jm_next (jmeta s) + of_nat 0"
      using h unfolding pend_def txid_de_def e by simp_all
    moreover have "0 < (j + 31 - t) mod 31" "j < (t + 0) mod 31" using that t(1) by simp_all
    ultimately show False using dd(4) j31 unfolding sem_confusao_def by blast
  qed
  have Ht: "pend ?d4 t" "txid_de ?d4 t = jm_next (jmeta s)"
    unfolding pend_def txid_de_def using d4 [OF t(1)] lH(2) by simp_all
  obtain a5 where a5: "commit_busca (jm_next (jmeta s)) 0 31 ?s4 = ?s4\<lparr>j_ata := a5\<rparr>"
    "disp1 a5 (?d4(ent t := hdr_bytes ((hdr_of (?d4 (ent t)))\<lparr>jh_committed := 1\<rparr>)))"
    "hist1 a5 = hist1 a4 @ [(ent t, hdr_bytes ((hdr_of (?d4 (ent t)))\<lparr>jh_committed := 1\<rparr>))]"
    using commit_busca_acha [of ?s4 ?d4 0 t 31 "jm_next (jmeta s)"] a4(2) t(1) q Ht by auto
  have H1: "hdr_bytes ((hdr_of (?d4 (ent t)))\<lparr>jh_committed := 1\<rparr>) = ?H 1"
    using d4 [OF t(1)] lH(2) by (simp add: hdr_novo_def)
  note a5 = a5 [unfolded H1]
  let ?d5 = "?d4(ent t := ?H 1)" and ?s5 = "s\<lparr>j_ata := a5, jmeta := meta1 s\<rparr>"
  obtain a6 where a6: "j_ler (ent t) hdr0 ?s5 = (0, ?d5 (ent t), s\<lparr>j_ata := a6, jmeta := meta1 s\<rparr>)" "disp1 a6 ?d5" "hist1 a6 = hist1 a5"
    using j_ler_ok [of ?s5 ?d5, OF _ E(5) hdr0_length] a5(2) unfolding H1 by auto
  have tails: "jm_head (meta1 s) = jm_tail (jmeta s)" "jm_tail (meta1 s) = (jm_tail (jmeta s) + 1) mod 31"
    using dd(3) by (simp_all add: meta1_def)
  have ne: "jm_tail (jmeta s) \<noteq> (jm_tail (jmeta s) + 1) mod 31"
  proof
    assume "jm_tail (jmeta s) = (jm_tail (jmeta s) + 1) mod 31"
    from arg_cong [OF this, of unat] have "t = (t + 1) mod 31" using proximo [of "jm_tail (jmeta s)"] t by simp
    with t(1) show False by presburger
  qed
  let ?s6 = "s\<lparr>j_ata := a6, jmeta := meta2 s\<rparr>"
  have A: "avanca_head ?s5 = Some ?s6"
    apply (subst avanca_head.simps)
    apply (simp add: tails ne es a6(1) lH(2) j_consts)
    apply (subst avanca_head.simps)
    apply (simp add: meta2_def tails)
    done
  obtain a7 where a7: "j_flush_meta ?s6 = s\<lparr>j_ata := a7, jmeta := meta2 s\<rparr>" "disp1 a7 (?d5(35 := meta_bytes (meta2 s)))"
    "hist1 a7 = hist1 a6 @ [(35, meta_bytes (meta2 s))]"
    using flush_ok2 [OF a6(2), of "meta2 s" s] pad by (auto simp: meta2_def meta1_def)
  have C: "journal_commit (jm_next (jmeta s)) ?s4 = Some (s\<lparr>j_ata := a7, jmeta := meta2 s\<rparr>)"
    using dd(2) a5(1) A a7(1) by (simp add: journal_commit_def j_consts)
  have D: "aplicar (escritas_de s sec b) d = ?d5(35 := meta_bytes (meta2 s))"
    by (simp add: escritas_de_def flip: t_def)
  have "hist1 a7 = hist1 (j_ata s) @ escritas_de s sec b"
    using a7(3) a3(3) a4(3) a5(3) a6(3) by (simp add: escritas_de_def flip: t_def)
  moreover have "sfs_write_sec sec b s = Some (0, s\<lparr>j_ata := a7, jmeta := meta2 s\<rparr>)"
    using B a4(1) C by (simp add: sfs_write_sec_def)
  ultimately show ?thesis unfolding D using a7(2) by blast
qed

section \<open>Boot\<close>

lemma journal_init_ok:
  assumes "disp1 (j_ata s) d" "length (jm_pad (jmeta s)) = 496" "meta_of (d 35) = m" "jm_magic m = J_MAGIC"
  obtains a where "journal_init s = s\<lparr>j_ata := a, jmeta := m, j_ok := True\<rparr>" "disp1 a d"
proof -
  have "ata_presente1 (j_ata s)" using assms(1) by (simp add: disp1_def ata_presente1_def)
  moreover obtain a where "j_ler 35 (meta_bytes (jmeta s)) s = (0, d 35, s\<lparr>j_ata := a\<rparr>)" "disp1 a d"
    using j_ler_ok [OF assms(1), of 35 "meta_bytes (jmeta s)"] assms(2) by (auto simp: word_less_nat_alt)
  ultimately show thesis using that assms(3,4) by (auto simp: journal_init_def j_consts)
qed

lemma recover_vazio:
  assumes "disp1 (j_ata s) d" "length (jm_pad (jmeta s)) = 496" "j_ok s" "jm_head (jmeta s) = jm_tail (jmeta s)"
  obtains a where "journal_recover s = Some (s\<lparr>j_ata := a\<rparr>)" "disp1 a (d(35 := meta_bytes (jmeta s)))"
proof -
  obtain a where "j_flush_meta s = s\<lparr>j_ata := a\<rparr>" "disp1 a (d(35 := meta_bytes (jmeta s)))"
    using flush_ok [OF assms(1,2)] .
  moreover have "recover_loop (jm_head (jmeta s)) hdr0 s = Some s" by (subst recover_loop.simps) (simp add: assms(4))
  moreover have "(jmeta s)\<lparr>jm_head := jm_tail (jmeta s)\<rparr> = jmeta s" using assms(4) by (cases "jmeta s") simp
  ultimately show thesis using that assms(3) by (auto simp: journal_recover_def)
qed

lemma recover_um:
  assumes "disp1 (j_ata s) d" "length (jm_pad (jmeta s)) = 496" "j_ok s" "unat (jm_head (jmeta s)) = t" "t < 31"
    "jm_tail (jmeta s) = (jm_head (jmeta s) + 1) mod 31" "jh_block (hdr_of (d (ent t))) = sec" "sec < 2 ^ 28"
  defines "m \<equiv> (jmeta s)\<lparr>jm_head := jm_tail (jmeta s)\<rparr>"
  obtains a where "journal_recover s = Some (s\<lparr>j_ata := a, jmeta := m\<rparr>)"
    "disp1 a ((if pend d t then d(sec := d (ent t + 1)) else d)(35 := meta_bytes m))"
proof -
  note E = ent_eqs [OF assms(5)]
  have es: "j_entry_sector (jm_head (jmeta s)) = ent t" using entry_sector assms(4,5) by simp
  have ne: "jm_head (jmeta s) \<noteq> (jm_head (jmeta s) + 1) mod 31"
  proof
    assume "jm_head (jmeta s) = (jm_head (jmeta s) + 1) mod 31"
    from arg_cong [OF this, of unat] have "t = (t + 1) mod 31" using proximo [of "jm_head (jmeta s)"] assms(4,5) by simp
    with assms(5) show False by presburger
  qed
  obtain a1 where a1: "j_ler (ent t) hdr0 s = (0, d (ent t), s\<lparr>j_ata := a1\<rparr>)" "disp1 a1 d"
    using j_ler_ok [OF assms(1) E(5) hdr0_length] by auto
  have fim: "recover_loop ((jm_head (jmeta s) + 1) mod 31) x (s\<lparr>j_ata := a\<rparr>) = Some (s\<lparr>j_ata := a\<rparr>)" for x a
    by (subst recover_loop.simps) (simp add: assms(6))
  have "\<exists>a. recover_loop (jm_head (jmeta s)) hdr0 s = Some (s\<lparr>j_ata := a\<rparr>) \<and>
      disp1 a (if pend d t then d(sec := d (ent t + 1)) else d)"
  proof (cases "pend d t")
    case True
    obtain a2 where a2: "j_ler (ent t + 1) hdr0 (s\<lparr>j_ata := a1\<rparr>) = (0, d (ent t + 1), s\<lparr>j_ata := a2\<rparr>)" "disp1 a2 d"
      using j_ler_ok [of "s\<lparr>j_ata := a1\<rparr>", OF _ E(6) hdr0_length] a1(2) by auto
    obtain a3 where a3: "j_gravar sec (d (ent t + 1)) (s\<lparr>j_ata := a2\<rparr>) = (0, s\<lparr>j_ata := a3\<rparr>)" "disp1 a3 (d(sec := d (ent t + 1)))"
      using j_gravar_ok [of "s\<lparr>j_ata := a2\<rparr>" d sec "d (ent t + 1)"] a2(2) assms(8) d1.tamanho [OF a2(2)] by auto
    have "recover_loop (jm_head (jmeta s)) hdr0 s = Some (s\<lparr>j_ata := a3\<rparr>)"
      apply (subst recover_loop.simps)
      using True fim [of "d (ent t + 1)" a3]
      apply (simp add: assms(6) ne es a1(1) a2(1) a3(1) pend_def j_consts assms(7))
      done
    with a3(2) True show ?thesis by auto
  next
    case False
    have "recover_loop (jm_head (jmeta s)) hdr0 s = Some (s\<lparr>j_ata := a1\<rparr>)"
      apply (subst recover_loop.simps)
      using False fim [of hdr0 a1]
      apply (simp add: assms(6) ne es a1(1) pend_def j_consts)
      done
    with a1(2) False show ?thesis by auto
  qed
  then obtain a where a: "recover_loop (jm_head (jmeta s)) hdr0 s = Some (s\<lparr>j_ata := a\<rparr>)"
    "disp1 a (if pend d t then d(sec := d (ent t + 1)) else d)" by blast
  obtain a' where "j_flush_meta (s\<lparr>j_ata := a, jmeta := m\<rparr>) = s\<lparr>j_ata := a', jmeta := m\<rparr>"
    "disp1 a' ((if pend d t then d(sec := d (ent t + 1)) else d)(35 := meta_bytes m))"
    using flush_ok2 [OF a(2), of m s] assms(2) by (auto simp: m_def)
  with that a(1) assms(3) show thesis by (simp add: journal_recover_def m_def)
qed

lemma journal_novo:
  assumes "disp1 (j_ata s) d" "jm_magic (meta_of (d 35)) \<noteq> J_MAGIC" "length (jm_pad (jmeta s)) = 496"
  shows "\<exists>d'. journal_ok (journal_init s) d' \<and> (\<forall>l. l \<noteq> 35 \<longrightarrow> d' l = d l)"
proof -
  let ?m = "\<lparr>jm_magic = J_MAGIC, jm_head = 0, jm_tail = 0, jm_next = 0, jm_pad = replicate 496 0\<rparr>"
  have "ata_presente1 (j_ata s)" using assms(1) by (simp add: disp1_def ata_presente1_def)
  moreover obtain a where a: "j_ler 35 (meta_bytes (jmeta s)) s = (0, d 35, s\<lparr>j_ata := a\<rparr>)" "disp1 a d"
    using j_ler_ok [OF assms(1), of 35 "meta_bytes (jmeta s)"] assms(3) by (auto simp: word_less_nat_alt)
  moreover obtain a' where a': "j_flush_meta (s\<lparr>j_ata := a, jmeta := ?m\<rparr>) = s\<lparr>j_ata := a', jmeta := ?m\<rparr>" "disp1 a' (d(35 := meta_bytes ?m))"
    using flush_ok2 [OF a(2), of ?m s] by auto
  ultimately have "journal_init s = s\<lparr>j_ata := a', jmeta := ?m, j_ok := True\<rparr>"
    using assms(2) by (simp add: journal_init_def j_consts)
  moreover have "sem_confusao 0 0 (d(35 := meta_bytes ?m))" by (simp add: sem_confusao_def)
  ultimately have "journal_ok (journal_init s) (d(35 := meta_bytes ?m))"
    using a'(2) by (simp add: journal_ok_def)
  then show ?thesis by (intro exI conjI) auto
qed

definition jornal_exemplo :: jornal where
  "jornal_exemplo = \<lparr>j_ata = ata_exemplo, jmeta = meta_of hdr0, j_ok = False\<rparr>"

lemma jornal_exemplo_ok: "\<exists>d. journal_ok (journal_init jornal_exemplo) d \<and> d 1000 = replicate 512 0"
  using journal_novo [of jornal_exemplo "\<lambda>_. replicate 512 0"] ata_exemplo_ok(3)
  by (auto simp: jornal_exemplo_def meta_of_def J_MAGIC_def rd32_def slice_def hdr0_def)

section \<open>Properties\<close>

lemma journal_ok_partes:
  assumes "journal_ok s d"
  shows "disp1 (j_ata s) d" "j_ok s" "meta_of (d 35) = jmeta s" "jm_magic (jmeta s) = J_MAGIC"
    "jm_head (jmeta s) = jm_tail (jmeta s)" "vez s < 31" "sem_confusao (vez s) (jm_next (jmeta s)) d"
    "length (jm_pad (jmeta s)) = 496"
  using assms d1.tamanho [of "j_ata s" d 35] pads(1) [of "d 35"] by (simp_all add: journal_ok_def vez_def)

lemma meta_partes:
  assumes "journal_ok s d"
  shows "jm_head (meta1 s) = jm_tail (jmeta s)" "jm_tail (meta1 s) = (jm_tail (jmeta s) + 1) mod 31"
    "jm_next (meta1 s) = jm_next (jmeta s) + 1" "jm_magic (meta1 s) = J_MAGIC" "jm_magic (meta2 s) = J_MAGIC"
    "length (jm_pad (meta1 s)) = 496" "length (jm_pad (meta2 s)) = 496" "jm_head (meta2 s) = jm_tail (meta2 s)"
    "jm_tail (meta2 s) = (jm_tail (jmeta s) + 1) mod 31" "jm_next (meta2 s) = jm_next (jmeta s) + 1"
    "unat ((jm_tail (jmeta s) + 1) mod 31) = (vez s + 1) mod 31"
  using journal_ok_partes [OF assms] proximo [of "jm_tail (jmeta s)"] by (simp_all add: meta1_def meta2_def vez_def)

lemma hdr_novo_partes [simp]:
  "jh_committed (hdr_of (hdr_novo s sec b c)) = c" "jh_txid (hdr_of (hdr_novo s sec b c)) = jm_next (jmeta s)"
  "jh_block (hdr_of (hdr_novo s sec b c)) = sec"
  by (simp_all add: hdr_novo_def)

lemma journal_ok_escrita:
  assumes "journal_ok s d" "sec < 35 \<or> 97 < sec" "disp1 a (aplicar (escritas_de s sec b) d)"
  shows "journal_ok (s\<lparr>j_ata := a, jmeta := meta2 s\<rparr>) (aplicar (escritas_de s sec b) d)"
proof -
  note P = journal_ok_partes [OF assms(1)] and M = meta_partes [OF assms(1)] and E = ent_eqs [OF journal_ok_partes(6) [OF assms(1)]]
  let ?D = "aplicar (escritas_de s sec b) d"
  have "?D (ent i) = d (ent i)" if "i < 31" "i \<noteq> vez s" for i
    using ent_eqs [OF that(1)] E P(6) that assms(2) by (auto simp: escritas_de_def)
  moreover have "\<not> pend ?D (vez s)" using E by (simp add: pend_def escritas_de_def)
  ultimately have "sem_confusao ((vez s + 1) mod 31) (jm_next (jmeta s) + 1) ?D"
    using sem_confusao_prox [OF P(7,6), of ?D] by simp
  moreover have "meta_of (?D 35) = meta2 s" using M(7) by (simp add: escritas_de_def)
  ultimately show ?thesis using assms(3) P(2) M by (simp add: journal_ok_def)
qed

text \<open>a journaled write of a block outside the journal area succeeds, puts the block on the disk, changes no
  other sector outside the journal and keeps the journal invariant; the drive sees exactly six sector
  writes, the log entry first and its header, data and head/tail sector all before the block.\<close>

theorem sfs_write_sec_correto:
  assumes "journal_ok s d" "sec < 35 \<or> 97 < sec" "sec < 2 ^ 28" "length b = 512"
  shows "\<exists>s'. sfs_write_sec sec b s = Some (0, s') \<and> hist1 (j_ata s') = hist1 (j_ata s) @ escritas_de s sec b \<and>
    (let d' = aplicar (escritas_de s sec b) d in
       journal_ok s' d' \<and> d' sec = b \<and> (\<forall>l. (l < 35 \<or> 97 < l) \<and> l \<noteq> sec \<longrightarrow> d' l = d l))"
proof -
  obtain a where a: "sfs_write_sec sec b s = Some (0, s\<lparr>j_ata := a, jmeta := meta2 s\<rparr>)"
    "disp1 a (aplicar (escritas_de s sec b) d)" "hist1 a = hist1 (j_ata s) @ escritas_de s sec b"
    using sfs_write_sec_passos [OF assms] by blast
  note E = ent_eqs [OF journal_ok_partes(6) [OF assms(1)]]
  have "aplicar (escritas_de s sec b) d sec = b" using E assms(2) by (auto simp: escritas_de_def)
  moreover have "aplicar (escritas_de s sec b) d l = d l" if "l < 35 \<or> 97 < l" "l \<noteq> sec" for l
    using E that by (auto simp: escritas_de_def)
  ultimately show ?thesis using a journal_ok_escrita [OF assms(1,2) a(2)] by (auto simp: Let_def)
qed

theorem sfs_write_sec_correto_witness:
  "\<exists>s'. sfs_write_sec 1000 (replicate 512 7) (journal_init jornal_exemplo) = Some (0, s') \<and>
     discos (j_ata s') True 1000 = replicate 512 7"
proof -
  obtain d where "journal_ok (journal_init jornal_exemplo) d" using jornal_exemplo_ok by blast
  then obtain s' where "sfs_write_sec 1000 (replicate 512 7) (journal_init jornal_exemplo) = Some (0, s')"
    "journal_ok s' (aplicar (escritas_de (journal_init jornal_exemplo) 1000 (replicate 512 7)) d)"
    "aplicar (escritas_de (journal_init jornal_exemplo) 1000 (replicate 512 7)) d 1000 = replicate 512 7"
    using sfs_write_sec_correto [of "journal_init jornal_exemplo" d 1000 "replicate 512 7"]
    by (auto simp: Let_def word_less_nat_alt)
  then show ?thesis by (auto simp: journal_ok_def disp1_def)
qed



end
