(* ===== verification/SpaceFS.thy ===== *)
theory SpaceFS
  imports Journal "HOL-Library.Monad_Syntax"
begin

text \<open>
  \<^verbatim>\<open>kernel/fs/spacefs.c\<close>: the kernel's own file system on drive 1.  The state extends the journal's with the
  superblock and the two bitmaps the driver keeps in memory.  Every write goes through the journal, whose
  loops follow the disk, so operations that write are in the option monad (\<open>None\<close>: it does not return);
  lookups only read and are plain state passing.

  Locals the code leaves uninitialised when a read fails are arguments of the operation that has them
  (\<open>ex\<close>, \<open>nin\<close>, \<open>child\<close>), and \<open>agora\<close> stands for \<open>sched_ticks()\<close>.
\<close>

section \<open>Structures\<close>

definition SFS_SUPER_SEC :: u32 where "SFS_SUPER_SEC = 0"
definition SFS_IMAP_SEC :: u32 where "SFS_IMAP_SEC = 1"
definition SFS_BMAP_SEC :: u32 where "SFS_BMAP_SEC = 2"
definition SFS_INODE_SEC :: u32 where "SFS_INODE_SEC = 3"
definition SFS_DATA_START :: u32 where "SFS_DATA_START = 99"
definition SFS_INODES_PER_SEC :: u32 where "SFS_INODES_PER_SEC = 8"
definition SFS_DIRENTS_PER_BLK :: nat where "SFS_DIRENTS_PER_BLK = 16"
definition SFS_MAGIC :: u32 where "SFS_MAGIC = 0x53465321"
definition SFS_VERSION :: u32 where "SFS_VERSION = 1"
definition SFS_INODE_MAX :: u32 where "SFS_INODE_MAX = 256"
definition SFS_NAME_MAX :: nat where "SFS_NAME_MAX = 27"

lemmas sfs_consts = SFS_SUPER_SEC_def SFS_IMAP_SEC_def SFS_BMAP_SEC_def SFS_INODE_SEC_def SFS_DATA_START_def
  SFS_INODES_PER_SEC_def SFS_DIRENTS_PER_BLK_def SFS_INODE_MAX_def SFS_NAME_MAX_def

record sfs_super =
  ss_magic :: u32
  ss_version :: u32
  ss_total :: u32
  ss_free :: u32
  ss_inodes :: u32
  ss_free_inodes :: u32
  ss_data :: u32
  ss_root :: u32
  ss_pad :: "u8 list"

definition super_bytes :: "sfs_super \<Rightarrow> setor" where
  "super_bytes x = le32 (ss_magic x) @ le32 (ss_version x) @ le32 (ss_total x) @ le32 (ss_free x) @ le32 (ss_inodes x) @
     le32 (ss_free_inodes x) @ le32 (ss_data x) @ le32 (ss_root x) @ ss_pad x"

definition super_of :: "setor \<Rightarrow> sfs_super" where
  "super_of b = \<lparr>ss_magic = rd32 b 0, ss_version = rd32 b 4, ss_total = rd32 b 8, ss_free = rd32 b 12, ss_inodes = rd32 b 16,
     ss_free_inodes = rd32 b 20, ss_data = rd32 b 24, ss_root = rd32 b 28, ss_pad = slice b 32 480\<rparr>"

record sfs_inode =
  in_type :: u8
  in_flags :: u8
  in_nlinks :: u16
  in_size :: u32
  in_mtime :: u32
  in_blocks :: "u32 list"
  in_indirect :: u32
  in_pad :: "u8 list"

definition inode_bytes :: "sfs_inode \<Rightarrow> u8 list" where
  "inode_bytes x = [in_type x, in_flags x] @ le16 (in_nlinks x) @ le32 (in_size x) @ le32 (in_mtime x) @
     concat (map le32 (in_blocks x)) @ le32 (in_indirect x) @ in_pad x"

definition inode_of :: "u8 list \<Rightarrow> sfs_inode" where
  "inode_of b = \<lparr>in_type = b ! 0, in_flags = b ! 1, in_nlinks = rd16 b 2, in_size = rd32 b 4, in_mtime = rd32 b 8,
     in_blocks = map (\<lambda>i. rd32 b (12 + 4 * i)) [0..<10], in_indirect = rd32 b 52, in_pad = slice b 56 8\<rparr>"

definition inode_zero :: sfs_inode where
  "inode_zero = \<lparr>in_type = 0, in_flags = 0, in_nlinks = 0, in_size = 0, in_mtime = 0, in_blocks = replicate 10 0,
     in_indirect = 0, in_pad = replicate 8 0\<rparr>"

text \<open>A block of directory entries: 32 bytes each, the inode number and the name.\<close>

definition de_inode :: "setor \<Rightarrow> nat \<Rightarrow> u32" where "de_inode b i = rd32 b (32 * i)"
definition de_name :: "setor \<Rightarrow> nat \<Rightarrow> u8 list" where "de_name b i = cstr (drop (32 * i + 4) b)"

record sfs = jornal +
  sb :: sfs_super
  imap :: "u8 list"
  bmap :: "u8 list"
  sfs_ok :: bool

section \<open>Sectors, bitmaps, inodes\<close>

definition sfs_read_sec :: "u32 \<Rightarrow> setor \<Rightarrow> sfs \<Rightarrow> int \<times> setor \<times> sfs" where
  "sfs_read_sec sec buf s = j_ler sec buf s"

definition bm_test :: "u8 list \<Rightarrow> u32 \<Rightarrow> bool" where
  "bm_test bm b \<longleftrightarrow> drop_bit (unat (b mod 8)) (bm ! unat (b div 8)) AND 1 \<noteq> 0"

definition bm_set :: "u8 list \<Rightarrow> u32 \<Rightarrow> u8 list" where
  "bm_set bm b = bm[unat (b div 8) := bm ! unat (b div 8) OR push_bit (unat (b mod 8)) 1]"

definition bm_clr :: "u8 list \<Rightarrow> u32 \<Rightarrow> u8 list" where
  "bm_clr bm b = bm[unat (b div 8) := bm ! unat (b div 8) AND NOT (push_bit (unat (b mod 8)) 1)]"

definition inode_sec :: "u32 \<Rightarrow> u32" where "inode_sec inum = SFS_INODE_SEC + inum div SFS_INODES_PER_SEC"
definition inode_off :: "u32 \<Rightarrow> nat" where "inode_off inum = unat ((inum mod SFS_INODES_PER_SEC) * 64)"

definition inode_read :: "u32 \<Rightarrow> sfs_inode \<Rightarrow> sfs \<Rightarrow> int \<times> sfs_inode \<times> sfs" where
  "inode_read inum out s =
     (let (r, b, s) = sfs_read_sec (inode_sec inum) hdr0 s in
      if r \<noteq> 0 then (- 1, out, s) else (0, inode_of (slice b (inode_off inum) 64), s))"

definition inode_write :: "u32 \<Rightarrow> sfs_inode \<Rightarrow> sfs \<Rightarrow> (int \<times> sfs) option" where
  "inode_write inum x s =
     (let (r, b, s) = sfs_read_sec (inode_sec inum) hdr0 s in
      if r \<noteq> 0 then Some (- 1, s)
      else sfs_write_sec (inode_sec inum) (splice b (inode_off inum) (inode_bytes x)) s)"

section \<open>Allocation\<close>

text \<open>The scans stop at the first clear bit; the failing value is \<open>(uint32_t)-1\<close>.\<close>

definition alloc_inode :: "sfs \<Rightarrow> (u32 \<times> sfs) option" where
  "alloc_inode s =
     (case find (\<lambda>i. \<not> bm_test (imap s) (of_nat i)) [1..<unat SFS_INODE_MAX] of
        None \<Rightarrow> Some (- 1, s)
      | Some i \<Rightarrow> do {
          let s = s\<lparr>imap := bm_set (imap s) (of_nat i)\<rparr>;
          (_, s) \<leftarrow> sfs_write_sec SFS_IMAP_SEC (imap s) s;
          let s = s\<lparr>sb := (sb s)\<lparr>ss_free_inodes := ss_free_inodes (sb s) - 1\<rparr>\<rparr>;
          (_, s) \<leftarrow> sfs_write_sec SFS_SUPER_SEC (super_bytes (sb s)) s;
          Some (of_nat i, s) })"

definition max_blocos :: "sfs \<Rightarrow> u32" where
  "max_blocos s = (if ss_total (sb s) < 512 * 8 then ss_total (sb s) else 512 * 8)"

definition alloc_block :: "sfs \<Rightarrow> (u32 \<times> sfs) option" where
  "alloc_block s =
     (case find (\<lambda>i. \<not> bm_test (bmap s) (of_nat i)) [0..<unat (max_blocos s)] of
        None \<Rightarrow> Some (- 1, s)
      | Some i \<Rightarrow> do {
          let s = s\<lparr>bmap := bm_set (bmap s) (of_nat i)\<rparr>;
          (_, s) \<leftarrow> sfs_write_sec SFS_BMAP_SEC (bmap s) s;
          let s = s\<lparr>sb := (sb s)\<lparr>ss_free := ss_free (sb s) - 1\<rparr>\<rparr>;
          (_, s) \<leftarrow> sfs_write_sec SFS_SUPER_SEC (super_bytes (sb s)) s;
          Some (SFS_DATA_START + of_nat i, s) })"

definition free_block :: "u32 \<Rightarrow> sfs \<Rightarrow> sfs option" where
  "free_block sec s =
     (if sec < SFS_DATA_START then Some s
      else do {
        let s = s\<lparr>bmap := bm_clr (bmap s) (sec - SFS_DATA_START)\<rparr>;
        (_, s) \<leftarrow> sfs_write_sec SFS_BMAP_SEC (bmap s) s;
        let s = s\<lparr>sb := (sb s)\<lparr>ss_free := ss_free (sb s) + 1\<rparr>\<rparr>;
        (_, s) \<leftarrow> sfs_write_sec SFS_SUPER_SEC (super_bytes (sb s)) s;
        Some s })"

section \<open>Paths and directories\<close>

text \<open>\<open>busca_bloco\<close> scans the entries of one block, \<open>busca_dir\<close> the blocks of a directory with \<open>entries\<close>
  entries left; \<open>path_passos\<close> consumes the path a component at a time.\<close>

fun busca_bloco :: "setor \<Rightarrow> u8 list \<Rightarrow> nat \<Rightarrow> nat \<Rightarrow> u32 option" where
  "busca_bloco b tok i 0 = None"
| "busca_bloco b tok i (Suc n) =
     (if de_inode b i = 0 then busca_bloco b tok (Suc i) n
      else if k_strcmp (de_name b i) tok = 0 then Some (de_inode b i)
      else busca_bloco b tok (Suc i) n)"

fun busca_dir :: "u32 list \<Rightarrow> u8 list \<Rightarrow> nat \<Rightarrow> sfs \<Rightarrow> u32 option \<times> sfs" where
  "busca_dir [] tok entries s = (None, s)"
| "busca_dir (sec # secs) tok entries s =
     (if entries = 0 \<or> sec = 0 then (None, s)
      else let (r, b, s) = sfs_read_sec sec hdr0 s in
        if r \<noteq> 0 then (None, s)
        else case busca_bloco b tok 0 (min SFS_DIRENTS_PER_BLK entries) of
          Some i \<Rightarrow> (Some i, s)
        | None \<Rightarrow> busca_dir secs tok (entries - min SFS_DIRENTS_PER_BLK entries) s)"

definition barra :: u8 where "barra = 47"

lemma resto_menor: "t \<noteq> [] \<Longrightarrow> length (dropWhile P t) - 1 < length t"
proof -
  assume "t \<noteq> []"
  then have "0 < length t" by simp
  then show ?thesis using length_dropWhile_le [of P t] by linarith
qed

function path_passos :: "u8 list \<Rightarrow> u32 \<Rightarrow> u32 \<Rightarrow> sfs \<Rightarrow> (u32 \<times> u32) option \<times> sfs" where
  "path_passos tok cur parent s =
     (if tok = [] then (Some (cur, parent), s)
      else let nome = takeWhile (\<lambda>c. c \<noteq> barra) tok; resto = tl (dropWhile (\<lambda>c. c \<noteq> barra) tok) in
        if nome = [] then path_passos resto cur parent s
        else let (r, dir, s) = inode_read cur inode_zero s in
          if r \<noteq> 0 \<or> in_type dir \<noteq> 2 then (None, s)
          else case busca_dir (in_blocks dir) nome (unat (in_size dir) div 32) s of
            (None, s) \<Rightarrow> (None, s)
          | (Some i, s) \<Rightarrow> path_passos resto i cur s)"
  by pat_completeness auto
termination
  by (relation "measure (\<lambda>(tok, cur, parent, s). length tok)") (simp_all add: resto_menor [simplified])

declare path_passos.simps [simp del]

definition path_find :: "u8 list \<Rightarrow> sfs \<Rightarrow> (u32 \<times> u32) option \<times> sfs" where
  "path_find path s =
     (let path = (if char_at path 0 = barra then tl path else path) in
      path_passos (cstr (strn path 127)) (ss_root (sb s)) (ss_root (sb s)) s)"

text \<open>\<open>path_split\<close>: the last component and the buffer with what precedes its slash.\<close>

fun ultima_barra :: "u8 list \<Rightarrow> nat \<Rightarrow> nat option" where
  "ultima_barra b 0 = None"
| "ultima_barra b (Suc i) = (if b ! i = barra then Some i else ultima_barra b i)"

definition path_split :: "u8 list \<Rightarrow> u8 list \<times> u8 list" where
  "path_split path =
     (let parent_buf = strn path 127 @ [0] in
      case ultima_barra parent_buf (k_strlen path) of
        Some i \<Rightarrow> (drop (i + 1) path, parent_buf[i := 0])
      | None \<Rightarrow> (path, parent_buf[0 := 0]))"

fun vaga :: "setor \<Rightarrow> nat \<Rightarrow> nat \<Rightarrow> nat option" where
  "vaga b i 0 = None"
| "vaga b i (Suc n) = (if de_inode b i = 0 then Some i else vaga b (Suc i) n)"

definition de_grava :: "setor \<Rightarrow> nat \<Rightarrow> u32 \<Rightarrow> u8 list \<Rightarrow> setor" where
  "de_grava b i inum name = splice b (32 * i) (le32 inum @ strn name SFS_NAME_MAX @ [0])"

text \<open>Block \<open>10 - n\<close> of the directory is the next one to look at.\<close>

fun dir_add_loop :: "nat \<Rightarrow> u32 \<Rightarrow> sfs_inode \<Rightarrow> u32 \<Rightarrow> u8 list \<Rightarrow> sfs \<Rightarrow> (int \<times> sfs) option" where
  "dir_add_loop 0 dir_inum dir child name s = Some (- 1, s)"
| "dir_add_loop (Suc n) dir_inum dir child name s =
     (let k = 9 - n in do {
        (r, sec, b, dir, s) \<leftarrow>
          (if in_blocks dir ! k = 0 then do {
             (sec, s) \<leftarrow> alloc_block s;
             Some (if sec = - 1 then - 1 else 0, sec, replicate 512 0, dir\<lparr>in_blocks := (in_blocks dir)[k := sec]\<rparr>, s) }
           else let (r, b, s) = sfs_read_sec (in_blocks dir ! k) hdr0 s in Some (r, in_blocks dir ! k, b, dir, s));
        if r \<noteq> 0 then Some (- 1, s)
        else case vaga b 0 SFS_DIRENTS_PER_BLK of
          Some i \<Rightarrow> do {
            (_, s) \<leftarrow> sfs_write_sec sec (de_grava b i child name) s;
            (_, s) \<leftarrow> inode_write dir_inum (dir\<lparr>in_size := in_size dir + 32\<rparr>) s;
            Some (0, s) }
        | None \<Rightarrow> dir_add_loop n dir_inum dir child name s })"

definition dir_add_entry :: "u32 \<Rightarrow> u32 \<Rightarrow> u8 list \<Rightarrow> sfs \<Rightarrow> (int \<times> sfs) option" where
  "dir_add_entry dir_inum child name s =
     (let (r, dir, s) = inode_read dir_inum inode_zero s in
      if r \<noteq> 0 then Some (- 1, s) else dir_add_loop 10 dir_inum dir child name s)"

section \<open>The interface\<close>

text \<open>The root inode is copied from a 64-byte local with a 512-byte transfer: what follows it in memory
  (\<open>pilha\<close>) reaches the disk too.\<close>

fun zera_inodes :: "nat \<Rightarrow> u32 \<Rightarrow> sfs \<Rightarrow> sfs" where
  "zera_inodes 0 sec s = s"
| "zera_inodes (Suc n) sec s = zera_inodes n (sec + 1) (snd (j_gravar sec (replicate 512 0) s))"

definition spfs_format :: "u8 list \<Rightarrow> sfs \<Rightarrow> int \<times> sfs" where
  "spfs_format pilha s =
     (if \<not> ata_presente1 (j_ata s) then (- 1, s)
      else let quanto = 65536 - SFS_DATA_START;
        s = s\<lparr>sb := \<lparr>ss_magic = SFS_MAGIC, ss_version = SFS_VERSION, ss_total = quanto, ss_free = quanto,
               ss_inodes = SFS_INODE_MAX, ss_free_inodes = SFS_INODE_MAX - 1, ss_data = SFS_DATA_START, ss_root = 0,
               ss_pad = replicate 480 0\<rparr>\<rparr>;
        s = snd (j_gravar SFS_SUPER_SEC (super_bytes (sb s)) s);
        s = s\<lparr>imap := bm_set (replicate 512 0) 0\<rparr>;
        s = snd (j_gravar SFS_IMAP_SEC (imap s) s);
        s = s\<lparr>bmap := replicate 512 0\<rparr>;
        s = snd (j_gravar SFS_BMAP_SEC (bmap s) s);
        s = zera_inodes 32 SFS_INODE_SEC s;
        root = inode_zero\<lparr>in_type := 2, in_nlinks := 1, in_mtime := 0\<rparr>;
        s = snd (j_gravar SFS_INODE_SEC (inode_bytes root @ pilha) s)
      in (0, journal_init s))"

definition spfs_mount :: "sfs \<Rightarrow> (int \<times> sfs) option" where
  "spfs_mount s =
     (if \<not> ata_presente1 (j_ata s) then Some (- 1, s)
      else let (r, b, s) = j_ler SFS_SUPER_SEC (super_bytes (sb s)) s; s = s\<lparr>sb := super_of b\<rparr> in
        if r \<noteq> 0 \<or> ss_magic (sb s) \<noteq> SFS_MAGIC then Some (- 1, s)
        else let (_, b, s) = j_ler SFS_IMAP_SEC (imap s) s; s = s\<lparr>imap := b\<rparr>;
                 (_, b, s) = j_ler SFS_BMAP_SEC (bmap s) s; s = s\<lparr>bmap := b\<rparr> in do {
          s \<leftarrow> journal_recover (journal_init s);
          Some (0, s\<lparr>sfs_ok := True\<rparr>) })"

definition spfs_mounted :: "sfs \<Rightarrow> bool" where "spfs_mounted s = sfs_ok s"

fun le_blocos :: "u32 list \<Rightarrow> u32 \<Rightarrow> u32 \<Rightarrow> u8 list \<Rightarrow> sfs \<Rightarrow> u32 \<times> u8 list \<times> sfs" where
  "le_blocos [] quanto feito buf s = (feito, buf, s)"
| "le_blocos (sec # secs) quanto feito buf s =
     (if \<not> feito < quanto \<or> sec = 0 then (feito, buf, s)
      else let (r, b, s) = sfs_read_sec sec hdr0 s in
        if r \<noteq> 0 then (feito, buf, s)
        else let chunk = min (quanto - feito) 512 in
          le_blocos secs quanto (feito + chunk) (splice buf (unat feito) (take (unat chunk) b)) s)"

definition spfs_read :: "u8 list \<Rightarrow> u8 list \<Rightarrow> u32 \<Rightarrow> sfs \<Rightarrow> int \<times> u8 list \<times> sfs" where
  "spfs_read path buf maximo s =
     (if \<not> sfs_ok s then (- 1, buf, s)
      else case path_find path s of
        (None, s) \<Rightarrow> (- 1, buf, s)
      | (Some (inum, _), s) \<Rightarrow>
          (let (r, x, s) = inode_read inum inode_zero s in
           if r \<noteq> 0 \<or> in_type x \<noteq> 1 then (- 1, buf, s)
           else let (feito, buf, s) = le_blocos (in_blocks x) (min (in_size x) maximo) 0 buf s
             in (uint feito, buf, s)))"

fun libera_blocos :: "u32 list \<Rightarrow> sfs \<Rightarrow> sfs option" where
  "libera_blocos [] s = Some s"
| "libera_blocos (sec # secs) s =
     do { s \<leftarrow> (if sec \<noteq> 0 then free_block sec s else Some s); libera_blocos secs s }"

text \<open>Blocks \<open>b\<close> to 9 of a file, \<open>n = 10 - b\<close> of them left.\<close>

fun grava_blocos :: "nat \<Rightarrow> nat \<Rightarrow> sfs_inode \<Rightarrow> u32 \<Rightarrow> u32 \<Rightarrow> u8 list \<Rightarrow> sfs \<Rightarrow> (u32 \<times> sfs_inode \<times> sfs) option" where
  "grava_blocos b 0 x tam feito buf s = Some (feito, x, s)"
| "grava_blocos b (Suc n) x tam feito buf s =
     (if \<not> feito < tam then Some (feito, x, s)
      else do {
        (sec, s) \<leftarrow> alloc_block s;
        if sec = - 1 then Some (feito, x, s)
        else do {
          let x = x\<lparr>in_blocks := (in_blocks x)[b := sec]\<rparr>;
          let chunk = min (tam - feito) 512;
          (_, s) \<leftarrow> sfs_write_sec sec (splice (replicate 512 0) 0 (slice buf (unat feito) (unat chunk))) s;
          grava_blocos (Suc b) n x tam (feito + chunk) buf s } })"

definition novo_inode :: "u8 \<Rightarrow> u32 \<Rightarrow> sfs_inode" where
  "novo_inode tipo agora = inode_zero\<lparr>in_type := tipo, in_nlinks := 1, in_mtime := agora\<rparr>"

text \<open>The parent directory: inode 0 when the path has no directory part.\<close>

definition acha_pai :: "u8 list \<Rightarrow> sfs \<Rightarrow> u32 option \<times> sfs" where
  "acha_pai parent_path s =
     (if k_strlen parent_path > 0 then
        (case path_find parent_path s of (None, s) \<Rightarrow> (None, s) | (Some (i, _), s) \<Rightarrow> (Some i, s))
      else (Some 0, s))"

definition spfs_write :: "u32 \<Rightarrow> sfs_inode \<Rightarrow> sfs_inode \<Rightarrow> u8 list \<Rightarrow> u8 list \<Rightarrow> u32 \<Rightarrow> sfs \<Rightarrow> (int \<times> sfs) option" where
  "spfs_write agora ex nin path buf tam s =
     (if \<not> sfs_ok s \<or> 10 * 512 < tam then Some (- 1, s)
      else let (name, parent_path) = path_split path in
        case acha_pai parent_path s of
          (None, s) \<Rightarrow> Some (- 1, s)
        | (Some parent, s) \<Rightarrow> do {
            (existing, s) \<leftarrow>
              (case path_find path s of
                 (Some (existing, _), s) \<Rightarrow>
                   (let (_, ex, s) = inode_read existing ex s in do {
                      s \<leftarrow> libera_blocos (in_blocks ex) s;
                      (_, s) \<leftarrow> inode_write existing (ex\<lparr>in_size := 0, in_blocks := replicate 10 0\<rparr>) s;
                      Some (Some existing, s) })
               | (None, s) \<Rightarrow> do {
                   (existing, s) \<leftarrow> alloc_inode s;
                   if existing = - 1 then Some (None, s)
                   else do {
                     (_, s) \<leftarrow> inode_write existing (novo_inode 1 agora) s;
                     (_, s) \<leftarrow> dir_add_entry parent existing name s;
                     Some (Some existing, s) } });
            case existing of
              None \<Rightarrow> Some (- 1, s)
            | Some existing \<Rightarrow> (let (_, x, s) = inode_read existing nin s in do {
                (feito, x, s) \<leftarrow> grava_blocos 0 10 (x\<lparr>in_size := tam\<rparr>) tam 0 buf s;
                (_, s) \<leftarrow> inode_write existing x s;
                Some (uint feito, s) }) })"

definition spfs_mkdir :: "u32 \<Rightarrow> u8 list \<Rightarrow> sfs \<Rightarrow> (int \<times> sfs) option" where
  "spfs_mkdir agora path s =
     (if \<not> sfs_ok s then Some (- 1, s)
      else let (name, parent_path) = path_split path in
        case acha_pai parent_path s of
          (None, s) \<Rightarrow> Some (- 1, s)
        | (Some parent, s) \<Rightarrow> do {
            (inum, s) \<leftarrow> alloc_inode s;
            if inum = - 1 then Some (- 1, s)
            else do {
              (_, s) \<leftarrow> inode_write inum (novo_inode 2 agora) s;
              (_, s) \<leftarrow> dir_add_entry parent inum name s;
              Some (0, s) } })"

fun acha_entrada :: "setor \<Rightarrow> u32 \<Rightarrow> nat \<Rightarrow> nat \<Rightarrow> nat option" where
  "acha_entrada b inum i 0 = None"
| "acha_entrada b inum i (Suc n) = (if de_inode b i = inum then Some i else acha_entrada b inum (Suc i) n)"

fun remove_entrada :: "u32 list \<Rightarrow> u32 \<Rightarrow> sfs \<Rightarrow> sfs option" where
  "remove_entrada [] inum s = Some s"
| "remove_entrada (sec # secs) inum s =
     (if sec = 0 then Some s
      else let (r, b, s) = sfs_read_sec sec hdr0 s in
        if r \<noteq> 0 then Some s
        else case acha_entrada b inum 0 SFS_DIRENTS_PER_BLK of
          Some i \<Rightarrow> do { (_, s) \<leftarrow> sfs_write_sec sec (splice b (32 * i) (le32 0)) s; Some s }
        | None \<Rightarrow> remove_entrada secs inum s)"

definition spfs_unlink :: "u8 list \<Rightarrow> sfs \<Rightarrow> (int \<times> sfs) option" where
  "spfs_unlink path s =
     (if \<not> sfs_ok s then Some (- 1, s)
      else case path_find path s of
        (None, s) \<Rightarrow> Some (- 1, s)
      | (Some (inum, parent), s) \<Rightarrow>
          (let (r, x, s) = inode_read inum inode_zero s in
           if r \<noteq> 0 then Some (- 1, s)
           else do {
             s \<leftarrow> libera_blocos (in_blocks x) s;
             (_, s) \<leftarrow> inode_write inum (x\<lparr>in_type := 0\<rparr>) s;
             let s = s\<lparr>imap := bm_clr (imap s) inum\<rparr>;
             (_, s) \<leftarrow> sfs_write_sec SFS_IMAP_SEC (imap s) s;
             let s = s\<lparr>sb := (sb s)\<lparr>ss_free_inodes := ss_free_inodes (sb s) + 1\<rparr>\<rparr>;
             (_, s) \<leftarrow> sfs_write_sec SFS_SUPER_SEC (super_bytes (sb s)) s;
             let (r, dir, s) = inode_read parent inode_zero s;
             if r \<noteq> 0 then Some (0, s)
             else do { s \<leftarrow> remove_entrada (in_blocks dir) inum s; Some (0, s) } }))"

text \<open>A listing is the printed lines: whether the child is a directory, and its name.\<close>

fun ls_bloco :: "setor \<Rightarrow> nat \<Rightarrow> nat \<Rightarrow> sfs_inode \<Rightarrow> sfs \<Rightarrow> (bool \<times> u8 list) list \<times> sfs" where
  "ls_bloco b i 0 child s = ([], s)"
| "ls_bloco b i (Suc n) child s =
     (if de_inode b i = 0 then ls_bloco b (Suc i) n child s
      else let (_, c, s) = inode_read (de_inode b i) child s; (l, s) = ls_bloco b (Suc i) n child s
        in ((in_type c = 2, de_name b i) # l, s))"

fun ls_blocos :: "u32 list \<Rightarrow> sfs_inode \<Rightarrow> sfs \<Rightarrow> (bool \<times> u8 list) list \<times> sfs" where
  "ls_blocos [] child s = ([], s)"
| "ls_blocos (sec # secs) child s =
     (if sec = 0 then ([], s)
      else let (r, b, s) = sfs_read_sec sec hdr0 s in
        if r \<noteq> 0 then ([], s)
        else let (l, s) = ls_bloco b 0 SFS_DIRENTS_PER_BLK child s; (l', s) = ls_blocos secs child s in (l @ l', s))"

definition spfs_ls :: "sfs_inode \<Rightarrow> u8 list option \<Rightarrow> sfs \<Rightarrow> int \<times> (bool \<times> u8 list) list \<times> sfs" where
  "spfs_ls child path s =
     (if \<not> sfs_ok s then (- 1, [], s)
      else let (achou, s) =
          (case path of
             Some p \<Rightarrow> (if k_strlen p > 0 \<and> \<not> (char_at p 0 = barra \<and> char_at p 1 = 0)
               then (case path_find p s of (None, s) \<Rightarrow> (None, s) | (Some (i, _), s) \<Rightarrow> (Some i, s)) else (Some 0, s))
           | None \<Rightarrow> (Some 0, s))
        in case achou of None \<Rightarrow> (- 1, [], s)
        | Some inum \<Rightarrow>
            (let (r, dir, s) = inode_read inum inode_zero s in
             if r \<noteq> 0 \<or> in_type dir \<noteq> 2 then (- 1, [], s)
             else let (l, s) = ls_blocos (in_blocks dir) child s in (int (length l), l, s)))"

section \<open>Layout\<close>

lemma super_roundtrip [simp]: "length (ss_pad x) = 480 \<Longrightarrow> super_of (super_bytes x) = x"
  by (cases x) (simp add: super_of_def super_bytes_def rd32_append_ge rd32_append_lt slice_def)

lemma super_length [simp]: "length (ss_pad x) = 480 \<Longrightarrow> length (super_bytes x) = 512"
  by (simp add: super_bytes_def)

definition inode_ok :: "sfs_inode \<Rightarrow> bool" where
  "inode_ok x \<longleftrightarrow> length (in_blocks x) = 10 \<and> length (in_pad x) = 8"

lemma length_concat_le32 [simp]: "length (concat (map le32 xs)) = 4 * length xs"
  by (induction xs) simp_all

lemma rd32_concat: "i < length xs \<Longrightarrow> rd32 (concat (map le32 xs)) (4 * i) = xs ! i"
proof (induction xs arbitrary: i)
  case (Cons x xs)
  then show ?case by (cases i) (simp_all add: rd32_append_ge rd32_append_lt)
qed simp

lemma rd_head [simp]: "k + 4 \<le> length h \<Longrightarrow> rd32 (h @ t) k = rd32 h k"
  by (rule rd32_append_lt)

lemma inode_length [simp]: "inode_ok x \<Longrightarrow> length (inode_bytes x) = 64"
  by (simp add: inode_bytes_def inode_ok_def)

lemma inode_roundtrip [simp]: "inode_ok x \<Longrightarrow> inode_of (inode_bytes x) = x"
proof -
  assume ok: "inode_ok x"
  define A where "A = [in_type x, in_flags x] @ le16 (in_nlinks x)"
  define B where "B = concat (map le32 (in_blocks x))"
  have b: "inode_bytes x = A @ le32 (in_size x) @ le32 (in_mtime x) @ B @ le32 (in_indirect x) @ in_pad x"
    by (simp add: inode_bytes_def A_def B_def)
  have l: "length A = 4" "length B = 40" using ok by (simp_all add: A_def B_def inode_ok_def)
  have "inode_bytes x ! 0 = in_type x" "inode_bytes x ! 1 = in_flags x" by (simp_all add: inode_bytes_def)
  moreover have "rd16 (inode_bytes x) 2 = in_nlinks x"
    using rd16_append_ge [of "[in_type x, in_flags x]" 2] rd16_append_lt [of 0 "le16 (in_nlinks x)"] by (simp add: inode_bytes_def)
  moreover have "rd32 (inode_bytes x) 4 = in_size x" "rd32 (inode_bytes x) 8 = in_mtime x" "rd32 (inode_bytes x) 52 = in_indirect x"
    using l by (simp_all add: b rd32_append_ge)
  moreover have "slice (inode_bytes x) 56 8 = in_pad x"
    using l ok by (simp add: b slice_def inode_ok_def)
  moreover have "map (\<lambda>i. rd32 (inode_bytes x) (12 + 4 * i)) [0..<10] = in_blocks x"
  proof (rule nth_equalityI)
    fix i assume "i < length (map (\<lambda>i. rd32 (inode_bytes x) (12 + 4 * i)) [0..<10])"
    then have "i < 10" by simp
    then have "rd32 (inode_bytes x) (12 + 4 * i) = rd32 B (4 * i)" using l by (simp add: b rd32_append_ge)
    then show "map (\<lambda>i. rd32 (inode_bytes x) (12 + 4 * i)) [0..<10] ! i = in_blocks x ! i"
      using \<open>i < 10\<close> ok by (simp add: B_def rd32_concat inode_ok_def)
  qed (use ok in \<open>simp add: inode_ok_def\<close>)
  ultimately show ?thesis by (simp add: inode_of_def)
qed

lemma inode_ok_of [simp]: "length b = 64 \<Longrightarrow> inode_ok (inode_of b)"
  by (simp add: inode_ok_def inode_of_def)

lemma inode_ok_simps [simp]: "inode_ok inode_zero" "inode_ok (novo_inode t a)" "inode_ok (x\<lparr>in_size := z\<rparr>) = inode_ok x"
  "inode_ok (x\<lparr>in_type := ty\<rparr>) = inode_ok x" "inode_ok x \<Longrightarrow> inode_ok (x\<lparr>in_blocks := (in_blocks x)[k := w]\<rparr>)"
  by (simp_all add: inode_ok_def inode_zero_def novo_inode_def)

section \<open>Accesses to the volume\<close>

text \<open>The driver in state \<open>s\<close> works on a volume whose sectors outside the journal are \<open>d\<close>;
  \<open>memoria_sfs\<close> is what the driver keeps in memory.\<close>

definition fora :: "u32 \<Rightarrow> bool" where "fora l \<longleftrightarrow> (l < 35 \<or> 97 < l) \<and> l < 2 ^ 28"

definition vol :: "sfs \<Rightarrow> (u32 \<Rightarrow> setor) \<Rightarrow> bool" where
  "vol s d \<longleftrightarrow> (\<exists>d'. journal_ok s d' \<and> (\<forall>l. fora l \<longrightarrow> d' l = d l))"

definition memoria_sfs :: "sfs \<Rightarrow> sfs_super \<times> u8 list \<times> u8 list \<times> bool" where
  "memoria_sfs s = (sb s, imap s, bmap s, sfs_ok s)"

lemma vol_campos [simp]: "vol (s\<lparr>sb := x\<rparr>) d = vol s d" "vol (s\<lparr>imap := y\<rparr>) d = vol s d" "vol (s\<lparr>bmap := y\<rparr>) d = vol s d"
  "vol (s\<lparr>sfs_ok := z\<rparr>) d = vol s d"
  by (simp_all add: vol_def journal_ok_def)

lemma vol_tamanho: "vol s d \<Longrightarrow> fora l \<Longrightarrow> length (d l) = 512"
  unfolding vol_def journal_ok_def by (metis d1.tamanho)

lemma le_setor:
  assumes "vol s d" "fora l" "length b = 512"
  obtains s' where "sfs_read_sec l b s = (0, d l, s')" "vol s' d" "memoria_sfs s' = memoria_sfs s"
proof -
  obtain d' where d': "journal_ok s d'" "\<forall>l. fora l \<longrightarrow> d' l = d l" using assms(1) by (auto simp: vol_def)
  obtain a where a: "j_ler l b s = (0, d' l, s\<lparr>j_ata := a\<rparr>)" "disp1 a d'"
    using j_ler_ok [of s d' l b] d'(1) assms(2,3) by (auto simp: journal_ok_def fora_def)
  have "journal_ok (s\<lparr>j_ata := a\<rparr>) d'" using d'(1) a(2) by (simp add: journal_ok_def)
  then show thesis using that [of "s\<lparr>j_ata := a\<rparr>"] a(1) d'(2) assms(2)
    by (auto simp: vol_def sfs_read_sec_def memoria_sfs_def)
qed

lemma grava_setor:
  assumes "vol s d" "fora l" "length b = 512"
  obtains s' where "sfs_write_sec l b s = Some (0, s')" "vol s' (d(l := b))" "memoria_sfs s' = memoria_sfs s"
proof -
  obtain d' where d': "journal_ok s d'" "\<forall>l. fora l \<longrightarrow> d' l = d l" using assms(1) by (auto simp: vol_def)
  have f: "l < 35 \<or> 97 < l" "l < 2 ^ 28" using assms(2) by (simp_all add: fora_def)
  obtain a where a: "sfs_write_sec l b s = Some (0, s\<lparr>j_ata := a, jmeta := meta2 s\<rparr>)" "disp1 a (aplicar (escritas_de s l b) d')"
    using sfs_write_sec_passos [OF d'(1) f assms(3)] by blast
  have "journal_ok (s\<lparr>j_ata := a, jmeta := meta2 s\<rparr>) (aplicar (escritas_de s l b) d')"
    by (rule journal_ok_escrita [OF d'(1) f(1) a(2)])
  moreover have "aplicar (escritas_de s l b) d' m = (d(l := b)) m" if "fora m" for m
    using that d'(2) f ent_eqs [OF journal_ok_partes(6) [OF d'(1)]] by (auto simp: escritas_de_def fora_def)
  ultimately show thesis using that [of "s\<lparr>j_ata := a, jmeta := meta2 s\<rparr>"] a(1)
    by (auto simp: vol_def memoria_sfs_def)
qed

lemma fora_fixos [simp]: "fora 0" "fora 1" "fora 2"
  by (simp_all add: fora_def)

lemma mem_eq: "memoria_sfs s' = memoria_sfs s \<longleftrightarrow> sb s' = sb s \<and> imap s' = imap s \<and> bmap s' = bmap s \<and> sfs_ok s' = sfs_ok s"
  by (auto simp: memoria_sfs_def)

section \<open>Inodes\<close>

lemma inode_lugar:
  assumes "i < 256"
  shows "unat (inode_sec i) = 3 + unat i div 8" "inode_off i = 64 * (unat i mod 8)" "fora (inode_sec i)"
proof -
  have i: "unat i < 256" using assms by (simp add: word_less_nat_alt)
  have d: "unat (i div 8) = unat i div 8" by (simp add: unat_div)
  show s: "unat (inode_sec i) = 3 + unat i div 8"
  proof -
    have "unat (3 + i div 8) = unat (3 :: u32) + unat (i div 8)"
      by (rule unat_add_lem [THEN iffD1]) (use d i in simp)
    then show ?thesis using d by (simp add: inode_sec_def sfs_consts)
  qed
  show "inode_off i = 64 * (unat i mod 8)"
    by (simp add: inode_off_def sfs_consts unat_word_ariths unat_mod)
  have "unat i div 8 < 32" using i by (simp add: less_mult_imp_div_less)
  then show "fora (inode_sec i)" using s by (simp add: fora_def word_less_nat_alt)
qed

definition inode_em :: "(u32 \<Rightarrow> setor) \<Rightarrow> u32 \<Rightarrow> sfs_inode" where
  "inode_em d i = inode_of (slice (d (inode_sec i)) (inode_off i) 64)"

lemma inode_cabe: "i < 256 \<Longrightarrow> inode_off i + 64 \<le> 512"
  using inode_lugar(2) [of i] by simp

lemma inode_em_ok [simp]: "vol s d \<Longrightarrow> i < 256 \<Longrightarrow> inode_ok (inode_em d i)"
  using vol_tamanho [of s d "inode_sec i"] inode_lugar(3) [of i] inode_cabe [of i] by (simp add: inode_em_def)

lemma le_inode:
  assumes "vol s d" "i < 256"
  obtains s' where "inode_read i x s = (0, inode_em d i, s')" "vol s' d" "memoria_sfs s' = memoria_sfs s"
proof -
  obtain s' where "sfs_read_sec (inode_sec i) hdr0 s = (0, d (inode_sec i), s')" "vol s' d" "memoria_sfs s' = memoria_sfs s"
    using le_setor [OF assms(1) inode_lugar(3) [OF assms(2)] hdr0_length] .
  with that show thesis by (simp add: inode_read_def inode_em_def)
qed

lemma grava_inode:
  assumes "vol s d" "i < 256" "inode_ok x"
  obtains s' where "inode_write i x s = Some (0, s')"
    "vol s' (d(inode_sec i := splice (d (inode_sec i)) (inode_off i) (inode_bytes x)))" "memoria_sfs s' = memoria_sfs s"
proof -
  note L = inode_lugar [OF assms(2)]
  obtain s1 where s1: "sfs_read_sec (inode_sec i) hdr0 s = (0, d (inode_sec i), s1)" "vol s1 d" "memoria_sfs s1 = memoria_sfs s"
    using le_setor [OF assms(1) L(3) hdr0_length] .
  have "length (splice (d (inode_sec i)) (inode_off i) (inode_bytes x)) = 512"
    using vol_tamanho [OF assms(1) L(3)] inode_cabe [OF assms(2)] assms(3) by simp
  then obtain s' where "sfs_write_sec (inode_sec i) (splice (d (inode_sec i)) (inode_off i) (inode_bytes x)) s1 = Some (0, s')"
    "vol s' (d(inode_sec i := splice (d (inode_sec i)) (inode_off i) (inode_bytes x)))" "memoria_sfs s' = memoria_sfs s1"
    using grava_setor [OF s1(2) L(3)] by blast
  with that s1 show thesis by (simp add: inode_write_def)
qed

lemma inode_em_grava:
  assumes "vol s d" "i < 256" "j < 256" "inode_ok x"
  shows "inode_em (d(inode_sec i := splice (d (inode_sec i)) (inode_off i) (inode_bytes x))) j = (if j = i then x else inode_em d j)"
proof (cases "j = i")
  case True
  have "slice (splice (d (inode_sec i)) (inode_off i) (inode_bytes x)) (inode_off i) (length (inode_bytes x)) = inode_bytes x"
    using vol_tamanho [OF assms(1) inode_lugar(3) [OF assms(2)]] inode_cabe [OF assms(2)] by simp
  then show ?thesis using True assms(4) by (simp add: inode_em_def)
next
  case False
  then have n: "unat j \<noteq> unat i" by (simp add: unat_eq_iff)
  show ?thesis
  proof (cases "inode_sec j = inode_sec i")
    case True
    then have "unat j div 8 = unat i div 8" using inode_lugar(1) [OF assms(2)] inode_lugar(1) [OF assms(3)] by simp
    then have "unat j mod 8 \<noteq> unat i mod 8" using n by (metis div_mult_mod_eq)
    then have "inode_off j + 64 \<le> inode_off i \<or> inode_off i + 64 \<le> inode_off j"
      using inode_lugar(2) [OF assms(2)] inode_lugar(2) [OF assms(3)] by linarith
    then show ?thesis
      using True False vol_tamanho [OF assms(1) inode_lugar(3) [OF assms(2)]] inode_cabe [OF assms(2)] assms(4)
      by (simp add: inode_em_def slice_splice_other)
  next
    case False
    then show ?thesis using \<open>j \<noteq> i\<close> by (simp add: inode_em_def)
  qed
qed

lemma inode_em_outro: "\<not> (3 \<le> l \<and> l < 35) \<Longrightarrow> j < 256 \<Longrightarrow> inode_em (d(l := b)) j = inode_em d j"
proof -
  assume l: "\<not> (3 \<le> l \<and> l < 35)" and j: "j < 256"
  have "3 \<le> inode_sec j \<and> inode_sec j < 35"
    using inode_lugar(1) [OF j] j by (simp add: word_le_nat_alt word_less_nat_alt)
  with l show ?thesis by (auto simp: inode_em_def)
qed

section \<open>Bitmaps and allocation\<close>

lemma bm_test_bit: "bm_test bm b \<longleftrightarrow> bit (bm ! (unat b div 8)) (unat b mod 8)"
  by (simp add: bm_test_def bit_iff_odd_drop_bit and_one_eq odd_iff_mod_2_eq_one unat_div unat_mod)

lemma bm_nat: "i < 4096 \<Longrightarrow> unat (of_nat i :: u32) = i"
  by (simp add: unat_of_nat take_bit_nat_eq_self)

lemma bm_length [simp]: "length (bm_set bm b) = length bm" "length (bm_clr bm b) = length bm"
  by (simp_all add: bm_set_def bm_clr_def)

lemma bm_test_set:
  assumes "length bm = 512" "i < 4096" "j < 4096"
  shows "bm_test (bm_set bm (of_nat i)) (of_nat j) \<longleftrightarrow> j = i \<or> bm_test bm (of_nat j)"
    and "bm_test (bm_clr bm (of_nat i)) (of_nat j) \<longleftrightarrow> j \<noteq> i \<and> bm_test bm (of_nat j)"
proof -
  have p: "i div 8 < 512" "j div 8 < 512" using assms by (simp_all add: less_mult_imp_div_less)
  have e: "i = j \<longleftrightarrow> i div 8 = j div 8 \<and> i mod 8 = j mod 8" by (metis div_mult_mod_eq)
  show "bm_test (bm_set bm (of_nat i)) (of_nat j) \<longleftrightarrow> j = i \<or> bm_test bm (of_nat j)"
    "bm_test (bm_clr bm (of_nat i)) (of_nat j) \<longleftrightarrow> j \<noteq> i \<and> bm_test bm (of_nat j)"
    using assms p e by (auto simp: bm_test_bit bm_set_def bm_clr_def nth_list_update bm_nat unat_div unat_mod bit_simps)
qed

lemma find_livre:
  "find P [a..<b] = Some i \<longleftrightarrow> a \<le> i \<and> i < b \<and> P i \<and> (\<forall>j. a \<le> j \<and> j < i \<longrightarrow> \<not> P j)"
proof
  assume "find P [a..<b] = Some i"
  then show "a \<le> i \<and> i < b \<and> P i \<and> (\<forall>j. a \<le> j \<and> j < i \<longrightarrow> \<not> P j)"
    by (auto simp: find_Some_iff) (metis add.commute le_add_diff_inverse nth_upt less_diff_conv order_less_trans add_less_cancel_left)
next
  assume h: "a \<le> i \<and> i < b \<and> P i \<and> (\<forall>j. a \<le> j \<and> j < i \<longrightarrow> \<not> P j)"
  then show "find P [a..<b] = Some i"
    by (auto simp: find_Some_iff intro!: exI [of _ "i - a"])
qed

text \<open>What one allocation does to the volume and the driver's memory.\<close>

lemma alloc_block_ok:
  assumes "vol s d" "length (bmap s) = 512" "length (ss_pad (sb s)) = 480"
    "find (\<lambda>i. \<not> bm_test (bmap s) (of_nat i)) [0..<unat (max_blocos s)] = Some i"
  obtains s' where "alloc_block s = Some (99 + of_nat i, s')"
    "bmap s' = bm_set (bmap s) (of_nat i)" "sb s' = (sb s)\<lparr>ss_free := ss_free (sb s) - 1\<rparr>"
    "imap s' = imap s" "sfs_ok s' = sfs_ok s" "vol s' (d(2 := bmap s', 0 := super_bytes (sb s')))"
proof -
  define s1 where "s1 = s\<lparr>bmap := bm_set (bmap s) (of_nat i)\<rparr>"
  have v1: "vol s1 d" "length (bmap s1) = 512" using assms by (simp_all add: s1_def)
  obtain s2 where s2: "sfs_write_sec 2 (bmap s1) s1 = Some (0, s2)" "vol s2 (d(2 := bmap s1))" "memoria_sfs s2 = memoria_sfs s1"
    using grava_setor [OF v1(1) _ v1(2), of 2] by auto
  define s3 where "s3 = s2\<lparr>sb := (sb s2)\<lparr>ss_free := ss_free (sb s2) - 1\<rparr>\<rparr>"
  have v3: "vol s3 (d(2 := bmap s1))" "length (super_bytes (sb s3)) = 512"
    using s2(2,3) assms(3) by (simp_all add: s3_def mem_eq s1_def)
  obtain s4 where s4: "sfs_write_sec 0 (super_bytes (sb s3)) s3 = Some (0, s4)"
    "vol s4 (d(2 := bmap s1, 0 := super_bytes (sb s3)))" "memoria_sfs s4 = memoria_sfs s3"
    using grava_setor [OF v3(1) _ v3(2), of 0] by auto
  have "alloc_block s = Some (99 + of_nat i, s4)"
    using s2(1) s4(1) by (simp add: alloc_block_def assms(4) sfs_consts s1_def s3_def)
  moreover have "bmap s4 = bmap s1" "sb s4 = sb s3" "imap s4 = imap s" "sfs_ok s4 = sfs_ok s" "sb s3 = (sb s)\<lparr>ss_free := ss_free (sb s) - 1\<rparr>"
    using s2(3) s4(3) by (simp_all add: mem_eq s3_def s1_def)
  ultimately show thesis using that [of s4] s4(2) by (simp add: s1_def)
qed

lemma alloc_inode_ok:
  assumes "vol s d" "length (imap s) = 512" "length (ss_pad (sb s)) = 480"
    "find (\<lambda>i. \<not> bm_test (imap s) (of_nat i)) [1..<256] = Some i"
  obtains s' where "alloc_inode s = Some (of_nat i, s')"
    "imap s' = bm_set (imap s) (of_nat i)" "sb s' = (sb s)\<lparr>ss_free_inodes := ss_free_inodes (sb s) - 1\<rparr>"
    "bmap s' = bmap s" "sfs_ok s' = sfs_ok s" "vol s' (d(1 := imap s', 0 := super_bytes (sb s')))"
proof -
  define s1 where "s1 = s\<lparr>imap := bm_set (imap s) (of_nat i)\<rparr>"
  have v1: "vol s1 d" "length (imap s1) = 512" using assms by (simp_all add: s1_def)
  obtain s2 where s2: "sfs_write_sec 1 (imap s1) s1 = Some (0, s2)" "vol s2 (d(1 := imap s1))" "memoria_sfs s2 = memoria_sfs s1"
    using grava_setor [OF v1(1) _ v1(2), of 1] by auto
  define s3 where "s3 = s2\<lparr>sb := (sb s2)\<lparr>ss_free_inodes := ss_free_inodes (sb s2) - 1\<rparr>\<rparr>"
  have v3: "vol s3 (d(1 := imap s1))" "length (super_bytes (sb s3)) = 512"
    using s2(2,3) assms(3) by (simp_all add: s3_def mem_eq s1_def)
  obtain s4 where s4: "sfs_write_sec 0 (super_bytes (sb s3)) s3 = Some (0, s4)"
    "vol s4 (d(1 := imap s1, 0 := super_bytes (sb s3)))" "memoria_sfs s4 = memoria_sfs s3"
    using grava_setor [OF v3(1) _ v3(2), of 0] by auto
  have "alloc_inode s = Some (of_nat i, s4)"
    using s2(1) s4(1) assms(4) by (simp add: alloc_inode_def sfs_consts s1_def s3_def)
  moreover have "imap s4 = imap s1" "sb s4 = sb s3" "bmap s4 = bmap s" "sfs_ok s4 = sfs_ok s"
      "sb s3 = (sb s)\<lparr>ss_free_inodes := ss_free_inodes (sb s) - 1\<rparr>"
    using s2(3) s4(3) by (simp_all add: mem_eq s3_def s1_def)
  ultimately show thesis using that [of s4] s4(2) by (simp add: s1_def)
qed

end
