(* ===== verification/Volume.thy ===== *)
theory Volume
  imports SpaceFS
begin

text \<open>
  Whole-file correctness of \<^verbatim>\<open>kernel/fs/spacefs.c\<close>.  The abstract view of a volume with files in its root
  directory is the list of their names and contents; \<open>raiz\<close> is the representation relation.  The
  theorems show that \<open>spfs_write\<close> of a new name appends to that list, that \<open>spfs_read\<close> is its lookup, and
  that formatting and mounting give the empty list.
\<close>

section \<open>Directory entries\<close>

definition nome_ok :: "u8 list \<Rightarrow> bool" where
  "nome_ok n \<longleftrightarrow> n \<noteq> [] \<and> length n \<le> 27 \<and> is_cstr n \<and> barra \<notin> set n"

definition entrada :: "u32 \<Rightarrow> u8 list \<Rightarrow> u8 list" where
  "entrada i n = le32 i @ strn n 27 @ [0]"

definition dirblk :: "setor \<Rightarrow> u8 list list \<Rightarrow> bool" where
  "dirblk b ns \<longleftrightarrow> length b = 512 \<and> length ns \<le> 16 \<and>
     (\<forall>j<16. if j < length ns then slice b (32 * j) 32 = entrada (of_nat (j + 1)) (ns ! j) else de_inode b j = 0)"

lemma length_entrada [simp]: "length (entrada i n) = 32"
  by (simp add: entrada_def)

lemma de_da_entrada:
  assumes "slice b (32 * j) 32 = entrada i n" "length b = 512" "j < 16" "nome_ok n"
  shows "de_inode b j = i" "de_name b j = n"
proof -
  have "slice b (32 * j) 4 = take 4 (slice b (32 * j) 32)" by (simp add: slice_def)
  then show "de_inode b j = i"
    using rd32_slice [of "32 * j" b] assms by (simp add: de_inode_def entrada_def)
  have "take 28 (drop (32 * j + 4) b) = drop 4 (slice b (32 * j) 32)" by (simp add: slice_def drop_take add.commute)
  then have t: "take 28 (drop (32 * j + 4) b) = strn n 27 @ [0]" unfolding assms(1) by (simp add: entrada_def)
  have "drop (32 * j + 4) b = take 28 (drop (32 * j + 4) b) @ drop 28 (drop (32 * j + 4) b)"
    by (rule append_take_drop_id [symmetric])
  then have "drop (32 * j + 4) b = strn n 27 @ 0 # drop 28 (drop (32 * j + 4) b)"
    unfolding t by simp
  then show "de_name b j = n"
    using assms(4) by (auto simp: de_name_def cstr_strn nome_ok_def)
qed

lemma of_nat_suc_nz: "j < 16 \<Longrightarrow> (of_nat (j + 1) :: u32) \<noteq> 0"
proof
  assume j: "j < 16" and "(of_nat (j + 1) :: u32) = 0"
  then have "unat (of_nat (j + 1) :: u32) = 0" by simp
  then show False using j bm_nat [of "j + 1"] by simp
qed

lemma dirblk_de:
  assumes "dirblk b ns" "\<forall>n \<in> set ns. nome_ok n" "j < 16"
  shows "de_inode b j = (if j < length ns then of_nat (j + 1) else 0)" "j < length ns \<Longrightarrow> de_name b j = ns ! j"
proof -
  show "de_inode b j = (if j < length ns then of_nat (j + 1) else 0)"
    using assms de_da_entrada(1) [of b j] by (auto simp: dirblk_def)
  show "j < length ns \<Longrightarrow> de_name b j = ns ! j"
    using assms de_da_entrada(2) [of b j] by (auto simp: dirblk_def)
qed

lemma busca_bloco_dir:
  assumes "dirblk b ns" "\<forall>n \<in> set ns. nome_ok n" "nome_ok tok" "i + k = length ns"
  shows "busca_bloco b tok i k = map_option (\<lambda>j. of_nat (j + 1)) (find (\<lambda>j. ns ! j = tok) [i..<length ns])"
  using assms(4)
proof (induction k arbitrary: i)
  case (Suc k)
  then have i: "i < length ns" "i < 16" using assms(1) by (simp_all add: dirblk_def)
  have c: "nome_ok (ns ! i)" using assms(2) i by simp
  have "k_strcmp (de_name b i) tok = 0 \<longleftrightarrow> ns ! i = tok"
    using dirblk_de(2) [OF assms(1,2) i(2,1)] c assms(3) by (simp add: k_strcmp_eq_0 nome_ok_def)
  moreover have "de_inode b i = of_nat (i + 1)" "de_inode b i \<noteq> 0"
    using dirblk_de(1) [OF assms(1,2) i(2)] i of_nat_suc_nz [OF i(2)] by simp_all
  ultimately show ?case using Suc i by (simp add: upt_conv_Cons)
qed (use assms(4) in simp)

lemma vaga_dir:
  assumes "dirblk b ns" "\<forall>n \<in> set ns. nome_ok n" "length ns < 16" "i + k = 16" "i \<le> length ns"
  shows "vaga b i k = Some (length ns)"
  using assms(4,5)
proof (induction k arbitrary: i)
  case (Suc k)
  have i: "i < 16" using Suc.prems by simp
  show ?case using Suc dirblk_de(1) [OF assms(1,2) i] of_nat_suc_nz [OF i] by auto
qed (use assms(3) in simp)

lemma dirblk_grava:
  assumes "dirblk b ns" "\<forall>n \<in> set ns. nome_ok n" "length ns < 16" "nome_ok n"
  shows "dirblk (de_grava b (length ns) (of_nat (length ns + 1)) n) (ns @ [n])"
proof -
  let ?b = "splice b (32 * length ns) (entrada (of_nat (length ns + 1)) n)"
  have l: "length b = 512" using assms(1) by (simp add: dirblk_def)
  have c: "32 * length ns + 32 \<le> 512" using assms(3) by simp
  have "if j < length (ns @ [n]) then slice ?b (32 * j) 32 = entrada (of_nat (j + 1)) ((ns @ [n]) ! j) else de_inode ?b j = 0"
    if j: "j < 16" for j
  proof (cases "j = length ns")
    case True
    then show ?thesis using l c slice_splice_same [of "32 * length ns" b "entrada (of_nat (length ns + 1)) n"] by simp
  next
    case False
    then have "32 * j + 32 \<le> 32 * length ns \<or> 32 * length ns + 32 \<le> 32 * j" by linarith
    then have "slice ?b (32 * j) 32 = slice b (32 * j) 32" "rd32 ?b (32 * j) = rd32 b (32 * j)"
      using l c j by (auto intro!: slice_splice_other rd32_splice_other)
    then show ?thesis using assms(1) j False by (auto simp: dirblk_def de_inode_def nth_append)
  qed
  note entradas = this
  have g: "de_grava b (length ns) (of_nat (length ns + 1)) n = ?b"
    by (simp add: de_grava_def entrada_def SFS_NAME_MAX_def)
  show ?thesis unfolding g dirblk_def
  proof (intro conjI allI impI)
    show "length ?b = 512" using l c by simp
    show "length (ns @ [n]) \<le> 16" using assms(3) by simp
  qed (rule entradas)
qed

lemma dirblk_vazio: "dirblk (replicate 512 0) []"
  by (auto simp: dirblk_def de_inode_def rd32_def)

section \<open>Files\<close>

text \<open>Inode \<open>i\<close> is a file with contents \<open>x\<close>, in blocks below \<open>m\<close> and after the root's.\<close>

definition pedaco :: "u8 list \<Rightarrow> nat \<Rightarrow> u8 list" where
  "pedaco x b = take 512 (drop (512 * b) x)"

definition conteudo :: "(u32 \<Rightarrow> setor) \<Rightarrow> nat \<Rightarrow> nat \<Rightarrow> u32 list \<Rightarrow> u8 list \<Rightarrow> nat \<Rightarrow> bool" where
  "conteudo d m m' bs x b \<longleftrightarrow> 99 + m \<le> unat (bs ! b) \<and> unat (bs ! b) < 99 + m' \<and>
     take (length (pedaco x b)) (d (bs ! b)) = pedaco x b"

definition arquivo :: "(u32 \<Rightarrow> setor) \<Rightarrow> nat \<Rightarrow> u32 \<Rightarrow> u8 list \<Rightarrow> bool" where
  "arquivo d m i x \<longleftrightarrow> in_type (inode_em d i) = 1 \<and> in_size (inode_em d i) = of_nat (length x) \<and>
     (\<forall>b<10. 512 * b < length x \<longrightarrow> conteudo d 1 m (in_blocks (inode_em d i)) x b)"

text \<open>Only the sectors of the superblock, the block bitmap and the data area from \<open>m\<close> on may differ.\<close>

definition preserva :: "nat \<Rightarrow> (u32 \<Rightarrow> setor) \<Rightarrow> (u32 \<Rightarrow> setor) \<Rightarrow> bool" where
  "preserva m d d' \<longleftrightarrow> (\<forall>l. l \<noteq> 0 \<and> l \<noteq> 2 \<and> unat l < 99 + m \<longrightarrow> d' l = d l)"

lemma preserva_inode: "preserva m d d' \<Longrightarrow> j < 256 \<Longrightarrow> inode_em d' j = inode_em d j"
proof -
  assume p: "preserva m d d'" and j: "j < 256"
  have "unat j div 8 < 32" using j by (simp add: word_less_nat_alt less_mult_imp_div_less)
  then have u: "3 \<le> unat (inode_sec j)" "unat (inode_sec j) < 35" using inode_lugar(1) [OF j] by simp_all
  have "inode_sec j \<noteq> 0" "inode_sec j \<noteq> 2" using u(1) by auto
  then show ?thesis using p u by (simp add: preserva_def inode_em_def)
qed

lemma preserva_trans: "preserva m d d' \<Longrightarrow> preserva m' d' d'' \<Longrightarrow> m \<le> m' \<Longrightarrow> preserva m d d''"
  by (simp add: preserva_def)

lemma arquivo_preserva:
  assumes "arquivo d m i x" "preserva m d d'" "m \<le> m'" "i < 256"
  shows "arquivo d' m' i x"
proof -
  have "d' (in_blocks (inode_em d i) ! b) = d (in_blocks (inode_em d i) ! b)" if "b < 10" "512 * b < length x" for b
  proof -
    have u: "100 \<le> unat (in_blocks (inode_em d i) ! b)" "unat (in_blocks (inode_em d i) ! b) < 99 + m"
      using assms(1) that by (auto simp: arquivo_def conteudo_def)
    then have "in_blocks (inode_em d i) ! b \<noteq> 0" "in_blocks (inode_em d i) ! b \<noteq> 2" by auto
    then show ?thesis using assms(2) u(2) by (simp add: preserva_def)
  qed
  then show ?thesis
    using assms by (auto simp: arquivo_def conteudo_def preserva_inode)
qed

section \<open>Numbers and buffers\<close>

lemma u32_nat:
  assumes "a < 2 ^ 32" "b < 2 ^ 32"
  shows "(of_nat a :: u32) < of_nat b \<longleftrightarrow> a < b" "(of_nat a :: u32) \<le> of_nat b \<longleftrightarrow> a \<le> b"
    "min (of_nat a :: u32) (of_nat b) = of_nat (min a b)" "unat (of_nat a :: u32) = a"
proof -
  have u: "unat (of_nat a :: u32) = a" "unat (of_nat b :: u32) = b" using assms by (simp_all add: unat_of_nat take_bit_nat_eq_self)
  then show "(of_nat a :: u32) < of_nat b \<longleftrightarrow> a < b" "(of_nat a :: u32) \<le> of_nat b \<longleftrightarrow> a \<le> b" "unat (of_nat a :: u32) = a"
    by (simp_all add: word_less_nat_alt word_le_nat_alt)
  then show "min (of_nat a :: u32) (of_nat b) = of_nat (min a b)" by (simp add: min_def)
qed

lemma splice_append:
  "length xs + length ys \<le> length b \<Longrightarrow> splice (splice b 0 xs) (length xs) ys = splice b 0 (xs @ ys)"
  by (simp add: splice_def add.commute)

lemma preserva_fora: "m \<le> 4096 \<Longrightarrow> unat l = 99 + k \<Longrightarrow> k < m \<Longrightarrow> fora l"
  by (simp add: fora_def word_less_nat_alt)

section \<open>Reading the blocks of a file\<close>

lemma le_blocos_ok:
  assumes "vol s d" "n \<le> length x" "length x \<le> 5120" "length bs = 10" "m' \<le> 4096" "n \<le> length buf" "b + k = 10"
    "\<And>b. b < 10 \<Longrightarrow> 512 * b < length x \<Longrightarrow> conteudo d m m' bs x b"
  shows "\<exists>s'. le_blocos (drop b bs) (of_nat n) (of_nat (min (512 * b) n)) (splice buf 0 (take (min (512 * b) n) x)) s =
      (of_nat n, splice buf 0 (take n x), s') \<and> vol s' d \<and> memoria_sfs s' = memoria_sfs s"
  using assms(1,7)
proof (induction k arbitrary: b s)
  case 0
  then show ?case using assms(2,3,4) by (simp add: min_absorb2)
next
  case (Suc k)
  have b: "b < 10" using Suc.prems by simp
  have dr: "drop b bs = bs ! b # drop (Suc b) bs" using b assms(4) by (simp add: Cons_nth_drop_Suc)
  show ?case
  proof (cases "512 * b < n")
    case False
    then show ?thesis using Suc.prems by (simp add: dr min_absorb2)
  next
    case True
    have c: "conteudo d m m' bs x b" using assms(8) b True assms(2) by simp
    then have sec: "fora (bs ! b)" "bs ! b \<noteq> 0"
      using assms(5) preserva_fora [of m' "bs ! b" "unat (bs ! b) - 99"] by (auto simp: conteudo_def)
    obtain s1 where s1: "sfs_read_sec (bs ! b) hdr0 s = (0, d (bs ! b), s1)" "vol s1 d" "memoria_sfs s1 = memoria_sfs s"
      using le_setor [OF Suc.prems(1) sec(1) hdr0_length] .
    let ?c = "min (n - 512 * b) 512"
    have ch: "min ((of_nat n :: u32) - of_nat (512 * b)) 512 = of_nat ?c"
      using u32_nat(3) [of "n - 512 * b" 512] True assms(2,3) by (simp add: of_nat_diff)
    have "take ?c (d (bs ! b)) = take ?c (pedaco x b)"
    proof -
      have "?c \<le> length (pedaco x b)" using assms(2) by (simp add: pedaco_def)
      then have "take ?c (d (bs ! b)) = take ?c (take (length (pedaco x b)) (d (bs ! b)))" by (simp add: min_absorb1)
      then show ?thesis using c unfolding conteudo_def by (simp only:)
    qed
    then have t: "take ?c (d (bs ! b)) = take ?c (drop (512 * b) x)" by (simp add: pedaco_def)
    have "splice (splice buf 0 (take (512 * b) x)) (512 * b) (take ?c (drop (512 * b) x)) = splice buf 0 (take (512 * b + ?c) x)"
      using splice_append [of "take (512 * b) x" "take ?c (drop (512 * b) x)" buf] True assms(2,6) by (simp add: take_add)
    moreover have "512 * b + ?c = min (512 * Suc b) n" using True by (auto simp: min_def)
    ultimately have sp: "splice (splice buf 0 (take (512 * b) x)) (512 * b) (take ?c (drop (512 * b) x)) = splice buf 0 (take (min (512 * Suc b) n) x)"
      and fe: "(of_nat (512 * b) :: u32) + of_nat ?c = of_nat (min (512 * Suc b) n)"
      by (metis, metis of_nat_add)
    have "le_blocos (drop b bs) (of_nat n) (of_nat (512 * b)) (splice buf 0 (take (512 * b) x)) s =
        le_blocos (drop (Suc b) bs) (of_nat n) (of_nat (min (512 * Suc b) n)) (splice buf 0 (take (min (512 * Suc b) n) x)) s1"
      using True sec(2) s1(1) u32_nat(1,4) [of "512 * b" n] u32_nat(4) [of ?c 0] assms(2,3)
      by (simp add: dr ch t sp fe Let_def del: of_nat_mult of_nat_min min.bounded_iff)
    then show ?thesis using Suc.IH [OF s1(2), of "Suc b"] Suc.prems(2) s1(3) True by (simp add: min_absorb1)
  qed
qed

section \<open>Writing the blocks of a file\<close>

definition prefixo :: "u8 list \<Rightarrow> nat \<Rightarrow> bool" where
  "prefixo bm m \<longleftrightarrow> length bm = 512 \<and> (\<forall>i<4096. bm_test bm (of_nat i) \<longleftrightarrow> i < m)"

definition resto_sfs :: "sfs \<Rightarrow> u32 \<times> u32 \<times> u32 \<times> nat \<times> u8 list \<times> bool" where
  "resto_sfs s = (ss_magic (sb s), ss_total (sb s), ss_root (sb s), length (ss_pad (sb s)), imap s, sfs_ok s)"

text \<open>The superblock and the bitmaps on the disk are those in memory.\<close>

definition sinc :: "sfs \<Rightarrow> (u32 \<Rightarrow> setor) \<Rightarrow> bool" where
  "sinc s d \<longleftrightarrow> d 0 = super_bytes (sb s) \<and> d 1 = imap s \<and> d 2 = bmap s"

lemma sinc_muda: "sinc s d \<Longrightarrow> memoria_sfs s' = memoria_sfs s \<Longrightarrow> d' 0 = d 0 \<Longrightarrow> d' 1 = d 1 \<Longrightarrow> d' 2 = d 2 \<Longrightarrow> sinc s' d'"
  by (simp add: sinc_def mem_eq)

lemma aloca_prefixo:
  assumes "sinc s d" "vol s d" "prefixo (bmap s) m" "m < 4096" "ss_total (sb s) = 65437" "length (ss_pad (sb s)) = 480"
  obtains s' d' where "alloc_block s = Some (99 + of_nat m, s')" "prefixo (bmap s') (Suc m)" "resto_sfs s' = resto_sfs s"
    "vol s' d'" "preserva m d d'" "\<And>l. l \<noteq> 0 \<Longrightarrow> l \<noteq> 2 \<Longrightarrow> d' l = d l" "sinc s' d'"
proof -
  have mx: "unat (max_blocos s) = 4096" using assms(5) by (simp add: max_blocos_def)
  have f: "find (\<lambda>i. \<not> bm_test (bmap s) (of_nat i)) [0..<unat (max_blocos s)] = Some m"
    unfolding mx find_livre using assms(3,4) by (simp add: prefixo_def)
  have l: "length (bmap s) = 512" using assms(3) by (simp add: prefixo_def)
  obtain s' where s': "alloc_block s = Some (99 + of_nat m, s')"
    "bmap s' = bm_set (bmap s) (of_nat m)" "sb s' = (sb s)\<lparr>ss_free := ss_free (sb s) - 1\<rparr>"
    "imap s' = imap s" "sfs_ok s' = sfs_ok s" "vol s' (d(2 := bmap s', 0 := super_bytes (sb s')))"
    using alloc_block_ok [OF assms(2) l assms(6) f] .
  moreover have "prefixo (bmap s') (Suc m)"
    using assms(3,4) bm_test_set(1) [OF l assms(4)] by (auto simp: prefixo_def s'(2))
  ultimately show thesis using that [of s' "d(2 := bmap s', 0 := super_bytes (sb s'))"]
    using assms(1) by (simp add: resto_sfs_def preserva_def sinc_def)
qed

lemma sec_de_aloca: "m < 4096 \<Longrightarrow> unat (99 + of_nat m :: u32) = 99 + m" "m < 4096 \<Longrightarrow> 99 + of_nat m \<noteq> (- 1 :: u32)"
proof -
  show u: "m < 4096 \<Longrightarrow> unat (99 + of_nat m :: u32) = 99 + m" using unat_mais [of 99 m] by simp
  assume m: "m < 4096"
  have "unat (- 1 :: u32) = 4294967295" by (simp add: unsigned_minus_1_eq_mask mask_eq_exp_minus_1)
  moreover have "unat (99 + of_nat m :: u32) < 5000" using u [OF m] m by simp
  ultimately have "unat (99 + of_nat m :: u32) \<noteq> unat (- 1 :: u32)" by linarith
  then show "99 + of_nat m \<noteq> (- 1 :: u32)" by metis
qed

lemma conteudo_novo:
  assumes "length b = 512" "take (length (pedaco x k)) b = pedaco x k" "unat sec = 99 + m" "k < length bs"
  shows "conteudo (d(sec := b)) m (Suc m) (bs[k := sec]) x k"
  using assms by (simp add: conteudo_def)

lemma conteudo_preserva:
  "conteudo d m m' bs x k \<Longrightarrow> preserva m' d d' \<Longrightarrow> bs' ! k = bs ! k \<Longrightarrow> m0 \<le> m \<Longrightarrow> m' \<le> m'' \<Longrightarrow> conteudo d' m0 m'' bs' x k"
proof -
  assume h: "conteudo d m m' bs x k" "preserva m' d d'" "bs' ! k = bs ! k" "m0 \<le> m" "m' \<le> m''"
  then have "bs ! k \<noteq> 0" "bs ! k \<noteq> 2" by (auto simp: conteudo_def)
  with h show ?thesis by (auto simp: conteudo_def preserva_def)
qed

lemma grava_blocos_ok:
  assumes "vol s d" "prefixo (bmap s) m" "m + k \<le> 4096" "ss_total (sb s) = 65437" "length (ss_pad (sb s)) = 480"
    "b + k = 10" "inode_ok x" "sinc s d" "length buf \<le> 5120"
  shows "\<exists>s' d' x' m'. grava_blocos b k x (of_nat (length buf)) (of_nat (min (512 * b) (length buf))) buf s =
        Some (of_nat (length buf), x', s') \<and>
      vol s' d' \<and> prefixo (bmap s') m' \<and> m \<le> m' \<and> m' \<le> m + k \<and> resto_sfs s' = resto_sfs s \<and> preserva m d d' \<and> sinc s' d' \<and>
      inode_ok x' \<and> in_type x' = in_type x \<and> in_size x' = in_size x \<and>
      (\<forall>c<b. in_blocks x' ! c = in_blocks x ! c) \<and>
      (\<forall>c. b \<le> c \<and> c < 10 \<and> 512 * c < length buf \<longrightarrow> conteudo d' m m' (in_blocks x') buf c)"
  using assms(1-8)
proof (induction k arbitrary: b x s d m)
  case 0
  then have "b = 10" by simp
  then show ?case using 0 assms(9) by (auto simp: preserva_def min_absorb2 intro!: exI [of _ m] exI [of _ d])
next
  case (Suc k)
  show ?case
  proof (cases "512 * b < length buf")
    case False
    then show ?thesis using Suc.prems
      by (auto simp: preserva_def min_absorb2 intro!: exI [of _ m] exI [of _ d])
  next
    case True
    have m: "m < 4096" and b: "b < 10" using Suc.prems(3,6) by simp_all
    obtain s1 e1 where s1: "alloc_block s = Some (99 + of_nat m, s1)" "prefixo (bmap s1) (Suc m)" "resto_sfs s1 = resto_sfs s"
      "vol s1 e1" "preserva m d e1" "sinc s1 e1" using aloca_prefixo [OF Suc.prems(8,1,2) m Suc.prems(4,5)] by blast
    define sec where "sec = (99 + of_nat m :: u32)"
    have sec: "unat sec = 99 + m" "sec \<noteq> - 1" using sec_de_aloca [OF m] by (simp_all add: sec_def)
    have fs: "fora sec" using preserva_fora [of "Suc m" sec m] m sec(1) by simp
    let ?c = "min (length buf - 512 * b) 512" and ?x = "x\<lparr>in_blocks := (in_blocks x)[b := sec]\<rparr>"
    have ch: "min ((of_nat (length buf) :: u32) - of_nat (512 * b)) 512 = of_nat ?c"
      using u32_nat(3) [of "length buf - 512 * b" 512] True assms(9) by (simp add: of_nat_diff)
    have pd: "slice buf (512 * b) ?c = pedaco buf b" by (simp add: slice_def pedaco_def min_def)
    have lp: "length (pedaco buf b) = ?c" by (simp add: pedaco_def min.commute)
    define B where "B = splice (replicate 512 0) 0 (pedaco buf b)"
    have B: "length B = 512" "take (length (pedaco buf b)) B = pedaco buf b" by (simp_all add: B_def splice_def lp)
    obtain s2 where s2: "sfs_write_sec sec B s1 = Some (0, s2)" "vol s2 (e1(sec := B))" "memoria_sfs s2 = memoria_sfs s1"
      using grava_setor [OF s1(4) fs B(1)] .
    have fe: "(of_nat (512 * b) :: u32) + of_nat ?c = of_nat (min (512 * Suc b) (length buf))"
    proof -
      have "512 * b + ?c = min (512 * Suc b) (length buf)" using True by (auto simp: min_def)
      then show ?thesis by (metis of_nat_add)
    qed
    have ix: "inode_ok ?x" using Suc.prems(7) by simp
    have r2: "prefixo (bmap s2) (Suc m)" "ss_total (sb s2) = 65437" "length (ss_pad (sb s2)) = 480" "resto_sfs s2 = resto_sfs s"
      using s1(2,3) s2(3) Suc.prems(4,5) by (simp_all add: mem_eq resto_sfs_def)
    have h: "Suc m + k \<le> 4096" "Suc b + k = 10" using Suc.prems(3,6) by simp_all
    have sn2: "sinc s2 (e1(sec := B))"
    proof -
      have "sec \<noteq> 0" "sec \<noteq> 1" "sec \<noteq> 2" using sec(1) by auto
      then show ?thesis using sinc_muda [OF s1(6) s2(3)] by simp
    qed
    obtain s' d' x' m' where IH: "grava_blocos (Suc b) k ?x (of_nat (length buf)) (of_nat (min (512 * Suc b) (length buf))) buf s2 =
        Some (of_nat (length buf), x', s')"
      "vol s' d'" "prefixo (bmap s') m'" "Suc m \<le> m'" "m' \<le> Suc m + k" "resto_sfs s' = resto_sfs s2" "preserva (Suc m) (e1(sec := B)) d'" "sinc s' d'"
      "inode_ok x'" "in_type x' = in_type ?x" "in_size x' = in_size ?x" "\<forall>c<Suc b. in_blocks x' ! c = in_blocks ?x ! c"
      "\<forall>c. Suc b \<le> c \<and> c < 10 \<and> 512 * c < length buf \<longrightarrow> conteudo d' (Suc m) m' (in_blocks x') buf c"
      using Suc.IH [OF s2(2) r2(1) h(1) r2(2,3) h(2) ix sn2] by (elim exE conjE) (rule that; assumption)
    have G: "grava_blocos b (Suc k) x (of_nat (length buf)) (of_nat (min (512 * b) (length buf))) buf s = Some (of_nat (length buf), x', s')"
      using True u32_nat(1,4) [of "512 * b" "length buf"] u32_nat(4) [of ?c 0] assms(9) s1(1) sec(2) s2(1) IH(1)
      by (simp add: ch pd fe Let_def B_def flip: sec_def del: of_nat_mult of_nat_min min.bounded_iff)
    have Pr: "preserva m d d'"
      using s1(5) IH(7) sec(1) by (auto simp: preserva_def)
    have C: "conteudo d' m m' (in_blocks x') buf b"
    proof (rule conteudo_preserva [OF _ IH(7)])
      show "conteudo (e1(sec := B)) m (Suc m) ((in_blocks x)[b := sec]) buf b"
        by (rule conteudo_novo) (use B sec b Suc.prems(7) in \<open>simp_all add: inode_ok_def\<close>)
    qed (use IH(4,12) in simp_all)
    have A: "\<forall>c. b \<le> c \<and> c < 10 \<and> 512 * c < length buf \<longrightarrow> conteudo d' m m' (in_blocks x') buf c"
    proof (intro allI impI)
      fix c assume c: "b \<le> c \<and> c < 10 \<and> 512 * c < length buf"
      show "conteudo d' m m' (in_blocks x') buf c"
      proof (cases "c = b")
        case False
        then have "conteudo d' (Suc m) m' (in_blocks x') buf c" using IH(13) c by (simp add: Suc_le_eq)
        then show ?thesis by (simp add: conteudo_def)
      qed (simp add: C)
    qed
    have L: "m \<le> m'" "m' \<le> m + Suc k" using IH(4,5) by simp_all
    have P: "\<forall>c<b. in_blocks x' ! c = in_blocks x ! c" using IH(12) by simp
    show ?thesis
      by (intro exI conjI, rule G, rule IH(2), rule IH(3), rule L(1), rule L(2), simp add: IH(6) r2(4), rule Pr, rule IH(8), rule IH(9),
        simp add: IH(10), simp add: IH(11), rule P, rule A)
  qed
qed

section \<open>The abstract volume\<close>

lemma arquivo_muda:
  assumes "arquivo d m i x" "inode_em d' i = inode_em d i" "\<And>l. 100 \<le> unat l \<Longrightarrow> unat l < 99 + m \<Longrightarrow> d' l = d l" "m \<le> m'"
  shows "arquivo d' m' i x"
  using assms by (auto simp: arquivo_def conteudo_def)

definition nomes_ok :: "(u8 list \<times> u8 list) list \<Rightarrow> bool" where
  "nomes_ok fs \<longleftrightarrow> length fs \<le> 16 \<and> distinct (map fst fs) \<and> (\<forall>(n, x) \<in> set fs. nome_ok n \<and> length x \<le> 5120)"

definition raiz_dir :: "(u32 \<Rightarrow> setor) \<Rightarrow> u8 list list \<Rightarrow> bool" where
  "raiz_dir d ns \<longleftrightarrow> in_type (inode_em d 0) = 2 \<and> in_size (inode_em d 0) = of_nat (32 * length ns) \<and>
     in_blocks (inode_em d 0) = (if ns = [] then 0 else 99) # replicate 9 0 \<and> (ns \<noteq> [] \<longrightarrow> dirblk (d 99) ns)"

definition raiz :: "sfs \<Rightarrow> (u32 \<Rightarrow> setor) \<Rightarrow> (u8 list \<times> u8 list) list \<Rightarrow> bool" where
  "raiz s d fs \<longleftrightarrow> sinc s d \<and> vol s d \<and> sfs_ok s \<and> ss_magic (sb s) = SFS_MAGIC \<and> ss_root (sb s) = 0 \<and> ss_total (sb s) = 65437 \<and> length (ss_pad (sb s)) = 480 \<and>
     nomes_ok fs \<and> length (imap s) = 512 \<and> (\<forall>i<256. bm_test (imap s) (of_nat i) \<longleftrightarrow> i \<le> length fs) \<and>
     raiz_dir d (map fst fs) \<and>
     (\<exists>m. prefixo (bmap s) m \<and> m \<le> 11 * length fs \<and> (m = 0 \<longleftrightarrow> fs = []) \<and>
       (\<forall>j<length fs. arquivo d m (of_nat (j + 1)) (snd (fs ! j))))"

lemma raiz_mem: "raiz s d fs \<Longrightarrow> vol s' d \<Longrightarrow> memoria_sfs s' = memoria_sfs s \<Longrightarrow> raiz s' d fs"
  by (simp add: raiz_def mem_eq sinc_def)

lemma raiz_nomes: "raiz s d fs \<Longrightarrow> \<forall>n \<in> set (map fst fs). nome_ok n"
  by (auto simp: raiz_def nomes_ok_def)

definition posicao :: "(u8 list \<times> u8 list) list \<Rightarrow> u8 list \<Rightarrow> nat option" where
  "posicao fs n = find (\<lambda>j. map fst fs ! j = n) [0..<length fs]"

lemma posicao_map_of: "posicao fs n = None \<Longrightarrow> map_of fs n = None"
  "posicao fs n = Some j \<Longrightarrow> j < length fs \<and> map_of fs n = Some (snd (fs ! j))"
proof -
  have "find (\<lambda>j. map fst fs ! j = n) [0..<k] = None \<longleftrightarrow> (\<forall>j<k. map fst fs ! j \<noteq> n)" for k
    by (auto simp: find_None_iff)
  then show "posicao fs n = None \<Longrightarrow> map_of fs n = None"
    by (force simp: posicao_def map_of_eq_None_iff in_set_conv_nth)
  assume "posicao fs n = Some j"
  then have j: "j < length fs" "fst (fs ! j) = n" "\<forall>i<j. fst (fs ! i) \<noteq> n"
    by (auto simp: posicao_def find_livre)
  have "map_of (take j fs @ fs ! j # drop (Suc j) fs) n = Some (snd (fs ! j))"
  proof -
    have "map_of (take j fs) n = None" using j by (force simp: map_of_eq_None_iff in_set_conv_nth)
    then show ?thesis using j(2) by (cases "fs ! j") (simp add: map_add_def)
  qed
  then show "j < length fs \<and> map_of fs n = Some (snd (fs ! j))" using j(1) by (simp add: id_take_nth_drop [symmetric])
qed

text \<open>Resolving a plain name.\<close>

lemma busca_dir_zero: "busca_dir (replicate k 0) tok e s = (None, s)"
  by (cases k) simp_all

lemma path_nome:
  assumes "raiz s d fs" "nome_ok n"
  obtains s' where "path_find n s = (map_option (\<lambda>j. (of_nat (j + 1), 0)) (posicao fs n), s')" "vol s' d" "memoria_sfs s' = memoria_sfs s"
proof -
  have n: "n \<noteq> []" "length n \<le> 27" "is_cstr n" "\<forall>c \<in> set n. c \<noteq> barra" using assms(2) by (auto simp: nome_ok_def)
  have tw: "takeWhile (\<lambda>c. c \<noteq> barra) n = n" "dropWhile (\<lambda>c. c \<noteq> barra) n = []" using n(4) by (auto simp: takeWhile_eq_all_conv)
  have c0: "char_at n 0 \<noteq> barra" using n(1,4) by (cases n) (auto simp: char_at_def)
  have sn: "cstr (strn n 127) = n" using cstr_strn [of n 127 "[]"] n(2,3) by simp
  note D = raiz_nomes [OF assms(1)]
  have R: "in_type (inode_em d 0) = 2" "in_size (inode_em d 0) = of_nat (32 * length fs)"
    "in_blocks (inode_em d 0) = (if fs = [] then 0 else 99) # replicate 9 0" "fs \<noteq> [] \<Longrightarrow> dirblk (d 99) (map fst fs)"
    "length fs \<le> 16" "vol s d" "ss_root (sb s) = 0"
    using assms(1) by (simp_all add: raiz_def raiz_dir_def nomes_ok_def)
  have sz: "unat (in_size (inode_em d 0)) div 32 = length fs" using R(2,5) u32_nat(4) [of "32 * length fs" 0] by simp
  obtain s1 where s1: "inode_read 0 inode_zero s = (0, inode_em d 0, s1)" "vol s1 d" "memoria_sfs s1 = memoria_sfs s"
    using le_inode [OF R(6), of 0] by auto
  have "\<exists>s'. busca_dir (in_blocks (inode_em d 0)) n (length fs) s1 = (map_option (\<lambda>j. of_nat (j + 1)) (posicao fs n), s') \<and>
      vol s' d \<and> memoria_sfs s' = memoria_sfs s"
  proof (cases "fs = []")
    case True
    then show ?thesis using s1 by (simp add: R(3) posicao_def)
  next
    case False
    have f99: "fora 99" by (simp add: fora_def)
    obtain s2 where s2: "sfs_read_sec 99 hdr0 s1 = (0, d 99, s2)" "vol s2 d" "memoria_sfs s2 = memoria_sfs s1"
      using le_setor [OF s1(2) f99 hdr0_length] .
    have "busca_bloco (d 99) n 0 (length fs) = map_option (\<lambda>j. of_nat (j + 1)) (posicao fs n)"
      using busca_bloco_dir [OF R(4) [OF False] D assms(2), of 0 "length fs"] by (simp add: posicao_def)
    then show ?thesis using False s2 s1(3) R(5)
      by (cases "posicao fs n") (simp_all add: R(3) SFS_DIRENTS_PER_BLK_def min_absorb2 busca_dir_zero)
  qed
  then obtain s2 where s2: "busca_dir (in_blocks (inode_em d 0)) n (length fs) s1 = (map_option (\<lambda>j. of_nat (j + 1)) (posicao fs n), s2)"
    "vol s2 d" "memoria_sfs s2 = memoria_sfs s" by blast
  have "path_passos n 0 0 s = (map_option (\<lambda>j. (of_nat (j + 1), 0)) (posicao fs n), s2)"
    using n(1) s1(1) s2(1)
    by (subst path_passos.simps) (simp add: tw R(1) sz Let_def path_passos.simps [of "[]"] split: option.splits)
  then show thesis using that [of s2] s2(2,3) by (simp add: path_find_def c0 sn R(7))
qed

text \<open>Adding an entry to the root.\<close>

definition dados_iguais :: "(u32 \<Rightarrow> setor) \<Rightarrow> (u32 \<Rightarrow> setor) \<Rightarrow> bool" where
  "dados_iguais d d' \<longleftrightarrow> (\<forall>l. 100 \<le> unat l \<longrightarrow> d' l = d l)"

lemma inode_sec_menor: "i < 256 \<Longrightarrow> 3 \<le> inode_sec i \<and> inode_sec i < 35"
  using inode_lugar(1) [of i] by (simp add: word_le_nat_alt word_less_nat_alt less_mult_imp_div_less)

lemma grava_inode_efeito:
  assumes "vol s d" "i < 256" "inode_ok x"
  obtains s' d' where "inode_write i x s = Some (0, s')" "vol s' d'" "memoria_sfs s' = memoria_sfs s"
    "\<And>j. j < 256 \<Longrightarrow> inode_em d' j = (if j = i then x else inode_em d j)" "\<And>l. 35 \<le> unat l \<Longrightarrow> d' l = d l" "d' 0 = d 0" "d' 1 = d 1" "d' 2 = d 2"
proof -
  obtain s' where s': "inode_write i x s = Some (0, s')"
    "vol s' (d(inode_sec i := splice (d (inode_sec i)) (inode_off i) (inode_bytes x)))" "memoria_sfs s' = memoria_sfs s"
    using grava_inode [OF assms] .
  have u: "3 \<le> unat (inode_sec i)" using inode_lugar(1) [OF assms(2)] by simp
  then have "inode_sec i \<noteq> 0" "inode_sec i \<noteq> 1" "inode_sec i \<noteq> 2" by auto
  then show thesis
    by (intro that [OF s']) (use inode_em_grava [OF assms(1,2) _ assms(3)] inode_sec_menor [OF assms(2)] in \<open>auto simp: word_less_nat_alt\<close>)
qed

lemma dir_add_raiz:
  assumes "sinc s d" "vol s d" "raiz_dir d ns" "\<forall>n \<in> set ns. nome_ok n" "length ns < 16" "nome_ok n"
    "prefixo (bmap s) m" "m = 0 \<longleftrightarrow> ns = []" "m < 4096" "ss_total (sb s) = 65437" "length (ss_pad (sb s)) = 480"
  obtains s' d' where "dir_add_entry 0 (of_nat (length ns + 1)) n s = Some (0, s')" "vol s' d'" "raiz_dir d' (ns @ [n])"
    "prefixo (bmap s') (if ns = [] then 1 else m)" "resto_sfs s' = resto_sfs s"
    "\<And>j. 0 < j \<Longrightarrow> j < 256 \<Longrightarrow> inode_em d' j = inode_em d j" "dados_iguais d d'" "sinc s' d'"
proof -
  let ?R = "inode_em d 0" and ?N = "of_nat (length ns + 1) :: u32"
  have R: "in_type ?R = 2" "in_size ?R = of_nat (32 * length ns)" "in_blocks ?R = (if ns = [] then 0 else 99) # replicate 9 0"
    using assms(3) by (simp_all add: raiz_dir_def)
  have f99: "fora 99" by (simp add: fora_def)
  obtain s1 where s1: "inode_read 0 inode_zero s = (0, ?R, s1)" "vol s1 d" "memoria_sfs s1 = memoria_sfs s"
    using le_inode [OF assms(2), of 0] by auto
  have m1: "prefixo (bmap s1) m" "ss_total (sb s1) = 65437" "length (ss_pad (sb s1)) = 480" "resto_sfs s1 = resto_sfs s" "sinc s1 d"
    using s1(3) assms(7,10,11) assms(1) by (simp_all add: mem_eq resto_sfs_def sinc_def)
  \<comment> \<open>the block the entry goes to\<close>
  define B where "B = (if ns = [] then replicate 512 0 else d 99)"
  define R' where "R' = ?R\<lparr>in_blocks := 99 # replicate 9 0\<rparr>"
  have dB: "dirblk B ns" using assms(3) by (auto simp: B_def raiz_dir_def dirblk_vazio)
  let ?passo = "if in_blocks ?R ! 0 = 0 then do {
             (sec, s) \<leftarrow> alloc_block s1;
             Some (if sec = - 1 then - 1 else 0, sec, replicate 512 0, ?R\<lparr>in_blocks := (in_blocks ?R)[0 := sec]\<rparr>, s) }
           else let (r, b, s) = sfs_read_sec (in_blocks ?R ! 0) hdr0 s1 in Some (r, in_blocks ?R ! 0, b, ?R, s)"
  have "\<exists>s2 d2. ?passo = Some (0, 99, B, R', s2) \<and> vol s2 d2 \<and> (\<forall>l. l \<noteq> 0 \<and> l \<noteq> 2 \<longrightarrow> d2 l = d l) \<and> sinc s2 d2 \<and>
         prefixo (bmap s2) (if ns = [] then 1 else m) \<and> resto_sfs s2 = resto_sfs s"
  proof (cases "ns = []")
    case True
    then have m0: "m = 0" using assms(8) by simp
    obtain s2 d2 where s2: "alloc_block s1 = Some (99 + of_nat m, s2)" "prefixo (bmap s2) (Suc m)" "resto_sfs s2 = resto_sfs s1"
      "vol s2 d2" "preserva m d d2" "\<And>l. l \<noteq> 0 \<Longrightarrow> l \<noteq> 2 \<Longrightarrow> d2 l = d l" "sinc s2 d2"
      using aloca_prefixo [OF m1(5) s1(2) m1(1) assms(9) m1(2,3)] by blast
    have r9: "(0 # replicate 9 0)[0 := 99] = 99 # replicate 9 (0 :: u32)" by simp
    show ?thesis using s2 m0 True m1(4) by (intro exI [of _ s2] exI [of _ d2]) (simp add: R(3) B_def R'_def)
  next
    case False
    obtain s2 where s2: "sfs_read_sec 99 hdr0 s1 = (0, d 99, s2)" "vol s2 d" "memoria_sfs s2 = memoria_sfs s1"
      using le_setor [OF s1(2) f99 hdr0_length] .
    have "R' = ?R" using R(3) False by (simp add: R'_def)
    then show ?thesis using s2 False m1 by (intro exI [of _ s2] exI [of _ d]) (simp add: R(3) B_def mem_eq resto_sfs_def sinc_def)
  qed
  then obtain s2 d2 where s2: "?passo = Some (0, 99, B, R', s2)" "vol s2 d2" "\<And>l. l \<noteq> 0 \<Longrightarrow> l \<noteq> 2 \<Longrightarrow> d2 l = d l"
    "prefixo (bmap s2) (if ns = [] then 1 else m)" "resto_sfs s2 = resto_sfs s" "sinc s2 d2" by blast
  have ie2: "inode_em d2 j = inode_em d j" if "j < 256" for j
  proof -
    have "inode_sec j \<noteq> 0" "inode_sec j \<noteq> 2" using inode_sec_menor [OF that] by auto
    then show ?thesis by (simp add: inode_em_def s2(3))
  qed
  have dG: "dirblk (de_grava B (length ns) ?N n) (ns @ [n])" by (rule dirblk_grava [OF dB assms(4-6)])
  then have lG: "length (de_grava B (length ns) ?N n) = 512" by (simp add: dirblk_def)
  obtain s3 where s3: "sfs_write_sec 99 (de_grava B (length ns) ?N n) s2 = Some (0, s3)"
    "vol s3 (d2(99 := de_grava B (length ns) ?N n))" "memoria_sfs s3 = memoria_sfs s2"
    using grava_setor [OF s2(2) f99 lG] .
  let ?d3 = "d2(99 := de_grava B (length ns) ?N n)" and ?R2 = "R'\<lparr>in_size := in_size R' + 32\<rparr>"
  have ok: "inode_ok ?R2" using inode_em_ok [OF assms(2), of 0] by (simp add: R'_def inode_ok_def)
  have ie3: "inode_em ?d3 j = inode_em d j" if "j < 256" for j
    using inode_em_outro [of 99 j d2 "de_grava B (length ns) ?N n"] ie2 that by simp
  obtain s4 d4 where s4: "inode_write 0 ?R2 s3 = Some (0, s4)" "vol s4 d4" "memoria_sfs s4 = memoria_sfs s3"
    "\<And>j. j < 256 \<Longrightarrow> inode_em d4 j = (if j = 0 then ?R2 else inode_em ?d3 j)" "\<And>l. 35 \<le> unat l \<Longrightarrow> d4 l = ?d3 l" "d4 0 = ?d3 0" "d4 1 = ?d3 1" "d4 2 = ?d3 2"
    using grava_inode_efeito [OF s3(2) _ ok, of 0] by (auto simp del: fun_upd_apply)
  have vg: "vaga B 0 SFS_DIRENTS_PER_BLK = Some (length ns)"
    using vaga_dir [OF dB assms(4,5), of 0 16] by (simp add: SFS_DIRENTS_PER_BLK_def)
  have "dir_add_loop (Suc 9) 0 ?R ?N n s1 = Some (0, s4)"
    using s2(1) s3(1) s4(1) by (simp only: dir_add_loop.simps diff_self_eq_0 Let_def) (simp add: vg)
  then have "dir_add_entry 0 ?N n s = Some (0, s4)"
    using s1(1) by (simp add: dir_add_entry_def)
  moreover have "raiz_dir d4 (ns @ [n])"
    using s4(4) [of 0] s4(5) [of 99] dG R by (simp add: raiz_dir_def R'_def)
  moreover have "prefixo (bmap s4) (if ns = [] then 1 else m)" "resto_sfs s4 = resto_sfs s"
    using s2(4,5) s3(3) s4(3) by (simp_all add: mem_eq resto_sfs_def)
  moreover have "inode_em d4 j = inode_em d j" if "0 < j" "j < 256" for j
    using s4(4) [OF that(2)] ie3 [OF that(2)] that(1) by auto
  moreover have "dados_iguais d d4"
    unfolding dados_iguais_def
  proof (intro allI impI)
    fix l :: u32 assume l: "100 \<le> unat l"
    then have "l \<noteq> 0" "l \<noteq> 2" "l \<noteq> 99" by auto
    then show "d4 l = d l" using s4(5) [of l] l s2(3) by simp
  qed
  moreover have "sinc s4 d4"
    by (rule sinc_muda [OF s2(6)]) (use s3(3) s4(3,6-8) in \<open>simp_all\<close>)
  ultimately show thesis using that s4(2) by blast
qed

section \<open>Reading and creating files\<close>

lemma spfs_read_nome:
  assumes "raiz s d fs" "nome_ok n" "\<And>x. map_of fs n = Some x \<Longrightarrow> min (length x) (unat maximo) \<le> length buf"
  shows "\<exists>s'. raiz s' d fs \<and> spfs_read n buf maximo s = (case map_of fs n of None \<Rightarrow> (- 1, buf, s')
     | Some x \<Rightarrow> (int (min (length x) (unat maximo)), splice buf 0 (take (unat maximo) x), s'))"
proof -
  obtain s1 where s1: "path_find n s = (map_option (\<lambda>j. (of_nat (j + 1), 0)) (posicao fs n), s1)" "vol s1 d" "memoria_sfs s1 = memoria_sfs s"
    using path_nome [OF assms(1,2)] .
  have ok: "sfs_ok s" and r1: "raiz s1 d fs" using assms(1) raiz_mem [OF assms(1) s1(2,3)] by (simp_all add: raiz_def)
  show ?thesis
  proof (cases "posicao fs n")
    case None
    then show ?thesis using s1(1) ok r1 posicao_map_of(1) [OF None] by (simp add: spfs_read_def)
  next
    case (Some j)
    then have j: "j < length fs" "map_of fs n = Some (snd (fs ! j))" using posicao_map_of(2) by blast+
    define x where "x = snd (fs ! j)"
    obtain m where m: "m \<le> 11 * length fs" "arquivo d m (of_nat (j + 1)) x" "length fs \<le> 16"
      using assms(1) j(1) by (auto simp: raiz_def nomes_ok_def x_def)
    have "\<forall>f \<in> set fs. length (snd f) \<le> 5120" using assms(1) by (auto simp: raiz_def nomes_ok_def)
    then have lx: "length x \<le> 5120" using j(1) by (simp add: x_def)
    have i: "(of_nat (j + 1) :: u32) < 256" using j(1) m(3) bm_nat [of "j + 1"] by (simp add: word_less_nat_alt del: of_nat_add of_nat_Suc)
    let ?x = "inode_em d (of_nat (j + 1))"
    obtain s2 where s2: "inode_read (of_nat (j + 1)) inode_zero s1 = (0, ?x, s2)" "vol s2 d" "memoria_sfs s2 = memoria_sfs s1"
      using le_inode [OF s1(2) i] .
    let ?n = "min (length x) (unat maximo)"
    have F: "in_type ?x = 1" "in_size ?x = of_nat (length x)" "length (in_blocks ?x) = 10"
      using m(2) inode_em_ok [OF s1(2) i] by (simp_all add: arquivo_def inode_ok_def)
    have mi: "min (of_nat (length x)) maximo = of_nat ?n"
      using u32_nat(3) [of "length x" "unat maximo"] lx unsigned_less [of maximo] by simp
    have c: "\<And>b. b < 10 \<Longrightarrow> 512 * b < length x \<Longrightarrow> conteudo d 1 m (in_blocks ?x) x b" using m(2) by (simp add: arquivo_def)
    have "?n \<le> length buf" using assms(3) j(2) by (simp add: x_def)
    from le_blocos_ok [OF s2(2) _ lx F(3) _ this _ c, of 0 10] m(1,3)
    obtain s3 where s3: "le_blocos (in_blocks ?x) (of_nat ?n) 0 buf s2 = (of_nat ?n, splice buf 0 (take ?n x), s3)"
      "vol s3 d" "memoria_sfs s3 = memoria_sfs s2"
      by (auto simp: splice_def)
    have t: "take ?n x = take (unat maximo) x" by (simp add: min_def)
    have "uint (of_nat ?n :: u32) = int ?n" unfolding uint_nat using u32_nat(4) [of ?n 0] lx by simp
    then have "spfs_read n buf maximo s = (int ?n, splice buf 0 (take (unat maximo) x), s3)"
      using s1(1) Some ok s2(1) F(1,2) mi s3(1) by (simp add: spfs_read_def t del: of_nat_min of_nat_Suc)
    moreover have "raiz s3 d fs" using raiz_mem [OF assms(1) s3(2)] s1(3) s2(3) s3(3) by simp
    ultimately show ?thesis using j(2) by (auto simp: x_def)
  qed
qed

lemma split_nome: "nome_ok n \<Longrightarrow> path_split n = (n, (strn n 127 @ [0])[0 := 0])"
proof -
  assume n: "nome_ok n"
  have "ultima_barra b k = None" if "\<forall>i<k. b ! i \<noteq> barra" for b k using that by (induction k) auto
  moreover have "(strn n 127 @ [0]) ! i \<noteq> barra" if "i < length n" for i
  proof -
    have "n ! i \<noteq> barra" using n that by (metis nome_ok_def nth_mem)
    then show ?thesis using n that by (simp add: nome_ok_def strn_def nth_append)
  qed
  ultimately have "ultima_barra (strn n 127 @ [0]) (k_strlen n) = None"
    using n by (simp add: k_strlen_eq nome_ok_def)
  then show ?thesis by (simp add: path_split_def)
qed

lemma pai_nome: "acha_pai ((strn n 127 @ [0])[0 := 0]) s = (Some 0, s)"
proof -
  obtain c t where "strn n 127 = c # t" by (cases "strn n 127") (auto dest: arg_cong [of _ _ length])
  then show ?thesis by (simp add: acha_pai_def k_strlen_eq)
qed

definition vira :: "nat \<Rightarrow> u32" where "vira k = of_nat (k + 1)"

lemma vira_menor: "k < 255 \<Longrightarrow> vira k < 256" "k < 255 \<Longrightarrow> 0 < vira k" "k < 255 \<Longrightarrow> j < k \<Longrightarrow> vira j \<noteq> vira k"
  "k < 255 \<Longrightarrow> vira k \<noteq> - 1"
proof -
  have u: "unat (vira k) = k + 1" if "k < 255" for k using bm_nat [of "k + 1"] that by (simp only: vira_def)
  show "k < 255 \<Longrightarrow> vira k < 256" "k < 255 \<Longrightarrow> 0 < vira k" using u [of k] by (simp_all add: word_less_nat_alt)
  show "k < 255 \<Longrightarrow> j < k \<Longrightarrow> vira j \<noteq> vira k" using u [of k] u [of j] by auto
  assume k: "k < 255"
  have "unat (- 1 :: u32) = 4294967295" by (simp add: unsigned_minus_1_eq_mask mask_eq_exp_minus_1)
  then have "unat (vira k) \<noteq> unat (- 1 :: u32)" using u [OF k] k by linarith
  then show "vira k \<noteq> - 1" by metis
qed

text \<open>The state after the inode of a new file has been allocated, written and entered in the root.\<close>

lemma cria_inode:
  assumes "raiz s d fs" "nome_ok n" "length fs < 16"
  obtains s1 s2 s3 d3 m where "alloc_inode s = Some (vira (length fs), s1)"
    "inode_write (vira (length fs)) (novo_inode t agora) s1 = Some (0, s2)"
    "dir_add_entry 0 (vira (length fs)) n s2 = Some (0, s3)" "vol s3 d3" "sfs_ok s3" "ss_root (sb s3) = 0"
    "ss_total (sb s3) = 65437" "length (ss_pad (sb s3)) = 480" "length (imap s3) = 512"
    "\<forall>i<256. bm_test (imap s3) (of_nat i) \<longleftrightarrow> i \<le> Suc (length fs)" "raiz_dir d3 (map fst fs @ [n])"
    "prefixo (bmap s3) m" "0 < m" "m \<le> 11 * length fs + 1" "inode_em d3 (vira (length fs)) = novo_inode t agora"
    "\<forall>j<length fs. arquivo d3 m (vira j) (snd (fs ! j))" "sinc s3 d3" "ss_magic (sb s3) = SFS_MAGIC"
proof -
  let ?k = "length fs"
  obtain m where m: "prefixo (bmap s) m" "m \<le> 11 * ?k" "m = 0 \<longleftrightarrow> fs = []" "\<forall>j<?k. arquivo d m (vira j) (snd (fs ! j))"
    and R: "vol s d" "sfs_ok s" "ss_root (sb s) = 0" "ss_total (sb s) = 65437" "length (ss_pad (sb s)) = 480"
      "length (imap s) = 512" "\<forall>i<256. bm_test (imap s) (of_nat i) \<longleftrightarrow> i \<le> ?k" "raiz_dir d (map fst fs)" "sinc s d" "ss_magic (sb s) = SFS_MAGIC"
    using assms(1) by (auto simp: raiz_def vira_def)
  note V = vira_menor [of ?k]
  have f: "find (\<lambda>i. \<not> bm_test (imap s) (of_nat i)) [1..<256] = Some (?k + 1)"
    unfolding find_livre using R(7) assms(3) by (auto simp del: of_nat_add of_nat_Suc)
  obtain s1 where s1: "alloc_inode s = Some (of_nat (?k + 1), s1)" "imap s1 = bm_set (imap s) (of_nat (?k + 1))"
    "sb s1 = (sb s)\<lparr>ss_free_inodes := ss_free_inodes (sb s) - 1\<rparr>" "bmap s1 = bmap s" "sfs_ok s1 = sfs_ok s"
    "vol s1 (d(1 := imap s1, 0 := super_bytes (sb s1)))"
    using alloc_inode_ok [OF R(1,6,5) f] .
  let ?d1 = "d(1 := imap s1, 0 := super_bytes (sb s1))"
  have ie1: "inode_em ?d1 j = inode_em d j" if "j < 256" for j
    using inode_em_outro [of 1 j d "imap s1"] inode_em_outro [of 0 j "d(1 := imap s1)" "super_bytes (sb s1)"] that
    by (simp add: word_le_nat_alt)
  have im1: "length (imap s1) = 512" "\<forall>i<256. bm_test (imap s1) (of_nat i) \<longleftrightarrow> i \<le> Suc ?k"
    using R(6,7) bm_test_set(1) [OF R(6), of "?k + 1"] assms(3) by (auto simp: s1(2) le_Suc_eq simp del: of_nat_Suc of_nat_add)
  obtain s2 d2 where s2: "inode_write (vira ?k) (novo_inode t agora) s1 = Some (0, s2)" "vol s2 d2" "memoria_sfs s2 = memoria_sfs s1"
    "\<And>j. j < 256 \<Longrightarrow> inode_em d2 j = (if j = vira ?k then novo_inode t agora else inode_em ?d1 j)" "\<And>l. 35 \<le> unat l \<Longrightarrow> d2 l = ?d1 l" "d2 0 = ?d1 0" "d2 1 = ?d1 1" "d2 2 = ?d1 2"
    using grava_inode_efeito [OF s1(6) V(1), of "novo_inode t agora"] assms(3) by (auto simp del: fun_upd_apply)
  have sn2: "sinc s2 d2" using R(9) s1(4) s2(3,6-8) by (simp add: sinc_def mem_eq)
  have d2: "d2 l = d l" if "35 \<le> unat l" for l
  proof -
    have "l \<noteq> 0" "l \<noteq> 1" using that by auto
    then show ?thesis using s2(5) [OF that] by simp
  qed
  have ie2: "inode_em d2 j = (if j = vira ?k then novo_inode t agora else inode_em d j)" if "j < 256" for j
    using s2(4) [OF that] ie1 [OF that] by simp
  have rd: "raiz_dir d2 (map fst fs)"
  proof -
    have "vira ?k \<noteq> 0" using V(2) assms(3) by auto
    then show ?thesis using R(8) ie2 [of 0] d2 [of 99] by (simp add: raiz_dir_def)
  qed
  have pm: "prefixo (bmap s2) m" "ss_total (sb s2) = 65437" "length (ss_pad (sb s2)) = 480" "m < 4096" "m = 0 \<longleftrightarrow> map fst fs = []"
    using m R s1 s2(3) assms(3) by (simp_all add: mem_eq)
  have ln: "length (map fst fs) < 16" using assms(3) by simp
  obtain s3 d3 where s3: "dir_add_entry 0 (of_nat (length (map fst fs) + 1)) n s2 = Some (0, s3)" "vol s3 d3"
    "raiz_dir d3 (map fst fs @ [n])" "prefixo (bmap s3) (if map fst fs = [] then 1 else m)" "resto_sfs s3 = resto_sfs s2"
    "\<And>j. 0 < j \<Longrightarrow> j < 256 \<Longrightarrow> inode_em d3 j = inode_em d2 j" "dados_iguais d2 d3" "sinc s3 d3"
    by (rule dir_add_raiz [OF sn2 s2(2) rd raiz_nomes [OF assms(1)] ln assms(2) pm(1,5,4,2,3)]) blast
  let ?m = "if map fst fs = [] then 1 else m"
  have "arquivo d3 ?m (vira j) (snd (fs ! j))" if j: "j < ?k" for j
  proof (rule arquivo_muda)
    show "arquivo d m (vira j) (snd (fs ! j))" using m(4) j by simp
    have vj: "vira j < 256" "0 < vira j" "vira j \<noteq> vira ?k"
      using vira_menor [of j] vira_menor(3) [of ?k j] j assms(3) by auto
    then show "inode_em d3 (vira j) = inode_em d (vira j)" using s3(6) ie2 by simp
    show "d3 l = d l" if "100 \<le> unat l" "unat l < 99 + m" for l using s3(7) d2 that(1) by (simp add: dados_iguais_def)
  qed (use pm(5) in auto)
  moreover have "inode_em d3 (vira ?k) = novo_inode t agora" using s3(6) [OF V(2,1)] ie2 [OF V(1)] assms(3) by simp
  moreover have "sfs_ok s3" "ss_root (sb s3) = 0" "ss_total (sb s3) = 65437" "length (ss_pad (sb s3)) = 480" "imap s3 = imap s1" "ss_magic (sb s3) = SFS_MAGIC"
    using s3(5) s2(3) s1 R by (auto simp: resto_sfs_def mem_eq)
  moreover have "0 < ?m" "?m \<le> 11 * ?k + 1" using m(2) pm(5) by auto
  ultimately show thesis
    using that [of s1 s2 s3 d3 ?m] s1(1) s2(1) s3(1-4,8) im1 by (simp add: vira_def del: of_nat_Suc of_nat_add)
qed

lemma posicao_nova: "n \<notin> set (map fst fs) \<Longrightarrow> posicao fs n = None"
  by (force simp: posicao_def find_None_iff in_set_conv_nth)

lemma spfs_write_nova:
  assumes "raiz s d fs" "nome_ok n" "n \<notin> set (map fst fs)" "length fs < 16" "length buf \<le> 5120"
  shows "\<exists>s' d'. spfs_write agora ex nin n buf (of_nat (length buf)) s = Some (int (length buf), s') \<and> raiz s' d' (fs @ [(n, buf)])"
proof -
  let ?k = "length fs" and ?i = "vira (length fs)"
  have ok: "sfs_ok s" using assms(1) by (simp add: raiz_def)
  have sz: "\<not> 10 * 512 < (of_nat (length buf) :: u32)" using u32_nat(1) [of 5120 "length buf"] assms(5) by simp
  obtain s0 where s0: "path_find n s = (None, s0)" "vol s0 d" "memoria_sfs s0 = memoria_sfs s"
    using path_nome [OF assms(1,2)] posicao_nova [OF assms(3)] by auto
  have r0: "raiz s0 d fs" using raiz_mem [OF assms(1) s0(2,3)] .
  obtain s1 s2 s3 d3 m where C: "alloc_inode s0 = Some (?i, s1)" "inode_write ?i (novo_inode 1 agora) s1 = Some (0, s2)"
    "dir_add_entry 0 ?i n s2 = Some (0, s3)" "vol s3 d3" "sfs_ok s3" "ss_root (sb s3) = 0"
    "ss_total (sb s3) = 65437" "length (ss_pad (sb s3)) = 480" "length (imap s3) = 512"
    "\<forall>i<256. bm_test (imap s3) (of_nat i) \<longleftrightarrow> i \<le> Suc ?k" "raiz_dir d3 (map fst fs @ [n])"
    "prefixo (bmap s3) m" "0 < m" "m \<le> 11 * ?k + 1" "inode_em d3 ?i = novo_inode 1 agora"
    "\<forall>j<?k. arquivo d3 m (vira j) (snd (fs ! j))" "sinc s3 d3" "ss_magic (sb s3) = SFS_MAGIC"
    using cria_inode [OF r0 assms(2,4)] .
  have V: "?i < 256" "0 < ?i" "?i \<noteq> - 1" "\<And>j. j < ?k \<Longrightarrow> vira j \<noteq> ?i" "\<And>j. j < ?k \<Longrightarrow> vira j < 256"
    using vira_menor [of ?k] vira_menor(1) assms(4) by auto
  obtain s4 where s4: "inode_read ?i nin s3 = (0, novo_inode 1 agora, s4)" "vol s4 d3" "memoria_sfs s4 = memoria_sfs s3"
    using le_inode [OF C(4) V(1)] unfolding C(15) .
  let ?x = "(novo_inode 1 agora)\<lparr>in_size := of_nat (length buf)\<rparr>"
  have P: "prefixo (bmap s4) m" "m + 10 \<le> 4096" "ss_total (sb s4) = 65437" "length (ss_pad (sb s4)) = 480" "(0::nat) + 10 = 10" "inode_ok ?x" "sinc s4 d3"
    using C(7,8,12,14,17) s4(3) assms(4) by (simp_all add: mem_eq sinc_def)
  have z: "(of_nat 0 :: u32) = 0" by simp
  obtain s5 d5 x m' where g: "grava_blocos 0 10 ?x (of_nat (length buf)) 0 buf s4 = Some (of_nat (length buf), x, s5)"
    "vol s5 d5" "prefixo (bmap s5) m'" "m \<le> m'" "m' \<le> m + 10" "resto_sfs s5 = resto_sfs s4" "preserva m d3 d5" "sinc s5 d5"
    "inode_ok x" "in_type x = in_type ?x" "in_size x = in_size ?x"
    "\<forall>c. 0 \<le> c \<and> c < 10 \<and> 512 * c < length buf \<longrightarrow> conteudo d5 m m' (in_blocks x) buf c"
    using grava_blocos_ok [OF s4(2) P assms(5)] unfolding mult_0_right min_0L z
    by (elim exE conjE) (rule that; assumption)
  obtain s6 d6 where s6: "inode_write ?i x s5 = Some (0, s6)" "vol s6 d6" "memoria_sfs s6 = memoria_sfs s5"
    "\<And>j. j < 256 \<Longrightarrow> inode_em d6 j = (if j = ?i then x else inode_em d5 j)" "\<And>l. 35 \<le> unat l \<Longrightarrow> d6 l = d5 l" "d6 0 = d5 0" "d6 1 = d5 1" "d6 2 = d5 2"
    using grava_inode_efeito [OF g(2) V(1) g(9)] by blast
  have "uint (of_nat (length buf) :: u32) = int (length buf)"
    unfolding uint_nat using u32_nat(4) [of "length buf" 0] assms(5) by simp
  then have W: "spfs_write agora ex nin n buf (of_nat (length buf)) s = Some (int (length buf), s6)"
    using ok sz s0(1) C(1-3) s4(1) g(1) s6(1) V(3)
    by (simp add: spfs_write_def split_nome [OF assms(2)] pai_nome)
  have fr: "d6 l = d3 l" if "99 \<le> unat l" "unat l < 99 + m" for l
  proof -
    have "l \<noteq> 0" "l \<noteq> 2" "35 \<le> unat l" using that(1) by auto
    then show ?thesis using s6(5) g(7) that(2) by (simp add: preserva_def)
  qed
  have ie: "inode_em d6 j = (if j = ?i then x else inode_em d3 j)" if "j < 256" for j
    using s6(4) [OF that] preserva_inode [OF g(7) that] by simp
  have "arquivo d6 m' (vira j) (snd ((fs @ [(n, buf)]) ! j))" if "j < Suc ?k" for j
  proof (cases "j = ?k")
    case True
    have "conteudo d6 1 m' (in_blocks x) buf c" if "c < 10" "512 * c < length buf" for c
    proof -
      have c: "conteudo d5 m m' (in_blocks x) buf c" using g(12) that by simp
      then have "35 \<le> unat (in_blocks x ! c)" by (simp add: conteudo_def)
      then show ?thesis using c C(13) s6(5) by (simp add: conteudo_def)
    qed
    then show ?thesis using True ie [OF V(1)] g(10,11) by (simp add: arquivo_def novo_inode_def)
  next
    case False
    then have j: "j < ?k" using that by simp
    have "arquivo d6 m' (vira j) (snd (fs ! j))"
      by (rule arquivo_muda [of d3 m]) (use C(16) j V(4,5) ie fr g(4) in auto)
    then show ?thesis using j by (simp add: nth_append)
  qed
  moreover have "raiz_dir d6 (map fst fs @ [n])"
  proof -
    have "?i \<noteq> 0" using V(2) by auto
    then show ?thesis using C(11,13) ie [of 0] fr [of 99] by (simp add: raiz_dir_def)
  qed
  moreover have "nomes_ok (fs @ [(n, buf)])"
    using assms by (auto simp: raiz_def nomes_ok_def)
  moreover have "sfs_ok s6" "ss_magic (sb s6) = SFS_MAGIC" "ss_root (sb s6) = 0" "ss_total (sb s6) = 65437" "length (ss_pad (sb s6)) = 480"
    "length (imap s6) = 512" "\<forall>i<256. bm_test (imap s6) (of_nat i) \<longleftrightarrow> i \<le> Suc ?k" "prefixo (bmap s6) m'"
    using C(5-10,18) g(3,6) s4(3) s6(3) by (simp_all add: resto_sfs_def mem_eq)
  moreover have "m' \<le> 11 * Suc ?k" "m' \<noteq> 0" using C(13,14) g(4,5) by simp_all
  moreover have "sinc s6 d6" by (rule sinc_muda [OF g(8) s6(3)]) (use s6(6-8) in simp_all)
  ultimately have "raiz s6 d6 (fs @ [(n, buf)])"
    using s6(2) by (auto simp: raiz_def vira_def intro!: exI [of _ m'])
  with W show ?thesis by blast
qed

section \<open>Formatting and mounting\<close>

lemma spfs_mount_ok:
  assumes "journal_ok sj D" "disp1 (j_ata s) D" "length (jm_pad (jmeta s)) = 496" "ss_magic (super_of (D 0)) = SFS_MAGIC" "length (ss_pad (sb s)) = 480" "length (imap s) = 512" "length (bmap s) = 512"
  obtains s' D' where "spfs_mount s = Some (0, s')" "journal_ok s' D'" "\<And>l. l \<noteq> 35 \<Longrightarrow> D' l = D l"
    "sb s' = super_of (D 0)" "imap s' = D 1" "bmap s' = D 2" "sfs_ok s'"
proof -
  note P = journal_ok_partes [OF assms(1)]
  have pr: "ata_presente1 (j_ata s)" using assms(2) by (simp add: disp1_def ata_presente1_def)
  have l28: "(0 :: u32) < 2 ^ 28" "(1 :: u32) < 2 ^ 28" "(2 :: u32) < 2 ^ 28" by (simp_all add: word_less_nat_alt)
  obtain a1 where a1: "j_ler 0 (super_bytes (sb s)) s = (0, D 0, s\<lparr>j_ata := a1\<rparr>)" "disp1 a1 D"
    using j_ler_ok [OF assms(2) l28(1), of "super_bytes (sb s)"] assms(5) by auto
  define s1 where "s1 = s\<lparr>j_ata := a1, sb := super_of (D 0)\<rparr>"
  obtain a2 where a2: "j_ler 1 (imap s1) s1 = (0, D 1, s1\<lparr>j_ata := a2\<rparr>)" "disp1 a2 D"
    using j_ler_ok [of s1 D 1 "imap s1", OF _ l28(2)] a1(2) assms(6) by (auto simp: s1_def)
  define s2 where "s2 = s1\<lparr>j_ata := a2, imap := D 1\<rparr>"
  obtain a3 where a3: "j_ler 2 (bmap s2) s2 = (0, D 2, s2\<lparr>j_ata := a3\<rparr>)" "disp1 a3 D"
    using j_ler_ok [of s2 D 2 "bmap s2", OF _ l28(3)] a2(2) assms(7) by (auto simp: s2_def s1_def)
  define s3 where "s3 = s2\<lparr>j_ata := a3, bmap := D 2\<rparr>"
  have s3: "disp1 (j_ata s3) D" "length (jm_pad (jmeta s3)) = 496"
    using a3(2) assms(3) by (simp_all add: s3_def s2_def s1_def)
  obtain a4 where a4: "journal_init s3 = s3\<lparr>j_ata := a4, jmeta := jmeta sj, j_ok := True\<rparr>" "disp1 a4 D"
    by (rule journal_init_ok [OF s3(1,2) P(3,4)])
  define s4 where "s4 = journal_init s3"
  have s4: "disp1 (j_ata s4) D" "jmeta s4 = jmeta sj" "j_ok s4" "sb s4 = super_of (D 0)" "imap s4 = D 1" "bmap s4 = D 2"
    using a4 by (simp_all add: s4_def s3_def s2_def s1_def)
  obtain a5 where a5: "journal_recover s4 = Some (s4\<lparr>j_ata := a5\<rparr>)" "disp1 a5 (D(35 := meta_bytes (jmeta s4)))"
    using recover_vazio [OF s4(1) _ s4(3)] s4(2) P(5,8) by auto
  let ?s = "s4\<lparr>j_ata := a5, sfs_ok := True\<rparr>" and ?D = "D(35 := meta_bytes (jmeta sj))"
  have mm: "imap s1 = imap s" "bmap s2 = bmap s" "bmap s1 = bmap s" by (simp_all add: s1_def s2_def)
  have "spfs_mount s = Some (0, ?s)"
    using pr a1(1) a2(1) a3(1) a5(1) assms(4)
    by (simp add: spfs_mount_def sfs_consts mm s1_def [symmetric] s2_def [symmetric] s3_def [symmetric] s4_def [symmetric])
  moreover have "journal_ok ?s ?D"
  proof -
    have "sem_confusao (vez sj) (jm_next (jmeta sj)) ?D"
      by (rule sem_confusao_mesma [OF P(7,6)]) (use ent_eqs(3) in auto)
    then show ?thesis using a5(2) s4 P by (simp add: journal_ok_def vez_def)
  qed
  ultimately show thesis using that [of ?s ?D] s4 by simp
qed

lemma zera_inodes_ok:
  assumes "disp1 (j_ata s) d" "unat sec + n \<le> 35"
  shows "\<exists>a. zera_inodes n sec s = s\<lparr>j_ata := a\<rparr> \<and>
    disp1 a (\<lambda>l. if unat sec \<le> unat l \<and> unat l < unat sec + n then replicate 512 0 else d l)"
  using assms
proof (induction n arbitrary: sec s d)
  case 0
  have "zera_inodes 0 sec s = s\<lparr>j_ata := j_ata s\<rparr>" by simp
  moreover have "(\<lambda>l. if unat sec \<le> unat l \<and> unat l < unat sec + 0 then replicate 512 0 else d l) = d"
    by (auto simp: fun_eq_iff)
  ultimately show ?case using 0(1) by metis
next
  case (Suc n)
  have sec: "sec < 2 ^ 28" using Suc.prems(2) by (simp add: word_less_nat_alt)
  obtain a where a: "j_gravar sec (replicate 512 0) s = (0, s\<lparr>j_ata := a\<rparr>)" "disp1 a (d(sec := replicate 512 0))"
    using j_gravar_ok [OF Suc.prems(1) sec, of "replicate 512 0"] by auto
  have u: "unat (sec + 1) = unat sec + 1" using unat_mais [of sec 1] Suc.prems(2) by simp
  obtain a' where a': "zera_inodes n (sec + 1) (s\<lparr>j_ata := a\<rparr>) = s\<lparr>j_ata := a'\<rparr>"
    "disp1 a' (\<lambda>l. if unat sec + 1 \<le> unat l \<and> unat l < unat sec + 1 + n then replicate 512 0 else (d(sec := replicate 512 0)) l)"
    using Suc.IH [of "s\<lparr>j_ata := a\<rparr>" "d(sec := replicate 512 0)" "sec + 1"] a(2) Suc.prems(2) by (auto simp: u simp del: fun_upd_apply)
  have "(\<lambda>l. if unat sec + 1 \<le> unat l \<and> unat l < unat sec + 1 + n then replicate 512 0 else (d(sec := replicate 512 0)) l) =
      (\<lambda>l. if unat sec \<le> unat l \<and> unat l < unat sec + Suc n then replicate 512 0 else d l)"
    by (auto simp: fun_eq_iff le_eq_less_or_eq unat_eq_iff Suc_le_eq)
  then show ?case using a(1) a' by (intro exI [of _ a']) simp
qed

lemma journal_init_mem: "memoria_sfs (journal_init s) = memoria_sfs s"
  by (auto simp: journal_init_def j_ler_def j_flush_meta_def j_gravar_def memoria_sfs_def Let_def split: prod.splits)

lemma spfs_format_ok:
  assumes "disp1 (j_ata s) d" "jm_magic (meta_of (d 35)) \<noteq> J_MAGIC" "length (jm_pad (jmeta s)) = 496" "length pilha = 448"
  obtains s' D where "spfs_format pilha s = (0, s')" "journal_ok s' D" "ss_magic (super_of (D 0)) = SFS_MAGIC"
    "ss_root (super_of (D 0)) = 0" "ss_total (super_of (D 0)) = 65437"
    "D 1 = bm_set (replicate 512 0) 0" "D 2 = replicate 512 0" "inode_em D 0 = inode_zero\<lparr>in_type := 2, in_nlinks := 1\<rparr>"
    "length (ss_pad (sb s')) = 480" "length (imap s') = 512" "length (bmap s') = 512"
proof -
  define S where "S = \<lparr>ss_magic = SFS_MAGIC, ss_version = SFS_VERSION, ss_total = 65437, ss_free = 65437,
       ss_inodes = 256, ss_free_inodes = 255, ss_data = 99, ss_root = 0, ss_pad = replicate 480 0\<rparr>"
  let ?I = "bm_set (replicate 512 0) 0" and ?Z = "replicate 512 0 :: setor"
  let ?R = "inode_zero\<lparr>in_type := 2, in_nlinks := 1\<rparr>"
  have l28: "(0 :: u32) < 2 ^ 28" "(1 :: u32) < 2 ^ 28" "(2 :: u32) < 2 ^ 28" "(3 :: u32) < 2 ^ 28" by (simp_all add: word_less_nat_alt)
  have lS: "length (super_bytes S) = 512" by (simp add: S_def)
  define s0 where "s0 = s\<lparr>sb := S\<rparr>"
  obtain a1 where a1: "j_gravar 0 (super_bytes S) s0 = (0, s0\<lparr>j_ata := a1\<rparr>)" "disp1 a1 (d(0 := super_bytes S))"
    using j_gravar_ok [of s0 d, OF _ l28(1) lS] assms(1) by (auto simp: s0_def)
  define s1 where "s1 = s0\<lparr>j_ata := a1, imap := ?I\<rparr>"
  obtain a2 where a2: "j_gravar 1 ?I s1 = (0, s1\<lparr>j_ata := a2\<rparr>)" "disp1 a2 (d(0 := super_bytes S, 1 := ?I))"
    using j_gravar_ok [of s1 "d(0 := super_bytes S)", OF _ l28(2), of ?I] a1(2) by (auto simp: s1_def)
  define s2 where "s2 = s1\<lparr>j_ata := a2, bmap := ?Z\<rparr>"
  obtain a3 where a3: "j_gravar 2 ?Z s2 = (0, s2\<lparr>j_ata := a3\<rparr>)" "disp1 a3 (d(0 := super_bytes S, 1 := ?I, 2 := ?Z))"
    using j_gravar_ok [of s2 "d(0 := super_bytes S, 1 := ?I)", OF _ l28(3), of ?Z] a2(2) by (auto simp: s2_def)
  define s3 where "s3 = s2\<lparr>j_ata := a3\<rparr>"
  define d3 where "d3 = (\<lambda>l. if unat (3 :: u32) \<le> unat l \<and> unat l < unat (3 :: u32) + 32 then ?Z else (d(0 := super_bytes S, 1 := ?I, 2 := ?Z)) l)"
  obtain a4 where a4: "zera_inodes 32 3 s3 = s3\<lparr>j_ata := a4\<rparr>" "disp1 a4 d3"
    using zera_inodes_ok [of s3 "d(0 := super_bytes S, 1 := ?I, 2 := ?Z)" 3 32] a3(2) by (auto simp: s3_def d3_def)
  define s4 where "s4 = s3\<lparr>j_ata := a4\<rparr>"
  have lR: "length (inode_bytes ?R @ pilha) = 512" using assms(4) by (simp add: inode_ok_def inode_zero_def)
  obtain a5 where a5: "j_gravar 3 (inode_bytes ?R @ pilha) s4 = (0, s4\<lparr>j_ata := a5\<rparr>)" "disp1 a5 (d3(3 := inode_bytes ?R @ pilha))"
    using j_gravar_ok [of s4 d3, OF _ l28(4) lR] a4(2) by (auto simp: s4_def)
  define s5 where "s5 = s4\<lparr>j_ata := a5\<rparr>"
  have pr: "ata_presente1 (j_ata s)" using assms(1) by (simp add: disp1_def ata_presente1_def)
  have m0: "?R\<lparr>in_mtime := 0\<rparr> = ?R" by (simp add: inode_zero_def)
  have F: "spfs_format pilha s = (0, journal_init s5)"
    using pr a1(1) a2(1) a3(1) a4(1) a5(1)
    by (simp add: spfs_format_def sfs_consts Let_def m0 S_def [symmetric] s0_def [symmetric]
        s1_def [symmetric] s2_def [symmetric] s3_def [symmetric] s4_def [symmetric] s5_def [symmetric])
  let ?d5 = "d3(3 := inode_bytes ?R @ pilha)"
  have s5: "disp1 (j_ata s5) ?d5" "jm_magic (meta_of (?d5 35)) \<noteq> J_MAGIC" "length (jm_pad (jmeta s5)) = 496"
    using a5(2) assms(2,3) by (simp_all add: s5_def s4_def s3_def s2_def s1_def s0_def d3_def)
  obtain D where D: "journal_ok (journal_init s5) D" "\<forall>l. l \<noteq> 35 \<longrightarrow> D l = ?d5 l" using journal_novo [OF s5] by blast
  have mem: "sb (journal_init s5) = S \<and> imap (journal_init s5) = ?I \<and> bmap (journal_init s5) = ?Z"
    using journal_init_mem [of s5] by (simp add: mem_eq s5_def s4_def s3_def s2_def s1_def s0_def)
  have "inode_em D 0 = ?R"
    using D(2) by (simp add: inode_em_def inode_sec_def inode_off_def sfs_consts slice_def inode_ok_def inode_zero_def)
  then show thesis
    using that [OF F D(1)] D(2) mem by (simp add: d3_def S_def sfs_consts)
qed

lemma replicate_10: "replicate 10 x = x # replicate 9 x"
  by (simp add: numeral_eq_Suc)

lemma raiz_vazia:
  assumes "vol s d" "sinc s d" "sfs_ok s" "ss_root (sb s) = 0 \<and> ss_magic (sb s) = SFS_MAGIC" "ss_total (sb s) = 65437" "length (ss_pad (sb s)) = 480"
    "imap s = bm_set (replicate 512 0) 0" "bmap s = replicate 512 0" "inode_em d 0 = inode_zero\<lparr>in_type := 2, in_nlinks := 1\<rparr>"
  shows "raiz s d []"
proof -
  have z: "\<not> bm_test (replicate 512 0) (of_nat i)" if "i < 4096" for i
    using that by (simp add: bm_test_bit bm_nat less_mult_imp_div_less)
  then have "\<forall>i<256. bm_test (imap s) (of_nat i) \<longleftrightarrow> i \<le> 0"
    using bm_test_set(1) [of "replicate 512 0" 0] by (simp add: assms(7))
  moreover have "prefixo (bmap s) 0" using z by (simp add: prefixo_def assms(8))
  moreover have "raiz_dir d []" by (simp add: raiz_dir_def assms(9) inode_zero_def replicate_10)
  ultimately show ?thesis using assms(1-7) by (simp add: raiz_def nomes_ok_def)
qed

lemma le32_rd32_slice: "k + 4 \<le> length b \<Longrightarrow> le32 (rd32 b k) = slice b k 4"
  using rd32_slice [of k b] le32_rd32 [of "slice b k 4"] by simp

lemma slice_append: "slice b k n @ slice b (k + n) m = slice b k (n + m)"
  unfolding slice_def take_add by (simp add: add.commute)

lemma super_volta: "length b = 512 \<Longrightarrow> super_bytes (super_of b) = b"
proof -
  assume l: "length b = 512"
  have "super_bytes (super_of b) = slice b 0 4 @ slice b 4 4 @ slice b 8 4 @ slice b 12 4 @ slice b 16 4 @ slice b 20 4 @
      slice b 24 4 @ slice b 28 4 @ slice b 32 480"
    using l by (simp add: super_bytes_def super_of_def le32_rd32_slice)
  also have "\<dots> = slice b 0 512"
    using slice_append [of b 28 4 480] slice_append [of b 24 4 484] slice_append [of b 20 4 488] slice_append [of b 16 4 492]
      slice_append [of b 12 4 496] slice_append [of b 8 4 500] slice_append [of b 4 4 504] slice_append [of b 0 4 508] by simp
  finally show ?thesis using slice_all [of b] l by simp
qed

lemma journal_vol: "journal_ok s d \<Longrightarrow> vol s d"
  by (auto simp: vol_def)

lemma vol_muda: "vol s d \<Longrightarrow> (\<And>l. fora l \<Longrightarrow> d' l = d l) \<Longrightarrow> vol s d'"
  by (fastforce simp: vol_def)

lemma formata_e_monta:
  assumes "disp1 (j_ata s) d" "jm_magic (meta_of (d 35)) \<noteq> J_MAGIC" "length (jm_pad (jmeta s)) = 496" "length pilha = 448"
  obtains s1 s2 d' where "spfs_format pilha s = (0, s1)" "spfs_mount s1 = Some (0, s2)" "raiz s2 d' []"
proof -
  obtain s1 D where F: "spfs_format pilha s = (0, s1)" "journal_ok s1 D" "ss_magic (super_of (D 0)) = SFS_MAGIC"
    "ss_root (super_of (D 0)) = 0" "ss_total (super_of (D 0)) = 65437"
    "D 1 = bm_set (replicate 512 0) 0" "D 2 = replicate 512 0" "inode_em D 0 = inode_zero\<lparr>in_type := 2, in_nlinks := 1\<rparr>"
    "length (ss_pad (sb s1)) = 480" "length (imap s1) = 512" "length (bmap s1) = 512"
    by (rule spfs_format_ok [OF assms])
  obtain s2 D' where M: "spfs_mount s1 = Some (0, s2)" "journal_ok s2 D'" "\<And>l. l \<noteq> 35 \<Longrightarrow> D' l = D l"
    "sb s2 = super_of (D 0)" "imap s2 = D 1" "bmap s2 = D 2" "sfs_ok s2"
    using spfs_mount_ok [OF F(2) _ _ F(3,9-11)] journal_ok_partes(1,8) [OF F(2)] by blast
  have l: "length (D 0) = 512" using d1.tamanho [of "j_ata s1" D] F(2) by (auto simp: journal_ok_def)
  have r: "super_bytes (super_of b) = b" if "length b = 512" for b
    by (rule super_volta [OF that])
  have "inode_em D' 0 = inode_em D 0" using M(3) by (simp add: inode_em_def inode_sec_def sfs_consts)
  then have "raiz s2 D' []"
    using journal_vol [OF M(2)] M F l r [OF l]
    by (intro raiz_vazia) (simp_all add: sinc_def super_of_def)
  with F(1) M(1) that show thesis by blast
qed

text \<open>The disk alone determines the volume: mounting it from any memory state gives the same files.\<close>

lemma remonta:
  assumes "raiz s d fs" "j_ata s0 = j_ata s" "length (jm_pad (jmeta s0)) = 496"
    "length (ss_pad (sb s0)) = 480" "length (imap s0) = 512" "length (bmap s0) = 512"
  shows "\<exists>s2. spfs_mount s0 = Some (0, s2) \<and> raiz s2 d fs"
proof -
  obtain D where D: "journal_ok s D" "\<forall>l. fora l \<longrightarrow> D l = d l" using assms(1) by (auto simp: raiz_def vol_def)
  have R: "sinc s d" "ss_magic (sb s) = SFS_MAGIC" "length (ss_pad (sb s)) = 480" using assms(1) by (simp_all add: raiz_def)
  have e: "D 0 = super_bytes (sb s)" "D 1 = imap s" "D 2 = bmap s" using R(1) D(2) by (simp_all add: sinc_def)
  have p: "disp1 (j_ata s0) D" using D(1) assms(2) by (simp add: journal_ok_def)
  have m: "ss_magic (super_of (D 0)) = SFS_MAGIC" using R e(1) by simp
  obtain s2 D' where M: "spfs_mount s0 = Some (0, s2)" "journal_ok s2 D'" "\<And>l. l \<noteq> 35 \<Longrightarrow> D' l = D l"
    "sb s2 = super_of (D 0)" "imap s2 = D 1" "bmap s2 = D 2" "sfs_ok s2"
    using spfs_mount_ok [OF D(1) p assms(3) m assms(4-6)] by blast
  have "d l = D' l" if "fora l" for l
  proof -
    have "l \<noteq> 35" using that by (auto simp: fora_def)
    then show ?thesis using M(3) D(2) that by simp
  qed
  then have "vol s2 d" by (rule vol_muda [OF journal_vol [OF M(2)]])
  moreover have "memoria_sfs s2 = memoria_sfs s" using M(4-7) e R(3) assms(1) by (simp add: mem_eq raiz_def)
  ultimately show ?thesis using M(1) raiz_mem [OF assms(1)] by blast
qed

section \<open>Properties\<close>

text \<open>C15: creating a file refines appending to the list of files.  On a volume whose root holds the files \<open>fs\<close>,
  fewer than 16, writing up to 5120 bytes under a new name of at most 27 characters returns the number of
  bytes and leaves exactly \<open>fs\<close> with the new file at its end: the inode and block allocation, the
  directory entry, the data blocks and the bitmaps all agree, and no other file changes.\<close>

theorem spfs_write_refina:
  assumes "raiz s d fs" "nome_ok n" "n \<notin> set (map fst fs)" "length fs < 16" "length buf \<le> 5120"
  shows "\<exists>s' d'. spfs_write agora ex nin n buf (of_nat (length buf)) s = Some (int (length buf), s') \<and> raiz s' d' (fs @ [(n, buf)])"
  by (rule spfs_write_nova [OF assms])

text \<open>C16: reading refines lookup.  \<open>spfs_read\<close> of a plain name returns -1 and leaves the buffer alone exactly
  when no such file exists; otherwise it returns the smaller of the file's length and the caller's limit,
  and copies that many bytes of the contents to the front of the buffer.  The volume is unchanged.\<close>

theorem spfs_read_refina:
  assumes "raiz s d fs" "nome_ok n" "\<And>x. map_of fs n = Some x \<Longrightarrow> min (length x) (unat maximo) \<le> length buf"
  shows "\<exists>s'. raiz s' d fs \<and> spfs_read n buf maximo s = (case map_of fs n of None \<Rightarrow> (- 1, buf, s')
     | Some x \<Rightarrow> (int (min (length x) (unat maximo)), splice buf 0 (take (unat maximo) x), s'))"
  by (rule spfs_read_nome [OF assms])

text \<open>The kernel's sequence: files created one after another, \<open>ag\<close> being the clock.\<close>

fun cria_todos :: "u32 \<Rightarrow> (u8 list \<times> u8 list) list \<Rightarrow> sfs \<Rightarrow> sfs option" where
  "cria_todos ag [] s = Some s"
| "cria_todos ag ((n, x) # fs) s =
     (case spfs_write ag inode_zero inode_zero n x (of_nat (length x)) s of
        None \<Rightarrow> None | Some (_, s) \<Rightarrow> cria_todos ag fs s)"

lemma cria_todos_ok:
  "raiz s d gs \<Longrightarrow> nomes_ok (gs @ fs) \<Longrightarrow> \<exists>s' d'. cria_todos ag fs s = Some s' \<and> raiz s' d' (gs @ fs)"
proof (induction fs arbitrary: gs s d)
  case (Cons f fs)
  obtain n x where f: "f = (n, x)" by (cases f)
  have h: "nome_ok n" "n \<notin> set (map fst gs)" "length gs < 16" "length x \<le> 5120" using Cons.prems(2) by (auto simp: nomes_ok_def f)
  obtain s1 e1 where "spfs_write ag inode_zero inode_zero n x (of_nat (length x)) s = Some (int (length x), s1)" "raiz s1 e1 (gs @ [(n, x)])"
    using spfs_write_nova [OF Cons.prems(1) h] by blast
  moreover have "nomes_ok ((gs @ [(n, x)]) @ fs)" using Cons.prems(2) by (simp add: f)
  ultimately show ?case using Cons.IH [of s1 e1 "gs @ [(n, x)]"] by (simp add: f)
qed auto

text \<open>C14: the life of a volume.  On a working drive without a journal, \<open>spfs_format\<close> and \<open>spfs_mount\<close> succeed;
  then any list of at most 16 files with distinct plain names and at most 5120 bytes each can be
  created; after the power is cut and the disk is mounted again by a kernel with arbitrary memory
  contents, every one of the files is read back complete, and a name that was not created is not found.\<close>

theorem spfs_persistencia:
  assumes "disp1 (j_ata s) d" "jm_magic (meta_of (d 35)) \<noteq> J_MAGIC" "length (jm_pad (jmeta s)) = 496" "length pilha = 448"
    and "nomes_ok fs" "nome_ok n" "length buf = 5120"
    and "length (jm_pad (jmeta m)) = 496" "length (ss_pad (sb m)) = 480" "length (imap m) = 512" "length (bmap m) = 512"
  shows "\<exists>s1 s2 s3 s4 s5. spfs_format pilha s = (0, s1) \<and> spfs_mount s1 = Some (0, s2) \<and> cria_todos ag fs s2 = Some s3 \<and>
     spfs_mount (m\<lparr>j_ata := j_ata s3\<rparr>) = Some (0, s4) \<and>
     spfs_read n buf 5120 s4 =
       (case map_of fs n of None \<Rightarrow> (- 1, buf, s5) | Some x \<Rightarrow> (int (length x), x @ drop (length x) buf, s5))"
proof -
  obtain s1 s2 d2 where F: "spfs_format pilha s = (0, s1)" "spfs_mount s1 = Some (0, s2)" "raiz s2 d2 []"
    using formata_e_monta [OF assms(1-4)] .
  obtain s3 d3 where C: "cria_todos ag fs s2 = Some s3" "raiz s3 d3 fs"
    using cria_todos_ok [OF F(3), of fs ag] assms(5) by auto
  obtain s4 where M: "spfs_mount (m\<lparr>j_ata := j_ata s3\<rparr>) = Some (0, s4)" "raiz s4 d3 fs"
    using remonta [OF C(2), of "m\<lparr>j_ata := j_ata s3\<rparr>"] assms(8-11) by auto
  have l: "length x \<le> 5120" if "map_of fs n = Some x" for x
    using map_of_SomeD [OF that] assms(5) by (auto simp: nomes_ok_def)
  obtain s5 where "spfs_read n buf 5120 s4 = (case map_of fs n of None \<Rightarrow> (- 1, buf, s5)
     | Some x \<Rightarrow> (int (min (length x) (unat (5120 :: u32))), splice buf 0 (take (unat (5120 :: u32)) x), s5))"
    using spfs_read_nome [OF M(2) assms(6), of 5120 buf] assms(7) by auto
  then have "spfs_read n buf 5120 s4 =
      (case map_of fs n of None \<Rightarrow> (- 1, buf, s5) | Some x \<Rightarrow> (int (length x), x @ drop (length x) buf, s5))"
    using l by (auto simp: splice_def split: option.splits)
  with F(1,2) C(1) M(1) show ?thesis by blast
qed

definition sfs_exemplo :: sfs where
  "sfs_exemplo = \<lparr>j_ata = ata_exemplo, jmeta = meta_of hdr0, j_ok = False, sb = super_of hdr0, imap = hdr0, bmap = hdr0, sfs_ok = False\<rparr>"

lemma sfs_exemplo_ok: "disp1 (j_ata sfs_exemplo) (\<lambda>_. replicate 512 0)" "length (jm_pad (jmeta sfs_exemplo)) = 496"
  "jm_magic (meta_of (replicate 512 0)) \<noteq> J_MAGIC" "length (ss_pad (sb sfs_exemplo)) = 480"
  "length (imap sfs_exemplo) = 512" "length (bmap sfs_exemplo) = 512"
  using ata_exemplo_ok(3) by (simp_all add: sfs_exemplo_def meta_of_def super_of_def J_MAGIC_def rd32_def)

lemma exemplo_vazio: "\<exists>s d. raiz s d []"
  by (rule formata_e_monta [OF sfs_exemplo_ok(1,3,2), of "replicate 448 0"]) auto

lemma nome_exemplo: "nome_ok (bytes ''log.txt'')"
  by (simp add: nome_ok_def barra_def)

theorem spfs_persistencia_witness:
  "\<exists>s3 s4 s5. cria_todos 0 [(bytes ''log.txt'', [1, 2, 3])] s3 \<noteq> None \<and>
     spfs_read (bytes ''log.txt'') (replicate 5120 0) 5120 s4 = (3, [1, 2, 3] @ replicate 5117 0, s5)"
  using spfs_persistencia [OF sfs_exemplo_ok(1,3,2), of "replicate 448 0" "[(bytes ''log.txt'', [1, 2, 3])]"
      "bytes ''log.txt''" "replicate 5120 0" sfs_exemplo 0] sfs_exemplo_ok nome_exemplo
  by (fastforce simp: nomes_ok_def)

theorem spfs_write_refina_witness:
  "\<exists>s s' d'. spfs_write 7 inode_zero inode_zero (bytes ''log.txt'') [1, 2, 3] 3 s = Some (3, s') \<and>
     raiz s' d' [(bytes ''log.txt'', [1, 2, 3])]"
proof -
  obtain s d where "raiz s d []" using exemplo_vazio by blast
  then show ?thesis using spfs_write_refina [of s d "[]" "bytes ''log.txt''" "[1, 2, 3]" 7 inode_zero inode_zero] nome_exemplo
    by auto
qed

theorem spfs_read_refina_witness:
  "\<exists>s s'. spfs_read (bytes ''log.txt'') [9, 9, 9] 2 s = (2, [1, 2, 9], s')"
proof -
  obtain s d where r: "raiz s d []" using exemplo_vazio by blast
  obtain s' d' where s': "raiz s' d' [(bytes ''log.txt'', [1, 2, 3])]"
    using spfs_write_nova [OF r nome_exemplo, of "[1, 2, 3]" 7 inode_zero inode_zero] by auto
  show ?thesis using spfs_read_refina [OF s' nome_exemplo, of 2 "[9, 9, 9]"] by (auto simp: splice_def)
qed

end
