(* ===== verification/Fat32.thy ===== *)
theory Fat32
  imports Ata KString "HOL-Library.Monad_Syntax"
begin

text \<open>
  \<^verbatim>\<open>kernel/fs/fat32.c\<close>: the FAT32 driver on drive 0.  The state is the controller, the values kept from the boot
  sector and the static sector buffer.  A file or directory is the chain of clusters its FAT entries link; the
  loops that follow a chain of the disk are partial functions (\<open>None\<close>: they do not return, which a cyclic chain
  causes), and \<open>fat32_init\<close> is \<open>None\<close> when the division by the sectors per cluster traps.

  The five operations on directories walk the 32-byte entries in the same way: \<open>varre\<close> is that walk, and what
  each operation does with an entry is its visitor, which says whether to go on (\<open>None\<close>) or to stop.
\<close>

section \<open>State and layout\<close>

definition FAT32_ATTR_VOLUME :: u8 where "FAT32_ATTR_VOLUME = 0x08"
definition FAT32_ATTR_DIR :: u8 where "FAT32_ATTR_DIR = 0x10"
definition FAT32_ATTR_ARCHIVE :: u8 where "FAT32_ATTR_ARCHIVE = 0x20"
definition FAT32_ATTR_LFN :: u8 where "FAT32_ATTR_LFN = 0x0F"
definition FAT32_EOF :: u32 where "FAT32_EOF = 0x0FFFFFF8"

record fat32_entry =
  fe_name :: "u8 list"
  fe_is_dir :: bool
  fe_cluster :: u32
  fe_size :: u32

record fat =
  f_ata :: ata
  f_inicializado :: bool
  f_bps :: u16
  f_spc :: u8
  f_fat_lba :: u32
  f_data_lba :: u32
  f_root :: u32
  f_total :: u32
  fat32_buf :: setor

text \<open>Fields of the boot sector and of a directory entry.\<close>

definition bpb_bps :: "setor \<Rightarrow> u16" where "bpb_bps b = rd16 b 0x0B"
definition bpb_spc :: "setor \<Rightarrow> u8" where "bpb_spc b = b ! 0x0D"
definition bpb_reserved :: "setor \<Rightarrow> u16" where "bpb_reserved b = rd16 b 0x0E"
definition bpb_num_fats :: "setor \<Rightarrow> u8" where "bpb_num_fats b = b ! 0x10"
definition bpb_total32 :: "setor \<Rightarrow> u32" where "bpb_total32 b = rd32 b 0x20"
definition bpb_fat_size32 :: "setor \<Rightarrow> u32" where "bpb_fat_size32 b = rd32 b 0x24"
definition bpb_root :: "setor \<Rightarrow> u32" where "bpb_root b = rd32 b 0x2C"
definition bpb_fs_type :: "setor \<Rightarrow> u8 list" where "bpb_fs_type b = drop 0x52 b"

definition de_raw11 :: "setor \<Rightarrow> nat \<Rightarrow> u8 list" where "de_raw11 b i = slice b (32 * i) 11"
definition de_first :: "setor \<Rightarrow> nat \<Rightarrow> u8" where "de_first b i = b ! (32 * i)"
definition de_attr :: "setor \<Rightarrow> nat \<Rightarrow> u8" where "de_attr b i = b ! (32 * i + 11)"
definition de_cluster :: "setor \<Rightarrow> nat \<Rightarrow> u32" where
  "de_cluster b i = push_bit 16 (ucast (rd16 b (32 * i + 20))) OR ucast (rd16 b (32 * i + 26))"
definition de_size :: "setor \<Rightarrow> nat \<Rightarrow> u32" where "de_size b i = rd32 b (32 * i + 28)"

definition dirent_bytes :: "u8 list \<Rightarrow> u8 \<Rightarrow> u32 \<Rightarrow> u32 \<Rightarrow> u8 list" where
  "dirent_bytes name11 attr c size' =
     take 11 name11 @ [attr] @ replicate 8 0 @ le16 (ucast (drop_bit 16 c)) @ replicate 4 0 @ le16 (ucast (c AND 0xFFFF)) @ le32 size'"

section \<open>Primitives\<close>

definition f_ler :: "u32 \<Rightarrow> fat \<Rightarrow> int \<times> fat" where
  "f_ler lba s = (let (r, b, a) = ata_ler lba 1 (fat32_buf s) (f_ata s) in (r, s\<lparr>fat32_buf := b, f_ata := a\<rparr>))"

definition f_gravar :: "u32 \<Rightarrow> fat \<Rightarrow> int \<times> fat" where
  "f_gravar lba s = (let (r, a) = ata_gravar lba 1 (fat32_buf s) (f_ata s) in (r, s\<lparr>f_ata := a\<rparr>))"

definition cluster_to_lba :: "fat \<Rightarrow> u32 \<Rightarrow> u32" where
  "cluster_to_lba s c = f_data_lba s + (c - 2) * ucast (f_spc s)"

definition fat_setor :: "fat \<Rightarrow> u32 \<Rightarrow> u32" where "fat_setor s c = f_fat_lba s + c * 4 div 512"
definition fat_desloc :: "u32 \<Rightarrow> nat" where "fat_desloc c = unat (c * 4 mod 512)"

definition fat32_read_fat :: "u32 \<Rightarrow> fat \<Rightarrow> u32 \<times> fat" where
  "fat32_read_fat c s =
     (let (r, s) = f_ler (fat_setor s c) s in
      if r \<noteq> 0 then (0x0FFFFFFF, s) else (rd32 (fat32_buf s) (fat_desloc c) AND 0x0FFFFFFF, s))"

definition fat32_write_fat_entry :: "u32 \<Rightarrow> u32 \<Rightarrow> fat \<Rightarrow> int \<times> fat" where
  "fat32_write_fat_entry c v s =
     (let (r, s) = f_ler (fat_setor s c) s in
      if r \<noteq> 0 then (- 1, s)
      else let s = s\<lparr>fat32_buf := splice (fat32_buf s) (fat_desloc c) (le32 (v AND 0x0FFFFFFF))\<rparr>;
               (r, s) = f_gravar (fat_setor s c) s
           in if r \<noteq> 0 then (- 1, s) else (0, s))"

section \<open>Names\<close>

definition espaco :: u8 where "espaco = 32"
definition ponto8 :: u8 where "ponto8 = 46"

definition reconstruct_name :: "u8 list \<Rightarrow> u8 list" where
  "reconstruct_name r =
     (let nome = takeWhile (\<lambda>c. c \<noteq> espaco) (take 8 r); ext = take 3 (drop 8 r) in
      nome @ (if \<exists>c \<in> set ext. c \<noteq> espaco then ponto8 # takeWhile (\<lambda>c. c \<noteq> espaco) ext else []))"

text \<open>The two copying loops of \<open>fat32_normalize\<close>: what is written, and where the name stands afterwards.\<close>

fun norm_copia :: "bool \<Rightarrow> nat \<Rightarrow> u8 list \<Rightarrow> u8 list \<times> u8 list" where
  "norm_copia para 0 p = ([], p)"
| "norm_copia para (Suc n) p =
     (if char_at p 0 \<noteq> 0 \<and> \<not> (para \<and> char_at p 0 = ponto8) then
        let (xs, p') = norm_copia para n (tl p) in (k_toupper (char_at p 0) # xs, p')
      else ([], p))"

definition fat32_normalize :: "u8 list \<Rightarrow> u8 list" where
  "fat32_normalize filename =
     (let (nome, p) = norm_copia True 8 filename;
          p = (if char_at p 0 = ponto8 then tl p else p);
          (ext, _) = norm_copia False 3 p
      in splice (splice (replicate 11 espaco) 0 nome) 8 ext)"

section \<open>Mounting\<close>

definition fat32_init :: "fat \<Rightarrow> (int \<times> fat) option" where
  "fat32_init s =
     (let (r, b, a) = ata_ler 0 1 (replicate 512 0) (f_ata s); s = s\<lparr>f_ata := a\<rparr> in
      if r \<noteq> 0 then Some (- 1, s)
      else if k_strncmp (bpb_fs_type b) (bytes ''FAT32   '') 5 \<noteq> 0 \<and> (b ! 510 \<noteq> 0x55 \<or> b ! 511 \<noteq> 0xAA) then Some (- 1, s)
      else if k_strncmp (bpb_fs_type b) (bytes ''FAT32   '') 5 \<noteq> 0 \<and> bpb_fat_size32 b = 0 then Some (- 1, s)
      else let s = s\<lparr>f_bps := bpb_bps b, f_spc := bpb_spc b, f_fat_lba := ucast (bpb_reserved b), f_root := bpb_root b\<rparr>;
               s = s\<lparr>f_data_lba := f_fat_lba s + ucast (bpb_num_fats b) * bpb_fat_size32 b\<rparr> in
        if f_spc s = 0 then None
        else Some (0, s\<lparr>f_total := (bpb_total32 b - f_data_lba s) div ucast (f_spc s), f_inicializado := True\<rparr>))"

definition fat32_root_cluster :: "fat \<Rightarrow> u32" where "fat32_root_cluster s = f_root s"

section \<open>Directory entries\<close>

definition ignorada :: "bool \<Rightarrow> setor \<Rightarrow> nat \<Rightarrow> bool" where
  "ignorada vol b i \<longleftrightarrow> de_first b i = 0xE5 \<or> de_attr b i = FAT32_ATTR_LFN \<or> vol \<and> de_attr b i AND FAT32_ATTR_VOLUME \<noteq> 0"

definition entrada :: "setor \<Rightarrow> nat \<Rightarrow> fat32_entry" where
  "entrada b i = \<lparr>fe_name = reconstruct_name (de_raw11 b i), fe_is_dir = (de_attr b i AND FAT32_ATTR_DIR \<noteq> 0),
     fe_cluster = de_cluster b i, fe_size = de_size b i\<rparr>"

text \<open>\<open>readdir\<close>: entries \<open>16 - n\<close> and on of a sector, the sectors \<open>k\<close> and on of a cluster, the clusters of a chain.
  The flag says that the end mark was met.\<close>

fun readdir_setor :: "nat \<Rightarrow> int \<Rightarrow> setor \<Rightarrow> fat32_entry list \<Rightarrow> bool \<times> fat32_entry list" where
  "readdir_setor 0 max' b es = (False, es)"
| "readdir_setor (Suc n) max' b es =
     (let i = 15 - n in
      if \<not> int (length es) < max' then (False, es)
      else if de_first b i = 0 then (True, es)
      else if ignorada True b i then readdir_setor n max' b es
      else readdir_setor n max' b (es @ [entrada b i]))"

fun readdir_cluster :: "nat \<Rightarrow> u32 \<Rightarrow> int \<Rightarrow> fat32_entry list \<Rightarrow> fat \<Rightarrow> (bool \<times> fat32_entry list) option \<times> fat" where
  "readdir_cluster 0 lba max' es s = (Some (False, es), s)"
| "readdir_cluster (Suc n) lba max' es s =
     (if \<not> int (length es) < max' then (Some (False, es), s)
      else let (r, s) = f_ler lba s in
        if r \<noteq> 0 then (None, s)
        else case readdir_setor 16 max' (fat32_buf s) es of
          (True, es) \<Rightarrow> (Some (True, es), s)
        | (False, es) \<Rightarrow> readdir_cluster n (lba + 1) max' es s)"

partial_function (option) readdir_loop :: "u32 \<Rightarrow> int \<Rightarrow> fat32_entry list \<Rightarrow> fat \<Rightarrow> (fat32_entry list option \<times> fat) option" where
  "readdir_loop c max' es s =
     (if \<not> (c < FAT32_EOF \<and> int (length es) < max') then Some (Some es, s)
      else case readdir_cluster (unat (f_spc s)) (cluster_to_lba s c) max' es s of
        (None, s) \<Rightarrow> Some (None, s)
      | (Some (fim, es), s) \<Rightarrow>
          if fim then Some (Some es, s)
          else let (c, s) = fat32_read_fat c s in readdir_loop c max' es s)"

text \<open>\<open>None\<close> is the result -1, \<open>Some es\<close> the count with the entries stored.\<close>

definition fat32_readdir :: "u32 \<Rightarrow> int \<Rightarrow> fat \<Rightarrow> (fat32_entry list option \<times> fat) option" where
  "fat32_readdir dir max' s = (if \<not> f_inicializado s then Some (None, s) else readdir_loop dir max' [] s)"

text \<open>The walk: \<open>Falha\<close> when a sector cannot be read, \<open>Achou\<close> with the sector, the index and the visitor's result.\<close>

datatype 'r busca_dir = Nada | Falha | Achou u32 nat 'r

fun varre_setor :: "(setor \<Rightarrow> nat \<Rightarrow> 'r option) \<Rightarrow> nat \<Rightarrow> setor \<Rightarrow> (nat \<times> 'r) option" where
  "varre_setor f 0 b = None"
| "varre_setor f (Suc n) b = (case f b (15 - n) of Some r \<Rightarrow> Some (15 - n, r) | None \<Rightarrow> varre_setor f n b)"

fun varre_cluster :: "(setor \<Rightarrow> nat \<Rightarrow> 'r option) \<Rightarrow> nat \<Rightarrow> u32 \<Rightarrow> fat \<Rightarrow> 'r busca_dir \<times> fat" where
  "varre_cluster f 0 lba s = (Nada, s)"
| "varre_cluster f (Suc n) lba s =
     (let (r, s) = f_ler lba s in
      if r \<noteq> 0 then (Falha, s)
      else case varre_setor f 16 (fat32_buf s) of
        Some (i, r) \<Rightarrow> (Achou lba i r, s)
      | None \<Rightarrow> varre_cluster f n (lba + 1) s)"

partial_function (option) varre :: "(setor \<Rightarrow> nat \<Rightarrow> 'r option) \<Rightarrow> u32 \<Rightarrow> fat \<Rightarrow> ('r busca_dir \<times> fat) option" where
  "varre f c s =
     (if \<not> c < FAT32_EOF then Some (Nada, s)
      else case varre_cluster f (unat (f_spc s)) (cluster_to_lba s c) s of
        (Nada, s) \<Rightarrow> (let (c, s) = fat32_read_fat c s in varre f c s)
      | (r, s) \<Rightarrow> Some (r, s))"

text \<open>The visitors: stop at the end mark (\<open>Some None\<close>), stop at the entry with the name.\<close>

definition vis_nome :: "bool \<Rightarrow> u8 list \<Rightarrow> setor \<Rightarrow> nat \<Rightarrow> fat32_entry option option" where
  "vis_nome vol name11 b i =
     (if de_first b i = 0 then Some None
      else if ignorada vol b i then None
      else if k_strncmp (de_raw11 b i) name11 11 = 0 then Some (Some (entrada b i))
      else None)"

definition vis_vaga :: "setor \<Rightarrow> nat \<Rightarrow> unit option" where
  "vis_vaga b i = (if de_first b i = 0 \<or> de_first b i = 0xE5 then Some () else None)"

definition fat32_find :: "u32 \<Rightarrow> u8 list \<Rightarrow> fat \<Rightarrow> (fat32_entry option \<times> fat) option" where
  "fat32_find dir name11 s =
     (if \<not> f_inicializado s then Some (None, s)
      else do {
        (r, s) \<leftarrow> varre (vis_nome True name11) dir s;
        Some (case r of Achou _ _ (Some e) \<Rightarrow> Some e | _ \<Rightarrow> None, s) })"

section \<open>Reading a file\<close>

text \<open>The buffer is returned with every result, a failed read having filled part of it.\<close>

fun read_cluster :: "nat \<Rightarrow> u32 \<Rightarrow> u32 \<Rightarrow> u32 \<Rightarrow> u8 list \<Rightarrow> fat \<Rightarrow> u32 option \<times> u8 list \<times> fat" where
  "read_cluster 0 lba tam lidos buf s = (Some lidos, buf, s)"
| "read_cluster (Suc n) lba tam lidos buf s =
     (if tam - lidos = 0 then (Some lidos, buf, s)
      else let (r, s) = f_ler lba s in
        if r \<noteq> 0 then (None, buf, s)
        else let chunk = (if tam - lidos < 512 then tam - lidos else 512) in
          read_cluster n (lba + 1) tam (lidos + chunk) (splice buf (unat lidos) (take (unat chunk) (fat32_buf s))) s)"

partial_function (option) read_loop :: "u32 \<Rightarrow> u32 \<Rightarrow> u32 \<Rightarrow> u8 list \<Rightarrow> fat \<Rightarrow> ((u32 option \<times> u8 list) \<times> fat) option" where
  "read_loop c tam lidos buf s =
     (if \<not> (c < FAT32_EOF \<and> lidos < tam) then Some ((Some lidos, buf), s)
      else case read_cluster (unat (f_spc s)) (cluster_to_lba s c) tam lidos buf s of
        (None, buf, s) \<Rightarrow> Some ((None, buf), s)
      | (Some lidos, buf, s) \<Rightarrow> let (c, s) = fat32_read_fat c s in read_loop c tam lidos buf s)"

definition fat32_read :: "u32 \<Rightarrow> u32 \<Rightarrow> u8 list \<Rightarrow> fat \<Rightarrow> ((u32 option \<times> u8 list) \<times> fat) option" where
  "fat32_read first tam buf s = (if \<not> f_inicializado s then Some ((None, buf), s) else read_loop first tam 0 buf s)"

section \<open>Allocation and writing\<close>

fun alloc_loop :: "nat \<Rightarrow> u32 \<Rightarrow> fat \<Rightarrow> u32 \<times> fat" where
  "alloc_loop 0 c s = (0, s)"
| "alloc_loop (Suc n) c s =
     (let (v, s) = fat32_read_fat c s in
      if v = 0 then let (_, s) = fat32_write_fat_entry c 0x0FFFFFFF s in (c, s)
      else alloc_loop n (c + 1) s)"

definition fat32_alloc_cluster :: "fat \<Rightarrow> u32 \<times> fat" where
  "fat32_alloc_cluster s = (if \<not> f_inicializado s then (0, s) else alloc_loop (unat (f_total s + 2) - 2) 2 s)"

fun write_cluster :: "nat \<Rightarrow> u32 \<Rightarrow> u8 list \<Rightarrow> u32 \<Rightarrow> u32 \<Rightarrow> fat \<Rightarrow> u32 option \<times> fat" where
  "write_cluster 0 lba buf tam escr s = (Some escr, s)"
| "write_cluster (Suc n) lba buf tam escr s =
     (if \<not> escr < tam then (Some escr, s)
      else let chunk = (if 512 < tam - escr then 512 else tam - escr);
               s = s\<lparr>fat32_buf := splice (replicate 512 0) 0 (slice buf (unat escr) (unat chunk))\<rparr>;
               (r, s) = f_gravar lba s
           in if r \<noteq> 0 then (None, s) else write_cluster n (lba + 1) buf tam (escr + chunk) s)"

partial_function (option) write_loop :: "u32 \<Rightarrow> u32 \<Rightarrow> u8 list \<Rightarrow> u32 \<Rightarrow> u32 \<Rightarrow> fat \<Rightarrow> (u32 option \<times> fat) option" where
  "write_loop c ant buf tam escr s =
     (if \<not> escr < tam then Some (Some escr, s)
      else
        let (c, s) =
          (if c = 0 \<or> FAT32_EOF \<le> c then
             let (n, s) = fat32_alloc_cluster s in
             (n, if n \<noteq> 0 \<and> ant \<noteq> 0 then snd (fat32_write_fat_entry ant n s) else s)
           else (c, s))
        in if c = 0 then Some (None, s)
        else case write_cluster (unat (f_spc s)) (cluster_to_lba s c) buf tam escr s of
          (None, s) \<Rightarrow> Some (None, s)
        | (Some escr, s) \<Rightarrow> let (n, s) = fat32_read_fat c s in write_loop n c buf tam escr s)"

definition fat32_write_file :: "u32 \<Rightarrow> u8 list \<Rightarrow> u32 \<Rightarrow> fat \<Rightarrow> (u32 option \<times> fat) option" where
  "fat32_write_file first buf tam s = (if \<not> f_inicializado s then Some (None, s) else write_loop first 0 buf tam 0 s)"

section \<open>Creating, deleting, renaming\<close>

fun zera_setores :: "nat \<Rightarrow> u32 \<Rightarrow> fat \<Rightarrow> fat" where
  "zera_setores 0 lba s = s"
| "zera_setores (Suc n) lba s = zera_setores n (lba + 1) (snd (f_gravar lba s))"

definition pontos :: "u32 \<Rightarrow> u32 \<Rightarrow> setor \<Rightarrow> setor" where
  "pontos novo pai b =
     splice (splice b 0 (dirent_bytes (ponto8 # replicate 10 espaco) FAT32_ATTR_DIR novo 0)) 32
       (dirent_bytes (ponto8 # ponto8 # replicate 9 espaco) FAT32_ATTR_DIR pai 0)"

definition fat32_create :: "u32 \<Rightarrow> u8 list \<Rightarrow> u8 \<Rightarrow> fat \<Rightarrow> (u32 \<times> fat) option" where
  "fat32_create parent name11 attr s =
     (if \<not> f_inicializado s then Some (0, s)
      else let (novo, s) = fat32_alloc_cluster s in
        if novo = 0 then Some (0, s)
        else let lba = cluster_to_lba s novo;
                 s = zera_setores (unat (f_spc s)) lba (s\<lparr>fat32_buf := replicate 512 0\<rparr>);
                 (r, s) = (if attr AND FAT32_ATTR_DIR \<noteq> 0 then
                   (let (r, s) = f_ler lba s in
                    if r \<noteq> 0 then (r, s)
                    else (0, snd (f_gravar lba (s\<lparr>fat32_buf := pontos novo parent (fat32_buf s)\<rparr>))))
                   else (0, s))
             in if r \<noteq> 0 then Some (0, s)
             else do {
               (v, s) \<leftarrow> varre vis_vaga parent s;
               Some (case v of
                 Achou l i _ \<Rightarrow> (novo, snd (f_gravar l (s\<lparr>fat32_buf := splice (fat32_buf s) (32 * i) (dirent_bytes name11 attr novo 0)\<rparr>)))
               | _ \<Rightarrow> (0, s)) })"

partial_function (option) libera_cadeia :: "u32 \<Rightarrow> fat \<Rightarrow> fat option" where
  "libera_cadeia c s =
     (if \<not> (2 \<le> c \<and> c < FAT32_EOF) then Some s
      else let (n, s) = fat32_read_fat c s; (_, s) = fat32_write_fat_entry c 0 s in libera_cadeia n s)"

definition fat32_delete :: "u32 \<Rightarrow> u8 list \<Rightarrow> fat \<Rightarrow> (int \<times> fat) option" where
  "fat32_delete parent name11 s =
     (if \<not> f_inicializado s then Some (- 1, s)
      else do {
        (v, s) \<leftarrow> varre (vis_nome False name11) parent s;
        case v of
          Achou l i (Some e) \<Rightarrow> do {
            let s = snd (f_gravar l (s\<lparr>fat32_buf := (fat32_buf s)[32 * i := 0xE5]\<rparr>));
            s \<leftarrow> libera_cadeia (fe_cluster e) s;
            Some (0, s) }
        | _ \<Rightarrow> Some (- 1, s) })"

definition fat32_rename :: "u32 \<Rightarrow> u8 list \<Rightarrow> u8 list \<Rightarrow> fat \<Rightarrow> (int \<times> fat) option" where
  "fat32_rename dir old11 new11 s =
     (if \<not> f_inicializado s then Some (- 1, s)
      else do {
        (v, s) \<leftarrow> varre (vis_nome False old11) dir s;
        Some (case v of
          Achou l i (Some e) \<Rightarrow> (0, snd (f_gravar l (s\<lparr>fat32_buf := splice (fat32_buf s) (32 * i) (take 11 new11)\<rparr>)))
        | _ \<Rightarrow> (- 1, s)) })"

section \<open>Names: lemmas\<close>

text \<open>A name in 8.3 form.\<close>

definition nome83 :: "u8 list \<Rightarrow> u8 list \<Rightarrow> u8 list" where
  "nome83 base ext = base @ (if ext = [] then [] else ponto8 # ext)"

lemma norm_copia_ok:
  "length xs \<le> n \<Longrightarrow> \<forall>c \<in> set xs. c \<noteq> 0 \<and> c \<noteq> ponto8 \<Longrightarrow> length xs = n \<or> char_at p 0 = 0 \<or> b \<and> char_at p 0 = ponto8 \<Longrightarrow>
   norm_copia b n (xs @ p) = (map k_toupper xs, p)"
proof (induction xs arbitrary: n)
  case Nil
  then show ?case by (cases n) auto
next
  case (Cons x xs)
  then obtain m where m: "n = Suc m" by (cases n) auto
  have "norm_copia b m (xs @ p) = (map k_toupper xs, p)" using Cons by (intro Cons.IH) (auto simp: m)
  then show ?case using Cons.prems by (simp add: m char_at_def)
qed

lemma k_toupper_espaco: "k_toupper c = espaco \<longleftrightarrow> c = espaco"
  by (auto simp: k_toupper_def espaco_def word_le_nat_alt unat_eq_iff [symmetric] unat_sub)

text \<open>The 11 bytes of a name, both parts padded with spaces.\<close>

definition campos83 :: "u8 list \<Rightarrow> u8 list \<Rightarrow> u8 list" where
  "campos83 base ext = base @ replicate (8 - length base) espaco @ ext @ replicate (3 - length ext) espaco"

lemma length_campos83 [simp]: "length base \<le> 8 \<Longrightarrow> length ext \<le> 3 \<Longrightarrow> length (campos83 base ext) = 11"
  by (simp add: campos83_def)

lemma fat32_normalize_ok:
  assumes "length base \<le> 8" "length ext \<le> 3" "\<forall>c \<in> set base \<union> set ext. c \<noteq> 0 \<and> c \<noteq> ponto8"
  shows "fat32_normalize (nome83 base ext) = campos83 (map k_toupper base) (map k_toupper ext)"
proof -
  let ?p = "if ext = [] then [] else ponto8 # ext"
  have p: "char_at ?p 0 = 0 \<or> True \<and> char_at ?p 0 = ponto8" by (simp add: char_at_def)
  have a: "norm_copia True 8 (base @ ?p) = (map k_toupper base, ?p)"
    using norm_copia_ok [of base 8 ?p True] assms p by auto
  have t: "(if char_at ?p 0 = ponto8 then tl ?p else ?p) = ext" by (simp add: char_at_def ponto8_def)
  have e: "norm_copia False 3 ext = (map k_toupper ext, [])"
    using norm_copia_ok [of ext 3 "[]" False] assms by (simp add: char_at_def)
  have s: "splice (splice (replicate 11 espaco) 0 B) 8 E = campos83 B E" if "length B \<le> 8" "length E \<le> 3" for B E
  proof -
    have "splice (replicate 11 espaco) 0 B = B @ replicate (8 - length B) espaco @ replicate 3 espaco"
      using that by (simp add: splice_def replicate_add [symmetric])
    then show ?thesis using that by (simp add: splice_def campos83_def)
  qed
  show ?thesis
    unfolding fat32_normalize_def nome83_def a Let_def prod.case t e using s assms(1,2) by simp
qed

lemma takeWhile_espaco: "\<forall>c \<in> set xs. c \<noteq> espaco \<Longrightarrow> takeWhile (\<lambda>c. c \<noteq> espaco) (xs @ replicate n espaco) = xs"
  by (cases n) (auto simp: takeWhile_append2)

lemma reconstruct_campos83:
  assumes "length base \<le> 8" "length ext \<le> 3" "\<forall>c \<in> set base \<union> set ext. c \<noteq> espaco"
  shows "reconstruct_name (campos83 base ext) = nome83 base ext"
proof -
  have t: "take 8 (campos83 base ext) = base @ replicate (8 - length base) espaco"
    "take 3 (drop 8 (campos83 base ext)) = ext @ replicate (3 - length ext) espaco"
    using assms(1,2) by (simp_all add: campos83_def)
  have "(\<exists>c \<in> set (ext @ replicate (3 - length ext) espaco). c \<noteq> espaco) \<longleftrightarrow> ext \<noteq> []"
    using assms(3) by (cases ext) auto
  then show ?thesis
    using assms(3) by (simp add: reconstruct_name_def t Let_def takeWhile_espaco nome83_def)
qed

text \<open>Names survive the directory.  The 11-byte form of an 8.3 name (a base of up to 8 and an extension of up
  to 3 characters) turned back into a readable name is the name in upper case; so a name already in upper
  case comes back exactly, and two such names with the same 11 bytes are equal.\<close>

theorem fat32_nome_ida_e_volta:
  assumes "length base \<le> 8" "length ext \<le> 3" "\<forall>c \<in> set base \<union> set ext. c \<noteq> 0 \<and> c \<noteq> ponto8 \<and> c \<noteq> espaco"
  shows "length (fat32_normalize (nome83 base ext)) = 11 \<and>
    reconstruct_name (fat32_normalize (nome83 base ext)) = map k_toupper (nome83 base ext)"
proof -
  have "k_toupper ponto8 = ponto8" by (simp add: k_toupper_def ponto8_def)
  then have "nome83 (map k_toupper base) (map k_toupper ext) = map k_toupper (nome83 base ext)"
    by (simp add: nome83_def)
  moreover have "reconstruct_name (campos83 (map k_toupper base) (map k_toupper ext)) = nome83 (map k_toupper base) (map k_toupper ext)"
    using assms by (intro reconstruct_campos83) (simp_all add: ball_Un k_toupper_espaco)
  ultimately show ?thesis using fat32_normalize_ok [of base ext] assms by auto
qed

theorem fat32_nome_ida_e_volta_witness:
  "reconstruct_name (fat32_normalize (bytes ''main.c'')) = bytes ''MAIN.C''"
proof -
  have m: "bytes ''main.c'' = nome83 (bytes ''main'') (bytes ''c'')" by (simp add: nome83_def ponto8_def)
  have "reconstruct_name (fat32_normalize (nome83 (bytes ''main'') (bytes ''c''))) = map k_toupper (nome83 (bytes ''main'') (bytes ''c''))"
    using fat32_nome_ida_e_volta [of "bytes ''main''" "bytes ''c''"] by (simp add: ponto8_def espaco_def)
  then show ?thesis unfolding m by (simp add: nome83_def k_toupper_def ponto8_def)
qed

section \<open>A healthy disk\<close>

definition disp0 :: "ata \<Rightarrow> (u32 \<Rightarrow> setor) \<Rightarrow> bool" where
  "disp0 a d \<longleftrightarrow> saudavel a \<and> disco_presente a \<and> discos a False = d"

definition hist0 :: "ata \<Rightarrow> (u32 \<times> setor) list" where
  "hist0 a = map snd (filter (Not \<circ> fst) (escritas a))"

interpretation d0: bloco_disp "\<lambda>l b. ata_ler l 1 b" "\<lambda>l b. ata_gravar l 1 b" disp0 hist0 "2 ^ 28"
proof
  fix s d and l :: u32 and b :: setor assume h: "disp0 s d" "l < 2 ^ 28" "length b = 512"
  then obtain s' where s': "ata_ler l 1 b s = (0, splice b 0 (setores_de s False l 1), s')" "visao s' = visao s"
    using ata_ler_ok(2) [of s 1 b l] by (auto simp: disp0_def)
  have "length (d l) = 512" using h(1) by (auto simp: disp0_def saudavel_def)
  then have "splice b 0 (setores_de s False l 1) = d l"
    using h by (simp add: setores_de_def splice_def disp0_def)
  moreover have "disp0 s' d" "hist0 s' = hist0 s"
    using h(1) s'(2) visao_saudavel [OF s'(2)] by (simp_all add: disp0_def visao_def hist0_def)
  ultimately show "\<exists>s'. ata_ler l 1 b s = (0, d l, s') \<and> disp0 s' d \<and> hist0 s' = hist0 s" using s' by auto
next
  fix s d and l :: u32 and b :: setor assume h: "disp0 s d" "l < 2 ^ 28" "length b = 512"
  then obtain s' where s': "ata_gravar l 1 b s = (0, s')" "gravado s False (pedacos l b 0 1) s'"
    using ata_gravar_ok(2) [of s 1 b l] by (auto simp: disp0_def)
  have p: "pedacos l b 0 1 = [(l, b)]" using h(3) slice_all [of b] by (simp add: pedacos_def)
  have "saudavel s'"
    by (rule gravado_saudavel [OF _ s'(2)]) (use h(1,3) in \<open>simp_all only: p disp0_def, simp_all\<close>)
  then have "disp0 s' (d(l := b))" "hist0 s' = hist0 s @ [(l, b)]"
    using s'(2) [unfolded p] h(1) by (auto simp: disp0_def gravado_def hist0_def)
  then show "\<exists>s'. ata_gravar l 1 b s = (0, s') \<and> disp0 s' (d(l := b)) \<and> hist0 s' = hist0 s @ [(l, b)]"
    using s'(1) by blast
qed (auto simp: disp0_def saudavel_def)

text \<open>\<open>disco s d\<close>: the drive works and holds \<open>d\<close>; \<open>mesmo s s'\<close>: only the controller and the buffer differ.\<close>

definition disco :: "fat \<Rightarrow> (u32 \<Rightarrow> setor) \<Rightarrow> bool" where
  "disco s d \<longleftrightarrow> disp0 (f_ata s) d \<and> length (fat32_buf s) = 512"

definition mesmo :: "fat \<Rightarrow> fat \<Rightarrow> bool" where
  "mesmo s s' \<longleftrightarrow> (\<exists>a b. s' = s\<lparr>f_ata := a, fat32_buf := b\<rparr>)"

lemma mesmo_campos:
  "mesmo s s' \<Longrightarrow> f_spc s' = f_spc s" "mesmo s s' \<Longrightarrow> f_fat_lba s' = f_fat_lba s" "mesmo s s' \<Longrightarrow> f_data_lba s' = f_data_lba s"
  "mesmo s s' \<Longrightarrow> f_total s' = f_total s" "mesmo s s' \<Longrightarrow> f_inicializado s' = f_inicializado s" "mesmo s s' \<Longrightarrow> f_root s' = f_root s"
  by (auto simp: mesmo_def)

lemma mesmo_trans [trans]: "mesmo s t \<Longrightarrow> mesmo t u \<Longrightarrow> mesmo s u"
proof -
  assume "mesmo s t" "mesmo t u"
  then obtain a b where "u = s\<lparr>f_ata := a, fat32_buf := b\<rparr>" by (auto simp: mesmo_def)
  then show "mesmo s u" unfolding mesmo_def by (intro exI)
qed

lemma mesmo_refl [simp]: "mesmo s s" "mesmo s (s\<lparr>fat32_buf := b\<rparr>)" "mesmo s (s\<lparr>f_ata := a\<rparr>)"
  unfolding mesmo_def by (rule exI [of _ "f_ata s"], rule exI [of _ "fat32_buf s"], simp,
      rule exI [of _ "f_ata s"], rule exI [of _ b], simp, rule exI [of _ a], rule exI [of _ "fat32_buf s"], simp)

lemma f_ler_ok:
  assumes "disco s d" "l < 2 ^ 28"
  obtains s' where "f_ler l s = (0, s')" "disco s' d" "mesmo s s'" "fat32_buf s' = d l" "length (d l) = 512"
proof -
  have h: "disp0 (f_ata s) d" "length (fat32_buf s) = 512" using assms(1) by (simp_all add: disco_def)
  obtain a where a: "ata_ler l 1 (fat32_buf s) (f_ata s) = (0, d l, a)" "disp0 a d"
    using d0.ler_lei [OF h(1) assms(2) h(2)] by blast
  have l: "length (d l) = 512" using d0.tamanho [OF h(1)] .
  let ?s = "s\<lparr>fat32_buf := d l, f_ata := a\<rparr>"
  have "mesmo s ?s" unfolding mesmo_def by (intro exI [of _ a] exI [of _ "d l"]) simp
  then show thesis using that [of ?s] a l by (simp add: f_ler_def disco_def)
qed

lemma f_gravar_ok:
  assumes "disco s d" "l < 2 ^ 28"
  obtains s' where "f_gravar l s = (0, s')" "disco s' (d(l := fat32_buf s))" "mesmo s s'" "fat32_buf s' = fat32_buf s"
proof -
  have h: "disp0 (f_ata s) d" "length (fat32_buf s) = 512" using assms(1) by (simp_all add: disco_def)
  obtain a where a: "ata_gravar l 1 (fat32_buf s) (f_ata s) = (0, a)" "disp0 a (d(l := fat32_buf s))"
    using d0.gravar_lei [OF h(1) assms(2) h(2)] by blast
  then show thesis using that [of "s\<lparr>f_ata := a\<rparr>"] h by (simp add: f_gravar_def disco_def)
qed

section \<open>Geometry\<close>

definition geo_ok :: "fat \<Rightarrow> bool" where
  "geo_ok s \<longleftrightarrow> f_inicializado s \<and> 0 < unat (f_spc s) \<and> unat (f_total s) + 2 < 0x0FFFFFF8 \<and>
     unat (f_fat_lba s) + (unat (f_total s) + 2) div 128 < unat (f_data_lba s) \<and>
     unat (f_data_lba s) + unat (f_total s) * unat (f_spc s) < 2 ^ 28"

definition valido :: "fat \<Rightarrow> u32 \<Rightarrow> bool" where
  "valido s c \<longleftrightarrow> 2 \<le> unat c \<and> unat c < unat (f_total s) + 2"

definition fat_val :: "fat \<Rightarrow> (u32 \<Rightarrow> setor) \<Rightarrow> u32 \<Rightarrow> u32" where
  "fat_val s d c = rd32 (d (fat_setor s c)) (fat_desloc c) AND 0x0FFFFFFF"

definition set_cl :: "fat \<Rightarrow> u32 \<Rightarrow> nat \<Rightarrow> u32" where "set_cl s c i = cluster_to_lba s c + of_nat i"

lemma geo_mesmo: "mesmo s s' \<Longrightarrow> geo_ok s' = geo_ok s" "mesmo s s' \<Longrightarrow> valido s' c = valido s c"
  "mesmo s s' \<Longrightarrow> fat_val s' = fat_val s" "mesmo s s' \<Longrightarrow> set_cl s' = set_cl s"
  "mesmo s s' \<Longrightarrow> fat_setor s' = fat_setor s" "mesmo s s' \<Longrightarrow> cluster_to_lba s' = cluster_to_lba s"
  by (simp_all add: geo_ok_def valido_def fat_val_def set_cl_def fat_setor_def cluster_to_lba_def mesmo_campos fun_eq_iff)

lemma fat_lugar:
  assumes "geo_ok s" "valido s c"
  shows "unat (fat_setor s c) = unat (f_fat_lba s) + unat c div 128" and "fat_desloc c = 4 * (unat c mod 128)"
    and "unat (fat_setor s c) < unat (f_data_lba s)" and "fat_setor s c < 2 ^ 28" and "c < FAT32_EOF" and "c \<noteq> 0"
proof -
  have c: "unat c < 0x0FFFFFF8" "2 \<le> unat c" using assms by (simp_all add: geo_ok_def valido_def)
  have m: "unat (c * 4) = unat c * 4"
    using c(1) by (subst unat_mult_lem [THEN iffD1]) simp_all
  have dv: "unat (c * 4 div 512) = unat c div 128"
  proof -
    have "unat (c * 4 div 512) = unat c * 4 div 512" by (simp add: unat_div m)
    also have "\<dots> = unat c div 128" by (simp add: div_mult2_eq [of _ 4 128, simplified])
    finally show ?thesis .
  qed
  have le: "unat c div 128 \<le> (unat (f_total s) + 2) div 128" using assms(2) by (intro div_le_mono) (simp add: valido_def)
  then have b: "unat (f_fat_lba s) + unat c div 128 < unat (f_data_lba s)" using assms(1) by (simp add: geo_ok_def)
  have "unat (f_data_lba s) < 2 ^ 28" using assms(1) by (simp add: geo_ok_def)
  then show s: "unat (fat_setor s c) = unat (f_fat_lba s) + unat c div 128"
    using b dv unfolding fat_setor_def by (subst unat_add_lem [THEN iffD1]) simp_all
  show "unat (fat_setor s c) < unat (f_data_lba s)" using s b by simp
  then show "fat_setor s c < 2 ^ 28" using \<open>unat (f_data_lba s) < 2 ^ 28\<close> by (simp add: word_less_nat_alt)
  show "fat_desloc c = 4 * (unat c mod 128)"
    unfolding fat_desloc_def using mult_mod_right [of 4 "unat c" 128] by (simp add: unat_mod m mult.commute)
  show "c < FAT32_EOF" using c(1) by (simp add: FAT32_EOF_def word_less_nat_alt)
  show "c \<noteq> 0" using c(2) by auto
qed

lemma fat_lugar_inj:
  assumes "geo_ok s" "valido s c" "valido s e" "fat_setor s c = fat_setor s e" "c \<noteq> e"
  shows "fat_desloc c + 4 \<le> fat_desloc e \<or> fat_desloc e + 4 \<le> fat_desloc c"
proof -
  have "unat c div 128 = unat e div 128"
    using fat_lugar(1) [OF assms(1,2)] fat_lugar(1) [OF assms(1,3)] assms(4) by simp
  moreover have "unat c \<noteq> unat e" using assms(5) unat_eq_iff by blast
  ultimately have "unat c mod 128 \<noteq> unat e mod 128" by (metis div_mult_mod_eq)
  then show ?thesis using fat_lugar(2) [OF assms(1,2)] fat_lugar(2) [OF assms(1,3)] by linarith
qed

lemma cl_lugar:
  assumes "geo_ok s" "valido s c" "i < unat (f_spc s)"
  shows "unat (set_cl s c i) = unat (f_data_lba s) + (unat c - 2) * unat (f_spc s) + i" and "set_cl s c i < 2 ^ 28"
proof -
  let ?k = "unat (f_spc s)" and ?T = "unat (f_total s)"
  have c: "2 \<le> unat c" "unat c - 2 < ?T" using assms(2) by (auto simp: valido_def)
  have t: "unat (f_data_lba s) + ?T * ?k < 2 ^ 28" using assms(1) by (simp add: geo_ok_def)
  have "Suc (unat c - 2) * ?k \<le> ?T * ?k" using c(2) by (intro mult_le_mono1) simp
  then have le: "(unat c - 2) * ?k + ?k \<le> ?T * ?k" by simp
  have k: "unat (ucast (f_spc s) :: u32) = ?k" by simp
  have c2: "unat (c - 2) = unat c - 2" using c(1) by (subst unat_sub) (simp_all add: word_le_nat_alt)
  have m: "unat ((c - 2) * ucast (f_spc s)) = (unat c - 2) * ?k"
    using le t by (subst unat_mult_lem [THEN iffD1]) (simp_all add: c2)
  have a: "unat (cluster_to_lba s c) = unat (f_data_lba s) + (unat c - 2) * ?k"
    unfolding cluster_to_lba_def using le t m by (subst unat_add_lem [THEN iffD1]) simp_all
  show u: "unat (set_cl s c i) = unat (f_data_lba s) + (unat c - 2) * ?k + i"
    unfolding set_cl_def using a le t assms(3) by (subst unat_mais) simp_all
  show "set_cl s c i < 2 ^ 28" using u le t assms(3) by (simp add: word_less_nat_alt)
qed

lemma cl_inj:
  assumes "geo_ok s" "valido s c" "valido s e" "i < unat (f_spc s)" "j < unat (f_spc s)" "set_cl s c i = set_cl s e j"
  shows "c = e \<and> i = j"
proof -
  have e: "(unat c - 2) * unat (f_spc s) + i = (unat e - 2) * unat (f_spc s) + j"
    using cl_lugar(1) [OF assms(1,2,4)] cl_lugar(1) [OF assms(1,3,5)] assms(6) by simp
  have "unat c - 2 = unat e - 2 \<and> i = j"
  proof -
    have "((unat c - 2) * unat (f_spc s) + i) div unat (f_spc s) = unat c - 2" "((unat e - 2) * unat (f_spc s) + j) div unat (f_spc s) = unat e - 2"
      using assms(4,5) by simp_all
    then show ?thesis using e by simp
  qed
  then show ?thesis using assms(2,3) unat_eq_iff [of c e] by (auto simp: valido_def)
qed

lemma cl_nao_fat:
  assumes "geo_ok s" "valido s c" "valido s e" "i < unat (f_spc s)"
  shows "set_cl s c i \<noteq> fat_setor s e"
  using cl_lugar(1) [OF assms(1,2,4)] fat_lugar(3) [OF assms(1,3)] by auto

section \<open>The FAT\<close>

lemma read_fat_ok:
  assumes "geo_ok s" "disco s d" "valido s c"
  obtains s' where "fat32_read_fat c s = (fat_val s d c, s')" "disco s' d" "mesmo s s'"
proof -
  obtain s' where s': "f_ler (fat_setor s c) s = (0, s')" "disco s' d" "mesmo s s'" "fat32_buf s' = d (fat_setor s c)"
    using f_ler_ok [OF assms(2) fat_lugar(4) [OF assms(1,3)]] by blast
  then show thesis using that by (simp add: fat32_read_fat_def fat_val_def)
qed

text \<open>\<open>fat_muda s d d' f\<close>: from \<open>d\<close> to \<open>d'\<close> the FAT became \<open>f\<close> and nothing outside the FAT changed.\<close>

definition fat_muda :: "fat \<Rightarrow> (u32 \<Rightarrow> setor) \<Rightarrow> (u32 \<Rightarrow> setor) \<Rightarrow> (u32 \<Rightarrow> u32) \<Rightarrow> bool" where
  "fat_muda s d d' f \<longleftrightarrow> (\<forall>c. valido s c \<longrightarrow> fat_val s d' c = f c) \<and>
     (\<forall>c i. valido s c \<longrightarrow> i < unat (f_spc s) \<longrightarrow> d' (set_cl s c i) = d (set_cl s c i))"

lemma write_fat_ok:
  assumes "geo_ok s" "disco s d" "valido s c"
  obtains s' d' where "fat32_write_fat_entry c v s = (0, s')" "disco s' d'" "mesmo s s'"
    "fat_muda s d d' ((fat_val s d)(c := v AND 0x0FFFFFFF))"
proof -
  let ?l = "fat_setor s c" and ?o = "fat_desloc c" and ?v = "v AND 0x0FFFFFFF"
  note l28 = fat_lugar(4) [OF assms(1,3)]
  obtain s1 where s1: "f_ler ?l s = (0, s1)" "disco s1 d" "mesmo s s1" "fat32_buf s1 = d ?l" "length (d ?l) = 512"
    using f_ler_ok [OF assms(2) l28] .
  define b where "b = splice (d ?l) ?o (le32 ?v)"
  have o': "?o + 4 \<le> 512" using fat_lugar(2) [OF assms(1,3)] by simp
  then have lb: "length b = 512" using s1(5) by (simp add: b_def)
  let ?s1 = "s1\<lparr>fat32_buf := b\<rparr>"
  have d1: "disco ?s1 d" using s1(2) lb by (simp add: disco_def)
  obtain s2 where s2: "f_gravar ?l ?s1 = (0, s2)" "disco s2 (d(?l := b))" "mesmo ?s1 s2"
    using f_gravar_ok [OF d1 l28] by auto
  have e: "fat_setor s1 c = ?l" using geo_mesmo(5) [OF s1(3)] by simp
  have "fat32_write_fat_entry c v s = (0, s2)"
    using s1(1,4) s2(1) by (simp add: fat32_write_fat_entry_def Let_def b_def fat_setor_def mesmo_campos [OF s1(3)])
  moreover have "mesmo s s2" using mesmo_trans [OF mesmo_trans [OF s1(3) mesmo_refl(2)] s2(3)] .
  moreover have "fat_muda s d (d(?l := b)) ((fat_val s d)(c := ?v))"
    unfolding fat_muda_def
  proof (intro conjI allI impI)
    fix e assume e: "valido s e"
    show "fat_val s (d(?l := b)) e = ((fat_val s d)(c := ?v)) e"
    proof (cases "e = c")
      case True
      then show ?thesis using o' s1(5) by (simp add: fat_val_def b_def rd32_splice_same and.assoc)
    next
      case False
      show ?thesis
      proof (cases "fat_setor s e = ?l")
        case True
        then have "fat_desloc e + 4 \<le> ?o \<or> ?o + length (le32 ?v) \<le> fat_desloc e"
          using fat_lugar_inj [OF assms(1) e assms(3)] False by simp
        moreover have "fat_desloc e + 4 \<le> 512" using fat_lugar(2) [OF assms(1) e] by simp
        ultimately show ?thesis using False True o' s1(5) by (simp add: fat_val_def b_def rd32_splice_other)
      qed (use False in \<open>simp add: fat_val_def\<close>)
    qed
  next
    fix e i assume "valido s e" "i < unat (f_spc s)"
    then show "(d(?l := b)) (set_cl s e i) = d (set_cl s e i)" using cl_nao_fat [OF assms(1) _ assms(3)] by simp
  qed
  ultimately show thesis using that s2(2) by blast
qed

definition livres_fat :: "fat \<Rightarrow> (u32 \<Rightarrow> setor) \<Rightarrow> u32 set" where
  "livres_fat s d = {c. valido s c \<and> fat_val s d c = 0}"

lemma alloc_loop_ok:
  assumes "geo_ok s" "disco s d" "2 \<le> unat c" "unat c + n = unat (f_total s) + 2" "\<exists>e. unat c \<le> unat e \<and> e \<in> livres_fat s d"
  shows "\<exists>e s' d'. alloc_loop n c s = (e, s') \<and> e \<in> livres_fat s d \<and> disco s' d' \<and> mesmo s s' \<and>
    fat_muda s d d' ((fat_val s d)(e := 0x0FFFFFFF))"
  using assms
proof (induction n arbitrary: c s)
  case 0
  then show ?case by (auto simp: livres_fat_def valido_def)
next
  case (Suc n)
  have v: "valido s c" using Suc.prems(3,4) by (simp add: valido_def)
  obtain s1 where s1: "fat32_read_fat c s = (fat_val s d c, s1)" "disco s1 d" "mesmo s s1"
    using read_fat_ok [OF Suc.prems(1,2) v] .
  note g = geo_mesmo [OF s1(3)]
  show ?case
  proof (cases "fat_val s d c = 0")
    case True
    obtain s2 d2 where s2: "fat32_write_fat_entry c 0x0FFFFFFF s1 = (0, s2)" "disco s2 d2" "mesmo s1 s2"
      "fat_muda s1 d d2 ((fat_val s1 d)(c := 0x0FFFFFFF AND 0x0FFFFFFF))"
      using write_fat_ok [of s1 d c "0x0FFFFFFF"] Suc.prems(1) s1(2) v g by metis
    have "fat_muda s d d2 ((fat_val s d)(c := 0x0FFFFFFF))"
      using s2(4) by (simp add: fat_muda_def g mesmo_campos [OF s1(3)])
    then show ?thesis using True s1(1) s2 mesmo_trans [OF s1(3) s2(3)] v
      by (intro exI [of _ c] exI [of _ s2] exI [of _ d2]) (simp add: livres_fat_def del: fun_upd_apply)
  next
    case False
    have c1: "unat (c + 1) = unat c + 1"
      using Suc.prems(1,4) unat_mais [of c 1] by (simp add: geo_ok_def)
    obtain e where e: "unat c \<le> unat e" "e \<in> livres_fat s d" using Suc.prems(5) by blast
    have "e \<noteq> c" using e(2) False by (auto simp: livres_fat_def)
    then have "unat (c + 1) \<le> unat e" using e(1) c1 unat_eq_iff [of c e] by simp
    moreover have lf: "livres_fat s1 d = livres_fat s d" by (simp add: livres_fat_def g)
    ultimately have "\<exists>e s' d'. alloc_loop n (c + 1) s1 = (e, s') \<and> e \<in> livres_fat s1 d \<and> disco s' d' \<and> mesmo s1 s' \<and>
        fat_muda s1 d d' ((fat_val s1 d)(e := 0x0FFFFFFF))"
      using Suc.prems(1,3,4) c1 s1(2) e(2) g(1) by (intro Suc.IH) (auto simp: mesmo_campos [OF s1(3)])
    then obtain e s' d' where r: "alloc_loop n (c + 1) s1 = (e, s')" "e \<in> livres_fat s1 d" "disco s' d'" "mesmo s1 s'"
        "fat_muda s1 d d' ((fat_val s1 d)(e := 0x0FFFFFFF))" by blast
    have "fat_muda s d d' ((fat_val s d)(e := 0x0FFFFFFF))" using r(5) by (simp add: fat_muda_def g mesmo_campos [OF s1(3)])
    then show ?thesis using False s1(1) r lf mesmo_trans [OF s1(3) r(4)]
      by (intro exI [of _ e] exI [of _ s'] exI [of _ d']) (simp del: fun_upd_apply)
  qed
qed

lemma alloc_cluster_ok:
  assumes "geo_ok s" "disco s d" "livres_fat s d \<noteq> {}"
  obtains e s' d' where "fat32_alloc_cluster s = (e, s')" "e \<in> livres_fat s d" "disco s' d'" "mesmo s s'"
    "fat_muda s d d' ((fat_val s d)(e := 0x0FFFFFFF))"
proof -
  obtain x where x: "x \<in> livres_fat s d" using assms(3) by blast
  then have "2 \<le> unat x" by (simp add: livres_fat_def valido_def)
  moreover have "unat (f_total s + 2) = unat (f_total s) + 2" using assms(1) unat_mais [of "f_total s" 2] by (simp add: geo_ok_def)
  ultimately have "\<exists>e s' d'. alloc_loop (unat (f_total s + 2) - 2) 2 s = (e, s') \<and> e \<in> livres_fat s d \<and> disco s' d' \<and> mesmo s s' \<and>
      fat_muda s d d' ((fat_val s d)(e := 0x0FFFFFFF))"
    using x by (intro alloc_loop_ok [OF assms(1,2)]) auto
  then show thesis using that assms(1) by (auto simp: fat32_alloc_cluster_def geo_ok_def)
qed

section \<open>The data of a cluster\<close>

definition cl_parte :: "fat \<Rightarrow> (u32 \<Rightarrow> setor) \<Rightarrow> u32 \<Rightarrow> nat \<Rightarrow> u8 list" where
  "cl_parte s d c k = concat (map (\<lambda>i. d (set_cl s c i)) [k..<unat (f_spc s)])"

definition cl_dados :: "fat \<Rightarrow> (u32 \<Rightarrow> setor) \<Rightarrow> u32 \<Rightarrow> u8 list" where "cl_dados s d c = cl_parte s d c 0"

definition cl_bytes :: "fat \<Rightarrow> nat" where "cl_bytes s = 512 * unat (f_spc s)"

lemma disco_tamanho: "disco s d \<Longrightarrow> length (d l) = 512"
  using d0.tamanho by (auto simp: disco_def)

lemma length_cl_parte: "disco s d \<Longrightarrow> length (cl_parte s d c k) = 512 * (unat (f_spc s) - k)"
  by (simp add: cl_parte_def length_concat o_def disco_tamanho sum_list_triv)

lemma cl_parte_passo: "k < unat (f_spc s) \<Longrightarrow> cl_parte s d c k = d (set_cl s c k) @ cl_parte s d c (Suc k)"
  by (simp add: cl_parte_def upt_conv_Cons)

lemma set_cl_Suc: "set_cl s c k + 1 = set_cl s c (Suc k)" by (simp add: set_cl_def)

text \<open>The chunk of one sector.\<close>

lemma pedaco:
  assumes "escr < tam"
  defines "chunk \<equiv> (if 512 < tam - escr then 512 else tam - escr) :: u32"
  shows "unat chunk = min 512 (unat tam - unat escr)" and "unat (escr + chunk) = unat escr + unat chunk" and "unat (escr + chunk) \<le> unat tam"
proof -
  have e: "unat escr < unat tam" using assms(1) by (simp add: word_less_nat_alt)
  have s: "unat (tam - escr) = unat tam - unat escr" using e by (subst unat_sub) (simp_all add: word_le_nat_alt)
  show c: "unat chunk = min 512 (unat tam - unat escr)" using s by (simp add: chunk_def word_less_nat_alt)
  have "unat escr + unat chunk \<le> unat tam" using c e by simp
  moreover have "unat tam < 2 ^ 32" using unsigned_less [of tam] by simp
  ultimately show "unat (escr + chunk) = unat escr + unat chunk" by (subst unat_add_lem [THEN iffD1]) simp_all
  with \<open>unat escr + unat chunk \<le> unat tam\<close> show "unat (escr + chunk) \<le> unat tam" by simp
qed

lemma write_cluster_ok:
  assumes "geo_ok s" "disco s d" "valido s c" "k + n = unat (f_spc s)" "escr \<le> tam" "unat tam \<le> length buf"
  shows "\<exists>e' s' d'. write_cluster n (set_cl s c k) buf tam escr s = (Some e', s') \<and> unat e' = min (unat tam) (unat escr + 512 * n) \<and>
    disco s' d' \<and> mesmo s s' \<and> (\<forall>l. (\<forall>i. k \<le> i \<longrightarrow> i < unat (f_spc s) \<longrightarrow> l \<noteq> set_cl s c i) \<longrightarrow> d' l = d l) \<and>
    take (unat e' - unat escr) (cl_parte s d' c k) = slice buf (unat escr) (unat e' - unat escr)"
  using assms
proof (induction n arbitrary: k escr s d)
  case 0
  then show ?case by (intro exI [of _ escr] exI [of _ s] exI [of _ d]) (simp add: slice_def word_le_nat_alt min_absorb2)
next
  case (Suc n)
  have le: "unat escr \<le> unat tam" using Suc.prems(5) by (simp add: word_le_nat_alt)
  show ?case
  proof (cases "escr < tam")
    case False
    then have "escr = tam" using Suc.prems(5) by simp
    then show ?thesis using Suc.prems(2) by (intro exI [of _ escr] exI [of _ s] exI [of _ d]) (simp add: slice_def)
  next
    case True
    define ch where "ch = (if 512 < tam - escr then 512 else tam - escr)"
    note P = pedaco [OF True, folded ch_def]
    define sec where "sec = splice (replicate 512 0) 0 (slice buf (unat escr) (unat ch))"
    have lch: "unat ch \<le> 512" "unat escr + unat ch \<le> length buf" using P Suc.prems(6) by simp_all
    have sec: "sec = slice buf (unat escr) (unat ch) @ replicate (512 - unat ch) 0" "length sec = 512"
      using lch by (simp_all add: sec_def splice_def slice_def min_absorb2)
    let ?l = "set_cl s c k" and ?s1 = "s\<lparr>fat32_buf := sec\<rparr>"
    have k: "k < unat (f_spc s)" using Suc.prems(4) by simp
    have d1: "disco ?s1 d" using Suc.prems(2) sec(2) by (simp add: disco_def)
    obtain s2 where s2: "f_gravar ?l ?s1 = (0, s2)" "disco s2 (d(?l := sec))" "mesmo ?s1 s2"
      using f_gravar_ok [OF d1 cl_lugar(2) [OF Suc.prems(1,3) k]] by auto
    have m: "mesmo s s2" using mesmo_trans [OF mesmo_refl(2) s2(3)] .
    note g = geo_mesmo [OF m] mesmo_campos(1) [OF m]
    have "\<exists>e' s' d'. write_cluster n (set_cl s2 c (Suc k)) buf tam (escr + ch) s2 = (Some e', s') \<and> unat e' = min (unat tam) (unat (escr + ch) + 512 * n) \<and>
        disco s' d' \<and> mesmo s2 s' \<and> (\<forall>l. (\<forall>i. Suc k \<le> i \<longrightarrow> i < unat (f_spc s2) \<longrightarrow> l \<noteq> set_cl s2 c i) \<longrightarrow> d' l = (d(?l := sec)) l) \<and>
        take (unat e' - unat (escr + ch)) (cl_parte s2 d' c (Suc k)) = slice buf (unat (escr + ch)) (unat e' - unat (escr + ch))"
      using Suc.prems P(3) by (intro Suc.IH [OF _ s2(2)]) (simp_all add: g word_le_nat_alt)
    then obtain e' s' d' where r: "write_cluster n (set_cl s c (Suc k)) buf tam (escr + ch) s2 = (Some e', s')"
        "unat e' = min (unat tam) (unat (escr + ch) + 512 * n)" "disco s' d'" "mesmo s2 s'"
        "\<forall>l. (\<forall>i. Suc k \<le> i \<longrightarrow> i < unat (f_spc s) \<longrightarrow> l \<noteq> set_cl s c i) \<longrightarrow> d' l = (d(?l := sec)) l"
        "take (unat e' - unat (escr + ch)) (cl_parte s d' c (Suc k)) = slice buf (unat (escr + ch)) (unat e' - unat (escr + ch))"
      by (auto simp: g cl_parte_def)
    have e': "unat e' = min (unat tam) (unat escr + 512 * Suc n)" using r(2) P le by (auto simp: min_def)
    have "d' ?l = sec"
      using r(5) cl_inj [OF Suc.prems(1,3,3) k] by fastforce
    then have part: "cl_parte s d' c k = sec @ cl_parte s d' c (Suc k)" using cl_parte_passo [OF k] by simp
    have t: "take (unat e' - unat escr) (cl_parte s d' c k) = slice buf (unat escr) (unat e' - unat escr)"
    proof (cases "unat ch = 512")
      case True
      define M where "M = unat e' - unat (escr + ch)"
      have u: "unat (escr + ch) = unat escr + 512" using P(2) True by simp
      have h: "unat e' - unat escr = 512 + M" using P(3) r(2) u by (simp add: M_def)
      have x: "take (512 + M) (sec @ r') = sec @ take M r'" for r' using sec(2) by simp
      have y: "take M (cl_parte s d' c (Suc k)) = slice buf (unat escr + 512) M" using r(6) by (simp only: M_def u)
      have z: "sec = slice buf (unat escr) 512" using sec(1) True by simp
      show ?thesis unfolding part h x y slice_join [symmetric] using z by (rule arg_cong)
    next
      case False
      then have c: "unat ch = unat tam - unat escr" using P(1) by (auto simp: min_def split: if_splits)
      then have "unat (escr + ch) = unat tam" using P(2) le by simp
      then have "unat e' = unat tam" using r(2) by simp
      then have n: "unat e' - unat escr = unat ch" using c by simp
      have "length (slice buf (unat escr) (unat ch)) = unat ch" using lch(2) by simp
      then show ?thesis unfolding part sec(1) n by simp
    qed
    have f: "d' l = d l" if "\<forall>i. k \<le> i \<longrightarrow> i < unat (f_spc s) \<longrightarrow> l \<noteq> set_cl s c i" for l
      using r(5) that k by (metis Suc_leD fun_upd_apply order_refl)
    have "write_cluster (Suc n) ?l buf tam escr s = (Some e', s')"
      using True s2(1) r(1) by (simp add: Let_def ch_def sec_def set_cl_Suc)
    then show ?thesis using e' r(3) mesmo_trans [OF m r(4)] t f by blast
  qed
qed

lemma read_cluster_ok:
  assumes "geo_ok s" "disco s d" "valido s c" "k + n = unat (f_spc s)" "lidos \<le> tam" "unat tam \<le> length buf"
  shows "\<exists>e' s'. read_cluster n (set_cl s c k) tam lidos buf s =
      (Some e', splice buf (unat lidos) (take (unat tam - unat lidos) (cl_parte s d c k)), s') \<and>
    unat e' = min (unat tam) (unat lidos + 512 * n) \<and> disco s' d \<and> mesmo s s'"
  using assms
proof (induction n arbitrary: k lidos buf s)
  case 0
  then have "unat lidos \<le> length buf" by (simp add: word_le_nat_alt)
  then show ?case using 0 by (intro exI [of _ lidos] exI [of _ s]) (simp add: cl_parte_def splice_def word_le_nat_alt min_absorb2)
next
  case (Suc n)
  have le: "unat lidos \<le> unat tam" using Suc.prems(5) by (simp add: word_le_nat_alt)
  show ?case
  proof (cases "lidos < tam")
    case False
    then have "lidos = tam" using Suc.prems(5) by simp
    then show ?thesis using Suc.prems(2,6) by (intro exI [of _ lidos] exI [of _ s]) (simp add: splice_def)
  next
    case True
    define ch where "ch = (if 512 < tam - lidos then 512 else tam - lidos)"
    have ch2: "(if tam - lidos < 512 then tam - lidos else 512) = ch" by (auto simp: ch_def not_less)
    note P = pedaco [OF True, folded ch_def]
    let ?l = "set_cl s c k"
    have k: "k < unat (f_spc s)" using Suc.prems(4) by simp
    obtain s2 where s2: "f_ler ?l s = (0, s2)" "disco s2 d" "mesmo s s2" "fat32_buf s2 = d ?l" "length (d ?l) = 512"
      using f_ler_ok [OF Suc.prems(2) cl_lugar(2) [OF Suc.prems(1,3) k]] .
    note g = geo_mesmo [OF s2(3)] mesmo_campos(1) [OF s2(3)]
    define b1 where "b1 = splice buf (unat lidos) (take (unat ch) (d ?l))"
    have lch: "unat ch \<le> 512" "unat lidos + unat ch \<le> length buf" using P Suc.prems(6) by simp_all
    have lb: "length b1 = length buf" using lch s2(5) by (simp add: b1_def)
    have "\<exists>e' s'. read_cluster n (set_cl s2 c (Suc k)) tam (lidos + ch) b1 s2 =
        (Some e', splice b1 (unat (lidos + ch)) (take (unat tam - unat (lidos + ch)) (cl_parte s2 d c (Suc k))), s') \<and>
        unat e' = min (unat tam) (unat (lidos + ch) + 512 * n) \<and> disco s' d \<and> mesmo s2 s'"
      using Suc.prems P(3) by (intro Suc.IH [OF _ s2(2)]) (simp_all add: g lb word_le_nat_alt)
    then obtain e' s' where r: "read_cluster n (set_cl s c (Suc k)) tam (lidos + ch) b1 s2 =
        (Some e', splice b1 (unat (lidos + ch)) (take (unat tam - unat (lidos + ch)) (cl_parte s d c (Suc k))), s')"
        "unat e' = min (unat tam) (unat (lidos + ch) + 512 * n)" "disco s' d" "mesmo s2 s'"
      by (auto simp: g cl_parte_def)
    have sp: "splice b1 (unat (lidos + ch)) (take (unat tam - unat (lidos + ch)) (cl_parte s d c (Suc k))) =
        splice buf (unat lidos) (take (unat tam - unat lidos) (cl_parte s d c k))"
    proof -
      let ?R = "take (unat tam - unat (lidos + ch)) (cl_parte s d c (Suc k))"
      have a: "take (unat tam - unat lidos) (cl_parte s d c k) = take (unat ch) (d ?l) @ ?R"
        using P s2(5) by (simp add: cl_parte_passo [OF k] min_def split: if_splits)
      have "length (take (unat ch) (d ?l)) = unat ch" using lch(1) s2(5) by simp
      moreover have "length ?R \<le> unat tam - unat (lidos + ch)" by simp
      then have "unat lidos + unat ch + length ?R \<le> length buf" using P(2,3) Suc.prems(6) by linarith
      ultimately show ?thesis using splice_join [of "unat lidos" "take (unat ch) (d ?l)" ?R buf] P(2) by (simp add: a b1_def)
    qed
    have "tam - lidos \<noteq> 0" using True by auto
    then have "read_cluster (Suc n) ?l tam lidos buf s = (Some e', splice buf (unat lidos) (take (unat tam - unat lidos) (cl_parte s d c k)), s')"
      using s2(1,4) r(1) [unfolded sp] by (simp add: Let_def ch2 b1_def [symmetric] set_cl_Suc)
    moreover have "unat e' = min (unat tam) (unat lidos + 512 * Suc n)" using r(2) P le by (auto simp: min_def)
    ultimately show ?thesis using r(3) mesmo_trans [OF s2(3) r(4)] by blast
  qed
qed

section \<open>Chains\<close>

fun cad :: "fat \<Rightarrow> (u32 \<Rightarrow> setor) \<Rightarrow> u32 \<Rightarrow> u32 list \<Rightarrow> bool" where
  "cad s d c [] \<longleftrightarrow> FAT32_EOF \<le> c"
| "cad s d c (x # xs) \<longleftrightarrow> x = c \<and> valido s c \<and> cad s d (fat_val s d c) xs"

definition dados :: "fat \<Rightarrow> (u32 \<Rightarrow> setor) \<Rightarrow> u32 list \<Rightarrow> u8 list" where
  "dados s d cs = concat (map (cl_dados s d) cs)"

lemma length_cl_dados: "disco s d \<Longrightarrow> length (cl_dados s d c) = cl_bytes s"
  by (simp add: cl_dados_def length_cl_parte cl_bytes_def)

lemma length_dados: "disco s d \<Longrightarrow> length (dados s d cs) = length cs * cl_bytes s"
  by (induction cs) (simp_all add: dados_def length_cl_dados)

lemma cad_mesmo: "mesmo s s' \<Longrightarrow> cad s' d c cs = cad s d c cs"
  by (induction cs arbitrary: c) (simp_all add: geo_mesmo)

lemma cl_dados_mesmo: "mesmo s s' \<Longrightarrow> cl_dados s' = cl_dados s"
  by (simp add: cl_dados_def cl_parte_def fun_eq_iff geo_mesmo mesmo_campos)

lemma dados_mesmo: "mesmo s s' \<Longrightarrow> cl_dados s' = cl_dados s" "mesmo s s' \<Longrightarrow> dados s' d cs = dados s d cs" "mesmo s s' \<Longrightarrow> cl_bytes s' = cl_bytes s"
  by (simp_all add: dados_def cl_dados_mesmo mesmo_campos cl_bytes_def)

lemma cad_validos: "cad s d c cs \<Longrightarrow> \<forall>x \<in> set cs. valido s x"
  by (induction cs arbitrary: c) auto

text \<open>Reading along a chain.\<close>

lemma read_loop_ok:
  assumes "geo_ok s" "disco s d" "cad s d c cs" "lidos \<le> tam" "unat tam \<le> length buf"
  shows "\<exists>e s'. read_loop c tam lidos buf s = Some ((Some e, splice buf (unat lidos) (take (unat tam - unat lidos) (dados s d cs))), s') \<and>
    unat e = min (unat tam) (unat lidos + length cs * cl_bytes s) \<and> disco s' d \<and> mesmo s s'"
  using assms
proof (induction cs arbitrary: c lidos buf s)
  case Nil
  then have "unat lidos \<le> length buf" "\<not> c < FAT32_EOF" by (simp_all add: word_le_nat_alt not_less)
  then show ?case using Nil by (intro exI [of _ lidos] exI [of _ s], subst read_loop.simps)
      (simp add: dados_def splice_def word_le_nat_alt min_absorb2)
next
  case (Cons x xs)
  have v: "valido s c" "x = c" and ch: "cad s d (fat_val s d c) xs" using Cons.prems(3) by simp_all
  have le: "unat lidos \<le> unat tam" using Cons.prems(4) by (simp add: word_le_nat_alt)
  show ?case
  proof (cases "lidos < tam")
    case False
    then have "lidos = tam" using Cons.prems(4) by simp
    then show ?thesis using Cons.prems(2,5) by (intro exI [of _ lidos] exI [of _ s], subst read_loop.simps) (simp add: splice_def)
  next
    case True
    let ?D = "cl_dados s d c"
    have lba: "cluster_to_lba s c = set_cl s c 0" by (simp add: set_cl_def)
    obtain e1 s1 where r1: "read_cluster (unat (f_spc s)) (cluster_to_lba s c) tam lidos buf s =
        (Some e1, splice buf (unat lidos) (take (unat tam - unat lidos) ?D), s1)"
      "unat e1 = min (unat tam) (unat lidos + cl_bytes s)" "disco s1 d" "mesmo s s1"
      using read_cluster_ok [OF Cons.prems(1,2) v(1), of 0 "unat (f_spc s)" lidos tam buf] Cons.prems(4,5)
      by (auto simp: lba cl_dados_def cl_bytes_def)
    let ?b1 = "splice buf (unat lidos) (take (unat tam - unat lidos) ?D)"
    have lD: "length ?D = cl_bytes s" using length_cl_dados [OF Cons.prems(2)] .
    have lb: "length ?b1 = length buf" using Cons.prems(5) le by simp
    note g = geo_mesmo [OF r1(4)] mesmo_campos(1) [OF r1(4)] cad_mesmo [OF r1(4)] dados_mesmo [OF r1(4)]
    obtain s2 where s2: "fat32_read_fat c s1 = (fat_val s1 d c, s2)" "disco s2 d" "mesmo s1 s2"
      using read_fat_ok [of s1 d c] Cons.prems(1) r1(3) v(1) g by auto
    have m2: "mesmo s s2" using mesmo_trans [OF r1(4) s2(3)] .
    note g2 = geo_mesmo [OF m2] mesmo_campos(1) [OF m2] cad_mesmo [OF m2] dados_mesmo [OF m2]
    have "e1 \<le> tam" using r1(2) by (simp add: word_le_nat_alt)
    then have "\<exists>e s'. read_loop (fat_val s d c) tam e1 ?b1 s2 = Some ((Some e, splice ?b1 (unat e1) (take (unat tam - unat e1) (dados s2 d xs))), s') \<and>
        unat e = min (unat tam) (unat e1 + length xs * cl_bytes s2) \<and> disco s' d \<and> mesmo s2 s'"
      using Cons.prems(1,5) ch lb s2(2) by (intro Cons.IH) (simp_all add: g2)
    then obtain e s' where r: "read_loop (fat_val s d c) tam e1 ?b1 s2 = Some ((Some e, splice ?b1 (unat e1) (take (unat tam - unat e1) (dados s d xs))), s')"
        "unat e = min (unat tam) (unat e1 + length xs * cl_bytes s)" "disco s' d" "mesmo s2 s'" by (auto simp: g2)
    have sp: "splice ?b1 (unat e1) (take (unat tam - unat e1) (dados s d xs)) =
        splice buf (unat lidos) (take (unat tam - unat lidos) (dados s d (x # xs)))"
    proof -
      let ?A = "take (unat tam - unat lidos) ?D" and ?R = "take (unat tam - unat e1) (dados s d xs)"
      have lA: "unat lidos + length ?A = unat e1" using r1(2) lD le by (auto simp: min_def)
      have a: "take (unat tam - unat lidos) (dados s d (x # xs)) = ?A @ ?R"
      proof -
        have "take (unat tam - unat lidos) (dados s d (x # xs)) = ?A @ take (unat tam - unat lidos - cl_bytes s) (dados s d xs)"
          using v(2) lD by (simp add: dados_def)
        moreover have "unat tam - unat lidos - cl_bytes s = unat tam - unat e1" using r1(2) by (simp add: min_def)
        ultimately show ?thesis by simp
      qed
      have "length ?R \<le> unat tam - unat e1" by simp
      then have "unat lidos + length ?A + length ?R \<le> length buf"
        unfolding lA using Cons.prems(5) r1(2) by (simp add: min_def split: if_splits)
      from splice_join [OF this] show ?thesis unfolding a lA .
    qed
    have "read_loop c tam lidos buf s = read_loop (fat_val s d c) tam e1 ?b1 s2"
      using True fat_lugar(5) [OF Cons.prems(1) v(1)] r1(1) s2(1) by (subst read_loop.simps) (simp add: g)
    then have "read_loop c tam lidos buf s = Some ((Some e, splice buf (unat lidos) (take (unat tam - unat lidos) (dados s d (x # xs)))), s')"
      unfolding r(1) [unfolded sp] .
    moreover have "unat e = min (unat tam) (unat lidos + length (x # xs) * cl_bytes s)" using r(2) r1(2) by (auto simp: min_def)
    ultimately show ?thesis using r(3) mesmo_trans [OF m2 r(4)] by (intro exI [of _ e] exI [of _ s'] conjI)
  qed
qed

text \<open>Adding a cluster at the end of a chain.\<close>

lemma cad_estende:
  assumes "cad s d c cs" "cs \<noteq> []" "distinct cs" "valido s n"
    and "\<forall>x \<in> set cs. x \<noteq> last cs \<longrightarrow> fat_val s d' x = fat_val s d x" "fat_val s d' (last cs) = n" "FAT32_EOF \<le> fat_val s d' n"
  shows "cad s d' c (cs @ [n])"
  using assms
proof (induction cs arbitrary: c)
  case (Cons x xs)
  show ?case
  proof (cases "xs = []")
    case True
    then show ?thesis using Cons.prems by simp
  next
    case False
    then have "last xs \<in> set xs" by simp
    then have "x \<noteq> last xs" using Cons.prems(3) by auto
    then have f: "fat_val s d' x = fat_val s d x" using Cons.prems(5) False by simp
    have "cad s d' (fat_val s d x) (xs @ [n])" using Cons.prems False by (intro Cons.IH) auto
    then show ?thesis using Cons.prems(1) f by simp
  qed
qed simp

lemma dados_cong: "\<forall>c \<in> set cs. \<forall>i < unat (f_spc s). d' (set_cl s c i) = d (set_cl s c i) \<Longrightarrow> dados s d' cs = dados s d cs"
  unfolding dados_def cl_dados_def cl_parte_def by (intro arg_cong [of _ _ concat] map_cong refl) auto

text \<open>The state between two clusters of a write: the clusters \<open>cs\<close> are linked, end the chain, and hold what was written.\<close>

definition escrito :: "fat \<Rightarrow> (u32 \<Rightarrow> setor) \<Rightarrow> u32 \<Rightarrow> u32 list \<Rightarrow> u8 list \<Rightarrow> u32 \<Rightarrow> u32 \<Rightarrow> bool" where
  "escrito s d first cs buf tam escr \<longleftrightarrow> cad s d first cs \<and> cs \<noteq> [] \<and> distinct cs \<and> fat_val s d (last cs) = 0x0FFFFFFF \<and>
     unat escr = min (unat tam) (length cs * cl_bytes s) \<and> take (unat escr) (dados s d cs) = take (unat escr) buf"

lemma write_um:
  assumes "geo_ok s" "disco s d" "valido s n" "escr < tam" "unat tam \<le> length buf"
  obtains e' s' d' where "write_cluster (unat (f_spc s)) (cluster_to_lba s n) buf tam escr s = (Some e', s')"
    "unat e' = min (unat tam) (unat escr + cl_bytes s)" "disco s' d'" "mesmo s s'" "\<And>c. valido s c \<Longrightarrow> fat_val s d' c = fat_val s d c"
    "\<And>c i. valido s c \<Longrightarrow> c \<noteq> n \<Longrightarrow> i < unat (f_spc s) \<Longrightarrow> d' (set_cl s c i) = d (set_cl s c i)"
    "take (unat e' - unat escr) (cl_dados s d' n) = slice buf (unat escr) (unat e' - unat escr)"
proof -
  have lba: "cluster_to_lba s n = set_cl s n 0" by (simp add: set_cl_def)
  have le: "escr \<le> tam" using assms(4) by simp
  obtain e' s' d' where w: "write_cluster (unat (f_spc s)) (set_cl s n 0) buf tam escr s = (Some e', s')"
      "unat e' = min (unat tam) (unat escr + 512 * unat (f_spc s))" "disco s' d'" "mesmo s s'"
      "\<forall>l. (\<forall>i. 0 \<le> i \<longrightarrow> i < unat (f_spc s) \<longrightarrow> l \<noteq> set_cl s n i) \<longrightarrow> d' l = d l"
      "take (unat e' - unat escr) (cl_parte s d' n 0) = slice buf (unat escr) (unat e' - unat escr)"
    using write_cluster_ok [OF assms(1-3), of 0 "unat (f_spc s)" escr tam buf] le assms(5) by auto
  have f: "fat_val s d' c = fat_val s d c" if "valido s c" for c
  proof -
    have "d' (fat_setor s c) = d (fat_setor s c)" using w(5) cl_nao_fat [OF assms(1,3) that] by metis
    then show ?thesis by (simp add: fat_val_def)
  qed
  have o': "d' (set_cl s c i) = d (set_cl s c i)" if "valido s c" "c \<noteq> n" "i < unat (f_spc s)" for c i
    using w(5) cl_inj [OF assms(1) that(1) assms(3) that(3)] that(2) by metis
  show thesis
    using that [of e' s' d'] w(1-4,6) f o' by (simp add: lba cl_bytes_def cl_dados_def)
qed

lemma cad_ocupados: "cad s d c xs \<Longrightarrow> x \<in> set xs \<Longrightarrow> fat_val s d x \<noteq> 0"
proof (induction xs arbitrary: c)
  case (Cons y ys)
  then show ?case by (cases ys) (auto simp: FAT32_EOF_def valido_def)
qed simp

lemma e_28: "unat n < 2 ^ 28 \<Longrightarrow> n AND 0x0FFFFFFF = n" for n :: u32
proof -
  assume "unat n < 2 ^ 28"
  then have "take_bit 28 n = n" by (intro unat_eq_iff [THEN iffD1]) (simp add: unsigned_take_bit_eq take_bit_nat_eq_self)
  then show ?thesis by (simp add: take_bit_eq_mask mask_eq_exp_minus_1)
qed

text \<open>A new last cluster: allocated and linked behind \<open>u\<close>.\<close>

lemma liga:
  assumes "geo_ok s" "disco s d" "valido s u" "fat_val s d u \<noteq> 0" "livres_fat s d \<noteq> {}"
  obtains n s1 s2 d2 where "fat32_alloc_cluster s = (n, s1)" "fat32_write_fat_entry u n s1 = (0, s2)" "n \<in> livres_fat s d" "disco s2 d2"
    "mesmo s s2" "\<And>c. valido s c \<Longrightarrow> fat_val s d2 c = (if c = u then n else if c = n then 0x0FFFFFFF else fat_val s d c)"
    "\<And>c i. valido s c \<Longrightarrow> i < unat (f_spc s) \<Longrightarrow> d2 (set_cl s c i) = d (set_cl s c i)"
proof -
  obtain n s1 d1 where a: "fat32_alloc_cluster s = (n, s1)" "n \<in> livres_fat s d" "disco s1 d1" "mesmo s s1"
      "fat_muda s d d1 ((fat_val s d)(n := 0x0FFFFFFF))"
    using alloc_cluster_ok [OF assms(1,2,5)] by blast
  have n: "valido s n" "fat_val s d n = 0" using a(2) by (simp_all add: livres_fat_def)
  then have u: "u \<noteq> n" using assms(4) by auto
  note g1 = geo_mesmo [OF a(4)] mesmo_campos(1) [OF a(4)]
  obtain s2 d2 where w: "fat32_write_fat_entry u n s1 = (0, s2)" "disco s2 d2" "mesmo s1 s2"
      "fat_muda s1 d1 d2 ((fat_val s1 d1)(u := n AND 0x0FFFFFFF))"
    using write_fat_ok [of s1 d1 u n] assms(1,3) a(3) g1 by auto
  have "n AND 0x0FFFFFFF = n" using n(1) assms(1) by (intro e_28) (simp add: geo_ok_def valido_def)
  then have f2: "fat_val s d2 c = (if c = u then n else if c = n then 0x0FFFFFFF else fat_val s d c)" if "valido s c" for c
    using a(5) w(4) that u by (simp add: fat_muda_def g1)
  have x2: "d2 (set_cl s c i) = d (set_cl s c i)" if "valido s c" "i < unat (f_spc s)" for c i
    using a(5) w(4) that by (simp add: fat_muda_def g1)
  from that [OF a(1) w(1) a(2) w(2) mesmo_trans [OF a(4) w(3)] f2 x2] show thesis .
qed

text \<open>What was written grows by the chunk of the new cluster.\<close>

lemma escrito_estende:
  assumes "escrito s d first cs buf tam escr" "disco s d" "escr < tam" "n \<in> livres_fat s d"
    and f3: "\<And>c. valido s c \<Longrightarrow> fat_val s d3 c = (if c = last cs then n else if c = n then 0x0FFFFFFF else fat_val s d c)"
    and x3: "\<And>c i. valido s c \<Longrightarrow> c \<noteq> n \<Longrightarrow> i < unat (f_spc s) \<Longrightarrow> d3 (set_cl s c i) = d (set_cl s c i)"
    and "unat e' = min (unat tam) (unat escr + cl_bytes s)"
    and "take (unat e' - unat escr) (cl_dados s d3 n) = slice buf (unat escr) (unat e' - unat escr)"
  shows "escrito s d3 first (cs @ [n]) buf tam e'" and "card (livres_fat s d3) = card (livres_fat s d) - 1"
proof -
  note E = assms(1) [unfolded escrito_def]
  have n: "valido s n" "fat_val s d n = 0" using assms(4) by (simp_all add: livres_fat_def)
  have ncs: "n \<notin> set cs" using cad_ocupados E n(2) by blast
  have vcs: "\<forall>x \<in> set cs. valido s x" using cad_validos E by blast
  have "last cs \<in> set cs" using E by simp
  then have u: "valido s (last cs)" "last cs \<noteq> n" using vcs ncs by auto
  have c3: "cad s d3 first (cs @ [n])"
  proof (rule cad_estende [of s d])
    show "\<forall>x \<in> set cs. x \<noteq> last cs \<longrightarrow> fat_val s d3 x = fat_val s d x" using f3 vcs ncs by auto
  qed (use E n(1) f3 [OF u(1)] f3 [OF n(1)] u(2) in \<open>simp_all add: FAT32_EOF_def\<close>)
  have dd: "dados s d3 cs = dados s d cs"
    using vcs ncs x3 by (intro dados_cong ballI allI impI) auto
  have lt: "unat escr < unat tam" using assms(3) by (simp add: word_less_nat_alt)
  then have esc: "unat escr = length cs * cl_bytes s" using E by (simp add: min_def split: if_splits)
  have ld: "length (dados s d cs) = unat escr" using length_dados [OF assms(2)] esc by simp
  have ee: "unat escr \<le> unat e'" using assms(7) lt by (simp add: min_def)
  have "dados s d3 (cs @ [n]) = dados s d cs @ cl_dados s d3 n" using dd by (simp add: dados_def)
  then have "take (unat e') (dados s d3 (cs @ [n])) = take (unat escr) buf @ slice buf (unat escr) (unat e' - unat escr)"
    using E ld ee assms(8) by simp
  also have "\<dots> = take (unat e') buf" using ee take_add [of "unat escr" "unat e' - unat escr" buf] by (simp add: slice_def)
  finally show "escrito s d3 first (cs @ [n]) buf tam e'"
    unfolding escrito_def using c3 E ncs f3 [OF n(1)] u(2) assms(7) esc by simp
  have "valido s c \<and> fat_val s d3 c = 0 \<longleftrightarrow> valido s c \<and> fat_val s d c = 0 \<and> c \<noteq> n" for c
  proof (cases "valido s c")
    case True
    show ?thesis unfolding f3 [OF True] using n E u(2) by (auto simp: valido_def)
  qed simp
  then have "livres_fat s d3 = livres_fat s d - {n}" by (auto simp: livres_fat_def)
  then show "card (livres_fat s d3) = card (livres_fat s d) - 1" using assms(4) by simp
qed

text \<open>\<open>intacto s d d' cs\<close>: the clusters in use, those of \<open>cs\<close> apart, keep their link and their data.\<close>

definition intacto :: "fat \<Rightarrow> (u32 \<Rightarrow> setor) \<Rightarrow> (u32 \<Rightarrow> setor) \<Rightarrow> u32 set \<Rightarrow> bool" where
  "intacto s d d' C \<longleftrightarrow> (\<forall>c. valido s c \<longrightarrow> c \<notin> C \<longrightarrow> fat_val s d c \<noteq> 0 \<longrightarrow>
     fat_val s d' c = fat_val s d c \<and> (\<forall>i < unat (f_spc s). d' (set_cl s c i) = d (set_cl s c i)))"

lemma intacto_refl [simp]: "intacto s d d C" by (simp add: intacto_def)

lemma intacto_trans: "intacto s d d1 C \<Longrightarrow> intacto s d1 d2 D \<Longrightarrow> \<forall>n \<in> D - C. fat_val s d n = 0 \<Longrightarrow> intacto s d d2 C"
  unfolding intacto_def by (metis DiffI)

lemma intacto_mesmo: "mesmo s s' \<Longrightarrow> intacto s' = intacto s"
  by (simp add: intacto_def fun_eq_iff geo_mesmo mesmo_campos)

lemma write_loop_ok:
  assumes "geo_ok s" "disco s d" "escrito s d first cs buf tam escr" "unat tam \<le> length buf"
    and "unat tam \<le> (length cs + card (livres_fat s d)) * cl_bytes s"
  shows "\<exists>s' d' cs'. write_loop 0x0FFFFFFF (last cs) buf tam escr s = Some (Some tam, s') \<and> disco s' d' \<and> mesmo s s' \<and>
    escrito s d' first cs' buf tam tam \<and> intacto s d d' (set cs)"
  using assms
proof (induction "unat tam - unat escr" arbitrary: s d cs escr rule: less_induct)
  case less
  note E = less.prems(3) [unfolded escrito_def]
  show ?case
  proof (cases "escr < tam")
    case False
    moreover have "unat escr \<le> unat tam" using E by simp
    ultimately have "escr = tam" by (simp add: word_less_nat_alt unat_eq_iff [symmetric])
    then show ?thesis using less.prems(2,3) by (intro exI [of _ s] exI [of _ d] exI [of _ cs], subst write_loop.simps) simp
  next
    case True
    then have lt: "unat escr < unat tam" by (simp add: word_less_nat_alt)
    then have esc: "unat escr = length cs * cl_bytes s" using E by (simp add: min_def split: if_splits)
    have B: "0 < cl_bytes s" using less.prems(1) by (simp add: geo_ok_def cl_bytes_def)
    have livre: "livres_fat s d \<noteq> {}" using less.prems(5) lt esc by (auto intro: ccontr)
    have u: "valido s (last cs)" "fat_val s d (last cs) \<noteq> 0"
      using E cad_validos [of s d first cs] by auto
    obtain n s1 s2 d2 where a: "fat32_alloc_cluster s = (n, s1)" "fat32_write_fat_entry (last cs) n s1 = (0, s2)" "n \<in> livres_fat s d" "disco s2 d2"
        "mesmo s s2" "\<And>c. valido s c \<Longrightarrow> fat_val s d2 c = (if c = last cs then n else if c = n then 0x0FFFFFFF else fat_val s d c)"
        "\<And>c i. valido s c \<Longrightarrow> i < unat (f_spc s) \<Longrightarrow> d2 (set_cl s c i) = d (set_cl s c i)"
      using liga [OF less.prems(1,2) u livre] by blast
    have n: "valido s n" "n \<noteq> 0" "last cs \<noteq> 0" using a(3) u(1) by (auto simp: livres_fat_def valido_def)
    note g2 = geo_mesmo [OF a(5)] mesmo_campos(1) [OF a(5)] dados_mesmo [OF a(5)]
    obtain e' s3 d3 where t: "write_cluster (unat (f_spc s2)) (cluster_to_lba s2 n) buf tam escr s2 = (Some e', s3)"
        "unat e' = min (unat tam) (unat escr + cl_bytes s)" "disco s3 d3" "mesmo s2 s3" "\<And>c. valido s c \<Longrightarrow> fat_val s d3 c = fat_val s d2 c"
        "\<And>c i. valido s c \<Longrightarrow> c \<noteq> n \<Longrightarrow> i < unat (f_spc s) \<Longrightarrow> d3 (set_cl s c i) = d2 (set_cl s c i)"
        "take (unat e' - unat escr) (cl_dados s d3 n) = slice buf (unat escr) (unat e' - unat escr)"
      using write_um [of s2 d2 n escr tam buf] less.prems(1,4) a(4) n(1) True by (auto simp: g2)
    have W: "escrito s d3 first (cs @ [n]) buf tam e'" and cardl: "card (livres_fat s d3) = card (livres_fat s d) - 1"
      using escrito_estende [OF less.prems(3,2) True a(3) _ _ t(2,7)] a(6,7) t(5,6) by simp_all
    have m3: "mesmo s s3" using mesmo_trans [OF a(5) t(4)] .
    note g3 = geo_mesmo [OF m3] mesmo_campos(1) [OF m3]
    obtain s4 where r4: "fat32_read_fat n s3 = (fat_val s d3 n, s4)" "disco s4 d3" "mesmo s3 s4"
      using read_fat_ok [of s3 d3 n] less.prems(1) t(3) n(1) g3 by auto
    have m4: "mesmo s s4" using mesmo_trans [OF m3 r4(3)] .
    have g4: "intacto s4 = intacto s" "livres_fat s4 d3 = livres_fat s d3" "escrito s4 = escrito s" "cl_bytes s4 = cl_bytes s" "geo_ok s4 = geo_ok s"
      by (simp_all add: fun_eq_iff intacto_mesmo [OF m4] livres_fat_def escrito_def geo_mesmo [OF m4] dados_mesmo [OF m4] cad_mesmo [OF m4])
    have vn: "fat_val s d3 n = 0x0FFFFFFF" using W by (simp add: escrito_def)
    have "0 < card (livres_fat s d)" using livre by (simp add: card_gt_0_iff)
    then have card2: "unat tam \<le> (length (cs @ [n]) + card (livres_fat s4 d3)) * cl_bytes s4"
      using less.prems(5) cardl by (simp add: g4)
    have "unat tam - unat e' < unat tam - unat escr" using t(2) lt B by (auto simp: min_def)
    from less.hyps [OF this _ r4(2) _ less.prems(4) card2] W less.prems(1) g4
    obtain s' d' cs' where r: "write_loop 0x0FFFFFFF n buf tam e' s4 = Some (Some tam, s')" "disco s' d'" "mesmo s4 s'"
        "escrito s d' first cs' buf tam tam" "intacto s d3 d' (set (cs @ [n]))" by auto
    have "last cs \<in> set cs" "fat_val s d n = 0" using E a(3) by (simp_all add: livres_fat_def)
    then have "intacto s d d3 (set cs)" using a(6,7) t(5,6) unfolding intacto_def by metis
    then have I: "intacto s d d' (set cs)" by (rule intacto_trans [OF _ r(5)]) (use \<open>fat_val s d n = 0\<close> in auto)
    have "write_loop 0x0FFFFFFF (last cs) buf tam escr s = write_loop 0x0FFFFFFF n buf tam e' s4"
      by (subst write_loop.simps) (use True a(1,2) t(1) r4(1) vn n(2,3) in \<open>simp add: FAT32_EOF_def\<close>)
    then show ?thesis using r(1,2,4) mesmo_trans [OF m4 r(3)] I by metis
  qed
qed

text \<open>The first iteration uses the cluster that exists; the others extend the chain.\<close>

lemma write_file_ok:
  assumes "geo_ok s" "disco s d" "valido s first" "fat_val s d first = 0x0FFFFFFF" "unat tam \<le> length buf"
    and "unat tam \<le> (1 + card (livres_fat s d)) * cl_bytes s"
  obtains s' d' cs where "fat32_write_file first buf tam s = Some (Some tam, s')" "disco s' d'" "mesmo s s'"
    "tam \<noteq> 0 \<longrightarrow> escrito s d' first cs buf tam tam" "intacto s d d' {first}"
proof (cases "tam = 0")
  case True
  then have "fat32_write_file first buf tam s = Some (Some tam, s)"
    using assms(1) by (simp add: fat32_write_file_def geo_ok_def) (subst write_loop.simps, simp)
  then show thesis using that [of s d] assms(2) True mesmo_refl(1) by simp
next
  case False
  then have t0: "(0 :: u32) < tam" by (simp add: word_neq_0_conv)
  obtain e' s1 d1 where t: "write_cluster (unat (f_spc s)) (cluster_to_lba s first) buf tam 0 s = (Some e', s1)"
      "unat e' = min (unat tam) (unat (0 :: u32) + cl_bytes s)" "disco s1 d1" "mesmo s s1" "\<And>c. valido s c \<Longrightarrow> fat_val s d1 c = fat_val s d c"
      "\<And>c i. valido s c \<Longrightarrow> c \<noteq> first \<Longrightarrow> i < unat (f_spc s) \<Longrightarrow> d1 (set_cl s c i) = d (set_cl s c i)"
      "take (unat e' - unat (0 :: u32)) (cl_dados s d1 first) = slice buf (unat (0 :: u32)) (unat e' - unat (0 :: u32))"
    using write_um [OF assms(1-3) t0 assms(5)] by metis
  have W: "escrito s d1 first [first] buf tam e'"
    using assms(3,4) t(2,5,7) by (simp add: escrito_def FAT32_EOF_def dados_def slice_def)
  have I: "intacto s d d1 {first}" using t(5,6) by (simp add: intacto_def)
  note g1 = geo_mesmo [OF t(4)] mesmo_campos(1) [OF t(4)]
  obtain s2 where r2: "fat32_read_fat first s1 = (fat_val s d1 first, s2)" "disco s2 d1" "mesmo s1 s2"
    using read_fat_ok [of s1 d1 first] assms(1,3) t(3) g1 by auto
  have m2: "mesmo s s2" using mesmo_trans [OF t(4) r2(3)] .
  have g2: "livres_fat s2 d1 = livres_fat s d" "escrito s2 = escrito s" "cl_bytes s2 = cl_bytes s" "geo_ok s2 = geo_ok s" "intacto s2 = intacto s"
    using t(5) by (auto simp: fun_eq_iff livres_fat_def escrito_def intacto_mesmo [OF m2] geo_mesmo [OF m2] dados_mesmo [OF m2] cad_mesmo [OF m2])
  obtain s' d' cs' where r: "write_loop 0x0FFFFFFF first buf tam e' s2 = Some (Some tam, s')" "disco s' d'" "mesmo s2 s'"
      "escrito s d' first cs' buf tam tam" "intacto s d1 d' {first}"
    using write_loop_ok [of s2 d1 first "[first]" buf tam e'] assms(1,5,6) r2(2) W by (auto simp: g2)
  have "write_loop first 0 buf tam 0 s = write_loop 0x0FFFFFFF first buf tam e' s2"
    using t0 fat_lugar(5) [OF assms(1,3)] t(1,5) r2(1) assms(3,4)
    by (subst write_loop.simps) (auto simp: valido_def not_le)
  then show thesis using that [of s' d' cs'] assms(1) r intacto_trans [OF I r(5)] mesmo_trans [OF m2 r(3)]
    by (simp add: fat32_write_file_def geo_ok_def)
qed

lemma mesmo_ok: "mesmo s s' \<Longrightarrow> geo_ok s \<Longrightarrow> f_inicializado s' \<and> geo_ok s'"
  by (simp add: geo_mesmo) (simp add: geo_ok_def mesmo_campos)

text \<open>A new file: its first cluster allocated, its content written.\<close>

lemma novo_arquivo:
  assumes "geo_ok s" "disco s d" "0 < card (livres_fat s d)" "unat tam \<le> card (livres_fat s d) * cl_bytes s" "unat tam \<le> length buf"
  obtains c s1 s2 d2 cs where "fat32_alloc_cluster s = (c, s1)" "fat32_write_file c buf tam s1 = Some (Some tam, s2)" "disco s2 d2" "mesmo s s2"
    "tam \<noteq> 0 \<longrightarrow> escrito s d2 c cs buf tam tam" "intacto s d d2 {}" "c \<in> livres_fat s d"
proof -
  have "livres_fat s d \<noteq> {}" using assms(3) by auto
  then obtain c s1 d1 where a: "fat32_alloc_cluster s = (c, s1)" "c \<in> livres_fat s d" "disco s1 d1" "mesmo s s1"
      "fat_muda s d d1 ((fat_val s d)(c := 0x0FFFFFFF))"
    using alloc_cluster_ok [OF assms(1,2)] by blast
  have c: "valido s c" "fat_val s d c = 0" using a(2) by (simp_all add: livres_fat_def)
  have "livres_fat s d1 = livres_fat s d - {c}" using a(5) by (auto simp: livres_fat_def fat_muda_def split: if_splits)
  then have n: "card (livres_fat s d1) + 1 = card (livres_fat s d)" using a(2) assms(3) by simp
  have m1: "geo_ok s1 = geo_ok s" "valido s1 = valido s" "fat_val s1 = fat_val s" "livres_fat s1 = livres_fat s" "cl_bytes s1 = cl_bytes s"
    "escrito s1 = escrito s" "intacto s1 = intacto s"
    by (simp_all add: fun_eq_iff livres_fat_def escrito_def intacto_mesmo [OF a(4)] geo_mesmo [OF a(4)] dados_mesmo [OF a(4)] cad_mesmo [OF a(4)])
  have v: "fat_val s1 d1 c = 0x0FFFFFFF" using a(5) c(1) by (simp add: fat_muda_def m1)
  have "unat tam \<le> (1 + card (livres_fat s1 d1)) * cl_bytes s1" using assms(4) n by (simp add: m1)
  then obtain s2 d2 cs where w: "fat32_write_file c buf tam s1 = Some (Some tam, s2)" "disco s2 d2" "mesmo s1 s2"
      "tam \<noteq> 0 \<longrightarrow> escrito s1 d2 c cs buf tam tam" "intacto s1 d1 d2 {c}"
    using write_file_ok [OF _ a(3) _ v assms(5)] assms(1) c(1) m1 by metis
  have "intacto s d d1 {}" using a(5) c by (auto simp: intacto_def fat_muda_def)
  then have "intacto s d d2 {}" by (rule intacto_trans [OF _ w(5) [unfolded m1]]) (simp add: c(2))
  then show thesis using that [OF a(1) w(1,2) mesmo_trans [OF a(4) w(3)]] w(4) a(2) by (simp add: m1)
qed

text \<open>C24: what is written is read back.  On a healthy drive with \<open>n\<close> free clusters, \<open>fat32_alloc_cluster\<close> followed by
  \<open>fat32_write_file\<close> of any content that fits \<open>n\<close> clusters (one at least) succeeds, whatever number of clusters it
  takes, and \<open>fat32_read\<close> of the new file returns, terminating, exactly the bytes written.\<close>

theorem fat32_grava_e_le:
  assumes "geo_ok s" "disco s d" "0 < card (livres_fat s d)" "unat tam \<le> card (livres_fat s d) * cl_bytes s"
    and "unat tam \<le> length buf" "unat tam \<le> length rbuf"
  shows "\<exists>c s1 s2 s3. fat32_alloc_cluster s = (c, s1) \<and> fat32_write_file c buf tam s1 = Some (Some tam, s2) \<and>
    fat32_read c tam rbuf s2 = Some ((Some tam, take (unat tam) buf @ drop (unat tam) rbuf), s3)"
proof -
  obtain c s1 s2 d2 cs where w: "fat32_alloc_cluster s = (c, s1)" "fat32_write_file c buf tam s1 = Some (Some tam, s2)" "disco s2 d2" "mesmo s s2"
      "tam \<noteq> 0 \<longrightarrow> escrito s d2 c cs buf tam tam"
    using novo_arquivo [OF assms(1-5)] .
  have i: "f_inicializado s2" "geo_ok s2" using mesmo_ok [OF w(4) assms(1)] by simp_all
  have "\<exists>s3. fat32_read c tam rbuf s2 = Some ((Some tam, take (unat tam) buf @ drop (unat tam) rbuf), s3)"
  proof (cases "tam = 0")
    case True
    then show ?thesis using i(1) by (simp add: fat32_read_def) (subst read_loop.simps, simp)
  next
    case False
    then have E: "cad s d2 c cs" "unat tam = min (unat tam) (length cs * cl_bytes s)" "take (unat tam) (dados s d2 cs) = take (unat tam) buf"
      using w(5) by (simp_all add: escrito_def)
    obtain e s3 where r: "read_loop c tam 0 rbuf s2 = Some ((Some e, splice rbuf 0 (take (unat tam) (dados s d2 cs))), s3)" "unat e = unat tam"
      using read_loop_ok [OF i(2) w(3), of c cs 0 tam rbuf] E(1,2) assms(6)
      by (auto simp: cad_mesmo [OF w(4)] dados_mesmo [OF w(4)])
    then show ?thesis using E(3) i(1) assms(5) unat_eq_iff [of e tam] by (simp add: fat32_read_def splice_def)
  qed
  then show ?thesis using w(1,2) by blast
qed

text \<open>C25: files do not disturb each other.  Writing a new file leaves every file that was on the disk as it was: for
  the chain of any other file, \<open>fat32_read\<close> after the write returns what the chain held before it.\<close>

theorem fat32_arquivos_isolados:
  assumes "geo_ok s" "disco s d" "0 < card (livres_fat s d)" "unat tam \<le> card (livres_fat s d) * cl_bytes s"
    and "unat tam \<le> length buf" "cad s d outro cs" "unat tam2 \<le> length cs * cl_bytes s" "unat tam2 \<le> length rbuf"
  shows "\<exists>c s1 s2 s3. fat32_alloc_cluster s = (c, s1) \<and> fat32_write_file c buf tam s1 = Some (Some tam, s2) \<and> c \<notin> set cs \<and>
    fat32_read outro tam2 rbuf s2 = Some ((Some tam2, take (unat tam2) (dados s d cs) @ drop (unat tam2) rbuf), s3)"
proof -
  obtain c s1 s2 d2 cs' where w: "fat32_alloc_cluster s = (c, s1)" "fat32_write_file c buf tam s1 = Some (Some tam, s2)" "disco s2 d2" "mesmo s s2"
      "intacto s d d2 {}" "c \<in> livres_fat s d"
    using novo_arquivo [OF assms(1-5)] .
  have i: "f_inicializado s2" "geo_ok s2" using mesmo_ok [OF w(4) assms(1)] by simp_all
  have oc: "valido s x \<and> fat_val s d x \<noteq> 0" if "x \<in> set cs" for x
    using cad_validos [OF assms(6)] cad_ocupados [OF assms(6)] that by blast
  have eq: "dados s d2 cs = dados s d cs" using w(5) oc by (intro dados_cong) (simp add: intacto_def)
  have ch: "cad s d2 outro cs"
  proof -
    have "cad s d2 f xs" if "cad s d f xs" "set xs \<subseteq> set cs" for f xs
      using that by (induction xs arbitrary: f) (use w(5) oc in \<open>auto simp: intacto_def\<close>)
    then show ?thesis using assms(6) by blast
  qed
  obtain e s3 where r: "read_loop outro tam2 0 rbuf s2 = Some ((Some e, splice rbuf 0 (take (unat tam2) (dados s d cs))), s3)" "unat e = unat tam2"
    using read_loop_ok [OF i(2) w(3), of outro cs 0 tam2 rbuf] ch assms(7,8) eq
    by (auto simp: cad_mesmo [OF w(4)] dados_mesmo [OF w(4)] min_absorb1)
  have "length (take (unat tam2) (dados s d cs)) = unat tam2" using length_dados [OF assms(2)] assms(7) by simp
  then have "fat32_read outro tam2 rbuf s2 = Some ((Some tam2, take (unat tam2) (dados s d cs) @ drop (unat tam2) rbuf), s3)"
    using r i(1) unat_eq_iff [of e tam2] by (simp add: fat32_read_def splice_def)
  moreover have "c \<notin> set cs" using oc w(6) by (auto simp: livres_fat_def)
  ultimately show ?thesis using w(1,2) by blast
qed

text \<open>A small empty volume: one sector per cluster, eight clusters.\<close>

definition fat_exemplo :: fat where
  "fat_exemplo = \<lparr>f_ata = ata_exemplo, f_inicializado = True, f_bps = 512, f_spc = 1, f_fat_lba = 32, f_data_lba = 40,
     f_root = 2, f_total = 8, fat32_buf = replicate 512 0\<rparr>"

lemma fat_exemplo_ok: "geo_ok fat_exemplo" "disco fat_exemplo (\<lambda>_. replicate 512 0)" "cl_bytes fat_exemplo = 512"
    "2 \<le> card (livres_fat fat_exemplo (\<lambda>_. replicate 512 0))"
proof -
  show g: "geo_ok fat_exemplo" by (simp add: geo_ok_def fat_exemplo_def)
  show "disco fat_exemplo (\<lambda>_. replicate 512 0)"
    using ata_exemplo_ok(1) by (simp add: disco_def disp0_def fat_exemplo_def) (simp add: ata_exemplo_def)
  show "cl_bytes fat_exemplo = 512" by (simp add: cl_bytes_def fat_exemplo_def)
  have "{2, 3} \<subseteq> livres_fat fat_exemplo (\<lambda>_. replicate 512 0)"
    by (simp add: livres_fat_def valido_def fat_val_def fat_desloc_def rd32_def fat_exemplo_def)
  then have "card {2, 3 :: u32} \<le> card (livres_fat fat_exemplo (\<lambda>_. replicate 512 0))" by (intro card_mono) simp_all
  then show "2 \<le> card (livres_fat fat_exemplo (\<lambda>_. replicate 512 0))" by simp
qed

theorem fat32_grava_e_le_witness:
  "\<exists>c s1 s2 s3. fat32_alloc_cluster fat_exemplo = (c, s1) \<and> fat32_write_file c (replicate 600 7) 600 s1 = Some (Some 600, s2) \<and>
    fat32_read c 600 (replicate 1024 0) s2 = Some ((Some 600, replicate 600 7 @ replicate 424 0), s3)"
  using fat32_grava_e_le [OF fat_exemplo_ok(1,2), of 600 "replicate 600 7" "replicate 1024 0"] fat_exemplo_ok(3,4)
  by simp

text \<open>The same volume with a file in cluster 2.\<close>

definition disco_exemplo :: "u32 \<Rightarrow> setor" where
  "disco_exemplo l = (if l = 32 then splice (replicate 512 0) 8 (le32 0x0FFFFFFF) else replicate 512 (if l = 40 then 5 else 0))"

definition fat_exemplo2 :: fat where
  "fat_exemplo2 = fat_exemplo\<lparr>f_ata := ata_exemplo\<lparr>discos := \<lambda>_. disco_exemplo\<rparr>\<rparr>"

lemma fat_exemplo2_val: "fat_val fat_exemplo2 disco_exemplo 2 = 0x0FFFFFFF" "fat_val fat_exemplo2 disco_exemplo 3 = 0"
    "fat_val fat_exemplo2 disco_exemplo 4 = 0"
  by (simp_all add: fat_val_def fat_setor_def fat_desloc_def fat_exemplo2_def fat_exemplo_def disco_exemplo_def rd32_splice_same rd32_splice_other)
    (simp_all add: rd32_def)

lemma fat_exemplo2_ok: "geo_ok fat_exemplo2" "disco fat_exemplo2 disco_exemplo" "cl_bytes fat_exemplo2 = 512"
    "2 \<le> card (livres_fat fat_exemplo2 disco_exemplo)" "cad fat_exemplo2 disco_exemplo 2 [2]"
    "dados fat_exemplo2 disco_exemplo [2] = replicate 512 5"
proof -
  show "geo_ok fat_exemplo2" by (simp add: geo_ok_def fat_exemplo_def fat_exemplo2_def)
  show "disco fat_exemplo2 disco_exemplo"
    using ata_exemplo_ok(1) by (simp add: disco_def disp0_def fat_exemplo_def fat_exemplo2_def)
      (simp add: ata_exemplo_def saudavel_def disco_exemplo_def)
  show "cl_bytes fat_exemplo2 = 512" by (simp add: cl_bytes_def fat_exemplo_def fat_exemplo2_def)
  have "{3, 4} \<subseteq> livres_fat fat_exemplo2 disco_exemplo"
    by (simp add: livres_fat_def fat_exemplo2_val) (simp add: valido_def fat_exemplo_def fat_exemplo2_def)
  then have "card {3, 4 :: u32} \<le> card (livres_fat fat_exemplo2 disco_exemplo)" by (intro card_mono) simp_all
  then show "2 \<le> card (livres_fat fat_exemplo2 disco_exemplo)" by simp
  show "cad fat_exemplo2 disco_exemplo 2 [2]"
    by (simp add: fat_exemplo2_val) (simp add: valido_def FAT32_EOF_def fat_exemplo_def fat_exemplo2_def)
  show "dados fat_exemplo2 disco_exemplo [2] = replicate 512 5"
    by (simp add: dados_def cl_dados_def cl_parte_def set_cl_def cluster_to_lba_def disco_exemplo_def fat_exemplo_def fat_exemplo2_def)
qed

theorem fat32_arquivos_isolados_witness:
  "\<exists>c s1 s2 s3. fat32_alloc_cluster fat_exemplo2 = (c, s1) \<and> fat32_write_file c (replicate 600 7) 600 s1 = Some (Some 600, s2) \<and> c \<notin> set [2] \<and>
    fat32_read 2 10 (replicate 10 0) s2 = Some ((Some 10, replicate 10 5), s3)"
  using fat32_arquivos_isolados [OF fat_exemplo2_ok(1,2), of 600 "replicate 600 7" 2 "[2]" 10 "replicate 10 0"] fat_exemplo2_ok(3-6)
  by simp

end
