(* ===== verification/Vfs.thy ===== *)
theory Vfs
  imports Fat32
begin

text \<open>
  \<^verbatim>\<open>kernel/fs/vfs.c\<close>: paths, the current directory and the file operations the shell uses, over the FAT32 driver.
  Paths are C strings; \<open>path_split_last\<close> gives the 256-byte buffer with the parent's path and the last component.
\<close>

section \<open>State\<close>

record vfs_entry =
  ve_name :: "u8 list"
  ve_is_dir :: bool
  ve_cluster :: u32
  ve_size :: u32

record vfs =
  v_fat :: fat
  cwd_montado :: bool
  cwd_path :: "u8 list"
  cwd_cluster :: u32
  append_buf :: "u8 list"

definition VFS_APPEND_MAX :: u32 where "VFS_APPEND_MAX = 16384"

text \<open>A call of the driver.\<close>

definition com_fat :: "(fat \<Rightarrow> ('r \<times> fat) option) \<Rightarrow> vfs \<Rightarrow> ('r \<times> vfs) option" where
  "com_fat f s = map_option (\<lambda>(r, t). (r, s\<lparr>v_fat := t\<rparr>)) (f (v_fat s))"

definition barra8 :: u8 where "barra8 = 47"

section \<open>Paths\<close>

fun ult_barra :: "u8 list \<Rightarrow> nat \<Rightarrow> nat option" where
  "ult_barra b 0 = None"
| "ult_barra b (Suc i) = (if b ! i = barra8 then Some i else ult_barra b i)"

definition path_split_last :: "u8 list \<Rightarrow> u8 list \<times> u8 list" where
  "path_split_last path =
     (let parent_buf = strn path 255 @ [0] in
      case ult_barra path (k_strlen path) of
        Some (Suc i) \<Rightarrow> (parent_buf[Suc i := 0], drop (Suc i + 1) path)
      | _ \<Rightarrow> (parent_buf[0 := 0], path))"

text \<open>The result of \<open>resolve_dir\<close> is \<open>None\<close> for -1, otherwise 0 or 1 with the cluster.\<close>

function resolve_passos :: "u8 list \<Rightarrow> u32 \<Rightarrow> vfs \<Rightarrow> ((int \<times> u32) option \<times> vfs) option" where
  "resolve_passos tok cur s =
     (if tok = [] then Some (Some (0, cur), s)
      else let nome = takeWhile (\<lambda>c. c \<noteq> barra8) tok; sep = dropWhile (\<lambda>c. c \<noteq> barra8) tok in
        if nome = [] \<or> nome = [ponto8] then resolve_passos (tl sep) cur s
        else case com_fat (fat32_find cur (fat32_normalize nome)) s of
          None \<Rightarrow> None
        | Some (None, s) \<Rightarrow> Some (None, s)
        | Some (Some e, s) \<Rightarrow>
            if \<not> fe_is_dir e then Some (if sep \<noteq> [] then None else Some (1, cur), s)
            else resolve_passos (tl sep) (fe_cluster e) s)"
  by pat_completeness auto
termination
proof (relation "measure (\<lambda>(tok, cur, s). length tok)")
  fix tok x xa and cur :: u32 and s :: vfs
  assume h: "tok \<noteq> []" "x = takeWhile (\<lambda>c. c \<noteq> barra8) tok" "xa = dropWhile (\<lambda>c. c \<noteq> barra8) tok"
  have l: "length (tl (dropWhile (\<lambda>c. c \<noteq> barra8) tok)) < length tok"
    using h(1) length_dropWhile_le [of "\<lambda>c. c \<noteq> barra8" tok] by (cases tok) (auto simp: less_Suc_eq_le)
  then show "((tl xa, cur, s), tok, cur, s) \<in> measure (\<lambda>(tok, cur, s). length tok)" using h(3) by simp
  show "((tl xa, c', s'), tok, cur, s) \<in> measure (\<lambda>(tok, cur, s). length tok)" for c' s' using l h(3) by simp
qed simp_all

declare resolve_passos.simps [simp del]

definition resolve_dir :: "u8 list \<Rightarrow> vfs \<Rightarrow> ((int \<times> u32) option \<times> vfs) option" where
  "resolve_dir path s =
     (let (cur, path) = (if char_at path 0 = barra8 then (fat32_root_cluster (v_fat s), tl path) else (cwd_cluster s, path)) in
      resolve_passos (cstr (strn path 255)) cur s)"

text \<open>The directory of a path: the code repeated at the head of the file operations.\<close>

definition dir_de :: "u8 list \<Rightarrow> u8 list \<Rightarrow> vfs \<Rightarrow> (u32 option \<times> vfs) option" where
  "dir_de path parent_buf s =
     (if k_strlen parent_buf = 0 then
        Some (Some (if char_at path 0 = barra8 then fat32_root_cluster (v_fat s) else cwd_cluster s), s)
      else do { (r, s) \<leftarrow> resolve_dir (cstr parent_buf) s; Some (map_option snd r, s) })"

section \<open>Mounting\<close>

definition vfs_init :: "vfs \<Rightarrow> vfs option" where
  "vfs_init s =
     do {
       let s = s\<lparr>cwd_montado := False, cwd_path := splice (cwd_path s) 0 (strn [barra8] 255), cwd_cluster := 2\<rparr>;
       (r, s) \<leftarrow> com_fat fat32_init s;
       Some (if r = 0 then s\<lparr>cwd_montado := True, cwd_cluster := fat32_root_cluster (v_fat s)\<rparr> else s) }"

definition vfs_mounted :: "vfs \<Rightarrow> bool" where "vfs_mounted s = cwd_montado s"
definition vfs_getcwd :: "vfs \<Rightarrow> u8 list" where "vfs_getcwd s = cstr (cwd_path s)"

section \<open>Looking up and reading\<close>

text \<open>The name is copied over the first 12 of the 13 bytes of the caller's entry (\<open>nome0\<close>).\<close>

definition copia_entrada :: "u8 list \<Rightarrow> fat32_entry \<Rightarrow> vfs_entry" where
  "copia_entrada nome0 e = \<lparr>ve_name = splice nome0 0 (strn (fe_name e) 12), ve_is_dir = fe_is_dir e, ve_cluster = fe_cluster e, ve_size = fe_size e\<rparr>"

definition vfs_open :: "u8 list \<Rightarrow> u8 list \<Rightarrow> vfs \<Rightarrow> (vfs_entry option \<times> vfs) option" where
  "vfs_open path nome0 s =
     (if \<not> cwd_montado s then Some (None, s)
      else let (parent_buf, ult) = path_split_last path in do {
        (d, s) \<leftarrow> dir_de path parent_buf s;
        case d of
          None \<Rightarrow> Some (None, s)
        | Some c \<Rightarrow> do {
            (e, s) \<leftarrow> com_fat (fat32_find c (fat32_normalize ult)) s;
            Some (map_option (copia_entrada nome0) e, s) } })"

definition vfs_readdir :: "u8 list option \<Rightarrow> int \<Rightarrow> (nat \<Rightarrow> u8 list) \<Rightarrow> vfs \<Rightarrow> (vfs_entry list option \<times> vfs) option" where
  "vfs_readdir path max' nomes0 s =
     (if \<not> cwd_montado s then Some (None, s)
      else do {
        (d, s) \<leftarrow> (case path of
            None \<Rightarrow> Some (Some (cwd_cluster s), s)
          | Some p \<Rightarrow> if k_strlen p = 0 then Some (Some (cwd_cluster s), s)
              else do { (r, s) \<leftarrow> resolve_dir p s; Some (map_option snd r, s) });
        case d of
          None \<Rightarrow> Some (None, s)
        | Some c \<Rightarrow> do {
            (es, s) \<leftarrow> com_fat (fat32_readdir c (if max' < 64 then max' else 64)) s;
            Some (map_option (\<lambda>es. map (\<lambda>i. copia_entrada (nomes0 i) (es ! i)) [0..<length es]) es, s) } })"

text \<open>The bytes stored in \<open>buf\<close> come with the result; \<open>None\<close> is -1.\<close>

definition vfs_read :: "u8 list \<Rightarrow> u8 list \<Rightarrow> u32 \<Rightarrow> vfs \<Rightarrow> ((u32 option \<times> u8 list) \<times> vfs) option" where
  "vfs_read path buf max_size s =
     (if \<not> cwd_montado s then Some ((None, buf), s)
      else do {
        (e, s) \<leftarrow> vfs_open path (replicate 13 0) s;
        case e of
          None \<Rightarrow> Some ((None, buf), s)
        | Some e \<Rightarrow>
            if ve_is_dir e then Some ((None, buf), s)
            else com_fat (fat32_read (ve_cluster e) (if ve_size e < max_size then ve_size e else max_size) buf) s })"

section \<open>Changing\<close>

definition vfs_write :: "u8 list \<Rightarrow> u8 list \<Rightarrow> u32 \<Rightarrow> vfs \<Rightarrow> (u32 option \<times> vfs) option" where
  "vfs_write path buf tam s =
     (if \<not> cwd_montado s then Some (None, s)
      else let (parent_buf, ult) = path_split_last path; name11 = fat32_normalize ult in do {
        (d, s) \<leftarrow> dir_de path parent_buf s;
        case d of
          None \<Rightarrow> Some (None, s)
        | Some c \<Rightarrow> do {
            (e, s) \<leftarrow> com_fat (fat32_find c name11) s;
            (_, s) \<leftarrow> (if e \<noteq> None then com_fat (fat32_delete c name11) s else Some (0, s));
            (novo, s) \<leftarrow> com_fat (fat32_create c name11 FAT32_ATTR_ARCHIVE) s;
            if novo = 0 then Some (None, s) else com_fat (fat32_write_file novo buf tam) s } })"

definition vfs_mkdir :: "u8 list \<Rightarrow> vfs \<Rightarrow> (int \<times> vfs) option" where
  "vfs_mkdir path s =
     (if \<not> cwd_montado s then Some (- 1, s)
      else let (parent_buf, ult) = path_split_last path in do {
        (d, s) \<leftarrow> dir_de path parent_buf s;
        case d of
          None \<Rightarrow> Some (- 1, s)
        | Some c \<Rightarrow> do {
            (novo, s) \<leftarrow> com_fat (fat32_create c (fat32_normalize ult) FAT32_ATTR_DIR) s;
            Some (if novo = 0 then - 1 else 0, s) } })"

definition vfs_unlink :: "u8 list \<Rightarrow> vfs \<Rightarrow> (int \<times> vfs) option" where
  "vfs_unlink path s =
     (if \<not> cwd_montado s then Some (- 1, s)
      else let (parent_buf, ult) = path_split_last path in do {
        (d, s) \<leftarrow> dir_de path parent_buf s;
        case d of
          None \<Rightarrow> Some (- 1, s)
        | Some c \<Rightarrow> com_fat (fat32_delete c (fat32_normalize ult)) s })"

definition vfs_rename :: "u8 list \<Rightarrow> u8 list \<Rightarrow> vfs \<Rightarrow> (int \<times> vfs) option" where
  "vfs_rename old new s =
     (if \<not> cwd_montado s then Some (- 1, s)
      else let (old_parent, old_last) = path_split_last old; (new_parent, new_last) = path_split_last new in do {
        (o', s) \<leftarrow> dir_de old old_parent s;
        case o' of
          None \<Rightarrow> Some (- 1, s)
        | Some oc \<Rightarrow> do {
            (n, s) \<leftarrow> dir_de new new_parent s;
            case n of
              None \<Rightarrow> Some (- 1, s)
            | Some nc \<Rightarrow>
                if oc = nc then com_fat (fat32_rename oc (fat32_normalize old_last) (fat32_normalize new_last)) s
                else do { (_, s) \<leftarrow> com_fat (fat32_find oc (fat32_normalize old_last)) s; Some (- 1, s) } } })"

section \<open>The current directory\<close>

text \<open>Going up: the buffer after the last component has been cut.\<close>

fun sobe_barra :: "u8 list \<Rightarrow> nat \<Rightarrow> u8 list" where
  "sobe_barra b 0 = b"
| "sobe_barra b (Suc i) = (if i = 0 then b else if b ! i = barra8 then b[i := 0] else sobe_barra b i)"

definition sobe_path :: "u8 list \<Rightarrow> u8 list" where
  "sobe_path b =
     (let len = k_strlen b in
      if 1 < len then
        let b = sobe_barra b len in if k_strlen b = 0 then b[0 := barra8, 1 := 0] else b
      else b)"

text \<open>Going down: the separator when it is missing, then the name.\<close>

definition desce_path :: "u8 list \<Rightarrow> u8 list \<Rightarrow> u8 list" where
  "desce_path b nome =
     (let len = k_strlen b;
          b = (if b ! (len - 1) \<noteq> barra8 then b[len := barra8, len + 1 := 0] else b);
          nlen = k_strlen b
      in splice b nlen (strn nome (255 - nlen)))"

definition vfs_chdir :: "u8 list \<Rightarrow> vfs \<Rightarrow> (int \<times> vfs) option" where
  "vfs_chdir path s =
     (if \<not> cwd_montado s then Some (- 1, s)
      else do {
        (r, s) \<leftarrow>
          (if char_at path 0 = barra8 then do {
             (r, s) \<leftarrow> resolve_dir path s;
             Some (map_option (\<lambda>(_, c). (c, strn path 255 @ [0])) r, s) }
           else if k_strcmp path [ponto8, ponto8] = 0 then do {
             (e, s) \<leftarrow> com_fat (fat32_find (cwd_cluster s) (ponto8 # ponto8 # replicate 9 espaco)) s;
             Some (map_option (\<lambda>e. (if fe_cluster e = 0 then fat32_root_cluster (v_fat s) else fe_cluster e,
               sobe_path (strn (cstr (cwd_path s)) 255 @ [0]))) e, s) }
           else do {
             (e, s) \<leftarrow> com_fat (fat32_find (cwd_cluster s) (fat32_normalize path)) s;
             Some (case e of
               None \<Rightarrow> None
             | Some e \<Rightarrow> if \<not> fe_is_dir e then None else Some (fe_cluster e, desce_path (strn (cstr (cwd_path s)) 255 @ [0]) path), s) });
        Some (case r of
          None \<Rightarrow> (- 1, s)
        | Some (c, novo) \<Rightarrow> (0, s\<lparr>cwd_cluster := c, cwd_path := strn (cstr novo) 255 @ [0]\<rparr>)) })"

definition vfs_append :: "u8 list \<Rightarrow> u8 list \<Rightarrow> u32 \<Rightarrow> vfs \<Rightarrow> (u32 option \<times> vfs) option" where
  "vfs_append path src tam s =
     (if \<not> cwd_montado s \<or> tam = 0 then Some (None, s)
      else do {
        (e, s) \<leftarrow> vfs_open path (replicate 13 0) s;
        (existing, s) \<leftarrow> (case e of
            Some e \<Rightarrow>
              if ve_is_dir e then Some (0, s)
              else let existing = (if VFS_APPEND_MAX - tam < ve_size e then VFS_APPEND_MAX - tam else ve_size e) in
                if 0 < existing then do {
                  (r, s) \<leftarrow> vfs_read path (append_buf s) existing s;
                  Some (existing, s\<lparr>append_buf := snd r\<rparr>) }
                else Some (existing, s)
          | None \<Rightarrow> Some (0, s));
        let tam = (if VFS_APPEND_MAX < existing + tam then VFS_APPEND_MAX - existing else tam);
        let s = s\<lparr>append_buf := splice (append_buf s) (unat existing) (take (unat tam) src)\<rparr>;
        vfs_write path (append_buf s) (existing + tam) s })"

section \<open>Splitting a path\<close>

lemma ult_barra_some:
  "k < n \<Longrightarrow> b ! k = barra8 \<Longrightarrow> \<forall>j. k < j \<longrightarrow> j < n \<longrightarrow> b ! j \<noteq> barra8 \<Longrightarrow> ult_barra b n = Some k"
  by (induction n) (auto simp: less_Suc_eq)

lemma ult_barra_none: "\<forall>j < n. 0 < j \<longrightarrow> b ! j \<noteq> barra8 \<Longrightarrow> ult_barra b n \<in> {None, Some 0}"
  by (induction n) auto

lemma nth_sufixo: "length p < j \<Longrightarrow> j < length p + 1 + length q \<Longrightarrow> x \<notin> set q \<Longrightarrow> (p @ y # q @ r) ! j \<noteq> x"
proof -
  assume h: "length p < j" "j < length p + 1 + length q" "x \<notin> set q"
  then have i: "j = length p + Suc (j - length p - 1)" "j - length p - 1 < length q" by linarith+
  then have "(p @ y # q @ r) ! j = q ! (j - length p - 1)" by (subst i(1)) (simp add: nth_append)
  then show ?thesis using i(2) h(3) nth_mem by metis
qed

lemma cstr_update_0: "is_cstr p \<Longrightarrow> take (length p) b = p \<Longrightarrow> length p < length b \<Longrightarrow> cstr (b[length p := 0]) = p"
  by (metis cstr_append_0 upd_conv_take_nth_drop)

text \<open>\<open>path_split_last\<close> on a path that fits its buffer.  A path \<open>pai/nome\<close> with a non-empty \<open>pai\<close> and no slash in
  \<open>nome\<close> gives exactly \<open>pai\<close> and \<open>nome\<close>; a path without a slash after its first character gives the empty parent
  and itself, the leading slash of \<open>/nome\<close> included.\<close>

lemma path_split_last_ok:
  assumes "is_cstr pai" "is_cstr nome" "barra8 \<notin> set nome" "length pai \<le> 254"
  shows "(let (buf, ult) = path_split_last (if pai = [] then nome else pai @ barra8 # nome) in cstr buf = pai \<and> ult = nome) \<and>
    (let (buf, ult) = path_split_last (barra8 # nome) in cstr buf = [] \<and> ult = barra8 # nome)"
proof -
  have raiz: "cstr (fst (path_split_last q)) = [] \<and> snd (path_split_last q) = q" if "ult_barra q (k_strlen q) \<in> {None, Some 0}" for q
    using that cstr_update_0 [of "[]" "strn q 255 @ [0]"] by (auto simp: path_split_last_def)
  have b: "is_cstr [barra8]" by (simp add: barra8_def)
  have l: "k_strlen nome = length nome" "k_strlen (barra8 # nome) = Suc (length nome)" "is_cstr (pai @ barra8 # nome)"
    using assms(1,2) b by (simp_all add: k_strlen_eq)
  have n1: "ult_barra nome (k_strlen nome) \<in> {None, Some 0}"
    using assms(3) l(1) by (intro ult_barra_none) (metis nth_mem)
  have n2: "ult_barra (barra8 # nome) (k_strlen (barra8 # nome)) \<in> {None, Some 0}"
  proof (intro ult_barra_none allI impI)
    fix j :: nat assume "j < k_strlen (barra8 # nome)" "0 < j"
    then show "(barra8 # nome) ! j \<noteq> barra8" using nth_sufixo [of "[]" j nome barra8 barra8 "[]"] assms(3) l(2) by simp
  qed
  have p: "cstr (fst (path_split_last (pai @ barra8 # nome))) = pai \<and> snd (path_split_last (pai @ barra8 # nome)) = nome" if "pai \<noteq> []"
  proof -
    let ?q = "pai @ barra8 # nome"
    have "ult_barra ?q (k_strlen ?q) = Some (length pai)"
      using l(3) nth_sufixo [of pai _ nome barra8 barra8 "[]"] assms(3) by (intro ult_barra_some) (simp_all add: k_strlen_eq nth_append)
    moreover have "length pai \<noteq> 0" using that by simp
    then obtain i where i: "length pai = Suc i" by (cases "length pai") auto
    ultimately have "path_split_last ?q = ((strn ?q 255 @ [0])[length pai := 0], nome)" by (simp add: path_split_last_def)
    moreover have "take (length pai) (strn ?q 255 @ [0]) = pai" using assms(4) l(3) by (simp add: strn_def min_def)
    ultimately show ?thesis using cstr_update_0 [OF assms(1), of "strn ?q 255 @ [0]"] assms(4) by simp
  qed
  show ?thesis using raiz [OF n1] raiz [OF n2] p by (auto simp: case_prod_beta)
qed

section \<open>Going down and up\<close>

lemma sobe_barra_corta:
  "0 < k \<Longrightarrow> k < n \<Longrightarrow> b ! k = barra8 \<Longrightarrow> \<forall>j. k < j \<longrightarrow> j < n \<longrightarrow> b ! j \<noteq> barra8 \<Longrightarrow> sobe_barra b n = b[k := 0]"
  by (induction n) (auto simp: less_Suc_eq)

lemma sobe_barra_nada: "\<forall>j < n. 0 < j \<longrightarrow> b ! j \<noteq> barra8 \<Longrightarrow> sobe_barra b n = b"
  by (induction n) auto

lemma cstr_acrescenta:
  assumes "is_cstr q" "is_cstr nome" "length nome < n" "take (length q) b = q" "length q + n \<le> length b"
  shows "\<exists>r. splice b (length q) (strn nome n) = q @ nome @ 0 # r"
proof -
  obtain m where m: "n - length nome = Suc m" using assms(3) by (metis Suc_diff_Suc)
  have "strn nome n = nome @ 0 # replicate m 0" using assms(2,3) m by (simp add: strn_def)
  then show ?thesis using assms(4) by (simp add: splice_def)
qed

text \<open>The buffer after going down: the path, a separator unless the path is the root, the name.\<close>

lemma desce_ok:
  assumes "is_cstr p" "p \<noteq> []" "p = [barra8] \<or> last p \<noteq> barra8" "is_cstr nome" "length p + length nome < 254"
  shows "\<exists>r. desce_path (strn p 255 @ [0]) nome = p @ (if p = [barra8] then [] else [barra8]) @ nome @ 0 # r"
proof -
  let ?b = "strn p 255 @ [0]"
  have b: "?b = p @ replicate (256 - length p) 0" "length ?b = 256"
  proof -
    have e: "256 - length p = Suc (255 - length p)" using assms(5) by simp
    show "?b = p @ replicate (256 - length p) 0" unfolding e using assms(1,5) by (simp add: strn_def replicate_append_same)
  qed simp
  have len: "k_strlen ?b = length p" using assms(1,5) by (simp add: k_strlen_eq cstr_strn)
  have tk: "take (length p) ?b = p" unfolding b(1) by simp
  have ult: "?b ! (length p - 1) = last p" using assms(2) by (simp add: b(1) nth_append last_conv_nth)
  show ?thesis
  proof (cases "p = [barra8]")
    case True
    have "desce_path ?b nome = splice ?b (length p) (strn nome (255 - length p))"
    proof -
      have "?b ! (length p - 1) = barra8" using ult True by simp
      then show ?thesis unfolding desce_path_def Let_def len by (simp only: not_True_eq_False simp_thms if_False len)
    qed
    moreover have "\<exists>r. splice ?b (length p) (strn nome (255 - length p)) = p @ nome @ 0 # r"
      using assms(5) by (intro cstr_acrescenta [OF assms(1,4) _ tk]) simp_all
    ultimately show ?thesis using True by simp
  next
    case False
    then have n: "last p \<noteq> barra8" using assms(3) by simp
    define c where "c = ?b[length p := barra8, length p + 1 := 0]"
    have c: "c = (p @ [barra8]) @ 0 # replicate (254 - length p) 0"
    proof -
      have k: "256 - length p = Suc (Suc (254 - length p))" using assms(5) by linarith
      show ?thesis unfolding c_def b(1) k by (simp add: list_update_append)
    qed
    have q: "is_cstr (p @ [barra8])" using assms(1) by (simp add: barra8_def)
    then have lc: "k_strlen c = length p + 1" unfolding c k_strlen_eq cstr_append_0 [OF q] by simp
    have "\<exists>r. splice c (length (p @ [barra8])) (strn nome (254 - length p)) = (p @ [barra8]) @ nome @ 0 # r"
      using assms(5) by (intro cstr_acrescenta [OF q assms(4)]) (simp_all add: c)
    moreover have "desce_path ?b nome = splice c (length (p @ [barra8])) (strn nome (254 - length p))"
    proof -
      have "?b ! (length p - 1) \<noteq> barra8" using n ult by simp
      then show ?thesis
        unfolding desce_path_def Let_def len by (simp only: not_False_eq_True if_True len c_def [symmetric] lc) simp
    qed
    ultimately show ?thesis using False by simp
  qed
qed

text \<open>the current path after \<open>cd nome\<close> followed by \<open>cd ..\<close>.  In a directory below the root it is the path of
  before; in the root it stays \<open>/nome\<close>, because the loop that looks for the last slash never tests position 0.\<close>

theorem vfs_desce_e_sobe:
  assumes "is_cstr p" "p \<noteq> []" "p = [barra8] \<or> last p \<noteq> barra8 \<and> 1 < length p"
    and "is_cstr nome" "nome \<noteq> []" "barra8 \<notin> set nome" "length p + length nome < 254"
  shows "cstr (sobe_path (desce_path (strn p 255 @ [0]) nome)) = (if p = [barra8] then barra8 # nome else p)"
proof (cases "p = [barra8]")
  case True
  then obtain r where r: "desce_path (strn p 255 @ [0]) nome = barra8 # nome @ 0 # r"
    using desce_ok [OF assms(1,2) _ assms(4,7)] by auto
  have c: "is_cstr (barra8 # nome)" using assms(4) by (simp add: barra8_def)
  then have s: "cstr (barra8 # nome @ 0 # r) = barra8 # nome" using cstr_append_0 [OF c, of r] by simp
  have "sobe_barra (barra8 # nome @ 0 # r) (Suc (length nome)) = barra8 # nome @ 0 # r"
    using nth_sufixo [of "[]" _ nome barra8 barra8 "0 # r"] assms(6) by (intro sobe_barra_nada) simp
  then show ?thesis
    unfolding r sobe_path_def Let_def k_strlen_eq s using True s assms(5) by (simp del: sobe_barra.simps)
next
  case False
  then obtain r where r: "desce_path (strn p 255 @ [0]) nome = p @ barra8 # nome @ 0 # r"
    using desce_ok [OF assms(1,2) _ assms(4,7)] assms(3) by auto
  let ?c = "p @ barra8 # nome @ 0 # r"
  have c: "is_cstr (p @ barra8 # nome)" using assms(1,4) by (simp add: barra8_def)
  have s: "cstr ?c = p @ barra8 # nome" using cstr_append_0 [OF c, of r] by simp
  have "sobe_barra ?c (length (p @ barra8 # nome)) = ?c[length p := 0]"
    using nth_sufixo [of p _ nome barra8 barra8 "0 # r"] assms(2,6) by (intro sobe_barra_corta) (simp_all add: nth_append)
  moreover have "cstr (?c[length p := 0]) = p" using assms(1) by (intro cstr_update_0) simp_all
  ultimately show ?thesis using False assms(2,3) s by (simp add: r sobe_path_def k_strlen_eq)
qed

theorem vfs_desce_e_sobe_witness:
  "cstr (sobe_path (desce_path (strn (bytes ''/docs'') 255 @ [0]) (bytes ''src''))) = bytes ''/docs'' \<and>
   cstr (sobe_path (desce_path (strn (bytes ''/'') 255 @ [0]) (bytes ''src''))) = bytes ''/src''"
  using vfs_desce_e_sobe [of "bytes ''/docs''" "bytes ''src''"] vfs_desce_e_sobe [of "bytes ''/''" "bytes ''src''"]
  by (simp add: barra8_def)

end
