(* ===== verification/Pmm.thy ===== *)
theory Pmm
  imports Prelude
begin

text \<open>
  \<^verbatim>\<open>kernel/mem/pmm.c\<close>: the physical page allocator.  The state is the file's three statics; the
  bitmap is the array \<^verbatim>\<open>bitmap[MAX_PAGINAS / 8]\<close> as a function of its index.  The loops run
  over page numbers below \<^verbatim>\<open>total_paginas\<close> (at most 262144), so their counters do not wrap and
  are natural numbers; the address arithmetic before them is on 32-bit words, as in the code.  The
  memory map GRUB leaves behind is read through the parameter \<open>em\<close> (the entry at an address); the
  linker symbol \<^verbatim>\<open>_end\<close> and the address of \<^verbatim>\<open>bitmap\<close> are parameters too.  The messages
  \<^verbatim>\<open>pmm_init\<close> prints are not modelled.

  The abstraction \<open>livres\<close> is the set of free pages; the operations are shown to refine the
  interface \<open>page_allocator\<close>, which is what the clients (paging, slab) rely on.
\<close>

section \<open>State and bitmap operations\<close>

definition PAGE_SIZE :: u32 where "PAGE_SIZE = 4096"
definition MAX_PAGINAS :: u32 where "MAX_PAGINAS = 1024 * 256"

record pmm =
  bitmap :: "nat \<Rightarrow> u8"
  total_paginas :: u32
  paginas_livres :: u32

definition bit_setar :: "nat \<Rightarrow> pmm \<Rightarrow> pmm" where
  "bit_setar p s = s\<lparr>bitmap := (bitmap s)(p div 8 := bitmap s (p div 8) OR push_bit (p mod 8) 1)\<rparr>"

definition bit_limpar :: "nat \<Rightarrow> pmm \<Rightarrow> pmm" where
  "bit_limpar p s =
     s\<lparr>bitmap := (bitmap s)(p div 8 := bitmap s (p div 8) AND NOT (push_bit (p mod 8) 1))\<rparr>"

definition bit_checar :: "nat \<Rightarrow> pmm \<Rightarrow> u8" where
  "bit_checar p s = bitmap s (p div 8) AND push_bit (p mod 8) 1"

section \<open>Marking ranges\<close>

function usado_loop :: "nat \<Rightarrow> nat \<Rightarrow> pmm \<Rightarrow> pmm" where
  "usado_loop i fim s =
     (if i < fim \<and> i < unat (total_paginas s) then
        usado_loop (Suc i) fim
          (if bit_checar i s = 0 then
             (let s' = bit_setar i s in
              if paginas_livres s' > 0 then s'\<lparr>paginas_livres := paginas_livres s' - 1\<rparr> else s')
           else s)
      else s)"
  by pat_completeness auto
termination
  by (relation "measure (\<lambda>(i, fim, s). fim - i)") auto

function livre_loop :: "nat \<Rightarrow> nat \<Rightarrow> pmm \<Rightarrow> pmm" where
  "livre_loop i fim s =
     (if i < fim \<and> i < unat (total_paginas s) then
        livre_loop (Suc i) fim
          (if bit_checar i s \<noteq> 0 then
             (let s' = bit_limpar i s in s'\<lparr>paginas_livres := paginas_livres s' + 1\<rparr>)
           else s)
      else s)"
  by pat_completeness auto
termination
  by (relation "measure (\<lambda>(i, fim, s). fim - i)") auto

declare usado_loop.simps [simp del] livre_loop.simps [simp del]

definition pmm_marcar_usado :: "u32 \<Rightarrow> u32 \<Rightarrow> pmm \<Rightarrow> pmm" where
  "pmm_marcar_usado base tamanho s =
     usado_loop (unat (base div PAGE_SIZE)) (unat ((base + tamanho + PAGE_SIZE - 1) div PAGE_SIZE)) s"

definition pmm_marcar_livre :: "u32 \<Rightarrow> u32 \<Rightarrow> pmm \<Rightarrow> pmm" where
  "pmm_marcar_livre base tamanho s =
     livre_loop (unat (base div PAGE_SIZE)) (unat ((base + tamanho) div PAGE_SIZE)) s"

section \<open>Initialisation from the multiboot map\<close>

record mmap_entry =
  me_size :: u32
  me_base_low :: u32
  me_base_high :: u32
  me_length_low :: u32
  me_length_high :: u32
  me_type :: u32

record multiboot_info =
  mb_flags :: u32
  mem_upper :: u32
  mmap_length :: u32
  mmap_addr :: u32

definition MULTIBOOT_FLAG_MMAP :: u32 where "MULTIBOOT_FLAG_MMAP = 0x040"
definition MMAP_TYPE_DISPONIVEL :: u32 where "MMAP_TYPE_DISPONIVEL = 1"

text \<open>The walk over the map trusts the \<open>size\<close> fields: it returns \<open>None\<close> when it never ends.\<close>

definition mmap_passo :: "mmap_entry \<Rightarrow> pmm \<Rightarrow> pmm" where
  "mmap_passo e s =
     (if me_type e = MMAP_TYPE_DISPONIVEL \<and> me_base_high e = 0
      then pmm_marcar_livre (me_base_low e) (me_length_low e) s else s)"

partial_function (option) mmap_loop ::
    "(u32 \<Rightarrow> mmap_entry) \<Rightarrow> multiboot_info \<Rightarrow> u32 \<Rightarrow> pmm \<Rightarrow> pmm option" where
  "mmap_loop em mb offset s =
     (if offset < mmap_length mb then
        mmap_loop em mb (offset + (me_size (em (mmap_addr mb + offset)) + 4))
          (mmap_passo (em (mmap_addr mb + offset)) s)
      else Some s)"

definition pmm_vazio :: "u32 \<Rightarrow> pmm" where
  "pmm_vazio upper =
     (let ram_total_kb = upper + 1024;
          total = (ram_total_kb * 1024) div PAGE_SIZE
      in \<lparr>bitmap = (\<lambda>_. 0xFF),
          total_paginas = (if total > MAX_PAGINAS then MAX_PAGINAS else total),
          paginas_livres = 0\<rparr>)"

definition reservar :: "u32 \<Rightarrow> u32 \<Rightarrow> pmm \<Rightarrow> pmm" where
  "reservar end_addr bitmap_addr s =
     pmm_marcar_usado bitmap_addr (MAX_PAGINAS div 8)
       (pmm_marcar_usado 0x100000 (end_addr - 0x100000 + PAGE_SIZE)
         (pmm_marcar_usado 0x0 0x100000 s))"

definition pmm_init ::
    "(u32 \<Rightarrow> mmap_entry) \<Rightarrow> u32 \<Rightarrow> u32 \<Rightarrow> multiboot_info \<Rightarrow> pmm option" where
  "pmm_init em end_addr bitmap_addr mb =
     (let s0 = pmm_vazio (mem_upper mb) in
      map_option (reservar end_addr bitmap_addr)
        (if mb_flags mb AND MULTIBOOT_FLAG_MMAP \<noteq> 0 then mmap_loop em mb 0 s0
         else Some (pmm_marcar_livre 0x100000 (mem_upper mb * 1024) s0)))"

section \<open>Allocation and release\<close>

function alloc_loop :: "nat \<Rightarrow> pmm \<Rightarrow> u32 \<times> pmm" where
  "alloc_loop i s =
     (if i < unat (total_paginas s) then
        (if bit_checar i s = 0 then
           (let s' = bit_setar i s in
            (of_nat i * PAGE_SIZE, s'\<lparr>paginas_livres := paginas_livres s' - 1\<rparr>))
         else alloc_loop (Suc i) s)
      else (0, s))"
  by pat_completeness auto
termination
  by (relation "measure (\<lambda>(i, s). unat (total_paginas s) - i)") auto

declare alloc_loop.simps [simp del]

definition pmm_alloc :: "pmm \<Rightarrow> u32 \<times> pmm" where
  "pmm_alloc s = alloc_loop 0 s"

definition pmm_free :: "u32 \<Rightarrow> pmm \<Rightarrow> pmm" where
  "pmm_free endereco s =
     (let pagina = endereco div PAGE_SIZE in
      if pagina < total_paginas s \<and> bit_checar (unat pagina) s \<noteq> 0 then
        (let s' = bit_limpar (unat pagina) s in s'\<lparr>paginas_livres := paginas_livres s' + 1\<rparr>)
      else s)"

definition pmm_livres :: "pmm \<Rightarrow> u32" where "pmm_livres s = paginas_livres s"
definition pmm_total :: "pmm \<Rightarrow> u32" where "pmm_total s = total_paginas s"

section \<open>The free set and the counter invariant\<close>

definition usada :: "pmm \<Rightarrow> nat \<Rightarrow> bool" where
  "usada s i \<longleftrightarrow> bit (bitmap s (i div 8)) (i mod 8)"

definition livres :: "pmm \<Rightarrow> nat set" where
  "livres s = {i. i < unat (total_paginas s) \<and> \<not> usada s i}"

definition pmm_inv :: "pmm \<Rightarrow> bool" where
  "pmm_inv s \<longleftrightarrow> total_paginas s \<le> MAX_PAGINAS \<and> unat (paginas_livres s) = card (livres s)"

lemma bit_checar_usada: "bit_checar p s \<noteq> 0 \<longleftrightarrow> usada s p"
proof -
  have "bitmap s (p div 8) AND push_bit (p mod 8) 1 =
      (if bit (bitmap s (p div 8)) (p mod 8) then push_bit (p mod 8) 1 else 0)"
    by (rule bit_word_eqI) (auto simp: bit_simps)
  moreover have "bit (push_bit (p mod 8) (1 :: u8)) (p mod 8)"
    by (simp add: bit_simps)
  then have "push_bit (p mod 8) (1 :: u8) \<noteq> 0"
    by (metis bit_0_eq bot_apply bot_bool_def)
  ultimately show ?thesis by (simp add: bit_checar_def usada_def)
qed

lemma usada_setar [simp]: "usada (bit_setar p s) i \<longleftrightarrow> i = p \<or> usada s i"
proof (cases "i div 8 = p div 8")
  case True
  then have "i mod 8 = p mod 8 \<longleftrightarrow> i = p"
    by (metis div_mult_mod_eq)
  with True show ?thesis
    by (auto simp: usada_def bit_setar_def bit_simps)
next
  case False
  then show ?thesis by (auto simp: usada_def bit_setar_def)
qed

lemma usada_limpar [simp]: "usada (bit_limpar p s) i \<longleftrightarrow> i \<noteq> p \<and> usada s i"
proof (cases "i div 8 = p div 8")
  case True
  then have "i mod 8 = p mod 8 \<longleftrightarrow> i = p"
    by (metis div_mult_mod_eq)
  with True show ?thesis
    by (auto simp: usada_def bit_limpar_def bit_simps)
next
  case False
  then show ?thesis by (auto simp: usada_def bit_limpar_def)
qed

lemma usada_frame [simp]:
  "usada (s\<lparr>paginas_livres := n\<rparr>) i = usada s i" "livres (s\<lparr>paginas_livres := n\<rparr>) = livres s"
  by (simp_all add: usada_def livres_def)

lemma bit_ops_frame [simp]:
  "total_paginas (bit_setar p s) = total_paginas s" "total_paginas (bit_limpar p s) = total_paginas s"
  "paginas_livres (bit_setar p s) = paginas_livres s"
  "paginas_livres (bit_limpar p s) = paginas_livres s"
  by (simp_all add: bit_setar_def bit_limpar_def)

lemma livres_setar [simp]: "livres (bit_setar p s) = livres s - {p}"
  by (auto simp: livres_def)

lemma livres_limpar [simp]:
  "livres (bit_limpar p s) = livres s \<union> (if p < unat (total_paginas s) then {p} else {})"
  by (auto simp: livres_def)

lemma finite_livres [simp]: "finite (livres s)"
  by (simp add: livres_def)

lemma card_livres: "card (livres s) \<le> unat (total_paginas s)"
  by (rule order.trans [OF card_mono [of "{..<unat (total_paginas s)}"]]) (auto simp: livres_def)

lemma pmm_inv_bounds: "pmm_inv s \<Longrightarrow> unat (total_paginas s) \<le> 262144"
  by (simp add: pmm_inv_def MAX_PAGINAS_def word_le_nat_alt)

section \<open>One step: taking and giving back a page\<close>

definition tomar :: "nat \<Rightarrow> pmm \<Rightarrow> pmm" where
  "tomar p s = (bit_setar p s)\<lparr>paginas_livres := paginas_livres s - 1\<rparr>"

definition devolver :: "nat \<Rightarrow> pmm \<Rightarrow> pmm" where
  "devolver p s = (bit_limpar p s)\<lparr>paginas_livres := paginas_livres s + 1\<rparr>"

lemma tomar_simps [simp]:
  "livres (tomar p s) = livres s - {p}" "total_paginas (tomar p s) = total_paginas s"
  by (simp_all add: tomar_def)

lemma devolver_simps [simp]:
  "livres (devolver p s) = livres s \<union> (if p < unat (total_paginas s) then {p} else {})"
  "total_paginas (devolver p s) = total_paginas s"
  by (simp_all add: devolver_def)

lemma inv_free_pos: "pmm_inv s \<Longrightarrow> p \<in> livres s \<Longrightarrow> 0 < paginas_livres s"
  by (metis card_gt_0_iff empty_iff finite_livres pmm_inv_def unat_gt_0 word_gt_0)

lemma pmm_inv_tomar: "pmm_inv s \<Longrightarrow> p \<in> livres s \<Longrightarrow> pmm_inv (tomar p s)"
  using inv_free_pos [of s p]
  by (auto simp: pmm_inv_def tomar_def unat_minus_one word_gt_0 card_Diff_singleton)

lemma pmm_inv_devolver:
  assumes "pmm_inv s" "p < unat (total_paginas s)" "usada s p"
  shows "pmm_inv (devolver p s)"
proof -
  from assms(3) have new: "p \<notin> livres s" by (simp add: livres_def)
  from assms(1) have "unat (paginas_livres s) = card (livres s)" by (simp add: pmm_inv_def)
  moreover have "card (livres s) \<le> 262144"
    using card_livres [of s] pmm_inv_bounds [OF assms(1)] by linarith
  ultimately have "unat (paginas_livres s + 1) = Suc (card (livres s))"
    by (simp add: unat_word_ariths)
  with assms new show ?thesis by (simp add: pmm_inv_def devolver_def)
qed

section \<open>The loops on the free set\<close>

lemma usada_tomar [simp]: "usada (tomar p s) i \<longleftrightarrow> i = p \<or> usada s i"
  "usada (devolver p s) i \<longleftrightarrow> i \<noteq> p \<and> usada s i"
  by (simp_all add: tomar_def devolver_def)

lemma usado_corpo:
  assumes "pmm_inv s" "i < unat (total_paginas s)"
  shows "(if bit_checar i s = 0 then
             (let s' = bit_setar i s in
              if paginas_livres s' > 0 then s'\<lparr>paginas_livres := paginas_livres s' - 1\<rparr> else s')
           else s) = (if usada s i then s else tomar i s)"
  using inv_free_pos [of s i] assms bit_checar_usada [of i s]
  by (auto simp: tomar_def livres_def Let_def)

lemma livre_corpo:
  "(if bit_checar i s \<noteq> 0 then
      (let s' = bit_limpar i s in s'\<lparr>paginas_livres := paginas_livres s' + 1\<rparr>)
    else s) = (if usada s i then devolver i s else s)"
  using bit_checar_usada [of i s] by (simp add: devolver_def)

lemma usado_loop_spec:
  "pmm_inv s \<Longrightarrow> pmm_inv (usado_loop i fim s) \<and>
     livres (usado_loop i fim s) = livres s - {i..<fim} \<and>
     total_paginas (usado_loop i fim s) = total_paginas s"
proof (induction i fim s rule: usado_loop.induct)
  case (1 i fim s)
  show ?case
  proof (cases "i < fim \<and> i < unat (total_paginas s)")
    case False
    then show ?thesis
      using 1 by (subst (1 2 3) usado_loop.simps) (auto simp: livres_def)
  next
    case True
    define t where "t = (if usada s i then s else tomar i s)"
    have "pmm_inv t" "livres t = livres s - {i}" "total_paginas t = total_paginas s"
      using "1.prems" True by (auto simp: t_def livres_def intro!: pmm_inv_tomar)
    moreover have "{i..<fim} = insert i {Suc i..<fim}" using True by auto
    moreover have "usado_loop i fim s = usado_loop (Suc i) fim t"
      using True by (subst usado_loop.simps) (simp add: t_def usado_corpo "1.prems")
    ultimately show ?thesis
      using "1.IH" True by (auto simp: t_def usado_corpo "1.prems")
  qed
qed

lemma livre_loop_spec:
  "pmm_inv s \<Longrightarrow> pmm_inv (livre_loop i fim s) \<and>
     livres (livre_loop i fim s) = livres s \<union> {i..<min fim (unat (total_paginas s))} \<and>
     total_paginas (livre_loop i fim s) = total_paginas s"
proof (induction i fim s rule: livre_loop.induct)
  case (1 i fim s)
  show ?case
  proof (cases "i < fim \<and> i < unat (total_paginas s)")
    case False
    then show ?thesis
      using 1 by (subst (1 2 3) livre_loop.simps) auto
  next
    case True
    define t where "t = (if usada s i then devolver i s else s)"
    have "pmm_inv t" "livres t = insert i (livres s)" "total_paginas t = total_paginas s"
      using "1.prems" True by (auto simp: t_def livres_def intro!: pmm_inv_devolver)
    moreover have "{i..<min fim n} = insert i {Suc i..<min fim n}" if "i < n" for n
      using True that by auto
    moreover have "livre_loop i fim s = livre_loop (Suc i) fim t"
      using True by (subst livre_loop.simps) (simp add: t_def livre_corpo)
    ultimately show ?thesis
      using "1.IH" True by (auto simp: t_def livre_corpo)
  qed
qed

text \<open>The word arithmetic of the two range operations, on page numbers.\<close>

definition paginas_cobertas :: "u32 \<Rightarrow> u32 \<Rightarrow> nat set" where
  "paginas_cobertas base tamanho =
     {unat (base div PAGE_SIZE)..<unat ((base + tamanho + PAGE_SIZE - 1) div PAGE_SIZE)}"

lemma marcar_usado_spec:
  "pmm_inv s \<Longrightarrow> pmm_inv (pmm_marcar_usado b t s) \<and>
     livres (pmm_marcar_usado b t s) = livres s - paginas_cobertas b t \<and>
     total_paginas (pmm_marcar_usado b t s) = total_paginas s"
  by (simp add: pmm_marcar_usado_def paginas_cobertas_def usado_loop_spec)

lemma marcar_livre_spec:
  "pmm_inv s \<Longrightarrow> pmm_inv (pmm_marcar_livre b t s) \<and>
     livres s \<subseteq> livres (pmm_marcar_livre b t s) \<and>
     total_paginas (pmm_marcar_livre b t s) = total_paginas s"
  by (auto simp: pmm_marcar_livre_def livre_loop_spec)

text \<open>When the end of the range does not wrap, every page that meets it is covered.\<close>

lemma paginas_cobertas_cover:
  assumes "unat base + unat tamanho + 4095 < 2 ^ 32" "unat base \<le> a" "a < unat base + unat tamanho"
  shows "a div 4096 \<in> paginas_cobertas base tamanho"
proof -
  have bt: "unat (base + tamanho) = unat base + unat tamanho"
    using assms(1) by (intro unat_add_lem [THEN iffD1]) simp
  have e: "base + tamanho + PAGE_SIZE - 1 = base + tamanho + 4095"
    by (simp add: PAGE_SIZE_def)
  have "unat (base + tamanho + 4095) = unat (base + tamanho) + unat (4095 :: u32)"
    using assms(1) bt by (intro unat_add_lem [THEN iffD1]) simp
  then have "unat (base + tamanho + PAGE_SIZE - 1) = unat base + unat tamanho + 4095"
    unfolding e by (simp add: bt)
  then show ?thesis
    using assms by (auto simp: paginas_cobertas_def unat_div PAGE_SIZE_def div_le_mono)
qed

section \<open>Allocation on the free set\<close>

lemma alloc_loop_spec:
  "alloc_loop i s =
     (if livres s \<inter> {i..} = {} then (0, s)
      else let p = Min (livres s \<inter> {i..}) in (of_nat p * PAGE_SIZE, tomar p s))"
proof (induction i s rule: alloc_loop.induct)
  case (1 i s)
  show ?case
  proof (cases "i < unat (total_paginas s)")
    case False
    then have "livres s \<inter> {i..} = {}" by (auto simp: livres_def)
    with False show ?thesis by (subst alloc_loop.simps) simp
  next
    case True
    show ?thesis
    proof (cases "usada s i")
      case used: True
      then have "livres s \<inter> {i..} = livres s \<inter> {Suc i..}"
        by (auto simp: livres_def) (metis Suc_leI le_neq_implies_less)
      with used True 1 show ?thesis
        by (subst alloc_loop.simps) (use bit_checar_usada [of i s] in simp)
    next
      case free: False
      with True have "i \<in> livres s \<inter> {i..}" by (simp add: livres_def)
      then have "Min (livres s \<inter> {i..}) = i" "livres s \<inter> {i..} \<noteq> {}"
        by (auto intro!: Min_eqI)
      with free True show ?thesis
        by (subst alloc_loop.simps)
          (use bit_checar_usada [of i s] in \<open>simp add: Let_def tomar_def\<close>)
    qed
  qed
qed

lemma pmm_alloc_spec:
  "pmm_alloc s =
     (if livres s = {} then (0, s) else (of_nat (Min (livres s)) * PAGE_SIZE, tomar (Min (livres s)) s))"
  by (simp add: pmm_alloc_def alloc_loop_spec Let_def)

lemma pmm_free_spec:
  "pmm_free a s =
     (if unat a div 4096 < unat (total_paginas s) \<and> usada s (unat a div 4096)
      then devolver (unat a div 4096) s else s)"
  using bit_checar_usada [of "unat a div 4096" s]
  by (simp add: pmm_free_def devolver_def word_less_nat_alt unat_div PAGE_SIZE_def)

lemma unat_page_addr:
  "p < 262144 \<Longrightarrow> unat (of_nat p * PAGE_SIZE) = p * 4096"
  by (simp add: PAGE_SIZE_def unat_word_ariths unat_of_nat)

section \<open>The interface the clients use\<close>

text \<open>A page allocator hands out the lowest free page and takes pages back; \<open>livre\<close> is its
  abstract state.  Address 0 is both page 0 and the failure value.\<close>

locale page_allocator =
  fixes alloc :: "'s \<Rightarrow> u32 \<times> 's"
    and free :: "u32 \<Rightarrow> 's \<Rightarrow> 's"
    and livre :: "'s \<Rightarrow> nat set"
    and gerenciadas :: "'s \<Rightarrow> nat"
    and inv :: "'s \<Rightarrow> bool"
  assumes alloc_some: "inv s \<Longrightarrow> livre s \<noteq> {} \<Longrightarrow> alloc s = (a, s') \<Longrightarrow>
      unat a = Min (livre s) * 4096 \<and> livre s' = livre s - {Min (livre s)} \<and> inv s' \<and>
      gerenciadas s' = gerenciadas s"
    and alloc_none: "inv s \<Longrightarrow> livre s = {} \<Longrightarrow> alloc s = (0, s)"
    and free_law: "inv s \<Longrightarrow> inv (free a s) \<and> gerenciadas (free a s) = gerenciadas s \<and>
      livre (free a s) = livre s \<union> ({unat a div 4096} \<inter> {..<gerenciadas s})"
    and livre_bound: "inv s \<Longrightarrow> livre s \<subseteq> {..<gerenciadas s}"
begin

lemma finite_livre: "inv s \<Longrightarrow> finite (livre s)"
  using livre_bound finite_subset by blast

lemma alloc_cases:
  assumes "inv s" "alloc s = (a, s')"
  obtains (cheio) "livre s = {}" "a = 0" "s' = s"
  | (novo) "unat a div 4096 \<in> livre s" "4096 dvd unat a"
      "livre s' = livre s - {unat a div 4096}" "inv s'" "gerenciadas s' = gerenciadas s"
proof (cases "livre s = {}")
  case True
  with assms alloc_none show ?thesis by (intro cheio) auto
next
  case False
  with assms have s: "unat a = Min (livre s) * 4096" "livre s' = livre s - {Min (livre s)}"
      "inv s'" "gerenciadas s' = gerenciadas s"
    using alloc_some by blast+
  moreover have "Min (livre s) \<in> livre s"
    using False assms(1) by (intro Min_in finite_livre)
  ultimately show ?thesis by (intro novo) auto
qed

lemma alloc_distinct:
  assumes "inv s" "alloc s = (a, s')" "alloc s' = (b, s'')" "a \<noteq> 0" "b \<noteq> 0"
  shows "a \<noteq> b"
  using assms(1,2)
proof (cases rule: alloc_cases)
  case novo
  from novo(4) assms(3) show ?thesis
    by (cases rule: alloc_cases) (use novo assms(5) in auto)
qed (use assms in auto)

lemma alloc_free_restores:
  assumes "inv s" "alloc s = (a, s')" "a \<noteq> 0"
  shows "livre (free a s') = livre s"
  using assms(1,2)
proof (cases rule: alloc_cases)
  case novo
  with assms(1) livre_bound have "unat a div 4096 < gerenciadas s'" by auto
  with novo free_law [OF novo(4), of a] show ?thesis by auto
qed (use assms in auto)

end

interpretation pmm: page_allocator pmm_alloc pmm_free livres "\<lambda>s. unat (total_paginas s)" pmm_inv
proof unfold_locales
  fix s a s' assume "pmm_inv s" "livres s \<noteq> {}" "pmm_alloc s = (a, s')"
  moreover from \<open>livres s \<noteq> {}\<close> have m: "Min (livres s) \<in> livres s" by (intro Min_in) auto
  moreover from m have "Min (livres s) < 262144"
    using pmm_inv_bounds [OF \<open>pmm_inv s\<close>] by (auto simp: livres_def)
  ultimately show "unat a = Min (livres s) * 4096 \<and> livres s' = livres s - {Min (livres s)} \<and>
      pmm_inv s' \<and> unat (total_paginas s') = unat (total_paginas s)"
    by (auto simp: pmm_alloc_spec unat_page_addr intro!: pmm_inv_tomar m)
qed (auto simp: pmm_alloc_spec pmm_free_spec pmm_inv_devolver, auto simp: livres_def)

section \<open>Initialisation\<close>

lemma pmm_vazio_livres [simp]: "livres (pmm_vazio u) = {}"
proof -
  have "bit (0xFF :: u8) (i mod 8)" for i :: nat
  proof -
    have e: "(0xFF :: u8) = - 1" by simp
    show ?thesis unfolding e by simp
  qed
  then show ?thesis by (auto simp: livres_def usada_def pmm_vazio_def Let_def)
qed

lemma pmm_vazio_inv: "pmm_inv (pmm_vazio u)"
  using pmm_vazio_livres [of u] by (simp add: pmm_inv_def) (auto simp: pmm_vazio_def Let_def not_less)

lemma mmap_passo_inv:
  "pmm_inv s \<Longrightarrow> pmm_inv (mmap_passo e s) \<and> total_paginas (mmap_passo e s) = total_paginas s"
  by (simp add: mmap_passo_def marcar_livre_spec)

lemma mmap_loop_inv:
  assumes "mmap_loop em mb k s = Some s'" "pmm_inv s"
  shows "pmm_inv s' \<and> total_paginas s' = total_paginas s"
proof -
  have "pmm_inv s \<longrightarrow> pmm_inv s' \<and> total_paginas s' = total_paginas s"
  proof (rule mmap_loop.raw_induct
    [where P = "\<lambda>em mb k s s'. pmm_inv s \<longrightarrow> pmm_inv s' \<and> total_paginas s' = total_paginas s",
      OF _ assms(1)], goal_cases)
    case (1 f em mb k s s')
    then show ?case using mmap_passo_inv [of s] by (fastforce split: if_splits)
  qed
  with assms(2) show ?thesis by blast
qed

text \<open>The walk ends when no \<open>size\<close> field makes the offset wrap around.\<close>

definition mmap_ok :: "(u32 \<Rightarrow> mmap_entry) \<Rightarrow> multiboot_info \<Rightarrow> bool" where
  "mmap_ok em mb \<longleftrightarrow> (\<forall>k. k < mmap_length mb \<longrightarrow>
     unat k + unat (me_size (em (mmap_addr mb + k))) + 4 < 2 ^ 32)"

lemma mmap_loop_ends:
  assumes "mmap_ok em mb"
  shows "\<exists>s'. mmap_loop em mb k s = Some s'"
proof (induction "unat (mmap_length mb) - unat k" arbitrary: k s rule: less_induct)
  case less
  show ?case
  proof (cases "k < mmap_length mb")
    case True
    let ?z = "me_size (em (mmap_addr mb + k))"
    from True assms have "unat k + unat ?z + 4 < 2 ^ 32" by (simp add: mmap_ok_def)
    then have "unat (k + (?z + 4)) = unat k + (unat ?z + 4)"
      by (simp add: unat_word_ariths)
    with True have "unat (mmap_length mb) - unat (k + (?z + 4)) < unat (mmap_length mb) - unat k"
      by (simp add: word_less_nat_alt)
    from less [OF this] True show ?thesis by (subst mmap_loop.simps) simp
  qed (simp add: mmap_loop.simps)
qed

lemma reservar_spec:
  assumes "pmm_inv s"
  shows "pmm_inv (reservar e b s) \<and> total_paginas (reservar e b s) = total_paginas s \<and>
    livres (reservar e b s) = livres s - (paginas_cobertas 0 0x100000 \<union>
      paginas_cobertas 0x100000 (e - 0x100000 + PAGE_SIZE) \<union> paginas_cobertas b (MAX_PAGINAS div 8))"
  using assms by (auto simp: reservar_def marcar_usado_spec)

lemma pmm_init_reservar:
  assumes "pmm_init em e b mb = Some s"
  obtains t where "pmm_inv t" "s = reservar e b t"
proof (cases "mb_flags mb AND MULTIBOOT_FLAG_MMAP = 0")
  case True
  with assms show ?thesis
    using marcar_livre_spec [OF pmm_vazio_inv] by (intro that) (auto simp: pmm_init_def)
next
  case False
  with assms obtain t where "mmap_loop em mb 0 (pmm_vazio (mem_upper mb)) = Some t"
      "s = reservar e b t"
    by (auto simp: pmm_init_def)
  with mmap_loop_inv [OF _ pmm_vazio_inv] that show ?thesis by blast
qed

text \<open>The bytes the kernel needs: low memory, its own image, the allocator's bitmap.\<close>

definition regiao_do_kernel :: "u32 \<Rightarrow> u32 \<Rightarrow> nat set" where
  "regiao_do_kernel e b =
     {0..<0x100000} \<union> {0x100000..<unat e} \<union> {unat b..<unat b + 32768}"

lemma regiao_coberta:
  assumes "0x100000 \<le> unat e" "unat e + 8191 < 2 ^ 32" "unat b + 36863 < 2 ^ 32"
    and "x \<in> regiao_do_kernel e b"
  shows "x div 4096 \<in> paginas_cobertas 0 0x100000 \<union>
      paginas_cobertas 0x100000 (e - 0x100000 + PAGE_SIZE) \<union> paginas_cobertas b (MAX_PAGINAS div 8)"
proof -
  have "unat (e - 0x100000) = unat e - 0x100000"
    using assms(1) by (simp add: unat_sub word_le_nat_alt)
  then have "unat (e - 0x100000 + PAGE_SIZE) = unat e - 0x100000 + 4096"
    using assms(1,2) by (subst unat_add_lem [THEN iffD1]) (simp_all add: PAGE_SIZE_def)
  moreover have "unat (MAX_PAGINAS div 8) = 32768"
    by (simp add: MAX_PAGINAS_def)
  ultimately show ?thesis
    using assms paginas_cobertas_cover [of 0 "0x100000" x]
      paginas_cobertas_cover [of "0x100000" "e - 0x100000 + PAGE_SIZE" x]
      paginas_cobertas_cover [of b "MAX_PAGINAS div 8" x]
    by (auto simp: regiao_do_kernel_def)
qed

section \<open>Use over time: who owns which page\<close>

text \<open>Runs of the allocator by clients that free only what they were given; \<open>D\<close> is the set of
  addresses handed out and not yet freed.\<close>

inductive pmm_uso :: "pmm \<Rightarrow> pmm \<Rightarrow> u32 set \<Rightarrow> bool" for s0 where
  inicio: "pmm_uso s0 s0 {}"
| aloca: "pmm_uso s0 s D \<Longrightarrow> pmm_alloc s = (a, s') \<Longrightarrow> a \<noteq> 0 \<Longrightarrow> pmm_uso s0 s' (insert a D)"
| falha: "pmm_uso s0 s D \<Longrightarrow> pmm_alloc s = (0, s') \<Longrightarrow> pmm_uso s0 s' D"
| libera: "pmm_uso s0 s D \<Longrightarrow> a \<in> D \<Longrightarrow> pmm_uso s0 (pmm_free a s) (D - {a})"

definition pagina :: "u32 \<Rightarrow> nat" where "pagina a = unat a div 4096"

definition uso_inv :: "pmm \<Rightarrow> pmm \<Rightarrow> u32 set \<Rightarrow> bool" where
  "uso_inv s0 s D \<longleftrightarrow> pmm_inv s \<and> total_paginas s = total_paginas s0 \<and> finite D \<and>
     (\<forall>a\<in>D. 4096 dvd unat a) \<and> livres s \<inter> pagina ` D = {} \<and> livres s \<union> pagina ` D = livres s0"

lemma pagina_inj: "4096 dvd unat a \<Longrightarrow> 4096 dvd unat b \<Longrightarrow> pagina a = pagina b \<Longrightarrow> a = b"
  unfolding pagina_def by (metis dvd_mult_div_cancel word_unat_eq_iff)

lemma pmm_uso_inv:
  assumes "pmm_inv s0" "0 \<notin> livres s0" "pmm_uso s0 s D"
  shows "uso_inv s0 s D"
  using assms(3)
proof (induction rule: pmm_uso.induct)
  case inicio
  then show ?case using assms by (simp add: uso_inv_def)
next
  case (aloca s D a s')
  then have "pmm_inv s" by (simp add: uso_inv_def)
  from this aloca.hyps(2) show ?case
    by (cases rule: pmm.alloc_cases)
      (use aloca in \<open>auto simp: uso_inv_def pagina_def word_unat_eq_iff\<close>)
next
  case (falha s D s')
  then have "pmm_inv s" by (simp add: uso_inv_def)
  from this falha.hyps(2) show ?case
    by (cases rule: pmm.alloc_cases)
      (use falha assms(2) in \<open>auto simp: uso_inv_def\<close>)
next
  case (libera s D a)
  then have i: "uso_inv s0 s D" and inv: "pmm_inv s" and a: "a \<in> D" by (auto simp: uso_inv_def)
  have "pagina a \<in> livres s0" using i a by (auto simp: uso_inv_def)
  then have "pagina a < unat (total_paginas s)"
    using i by (auto simp: livres_def uso_inv_def)
  with pmm.free_law [OF inv, of a]
  have f: "livres (pmm_free a s) = insert (pagina a) (livres s)" "pmm_inv (pmm_free a s)"
      "total_paginas (pmm_free a s) = total_paginas s"
    by (auto simp: pagina_def word_unat_eq_iff)
  have "pagina ` (D - {a}) = pagina ` D - {pagina a}"
    using i a pagina_inj [of _ a] by (auto simp: uso_inv_def)
  with i f a show ?case by (auto simp: uso_inv_def)
qed

section \<open>Properties\<close>

text \<open>C1: after \<open>pmm_init\<close>, whatever memory map GRUB left (with or without a detailed map), the
  free-page counter equals the number of clear bits below \<open>total_paginas\<close>, and no page that meets
  the first megabyte, the kernel image or the bitmap itself is free: the allocator can never hand
  out memory the kernel lives in.\<close>

theorem pmm_init_protege_kernel:
  assumes "pmm_init em e b mb = Some s"
    and "0x100000 \<le> unat e" "unat e + 8191 < 2 ^ 32" "unat b + 36863 < 2 ^ 32"
  shows "unat (paginas_livres s) = card (livres s) \<and>
    (\<forall>x \<in> regiao_do_kernel e b. x div 4096 \<notin> livres s)"
  using pmm_init_reservar [OF assms(1)]
proof cases
  case (1 t)
  with reservar_spec [OF 1(1), of e b] regiao_coberta [OF assms(2-4)] show ?thesis
    by (auto simp: pmm_inv_def)
qed

text \<open>A map with one usable region from 1MB to 16MB, a kernel of 1MB and its bitmap inside it.\<close>

definition mapa_exemplo :: "u32 \<Rightarrow> mmap_entry" where
  "mapa_exemplo _ = \<lparr>me_size = 20, me_base_low = 0x100000, me_base_high = 0, me_length_low = 0xF00000,
     me_length_high = 0, me_type = 1\<rparr>"

definition mboot_exemplo :: multiboot_info where
  "mboot_exemplo = \<lparr>mb_flags = 0x41, mem_upper = 0x3C00, mmap_length = 24, mmap_addr = 0x9000\<rparr>"

lemma pmm_init_exemplo: "\<exists>s. pmm_init mapa_exemplo 0x200000 0x180000 mboot_exemplo = Some s"
proof -
  have "mmap_ok mapa_exemplo mboot_exemplo"
    by (auto simp: mmap_ok_def mapa_exemplo_def mboot_exemplo_def word_less_nat_alt)
  then obtain t where "mmap_loop mapa_exemplo mboot_exemplo 0 (pmm_vazio (mem_upper mboot_exemplo)) = Some t"
    using mmap_loop_ends by blast
  moreover have "mb_flags mboot_exemplo AND MULTIBOOT_FLAG_MMAP \<noteq> 0"
    by (simp add: mboot_exemplo_def MULTIBOOT_FLAG_MMAP_def)
  ultimately show ?thesis by (simp add: pmm_init_def)
qed

theorem pmm_init_protege_kernel_witness:
  "\<exists>s. pmm_init mapa_exemplo 0x200000 0x180000 mboot_exemplo = Some s \<and>
     unat (paginas_livres s) = card (livres s) \<and> 0x1FF \<notin> livres s"
proof -
  obtain s where s: "pmm_init mapa_exemplo 0x200000 0x180000 mboot_exemplo = Some s"
    using pmm_init_exemplo by blast
  have "0x1FF000 \<in> regiao_do_kernel 0x200000 0x180000"
    by (simp add: regiao_do_kernel_def)
  with pmm_init_protege_kernel [OF s] s show ?thesis by fastforce
qed

text \<open>C2: over any run in which clients free only pages they hold, an address returned by
  \<open>pmm_alloc\<close> is page aligned, was free at the start and is not held by anybody (no double
  allocation), and no page is ever lost: the free pages and the pages held make up exactly the
  initially free pages, and the counter accounts for all of them.\<close>

theorem pmm_posse_exclusiva:
  assumes "pmm_inv s0" "0 \<notin> livres s0" "pmm_uso s0 s D"
    and "pmm_alloc s = (a, s')" "a \<noteq> 0"
  shows "a \<notin> D \<and> 4096 dvd unat a \<and> unat a div 4096 \<in> livres s0 \<and>
    livres s' \<union> pagina ` insert a D = livres s0 \<and>
    unat (paginas_livres s') + card (insert a D) = unat (paginas_livres s0)"
proof -
  have i: "uso_inv s0 s D" by (rule pmm_uso_inv [OF assms(1-3)])
  have i': "uso_inv s0 s' (insert a D)"
    by (rule pmm_uso_inv [OF assms(1,2) pmm_uso.aloca [OF assms(3-5)]])
  from i have "pmm_inv s" by (simp add: uso_inv_def)
  from this assms(4) have "pagina a \<in> livres s"
    by (cases rule: pmm.alloc_cases) (use assms(5) in \<open>auto simp: pagina_def\<close>)
  moreover from i this have "a \<notin> D" by (auto simp: uso_inv_def)
  moreover have "card (pagina ` insert a D) = card (insert a D)"
  proof (intro card_image inj_onI)
    fix x y assume "x \<in> insert a D" "y \<in> insert a D" "pagina x = pagina y"
    then show "x = y" using i' by (intro pagina_inj) (auto simp: uso_inv_def)
  qed
  moreover have "card (livres s0) = card (livres s') + card (pagina ` insert a D)"
    using i' by (metis card_Un_disjoint finite_imageI finite_livres uso_inv_def)
  ultimately show ?thesis
    using i i' assms(1) by (auto simp: uso_inv_def pmm_inv_def pagina_def)
qed

text \<open>Eight pages, the first two reserved.\<close>

definition pmm_exemplo :: pmm where
  "pmm_exemplo = \<lparr>bitmap = (\<lambda>_. 3), total_paginas = 8, paginas_livres = 6\<rparr>"

lemma pmm_exemplo_livres: "livres pmm_exemplo = {2, 3, 4, 5, 6, 7}"
proof -
  have "bit (3 :: u8) i \<longleftrightarrow> i = 0 \<or> i = 1" if "i < 8" for i
  proof -
    from that consider "i = 0" | "i = 1" | "i = 2" | "i = 3" | "i = 4" | "i = 5" | "i = 6" | "i = 7"
      by linarith
    then show ?thesis by cases simp_all
  qed
  then show ?thesis by (auto simp: livres_def usada_def pmm_exemplo_def)
qed

theorem pmm_posse_exclusiva_witness:
  "fst (pmm_alloc (snd (pmm_alloc pmm_exemplo))) \<notin> {0x2000 :: u32}"
proof -
  have inv: "pmm_inv pmm_exemplo"
    by (simp add: pmm_inv_def pmm_exemplo_livres) (simp add: pmm_exemplo_def MAX_PAGINAS_def)
  have m: "Min {2, 3, 4, 5, 6, 7 :: nat} = 2" "Min {3, 4, 5, 6, 7 :: nat} = 3" by simp_all
  have a1: "pmm_alloc pmm_exemplo = (0x2000, tomar 2 pmm_exemplo)"
    by (simp add: pmm_alloc_spec pmm_exemplo_livres m PAGE_SIZE_def del: Min_insert)
  have "{2, 3, 4, 5, 6, 7} - {2 :: nat} = {3, 4, 5, 6, 7}" by auto
  then have a2: "pmm_alloc (tomar 2 pmm_exemplo) = (0x3000, tomar 3 (tomar 2 pmm_exemplo))"
    by (simp add: pmm_alloc_spec pmm_exemplo_livres m PAGE_SIZE_def del: Min_insert)
  have u: "pmm_uso pmm_exemplo (tomar 2 pmm_exemplo) {0x2000}"
    by (rule aloca [OF inicio a1]) simp
  show ?thesis
    using pmm_posse_exclusiva [OF inv _ u a2] by (simp add: a1 a2 pmm_exemplo_livres)
qed

end
