(* ===== verification/Kheap.thy ===== *)
theory Kheap
  imports Pmm
begin

text \<open>
  \<^verbatim>\<open>kernel/mem/kheap.c\<close>: the kernel heap, a linked list of blocks inside the 256KB region at
  \<^verbatim>\<open>HEAP_INICIO\<close>.  Block headers live in memory: \<open>blocos\<close> maps the address of a header to its
  fields (the packed header is 9 bytes).  Both loops follow the \<^verbatim>\<open>proximo\<close> pointers, so on a
  corrupted list they need not end: they are \<open>partial_function (option)\<close>, and every theorem below
  proves that they return.

  The abstraction is the list of blocks in address order, \<open>(size, free)\<close>; \<open>lista\<close> says that the
  pointers in memory spell such a list and that the blocks tile the region exactly.  The specification
  is first fit with splitting, and coalescing of neighbours; \<open>usados\<close> is the set of live
  payloads.  \<^verbatim>\<open>heap_expandir\<close> is never called and is not modelled.
\<close>

section \<open>State and operations\<close>

record bloco =
  b_tamanho :: u32
  b_livre :: u8
  b_proximo :: u32

record kheap =
  heap_inicio :: u32
  inicializado :: u8
  blocos :: "u32 \<Rightarrow> bloco"

definition CABECALHO :: u32 where "CABECALHO = 9"
definition HEAP_INICIO :: u32 where "HEAP_INICIO = 0x00300000"
definition HEAP_PAGINAS :: u32 where "HEAP_PAGINAS = 64"

definition kheap_init :: "kheap \<Rightarrow> kheap" where
  "kheap_init h =
     (let total_bytes = HEAP_PAGINAS * 4096 in
      h\<lparr>heap_inicio := HEAP_INICIO,
        blocos := (blocos h)(HEAP_INICIO :=
          \<lparr>b_tamanho = total_bytes - CABECALHO, b_livre = 1, b_proximo = 0\<rparr>),
        inicializado := 1\<rparr>)"

definition dividir :: "kheap \<Rightarrow> u32 \<Rightarrow> u32 \<Rightarrow> kheap" where
  "dividir h tamanho atual =
     (let b = blocos h atual in
      if b_tamanho b \<ge> tamanho + CABECALHO + 8 then
        (let novo = atual + CABECALHO + tamanho in
         h\<lparr>blocos := (blocos h)
             (novo := \<lparr>b_tamanho = b_tamanho b - tamanho - CABECALHO, b_livre = 1,
                        b_proximo = b_proximo b\<rparr>,
              atual := b\<lparr>b_tamanho := tamanho, b_proximo := novo\<rparr>)\<rparr>)
      else h)"

definition ocupar :: "kheap \<Rightarrow> u32 \<Rightarrow> kheap" where
  "ocupar h atual = h\<lparr>blocos := (blocos h)(atual := (blocos h atual)\<lparr>b_livre := 0\<rparr>)\<rparr>"

partial_function (option) kmalloc_loop :: "kheap \<Rightarrow> u32 \<Rightarrow> u32 \<Rightarrow> (u32 \<times> kheap) option" where
  "kmalloc_loop h tamanho atual =
     (if atual = 0 then Some (0, h)
      else if b_livre (blocos h atual) \<noteq> 0 \<and> b_tamanho (blocos h atual) \<ge> tamanho then
        Some (atual + CABECALHO, ocupar (dividir h tamanho atual) atual)
      else kmalloc_loop h tamanho (b_proximo (blocos h atual)))"

definition kmalloc :: "u32 \<Rightarrow> kheap \<Rightarrow> (u32 \<times> kheap) option" where
  "kmalloc tamanho h =
     (if inicializado h = 0 \<or> tamanho = 0 then Some (0, h)
      else kmalloc_loop h ((tamanho + 3) AND NOT 3) (heap_inicio h))"

definition absorver :: "kheap \<Rightarrow> u32 \<Rightarrow> kheap" where
  "absorver h atual =
     (let b = blocos h atual; p = blocos h (b_proximo b) in
      h\<lparr>blocos := (blocos h)(atual := b\<lparr>b_tamanho := b_tamanho b + (CABECALHO + b_tamanho p),
                                         b_proximo := b_proximo p\<rparr>)\<rparr>)"

partial_function (option) juntar_loop :: "kheap \<Rightarrow> u32 \<Rightarrow> kheap option" where
  "juntar_loop h atual =
     (if atual = 0 \<or> b_proximo (blocos h atual) = 0 then Some h
      else if b_livre (blocos h atual) \<noteq> 0 \<and> b_livre (blocos h (b_proximo (blocos h atual))) \<noteq> 0
      then juntar_loop (absorver h atual) atual
      else juntar_loop h (b_proximo (blocos h atual)))"

definition kfree :: "u32 \<Rightarrow> kheap \<Rightarrow> kheap option" where
  "kfree ptr h =
     (if ptr = 0 then Some h
      else let bloco = ptr - CABECALHO;
               h1 = h\<lparr>blocos := (blocos h)(bloco := (blocos h bloco)\<lparr>b_livre := 1\<rparr>)\<rparr>
           in juntar_loop h1 (heap_inicio h1))"

section \<open>The list of blocks in memory\<close>

type_synonym segs = "(nat \<times> bool) list"

definition HEAP_FIM :: nat where "HEAP_FIM = 0x340000"

fun lista :: "(u32 \<Rightarrow> bloco) \<Rightarrow> u32 \<Rightarrow> nat \<Rightarrow> segs \<Rightarrow> bool" where
  "lista m p a [] \<longleftrightarrow> p = 0 \<and> a = HEAP_FIM"
| "lista m p a ((n, l) # ss) \<longleftrightarrow>
     p = of_nat a \<and> 0 < a \<and> a + 9 + n \<le> HEAP_FIM \<and> unat (b_tamanho (m p)) = n \<and>
     (b_livre (m p) \<noteq> 0 \<longleftrightarrow> l) \<and> lista m (b_proximo (m p)) (a + 9 + n) ss"

definition heap_ok :: "kheap \<Rightarrow> segs \<Rightarrow> bool" where
  "heap_ok h ss \<longleftrightarrow> inicializado h \<noteq> 0 \<and> heap_inicio h = HEAP_INICIO \<and>
     lista (blocos h) HEAP_INICIO 0x300000 ss"

lemma of_nat_u32_inject:
  "a < 2 ^ 32 \<Longrightarrow> b < 2 ^ 32 \<Longrightarrow> (of_nat a :: u32) = of_nat b \<longleftrightarrow> a = b"
  by (simp add: word_of_nat_eq_iff take_bit_nat_eq_self)

lemma unat_of_nat_u32: "a < 2 ^ 32 \<Longrightarrow> unat (of_nat a :: u32) = a"
  by (simp add: unat_of_nat)

lemma lista_bound: "lista m p a ss \<Longrightarrow> a \<le> HEAP_FIM"
  by (cases ss) auto

lemma HEAP_FIM_bound: "HEAP_FIM < 2 ^ 32"
  by (simp add: HEAP_FIM_def)

text \<open>The list from address \<open>a\<close> on does not see headers below \<open>a\<close>.\<close>

lemma lista_upd [simp]: "unat x < a \<Longrightarrow> lista (m(x := v)) p a ss = lista m p a ss"
proof (induction m p a ss rule: lista.induct)
  case (2 m p a n l ss)
  then show ?case
  proof (cases "p = of_nat a \<and> a + 9 + n \<le> HEAP_FIM")
    case True
    with HEAP_FIM_bound have "unat p = a" by (intro unat_of_nat_u32 [of a, folded True [THEN conjunct1]]) simp
    with 2 show ?thesis by auto
  next
    case False
    then show ?thesis by (simp only: lista.simps) blast
  qed
qed simp

lemma lista_agree:
  "(\<And>x. a \<le> unat x \<Longrightarrow> m' x = m x) \<Longrightarrow> lista m' p a ss = lista m p a ss"
proof (induction m p a ss rule: lista.induct)
  case (2 m p a n l ss)
  show ?case
  proof (cases "p = of_nat a \<and> a + 9 + n \<le> HEAP_FIM")
    case True
    then have "unat p = a" using HEAP_FIM_bound unat_of_nat_u32 [of a] by simp
    with 2 show ?thesis by simp
  next
    case False
    then show ?thesis by (simp only: lista.simps) blast
  qed
qed simp

lemma lista_Cons_elim:
  assumes "lista m p a ((n, l) # ss)"
  shows "p = of_nat a" "unat p = a" "p \<noteq> 0" "0 < a" "a + 9 + n \<le> HEAP_FIM" "unat (b_tamanho (m p)) = n"
    "b_livre (m p) \<noteq> 0 \<longleftrightarrow> l" "lista m (b_proximo (m p)) (a + 9 + n) ss"
proof -
  from assms show *: "p = of_nat a" "0 < a" "a + 9 + n \<le> HEAP_FIM" "unat (b_tamanho (m p)) = n"
    "b_livre (m p) \<noteq> 0 \<longleftrightarrow> l" "lista m (b_proximo (m p)) (a + 9 + n) ss" by auto
  then show u: "unat p = a" using HEAP_FIM_bound by (simp add: unat_of_nat_u32)
  with * show "p \<noteq> 0" by auto
qed

section \<open>Specification: first fit and coalescing on lists of blocks\<close>

fun amalloc :: "nat \<Rightarrow> nat \<Rightarrow> segs \<Rightarrow> (nat \<times> segs) option" where
  "amalloc t a [] = None"
| "amalloc t a ((n, l) # ss) =
     (if l \<and> t \<le> n then
        Some (a + 9, if t + 17 \<le> n then (t, False) # (n - t - 9, True) # ss else (n, False) # ss)
      else map_option (\<lambda>(q, ss'). (q, (n, l) # ss')) (amalloc t (a + 9 + n) ss))"

fun ajuntar :: "segs \<Rightarrow> segs" where
  "ajuntar [] = []"
| "ajuntar [x] = [x]"
| "ajuntar (x # y # ss) =
     (if snd x \<and> snd y then ajuntar ((fst x + 9 + fst y, True) # ss) else x # ajuntar (y # ss))"

fun marcar :: "nat \<Rightarrow> nat \<Rightarrow> segs \<Rightarrow> segs" where
  "marcar q a [] = []"
| "marcar q a ((n, l) # ss) = (if a + 9 = q then (n, True) # ss else (n, l) # marcar q (a + 9 + n) ss)"

text \<open>The live payloads: start address and length.\<close>

fun usados :: "nat \<Rightarrow> segs \<Rightarrow> (nat \<times> nat) set" where
  "usados a [] = {}"
| "usados a ((n, l) # ss) = (if l then {} else {(a + 9, n)}) \<union> usados (a + 9 + n) ss"

definition disjunto :: "nat \<times> nat \<Rightarrow> nat \<times> nat \<Rightarrow> bool" where
  "disjunto x y \<longleftrightarrow> fst x + snd x \<le> fst y \<or> fst y + snd y \<le> fst x"

lemma usados_lower: "(q, n) \<in> usados a ss \<Longrightarrow> a + 9 \<le> q"
  by (induction a ss rule: usados.induct) (auto split: if_splits)

lemma usados_disjunto:
  "x \<in> usados a ss \<Longrightarrow> y \<in> usados a ss \<Longrightarrow> x = y \<or> disjunto x y"
proof (induction a ss rule: usados.induct)
  case (2 a n l ss)
  have low: "a + 9 + n + 9 \<le> fst z" if "z \<in> usados (a + 9 + n) ss" for z
    using usados_lower [of "fst z" "snd z", simplified, OF that] by simp
  show ?case
  proof (cases "x \<in> usados (a + 9 + n) ss \<and> y \<in> usados (a + 9 + n) ss")
    case True
    with 2 show ?thesis by blast
  next
    case False
    with 2 low [of x] low [of y] show ?thesis by (auto simp: disjunto_def split: if_splits)
  qed
qed simp

lemma usados_separado:
  "(q, n) \<in> usados a ss \<Longrightarrow> (r, k) \<in> usados a ss \<Longrightarrow> (q, n) \<noteq> (r, k) \<Longrightarrow>
   q \<noteq> r \<and> (q + n \<le> r \<or> r + k \<le> q)"
proof (induction a ss rule: usados.induct)
  case (2 a m l ss)
  have low: "a + 9 + m + 9 \<le> z" if "(z, j) \<in> usados (a + 9 + m) ss" for z j
    using usados_lower [OF that] by simp
  from 2 show ?case by (auto split: if_splits dest: low)
qed simp

lemma usados_fim: "lista m p a ss \<Longrightarrow> (q, n) \<in> usados a ss \<Longrightarrow> q + n \<le> HEAP_FIM"
  by (induction m p a ss rule: lista.induct) (auto split: if_splits)

lemma amalloc_usados:
  "amalloc t a ss = Some (q, ss') \<Longrightarrow>
   \<exists>n. t \<le> n \<and> n < t + 17 \<and> usados a ss' = insert (q, n) (usados a ss) \<and> a + 9 \<le> q"
proof (induction t a ss arbitrary: ss' rule: amalloc.induct)
  case (2 t a n l ss)
  show ?case
  proof (cases "l \<and> t \<le> n")
    case True
    show ?thesis
    proof (cases "t + 17 \<le> n")
      case split: True
      with True 2 show ?thesis
        by (intro exI [of _ t]) (auto simp: add.commute add.left_commute)
    next
      case False
      with True 2 show ?thesis by (intro exI [of _ n]) auto
    qed
  next
    case False
    with 2 obtain ss2 where s: "ss' = (n, l) # ss2" "amalloc t (a + 9 + n) ss = Some (q, ss2)"
      by (auto split: if_splits)
    from 2(1) [OF False s(2)] s show ?thesis by auto
  qed
qed simp

lemma amalloc_novo: "amalloc t a ss = Some (q, ss') \<Longrightarrow> (q, n) \<notin> usados a ss"
proof (induction t a ss arbitrary: ss' rule: amalloc.induct)
  case (2 t a k l ss)
  show ?case
  proof (cases "l \<and> t \<le> k")
    case True
    with 2 usados_lower [of "a + 9" n "a + 9 + k" ss] show ?thesis by (auto split: if_splits)
  next
    case False
    with 2 obtain ss2 where s: "amalloc t (a + 9 + k) ss = Some (q, ss2)"
      by (auto split: if_splits)
    from 2(1) [OF False s] amalloc_usados [OF s] False show ?thesis by auto
  qed
qed simp

lemma amalloc_None: "amalloc t a ss = None \<longleftrightarrow> (\<forall>(n, l) \<in> set ss. l \<longrightarrow> n < t)"
  by (induction t a ss rule: amalloc.induct) auto

lemma ajuntar_usados [simp]: "usados a (ajuntar ss) = usados a ss"
proof (induction ss arbitrary: a rule: ajuntar.induct)
  case (3 x y ss)
  show ?case
  proof (cases "snd x \<and> snd y")
    case True
    with 3(1) [OF True, of a] show ?thesis
      by (cases x; cases y) (simp add: add.assoc)
  next
    case False
    with 3(2) [OF False] show ?thesis by (cases x) simp
  qed
qed simp_all

lemma marcar_usados:
  "(q, n) \<in> usados a ss \<Longrightarrow> usados a (marcar q a ss) = usados a ss - {(q, n)}"
proof (induction q a ss rule: marcar.induct)
  case (2 q a k l ss)
  have low: "a + 9 + k + 9 \<le> fst z" if "z \<in> usados (a + 9 + k) ss" for z
    using usados_lower [of "fst z" "snd z", simplified, OF that] by simp
  show ?case
  proof (cases "a + 9 = q")
    case True
    with 2 low [of "(q, n)"] show ?thesis by (auto split: if_splits dest: low)
  next
    case False
    with 2 have "(q, n) \<in> usados (a + 9 + k) ss" by (auto split: if_splits)
    with 2 False show ?thesis by auto
  qed
qed simp

definition sem_vizinhos_livres :: "segs \<Rightarrow> bool" where
  "sem_vizinhos_livres ss \<longleftrightarrow> (\<forall>i. Suc i < length ss \<longrightarrow> \<not> (snd (ss ! i) \<and> snd (ss ! Suc i)))"

lemma sem_vizinhos_Cons [simp]:
  "sem_vizinhos_livres []" "sem_vizinhos_livres [x]"
  "sem_vizinhos_livres (x # y # ss) \<longleftrightarrow> \<not> (snd x \<and> snd y) \<and> sem_vizinhos_livres (y # ss)"
proof -
  have all: "(\<forall>i. P i) \<longleftrightarrow> P 0 \<and> (\<forall>i. P (Suc i))" for P
    by (metis not0_implies_Suc)
  show "sem_vizinhos_livres (x # y # ss) \<longleftrightarrow> \<not> (snd x \<and> snd y) \<and> sem_vizinhos_livres (y # ss)"
    unfolding sem_vizinhos_livres_def by (subst all) simp
qed (simp_all add: sem_vizinhos_livres_def)

lemma ajuntar_head: "ss \<noteq> [] \<Longrightarrow> ajuntar ss \<noteq> [] \<and> snd (hd (ajuntar ss)) = snd (hd ss)"
  by (induction ss rule: ajuntar.induct) auto

lemma ajuntar_sem_vizinhos: "sem_vizinhos_livres (ajuntar ss)"
proof (induction ss rule: ajuntar.induct)
  case (3 x y ss)
  then show ?case
    using ajuntar_head [of "y # ss"] by (cases "ajuntar (y # ss)") auto
qed simp_all

text \<open>With no live payload, what is left after coalescing is one block of the whole region.\<close>

lemma usados_vazio: "usados a ss = {} \<Longrightarrow> (n, l) \<in> set ss \<Longrightarrow> l"
  by (induction a ss rule: usados.induct) (auto split: if_splits)

lemma vazio_um_bloco:
  assumes "lista m p a ss" "usados a ss = {}" "sem_vizinhos_livres ss" "a < HEAP_FIM"
  shows "ss = [(HEAP_FIM - a - 9, True)]"
proof -
  obtain n l ts where ss: "ss = (n, l) # ts" using assms(1,4) by (cases ss) auto
  have l: "l" using assms(2) ss by (auto split: if_splits)
  have "ts = []"
  proof (cases ts)
    case (Cons y us)
    with assms(2) ss have "snd y" by (cases y) (auto split: if_splits)
    with Cons ss l assms(3) show ?thesis by simp
  qed
  with ss l assms(1) show ?thesis by auto
qed

lemma dividir_campos [simp]:
  "heap_inicio (dividir h t p) = heap_inicio h" "inicializado (dividir h t p) = inicializado h"
  "heap_inicio (ocupar h p) = heap_inicio h" "inicializado (ocupar h p) = inicializado h"
  by (simp_all add: dividir_def ocupar_def Let_def)

section \<open>The loops implement the specification\<close>

lemma kmalloc_loop_refines:
  assumes "lista (blocos h) p a ss"
  shows "case amalloc (unat t) a ss of
      None \<Rightarrow> kmalloc_loop h t p = Some (0, h)
    | Some (q, ss') \<Rightarrow> \<exists>h'. kmalloc_loop h t p = Some (of_nat q, h') \<and> lista (blocos h') p a ss' \<and>
        (\<forall>x. unat x < a \<longrightarrow> blocos h' x = blocos h x) \<and>
        heap_inicio h' = heap_inicio h \<and> inicializado h' = inicializado h \<and> q \<le> HEAP_FIM"
  using assms
proof (induction ss arbitrary: p a)
  case Nil
  then show ?case by (simp add: kmalloc_loop.simps)
next
  case (Cons s ss)
  obtain n l where s: "s = (n, l)" by (cases s)
  note e = lista_Cons_elim [OF Cons.prems [unfolded s]]
  show ?case
  proof (cases "l \<and> unat t \<le> n")
    case False
    then have "kmalloc_loop h t p = kmalloc_loop h t (b_proximo (blocos h p))"
      by (subst kmalloc_loop.simps) (use e in \<open>auto simp: word_le_nat_alt\<close>)
    with Cons.IH [OF e(8)] False e s show ?thesis
      by (auto split: option.splits)
  next
    case fit: True
    then have eq: "kmalloc_loop h t p = Some (p + CABECALHO, ocupar (dividir h t p) p)"
      by (subst kmalloc_loop.simps) (use e in \<open>auto simp: word_le_nat_alt\<close>)
    have p9: "p + CABECALHO = of_nat (a + 9)" using e(1) by (simp add: CABECALHO_def)
    have tb: "unat (t + CABECALHO + 8) = unat t + 17"
    proof -
      have "t + CABECALHO + 8 = t + 17" by (simp add: CABECALHO_def add.assoc)
      moreover have "unat (t + 17) = unat t + unat (17 :: u32)"
        using fit e(5) HEAP_FIM_bound by (intro unat_add_lem [THEN iffD1]) (simp add: HEAP_FIM_def)
      ultimately show ?thesis by (simp only: unat_numeral) simp
    qed
    show ?thesis
    proof (cases "unat t + 17 \<le> n")
      case False
      then have "dividir h t p = h" by (simp add: dividir_def Let_def word_le_nat_alt tb e(6))
      with eq p9 fit e False s show ?thesis
        by (simp add: ocupar_def lista_upd)
    next
      case True
      let ?novo = "p + CABECALHO + t"
      have nv: "unat ?novo = a + 9 + unat t" "?novo = of_nat (a + 9 + unat t)"
      proof -
        show "?novo = of_nat (a + 9 + unat t)" using e(1) by (simp add: CABECALHO_def)
        then show "unat ?novo = a + 9 + unat t"
          using True e(5) HEAP_FIM_bound by (simp only: unat_of_nat_u32)
      qed
      have ne: "?novo \<noteq> p" using nv(1) e(2) by (metis add_eq_self_zero add.assoc add_is_0 zero_neq_numeral)
      have sz: "unat (b_tamanho (blocos h p) - t - CABECALHO) = n - unat t - 9"
        using True e(6) by (simp add: CABECALHO_def unat_sub word_le_nat_alt)
      have len: "a + 9 + unat t + 9 + (n - unat t - 9) = a + 9 + n" using True by simp
      have d: "blocos (ocupar (dividir h t p) p) = (blocos h)
          (?novo := \<lparr>b_tamanho = b_tamanho (blocos h p) - t - CABECALHO, b_livre = 1,
                      b_proximo = b_proximo (blocos h p)\<rparr>,
           p := \<lparr>b_tamanho = t, b_livre = 0, b_proximo = ?novo\<rparr>)"
        using True e(6) by (cases "blocos h p") (simp add: ocupar_def dividir_def Let_def word_le_nat_alt tb)
      have "lista (blocos (ocupar (dividir h t p) p)) ?novo (a + 9 + unat t) ((n - unat t - 9, True) # ss)"
        unfolding d using e(2,5,8) ne nv(1) nv(2) [symmetric] sz len by (simp add: lista_upd add.commute add.left_commute)
      then have "lista (blocos (ocupar (dividir h t p) p)) p a ((unat t, False) # (n - unat t - 9, True) # ss)"
        using d e(1) [symmetric] e(4,5) True by simp
      moreover have "blocos (ocupar (dividir h t p) p) x = blocos h x" if "unat x < a" for x
      proof -
        from that e(2) nv(1) have "x \<noteq> p" "x \<noteq> ?novo" by auto
        then show ?thesis by (simp add: ocupar_def dividir_def Let_def)
      qed
      moreover have "q \<le> HEAP_FIM" if "q = a + 9" for q using that e(5) by simp
      moreover have "amalloc (unat t) a (s # ss) =
          Some (a + 9, (unat t, False) # (n - unat t - 9, True) # ss)"
        using fit True s by simp
      ultimately show ?thesis using eq p9 by (simp del: lista.simps amalloc.simps)
    qed
  qed
qed


lemma juntar_loop_refines:
  assumes "lista (blocos h) p a ss"
  shows "\<exists>h'. juntar_loop h p = Some h' \<and> lista (blocos h') p a (ajuntar ss) \<and>
    (\<forall>x. unat x < a \<longrightarrow> blocos h' x = blocos h x) \<and>
    heap_inicio h' = heap_inicio h \<and> inicializado h' = inicializado h"
  using assms
proof (induction ss arbitrary: h p a rule: ajuntar.induct)
  case 1
  then show ?case by (subst juntar_loop.simps) simp
next
  case (2 x)
  then have "b_proximo (blocos h p) = 0" by (cases x) auto
  then have "juntar_loop h p = Some h" by (subst juntar_loop.simps) simp
  with 2 show ?case by auto
next
  case (3 x y ss)
  obtain n l where x: "x = (n, l)" by (cases x)
  obtain k r where y: "y = (k, r)" by (cases y)
  note e = lista_Cons_elim [OF 3(3) [unfolded x]]
  let ?q = "b_proximo (blocos h p)"
  note f = lista_Cons_elim [OF e(8) [unfolded y]]
  show ?case
  proof (cases "l \<and> r")
    case True
    let ?h = "absorver h p"
    have eq: "juntar_loop h p = juntar_loop ?h p"
      using True e(3,7) f(3,7) by (subst juntar_loop.simps) simp
    have sz: "unat (b_tamanho (blocos h p) + (CABECALHO + b_tamanho (blocos h ?q))) = n + 9 + k"
    proof -
      have "b_tamanho (blocos h p) = of_nat n" "b_tamanho (blocos h ?q) = of_nat k"
        by (simp_all flip: e(6) f(6))
      then have "b_tamanho (blocos h p) + (CABECALHO + b_tamanho (blocos h ?q)) = of_nat (n + 9 + k)"
        by (simp add: CABECALHO_def)
      moreover have "n + 9 + k < 2 ^ 32" using f(5) HEAP_FIM_bound by linarith
      ultimately show ?thesis by (simp only: unat_of_nat_u32)
    qed
    have "lista (blocos ?h) p a ((n + 9 + k, True) # ss)"
      using e f sz True by (simp add: absorver_def Let_def add.assoc add.commute add.left_commute)
    moreover have "heap_inicio ?h = heap_inicio h" "inicializado ?h = inicializado h"
      "unat z < a \<Longrightarrow> blocos ?h z = blocos h z" for z
      using e(2) by (auto simp: absorver_def Let_def)
    ultimately show ?thesis
      using 3(1) [of ?h p a] True x y eq by auto
  next
    case False
    have eq: "juntar_loop h p = juntar_loop h ?q"
      using False e(3,7) f(3,7) by (subst juntar_loop.simps) auto
    obtain h' where h': "juntar_loop h ?q = Some h'" "lista (blocos h') ?q (a + 9 + n) (ajuntar (y # ss))"
      "\<forall>x. unat x < a + 9 + n \<longrightarrow> blocos h' x = blocos h x"
      "heap_inicio h' = heap_inicio h" "inicializado h' = inicializado h"
      using 3(2) [of h ?q "a + 9 + n"] False x y e(8) by auto
    have "blocos h' p = blocos h p" using h'(3) e(2) by simp
    with h' e have "lista (blocos h') p a ((n, l) # ajuntar (y # ss))" by simp
    with h' eq False x y show ?thesis by auto
  qed
qed

lemma marcar_lista:
  assumes "lista m p a ss" "(q, n) \<in> usados a ss"
  shows "lista (m(of_nat q - CABECALHO := (m (of_nat q - CABECALHO))\<lparr>b_livre := 1\<rparr>)) p a (marcar q a ss)"
  using assms
proof (induction ss arbitrary: p a)
  case (Cons s ss)
  obtain k l where s: "s = (k, l)" by (cases s)
  note e = lista_Cons_elim [OF Cons.prems(1) [unfolded s]]
  have low: "a + 9 \<le> q" and up: "q \<le> HEAP_FIM"
    using usados_lower [OF Cons.prems(2)] usados_fim [OF Cons.prems(1,2)] by simp_all
  have x: "of_nat q - CABECALHO = of_nat (q - 9)" using low by (simp add: CABECALHO_def of_nat_diff)
  have ux: "unat (of_nat q - CABECALHO :: u32) = q - 9"
    unfolding x using up HEAP_FIM_bound by (intro unat_of_nat_u32) simp
  show ?case
  proof (cases "a + 9 = q")
    case True
    then have xp: "of_nat q - CABECALHO = p" using x e(1) by auto
    have "lista (m(p := (m p)\<lparr>b_livre := 1\<rparr>)) (b_proximo (m p)) (a + 9 + k) ss"
      by (rule lista_upd [THEN iffD2]) (use e in simp_all)
    with e(3-7) True e(1) [symmetric] show ?thesis
      unfolding xp s by (auto simp del: fun_upd_apply simp: fun_upd_same)
  next
    case False
    with Cons.prems(2) s have m: "(q, n) \<in> usados (a + 9 + k) ss" by (auto split: if_splits)
    have "of_nat q - CABECALHO \<noteq> p" using ux e(2) False low by auto
    with Cons.IH [OF e(8) m] e False s show ?thesis by simp
  qed
qed simp

section \<open>The heap as an allocator\<close>

text \<open>The round-up of a request to a multiple of four.\<close>

definition arredondado :: "u32 \<Rightarrow> nat" where
  "arredondado t = (unat t + 3) div 4 * 4"

lemma alinhar:
  assumes "t \<le> 0xFFFFFFFC"
  shows "unat ((t + 3) AND NOT 3) = arredondado t"
proof -
  have s: "unat (t + 3) = unat t + 3"
    using assms unat_add_lem [of t 3] by (simp add: word_le_nat_alt)
  have "(3 :: u32) = mask 2" by (simp add: mask_eq_exp_minus_1)
  then have "(t + 3) AND NOT 3 = (t + 3) AND NOT (mask 2)" by simp
  also have "\<dots> = push_bit 2 (drop_bit 2 (t + 3))"
    by (rule bit_word_eqI) (auto simp: bit_simps simp del: One_nat_def simp flip: Suc_diff_le)
  finally have "unat ((t + 3) AND NOT 3) = unat (push_bit 2 (drop_bit 2 (t + 3)))"
    by (rule arg_cong)
  also have "\<dots> = take_bit 32 (push_bit 2 (unat (drop_bit 2 (t + 3))))"
    by (subst unsigned_push_bit_eq) simp
  also have "\<dots> = (unat t + 3) div 4 * 4 mod 2 ^ 32"
    by (subst unat_drop_bit_eq) (simp add: push_bit_eq_mult drop_bit_eq_div s take_bit_eq_mod)
  also have "(unat t + 3) div 4 * 4 mod 2 ^ 32 = (unat t + 3) div 4 * 4"
    using assms by (intro mod_less) (simp add: word_le_nat_alt; linarith)
  finally show ?thesis by (simp add: arredondado_def)
qed


text \<open>What the allocator answers, on any state whose memory spells a list of blocks.\<close>

lemma kmalloc_spec:
  assumes ok: "heap_ok h ss" and t: "t \<noteq> 0" "t \<le> 0xFFFFFFFC"
  shows "(kmalloc t h = Some (0, h) \<and> (\<forall>(n, l) \<in> set ss. l \<longrightarrow> n < arredondado t)) \<or>
    (\<exists>q n h' ss'. kmalloc t h = Some (of_nat q, h') \<and> heap_ok h' ss' \<and>
       usados 0x300000 ss' = insert (q, n) (usados 0x300000 ss) \<and> (q, n) \<notin> usados 0x300000 ss \<and>
       unat t \<le> n \<and> n < arredondado t + 17)"
proof -
  have k: "kmalloc t h = kmalloc_loop h ((t + 3) AND NOT 3) HEAP_INICIO"
    using ok t by (simp add: kmalloc_def heap_ok_def)
  have l: "lista (blocos h) HEAP_INICIO 0x300000 ss" using ok by (simp add: heap_ok_def)
  note r = kmalloc_loop_refines [OF l, of "(t + 3) AND NOT 3", unfolded alinhar [OF t(2)]]
  show ?thesis
  proof (cases "amalloc (arredondado t) 0x300000 ss")
    case None
    with r k amalloc_None show ?thesis by fastforce
  next
    case (Some v)
    then obtain q ss' where v: "amalloc (arredondado t) 0x300000 ss = Some (q, ss')" by (cases v) auto
    from r v k ok obtain h' where "kmalloc t h = Some (of_nat q, h')" "heap_ok h' ss'"
      by (auto simp: heap_ok_def)
    moreover obtain n where "arredondado t \<le> n" "n < arredondado t + 17"
      "usados 0x300000 ss' = insert (q, n) (usados 0x300000 ss)"
      using amalloc_usados [OF v] by blast
    moreover have "unat t \<le> arredondado t" by (simp add: arredondado_def)
    moreover have "(q, n) \<notin> usados 0x300000 ss" using amalloc_novo [OF v] by blast
    ultimately show ?thesis
      by (intro disjI2 exI [of _ q] exI [of _ n] exI [of _ h'] exI [of _ ss'] conjI) auto
  qed
qed

lemma kfree_spec:
  assumes ok: "heap_ok h ss" and q: "(q, n) \<in> usados 0x300000 ss"
  shows "\<exists>h' ss'. kfree (of_nat q) h = Some h' \<and> heap_ok h' ss' \<and>
    usados 0x300000 ss' = usados 0x300000 ss - {(q, n)} \<and> sem_vizinhos_livres ss'"
proof -
  have l: "lista (blocos h) HEAP_INICIO 0x300000 ss" using ok by (simp add: heap_ok_def)
  have "unat (of_nat q :: u32) = q"
    using usados_fim [OF l q] HEAP_FIM_bound by (intro unat_of_nat_u32) simp
  with usados_lower [OF q] have nz: "(of_nat q :: u32) \<noteq> 0" by auto
  let ?x = "of_nat q - CABECALHO"
  let ?h = "h\<lparr>blocos := (blocos h)(?x := (blocos h ?x)\<lparr>b_livre := 1\<rparr>)\<rparr>"
  have "lista (blocos ?h) HEAP_INICIO 0x300000 (marcar q 0x300000 ss)"
    using marcar_lista [OF l q] by simp
  then obtain h' where h': "juntar_loop ?h HEAP_INICIO = Some h'"
    "lista (blocos h') HEAP_INICIO 0x300000 (ajuntar (marcar q 0x300000 ss))"
    "heap_inicio h' = heap_inicio ?h" "inicializado h' = inicializado ?h"
    using juntar_loop_refines by blast
  have "kfree (of_nat q) h = Some h'"
    using nz h'(1) ok by (simp add: kfree_def Let_def heap_ok_def)
  moreover have "heap_ok h' (ajuntar (marcar q 0x300000 ss))"
    using h' ok by (simp add: heap_ok_def)
  ultimately show ?thesis
    using ajuntar_sem_vizinhos [of "marcar q 0x300000 ss"] marcar_usados [OF q]
    by (intro exI [of _ h'] exI [of _ "ajuntar (marcar q 0x300000 ss)"]) simp
qed

lemma kheap_init_ok: "heap_ok (kheap_init h) [(262135, True)]"
  by (simp add: heap_ok_def kheap_init_def Let_def HEAP_INICIO_def HEAP_PAGINAS_def CABECALHO_def HEAP_FIM_def)


section \<open>The allocator contract and a client of it\<close>

text \<open>
  \<open>vivos s V\<close> says that \<open>V\<close> is the set of live payloads \<open>(address, length)\<close> in state \<open>s\<close>.
  \<open>executar\<close> runs any script of requests, keeping the pointers it holds.
\<close>

datatype 'n pedido = Aloca 'n | Libera nat

fun executar ::
  "('n \<Rightarrow> 's \<Rightarrow> ('p \<times> 's) option) \<Rightarrow> ('p \<Rightarrow> 's \<Rightarrow> 's option) \<Rightarrow> 'p \<Rightarrow>
   'n pedido list \<Rightarrow> 's \<Rightarrow> 'p list \<Rightarrow> ('s \<times> 'p list) option" where
  "executar al li nulo [] s ps = Some (s, ps)"
| "executar al li nulo (Aloca t # os) s ps =
     (case al t s of None \<Rightarrow> None
      | Some (p, s') \<Rightarrow> executar al li nulo os s' (if p = nulo then ps else p # ps))"
| "executar al li nulo (Libera i # os) s ps =
     (if i < length ps then
        case li (ps ! i) s of None \<Rightarrow> None
        | Some s' \<Rightarrow> executar al li nulo os s' (take i ps @ drop (Suc i) ps)
      else executar al li nulo os s ps)"

definition vivos :: "kheap \<Rightarrow> (nat \<times> nat) set \<Rightarrow> bool" where
  "vivos h V \<longleftrightarrow> (\<exists>ss. heap_ok h ss \<and> usados 0x300000 ss = V)"

locale heap_allocator =
  fixes aloca :: "'n \<Rightarrow> 's \<Rightarrow> ('p \<times> 's) option"
    and libera :: "'p \<Rightarrow> 's \<Rightarrow> 's option"
    and nulo :: 'p
    and ender :: "nat \<Rightarrow> 'p"
    and viv :: "'s \<Rightarrow> (nat \<times> nat) set \<Rightarrow> bool"
    and valido :: "'n \<Rightarrow> bool"
    and pede :: "'n \<Rightarrow> nat"
    and ini :: nat
    and fim :: nat
  assumes aloca_lei: "viv s V \<Longrightarrow> valido t \<Longrightarrow>
      (\<exists>s'. aloca t s = Some (nulo, s') \<and> viv s' V) \<or>
      (\<exists>q n s'. aloca t s = Some (ender q, s') \<and> viv s' (insert (q, n) V) \<and> (q, n) \<notin> V \<and> pede t \<le> n)"
    and libera_lei: "viv s V \<Longrightarrow> (q, n) \<in> V \<Longrightarrow>
      \<exists>s'. libera (ender q) s = Some s' \<and> viv s' (V - {(q, n)})"
    and disj: "viv s V \<Longrightarrow> (q, n) \<in> V \<Longrightarrow> (r, k) \<in> V \<Longrightarrow> (q, n) \<noteq> (r, k) \<Longrightarrow>
      q \<noteq> r \<and> (q + n \<le> r \<or> r + k \<le> q)"
    and regiao: "viv s V \<Longrightarrow> (q, n) \<in> V \<Longrightarrow> ini \<le> q \<and> q + n \<le> fim"
    and ender_inj: "ini \<le> q \<Longrightarrow> q \<le> fim \<Longrightarrow> ini \<le> r \<Longrightarrow> r \<le> fim \<Longrightarrow> ender q = ender r \<Longrightarrow> q = r"
    and ender_nulo: "ini \<le> q \<Longrightarrow> q \<le> fim \<Longrightarrow> ender q \<noteq> nulo"
begin

lemma mesmo_bloco:
  "viv s V \<Longrightarrow> (q, n) \<in> V \<Longrightarrow> (r, k) \<in> V \<Longrightarrow> ender q = ender r \<Longrightarrow> (q, n) = (r, k)"
  using regiao [of s V q n] regiao [of s V r k] ender_inj [of q r] disj [of s V q n r k] by fastforce

lemma executar_total:
  assumes "viv s V" "set ps = (\<lambda>(q, n). ender q) ` V" "distinct ps"
    "\<forall>t. Aloca t \<in> set ops \<longrightarrow> valido t"
  shows "\<exists>s' ps' V'. executar aloca libera nulo ops s ps = Some (s', ps') \<and> viv s' V' \<and>
    set ps' = (\<lambda>(q, n). ender q) ` V' \<and> distinct ps'"
  using assms
proof (induction ops arbitrary: s V ps)
  case (Cons c ops)
  have IH: "viv s V \<Longrightarrow> set ps = (\<lambda>(q, n). ender q) ` V \<Longrightarrow> distinct ps \<Longrightarrow>
    \<exists>s' ps' V'. executar aloca libera nulo ops s ps = Some (s', ps') \<and> viv s' V' \<and>
      set ps' = (\<lambda>(q, n). ender q) ` V' \<and> distinct ps'" for s V ps
    by (rule Cons.IH) (use Cons.prems(4) in auto)
  show ?case
  proof (cases c)
    case (Aloca t)
    then have "valido t" using Cons.prems(4) by simp
    from aloca_lei [OF Cons.prems(1) this] show ?thesis
    proof (elim disjE exE conjE)
      fix s' assume "aloca t s = Some (nulo, s')" "viv s' V"
      with IH [OF _ Cons.prems(2,3)] Aloca show ?thesis by simp
    next
      fix q n s' assume a: "aloca t s = Some (ender q, s')" "viv s' (insert (q, n) V)" "(q, n) \<notin> V"
      have nn: "ender q \<noteq> nulo" using regiao [OF a(2), of q n] ender_nulo by simp
      have "ender q \<notin> set ps"
        using mesmo_bloco [OF a(2), of q n] a(3) Cons.prems(2) by fastforce
      with IH [OF a(2), of "ender q # ps"] Cons.prems(2,3) Aloca a(1) nn show ?thesis by simp
    qed
  next
    case (Libera i)
    show ?thesis
    proof (cases "i < length ps")
      case True
      then have "ps ! i \<in> set ps" by simp
      with Cons.prems(2) obtain q n where q: "(q, n) \<in> V" "ps ! i = ender q" by auto
      from libera_lei [OF Cons.prems(1) q(1)] obtain s' where
        s': "libera (ender q) s = Some s'" "viv s' (V - {(q, n)})" by blast
      have d: "distinct (take i ps @ ps ! i # drop (Suc i) ps)"
        using Cons.prems(3) id_take_nth_drop [OF True] by simp
      have "set ps = insert (ps ! i) (set (take i ps @ drop (Suc i) ps))"
        using arg_cong [OF id_take_nth_drop [OF True], of set] by simp
      with d have "set (take i ps @ drop (Suc i) ps) = set ps - {ps ! i}" by auto
      also have "\<dots> = (\<lambda>(q, n). ender q) ` (V - {(q, n)})"
      proof -
        have "ender r \<noteq> ps ! i" if "(r, k) \<in> V" "(r, k) \<noteq> (q, n)" for r k
          using mesmo_bloco [OF Cons.prems(1) q(1) that(1)] that(2) q(2) by metis
        then show ?thesis using Cons.prems(2) q by auto
      qed
      finally show ?thesis
        using IH [OF s'(2), of "take i ps @ drop (Suc i) ps"] s'(1) d True Libera q by simp
    next
      case False
      with IH [OF Cons.prems(1-3)] Libera show ?thesis by simp
    qed
  qed
qed auto

end

interpretation kh: heap_allocator kmalloc kfree 0 of_nat vivos "\<lambda>t. t \<le> 0xFFFFFFFC" unat "0x300009" HEAP_FIM
proof
  fix s V and t :: u32 assume a: "vivos s V" "t \<le> 0xFFFFFFFC"
  show "(\<exists>s'. kmalloc t s = Some (0, s') \<and> vivos s' V) \<or>
      (\<exists>q n s'. kmalloc t s = Some (of_nat q, s') \<and> vivos s' (insert (q, n) V) \<and> (q, n) \<notin> V \<and> unat t \<le> n)"
  proof (cases "t = 0")
    case True
    with a show ?thesis by (simp add: kmalloc_def)
  next
    case False
    from a(1) obtain ss where "heap_ok s ss" "V = usados 0x300000 ss" by (auto simp: vivos_def)
    with kmalloc_spec [of s ss t] False a(2) show ?thesis by (metis vivos_def)
  qed
next
  fix s V q n assume "vivos s V" "(q, n) \<in> V"
  then show "\<exists>s'. kfree (of_nat q) s = Some s' \<and> vivos s' (V - {(q, n)})"
    using kfree_spec by (metis vivos_def)
next
  fix s V q n r k assume "vivos s V" "(q, n) \<in> V" "(r, k) \<in> V" "(q, n) \<noteq> (r, k)"
  then obtain ss where "(q, n) \<in> usados 0x300000 ss" "(r, k) \<in> usados 0x300000 ss" "(q, n) \<noteq> (r, k)"
    by (auto simp: vivos_def)
  then show "q \<noteq> r \<and> (q + n \<le> r \<or> r + k \<le> q)" by (rule usados_separado)
next
  fix s V q n assume "vivos s V" "(q, n) \<in> V"
  then show "0x300009 \<le> q \<and> q + n \<le> HEAP_FIM"
    using usados_lower [of q n "0x300000"] usados_fim by (auto simp: vivos_def heap_ok_def)
qed (auto simp: HEAP_FIM_def word_of_nat_eq_iff take_bit_nat_eq_self word_of_nat_eq_0_iff dest: dvd_imp_le)


section \<open>Properties\<close>

text \<open>C3: every answer of \<open>kmalloc\<close> on a well-formed heap, for any request up to 0xFFFFFFFC bytes: the search
  ends; either no free block can hold the rounded request and the heap is unchanged, or the pointer
  returned is the start of a new live payload of at least the size asked (and less than 17 bytes more
  than its rounding), inside the region and apart from every payload that was live.\<close>

theorem kmalloc_correto:
  assumes "heap_ok h ss" "t \<noteq> 0" "t \<le> 0xFFFFFFFC"
  shows "(kmalloc t h = Some (0, h) \<and> (\<forall>(n, l) \<in> set ss. l \<longrightarrow> n < arredondado t)) \<or>
    (\<exists>q n h' ss'. kmalloc t h = Some (of_nat q, h') \<and> heap_ok h' ss' \<and>
       usados 0x300000 ss' = insert (q, n) (usados 0x300000 ss) \<and>
       unat t \<le> n \<and> n < arredondado t + 17 \<and> 0x300009 \<le> q \<and> q + n \<le> HEAP_FIM \<and>
       (\<forall>x \<in> usados 0x300000 ss. x \<noteq> (q, n) \<and> disjunto (q, n) x))"
  using kmalloc_spec [OF assms]
proof (elim disjE exE conjE)
  fix q n h' ss'
  assume r: "kmalloc t h = Some (of_nat q, h')" "heap_ok h' ss'"
    "usados 0x300000 ss' = insert (q, n) (usados 0x300000 ss)" "(q, n) \<notin> usados 0x300000 ss"
    "unat t \<le> n" "n < arredondado t + 17"
  have v: "vivos h' (insert (q, n) (usados 0x300000 ss))" using r by (auto simp: vivos_def)
  have "disjunto (q, n) x" if "x \<in> usados 0x300000 ss" for x
    using kh.disj [OF v, of q n "fst x" "snd x"] that r(4) by (cases x) (auto simp: disjunto_def)
  with r kh.regiao [OF v, of q n] show ?thesis by (intro disjI2 exI conjI) auto
qed simp

theorem kmalloc_correto_witness:
  "\<exists>q n h'. kmalloc 100 (kheap_init \<lparr>heap_inicio = 0, inicializado = 0, blocos = (\<lambda>_. \<lparr>b_tamanho = 0, b_livre = 0, b_proximo = 0\<rparr>)\<rparr>)
     = Some (of_nat q, h') \<and> 100 \<le> n \<and> n < 117 \<and> q + n \<le> HEAP_FIM"
  using kmalloc_correto [OF kheap_init_ok, of 100] by (simp add: arredondado_def) blast

text \<open>C4: \<open>kfree\<close> of a live pointer ends, makes exactly that payload free, and leaves no two
  neighbouring free blocks; when it was the last one, the heap is again the single block
  that \<open>kheap_init\<close> made.\<close>

theorem kfree_correto:
  assumes "heap_ok h ss" "(q, n) \<in> usados 0x300000 ss"
  shows "\<exists>h' ss'. kfree (of_nat q) h = Some h' \<and> heap_ok h' ss' \<and>
    usados 0x300000 ss' = usados 0x300000 ss - {(q, n)} \<and> sem_vizinhos_livres ss' \<and>
    (usados 0x300000 ss = {(q, n)} \<longrightarrow> ss' = [(262135, True)])"
proof -
  obtain h' ss' where r: "kfree (of_nat q) h = Some h'" "heap_ok h' ss'"
    "usados 0x300000 ss' = usados 0x300000 ss - {(q, n)}" "sem_vizinhos_livres ss'"
    using kfree_spec [OF assms] by blast
  have "ss' = [(262135, True)]" if "usados 0x300000 ss = {(q, n)}"
    using vazio_um_bloco [of "blocos h'" HEAP_INICIO "0x300000" ss'] r that
    by (simp add: heap_ok_def HEAP_FIM_def)
  with r show ?thesis by blast
qed

definition heap_exemplo :: kheap where
  "heap_exemplo = \<lparr>heap_inicio = HEAP_INICIO, inicializado = 1,
     blocos = (\<lambda>_. \<lparr>b_tamanho = 0, b_livre = 0, b_proximo = 0\<rparr>)
       (0x300000 := \<lparr>b_tamanho = 100, b_livre = 1, b_proximo = 0x30006D\<rparr>,
        0x30006D := \<lparr>b_tamanho = 8, b_livre = 0, b_proximo = 0x30007E\<rparr>,
        0x30007E := \<lparr>b_tamanho = 262009, b_livre = 1, b_proximo = 0\<rparr>)\<rparr>"

lemma heap_exemplo_ok: "heap_ok heap_exemplo [(100, True), (8, False), (262009, True)]"
  by (simp add: heap_ok_def heap_exemplo_def HEAP_INICIO_def HEAP_FIM_def)

theorem kfree_correto_witness:
  "\<exists>h'. kfree 0x300076 heap_exemplo = Some h' \<and> heap_ok h' [(262135, True)]"
  using kfree_correto [OF heap_exemplo_ok, of "0x300076" 8] by auto



text \<open>A request of at least 0xFFFFFFFD bytes wraps to zero when it is rounded up, and \<open>kmalloc\<close>
  answers a non-null pointer to an empty payload instead of failing.\<close>

theorem kmalloc_gigante:
  "\<exists>h'. kmalloc 0xFFFFFFFF (kheap_init h) = Some (0x300009, h') \<and>
     heap_ok h' [(0, False), (262126, True)]"
proof -
  have z: "((0xFFFFFFFF :: u32) + 3) AND NOT 3 = 0" by simp
  have l: "lista (blocos (kheap_init h)) HEAP_INICIO 0x300000 [(262135, True)]"
    using kheap_init_ok [of h] by (simp add: heap_ok_def)
  from kmalloc_loop_refines [OF l, of 0] show ?thesis
    unfolding kmalloc_def z by (auto simp: heap_ok_def kheap_init_def Let_def)
qed

end
