(* ===== verification/Slab.thy ===== *)
theory Slab
  imports Kheap
begin

text \<open>
  \<^verbatim>\<open>kernel/mem/slab.c\<close>: caches of fixed-size objects, each a list of one-page slabs.  A slab header
  sits at the start of its page and the free slots of a slab are threaded through their own first
  word: \<open>slabs\<close> is the memory of headers, \<open>slots\<close> the link words, \<open>cachem\<close> the cache records that
  \<^verbatim>\<open>kmalloc\<close> provides.  Pages come from the page allocator of theory \<open>Pmm\<close>.

  The slab system satisfies the same contract as the kernel heap (locale \<open>heap_allocator\<close>), with a
  cache as the request: over all the caches together, no object is handed out twice.
\<close>

section \<open>State and operations\<close>

record slab_cache =
  obj_size :: u32
  objs_por_slab :: u32
  slab_lista :: u32
  prox :: u32

record slab =
  livre_count :: u32
  free_list :: u32
  sl_proximo :: u32

record slab_sis =
  sl_pmm :: pmm
  sl_heap :: kheap
  slabs :: "u32 \<Rightarrow> slab"
  slots :: "u32 \<Rightarrow> u32"
  cachem :: "u32 \<Rightarrow> slab_cache"
  caches :: u32
  cache_32 :: u32
  cache_64 :: u32
  cache_128 :: u32
  cache_256 :: u32

definition SLAB_CABECALO :: u32 where "SLAB_CABECALO = 12"

text \<open>The loop that threads the free list, \<open>n\<close> rounds from slot \<open>i\<close> on.\<close>

fun ligar :: "u32 \<Rightarrow> u32 \<Rightarrow> nat \<Rightarrow> nat \<Rightarrow> (u32 \<Rightarrow> u32) \<Rightarrow> (u32 \<Rightarrow> u32)" where
  "ligar base sz i 0 m = m"
| "ligar base sz i (Suc n) m =
     ligar base sz (Suc i) n (m(base + of_nat i * sz := base + (of_nat i + 1) * sz))"

definition slab_novo :: "u32 \<Rightarrow> slab_sis \<Rightarrow> u32 \<times> slab_sis" where
  "slab_novo cache s =
     (let (fis, pm) = pmm_alloc (sl_pmm s); s = s\<lparr>sl_pmm := pm\<rparr> in
      if fis = 0 then (0, s)
      else
        (let espaco = 4096 - SLAB_CABECALO;
             sz = obj_size (cachem s cache);
             n = espaco div sz;
             base = fis + SLAB_CABECALO;
             m = ligar base sz 0 (unat (n - 1)) (slots s)
         in (fis, s\<lparr>cachem := (cachem s)(cache := (cachem s cache)\<lparr>objs_por_slab := n\<rparr>),
                     slabs := (slabs s)(fis := \<lparr>livre_count = n, free_list = base, sl_proximo = 0\<rparr>),
                     slots := m(base + (n - 1) * sz := 0)\<rparr>)))"

definition slab_criar :: "u32 \<Rightarrow> slab_sis \<Rightarrow> (u32 \<times> slab_sis) option" where
  "slab_criar tamanho s =
     (let tamanho = (if tamanho < 8 then 8 else tamanho);
          tamanho = (tamanho + 3) AND NOT 3
      in case kmalloc 16 (sl_heap s) of
           None \<Rightarrow> None
         | Some (cache, h) \<Rightarrow>
             let s = s\<lparr>sl_heap := h\<rparr> in
             if cache = 0 then Some (0, s)
             else
               let s = s\<lparr>cachem := (cachem s)(cache :=
                     \<lparr>obj_size = tamanho, objs_por_slab = 0, slab_lista = 0, prox = caches s\<rparr>),
                     caches := cache\<rparr>;
                   (sl, s) = slab_novo cache s
               in Some (cache, s\<lparr>cachem := (cachem s)(cache := (cachem s cache)\<lparr>slab_lista := sl\<rparr>)\<rparr>))"

partial_function (option) achar_slab :: "(u32 \<Rightarrow> slab) \<Rightarrow> u32 \<Rightarrow> u32 option" where
  "achar_slab m sl =
     (if sl \<noteq> 0 \<and> livre_count (m sl) = 0 then achar_slab m (sl_proximo (m sl)) else Some sl)"

definition slab_tirar :: "u32 \<Rightarrow> slab_sis \<Rightarrow> u32 \<times> slab_sis" where
  "slab_tirar sl s =
     (let obj = free_list (slabs s sl) in
      (obj, s\<lparr>slabs := (slabs s)(sl := (slabs s sl)\<lparr>free_list := slots s obj,
                                     livre_count := livre_count (slabs s sl) - 1\<rparr>)\<rparr>))"

definition slab_alloc :: "u32 \<Rightarrow> slab_sis \<Rightarrow> (u32 \<times> slab_sis) option" where
  "slab_alloc cache s =
     (if cache = 0 then Some (0, s)
      else case achar_slab (slabs s) (slab_lista (cachem s cache)) of
        None \<Rightarrow> None
      | Some sl \<Rightarrow>
          if sl \<noteq> 0 then Some (slab_tirar sl s)
          else
            let (novo, s) = slab_novo cache s in
            if novo = 0 then Some (0, s)
            else
              let s = s\<lparr>slabs := (slabs s)(novo := (slabs s novo)
                          \<lparr>sl_proximo := slab_lista (cachem s cache)\<rparr>),
                        cachem := (cachem s)(cache := (cachem s cache)\<lparr>slab_lista := novo\<rparr>)\<rparr>
              in Some (slab_tirar novo s))"

definition slab_free :: "u32 \<Rightarrow> u32 \<Rightarrow> slab_sis \<Rightarrow> slab_sis" where
  "slab_free cache p s =
     (if cache = 0 \<or> p = 0 then s
      else
        let sl = p AND NOT 0xFFF in
        s\<lparr>slots := (slots s)(p := free_list (slabs s sl)),
          slabs := (slabs s)(sl := (slabs s sl)\<lparr>free_list := p,
                                  livre_count := livre_count (slabs s sl) + 1\<rparr>)\<rparr>)"

definition slab_init :: "slab_sis \<Rightarrow> slab_sis option" where
  "slab_init s =
     (case slab_criar 32 s of None \<Rightarrow> None | Some (c, s) \<Rightarrow> let s = s\<lparr>cache_32 := c\<rparr> in
      case slab_criar 64 s of None \<Rightarrow> None | Some (c, s) \<Rightarrow> let s = s\<lparr>cache_64 := c\<rparr> in
      case slab_criar 128 s of None \<Rightarrow> None | Some (c, s) \<Rightarrow> let s = s\<lparr>cache_128 := c\<rparr> in
      case slab_criar 256 s of None \<Rightarrow> None | Some (c, s) \<Rightarrow> Some (s\<lparr>cache_256 := c\<rparr>))"

section \<open>Slots of a page\<close>

definition slot :: "u32 \<Rightarrow> u32 \<Rightarrow> nat \<Rightarrow> u32" where
  "slot pg sz i = pg + 12 + of_nat i * sz"

definition grade :: "u32 \<Rightarrow> u32 \<Rightarrow> nat \<Rightarrow> u32 set" where
  "grade pg sz n = slot pg sz ` {..<n}"

text \<open>Linked lists: through the link words of the slots, through the headers.\<close>

fun cadeia :: "(u32 \<Rightarrow> u32) \<Rightarrow> u32 \<Rightarrow> u32 list \<Rightarrow> bool" where
  "cadeia nx p [] \<longleftrightarrow> p = 0"
| "cadeia nx p (x # xs) \<longleftrightarrow> p = x \<and> x \<noteq> 0 \<and> cadeia nx (nx x) xs"

lemma cadeia_upd [simp]: "x \<notin> set xs \<Longrightarrow> cadeia (nx(x := y)) p xs = cadeia nx p xs"
  by (induction xs arbitrary: p) auto

lemma cadeia_agree: "(\<And>x. x \<in> set xs \<Longrightarrow> nx' x = nx x) \<Longrightarrow> cadeia nx' p xs = cadeia nx p xs"
  by (induction xs arbitrary: p) auto

definition pagina_ok :: "u32 \<Rightarrow> bool" where
  "pagina_ok pg \<longleftrightarrow> 4096 dvd unat pg \<and> pg \<noteq> 0 \<and> unat pg < 2 ^ 30"

lemma unat_slot:
  assumes "pagina_ok pg" "i < 4084 div unat sz" "0 < sz"
  shows "unat (slot pg sz i) = unat pg + 12 + i * unat sz"
    and "12 + i * unat sz + unat sz \<le> 4096"
proof -
  have s: "0 < unat sz" using assms(3) by (simp add: word_less_nat_alt)
  have "Suc i * unat sz \<le> 4084 div unat sz * unat sz"
    using assms(2) by (intro mult_le_mono1) simp
  also have "\<dots> \<le> 4084" by simp
  finally show b: "12 + i * unat sz + unat sz \<le> 4096" by simp
  from assms(1) have p: "unat pg + 4096 \<le> 2 ^ 32" by (simp add: pagina_ok_def)
  have e: "slot pg sz i = of_nat (unat pg + 12 + i * unat sz)" by (simp add: slot_def)
  show "unat (slot pg sz i) = unat pg + 12 + i * unat sz"
    unfolding e by (rule unat_of_nat_u32) (use p b s in linarith)
qed

lemma slot_inj:
  "pagina_ok pg \<Longrightarrow> 0 < sz \<Longrightarrow> inj_on (slot pg sz) {..<4084 div unat sz}"
  using unat_slot(1) by (intro inj_onI) (metis add_left_cancel lessThan_iff mult_cancel2 unat_eq_zero less_irrefl)

lemma and_not_mask: "(x :: u32) AND NOT 0xFFF = of_nat (unat x div 4096 * 4096)"
proof -
  have "(0xFFF :: u32) = mask 12" by (simp add: mask_eq_exp_minus_1)
  then have "x AND NOT 0xFFF = x AND NOT (mask 12)" by simp
  also have "\<dots> = push_bit 12 (drop_bit 12 x)"
    by (rule bit_word_eqI) (auto simp: bit_simps)
  also have "\<dots> = of_nat (unat (drop_bit 12 x) * 4096)"
    by (simp add: push_bit_eq_mult)
  also have "unat (drop_bit 12 x) = unat x div 4096"
    by (subst unat_drop_bit_eq) (simp add: drop_bit_eq_div)
  finally show ?thesis .
qed

lemma slot_pagina:
  assumes "pagina_ok pg" "i < 4084 div unat sz" "0 < sz"
  shows "slot pg sz i AND NOT 0xFFF = pg" "slot pg sz i \<noteq> 0"
proof -
  have s: "0 < unat sz" using assms(3) by (simp add: word_less_nat_alt)
  obtain k where k: "unat pg = 4096 * k" using assms(1) by (auto simp: pagina_ok_def)
  have "unat (slot pg sz i) = 4096 * k + (12 + i * unat sz)" "12 + i * unat sz < 4096"
    using unat_slot [OF assms] k s by simp_all
  then have d: "unat (slot pg sz i) div 4096 * 4096 = unat pg" using k by simp
  show "slot pg sz i AND NOT 0xFFF = pg" by (simp only: and_not_mask d) simp
  show "slot pg sz i \<noteq> 0" using unat_slot(1) [OF assms] by auto
qed


text \<open>The thread through a fresh page.\<close>

lemma ligar_outside:
  "(\<And>j. i \<le> j \<Longrightarrow> j < i + n \<Longrightarrow> x \<noteq> base + of_nat j * sz) \<Longrightarrow> ligar base sz i n m x = m x"
  by (induction base sz i n m rule: ligar.induct) auto

lemma ligar_at:
  assumes "inj_on (\<lambda>j. base + of_nat j * sz) {..k}" "i \<le> j" "j < i + n" "i + n \<le> k"
  shows "ligar base sz i n m (base + of_nat j * sz) = base + of_nat (Suc j) * sz"
  using assms
proof (induction base sz i n m rule: ligar.induct)
  case (2 base sz i n m)
  show ?case
  proof (cases "j = i")
    case True
    have "base + of_nat i * sz \<noteq> base + of_nat r * sz" if "Suc i \<le> r" "r < Suc i + n" for r
    proof
      assume "base + of_nat i * sz = base + of_nat r * sz"
      from inj_onD [OF 2(2) this] that 2(5) show False by simp
    qed
    then show ?thesis using True
      by (simp add: ligar_outside algebra_simps del: add_left_cancel)
  next
    case False
    then show ?thesis using 2 by (simp del: fun_upd_apply)
  qed
qed simp

lemma cadeia_seguida:
  assumes "\<And>j. i \<le> j \<Longrightarrow> j < k \<Longrightarrow> nx (f j) = f (Suc j)" "nx (f k) = 0"
    "\<And>j. i \<le> j \<Longrightarrow> j \<le> k \<Longrightarrow> f j \<noteq> 0" "i \<le> k"
  shows "cadeia nx (f i) (map f [i..<Suc k])"
  using assms(4,1,3)
proof (induction i rule: inc_induct)
  case base
  then show ?case using assms(2) by simp
next
  case (step n)
  then have "cadeia nx (f (Suc n)) (map f [Suc n..<Suc k])" by simp
  moreover have "[n..<Suc k] = n # [Suc n..<Suc k]" using step(2) by (simp add: upt_conv_Cons)
  ultimately show ?case using step(2,4,5) by simp
qed

section \<open>The invariant of the slab system\<close>

text \<open>\<open>pgs c\<close> is the list of slabs of cache \<open>c\<close>, \<open>fl pg\<close> the free slots of slab \<open>pg\<close> in the order
  they will be handed out.\<close>

definition tam :: "slab_sis \<Rightarrow> u32 \<Rightarrow> u32" where "tam s c = obj_size (cachem s c)"

definition por_slab :: "slab_sis \<Rightarrow> u32 \<Rightarrow> nat" where "por_slab s c = 4084 div unat (tam s c)"

definition slab_ok :: "slab_sis \<Rightarrow> u32 \<Rightarrow> u32 \<Rightarrow> u32 list \<Rightarrow> bool" where
  "slab_ok s c pg xs \<longleftrightarrow> pagina_ok pg \<and> unat pg div 4096 \<notin> livres (sl_pmm s) \<and>
     cadeia (slots s) (free_list (slabs s pg)) xs \<and> distinct xs \<and>
     set xs \<subseteq> grade pg (tam s c) (por_slab s c) \<and> unat (livre_count (slabs s pg)) = length xs"

definition sis_ok :: "slab_sis \<Rightarrow> u32 set \<Rightarrow> (u32 \<Rightarrow> u32 list) \<Rightarrow> (u32 \<Rightarrow> u32 list) \<Rightarrow> bool" where
  "sis_ok s C pgs fl \<longleftrightarrow> pmm_inv (sl_pmm s) \<and> 0 \<notin> livres (sl_pmm s) \<and>
     (\<forall>c \<in> C. c \<noteq> 0 \<and> 8 \<le> unat (tam s c) \<and> unat (tam s c) \<le> 4084 \<and>
        cadeia (\<lambda>p. sl_proximo (slabs s p)) (slab_lista (cachem s c)) (pgs c) \<and>
        distinct (pgs c) \<and> (\<forall>pg \<in> set (pgs c). slab_ok s c pg (fl pg))) \<and>
     (\<forall>c \<in> C. \<forall>d \<in> C. c \<noteq> d \<longrightarrow> set (pgs c) \<inter> set (pgs d) = {})"

definition objetos :: "slab_sis \<Rightarrow> u32 set \<Rightarrow> (u32 \<Rightarrow> u32 list) \<Rightarrow> (u32 \<Rightarrow> u32 list) \<Rightarrow> (nat \<times> nat) set" where
  "objetos s C pgs fl =
     {(unat a, unat (tam s c)) | a c pg. c \<in> C \<and> pg \<in> set (pgs c) \<and>
        a \<in> grade pg (tam s c) (por_slab s c) \<and> a \<notin> set (fl pg)}"

lemma tam_pos: "8 \<le> unat (tam s c) \<Longrightarrow> 0 < tam s c"
  by (simp add: word_less_nat_alt)

lemma grade_pagina:
  assumes "pagina_ok pg" "8 \<le> unat (tam s c)" "a \<in> grade pg (tam s c) (por_slab s c)"
  shows "a AND NOT 0xFFF = pg" "a \<noteq> 0"
  using slot_pagina [OF assms(1) _ tam_pos [OF assms(2)]] assms(3)
  by (auto simp: grade_def por_slab_def)

lemma por_slab_pos: "8 \<le> unat (tam s c) \<Longrightarrow> unat (tam s c) \<le> 4084 \<Longrightarrow> 0 < por_slab s c \<and> por_slab s c \<le> 4084"
  by (simp add: por_slab_def div_greater_zero_iff)

lemma sis_slab: "sis_ok s C pgs fl \<Longrightarrow> c \<in> C \<Longrightarrow> pg \<in> set (pgs c) \<Longrightarrow> slab_ok s c pg (fl pg)"
  unfolding sis_ok_def by blast

lemma sis_cache:
  "sis_ok s C pgs fl \<Longrightarrow> c \<in> C \<Longrightarrow> c \<noteq> 0 \<and> 8 \<le> unat (tam s c) \<and> unat (tam s c) \<le> 4084 \<and>
     cadeia (\<lambda>p. sl_proximo (slabs s p)) (slab_lista (cachem s c)) (pgs c) \<and> distinct (pgs c)"
  unfolding sis_ok_def by blast

text \<open>The slab of a live or free slot is determined by its address.\<close>

lemma sis_dono:
  assumes "sis_ok s C pgs fl" "c \<in> C" "pg \<in> set (pgs c)" "d \<in> C" "qg \<in> set (pgs d)"
    "a \<in> grade pg (tam s c) (por_slab s c)" "a \<in> grade qg (tam s d) (por_slab s d)"
  shows "pg = qg" "c = d"
proof -
  from assms(1-5) have ok: "pagina_ok pg" "pagina_ok qg" "8 \<le> unat (tam s c)" "8 \<le> unat (tam s d)"
    by (auto simp: sis_ok_def slab_ok_def)
  show p: "pg = qg"
    using grade_pagina(1) [OF ok(1,3) assms(6)] grade_pagina(1) [OF ok(2,4) assms(7)] by simp
  with assms(1-5) show "c = d" unfolding sis_ok_def by blast
qed

section \<open>The operations keep it\<close>

lemma sis_troca:
  assumes "sis_ok s C pgs fl" "c \<in> C" "pg \<in> set (pgs c)" "slab_ok s' c pg xs"
    "\<And>d qg. d \<in> C \<Longrightarrow> qg \<in> set (pgs d) \<Longrightarrow> qg \<noteq> pg \<Longrightarrow> slab_ok s' d qg (fl qg)"
    "(\<lambda>p. sl_proximo (slabs s' p)) = (\<lambda>p. sl_proximo (slabs s p))"
    "cachem s' = cachem s" "sl_pmm s' = sl_pmm s"
  shows "sis_ok s' C pgs (fl(pg := xs))"
proof -
  have t: "tam s' = tam s" using assms(7) by (simp add: tam_def fun_eq_iff)
  have o: "c = d" if "d \<in> C" "pg \<in> set (pgs d)" for d
    using assms(1-3) that unfolding sis_ok_def by blast
  have "slab_ok s' d qg ((fl(pg := xs)) qg)" if "d \<in> C" "qg \<in> set (pgs d)" for d qg
    using assms(4,5) that o by (cases "qg = pg") auto
  then show ?thesis using assms(1,6-8) t unfolding sis_ok_def by simp
qed

lemma tirar_ok:
  assumes "sis_ok s C pgs fl" "c \<in> C" "pg \<in> set (pgs c)" "fl pg = x # xs" "slab_tirar pg s = (obj, s')"
  shows "obj = x \<and> sis_ok s' C pgs (fl(pg := xs)) \<and> tam s' = tam s"
proof -
  have ok: "slab_ok s c pg (x # xs)" using sis_slab [OF assms(1-3)] assms(4) by simp
  then have x: "free_list (slabs s pg) = x" "cadeia (slots s) (slots s x) xs" "distinct xs"
    by (auto simp: slab_ok_def)
  have s': "obj = x" "s' = s\<lparr>slabs := (slabs s)(pg := (slabs s pg)\<lparr>free_list := slots s x,
      livre_count := livre_count (slabs s pg) - 1\<rparr>)\<rparr>"
    using assms(5) x(1) by (auto simp: slab_tirar_def Let_def)
  have t: "tam s' = tam s" "por_slab s' = por_slab s" by (simp_all add: s'(2) tam_def fun_eq_iff por_slab_def)
  have "unat (livre_count (slabs s pg) - 1) = length xs"
  proof -
    have "unat (livre_count (slabs s pg)) = Suc (length xs)" using ok by (simp add: slab_ok_def)
    then show ?thesis by (subst unat_sub) (auto simp: word_le_nat_alt)
  qed
  then have "slab_ok s' c pg xs" using ok x t by (auto simp: slab_ok_def s'(2) tam_def por_slab_def)
  then have "sis_ok s' C pgs (fl(pg := xs))"
    by (rule sis_troca [OF assms(1-3)])
       (use sis_slab [OF assms(1)] t in \<open>auto simp: slab_ok_def s'(2)\<close>)
  with s'(1) t show ?thesis by simp
qed


lemma free_ok:
  assumes "sis_ok s C pgs fl" "c \<in> C" "pg \<in> set (pgs c)" "cache \<noteq> 0"
    "x \<in> grade pg (tam s c) (por_slab s c)" "x \<notin> set (fl pg)"
  shows "sis_ok (slab_free cache x s) C pgs (fl(pg := x # fl pg)) \<and> tam (slab_free cache x s) = tam s"
proof -
  note ok = sis_slab [OF assms(1-3)] and co = sis_cache [OF assms(1,2)]
  have pg: "x AND NOT 0xFFF = pg" "x \<noteq> 0"
    using grade_pagina [of pg s c x] ok co assms(5) by (auto simp: slab_ok_def)
  let ?s = "s\<lparr>slots := (slots s)(x := free_list (slabs s pg)),
          slabs := (slabs s)(pg := (slabs s pg)\<lparr>free_list := x, livre_count := livre_count (slabs s pg) + 1\<rparr>)\<rparr>"
  have s': "slab_free cache x s = ?s" using pg assms(4) by (simp add: slab_free_def)
  have t: "tam ?s = tam s" "por_slab ?s = por_slab s" by (simp_all add: tam_def fun_eq_iff por_slab_def)
  have "length (fl pg) \<le> card (grade pg (tam s c) (por_slab s c))"
    using ok distinct_card [of "fl pg"] card_mono [of "grade pg (tam s c) (por_slab s c)" "set (fl pg)"]
    by (auto simp: slab_ok_def grade_def)
  also have "\<dots> \<le> 4084"
    using card_image_le [of "{..<por_slab s c}" "slot pg (tam s c)"] por_slab_pos [of s c] co
    by (simp add: grade_def)
  finally have "unat (livre_count (slabs s pg) + 1) = Suc (length (fl pg))"
    using ok by (subst unat_add_lem [THEN iffD1]) (auto simp: slab_ok_def)
  then have "slab_ok ?s c pg (x # fl pg)"
    using ok assms(5,6) pg(2) t by (simp add: slab_ok_def)
  moreover have "slab_ok ?s d qg (fl qg)" if "d \<in> C" "qg \<in> set (pgs d)" "qg \<noteq> pg" for d qg
  proof -
    have o: "slab_ok s d qg (fl qg)" using sis_slab [OF assms(1) that(1,2)] .
    have "x \<notin> set (fl qg)"
      using sis_dono(1) [OF assms(1-3) that(1,2) assms(5)] o that(3) by (auto simp: slab_ok_def)
    then show ?thesis using o that(3) t by (simp add: slab_ok_def)
  qed
  ultimately have "sis_ok ?s C pgs (fl(pg := x # fl pg))"
    by (rule sis_troca [OF assms(1-3)]) auto
  with s' t show ?thesis by simp
qed

text \<open>A new page, threaded into a list of all its slots.\<close>

definition todos :: "u32 \<Rightarrow> u32 \<Rightarrow> u32 list" where
  "todos pg sz = map (slot pg sz) [0..<4084 div unat sz]"

lemma set_todos: "set (todos pg sz) = grade pg sz (4084 div unat sz)"
  by (auto simp: todos_def grade_def)

lemma novo_ok:
  assumes "sis_ok s C pgs fl" "c \<in> C" "slab_novo c s = (pg, s')"
  shows "(pg = 0 \<and> sis_ok s' C pgs fl \<and> tam s' = tam s \<and> livres (sl_pmm s) = {} \<and> s' = s) \<or>
    (pg \<noteq> 0 \<and> sis_ok s' C pgs (fl(pg := todos pg (tam s c))) \<and> tam s' = tam s \<and>
     slab_ok s' c pg (todos pg (tam s c)) \<and> (\<forall>d \<in> C. pg \<notin> set (pgs d)) \<and>
     slab_lista (cachem s' c) = slab_lista (cachem s c))"
proof -
  have inv: "pmm_inv (sl_pmm s)" "0 \<notin> livres (sl_pmm s)" using assms(1) by (auto simp: sis_ok_def)
  note co = sis_cache [OF assms(1,2)]
  obtain a pm where al: "pmm_alloc (sl_pmm s) = (a, pm)" by fastforce
  from inv(1) al show ?thesis
  proof (cases rule: pmm.alloc_cases)
    case cheio
    with al assms show ?thesis by (simp add: slab_novo_def Let_def)
  next
    case novo
    let ?sz = "tam s c" and ?n = "por_slab s c"
    have a: "a \<noteq> 0" using novo(1) inv(2) by (auto intro: ccontr)
    have "unat a div 4096 < 262144"
      using novo(1) pmm_inv_bounds [OF inv(1)] by (auto simp: livres_def)
    then have pok: "pagina_ok a" using novo(2) a by (auto simp: pagina_ok_def elim!: dvdE)
    have n: "0 < ?n" "?n \<le> 4084" using por_slab_pos [of s c] co by auto
    have nd: "(4096 - SLAB_CABECALO) div ?sz = of_nat ?n" "unat (of_nat ?n :: u32) = ?n"
    proof -
      have "unat ((4096 - SLAB_CABECALO) div ?sz) = ?n"
        by (simp add: SLAB_CABECALO_def unat_div_distrib por_slab_def)
      then have "of_nat (unat ((4096 - SLAB_CABECALO) div ?sz)) = (of_nat ?n :: u32)" by (rule arg_cong)
      then show "(4096 - SLAB_CABECALO) div ?sz = of_nat ?n" by simp
      show "unat (of_nat ?n :: u32) = ?n" by (rule unat_of_nat_u32) (use n in simp)
    qed
    have m1: "unat (of_nat ?n - 1 :: u32) = ?n - 1" "(of_nat ?n - 1 :: u32) = of_nat (?n - 1)"
    proof -
      show m: "(of_nat ?n - 1 :: u32) = of_nat (?n - 1)" using n by (simp add: of_nat_diff)
      show "unat (of_nat ?n - 1 :: u32) = ?n - 1" unfolding m by (rule unat_of_nat_u32) (use n in simp)
    qed
    let ?base = "a + SLAB_CABECALO"
    let ?m = "(ligar ?base ?sz 0 (?n - 1) (slots s))(?base + of_nat (?n - 1) * ?sz := 0)"
    have bs: "?base + of_nat j * ?sz = slot a ?sz j" for j by (simp add: slot_def SLAB_CABECALO_def)
    have pg: "pg = a" and s': "s' = s\<lparr>sl_pmm := pm,
        cachem := (cachem s)(c := (cachem s c)\<lparr>objs_por_slab := of_nat ?n\<rparr>),
        slabs := (slabs s)(a := \<lparr>livre_count = of_nat ?n, free_list = ?base, sl_proximo = 0\<rparr>), slots := ?m\<rparr>"
      using assms(3) al a nd(1) m1 by (auto simp: slab_novo_def Let_def tam_def)
    have t: "tam s' = tam s" "por_slab s' = por_slab s" by (auto simp: s' tam_def fun_eq_iff por_slab_def)
    have ns: "?n = 4084 div unat ?sz" by (simp add: por_slab_def)
    have inj: "inj_on (slot a ?sz) {..<?n}"
      unfolding ns by (rule slot_inj) (use pok co tam_pos in auto)
    have "cadeia ?m (slot a ?sz 0) (map (slot a ?sz) [0..<Suc (?n - 1)])"
    proof (rule cadeia_seguida)
      fix j assume j: "0 \<le> j" "j < ?n - 1"
      have "slot a ?sz j \<noteq> slot a ?sz (?n - 1)"
      proof
        assume e: "slot a ?sz j = slot a ?sz (?n - 1)"
        have "j \<in> {..<?n}" "?n - 1 \<in> {..<?n}" using j n by auto
        from inj_onD [OF inj e this] j show False by simp
      qed
      moreover have "ligar ?base ?sz 0 (?n - 1) (slots s) (slot a ?sz j) = slot a ?sz (Suc j)"
        unfolding bs [symmetric]
        by (rule ligar_at [where k = "?n - 1"])
           (use inj j n in \<open>auto simp: bs lessThan_Suc_atMost [symmetric]\<close>)
      ultimately show "?m (slot a ?sz j) = slot a ?sz (Suc j)" by (simp add: bs)
    next
      show "slot a ?sz j \<noteq> 0" if "0 \<le> j" "j \<le> ?n - 1" for j
        using slot_pagina(2) [of a j ?sz] pok co tam_pos that n ns by auto
    qed (simp_all add: bs)
    moreover have "slot a ?sz 0 = ?base" by (simp add: slot_def SLAB_CABECALO_def)
    ultimately have ch: "cadeia ?m ?base (todos a ?sz)" using n by (simp add: todos_def ns [symmetric])
    have nok: "slab_ok s' c a (todos a ?sz)"
      using pok ch inj nd(2) novo(3) unfolding slab_ok_def t
      by (simp add: s' set_todos ns) (simp add: todos_def distinct_map ns atLeast0LessThan)
    have fresh: "a \<notin> set (pgs d)" if "d \<in> C" for d
      using sis_slab [OF assms(1) that, of a] novo(1) by (auto simp: slab_ok_def)
    have old: "slab_ok s' d qg (fl qg)" if d: "d \<in> C" "qg \<in> set (pgs d)" for d qg
    proof -
      note o = sis_slab [OF assms(1) d] and co' = sis_cache [OF assms(1) d(1)]
      have "qg \<noteq> a" using fresh d by auto
      have out: "x \<noteq> slot a ?sz j" if "x \<in> set (fl qg)" "j < ?n" for x j
      proof
        assume e: "x = slot a ?sz j"
        have "x AND NOT 0xFFF = qg" using grade_pagina(1) [of qg s d x] o co' that(1) by (auto simp: slab_ok_def)
        moreover have "x AND NOT 0xFFF = a" using slot_pagina(1) [of a j ?sz] e pok co tam_pos that(2) ns by auto
        ultimately show False using \<open>qg \<noteq> a\<close> by simp
      qed
      have "?m x = slots s x" if "x \<in> set (fl qg)" for x
      proof -
        have "x \<noteq> ?base + of_nat (?n - 1) * ?sz" using out [OF that, of "?n - 1"] n unfolding bs by simp
        moreover have "ligar ?base ?sz 0 (?n - 1) (slots s) x = slots s x"
          by (rule ligar_outside) (use out [OF that] n in \<open>simp only: bs\<close>, auto)
        ultimately show ?thesis by simp
      qed
      then have "cadeia ?m p (fl qg) = cadeia (slots s) p (fl qg)" for p by (rule cadeia_agree)
      with o \<open>qg \<noteq> a\<close> novo(3) show ?thesis unfolding slab_ok_def t by (simp add: s')
    qed
    have pr: "cadeia (\<lambda>p. sl_proximo (slabs s' p)) q (pgs d) = cadeia (\<lambda>p. sl_proximo (slabs s p)) q (pgs d)"
      if "d \<in> C" for d q
      by (rule cadeia_agree) (use fresh [OF that] in \<open>auto simp: s'\<close>)
    have sl: "slab_lista (cachem s' d) = slab_lista (cachem s d)" for d by (simp add: s')
    have "sis_ok s' C pgs (fl(a := todos a ?sz))"
      using assms(1) old fresh pr novo(3,4) inv(2) unfolding sis_ok_def t sl
      by (auto simp: s') 
    with a pg t nok fresh sl show ?thesis by simp
  qed
qed


section \<open>The slab system as an allocator\<close>

lemma achar_ok:
  "cadeia (\<lambda>p. sl_proximo (m p)) p ps \<Longrightarrow>
   \<exists>q. achar_slab m p = Some q \<and>
     (q = 0 \<and> (\<forall>x \<in> set ps. livre_count (m x) = 0) \<or> q \<in> set ps \<and> q \<noteq> 0 \<and> livre_count (m q) \<noteq> 0)"
proof (induction ps arbitrary: p)
  case Nil
  then show ?case by (subst achar_slab.simps) simp
next
  case (Cons x ps)
  then show ?case by (cases "livre_count (m x) = 0") (subst achar_slab.simps, auto)+
qed

text \<open>\<open>C\<close> is the set of caches, \<open>T\<close> their object sizes.\<close>

definition slab_viv :: "u32 set \<Rightarrow> (u32 \<Rightarrow> nat) \<Rightarrow> slab_sis \<Rightarrow> (nat \<times> nat) set \<Rightarrow> bool" where
  "slab_viv C T s V \<longleftrightarrow> (\<exists>pgs fl. sis_ok s C pgs fl \<and> objetos s C pgs fl = V \<and> (\<forall>c \<in> C. unat (tam s c) = T c))"

lemma unat_inject [simp]: "unat (a :: u32) = unat b \<longleftrightarrow> a = b"
  by (rule iffI, erule unsigned_word_eqI, simp)

lemma objetos_troca:
  assumes "sis_ok s C pgs fl" "c \<in> C" "pg \<in> set (pgs c)" "fl pg = x # xs" "tam s' = tam s"
  shows "objetos s' C pgs (fl(pg := xs)) = insert (unat x, unat (tam s c)) (objetos s C pgs fl)"
    and "(unat x, unat (tam s c)) \<notin> objetos s C pgs fl"
proof -
  have ps: "por_slab s' = por_slab s" using assms(5) by (simp add: por_slab_def fun_eq_iff)
  have ok: "slab_ok s c pg (x # xs)" using sis_slab [OF assms(1-3)] assms(4) by simp
  then have g: "x \<in> grade pg (tam s c) (por_slab s c)" "x \<notin> set xs" by (auto simp: slab_ok_def)
  note dono = sis_dono [OF assms(1-3) _ _ g(1)]
  show "(unat x, unat (tam s c)) \<notin> objetos s C pgs fl"
  proof
    assume "(unat x, unat (tam s c)) \<in> objetos s C pgs fl"
    then obtain d qg where q: "d \<in> C" "qg \<in> set (pgs d)" "x \<in> grade qg (tam s d) (por_slab s d)" "x \<notin> set (fl qg)"
      by (auto simp: objetos_def)
    from dono(1) [OF q(1-3)] q(4) assms(4) show False by simp
  qed
  show "objetos s' C pgs (fl(pg := xs)) = insert (unat x, unat (tam s c)) (objetos s C pgs fl)" (is "?L = ?R")
  proof
    show "?L \<subseteq> ?R"
    proof
      fix v assume "v \<in> ?L"
      then obtain a d qg where v: "v = (unat a, unat (tam s d))" "d \<in> C" "qg \<in> set (pgs d)"
        "a \<in> grade qg (tam s d) (por_slab s d)" "a \<notin> set ((fl(pg := xs)) qg)"
        unfolding objetos_def assms(5) ps by blast
      show "v \<in> ?R"
      proof (cases "a \<in> set (fl qg)")
        case False
        with v show ?thesis unfolding objetos_def by auto
      next
        case True
        with v(5) assms(4) have "qg = pg" "a = x" by (auto split: if_splits)
        moreover from this v(2,3) assms(1-3) have "d = c" unfolding sis_ok_def by blast
        ultimately show ?thesis using v(1) by simp
      qed
    qed
  next
    show "?R \<subseteq> ?L"
      using g assms(2-4) unfolding objetos_def assms(5) ps by (auto split: if_splits) fastforce+
  qed
qed


lemma objetos_cheio:
  assumes "tam s' = tam s" "\<forall>d \<in> C. pg \<notin> set (pgs d)"
  shows "objetos s' C (pgs(c := pg # pgs c)) (fl(pg := todos pg (tam s c))) = objetos s C pgs fl"
proof -
  have "por_slab s' = por_slab s" using assms(1) by (simp add: por_slab_def fun_eq_iff)
  with assms show ?thesis
    unfolding objetos_def by (auto simp: set_todos por_slab_def split: if_splits) metis+
qed

lemma inserir_ok:
  assumes "sis_ok s C pgs fl" "c \<in> C" "slab_ok s c pg (fl pg)" "\<forall>d \<in> C. pg \<notin> set (pgs d)"
    "s' = s\<lparr>slabs := (slabs s)(pg := (slabs s pg)\<lparr>sl_proximo := slab_lista (cachem s c)\<rparr>),
            cachem := (cachem s)(c := (cachem s c)\<lparr>slab_lista := pg\<rparr>)\<rparr>"
  shows "sis_ok s' C (pgs(c := pg # pgs c)) fl \<and> tam s' = tam s"
proof -
  have t: "tam s' = tam s" "por_slab s' = por_slab s"
    by (auto simp: assms(5) tam_def fun_eq_iff por_slab_def)
  have ok: "slab_ok s' d qg (fl qg)" if "slab_ok s d qg (fl qg)" for d qg
    using that unfolding slab_ok_def t by (cases "qg = pg") (simp_all add: assms(5))
  have pr: "cadeia (\<lambda>p. sl_proximo (slabs s' p)) q (pgs d) = cadeia (\<lambda>p. sl_proximo (slabs s p)) q (pgs d)"
    if "d \<in> C" for d q
    by (rule cadeia_agree) (use assms(4) that in \<open>auto simp: assms(5)\<close>)
  have pz: "pg \<noteq> 0" using assms(3) by (simp add: slab_ok_def pagina_ok_def)
  have cd: "d \<in> C \<Longrightarrow> d \<noteq> 0 \<and> 8 \<le> unat (tam s d) \<and> unat (tam s d) \<le> 4084 \<and>
      cadeia (\<lambda>p. sl_proximo (slabs s' p)) (slab_lista (cachem s' d)) ((pgs(c := pg # pgs c)) d) \<and>
      distinct ((pgs(c := pg # pgs c)) d) \<and>
      (\<forall>qg \<in> set ((pgs(c := pg # pgs c)) d). slab_ok s' d qg (fl qg))" for d
    using sis_cache [OF assms(1), of d] pr [of d] ok sis_slab [OF assms(1)] assms(3,4) pz
    by (cases "d = c") (auto simp: assms(5))
  have "set ((pgs(c := pg # pgs c)) d) \<inter> set ((pgs(c := pg # pgs c)) e) = {}"
    if "d \<in> C" "e \<in> C" "d \<noteq> e" for d e
  proof -
    have "set (pgs d) \<inter> set (pgs e) = {}" using assms(1) that unfolding sis_ok_def by blast
    then show ?thesis using assms(4) that by auto
  qed
  with cd assms(1) show ?thesis unfolding sis_ok_def t by (simp add: assms(5))
qed

lemma slab_alloc_ok:
  assumes "slab_viv C T s V" "c \<in> C"
  shows "(\<exists>s'. slab_alloc c s = Some (0, s') \<and> slab_viv C T s' V \<and> livres (sl_pmm s) = {}) \<or>
    (\<exists>q s'. slab_alloc c s = Some (of_nat q, s') \<and> slab_viv C T s' (insert (q, T c) V) \<and>
       (q, T c) \<notin> V \<and> (of_nat q :: u32) \<noteq> 0)"
proof -
  from assms(1) obtain pgs fl where o: "sis_ok s C pgs fl" "objetos s C pgs fl = V"
    "\<forall>d \<in> C. unat (tam s d) = T d" by (auto simp: slab_viv_def)
  note co = sis_cache [OF o(1) assms(2)]
  have fim: "\<exists>q s'. Some (slab_tirar pg t) = Some (of_nat q, s') \<and> slab_viv C T s' (insert (q, T c) V) \<and>
       (q, T c) \<notin> V \<and> (of_nat q :: u32) \<noteq> 0"
    if t: "sis_ok t C ps f" "pg \<in> set (ps c)" "f pg \<noteq> []" "objetos t C ps f = V" "tam t = tam s" for pg t ps f
  proof -
    obtain x xs where f: "f pg = x # xs" using t(3) by (cases "f pg") auto
    obtain obj t' where tt: "slab_tirar pg t = (obj, t')" by fastforce
    have g: "x \<noteq> 0" using sis_slab [OF t(1) assms(2) t(2)] f by (simp add: slab_ok_def)
    note r = tirar_ok [OF t(1) assms(2) t(2) f tt]
    note j = objetos_troca [OF t(1) assms(2) t(2) f, of t']
    have "slab_viv C T t' (insert (unat x, T c) V)"
      unfolding slab_viv_def
      using r j(1) o(3) assms(2) t(4,5)
      by (intro exI [of _ ps] exI [of _ "f(pg := xs)"]) simp
    moreover have "(unat x, T c) \<notin> V" using j(2) r t(4,5) o(3) assms(2) by simp
    ultimately show ?thesis using tt r g by (intro exI [of _ "unat x"] exI [of _ t']) simp
  qed
  from achar_ok [of "slabs s", OF co [THEN conjunct2, THEN conjunct2, THEN conjunct2, THEN conjunct1]]
  obtain q where q: "achar_slab (slabs s) (slab_lista (cachem s c)) = Some q"
    "q = 0 \<or> q \<in> set (pgs c) \<and> q \<noteq> 0 \<and> livre_count (slabs s q) \<noteq> 0" by auto
  show ?thesis
  proof (cases "q = 0")
    case False
    with q(2) have "q \<in> set (pgs c)" "livre_count (slabs s q) \<noteq> 0" by auto
    moreover from this sis_slab [OF o(1) assms(2), of q] have "fl q \<noteq> []"
      by (simp add: slab_ok_def) (metis list.size(3) unat_eq_zero)
    ultimately show ?thesis using fim [OF o(1) _ _ o(2)] False q(1) co by (simp add: slab_alloc_def)
  next
    case True
    obtain pg s1 where nv: "slab_novo c s = (pg, s1)" by fastforce
    from novo_ok [OF o(1) assms(2) nv] show ?thesis
    proof (elim disjE conjE)
      assume "pg = 0" "livres (sl_pmm s) = {}" "s1 = s"
      then show ?thesis using True q(1) co nv assms(1) by (simp add: slab_alloc_def)
    next
      assume n: "pg \<noteq> 0" "sis_ok s1 C pgs (fl(pg := todos pg (tam s c)))" "tam s1 = tam s"
        "slab_ok s1 c pg (todos pg (tam s c))" "\<forall>d \<in> C. pg \<notin> set (pgs d)"
        "slab_lista (cachem s1 c) = slab_lista (cachem s c)"
      let ?t = "s1\<lparr>slabs := (slabs s1)(pg := (slabs s1 pg)\<lparr>sl_proximo := slab_lista (cachem s1 c)\<rparr>),
            cachem := (cachem s1)(c := (cachem s1 c)\<lparr>slab_lista := pg\<rparr>)\<rparr>"
      have al: "slab_alloc c s = Some (slab_tirar pg ?t)"
        using True q(1) co nv n(1) by (simp add: slab_alloc_def)
      have i: "sis_ok ?t C (pgs(c := pg # pgs c)) (fl(pg := todos pg (tam s c)))" "tam ?t = tam s"
        using inserir_ok [OF n(2) assms(2) _ n(5) refl] n(3,4) by simp_all
      have "todos pg (tam s c) \<noteq> []"
        using por_slab_pos [of s c] co by (simp add: todos_def por_slab_def)
      with fim [OF i(1) _ _ _ i(2), of pg] objetos_cheio [OF i(2) n(5)] o(2) al show ?thesis by simp
    qed
  qed
qed

lemma slab_free_ok:
  assumes "slab_viv C T s V" "(q, n) \<in> V" "cache \<noteq> 0"
  shows "slab_viv C T (slab_free cache (of_nat q) s) (V - {(q, n)})"
proof -
  from assms(1) obtain pgs fl where o: "sis_ok s C pgs fl" "objetos s C pgs fl = V"
    "\<forall>d \<in> C. unat (tam s d) = T d" by (auto simp: slab_viv_def)
  from assms(2) o(2) obtain x c pg where x: "q = unat x" "n = unat (tam s c)" "c \<in> C" "pg \<in> set (pgs c)"
    "x \<in> grade pg (tam s c) (por_slab s c)" "x \<notin> set (fl pg)"
    by (auto simp: objetos_def)
  let ?s = "slab_free cache x s" and ?fl = "fl(pg := x # fl pg)"
  note f = free_ok [OF o(1) x(3,4) assms(3) x(5,6)]
  have j: "objetos s C pgs (?fl(pg := fl pg)) = insert (unat x, unat (tam ?s c)) (objetos ?s C pgs ?fl)"
    "(unat x, unat (tam ?s c)) \<notin> objetos ?s C pgs ?fl"
    by (rule objetos_troca [of ?s C pgs ?fl c pg x "fl pg"]; use f x in simp)+
  then have "objetos ?s C pgs ?fl = V - {(q, n)}" using o(2) x f by auto
  with f o(3) x(1) show ?thesis unfolding slab_viv_def by (intro exI [of _ pgs] exI [of _ ?fl]) simp
qed

lemma slab_viv_dentro:
  assumes "slab_viv C T s V" "(q, n) \<in> V"
  obtains c pg pgs fl i where "sis_ok s C pgs fl" "objetos s C pgs fl = V" "c \<in> C" "n = unat (tam s c)" "pg \<in> set (pgs c)"
    "i < por_slab s c" "q = unat (slot pg (tam s c) i)" "q = unat pg + 12 + i * n" "12 + i * n + n \<le> 4096" "pagina_ok pg"
proof -
  from assms obtain pgs fl x c pg where x: "sis_ok s C pgs fl" "objetos s C pgs fl = V" "q = unat x"
    "n = unat (tam s c)" "c \<in> C" "pg \<in> set (pgs c)" "x \<in> grade pg (tam s c) (por_slab s c)"
    by (auto simp: slab_viv_def objetos_def)
  moreover from x(7) obtain i where i: "i < por_slab s c" "x = slot pg (tam s c) i" by (auto simp: grade_def)
  moreover have pk: "pagina_ok pg" using sis_slab [OF x(1,5,6)] by (simp add: slab_ok_def)
  moreover have "unat (slot pg (tam s c) i) = unat pg + 12 + i * unat (tam s c)"
    "12 + i * unat (tam s c) + unat (tam s c) \<le> 4096"
    by (rule unat_slot; use i pk sis_cache [OF x(1,5)] tam_pos in \<open>auto simp: por_slab_def\<close>)+
  ultimately show ?thesis by (intro that [of pgs fl c pg i]) auto
qed

interpretation sl: heap_allocator slab_alloc "\<lambda>p s. Some (slab_free 1 p s)" 0 of_nat "slab_viv C T"
  "\<lambda>c. c \<in> C" T 4108 "2 ^ 31"
  for C T
proof
  fix s V t assume "slab_viv C T s V" "t \<in> C"
  from slab_alloc_ok [OF this] show "(\<exists>s'. slab_alloc t s = Some (0, s') \<and> slab_viv C T s' V) \<or>
      (\<exists>q n s'. slab_alloc t s = Some (of_nat q, s') \<and> slab_viv C T s' (insert (q, n) V) \<and> (q, n) \<notin> V \<and> T t \<le> n)"
    by blast
next
  fix s V q n assume "slab_viv C T s V" "(q, n) \<in> V"
  then show "\<exists>s'. Some (slab_free 1 (of_nat q) s) = Some s' \<and> slab_viv C T s' (V - {(q, n)})"
    using slab_free_ok [of C T s V q n 1] by simp
next
  fix s V q n assume "slab_viv C T s V" "(q, n) \<in> V"
  then show "4108 \<le> q \<and> q + n \<le> 2 ^ 31"
  proof (cases rule: slab_viv_dentro)
    case (1 c pg pgs fl i)
    from 1(10) obtain k where k: "unat pg = 4096 * k" by (auto simp: pagina_ok_def elim!: dvdE)
    have "unat pg \<noteq> 0" "unat pg < 2 ^ 30"
      using 1(10) unat_inject [of pg 0] by (simp_all add: pagina_ok_def del: unat_inject)
    with k 1(8,9) show ?thesis by (cases k) auto
  qed
next
  fix q r :: nat assume "4108 \<le> q" "q \<le> 2 ^ 31" "4108 \<le> r" "r \<le> 2 ^ 31" "(of_nat q :: u32) = of_nat r"
  then show "q = r" by (simp add: of_nat_u32_inject)
next
  fix q :: nat assume "4108 \<le> q" "q \<le> 2 ^ 31"
  then show "(of_nat q :: u32) \<noteq> 0" using of_nat_u32_inject [of q 0] by simp
next
  fix s V q n r k
  assume v: "slab_viv C T s V" "(q, n) \<in> V" "(r, k) \<in> V" "(q, n) \<noteq> (r, k)"
  from v(1,2) obtain c pg pgs fl i where a: "sis_ok s C pgs fl" "objetos s C pgs fl = V" "c \<in> C" "n = unat (tam s c)"
    "pg \<in> set (pgs c)" "i < por_slab s c" "q = unat pg + 12 + i * n" "12 + i * n + n \<le> 4096" "pagina_ok pg"
    by (rule slab_viv_dentro) blast
  from v(3) a(2) obtain d qg j where b: "d \<in> C" "k = unat (tam s d)" "qg \<in> set (pgs d)" "j < por_slab s d"
    "r = unat (slot qg (tam s d) j)" by (auto simp: objetos_def grade_def)
  have qk: "pagina_ok qg" using sis_slab [OF a(1) b(1,3)] by (simp add: slab_ok_def)
  have b': "r = unat qg + 12 + j * k" "12 + j * k + k \<le> 4096"
    unfolding b(2,5)
    by (rule unat_slot; use b qk sis_cache [OF a(1) b(1)] tam_pos in \<open>auto simp: por_slab_def\<close>)+
  have n0: "0 < n" "0 < k" using sis_cache [OF a(1) a(3)] sis_cache [OF a(1) b(1)] a(4) b(2) by auto
  show "q \<noteq> r \<and> (q + n \<le> r \<or> r + k \<le> q)"
  proof (cases "pg = qg")
    case True
    then have "c = d" using a(1,3,5) b(1,3) unfolding sis_ok_def by blast
    with a(4) b(2) have k: "k = n" by simp
    with v(4) a(7) b'(1) True have "i \<noteq> j" by auto
    then consider "Suc i \<le> j" | "Suc j \<le> i" by linarith
    then have "i * n + n \<le> j * n \<or> j * n + n \<le> i * n"
      by cases (metis mult_Suc mult_le_mono1 add.commute)+
    with True k a(7) b'(1) n0 show ?thesis by auto
  next
    case False
    from a(9) qk obtain u w where uw: "unat pg = 4096 * u" "unat qg = 4096 * w" by (auto simp: pagina_ok_def elim!: dvdE)
    with False have "u \<noteq> w" using unat_inject by metis
    then consider "u + 1 \<le> w" | "w + 1 \<le> u" by linarith
    then show ?thesis using uw a(7,8) b' n0 by cases linarith+
  qed
qed


lemma slab_novo_prox: "slab_novo c s = (pg, s') \<Longrightarrow> pg \<noteq> 0 \<Longrightarrow> sl_proximo (slabs s' pg) = 0"
  by (auto simp: slab_novo_def Let_def split: prod.splits if_splits)

lemma slab_novo_heap: "slab_novo c s = (pg, s') \<Longrightarrow> sl_heap s' = sl_heap s"
  by (auto simp: slab_novo_def Let_def split: prod.splits if_splits)

lemma criar_tamanho:
  fixes t :: u32 assumes "t \<le> 4084"
  shows "8 \<le> unat (((if t < 8 then 8 else t) + 3) AND NOT 3)"
    and "unat (((if t < 8 then 8 else t) + 3) AND NOT 3) \<le> 4084"
    and "unat t \<le> unat (((if t < 8 then 8 else t) + 3) AND NOT 3)"
proof -
  let ?t = "if t < 8 then 8 else t"
  have b: "8 \<le> unat ?t" "unat ?t \<le> 4084" "unat t \<le> unat ?t"
    using assms by (auto simp: word_less_nat_alt word_le_nat_alt)
  then have "?t \<le> 0xFFFFFFFC" by (simp add: word_le_nat_alt)
  have ar: "8 \<le> (n + 3) div 4 * 4 \<and> (n + 3) div 4 * 4 \<le> 4084 \<and> m \<le> (n + 3) div 4 * 4"
    if "8 \<le> n" "n \<le> 4084" "m \<le> n" for n m :: nat using that by presburger
  from alinhar [OF \<open>?t \<le> 0xFFFFFFFC\<close>] ar [OF b] show "8 \<le> unat ((?t + 3) AND NOT 3)" "unat ((?t + 3) AND NOT 3) \<le> 4084"
    "unat t \<le> unat ((?t + 3) AND NOT 3)"
    by (simp_all only: arredondado_def)
qed

lemma criar_ok:
  assumes "sis_ok s C pgs fl" "slab_criar t s = Some (c, s')" "c \<noteq> 0" "c \<notin> C" "t \<le> 4084"
  shows "\<exists>pgs' fl'. sis_ok s' (insert c C) pgs' fl' \<and>
    objetos s' (insert c C) pgs' fl' = objetos s C pgs fl \<and>
    unat t \<le> unat (tam s' c) \<and> (\<forall>d \<in> C. tam s' d = tam s d)"
proof -
  let ?t = "((if t < 8 then 8 else t) + 3) AND NOT 3"
  note sz = criar_tamanho [OF assms(5)]
  obtain h where h: "kmalloc 16 (sl_heap s) = Some (c, h)"
    using assms(2,3) by (auto simp: slab_criar_def Let_def split: option.splits if_splits prod.splits)
  define s1 where "s1 = s\<lparr>sl_heap := h, cachem := (cachem s)(c :=
      \<lparr>obj_size = ?t, objs_por_slab = 0, slab_lista = 0, prox = caches s\<rparr>), caches := c\<rparr>"
  obtain sl s2 where n: "slab_novo c s1 = (sl, s2)" by fastforce
  have s': "s' = s2\<lparr>cachem := (cachem s2)(c := (cachem s2 c)\<lparr>slab_lista := sl\<rparr>)\<rparr>"
    using assms(2,3) h n by (simp add: slab_criar_def s1_def)
  have t1: "tam s1 c = ?t" "d \<in> C \<Longrightarrow> tam s1 d = tam s d" for d
    using assms(4) by (auto simp: tam_def s1_def)
  have "slab_ok s1 d qg xs = slab_ok s d qg xs" if "d \<in> C" for d qg xs
    using t1(2) [OF that] by (simp add: slab_ok_def por_slab_def) (simp add: s1_def)
  then have o1: "sis_ok s1 (insert c C) (pgs(c := [])) fl"
    using assms(1,3,4) t1 sz unfolding sis_ok_def by (auto simp: s1_def)
  have j1: "objetos s1 (insert c C) (pgs(c := [])) fl = objetos s C pgs fl"
    using assms(4) t1(2) unfolding objetos_def por_slab_def by auto metis+
  from novo_ok [OF o1 insertI1 n] show ?thesis
  proof (elim disjE conjE)
    assume a: "sl = 0" "s2 = s1"
    have "s' = s1" unfolding s' a by (simp add: s1_def)
    then show ?thesis using o1 j1 t1 sz by (intro exI [of _ "pgs(c := [])"] exI [of _ fl]) simp
  next
    assume a: "sl \<noteq> 0" "sis_ok s2 (insert c C) (pgs(c := [])) (fl(sl := todos sl (tam s1 c)))"
      "tam s2 = tam s1" "slab_ok s2 c sl (todos sl (tam s1 c))"
      "\<forall>d \<in> insert c C. sl \<notin> set ((pgs(c := [])) d)" "slab_lista (cachem s2 c) = slab_lista (cachem s1 c)"
    have "slab_lista (cachem s2 c) = 0" using a(6) by (simp add: s1_def)
    then have "s' = s2\<lparr>slabs := (slabs s2)(sl := (slabs s2 sl)\<lparr>sl_proximo := slab_lista (cachem s2 c)\<rparr>),
            cachem := (cachem s2)(c := (cachem s2 c)\<lparr>slab_lista := sl\<rparr>)\<rparr>"
      using slab_novo_prox [OF n a(1)] by (cases "slabs s2 sl") (simp add: s' fun_upd_idem)
    from inserir_ok [OF a(2) insertI1 _ a(5) this] a(4) fun_upd_same [of "pgs" c "[]"]
    have i: "sis_ok s' (insert c C) ((pgs(c := []))(c := [sl])) (fl(sl := todos sl (tam s1 c)))" "tam s' = tam s2"
      by (simp_all del: fun_upd_apply fun_upd_upd add: fun_upd_same)
    have "objetos s' (insert c C) ((pgs(c := []))(c := [sl])) (fl(sl := todos sl (tam s1 c))) = objetos s C pgs fl"
      using objetos_cheio [of s' s1 "insert c C" sl "pgs(c := [])" c fl] i(2) a(3,5) j1 by simp
    with i a(3) t1 sz show ?thesis by auto
  qed
qed

section \<open>Properties\<close>

text \<open>\<open>slab_alloc\<close> on a well-formed slab system, whatever the number of caches and slabs: the search
  ends; the answer is null only when the page allocator has no page left, otherwise it is an object of
  the cache's size that was not live, lies inside one page clear of the slab header, and overlaps no
  live object of any cache.\<close>

theorem slab_alloc_correto:
  assumes "slab_viv C T s V" "c \<in> C"
  shows "(\<exists>s'. slab_alloc c s = Some (0, s') \<and> slab_viv C T s' V \<and> livres (sl_pmm s) = {}) \<or>
    (\<exists>q s'. slab_alloc c s = Some (of_nat q, s') \<and> slab_viv C T s' (insert (q, T c) V) \<and>
       12 \<le> q mod 4096 \<and> q mod 4096 + T c \<le> 4096 \<and>
       (\<forall>x \<in> V. x \<noteq> (q, T c) \<and> disjunto (q, T c) x))"
  using slab_alloc_ok [OF assms]
proof (elim disjE exE conjE)
  fix q s'
  assume r: "slab_alloc c s = Some (of_nat q, s')" "slab_viv C T s' (insert (q, T c) V)" "(q, T c) \<notin> V"
  have "disjunto (q, T c) x" if "x \<in> V" for x
    using sl.disj [OF r(2), of q "T c" "fst x" "snd x"] that r(3) by (cases x) (auto simp: disjunto_def)
  moreover have "12 \<le> q mod 4096 \<and> q mod 4096 + T c \<le> 4096"
    using r(2) insertI1
  proof (cases rule: slab_viv_dentro)
    case (1 d pg pgs fl i)
    have "0 < T c" using sis_cache [OF 1(1,3)] 1(4) by simp
    with 1(8-10) have "q mod 4096 = 12 + i * T c"
      by (auto simp: pagina_ok_def elim!: dvdE) (simp add: add.assoc mod_mult_self2)
    with 1(9) show ?thesis by simp
  qed
  ultimately show ?thesis using r by (intro disjI2) blast
qed simp

definition slab_vazio :: slab_sis where
  "slab_vazio = \<lparr>sl_pmm = pmm_exemplo, sl_heap = kheap_init heap_exemplo, slabs = (\<lambda>_. \<lparr>livre_count = 0, free_list = 0, sl_proximo = 0\<rparr>),
     slots = (\<lambda>_. 0), cachem = (\<lambda>_. \<lparr>obj_size = 0, objs_por_slab = 0, slab_lista = 0, prox = 0\<rparr>),
     caches = 0, cache_32 = 0, cache_64 = 0, cache_128 = 0, cache_256 = 0\<rparr>"

lemma criar_some:
  "kmalloc 16 (sl_heap s) = Some (c, h) \<Longrightarrow> c \<noteq> 0 \<Longrightarrow> \<exists>s'. slab_criar t s = Some (c, s')"
  by (simp add: slab_criar_def Let_def split: prod.split)

lemma slab_exemplo: "\<exists>c s T. slab_criar 100 slab_vazio = Some (c, s) \<and> slab_viv {c} T s {} \<and> 100 \<le> T c"
proof -
  have "sis_ok slab_vazio {} (\<lambda>_. []) (\<lambda>_. [])"
    using pmm_exemplo_livres by (simp add: sis_ok_def slab_vazio_def pmm_inv_def) (simp add: pmm_exemplo_def MAX_PAGINAS_def)
  moreover obtain c s where c: "slab_criar 100 slab_vazio = Some (c, s)" "c \<noteq> 0"
  proof -
    obtain q n h' where k: "kmalloc 16 (kheap_init heap_exemplo) = Some (of_nat q, h')" "0x300009 \<le> q" "q + n \<le> HEAP_FIM"
      using kmalloc_spec [OF kheap_init_ok, of 16 heap_exemplo] kh.regiao
      by (simp add: arredondado_def vivos_def) blast
    have "(of_nat q :: u32) \<noteq> 0" using k(2,3) of_nat_u32_inject [of q 0] by (simp add: HEAP_FIM_def)
    with k that criar_some [of slab_vazio "of_nat q" h' 100] show ?thesis by (auto simp: slab_vazio_def)
  qed
  ultimately obtain pgs fl where "sis_ok s {c} pgs fl" "objetos s {c} pgs fl = {}" "100 \<le> unat (tam s c)"
    using criar_ok [of slab_vazio "{}" "\<lambda>_. []" "\<lambda>_. []" 100 c s] by (auto simp: objetos_def)
  then have "slab_viv {c} (\<lambda>d. unat (tam s d)) s {}" by (auto simp: slab_viv_def)
  with c \<open>100 \<le> unat (tam s c)\<close> show ?thesis by blast
qed

theorem slab_alloc_correto_witness:
  "\<exists>c s p s'. slab_criar 100 slab_vazio = Some (c, s) \<and> slab_alloc c s = Some (p, s')"
proof -
  obtain c s T where c: "slab_criar 100 slab_vazio = Some (c, s)" "slab_viv {c} T s {}"
    using slab_exemplo by blast
  show ?thesis using slab_alloc_correto [OF c(2), of c] c(1) by blast
qed



end
