(* ===== verification/Paging.thy ===== *)
theory Paging
  imports Slab
begin

text \<open>
  \<^verbatim>\<open>kernel/mem/paging.c\<close>: the kernel page directory and its identity map.  Page tables are words of
  the physical memory \<open>memoria\<close>; the addresses of the two static arrays are parameters fixed by the
  linker.  \<open>traduzir\<close> is the two-level walk of the i386 MMU, the specification against which the
  routines are proved: they only write memory, and what matters is how the processor reads it.
\<close>

section \<open>State and operations\<close>

record paging =
  pg_pmm :: pmm
  memoria :: "u32 \<Rightarrow> u32"
  cr3 :: u32
  paginacao :: bool

definition PAGE_PRESENTE :: u32 where "PAGE_PRESENTE = 1"
definition PAGE_ESCRITA :: u32 where "PAGE_ESCRITA = 2"
definition PAGE_USUARIO :: u32 where "PAGE_USUARIO = 4"
definition PT_COUNT :: nat where "PT_COUNT = 16"

text \<open>The frame part and the offset part of an address, the \<^verbatim>\<open>& ~0xFFF\<close> and \<^verbatim>\<open>& 0xFFF\<close> of the code.\<close>

definition quadro :: "u32 \<Rightarrow> u32" where "quadro x = x AND NOT 0xFFF"
definition desloc :: "u32 \<Rightarrow> u32" where "desloc x = x AND 0xFFF"

text \<open>\<open>entrada a i\<close> is the address of the word \<open>i\<close> of the table at \<open>a\<close>.\<close>

definition entrada :: "u32 \<Rightarrow> nat \<Rightarrow> u32" where "entrada a i = a + of_nat (4 * i)"

text \<open>The \<open>for\<close> loops that fill a table: \<open>n\<close> entries from index \<open>i\<close> on, entry \<open>j\<close> being \<open>f j\<close>.\<close>

fun preencher :: "u32 \<Rightarrow> (nat \<Rightarrow> u32) \<Rightarrow> nat \<Rightarrow> nat \<Rightarrow> (u32 \<Rightarrow> u32) \<Rightarrow> (u32 \<Rightarrow> u32)" where
  "preencher a f i 0 m = m"
| "preencher a f i (Suc n) m = preencher a f (Suc i) n (m(entrada a i := f i))"

definition tabela :: "u32 \<Rightarrow> nat \<Rightarrow> u32" where "tabela pts pt = pts + of_nat (4096 * pt)"

definition pte_inicial :: "nat \<Rightarrow> nat \<Rightarrow> u32" where
  "pte_inicial pt i = of_nat ((pt * 1024 + i) * 4096) OR PAGE_PRESENTE OR PAGE_ESCRITA"

fun mapear_tabelas :: "u32 \<Rightarrow> u32 \<Rightarrow> nat \<Rightarrow> nat \<Rightarrow> (u32 \<Rightarrow> u32) \<Rightarrow> (u32 \<Rightarrow> u32)" where
  "mapear_tabelas pd pts pt 0 m = m"
| "mapear_tabelas pd pts pt (Suc n) m =
     mapear_tabelas pd pts (Suc pt) n
       ((preencher (tabela pts pt) (pte_inicial pt) 0 1024 m)
        (entrada pd pt := tabela pts pt OR PAGE_PRESENTE OR PAGE_ESCRITA))"

definition paging_init :: "u32 \<Rightarrow> u32 \<Rightarrow> paging \<Rightarrow> paging" where
  "paging_init pd pts s =
     (let m = preencher pd (\<lambda>_. 0x00000002) 0 1024 (memoria s);
          m = mapear_tabelas pd pts 0 PT_COUNT m;
          m = m(entrada pd 768 := tabela pts 0 OR PAGE_PRESENTE OR PAGE_ESCRITA)
      in s\<lparr>memoria := m, cr3 := pd, paginacao := True\<rparr>)"

definition paging_mapear :: "u32 \<Rightarrow> u32 \<Rightarrow> u32 \<Rightarrow> u32 \<Rightarrow> paging \<Rightarrow> paging" where
  "paging_mapear pd virt fis fls s =
     (let pd_idx = drop_bit 22 virt;
          pt_idx = drop_bit 12 virt AND 0x3FF;
          grava = (\<lambda>s. let pt = quadro (memoria s (pd + 4 * pd_idx)) in
             s\<lparr>memoria := (memoria s)(pt + 4 * pt_idx :=
                 quadro fis OR desloc fls OR PAGE_PRESENTE)\<rparr>)
      in if memoria s (pd + 4 * pd_idx) AND PAGE_PRESENTE = 0 then
           let (nova_pt, pm) = pmm_alloc (pg_pmm s); s = s\<lparr>pg_pmm := pm\<rparr> in
           if nova_pt = 0 then s
           else
             let m = preencher nova_pt (\<lambda>_. 0) 0 1024 (memoria s) in
             grava (s\<lparr>memoria := m(pd + 4 * pd_idx := nova_pt OR PAGE_PRESENTE OR PAGE_ESCRITA)\<rparr>)
         else grava s)"

definition paging_mapear_usuario :: "u32 \<Rightarrow> u32 \<Rightarrow> u32 \<Rightarrow> paging \<Rightarrow> paging" where
  "paging_mapear_usuario pd virt fis =
     paging_mapear pd virt fis (PAGE_PRESENTE OR PAGE_ESCRITA OR PAGE_USUARIO)"

definition paging_mapear_kernel :: "u32 \<Rightarrow> u32 \<Rightarrow> u32 \<Rightarrow> paging \<Rightarrow> paging" where
  "paging_mapear_kernel pd virt fis = paging_mapear pd virt fis (PAGE_PRESENTE OR PAGE_ESCRITA)"

section \<open>The walk of the MMU\<close>

definition idx1 :: "u32 \<Rightarrow> nat" where "idx1 v = unat (drop_bit 22 v)"
definition idx2 :: "u32 \<Rightarrow> nat" where "idx2 v = unat (drop_bit 12 v AND 0x3FF)"

text \<open>\<open>traduzir m pd perm v\<close>: the physical address of \<open>v\<close>, when both entries have all the bits of
  \<open>perm\<close> (present; present and user for an access from ring 3).\<close>

definition traduzir :: "(u32 \<Rightarrow> u32) \<Rightarrow> u32 \<Rightarrow> u32 \<Rightarrow> u32 \<Rightarrow> u32 option" where
  "traduzir m pd perm v =
     (let pde = m (entrada pd (idx1 v)) in
      if pde AND perm \<noteq> perm then None
      else let pte = m (entrada (quadro pde) (idx2 v)) in
           if pte AND perm \<noteq> perm then None
           else Some (quadro pte OR desloc v))"

definition alinhado :: "u32 \<Rightarrow> bool" where "alinhado a \<longleftrightarrow> a AND 0xFFF = 0"

lemma bit_FFF [simp]:
  "bit (0xFFF :: u32) n \<longleftrightarrow> n < 12" "bit (0xFFF :: nat) n \<longleftrightarrow> n < 12" "bit (0xFFF :: int) n \<longleftrightarrow> n < 12"
proof -
  have m: "(0xFFF :: u32) = mask 12" "(0xFFF :: nat) = mask 12" "(0xFFF :: int) = mask 12"
    by (simp_all add: mask_eq_exp_minus_1)
  show "bit (0xFFF :: u32) n \<longleftrightarrow> n < 12" unfolding m bit_mask_iff by auto
  show "bit (0xFFF :: nat) n \<longleftrightarrow> n < 12" "bit (0xFFF :: int) n \<longleftrightarrow> n < 12"
    unfolding m bit_mask_iff by simp_all
qed

lemma alinhado_bits: "alinhado a \<longleftrightarrow> (\<forall>n < 12. \<not> bit a n)"
proof
  assume a: "alinhado a"
  show "\<forall>n < 12. \<not> bit a n"
  proof (intro allI impI)
    fix n :: nat assume n: "n < 12"
    have "\<not> bit (a AND 0xFFF) n" using a by (simp add: alinhado_def)
    with n show "\<not> bit a n" by (simp only: bit_and_iff bit_FFF) simp
  qed
qed (auto simp: alinhado_def bit_eq_iff bit_and_iff)

lemma bit_quadro [simp]: "bit (quadro x) n \<longleftrightarrow> 12 \<le> n \<and> bit x n"
  using bit_imp_le_length [of x n] by (auto simp: quadro_def bit_simps)

lemma bit_desloc [simp]: "bit (desloc x) n \<longleftrightarrow> n < 12 \<and> bit x n"
  by (auto simp: desloc_def bit_simps)

lemma bit_flags [simp]:
  "bit PAGE_PRESENTE n \<longleftrightarrow> n = 0" "bit PAGE_ESCRITA n \<longleftrightarrow> n = 1" "bit PAGE_USUARIO n \<longleftrightarrow> n = 2"
proof -
  have "(2 :: u32) = push_bit 1 1" "(4 :: u32) = push_bit 2 1" by (simp_all add: push_bit_eq_mult)
  then show "bit PAGE_PRESENTE n \<longleftrightarrow> n = 0" "bit PAGE_ESCRITA n \<longleftrightarrow> n = 1" "bit PAGE_USUARIO n \<longleftrightarrow> n = 2"
    unfolding PAGE_PRESENTE_def PAGE_ESCRITA_def PAGE_USUARIO_def
    by (auto simp only: bit_push_bit_iff bit_1_iff) auto
qed

lemma alinhado_quadro [simp]: "alinhado (quadro a)"
  by (simp add: alinhado_bits)

lemma quadro_alinhado [simp]: "alinhado a \<Longrightarrow> quadro a = a"
  by (rule bit_word_eqI) (auto simp: alinhado_bits not_less)

lemma quadro_or [simp]: "quadro (a OR b) = quadro a OR quadro b"
  by (rule bit_word_eqI) (auto simp: bit_or_iff)

lemma desloc_or [simp]: "desloc (a OR b) = desloc a OR desloc b"
  by (rule bit_word_eqI) (auto simp: bit_or_iff)

lemma quadro_flags [simp]: "quadro PAGE_PRESENTE = 0" "quadro PAGE_ESCRITA = 0" "quadro PAGE_USUARIO = 0"
  "quadro (desloc x) = 0" "desloc (quadro x) = 0"
  by (rule bit_word_eqI; auto)+

lemma quadro_mais_desloc [simp]: "quadro v OR desloc v = v"
  by (rule bit_word_eqI) (auto simp: bit_or_iff)

lemma alinhado_nat: "alinhado a \<longleftrightarrow> 4096 dvd unat a"
proof -
  have "(0xFFF :: u32) = mask 12" by (simp add: mask_eq_exp_minus_1)
  then have "a AND 0xFFF = take_bit 12 a" by (simp add: take_bit_eq_mask)
  then have "alinhado a \<longleftrightarrow> unat (take_bit 12 a) = 0"
    using unat_inject [of "take_bit 12 a" 0] by (simp add: alinhado_def del: unat_inject)
  then show ?thesis unfolding unsigned_take_bit_eq by (simp add: take_bit_eq_mod mod_eq_0_iff_dvd)
qed

lemma unat_entrada:
  assumes "alinhado a" "i < 1024"
  shows "unat (entrada a i) = unat a + 4 * i"
proof -
  obtain k where k: "unat a = 4096 * k" using assms(1) by (auto simp: alinhado_nat elim!: dvdE)
  have "unat a < 2 ^ 32" using unsigned_less [of a] by simp
  with k have "unat a + 4096 \<le> 2 ^ 32" by simp
  with assms(2) have "unat (of_nat (unat a + 4 * i) :: u32) = unat a + 4 * i"
    by (intro unat_of_nat_u32) simp
  then show ?thesis by (simp add: entrada_def)
qed

lemma entrada_eq [simp]:
  assumes "alinhado a" "alinhado b" "i < 1024" "j < 1024"
  shows "entrada a i = entrada b j \<longleftrightarrow> a = b \<and> i = j"
proof
  assume "entrada a i = entrada b j"
  then have e: "unat a + 4 * i = unat b + 4 * j"
    using unat_entrada [OF assms(1,3)] unat_entrada [OF assms(2,4)] by simp
  obtain k l where k: "unat a = 4096 * k" "unat b = 4096 * l"
    using assms(1,2) by (auto simp: alinhado_nat elim!: dvdE)
  have *: "4096 * k + 4 * i = 4096 * l + 4 * j" using e k by simp
  then have "(4 * i + 4096 * k) div 4096 = (4 * j + 4096 * l) div 4096" by (simp add: add.commute)
  with assms(3,4) have kl: "k = l" by simp
  have "unat a = unat b" unfolding k kl ..
  with kl * show "a = b \<and> i = j" by (simp only: unat_inject) simp
qed simp

lemma idx_less [simp]: "idx1 v < 1024" "idx2 v < 1024"
proof -
  have "unat v < 2 ^ 32" using unsigned_less [of v] by simp
  then show "idx1 v < 1024"
    unfolding idx1_def unat_drop_bit_eq by (simp add: drop_bit_eq_div less_mult_imp_div_less)
  have m: "(0x3FF :: u32) = mask 10" by (simp add: mask_eq_exp_minus_1)
  show "idx2 v < 1024"
    unfolding idx2_def m take_bit_eq_mask [symmetric] unsigned_take_bit_eq by (simp add: take_bit_eq_mod)
qed

lemma preencher_fora:
  "(\<And>j. i \<le> j \<Longrightarrow> j < i + n \<Longrightarrow> x \<noteq> entrada a j) \<Longrightarrow> preencher a f i n m x = m x"
  by (induction a f i n m rule: preencher.induct) auto

lemma preencher_em:
  "alinhado a \<Longrightarrow> i \<le> j \<Longrightarrow> j < i + n \<Longrightarrow> i + n \<le> 1024 \<Longrightarrow> preencher a f i n m (entrada a j) = f j"
proof (induction a f i n m rule: preencher.induct)
  case (2 a f i n m)
  show ?case
  proof (cases "j = i")
    case True
    then have "preencher a f (Suc i) n (m(entrada a i := f i)) (entrada a i) = f i"
      using 2(2,5) by (subst preencher_fora) auto
    with True show ?thesis by simp
  next
    case False
    with 2 show ?thesis by (simp del: fun_upd_apply)
  qed
qed simp


section \<open>The identity map\<close>

text \<open>Where the linker puts the arrays: aligned, and the directory apart from the sixteen tables.\<close>

definition simbolos_ok :: "u32 \<Rightarrow> u32 \<Rightarrow> bool" where
  "simbolos_ok pd pts \<longleftrightarrow> alinhado pd \<and> alinhado pts \<and> unat pts + 0x10000 \<le> 2 ^ 32 \<and>
     (unat pd < unat pts \<or> unat pts + 0x10000 \<le> unat pd)"

lemma tabela_ok:
  assumes "simbolos_ok pd pts" "pt < 16"
  shows "alinhado (tabela pts pt)" "tabela pts pt \<noteq> pd"
    "q < 16 \<Longrightarrow> tabela pts pt = tabela pts q \<longleftrightarrow> pt = q"
proof -
  have u: "unat (tabela pts q) = unat pts + 4096 * q" if "q < 16" for q
  proof -
    have "tabela pts q = of_nat (unat pts + 4096 * q)" by (simp add: tabela_def)
    then show ?thesis
      using assms(1) that unat_of_nat_u32 [of "unat pts + 4096 * q"] by (simp add: simbolos_ok_def)
  qed
  show "alinhado (tabela pts pt)"
    using assms by (simp add: alinhado_nat u simbolos_ok_def)
  show "tabela pts pt \<noteq> pd" using assms u [of pt] by (auto simp: simbolos_ok_def)
  show "q < 16 \<Longrightarrow> tabela pts pt = tabela pts q \<longleftrightarrow> pt = q"
    using u [of q] u [OF assms(2)] by auto
qed

lemma mapear_passo:
  fixes pt :: nat and pd pts :: u32 and m :: "u32 \<Rightarrow> u32"
  defines "m1 \<equiv> (preencher (tabela pts pt) (pte_inicial pt) 0 1024 m)(entrada pd pt := tabela pts pt OR PAGE_PRESENTE OR PAGE_ESCRITA)"
  assumes "simbolos_ok pd pts" "pt < 16"
  shows "k < 1024 \<Longrightarrow> m1 (entrada pd k) = (if k = pt then tabela pts pt OR PAGE_PRESENTE OR PAGE_ESCRITA else m (entrada pd k))"
    and "q < 16 \<Longrightarrow> i < 1024 \<Longrightarrow> m1 (entrada (tabela pts q) i) = (if q = pt then pte_inicial pt i else m (entrada (tabela pts q) i))"
proof -
  have pd: "alinhado pd" using assms(2) by (simp add: simbolos_ok_def)
  note t = tabela_ok [OF assms(2)]
  show "m1 (entrada pd k) = (if k = pt then tabela pts pt OR PAGE_PRESENTE OR PAGE_ESCRITA else m (entrada pd k))"
    if "k < 1024"
  proof -
    have "preencher (tabela pts pt) (pte_inicial pt) 0 1024 m (entrada pd k) = m (entrada pd k)"
      by (rule preencher_fora) (use pd t(1,2) [OF assms(3)] that in auto)
    then show ?thesis unfolding m1_def using pd that assms(3) by simp
  qed
  show "m1 (entrada (tabela pts q) i) = (if q = pt then pte_inicial pt i else m (entrada (tabela pts q) i))"
    if "q < 16" "i < 1024"
  proof -
    have "preencher (tabela pts pt) (pte_inicial pt) 0 1024 m (entrada (tabela pts q) i) = m (entrada (tabela pts q) i)" if "q \<noteq> pt"
      by (rule preencher_fora) (use t(1) [OF assms(3)] t(1,3) [OF \<open>q < 16\<close>] assms(3) that \<open>i < 1024\<close> in auto)
    moreover have "preencher (tabela pts pt) (pte_inicial pt) 0 1024 m (entrada (tabela pts pt) i) = pte_inicial pt i"
      by (rule preencher_em) (use t(1) [OF assms(3)] that in auto)
    ultimately show ?thesis unfolding m1_def using that pd assms(3) t(1,2) [OF that(1)] by auto
  qed
qed

lemma mapear_tabelas_pd:
  "simbolos_ok pd pts \<Longrightarrow> pt + n \<le> 16 \<Longrightarrow> k < 1024 \<Longrightarrow> mapear_tabelas pd pts pt n m (entrada pd k) =
     (if pt \<le> k \<and> k < pt + n then tabela pts k OR PAGE_PRESENTE OR PAGE_ESCRITA else m (entrada pd k))"
  by (induction n arbitrary: pt m) (auto simp: mapear_passo simp del: fun_upd_apply)

lemma mapear_tabelas_pt:
  "simbolos_ok pd pts \<Longrightarrow> pt + n \<le> 16 \<Longrightarrow> q < 16 \<Longrightarrow> i < 1024 \<Longrightarrow>
   mapear_tabelas pd pts pt n m (entrada (tabela pts q) i) =
     (if pt \<le> q \<and> q < pt + n then pte_inicial q i else m (entrada (tabela pts q) i))"
  by (induction n arbitrary: pt m) (auto simp: mapear_passo simp del: fun_upd_apply)

lemma memoria_init:
  assumes "simbolos_ok pd pts"
  shows "k < 1024 \<Longrightarrow> memoria (paging_init pd pts s) (entrada pd k) =
     (if k < 16 then tabela pts k OR PAGE_PRESENTE OR PAGE_ESCRITA
      else if k = 768 then tabela pts 0 OR PAGE_PRESENTE OR PAGE_ESCRITA else 2)"
    and "q < 16 \<Longrightarrow> i < 1024 \<Longrightarrow> memoria (paging_init pd pts s) (entrada (tabela pts q) i) = pte_inicial q i"
proof -
  have pd: "alinhado pd" using assms by (simp add: simbolos_ok_def)
  show "memoria (paging_init pd pts s) (entrada pd k) =
     (if k < 16 then tabela pts k OR PAGE_PRESENTE OR PAGE_ESCRITA
      else if k = 768 then tabela pts 0 OR PAGE_PRESENTE OR PAGE_ESCRITA else 2)" if "k < 1024"
    unfolding paging_init_def Let_def using pd that
    by (simp add: mapear_tabelas_pd [OF assms] PT_COUNT_def preencher_em)
  show "memoria (paging_init pd pts s) (entrada (tabela pts q) i) = pte_inicial q i" if "q < 16" "i < 1024"
    unfolding paging_init_def Let_def using pd that tabela_ok(1,2) [OF assms that(1)]
    by (simp add: mapear_tabelas_pt [OF assms] PT_COUNT_def)
qed

text \<open>The address is its directory index, its table index and its offset.\<close>

lemma idx_nat: "idx1 v = unat v div 0x400000" "idx2 v = unat v div 4096 mod 1024"
proof -
  show "idx1 v = unat v div 0x400000"
    unfolding idx1_def unat_drop_bit_eq by (simp add: drop_bit_eq_div)
  have m: "(0x3FF :: u32) = mask 10" by (simp add: mask_eq_exp_minus_1)
  have "unat (drop_bit 12 v) = unat v div 4096" unfolding unat_drop_bit_eq by (simp add: drop_bit_eq_div)
  then show "idx2 v = unat v div 4096 mod 1024"
    unfolding idx2_def m take_bit_eq_mask [symmetric] unsigned_take_bit_eq by (simp add: take_bit_eq_mod)
qed

lemma quadro_nat: "of_nat (unat v div 4096 * 4096) = quadro v"
  unfolding quadro_def by (rule and_not_mask [symmetric])

lemma pte_inicial_quadro:
  assumes "idx1 v = q"
  shows "pte_inicial q (idx2 v) = quadro v OR PAGE_PRESENTE OR PAGE_ESCRITA"
proof -
  have "unat v div 0x400000 = unat v div 4096 div 1024" by (simp add: div_mult2_eq [symmetric])
  then have "q * 1024 + idx2 v = unat v div 4096" using assms unfolding idx_nat by simp
  then show ?thesis by (simp add: pte_inicial_def quadro_nat del: of_nat_mult of_nat_add)
qed

lemma presente_or [simp]:
  "(a OR PAGE_PRESENTE OR PAGE_ESCRITA) AND PAGE_PRESENTE = PAGE_PRESENTE"
  "(a OR b OR PAGE_PRESENTE) AND PAGE_PRESENTE = PAGE_PRESENTE"
  by (rule bit_word_eqI; auto simp: bit_simps)+

lemma desloc_alto: "unat c mod 4096 = 0 \<Longrightarrow> c \<le> v \<Longrightarrow> desloc (v - c) = desloc v"
proof -
  assume c: "unat c mod 4096 = 0" "c \<le> v"
  have m: "(0xFFF :: u32) = mask 12" by (simp add: mask_eq_exp_minus_1)
  have d: "unat (desloc x) = unat x mod 4096" for x
    unfolding desloc_def m take_bit_eq_mask [symmetric] unsigned_take_bit_eq by (simp add: take_bit_eq_mod)
  obtain k where k: "unat c = 4096 * k" using c(1) by (auto elim!: dvdE simp: mod_eq_0_iff_dvd)
  have "unat (v - c) = unat v - 4096 * k" "4096 * k \<le> unat v"
    using c(2) k by (simp_all add: unat_sub word_le_nat_alt)
  then have "unat (v - c) mod 4096 = unat v mod 4096" by (metis mod_mult_self2 le_add_diff_inverse2)
  then show ?thesis using d unat_inject by metis
qed

lemma div_faixa: "0 < d \<Longrightarrow> (n :: nat) div d = k \<longleftrightarrow> k * d \<le> n \<and> n < Suc k * d"
  by (metis div_nat_eqI dividend_less_div_times mult.commute times_div_less_eq_dividend mult_Suc add.commute)

lemma div_faixa_less: "0 < d \<Longrightarrow> (n :: nat) div d < k \<longleftrightarrow> n < k * d"
  by (rule div_less_iff_less_mult)

text \<open>After \<open>paging_init\<close> with paging on, the processor reads every address below 64MB as itself, and
  every address of the first 4MB above 0xC0000000 as the one 3GB lower; nothing else is mapped.\<close>

theorem paging_init_identidade:
  assumes "simbolos_ok pd pts"
  shows "traduzir (memoria (paging_init pd pts s)) (cr3 (paging_init pd pts s)) PAGE_PRESENTE v =
    (if v < 0x4000000 then Some v
     else if 0xC0000000 \<le> v \<and> v < 0xC0400000 then Some (v - 0xC0000000) else None)"
proof -
  let ?m = "memoria (paging_init pd pts s)"
  have cr: "cr3 (paging_init pd pts s) = pd" by (simp add: paging_init_def Let_def)
  note m = memoria_init [OF assms, where s = s]
  have i1: "v < 0x4000000 \<longleftrightarrow> idx1 v < 16" "0xC0000000 \<le> v \<and> v < 0xC0400000 \<longleftrightarrow> idx1 v = 768"
    unfolding idx_nat word_less_nat_alt word_le_nat_alt by (simp_all add: div_faixa) linarith
  have low: "traduzir ?m pd PAGE_PRESENTE v = Some (quadro w OR desloc v)"
    if "?m (entrada pd (idx1 v)) = tabela pts (idx1 w) OR PAGE_PRESENTE OR PAGE_ESCRITA" "idx1 w < 16" "idx2 w = idx2 v"
    for w
    using that tabela_ok(1) [OF assms that(2)] m(2) [OF that(2), of "idx2 w"] pte_inicial_quadro [of w]
    by (simp add: traduzir_def)
  show ?thesis
  proof (cases "idx1 v < 16")
    case True
    then show ?thesis unfolding cr i1 using low [of v] m(1) [of "idx1 v"] by simp
  next
    case False
    show ?thesis
    proof (cases "idx1 v = 768")
      case True
      then have b: "0xC0000000 \<le> v" "v < 0xC0400000" using i1 by auto
      then have u: "unat (v - 0xC0000000) = unat v - 0xC0000000" by (simp add: unat_sub word_le_nat_alt)
      have w: "idx1 (v - 0xC0000000) = 0" "idx2 (v - 0xC0000000) = idx2 v"
      proof -
        from b(1) obtain r where r: "unat v = 3221225472 + r" by (auto simp: word_le_nat_alt le_iff_add)
        with b(2) have "r < 4194304" by (simp add: word_less_nat_alt)
        then show "idx1 (v - 0xC0000000) = 0" unfolding idx_nat u r by simp
        have "(r + 768 * 1024 * 4096) div 4096 = 768 * 1024 + r div 4096" by (rule div_mult_self1) simp
        then have "(3221225472 + r) div 4096 mod 1024 = (768 * 1024 + r div 4096) mod 1024"
          by (simp add: add.commute)
        also have "\<dots> = r div 4096 mod 1024" by (rule mod_mult_self3)
        finally show "idx2 (v - 0xC0000000) = idx2 v" unfolding idx_nat u r by simp
      qed
      have "desloc (v - 0xC0000000) = desloc v" using b by (intro desloc_alto) simp_all
      with low [of "v - 0xC0000000"] m(1) [of 768] w quadro_mais_desloc [of "v - 0xC0000000"] True False
      show ?thesis unfolding cr i1 by simp
    next
      case False
      with \<open>\<not> idx1 v < 16\<close> show ?thesis
        unfolding cr i1 using m(1) [of "idx1 v"] by (simp add: traduzir_def PAGE_PRESENTE_def)
    qed
  qed
qed


theorem paging_init_identidade_witness:
  "\<forall>s. traduzir (memoria (paging_init 0x100000 0x101000 s)) (cr3 (paging_init 0x100000 0x101000 s)) PAGE_PRESENTE 0xC0001234
     = Some 0x1234"
proof
  fix s show "traduzir (memoria (paging_init 0x100000 0x101000 s)) (cr3 (paging_init 0x100000 0x101000 s)) PAGE_PRESENTE 0xC0001234
     = Some 0x1234"
    using paging_init_identidade [of "0x100000" "0x101000" s "0xC0001234"] by (simp add: simbolos_ok_def alinhado_def)
qed

section \<open>Mapping one page\<close>

definition presente :: "u32 \<Rightarrow> bool" where "presente e \<longleftrightarrow> e AND PAGE_PRESENTE = PAGE_PRESENTE"

text \<open>The directory and the tables in use are not pages the allocator could hand out.\<close>

definition pag_inv :: "u32 \<Rightarrow> paging \<Rightarrow> bool" where
  "pag_inv pd s \<longleftrightarrow> alinhado pd \<and> pmm_inv (pg_pmm s) \<and> 0 \<notin> livres (pg_pmm s) \<and>
     unat pd div 4096 \<notin> livres (pg_pmm s) \<and>
     (\<forall>k < 1024. let e = memoria s (entrada pd k) in presente e \<longrightarrow>
        quadro e \<noteq> pd \<and> unat (quadro e) div 4096 \<notin> livres (pg_pmm s))"

text \<open>Two addresses that the walk takes to the same entry of the same table (tables can be shared, as
  the entries 0 and 768 of the directory do).\<close>

definition mesma_pte :: "(u32 \<Rightarrow> u32) \<Rightarrow> u32 \<Rightarrow> u32 \<Rightarrow> u32 \<Rightarrow> bool" where
  "mesma_pte m pd v w \<longleftrightarrow> idx2 v = idx2 w \<and>
     (idx1 v = idx1 w \<or> presente (m (entrada pd (idx1 v))) \<and> presente (m (entrada pd (idx1 w))) \<and>
        quadro (m (entrada pd (idx1 v))) = quadro (m (entrada pd (idx1 w))))"

lemma presente_bit: "presente e \<longleftrightarrow> bit e 0"
proof
  assume "presente e"
  then have "bit (e AND PAGE_PRESENTE) 0" by (simp add: presente_def)
  then show "bit e 0" by (simp add: bit_and_iff)
next
  assume "bit e 0"
  then show "presente e" unfolding presente_def by (intro bit_word_eqI) (auto simp: bit_and_iff)
qed

lemma presente_alt: "e AND PAGE_PRESENTE = 0 \<longleftrightarrow> \<not> presente e"
proof
  assume "e AND PAGE_PRESENTE = 0"
  then have "\<not> bit (e AND PAGE_PRESENTE) 0" by simp
  then show "\<not> presente e" by (simp add: presente_bit bit_and_iff)
next
  assume "\<not> presente e"
  then show "e AND PAGE_PRESENTE = 0"
    unfolding presente_bit by (intro bit_word_eqI) (auto simp: bit_and_iff intro: gr0I)
qed

lemma indices [simp]: "pd + 4 * drop_bit 22 v = entrada pd (idx1 v)"
  "pt + 4 * (drop_bit 12 v AND 0x3FF) = entrada pt (idx2 v)"
  by (simp_all add: entrada_def idx1_def idx2_def)

definition gravar_pte :: "u32 \<Rightarrow> u32 \<Rightarrow> u32 \<Rightarrow> u32 \<Rightarrow> (u32 \<Rightarrow> u32) \<Rightarrow> (u32 \<Rightarrow> u32)" where
  "gravar_pte pd virt fis fls m =
     m(entrada (quadro (m (entrada pd (idx1 virt)))) (idx2 virt) := quadro fis OR desloc fls OR PAGE_PRESENTE)"

lemma paging_mapear_casos:
  "paging_mapear pd virt fis fls s =
     (if presente (memoria s (entrada pd (idx1 virt))) then s\<lparr>memoria := gravar_pte pd virt fis fls (memoria s)\<rparr>
      else if fst (pmm_alloc (pg_pmm s)) = 0 then s\<lparr>pg_pmm := snd (pmm_alloc (pg_pmm s))\<rparr>
      else s\<lparr>pg_pmm := snd (pmm_alloc (pg_pmm s)),
             memoria := gravar_pte pd virt fis fls
               ((preencher (fst (pmm_alloc (pg_pmm s))) (\<lambda>_. 0) 0 1024 (memoria s))
                (entrada pd (idx1 virt) := fst (pmm_alloc (pg_pmm s)) OR PAGE_PRESENTE OR PAGE_ESCRITA))\<rparr>)"
  unfolding paging_mapear_def Let_def indices presente_alt gravar_pte_def
  by (simp split: prod.split)

lemma gravar_ok:
  fixes pd virt fis fls :: u32 and m :: "u32 \<Rightarrow> u32"
  assumes "alinhado pd" "\<forall>k < 1024. presente (m (entrada pd k)) \<longrightarrow> quadro (m (entrada pd k)) \<noteq> pd"
    "presente (m (entrada pd (idx1 virt)))"
  defines "m' \<equiv> gravar_pte pd virt fis fls m"
  shows "k < 1024 \<Longrightarrow> m' (entrada pd k) = m (entrada pd k)"
    and "mesma_pte m pd v virt \<Longrightarrow> traduzir m' pd PAGE_PRESENTE v = Some (quadro fis OR desloc v)"
    and "\<not> mesma_pte m pd v virt \<Longrightarrow> traduzir m' pd PAGE_PRESENTE v = traduzir m pd PAGE_PRESENTE v"
proof -
  let ?t = "\<lambda>v. quadro (m (entrada pd (idx1 v)))"
  have pd: "m' (entrada pd k) = m (entrada pd k)" if "k < 1024" for k
    using assms(2) [rule_format, OF idx_less(1) assms(3)] that assms(1) by (simp add: m'_def gravar_pte_def)
  then show "k < 1024 \<Longrightarrow> m' (entrada pd k) = m (entrada pd k)" .
  show "traduzir m' pd PAGE_PRESENTE v = Some (quadro fis OR desloc v)" if "mesma_pte m pd v virt"
  proof -
    have t: "presente (m (entrada pd (idx1 v)))" "?t v = ?t virt" "idx2 v = idx2 virt"
      using that assms(3) by (auto simp: mesma_pte_def)
    then have "m' (entrada (?t v) (idx2 v)) = quadro fis OR desloc fls OR PAGE_PRESENTE"
      by (simp add: m'_def gravar_pte_def)
    with t(1) show ?thesis by (simp add: traduzir_def pd presente_def)
  qed
  show "traduzir m' pd PAGE_PRESENTE v = traduzir m pd PAGE_PRESENTE v" if "\<not> mesma_pte m pd v virt"
  proof (cases "presente (m (entrada pd (idx1 v)))")
    case False
    then show ?thesis by (simp add: traduzir_def pd presente_def)
  next
    case True
    with that assms(3) have "?t v \<noteq> ?t virt \<or> idx2 v \<noteq> idx2 virt" by (auto simp: mesma_pte_def)
    then have "m' (entrada (?t v) (idx2 v)) = m (entrada (?t v) (idx2 v))"
      by (auto simp: m'_def gravar_pte_def)
    then show ?thesis by (simp add: traduzir_def pd Let_def)
  qed
qed


lemma nova_tabela:
  assumes "alinhado pd" "alinhado a" "a \<noteq> pd" "i < 1024"
    "\<forall>k < 1024. presente (m (entrada pd k)) \<longrightarrow> quadro (m (entrada pd k)) \<noteq> pd \<and> quadro (m (entrada pd k)) \<noteq> a"
    "\<not> presente (m (entrada pd i))"
  defines "m' \<equiv> (preencher a (\<lambda>_. 0) 0 1024 m)(entrada pd i := a OR PAGE_PRESENTE OR PAGE_ESCRITA)"
  shows "k < 1024 \<Longrightarrow> m' (entrada pd k) = (if k = i then a OR PAGE_PRESENTE OR PAGE_ESCRITA else m (entrada pd k))"
    and "traduzir m' pd PAGE_PRESENTE v = traduzir m pd PAGE_PRESENTE v"
proof -
  show pd: "m' (entrada pd k) = (if k = i then a OR PAGE_PRESENTE OR PAGE_ESCRITA else m (entrada pd k))" if "k < 1024" for k
  proof -
    have "preencher a (\<lambda>_. 0) 0 1024 m (entrada pd k) = m (entrada pd k)"
      by (rule preencher_fora) (use assms(1-3) that in auto)
    then show ?thesis using assms(1,4) that by (simp add: m'_def)
  qed
  show "traduzir m' pd PAGE_PRESENTE v = traduzir m pd PAGE_PRESENTE v"
  proof (cases "idx1 v = i")
    case True
    have "m' (entrada a (idx2 v)) = 0"
      using assms(1-4) by (simp add: m'_def preencher_em)
    then have "traduzir m' pd PAGE_PRESENTE v = None"
      using True assms(2,4) by (simp add: traduzir_def pd) (simp add: PAGE_PRESENTE_def)
    moreover have "traduzir m pd PAGE_PRESENTE v = None"
      using assms(6) True by (simp add: traduzir_def presente_def)
    ultimately show ?thesis by simp
  next
    case False
    show ?thesis
    proof (cases "presente (m (entrada pd (idx1 v)))")
      case p: True
      let ?t = "quadro (m (entrada pd (idx1 v)))"
      have "preencher a (\<lambda>_. 0) 0 1024 m (entrada ?t (idx2 v)) = m (entrada ?t (idx2 v))"
        by (rule preencher_fora) (use assms(2) assms(5) p in auto)
      then have "m' (entrada ?t (idx2 v)) = m (entrada ?t (idx2 v))"
        using assms(1,4) assms(5) p by (simp add: m'_def)
      with False show ?thesis by (simp add: traduzir_def pd Let_def)
    qed (use False in \<open>simp add: traduzir_def pd presente_def\<close>)
  qed
qed

text \<open>C7: \<open>paging_mapear\<close>, on a well-formed directory.  When it needs a new table and no page is left it
  changes nothing the processor sees; otherwise afterwards the page of \<open>virt\<close>, and every page that shares
  its table entry, reads the frame of \<open>fis\<close>, and all other addresses read what they read before,
  whether the table was there or had to be created.  The directory stays well formed.\<close>

theorem paging_mapear_correto:
  assumes "pag_inv pd s" and s'_def: "s' = paging_mapear pd virt fis fls s"
  shows "pag_inv pd s' \<and>
    (if \<not> presente (memoria s (entrada pd (idx1 virt))) \<and> livres (pg_pmm s) = {} then memoria s' = memoria s
     else (\<forall>v. traduzir (memoria s') pd PAGE_PRESENTE v =
       (if mesma_pte (memoria s) pd v virt then Some (quadro fis OR desloc v)
        else traduzir (memoria s) pd PAGE_PRESENTE v)))"
proof -
  let ?m = "memoria s"
  have i: "alinhado pd" "pmm_inv (pg_pmm s)" "0 \<notin> livres (pg_pmm s)" "unat pd div 4096 \<notin> livres (pg_pmm s)"
    "\<And>k. k < 1024 \<Longrightarrow> presente (?m (entrada pd k)) \<Longrightarrow> quadro (?m (entrada pd k)) \<noteq> pd \<and>
      unat (quadro (?m (entrada pd k))) div 4096 \<notin> livres (pg_pmm s)"
    using assms(1) by (auto simp: pag_inv_def Let_def)
  then have i5: "\<forall>k < 1024. presente (?m (entrada pd k)) \<longrightarrow> quadro (?m (entrada pd k)) \<noteq> pd" by blast
  show ?thesis
  proof (cases "presente (?m (entrada pd (idx1 virt)))")
    case True
    note g = gravar_ok [where pd = pd and m = ?m and virt = virt and fis = fis and fls = fls, OF i(1) i5 True]
    have "pag_inv pd s'"
      using i True g(1) by (simp add: s'_def paging_mapear_casos pag_inv_def Let_def)
    then show ?thesis using True i(5) g(2,3) by (simp add: s'_def paging_mapear_casos)
  next
    case False
    obtain a pm where al: "pmm_alloc (pg_pmm s) = (a, pm)" by fastforce
    from i(2) al show ?thesis
    proof (cases rule: pmm.alloc_cases)
      case cheio
      then show ?thesis using False al i
        by (simp add: s'_def paging_mapear_casos pag_inv_def Let_def)
    next
      case novo
      have a0: "a \<noteq> 0" using novo(1) i(3) by (auto intro: ccontr)
      have al': "alinhado a" using novo(2) by (simp add: alinhado_nat)
      have ap: "a \<noteq> pd" using novo(1) i(4) by auto
      have ne: "quadro (?m (entrada pd k)) \<noteq> pd \<and> quadro (?m (entrada pd k)) \<noteq> a"
        if "k < 1024" "presente (?m (entrada pd k))" for k using i(5) [OF that] novo(1) by auto
      then have ne': "\<forall>k < 1024. presente (?m (entrada pd k)) \<longrightarrow> quadro (?m (entrada pd k)) \<noteq> pd \<and> quadro (?m (entrada pd k)) \<noteq> a"
        by blast
      let ?m1 = "(preencher a (\<lambda>_. 0) 0 1024 ?m)(entrada pd (idx1 virt) := a OR PAGE_PRESENTE OR PAGE_ESCRITA)"
      note nt = nova_tabela [of pd a "idx1 virt" ?m, OF i(1) al' ap idx_less(1) ne' False]
      have s': "s' = s\<lparr>pg_pmm := pm, memoria := gravar_pte pd virt fis fls ?m1\<rparr>"
        using False a0 al by (simp add: s'_def paging_mapear_casos)
      have p1: "presente (?m1 (entrada pd (idx1 virt)))" by (simp add: nt(1) presente_def)
      have q1: "\<forall>k < 1024. presente (?m1 (entrada pd k)) \<longrightarrow> quadro (?m1 (entrada pd k)) \<noteq> pd"
        using ne ap al' by (auto simp: nt(1) simp del: fun_upd_apply split: if_splits)
      note g = gravar_ok [where pd = pd and m = ?m1 and virt = virt and fis = fis and fls = fls, OF i(1) q1 p1]
      have "mesma_pte ?m1 pd v virt \<longleftrightarrow> mesma_pte ?m pd v virt" for v
        using ne [OF idx_less(1)] al' False
        by (auto simp: mesma_pte_def nt(1) simp del: fun_upd_apply split: if_splits)
      then have t: "traduzir (memoria s') pd PAGE_PRESENTE v =
          (if mesma_pte ?m pd v virt then Some (quadro fis OR desloc v) else traduzir ?m pd PAGE_PRESENTE v)" for v
        using g(2,3) nt(2) by (simp add: s')
      have "livres (pg_pmm s) \<noteq> {}" using novo(1) by auto
      moreover have "pag_inv pd s'"
      proof -
        have "memoria s' (entrada pd k) = (if k = idx1 virt then a OR PAGE_PRESENTE OR PAGE_ESCRITA else ?m (entrada pd k))"
          if "k < 1024" for k using g(1) [OF that] nt(1) [OF that] by (simp add: s' del: fun_upd_apply)
        then show ?thesis
          unfolding pag_inv_def Let_def using i novo ne al' ap by (auto simp: s' split: if_splits)
      qed
      ultimately show ?thesis using t by simp
    qed
  qed
qed

definition paging_exemplo :: paging where
  "paging_exemplo = paging_init 0x100000 0x101000
     \<lparr>pg_pmm = pmm_exemplo, memoria = (\<lambda>_. 0), cr3 = 0, paginacao = False\<rparr>"

lemma pag_inv_init:
  assumes "simbolos_ok pd pts" "pmm_inv (pg_pmm s)" "0 \<notin> livres (pg_pmm s)" "unat pd div 4096 \<notin> livres (pg_pmm s)"
    "\<And>k. k < 16 \<Longrightarrow> unat (tabela pts k) div 4096 \<notin> livres (pg_pmm s)"
  shows "pag_inv pd (paging_init pd pts s)"
proof -
  have "pg_pmm (paging_init pd pts s) = pg_pmm s" by (simp add: paging_init_def Let_def)
  moreover have "\<not> presente 2" by (simp add: presente_def PAGE_PRESENTE_def)
  ultimately show ?thesis
    using assms tabela_ok [OF assms(1)]
    by (auto simp: pag_inv_def Let_def memoria_init(1) [OF assms(1)] simbolos_ok_def)
qed

lemma paging_exemplo_ok: "pag_inv 0x100000 paging_exemplo"
  unfolding paging_exemplo_def
proof (rule pag_inv_init)
  have l: "livres pmm_exemplo = {2, 3, 4, 5, 6, 7}" by (rule pmm_exemplo_livres)
  have u: "unat (tabela 0x101000 k) = 0x101000 + 4096 * k" if "k < 16" for k
  proof -
    have "tabela 0x101000 k = of_nat (0x101000 + 4096 * k)" by (simp add: tabela_def)
    then show ?thesis using that unat_of_nat_u32 [of "0x101000 + 4096 * k"] by simp
  qed
  show "unat (tabela 0x101000 k) div 4096 \<notin> livres (pg_pmm \<lparr>pg_pmm = pmm_exemplo, memoria = (\<lambda>_. 0), cr3 = 0, paginacao = False\<rparr>)"
    if "k < 16" for k using that u by (auto simp: l)
  show "pmm_inv (pg_pmm \<lparr>pg_pmm = pmm_exemplo, memoria = (\<lambda>_. 0), cr3 = 0, paginacao = False\<rparr>)"
    by (simp add: pmm_inv_def l) (simp add: pmm_exemplo_def MAX_PAGINAS_def)
qed (simp_all add: simbolos_ok_def alinhado_def pmm_exemplo_livres)

theorem paging_mapear_correto_witness:
  "traduzir (memoria (paging_mapear 0x100000 0x40001000 0x7000 0 paging_exemplo)) 0x100000 PAGE_PRESENTE 0x40001234
     = Some 0x7234"
proof -
  have "mesma_pte (memoria paging_exemplo) 0x100000 0x40001234 0x40001000"
    by (simp add: mesma_pte_def idx_nat)
  moreover have "livres (pg_pmm paging_exemplo) \<noteq> {}"
    by (simp add: paging_exemplo_def paging_init_def Let_def pmm_exemplo_livres)
  ultimately show ?thesis
    using paging_mapear_correto [OF paging_exemplo_ok refl, of "0x40001000" "0x7000" 0]
    by (simp add: quadro_def desloc_def split: if_splits)
qed

lemma sem_usuario:
  "alinhado a \<Longrightarrow> (a OR PAGE_PRESENTE OR PAGE_ESCRITA) AND (PAGE_PRESENTE OR PAGE_USUARIO) \<noteq> PAGE_PRESENTE OR PAGE_USUARIO"
proof
  assume a: "alinhado a" "(a OR PAGE_PRESENTE OR PAGE_ESCRITA) AND (PAGE_PRESENTE OR PAGE_USUARIO) = PAGE_PRESENTE OR PAGE_USUARIO"
  then have "bit ((a OR PAGE_PRESENTE OR PAGE_ESCRITA) AND (PAGE_PRESENTE OR PAGE_USUARIO)) 2"
    by (simp add: bit_or_iff)
  with a(1) show False by (simp add: bit_or_iff bit_and_iff alinhado_bits)
qed

lemma entrada_init:
  assumes "simbolos_ok pd pts" "k < 1024"
  shows "memoria (paging_init pd pts s) (entrada pd k) = 2 \<or>
    (\<exists>a. alinhado a \<and> memoria (paging_init pd pts s) (entrada pd k) = a OR PAGE_PRESENTE OR PAGE_ESCRITA)"
proof -
  consider "k < 16" | "k = 768" | "k \<ge> 16" "k \<noteq> 768" by linarith
  then show ?thesis
    using tabela_ok(1) [OF assms(1), of k] tabela_ok(1) [OF assms(1), of 0] memoria_init(1) [OF assms]
    by cases auto
qed

lemma traduzir_pde: "memoria s (entrada pd (idx1 v)) AND perm \<noteq> perm \<Longrightarrow> traduzir (memoria s) pd perm v = None"
  by (simp add: traduzir_def)

text \<open>C8: a page mapped by \<open>paging_mapear_usuario\<close> after \<open>paging_init\<close> is not accessible from ring 3: the
  directory entry above it never has the user bit, whether it is one of \<open>paging_init\<close> or a new one.\<close>

theorem paging_usuario_inacessivel:
  assumes "simbolos_ok pd pts" "pag_inv pd (paging_init pd pts s)"
  shows "traduzir (memoria (paging_mapear_usuario pd virt fis (paging_init pd pts s))) pd
    (PAGE_PRESENTE OR PAGE_USUARIO) virt = None"
proof (rule traduzir_pde)
  let ?s = "paging_init pd pts s" and ?i = "idx1 virt" and ?u = "PAGE_PRESENTE OR PAGE_USUARIO"
  let ?s' = "paging_mapear_usuario pd virt fis ?s"
  let ?m = "memoria ?s"
  have two: "2 AND ?u \<noteq> ?u" by (simp add: PAGE_PRESENTE_def PAGE_USUARIO_def)
  have i: "alinhado pd" "pmm_inv (pg_pmm ?s)" "0 \<notin> livres (pg_pmm ?s)" "unat pd div 4096 \<notin> livres (pg_pmm ?s)"
    "\<And>k. k < 1024 \<Longrightarrow> presente (?m (entrada pd k)) \<Longrightarrow> quadro (?m (entrada pd k)) \<noteq> pd \<and>
      unat (quadro (?m (entrada pd k))) div 4096 \<notin> livres (pg_pmm ?s)"
    using assms(2) by (auto simp: pag_inv_def Let_def)
  have pde0: "?m (entrada pd ?i) AND ?u \<noteq> ?u"
    using entrada_init [OF assms(1) idx_less(1), of s virt] two sem_usuario by (auto simp del: One_nat_def)
  show "memoria ?s' (entrada pd ?i) AND ?u \<noteq> ?u"
  proof (cases "presente (?m (entrada pd ?i))")
    case True
    then show ?thesis
      using gravar_ok(1) [where pd = pd and m = ?m and virt = virt and k = ?i] i pde0 by (simp add: paging_mapear_usuario_def paging_mapear_casos)
  next
    case False
    obtain a pm where al: "pmm_alloc (pg_pmm ?s) = (a, pm)" by fastforce
    show ?thesis
    proof (cases "a = 0")
      case True
      then show ?thesis using False al pde0 by (simp add: paging_mapear_usuario_def paging_mapear_casos)
    next
      case a0: False
      from i(2) al have n: "4096 dvd unat a" "unat a div 4096 \<in> livres (pg_pmm ?s)"
        by (cases rule: pmm.alloc_cases; use a0 in simp)+
      have al': "alinhado a" using n(1) by (simp add: alinhado_nat)
      have ap: "a \<noteq> pd" using n(2) i(4) by auto
      have ne: "quadro (?m (entrada pd k)) \<noteq> pd \<and> quadro (?m (entrada pd k)) \<noteq> a"
        if "k < 1024" "presente (?m (entrada pd k))" for k using i(5) [OF that] n(2) by auto
      then have ne': "\<forall>k < 1024. presente (?m (entrada pd k)) \<longrightarrow> quadro (?m (entrada pd k)) \<noteq> pd \<and> quadro (?m (entrada pd k)) \<noteq> a"
        by blast
      let ?m1 = "(preencher a (\<lambda>_. 0) 0 1024 ?m)(entrada pd ?i := a OR PAGE_PRESENTE OR PAGE_ESCRITA)"
      note nt = nova_tabela(1) [of pd a ?i ?m, OF i(1) al' ap idx_less(1) ne' False]
      have "memoria ?s' (entrada pd ?i) = ?m1 (entrada pd ?i)"
        using gravar_ok(1) [where pd = pd and m = ?m1 and virt = virt and k = ?i] i(1) nt ap al' ne False a0 al
        by (auto simp: paging_mapear_usuario_def paging_mapear_casos presente_def split: if_splits)
      then show ?thesis using sem_usuario [OF al'] by (simp add: nt)
    qed
  qed
qed

theorem paging_usuario_inacessivel_witness:
  "traduzir (memoria (paging_mapear_usuario 0x100000 0x40001000 0x7000 paging_exemplo)) 0x100000
     (PAGE_PRESENTE OR PAGE_USUARIO) 0x40001000 = None"
  unfolding paging_exemplo_def
  using paging_usuario_inacessivel [of "0x100000" "0x101000", OF _ paging_exemplo_ok [unfolded paging_exemplo_def], of "0x40001000" "0x7000"]
  by (simp add: simbolos_ok_def alinhado_def)

end
