(* ===== verification/Processos.thy ===== *)
theory Processos
  imports Slab
begin

text \<open>
  \<^verbatim>\<open>kernel/proc/\<close>: process control blocks, their queue, and the credit scheduler
  (\<^verbatim>\<open>identidade.c\<close>, \<^verbatim>\<open>processo.c\<close>, \<^verbatim>\<open>sched.c\<close>).  PCBs come from \<^verbatim>\<open>kmalloc\<close> and are kept in \<open>procs\<close> by
  address; the stacks are bytes of the memory \<open>ram\<close>.  The queue is the list the \<^verbatim>\<open>proximo\<close> pointers
  spell (\<open>fila\<close>); the loops that follow it are \<open>partial_function (option)\<close>, with proofs that they end.
  The scheduler runs with interrupts off on one processor, so its spin lock is always free and is not
  modelled.
\<close>

section \<open>State\<close>

record identidade =
  id_hash :: u32
  id_pid :: u32
  id_tick :: u32

record contexto =
  c_edi :: u32
  c_esi :: u32
  c_ebp :: u32
  c_esp_dummy :: u32
  c_ebs :: u32
  c_edx :: u32
  c_ecx :: u32
  c_eax :: u32
  c_eip :: u32
  c_esp :: u32

record processo =
  pid :: u32
  estado :: u8
  prioridade :: u8
  creditos :: u8
  p_id :: identidade
  ctx :: contexto
  page_dir :: u32
  p_stack :: u32
  stack_size :: u32
  nome :: "u8 list"
  p_proximo :: u32

record sis_proc =
  procs :: "u32 \<Rightarrow> processo"
  ram :: "u32 \<Rightarrow> u8"
  p_heap :: kheap
  proc_atual_ptr :: u32
  fila_pronto :: u32
  prox_pid :: u32
  ticks :: u32
  creditos_atuais :: u32

definition PROC_RUNNING :: u8 where "PROC_RUNNING = 0"
definition PROC_READY :: u8 where "PROC_READY = 1"
definition PROC_BLOCKED :: u8 where "PROC_BLOCKED = 2"
definition PROC_MORTO :: u8 where "PROC_MORTO = 3"
definition MAX_PROCESSOS :: nat where "MAX_PROCESSOS = 16"
definition STACK_SIZE :: u32 where "STACK_SIZE = 16 * 1024"
definition SIZEOF_PROCESSO :: u32 where "SIZEOF_PROCESSO = 108"

abbreviation mudar :: "u32 \<Rightarrow> (processo \<Rightarrow> processo) \<Rightarrow> sis_proc \<Rightarrow> sis_proc" where
  "mudar p f s \<equiv> s\<lparr>procs := (procs s)(p := f (procs s p))\<rparr>"

section \<open>Identities\<close>

fun fnv_bytes :: "u32 \<Rightarrow> nat \<Rightarrow> nat \<Rightarrow> u32 \<Rightarrow> u32" where
  "fnv_bytes a i 0 h = h"
| "fnv_bytes a i (Suc n) h =
     fnv_bytes a (Suc i) n ((h XOR (drop_bit (i * 8) a AND 0xFF)) * 16777619)"

definition hash_fnv :: "u32 \<Rightarrow> u32 \<Rightarrow> u32 \<Rightarrow> u32" where
  "hash_fnv a b c = fnv_bytes c 0 4 (fnv_bytes b 0 4 (fnv_bytes a 0 4 2166136261))"

definition identidade_gerar :: "u32 \<Rightarrow> u32 \<Rightarrow> u32 \<Rightarrow> identidade" where
  "identidade_gerar p tick stack_addr =
     \<lparr>id_hash = hash_fnv p tick stack_addr, id_pid = p, id_tick = tick\<rparr>"

definition identidade_verificar :: "identidade option \<Rightarrow> u32 \<Rightarrow> int" where
  "identidade_verificar i p =
     (case i of None \<Rightarrow> 0 | Some i \<Rightarrow> if id_pid i = p \<and> id_hash i \<noteq> 0 then 1 else 0)"

section \<open>Processes\<close>

function str_copy :: "u8 list \<Rightarrow> u8 list \<Rightarrow> nat \<Rightarrow> nat \<Rightarrow> u8 list" where
  "str_copy dst src mx i =
     (if char_at src i \<noteq> 0 \<and> i < mx - 1 then str_copy (dst[i := char_at src i]) src mx (Suc i)
      else dst[i := 0])"
  by pat_completeness auto
termination by (relation "measure (\<lambda>(dst, src, mx, i). mx - i)") auto

declare str_copy.simps [simp del]

partial_function (option) ultimo_da_fila :: "(u32 \<Rightarrow> processo) \<Rightarrow> u32 \<Rightarrow> u32 option" where
  "ultimo_da_fila m u = (if p_proximo (m u) \<noteq> 0 then ultimo_da_fila m (p_proximo (m u)) else Some u)"

definition fila_adicionar :: "u32 \<Rightarrow> sis_proc \<Rightarrow> sis_proc option" where
  "fila_adicionar p s =
     (let s = mudar p (\<lambda>x. x\<lparr>p_proximo := 0\<rparr>) s in
      if fila_pronto s = 0 then Some (s\<lparr>fila_pronto := p\<rparr>)
      else case ultimo_da_fila (procs s) (fila_pronto s) of
        None \<Rightarrow> None
      | Some u \<Rightarrow> Some (mudar u (\<lambda>x. x\<lparr>p_proximo := p\<rparr>) s))"

definition proc_init :: "sis_proc \<Rightarrow> sis_proc option" where
  "proc_init s =
     (case kmalloc SIZEOF_PROCESSO (p_heap s) of None \<Rightarrow> None
      | Some (k, h) \<Rightarrow>
          let s = s\<lparr>p_heap := h\<rparr> in
          if k = 0 then Some s
          else Some ((mudar k (\<lambda>x. x\<lparr>pid := 0, estado := PROC_RUNNING, prioridade := 1, page_dir := 0,
                 p_stack := 0, stack_size := 0, p_proximo := 0,
                 nome := str_copy (nome x) (bytes ''kernel'') 32 0,
                 p_id := identidade_gerar 0 (ticks s) k\<rparr>) s)
               \<lparr>proc_atual_ptr := k, fila_pronto := k\<rparr>))"

text \<open>Words of the stacks.\<close>

definition escrever32 :: "u32 \<Rightarrow> u32 \<Rightarrow> (u32 \<Rightarrow> u8) \<Rightarrow> (u32 \<Rightarrow> u8)" where
  "escrever32 a w m = m(a := le32 w ! 0, a + 1 := le32 w ! 1, a + 2 := le32 w ! 2, a + 3 := le32 w ! 3)"

definition ler32 :: "(u32 \<Rightarrow> u8) \<Rightarrow> u32 \<Rightarrow> u32" where
  "ler32 m a = rd32 [m a, m (a + 1), m (a + 2), m (a + 3)] 0"

definition empilhar :: "u32 \<Rightarrow> (u32 \<times> (u32 \<Rightarrow> u8)) \<Rightarrow> (u32 \<times> (u32 \<Rightarrow> u8))" where
  "empilhar w tm = (let topo = fst tm - 4 in (topo, escrever32 topo w (snd tm)))"

text \<open>The eleven pushes of the initial frame: EFLAGS, CS, EIP, then EAX down to EDI.\<close>

definition quadro_inicial :: "u32 \<Rightarrow> u32 \<Rightarrow> (u32 \<Rightarrow> u8) \<Rightarrow> u32 \<times> (u32 \<Rightarrow> u8)" where
  "quadro_inicial stack entrada m =
     fold empilhar [0x00000202, 0x08, entrada, 0, 0, 0, 0, 0, 0, 0, 0] (stack + STACK_SIZE, m)"

definition proc_criar :: "u8 list \<Rightarrow> u32 \<Rightarrow> u8 \<Rightarrow> sis_proc \<Rightarrow> (u32 \<times> sis_proc) option" where
  "proc_criar nm entrada prio s =
     (case kmalloc SIZEOF_PROCESSO (p_heap s) of None \<Rightarrow> None
      | Some (p, h) \<Rightarrow>
          let s = s\<lparr>p_heap := h\<rparr> in
          if p = 0 then Some (0, s)
          else case kmalloc STACK_SIZE (p_heap s) of None \<Rightarrow> None
          | Some (stack, h) \<Rightarrow>
            let s = s\<lparr>p_heap := h\<rparr> in
            if stack = 0 then
              (case kfree p (p_heap s) of None \<Rightarrow> None | Some h \<Rightarrow> Some (0, s\<lparr>p_heap := h\<rparr>))
            else
              let novo = prox_pid s;
                  (topo, m) = quadro_inicial stack entrada (ram s);
                  s = mudar p (\<lambda>x. x\<lparr>pid := novo, estado := PROC_READY, prioridade := prio, p_stack := stack,
                        stack_size := STACK_SIZE, page_dir := 0, p_proximo := 0,
                        nome := str_copy (nome x) nm 32 0,
                        p_id := identidade_gerar novo (ticks s) stack,
                        ctx := (ctx x)\<lparr>c_esp := topo, c_eip := entrada\<rparr>\<rparr>)
                      (s\<lparr>prox_pid := novo + 1, ram := m\<rparr>)
              in map_option (Pair p) (fila_adicionar p s))"

definition proc_encerrar :: "sis_proc \<Rightarrow> sis_proc" where
  "proc_encerrar s =
     (if proc_atual_ptr s \<noteq> 0 then mudar (proc_atual_ptr s) (\<lambda>x. x\<lparr>estado := PROC_MORTO\<rparr>) s else s)"

definition proc_set_atual :: "u32 \<Rightarrow> sis_proc \<Rightarrow> sis_proc" where
  "proc_set_atual p s = s\<lparr>proc_atual_ptr := p\<rparr>"

fun copiar_pilha :: "u32 \<Rightarrow> u32 \<Rightarrow> nat \<Rightarrow> nat \<Rightarrow> (u32 \<Rightarrow> u8) \<Rightarrow> (u32 \<Rightarrow> u8)" where
  "copiar_pilha d f i 0 m = m"
| "copiar_pilha d f i (Suc n) m = copiar_pilha d f (Suc i) n (m(d + of_nat i := m (f + of_nat i)))"

text \<open>Result -1 is the failure of \<^verbatim>\<open>proc_fork\<close>; the message it prints for the kernel process is left out.\<close>

definition proc_fork :: "sis_proc \<Rightarrow> (u32 \<times> sis_proc) option" where
  "proc_fork s =
     (let pai = proc_atual_ptr s in
      if pai = 0 \<or> p_stack (procs s pai) = 0 then Some (- 1, s)
      else case kmalloc SIZEOF_PROCESSO (p_heap s) of None \<Rightarrow> None
      | Some (filho, h) \<Rightarrow>
          let s = s\<lparr>p_heap := h\<rparr> in
          if filho = 0 then Some (- 1, s)
          else case kmalloc STACK_SIZE (p_heap s) of None \<Rightarrow> None
          | Some (stack, h) \<Rightarrow>
            let s = s\<lparr>p_heap := h\<rparr> in
            if stack = 0 then
              (case kfree filho (p_heap s) of None \<Rightarrow> None | Some h \<Rightarrow> Some (- 1, s\<lparr>p_heap := h\<rparr>))
            else
              let novo = prox_pid s;
                  P = procs s pai;
                  esp = stack + (c_esp (ctx P) - p_stack P);
                  m = copiar_pilha stack (p_stack P) 0 (unat STACK_SIZE) (ram s);
                  m = escrever32 (esp + 28) 0 m;
                  s = mudar filho (\<lambda>_. P\<lparr>pid := novo, estado := PROC_READY, p_stack := stack, p_proximo := 0,
                        ctx := (ctx P)\<lparr>c_esp := esp\<rparr>,
                        nome := (str_copy (nome P) (nome P) 28 0)[27 := 0],
                        p_id := identidade_gerar novo (ticks s) stack\<rparr>)
                      (s\<lparr>prox_pid := novo + 1, ram := m\<rparr>)
              in map_option (Pair novo) (fila_adicionar filho s))"

definition proc_exec :: "u32 \<Rightarrow> sis_proc \<Rightarrow> int \<times> sis_proc" where
  "proc_exec entrada s =
     (let p = proc_atual_ptr s in
      if p = 0 then (- 1, s)
      else let (topo, m) = quadro_inicial (p_stack (procs s p)) entrada (ram s) in
        (0, mudar p (\<lambda>x. x\<lparr>ctx := (ctx x)\<lparr>c_esp := topo, c_eip := entrada\<rparr>\<rparr>) (s\<lparr>ram := m\<rparr>)))"

section \<open>The scheduler\<close>

definition credito_de :: "u8 \<Rightarrow> u8" where
  "credito_de prio = (if prio = 2 then 3 else if prio = 1 then 2 else 1)"

partial_function (option) recalc_loop :: "u32 \<Rightarrow> (u32 \<Rightarrow> processo) \<Rightarrow> (u32 \<Rightarrow> processo) option" where
  "recalc_loop p m =
     (if p = 0 then Some m
      else recalc_loop (p_proximo (m p))
        (if estado (m p) = PROC_READY \<or> estado (m p) = PROC_RUNNING
         then m(p := (m p)\<lparr>creditos := credito_de (prioridade (m p))\<rparr>) else m))"

definition recalcular_creditos :: "sis_proc \<Rightarrow> sis_proc option" where
  "recalcular_creditos s = map_option (\<lambda>m. s\<lparr>procs := m\<rparr>) (recalc_loop (fila_pronto s) (procs s))"

definition elegivel :: "(u32 \<Rightarrow> processo) \<Rightarrow> u32 \<Rightarrow> bool" where
  "elegivel m c \<longleftrightarrow> estado (m c) = PROC_READY \<and> 0 < creditos (m c)"

fun tentar :: "(u32 \<Rightarrow> processo) \<Rightarrow> u32 \<Rightarrow> u32 \<Rightarrow> u32 \<Rightarrow> nat \<Rightarrow> u32 option" where
  "tentar m f atual c 0 = None"
| "tentar m f atual c (Suc n) =
     (if c \<noteq> 0 \<and> c \<noteq> atual \<and> elegivel m c then Some c
      else let c = (if c \<noteq> 0 then p_proximo (m c) else c); c = (if c = 0 then f else c)
           in tentar m f atual c n)"

partial_function (option) varrer :: "(u32 \<Rightarrow> processo) \<Rightarrow> u32 \<Rightarrow> u32 option" where
  "varrer m c = (if c = 0 then Some 0 else if elegivel m c then Some c else varrer m (p_proximo (m c)))"

definition escolher_proximo :: "u32 \<Rightarrow> sis_proc \<Rightarrow> (u32 \<times> sis_proc) option" where
  "escolher_proximo atual s =
     (let c = p_proximo (procs s atual); c = (if c = 0 then fila_pronto s else c) in
      case tentar (procs s) (fila_pronto s) atual c MAX_PROCESSOS of
        Some q \<Rightarrow> Some (q, s)
      | None \<Rightarrow>
          (case recalcular_creditos s of None \<Rightarrow> None
           | Some s \<Rightarrow> map_option (\<lambda>q. (q, s)) (varrer (procs s) (fila_pronto s))))"

definition sched_tick :: "u32 \<Rightarrow> sis_proc \<Rightarrow> (u32 \<times> sis_proc) option" where
  "sched_tick esp s =
     (let s = s\<lparr>ticks := ticks s + 1\<rparr>; atual = proc_atual_ptr s in
      if atual = 0 then Some (esp, s)
      else
        let s = mudar atual (\<lambda>x. x\<lparr>ctx := (ctx x)\<lparr>c_esp := esp\<rparr>\<rparr>) s;
            s = (if 0 < creditos_atuais s then s\<lparr>creditos_atuais := creditos_atuais s - 1\<rparr> else s)
        in if 0 < creditos_atuais s then Some (esp, s)
           else case escolher_proximo atual s of None \<Rightarrow> None
           | Some (proximo, s) \<Rightarrow>
               if proximo = 0 then Some (esp, s)
               else
                 let s = (if estado (procs s atual) = PROC_RUNNING
                          then mudar atual (\<lambda>x. x\<lparr>estado := PROC_READY\<rparr>) s else s);
                     s = mudar proximo (\<lambda>x. x\<lparr>estado := PROC_RUNNING\<rparr>) s;
                     s = s\<lparr>creditos_atuais := ucast (creditos (procs s proximo))\<rparr>;
                     s = proc_set_atual proximo s
                 in Some (c_esp (ctx (procs s proximo)), s))"

definition sched_init :: "sis_proc \<Rightarrow> sis_proc option" where
  "sched_init s =
     (case recalcular_creditos s of None \<Rightarrow> None
      | Some s \<Rightarrow>
          let p = proc_atual_ptr s in
          Some (if p \<noteq> 0 then s\<lparr>creditos_atuais := ucast (credito_de (prioridade (procs s p)))\<rparr> else s))"

section \<open>The queue\<close>

definition fila :: "sis_proc \<Rightarrow> u32 list \<Rightarrow> bool" where
  "fila s xs \<longleftrightarrow> cadeia (\<lambda>p. p_proximo (procs s p)) (fila_pronto s) xs \<and> distinct xs"

lemma cadeia_nth:
  "cadeia nx p xs \<Longrightarrow> i < length xs \<Longrightarrow>
   nx (xs ! i) = (if Suc i < length xs then xs ! Suc i else 0) \<and> xs ! i \<noteq> 0"
proof (induction xs arbitrary: p i)
  case (Cons x xs)
  show ?case
  proof (cases i)
    case 0
    with Cons.prems show ?thesis by (cases xs) auto
  next
    case (Suc j)
    with Cons.prems Cons.IH [of "nx x" j] show ?thesis by auto
  qed
qed simp

lemma cadeia_hd: "cadeia nx p xs \<Longrightarrow> p = (if xs = [] then 0 else xs ! 0)"
  by (cases xs) auto

lemma ultimo_fim:
  "cadeia (\<lambda>p. p_proximo (m p)) u xs \<Longrightarrow> xs \<noteq> [] \<Longrightarrow> ultimo_da_fila m u = Some (last xs)"
proof (induction xs arbitrary: u)
  case (Cons x xs)
  then show ?case by (cases xs) (subst ultimo_da_fila.simps, auto)+
qed simp

lemma cadeia_snoc:
  "cadeia nx u xs \<Longrightarrow> distinct xs \<Longrightarrow> xs \<noteq> [] \<Longrightarrow> p \<notin> set xs \<Longrightarrow> p \<noteq> 0 \<Longrightarrow> nx p = 0 \<Longrightarrow>
   cadeia (nx(last xs := p)) u (xs @ [p])"
proof (induction xs arbitrary: u)
  case (Cons x xs)
  show ?case
  proof (cases xs)
    case Nil
    with Cons.prems show ?thesis by auto
  next
    case (Cons y ys)
    then have l: "last (x # xs) = last xs" "last xs \<in> set xs" by auto
    have "cadeia (nx(last xs := p)) (nx x) (xs @ [p])"
      using Cons.IH [of "nx x"] Cons.prems Cons by (auto simp del: fun_upd_apply)
    moreover have "x \<noteq> last xs" using l Cons.prems by auto
    ultimately show ?thesis using l Cons.prems by (simp add: fun_upd_other del: fun_upd_apply)
  qed
qed simp

lemma fila_adicionar_ok:
  assumes "fila s xs" "p \<notin> set xs" "p \<noteq> 0"
  shows "\<exists>s'. fila_adicionar p s = Some s' \<and> fila s' (xs @ [p]) \<and>
    s' = s\<lparr>procs := procs s', fila_pronto := fila_pronto s'\<rparr> \<and>
    (\<forall>q. procs s' q = (procs s q)\<lparr>p_proximo := p_proximo (procs s' q)\<rparr>)"
proof (cases "xs = []")
  case True
  with assms show ?thesis by (auto simp: fila_def fila_adicionar_def Let_def)
next
  case False
  let ?s = "mudar p (\<lambda>x. x\<lparr>p_proximo := 0\<rparr>) s"
  have c: "cadeia (\<lambda>q. p_proximo (procs ?s q)) (fila_pronto s) xs"
    using assms by (subst cadeia_agree [where nx = "\<lambda>p. p_proximo (procs s p)"]) (auto simp: fila_def)
  have f: "fila_pronto s \<noteq> 0" using assms(1) False by (cases xs) (auto simp: fila_def)
  let ?u = "last xs"
  have u: "?u \<in> set xs" "?u \<noteq> p" using False assms(2) by auto
  let ?s' = "mudar ?u (\<lambda>x. x\<lparr>p_proximo := p\<rparr>) ?s"
  have uu: "ultimo_da_fila (procs ?s) (fila_pronto ?s) = Some ?u"
    by (rule ultimo_fim) (use c False in simp_all)
  have e: "fila_adicionar p s = Some ?s'"
    unfolding fila_adicionar_def Let_def uu using f by simp
  have nx: "(\<lambda>q. p_proximo (procs ?s' q)) = (\<lambda>q. p_proximo (procs ?s q))(?u := p)" by auto
  have "fila ?s' (xs @ [p])"
    unfolding fila_def nx using cadeia_snoc [OF c _ False assms(2,3)] assms(1,2) by (simp add: fila_def)
  with e show ?thesis by auto
qed


section \<open>What the scheduler chooses\<close>

lemma tentar_find:
  assumes "cadeia (\<lambda>p. p_proximo (m p)) f xs" "xs \<noteq> []" "i < length xs"
  shows "tentar m f a (xs ! i) n =
    find (\<lambda>c. c \<noteq> a \<and> elegivel m c) (map (\<lambda>j. xs ! ((i + j) mod length xs)) [0..<n])"
  using assms(3)
proof (induction n arbitrary: i)
  case (Suc n)
  have nz: "xs ! i \<noteq> 0" and nx: "p_proximo (m (xs ! i)) = (if Suc i < length xs then xs ! Suc i else 0)"
    using cadeia_nth [OF assms(1) Suc.prems] by auto
  have f: "f = xs ! 0" using cadeia_hd [OF assms(1)] assms(2) by simp
  have nz': "Suc i < length xs \<Longrightarrow> xs ! Suc i \<noteq> 0" using cadeia_nth [OF assms(1), of "Suc i"] by simp
  let ?k = "Suc i mod length xs"
  have k: "?k < length xs" using assms(2) by simp
  have seg: "(let c = (if xs ! i \<noteq> 0 then p_proximo (m (xs ! i)) else xs ! i); c = (if c = 0 then f else c)
      in tentar m f a c n) = tentar m f a (xs ! ?k) n"
    using Suc.prems nz nx nz' f by (cases "Suc i < length xs") (auto simp: Let_def not_less le_Suc_eq)
  have "map (\<lambda>j. xs ! ((i + j) mod length xs)) [0..<Suc n] =
      xs ! i # map (\<lambda>j. xs ! ((?k + j) mod length xs)) [0..<n]"
    using Suc.prems by (simp add: upt_conv_Cons map_Suc_upt [symmetric] del: upt_Suc) (simp add: mod_simps)
  then show ?case
    unfolding tentar.simps seg using Suc.IH [OF k] nz by simp
qed simp

text \<open>The neighbours of \<open>atual\<close> in cyclic order, starting with the one after it.\<close>

definition vez :: "u32 list \<Rightarrow> nat \<Rightarrow> nat \<Rightarrow> u32" where
  "vez xs i j = xs ! ((Suc i + j) mod length xs)"

lemma escolher_inicio:
  assumes "fila s xs" "i < length xs"
  shows "(let c = p_proximo (procs s (xs ! i)) in if c = 0 then fila_pronto s else c) = vez xs i 0"
proof -
  have c: "cadeia (\<lambda>p. p_proximo (procs s p)) (fila_pronto s) xs" using assms(1) by (simp add: fila_def)
  have f: "fila_pronto s = xs ! 0" using cadeia_hd [OF c] assms(2) by auto
  show ?thesis
    using cadeia_nth [OF c assms(2)] cadeia_nth [OF c, of "Suc i"] assms(2) f
    by (cases "Suc i < length xs") (auto simp: vez_def Let_def not_less le_Suc_eq)
qed

lemma tentar_vez:
  assumes "fila s xs" "i < length xs"
  shows "tentar (procs s) (fila_pronto s) (xs ! i) (vez xs i 0) n =
    find (\<lambda>c. c \<noteq> xs ! i \<and> elegivel (procs s) c) (map (vez xs i) [0..<n])"
proof -
  have "xs \<noteq> []" using assms(2) by auto
  then have k: "Suc i mod length xs < length xs" by simp
  have c: "cadeia (\<lambda>p. p_proximo (procs s p)) (fila_pronto s) xs" using assms(1) by (simp add: fila_def)
  show ?thesis
    using tentar_find [OF c \<open>xs \<noteq> []\<close> k, of "xs ! i" n] by (simp add: vez_def mod_simps cong: map_cong)
qed

definition renovar :: "(u32 \<Rightarrow> processo) \<Rightarrow> u32 set \<Rightarrow> u32 \<Rightarrow> processo" where
  "renovar m S q = (if q \<in> S \<and> (estado (m q) = PROC_READY \<or> estado (m q) = PROC_RUNNING)
     then (m q)\<lparr>creditos := credito_de (prioridade (m q))\<rparr> else m q)"

lemma recalc_loop_ok:
  "cadeia (\<lambda>p. p_proximo (m p)) p xs \<Longrightarrow> distinct xs \<Longrightarrow> recalc_loop p m = Some (renovar m (set xs))"
proof (induction xs arbitrary: p m)
  case Nil
  then show ?case by (subst recalc_loop.simps) (auto simp: renovar_def)
next
  case (Cons x xs)
  define m1 where "m1 = (if estado (m x) = PROC_READY \<or> estado (m x) = PROC_RUNNING
      then m(x := (m x)\<lparr>creditos := credito_de (prioridade (m x))\<rparr>) else m)"
  have p: "p = x" "x \<noteq> 0" "cadeia (\<lambda>p. p_proximo (m p)) (p_proximo (m x)) xs" "distinct xs" "x \<notin> set xs"
    using Cons.prems by auto
  have "cadeia (\<lambda>p. p_proximo (m1 p)) (p_proximo (m x)) xs"
    using p(3,5) by (subst cadeia_agree [where nx = "\<lambda>p. p_proximo (m p)"]) (auto simp: m1_def)
  from Cons.IH [OF this p(4)]
  have "recalc_loop p m = Some (renovar m1 (set xs))"
    using p(1,2) by (subst recalc_loop.simps) (auto simp: m1_def split: if_splits)
  moreover have "renovar m1 (set xs) = renovar m (set (x # xs))"
    using p(5) by (auto simp: renovar_def m1_def fun_eq_iff)
  ultimately show ?case by simp
qed

lemma varrer_ok:
  "cadeia (\<lambda>p. p_proximo (m p)) p xs \<Longrightarrow>
   varrer m p = Some (case find (elegivel m) xs of None \<Rightarrow> 0 | Some q \<Rightarrow> q)"
  by (induction xs arbitrary: p) (subst varrer.simps, auto)+

definition recalculado :: "sis_proc \<Rightarrow> u32 list \<Rightarrow> sis_proc" where
  "recalculado s xs = s\<lparr>procs := renovar (procs s) (set xs)\<rparr>"

lemma recalcular_ok: "fila s xs \<Longrightarrow> recalcular_creditos s = Some (recalculado s xs) \<and> fila (recalculado s xs) xs"
proof
  assume f: "fila s xs"
  then show "recalcular_creditos s = Some (recalculado s xs)"
    unfolding recalcular_creditos_def fila_def
    by (simp add: recalc_loop_ok [of "procs s" _ xs] recalculado_def)
  have "(\<lambda>p. p_proximo (procs (recalculado s xs) p)) = (\<lambda>p. p_proximo (procs s p))"
    by (auto simp: recalculado_def renovar_def)
  with f show "fila (recalculado s xs) xs" by (simp add: fila_def) (simp add: recalculado_def)
qed

lemma elegivel_recalc:
  "q \<in> set xs \<Longrightarrow> elegivel (procs (recalculado s xs)) q \<longleftrightarrow> estado (procs s q) = PROC_READY"
  by (auto simp: elegivel_def recalculado_def renovar_def credito_de_def word_less_nat_alt)

text \<open>The whole choice: the first eligible process among the sixteen places after \<open>atual\<close>, otherwise,
  with the credits renewed, the first ready process of the queue, otherwise none.\<close>

lemma find_cong': "(\<And>x. x \<in> set xs \<Longrightarrow> P x = Q x) \<Longrightarrow> find P xs = find Q xs"
  by (induction xs) auto

lemma escolher_ok:
  assumes "fila s xs" "i < length xs"
  shows "escolher_proximo (xs ! i) s =
    (case find (\<lambda>c. c \<noteq> xs ! i \<and> elegivel (procs s) c) (map (vez xs i) [0..<MAX_PROCESSOS]) of
       Some q \<Rightarrow> Some (q, s)
     | None \<Rightarrow> Some (case find (\<lambda>c. estado (procs s c) = PROC_READY) xs of None \<Rightarrow> 0 | Some q \<Rightarrow> q,
                      recalculado s xs))"
proof -
  note r = recalcular_ok [OF assms(1)]
  then have c: "cadeia (\<lambda>p. p_proximo (procs (recalculado s xs) p)) (fila_pronto (recalculado s xs)) xs"
    by (simp add: fila_def)
  have "find (elegivel (procs (recalculado s xs))) xs = find (\<lambda>c. estado (procs s c) = PROC_READY) xs"
    by (rule find_cong') (simp add: elegivel_recalc)
  then show ?thesis
    using tentar_vez [OF assms, of MAX_PROCESSOS] escolher_inicio [OF assms] varrer_ok [OF c] r
    by (simp add: escolher_proximo_def Let_def split: option.split)
qed


section \<open>A tick\<close>

definition salvar :: "u32 \<Rightarrow> sis_proc \<Rightarrow> sis_proc" where
  "salvar esp s = s\<lparr>ticks := ticks s + 1,
     procs := (procs s)(proc_atual_ptr s := (procs s (proc_atual_ptr s))
        \<lparr>ctx := (ctx (procs s (proc_atual_ptr s)))\<lparr>c_esp := esp\<rparr>\<rparr>),
     creditos_atuais := (if 0 < creditos_atuais s then creditos_atuais s - 1 else creditos_atuais s)\<rparr>"

definition trocar :: "u32 \<Rightarrow> u32 \<Rightarrow> sis_proc \<Rightarrow> sis_proc" where
  "trocar a q s =
     (let m = (if estado (procs s a) = PROC_RUNNING then (procs s)(a := (procs s a)\<lparr>estado := PROC_READY\<rparr>) else procs s)
      in s\<lparr>procs := m(q := (m q)\<lparr>estado := PROC_RUNNING\<rparr>),
           creditos_atuais := ucast (creditos (m q)), proc_atual_ptr := q\<rparr>)"

lemma sched_tick_alt:
  "proc_atual_ptr s \<noteq> 0 \<Longrightarrow> sched_tick esp s =
     (if 0 < creditos_atuais (salvar esp s) then Some (esp, salvar esp s)
      else case escolher_proximo (proc_atual_ptr s) (salvar esp s) of None \<Rightarrow> None
        | Some (q, t) \<Rightarrow> if q = 0 then Some (esp, t)
            else Some (c_esp (ctx (procs (trocar (proc_atual_ptr s) q t) q)), trocar (proc_atual_ptr s) q t))"
  by (auto simp: sched_tick_def salvar_def trocar_def proc_set_atual_def Let_def split: option.split prod.split)

lemma salvar_campos [simp]:
  "proc_atual_ptr (salvar esp s) = proc_atual_ptr s" "fila_pronto (salvar esp s) = fila_pronto s"
  "estado (procs (salvar esp s) q) = estado (procs s q)" "creditos (procs (salvar esp s) q) = creditos (procs s q)"
  "p_proximo (procs (salvar esp s) q) = p_proximo (procs s q)" "prioridade (procs (salvar esp s) q) = prioridade (procs s q)"
  "c_esp (ctx (procs (salvar esp s) q)) = (if q = proc_atual_ptr s then esp else c_esp (ctx (procs s q)))"
  by (simp_all add: salvar_def)

lemma salvar_fila [simp]: "fila (salvar esp s) xs = fila s xs" "elegivel (procs (salvar esp s)) = elegivel (procs s)"
  by (simp_all add: fila_def elegivel_def fun_eq_iff)

lemma recalc_campos [simp]:
  "proc_atual_ptr (recalculado s xs) = proc_atual_ptr s" "fila_pronto (recalculado s xs) = fila_pronto s"
  "estado (procs (recalculado s xs) q) = estado (procs s q)" "ctx (procs (recalculado s xs) q) = ctx (procs s q)"
  "p_proximo (procs (recalculado s xs) q) = p_proximo (procs s q)" "creditos_atuais (recalculado s xs) = creditos_atuais s"
  by (auto simp: recalculado_def renovar_def)

lemma trocar_campos [simp]:
  "proc_atual_ptr (trocar a q s) = q" "fila_pronto (trocar a q s) = fila_pronto s"
  "estado (procs (trocar a q s) x) = (if x = q then PROC_RUNNING
     else if x = a \<and> estado (procs s a) = PROC_RUNNING then PROC_READY else estado (procs s x))"
  "ctx (procs (trocar a q s) x) = ctx (procs s x)" "creditos (procs (trocar a q s) x) = creditos (procs s x)"
  "p_proximo (procs (trocar a q s) x) = p_proximo (procs s x)"
  "creditos_atuais (trocar a q s) = ucast (creditos (procs s q))"
  by (auto simp: trocar_def Let_def)

lemma fila_campos:
  "fila_pronto t = fila_pronto s \<Longrightarrow> (\<And>q. p_proximo (procs t q) = p_proximo (procs s q)) \<Longrightarrow> fila t xs = fila s xs"
  by (simp add: fila_def)

lemma fila_agree:
  "fila_pronto t = fila_pronto s \<Longrightarrow> (\<And>q. q \<in> set xs \<Longrightarrow> p_proximo (procs t q) = p_proximo (procs s q)) \<Longrightarrow>
   fila t xs = fila s xs"
  unfolding fila_def by (simp add: cadeia_agree [of xs "\<lambda>q. p_proximo (procs t q)" "\<lambda>q. p_proximo (procs s q)"])

lemma vez_set: "xs \<noteq> [] \<Longrightarrow> vez xs i j \<in> set xs"
  by (simp add: vez_def)

text \<open>The queue is intact, the running process is in it, and no other process is running.\<close>

definition sched_inv :: "sis_proc \<Rightarrow> u32 list \<Rightarrow> bool" where
  "sched_inv s xs \<longleftrightarrow> fila s xs \<and> proc_atual_ptr s \<in> set xs \<and>
     (\<forall>p \<in> set xs. estado (procs s p) = PROC_RUNNING \<longrightarrow> p = proc_atual_ptr s)"

lemma tick_seguro:
  assumes "sched_inv s xs"
  shows "\<exists>e s'. sched_tick esp s = Some (e, s') \<and> sched_inv s' xs \<and>
    e = c_esp (ctx (procs s' (proc_atual_ptr s'))) \<and>
    (\<forall>q. c_esp (ctx (procs s' q)) = (if q = proc_atual_ptr s then esp else c_esp (ctx (procs s q)))) \<and>
    (proc_atual_ptr s' \<noteq> proc_atual_ptr s \<longrightarrow>
       estado (procs s (proc_atual_ptr s')) = PROC_READY \<and> estado (procs s' (proc_atual_ptr s')) = PROC_RUNNING)"
proof -
  have f: "fila s xs" and un: "\<And>p. p \<in> set xs \<Longrightarrow> estado (procs s p) = PROC_RUNNING \<Longrightarrow> p = proc_atual_ptr s"
    using assms by (auto simp: sched_inv_def)
  obtain i where i: "i < length xs" "proc_atual_ptr s = xs ! i"
    using assms by (auto simp: sched_inv_def in_set_conv_nth)
  have nz: "q \<in> set xs \<Longrightarrow> q \<noteq> 0" for q
    using f cadeia_nth by (fastforce simp: fila_def in_set_conv_nth)
  then have a0: "proc_atual_ptr s \<noteq> 0" using assms by (auto simp: sched_inv_def)
  let ?s = "salvar esp s" and ?a = "proc_atual_ptr s"
  have troca: ?thesis if q: "q \<in> set xs" "estado (procs s q) = PROC_READY"
    and r: "sched_tick esp s = Some (c_esp (ctx (procs (trocar ?a q t) q)), trocar ?a q t)"
    and t: "t = ?s \<or> t = recalculado ?s xs" for q t
  proof -
    have tf: "fila_pronto t = fila_pronto s" "\<And>x. p_proximo (procs t x) = p_proximo (procs s x)"
      "\<And>x. estado (procs t x) = estado (procs s x)"
      "\<And>x. c_esp (ctx (procs t x)) = (if x = ?a then esp else c_esp (ctx (procs s x)))"
      using t by auto
    have "fila (trocar ?a q t) xs" using f fila_campos [of "trocar ?a q t" s xs] tf(1,2) by simp
    moreover have "x = q" if "x \<in> set xs" "estado (procs (trocar ?a q t) x) = PROC_RUNNING" for x
    proof (rule ccontr)
      assume n: "x \<noteq> q"
      have rr: "PROC_READY \<noteq> PROC_RUNNING" by (simp add: PROC_READY_def PROC_RUNNING_def)
      have v: "estado (procs (trocar ?a q t) x) =
          (if x = ?a \<and> estado (procs s ?a) = PROC_RUNNING then PROC_READY else estado (procs s x))"
        using n by (simp add: tf(3))
      show False
      proof (cases "estado (procs s x) = PROC_RUNNING")
        case True
        from un [OF that(1) True] True v rr that(2) show False by simp
      qed (use v rr that(2) in \<open>simp split: if_splits\<close>)
    qed
    ultimately have "sched_inv (trocar ?a q t) xs"
      unfolding sched_inv_def trocar_campos(1) using q(1) by blast
    then show ?thesis
      by (intro exI [of _ "c_esp (ctx (procs (trocar ?a q t) q))"] exI [of _ "trocar ?a q t"])
         (simp add: r tf q)
  qed
  show ?thesis
  proof (cases "0 < creditos_atuais ?s")
    case True
    then show ?thesis using a0 assms by (simp add: sched_tick_alt sched_inv_def)
  next
    case c: False
    note e = escolher_ok [of ?s xs i, unfolded salvar_fila, OF f i(1)]
    show ?thesis
    proof (cases "find (\<lambda>c. c \<noteq> xs ! i \<and> elegivel (procs s) c) (map (vez xs i) [0..<MAX_PROCESSOS])")
      case (Some q)
      then have "q \<in> set (map (vez xs i) [0..<MAX_PROCESSOS])" "elegivel (procs s) q"
        by (auto simp: find_Some_iff in_set_conv_nth)
      moreover have "xs \<noteq> []" using i by auto
      ultimately have q: "q \<in> set xs" "estado (procs s q) = PROC_READY"
        using vez_set by (auto simp: elegivel_def)
      show ?thesis
        by (rule troca [OF q, of ?s]) (use a0 c e i(2) Some nz [OF q(1)] in \<open>simp_all add: sched_tick_alt\<close>)
    next
      case none: None
      show ?thesis
      proof (cases "find (\<lambda>c. estado (procs s c) = PROC_READY) xs")
        case None
        then have "sched_tick esp s = Some (esp, recalculado ?s xs)"
          using a0 c e i(2) none by (simp add: sched_tick_alt)
        moreover have "fila (recalculado ?s xs) xs" using f fila_campos [of "recalculado ?s xs" s xs] by simp
        ultimately show ?thesis using assms by (simp add: sched_inv_def)
      next
        case (Some q)
        then have q: "q \<in> set xs" "estado (procs s q) = PROC_READY" by (auto simp: find_Some_iff)
        show ?thesis
          by (rule troca [OF q, of "recalculado ?s xs"])
             (use a0 c e i(2) none Some nz [OF q(1)] in \<open>simp_all add: sched_tick_alt\<close>)
      qed
    qed
  qed
qed


section \<open>Runs of ticks: fairness and starvation\<close>

fun rodar :: "(nat \<Rightarrow> u32) \<Rightarrow> nat \<Rightarrow> sis_proc \<Rightarrow> sis_proc option" where
  "rodar es 0 s = Some s"
| "rodar es (Suc n) s = (case sched_tick (es 0) s of None \<Rightarrow> None | Some (e, s') \<Rightarrow> rodar (\<lambda>k. es (Suc k)) n s')"

lemma salvar_creditos:
  "creditos_atuais (salvar esp s) = (if 0 < creditos_atuais s then creditos_atuais s - 1 else creditos_atuais s)"
  by (simp add: salvar_def)

text \<open>What a tick does when some process after the current one can be chosen without renewing credits.\<close>

lemma tick_vez:
  assumes "sched_inv s xs" "i < length xs" "proc_atual_ptr s = xs ! i"
    "d < MAX_PROCESSOS" "vez xs i d \<noteq> xs ! i" "elegivel (procs s) (vez xs i d)" "\<not> 0 < creditos_atuais (salvar esp s)"
  shows "\<exists>j \<le> d. vez xs i j \<noteq> xs ! i \<and> elegivel (procs s) (vez xs i j) \<and>
    sched_tick esp s = Some (c_esp (ctx (procs (trocar (xs ! i) (vez xs i j) (salvar esp s)) (vez xs i j))),
      trocar (xs ! i) (vez xs i j) (salvar esp s))"
proof -
  let ?P = "\<lambda>c. c \<noteq> xs ! i \<and> elegivel (procs s) c" and ?ys = "map (vez xs i) [0..<MAX_PROCESSOS]"
  have f: "fila s xs" using assms(1) by (simp add: sched_inv_def)
  have nz: "q \<in> set xs \<Longrightarrow> q \<noteq> 0" for q
    using f cadeia_nth by (fastforce simp: fila_def in_set_conv_nth)
  have ne: "xs \<noteq> []" using assms(2) by auto
  have "find ?P ?ys \<noteq> None" using assms(4-6) by (auto simp: find_None_iff)
  then obtain x where x: "find ?P ?ys = Some x" by auto
  then obtain j where j: "j < MAX_PROCESSOS" "?P (vez xs i j)" "x = vez xs i j" "\<forall>k < j. \<not> ?P (vez xs i k)"
    by (auto simp: find_Some_iff)
  have "j \<le> d" using j(4) assms(5,6) by (meson not_le)
  moreover have "sched_tick esp s = Some (c_esp (ctx (procs (trocar (xs ! i) x (salvar esp s)) x)),
      trocar (xs ! i) x (salvar esp s))"
    using escolher_ok [of "salvar esp s" xs i] f assms(2,3,7) x nz [OF vez_set [OF ne]] nz [of "xs ! i"] j(3)
    by (simp add: sched_tick_alt)
  ultimately show ?thesis using j by auto
qed

lemma vez_vez:
  "j < d \<Longrightarrow> xs \<noteq> [] \<Longrightarrow> vez xs ((Suc i + j) mod length xs) (d - Suc j) = vez xs i d"
proof -
  assume "j < d" "xs \<noteq> []"
  then have "Suc (Suc i + j) + (d - Suc j) = Suc i + d" by simp
  then show ?thesis unfolding vez_def by (metis mod_Suc_eq mod_add_left_eq)
qed

definition pode :: "sis_proc \<Rightarrow> u32 list \<Rightarrow> bool" where
  "pode s xs \<longleftrightarrow> sched_inv s xs \<and> length xs \<le> MAX_PROCESSOS \<and> creditos_atuais s \<le> 3 \<and>
     (\<forall>q \<in> set xs. creditos (procs s q) \<le> 3)"

lemma passo_justo:
  assumes "pode s xs" "i < length xs" "proc_atual_ptr s = xs ! i" "d < length xs"
    "vez xs i d = p" "p \<noteq> xs ! i" "elegivel (procs s) p"
  shows "\<exists>e s'. sched_tick esp s = Some (e, s') \<and> (proc_atual_ptr s' = p \<or>
     (\<exists>i' d'. pode s' xs \<and> i' < length xs \<and> proc_atual_ptr s' = xs ! i' \<and> d' < length xs \<and> vez xs i' d' = p \<and>
        p \<noteq> xs ! i' \<and> elegivel (procs s') p \<and>
        4 * d' + unat (creditos_atuais s') < 4 * d + unat (creditos_atuais s)))"
proof (cases "0 < creditos_atuais (salvar esp s)")
  case True
  have a0: "proc_atual_ptr s \<noteq> 0"
    using assms(1-3) cadeia_nth [of _ _ xs i] by (auto simp: pode_def sched_inv_def fila_def)
  have c: "creditos_atuais (salvar esp s) = creditos_atuais s - 1" "creditos_atuais s \<noteq> 0"
    using True by (auto simp: salvar_creditos split: if_splits)
  have cl: "unat (creditos_atuais (salvar esp s)) < unat (creditos_atuais s)"
    "creditos_atuais (salvar esp s) \<le> 3"
  proof -
    have u: "unat (creditos_atuais s - 1) = unat (creditos_atuais s) - 1" "0 < unat (creditos_atuais s)"
      using c(2) by (simp_all add: unat_minus_one unat_gt_0)
    then show "unat (creditos_atuais (salvar esp s)) < unat (creditos_atuais s)"
      "creditos_atuais (salvar esp s) \<le> 3"
      using c(1) assms(1) by (auto simp: pode_def word_le_nat_alt)
  qed
  have "sched_tick esp s = Some (esp, salvar esp s)" using True a0 by (simp add: sched_tick_alt)
  moreover have "pode (salvar esp s) xs"
    using assms(1) cl(2) by (simp add: pode_def sched_inv_def)
  ultimately show ?thesis using assms cl(1)
    by (intro exI conjI) (assumption, intro disjI2 exI [of _ i] exI [of _ d], simp)
next
  case False
  have inv: "sched_inv s xs" and d16: "d < MAX_PROCESSOS" using assms(1,4) by (auto simp: pode_def)
  have ne: "xs \<noteq> []" using assms(2) by auto
  let ?n = "length xs"
  from tick_vez [OF inv assms(2,3) d16, unfolded assms(5), OF assms(6,7) False]
  obtain j where j: "j \<le> d" "vez xs i j \<noteq> xs ! i" "elegivel (procs s) (vez xs i j)"
    "sched_tick esp s = Some (c_esp (ctx (procs (trocar (xs ! i) (vez xs i j) (salvar esp s)) (vez xs i j))),
      trocar (xs ! i) (vez xs i j) (salvar esp s))" by blast
  let ?q = "vez xs i j" and ?i' = "(Suc i + j) mod ?n"
  let ?s' = "trocar (xs ! i) ?q (salvar esp s)"
  show ?thesis
  proof (cases "?q = p")
    case True
    with j(4) show ?thesis by auto
  next
    case nq: False
    then have jd: "j < d" using j(1) assms(5) by (cases "j = d") auto
    from tick_seguro [OF inv, of esp] j(4) have inv': "sched_inv ?s' xs" by auto
    have qi: "?q = xs ! ?i'" "?i' < ?n" using ne by (simp_all add: vez_def)
    have qx: "?q \<in> set xs" using vez_set [OF ne] .
    have cq: "creditos (procs s ?q) \<le> 3" using assms(1) qx by (simp add: pode_def)
    have uc: "unat (creditos_atuais ?s') \<le> 3" using cq by (simp add: word_le_nat_alt)
    have "pode ?s' xs" using inv' assms(1) uc by (simp add: pode_def word_le_nat_alt)
    moreover have "elegivel (procs ?s') p"
      using assms(6,7) nq by (simp add: elegivel_def)
    moreover have "vez xs ?i' (d - Suc j) = p" using vez_vez [OF jd ne] assms(5) by simp
    moreover have "4 * (d - Suc j) + unat (creditos_atuais ?s') < 4 * d + unat (creditos_atuais s)"
      using uc jd by linarith
    ultimately show ?thesis
      using j(4) nq qi assms(4) jd by (intro exI conjI) (assumption, intro disjI2 exI [of _ ?i'] exI [of _ "d - Suc j"], simp)
  qed
qed

lemma rodar_justo:
  assumes "pode s xs" "i < length xs" "proc_atual_ptr s = xs ! i" "d < length xs"
    "vez xs i d = p" "p \<noteq> xs ! i" "elegivel (procs s) p" "4 * d + unat (creditos_atuais s) < k"
  shows "\<exists>n s'. n \<le> k \<and> rodar es n s = Some s' \<and> proc_atual_ptr s' = p"
  using assms
proof (induction k arbitrary: s i d es)
  case (Suc k)
  from passo_justo [OF Suc.prems(1-7), of "es 0"] obtain e s' where t: "sched_tick (es 0) s = Some (e, s')"
    "proc_atual_ptr s' = p \<or>
     (\<exists>i' d'. pode s' xs \<and> i' < length xs \<and> proc_atual_ptr s' = xs ! i' \<and> d' < length xs \<and> vez xs i' d' = p \<and>
        p \<noteq> xs ! i' \<and> elegivel (procs s') p \<and>
        4 * d' + unat (creditos_atuais s') < 4 * d + unat (creditos_atuais s))" by blast
  from t(2) show ?case
  proof (elim disjE exE conjE)
    assume "proc_atual_ptr s' = p"
    with t(1) show ?thesis by (intro exI [of _ 1] exI [of _ s']) simp
  next
    fix i' d' assume "pode s' xs" "i' < length xs" "proc_atual_ptr s' = xs ! i'" "d' < length xs" "vez xs i' d' = p"
        "p \<noteq> xs ! i'" "elegivel (procs s') p"
        "4 * d' + unat (creditos_atuais s') < 4 * d + unat (creditos_atuais s)"
    with Suc.IH [of s' i' d' "\<lambda>k. es (Suc k)"] Suc.prems(8) obtain n s'' where
      "n \<le> k" "rodar (\<lambda>k. es (Suc k)) n s' = Some s''" "proc_atual_ptr s'' = p" by auto
    with t(1) show ?thesis by (intro exI [of _ "Suc n"] exI [of _ s'']) simp
  qed
qed simp

lemma vez_alcanca:
  assumes "i < length xs" "p \<in> set xs" shows "\<exists>d < length xs. vez xs i d = p"
proof -
  obtain k where k: "k < length xs" "xs ! k = p" using assms(2) by (auto simp: in_set_conv_nth)
  let ?n = "length xs"
  let ?d = "(k + (?n - Suc i)) mod ?n"
  have "(Suc i + ?d) mod ?n = (Suc i + (k + (?n - Suc i))) mod ?n" by (rule mod_add_right_eq)
  also have "Suc i + (k + (?n - Suc i)) = k + ?n" using assms(1) by simp
  also have "(k + ?n) mod ?n = k" using k(1) by simp
  finally have "vez xs i ?d = p" using k(2) by (simp add: vez_def)
  moreover have "?d < ?n" using assms(1) by (intro mod_less_divisor) auto
  ultimately show ?thesis by blast
qed

text \<open>C10: no starvation with credits.  With at most sixteen processes and credits of at most three (the
  values the scheduler itself gives), a ready process with at least one credit gets the processor within
  64 ticks, whatever the others do and in whatever state they are.\<close>

theorem sched_justo:
  assumes "sched_inv s xs" "length xs \<le> MAX_PROCESSOS" "creditos_atuais s \<le> 3"
    "\<forall>q \<in> set xs. creditos (procs s q) \<le> 3" "p \<in> set xs" "elegivel (procs s) p" "p \<noteq> proc_atual_ptr s"
  shows "\<exists>n s'. n \<le> 64 \<and> rodar es n s = Some s' \<and> proc_atual_ptr s' = p"
proof -
  obtain i where i: "i < length xs" "proc_atual_ptr s = xs ! i"
    using assms(1) by (auto simp: sched_inv_def in_set_conv_nth)
  obtain d where d: "d < length xs" "vez xs i d = p" using vez_alcanca [OF i(1) assms(5)] by blast
  have "4 * d + unat (creditos_atuais s) < 64"
    using d(1) assms(2,3) by (simp add: MAX_PROCESSOS_def word_le_nat_alt)
  with rodar_justo [of s xs i d p 64 es] assms i d show ?thesis by (auto simp: pode_def)
qed

text \<open>starvation without them.  \<^verbatim>\<open>proc_criar\<close> never sets the credits of a new process.  If they happen
  to be zero, and two other processes are alive with credits, the new process never runs: as no tick
  decreases credits, some process always has some and they are never renewed.\<close>

theorem sched_fome:
  assumes "sched_inv s xs" "length xs \<le> MAX_PROCESSOS" "p \<noteq> proc_atual_ptr s" "creditos (procs s p) = 0"
    "q \<in> set xs" "r \<in> set xs" "q \<noteq> r" "0 < creditos (procs s q)" "0 < creditos (procs s r)"
    "estado (procs s q) = PROC_READY \<or> estado (procs s q) = PROC_RUNNING"
    "estado (procs s r) = PROC_READY \<or> estado (procs s r) = PROC_RUNNING"
    "rodar es n s = Some s'"
  shows "proc_atual_ptr s' \<noteq> p"
  using assms(1,3,4,8-12)
proof (induction n arbitrary: s es)
  case (Suc n)
  note inv = Suc.prems(1)
  obtain t e where t: "sched_tick (es 0) s = Some (e, t)" "rodar (\<lambda>k. es (Suc k)) n t = Some s'"
    using Suc.prems(8) by (auto split: option.splits)
  have inv': "sched_inv t xs" using tick_seguro [OF inv, of "es 0"] t(1) by auto
  have "proc_atual_ptr t \<noteq> p \<and> (\<forall>x. creditos (procs t x) = creditos (procs s x)) \<and>
    (\<forall>x. estado (procs s x) = PROC_READY \<or> estado (procs s x) = PROC_RUNNING \<longrightarrow>
         estado (procs t x) = PROC_READY \<or> estado (procs t x) = PROC_RUNNING)"
  proof (cases "0 < creditos_atuais (salvar (es 0) s)")
    case True
    have "proc_atual_ptr s \<noteq> 0"
      using inv cadeia_nth by (fastforce simp: sched_inv_def fila_def in_set_conv_nth)
    with True t(1) have "t = salvar (es 0) s" by (auto simp: sched_tick_alt)
    with Suc.prems show ?thesis by simp
  next
    case False
    obtain i where i: "i < length xs" "proc_atual_ptr s = xs ! i"
      using inv by (auto simp: sched_inv_def in_set_conv_nth)
    define x where "x = (if q = xs ! i then r else q)"
    have x: "x \<in> set xs" "x \<noteq> xs ! i" using assms(5-7) by (auto simp: x_def)
    moreover have "elegivel (procs s) x"
    proof -
      have c: "0 < creditos (procs s x)" "estado (procs s x) = PROC_READY \<or> estado (procs s x) = PROC_RUNNING"
        using Suc.prems(4-7) by (simp_all add: x_def)
      have "estado (procs s x) \<noteq> PROC_RUNNING" using inv x i(2) unfolding sched_inv_def by metis
      with c show ?thesis by (simp add: elegivel_def)
    qed
    moreover obtain d where d: "d < length xs" "vez xs i d = x" using vez_alcanca [OF i(1) x(1)] by blast
    ultimately obtain j where j: "elegivel (procs s) (vez xs i j)"
      "t = trocar (xs ! i) (vez xs i j) (salvar (es 0) s)"
      using tick_vez [OF inv i, of d "es 0"] False assms(2) t(1) by auto
    have "vez xs i j \<noteq> p" using j(1) Suc.prems(3) by (auto simp: elegivel_def)
    with j(2) show ?thesis by auto
  qed
  with Suc.IH [of t "\<lambda>k. es (Suc k)"] inv' Suc.prems t(2) show ?case by metis
qed simp


text \<open>C9: a tick always returns.  It saves the interrupted stack pointer in the current process, hands
  the processor to the current process again or to one that was ready in the queue, and returns the
  stack pointer that process was saved with; no other process's saved stack pointer changes, the queue
  stays the same, and at most one of its processes is running, the current one.\<close>

theorem sched_tick_seguro:
  assumes "sched_inv s xs"
  shows "\<exists>e s'. sched_tick esp s = Some (e, s') \<and> sched_inv s' xs \<and>
    e = c_esp (ctx (procs s' (proc_atual_ptr s'))) \<and>
    (\<forall>q. c_esp (ctx (procs s' q)) = (if q = proc_atual_ptr s then esp else c_esp (ctx (procs s q)))) \<and>
    (proc_atual_ptr s' \<noteq> proc_atual_ptr s \<longrightarrow>
       estado (procs s (proc_atual_ptr s')) = PROC_READY \<and> estado (procs s' (proc_atual_ptr s')) = PROC_RUNNING)"
  using assms by (rule tick_seguro)

definition proc_exemplo :: "u32 \<Rightarrow> u8 \<Rightarrow> u8 \<Rightarrow> u32 \<Rightarrow> processo" where
  "proc_exemplo k st cr prx = \<lparr>pid = k, estado = st, prioridade = 1, creditos = cr,
     p_id = \<lparr>id_hash = 1, id_pid = k, id_tick = 0\<rparr>,
     ctx = \<lparr>c_edi = 0, c_esi = 0, c_ebp = 0, c_esp_dummy = 0, c_ebs = 0, c_edx = 0, c_ecx = 0, c_eax = 0, c_eip = 0, c_esp = 0x9000 + k\<rparr>,
     page_dir = 0, p_stack = 0, stack_size = 0, nome = replicate 32 0, p_proximo = prx\<rparr>"

text \<open>The kernel running, a process with credits, and one without.\<close>

definition sched_exemplo :: sis_proc where
  "sched_exemplo = \<lparr>procs = (\<lambda>_. proc_exemplo 9 PROC_MORTO 0 0)
       (0x1000 := proc_exemplo 0 PROC_RUNNING 2 0x2000, 0x2000 := proc_exemplo 1 PROC_READY 2 0x3000,
        0x3000 := proc_exemplo 2 PROC_READY 0 0),
     ram = (\<lambda>_. 0), p_heap = kheap_init heap_exemplo, proc_atual_ptr = 0x1000, fila_pronto = 0x1000,
     prox_pid = 3, ticks = 0, creditos_atuais = 2\<rparr>"

lemma sched_exemplo_inv: "sched_inv sched_exemplo [0x1000, 0x2000, 0x3000]"
  by (simp add: sched_inv_def fila_def sched_exemplo_def proc_exemplo_def PROC_READY_def PROC_RUNNING_def)

theorem sched_tick_seguro_witness:
  "\<exists>e s'. sched_tick 0x8888 sched_exemplo = Some (e, s') \<and> sched_inv s' [0x1000, 0x2000, 0x3000] \<and>
     c_esp (ctx (procs s' 0x1000)) = 0x8888"
  using sched_tick_seguro [OF sched_exemplo_inv, of "0x8888"] by (auto simp: sched_exemplo_def)

theorem sched_justo_witness:
  "\<exists>n s'. n \<le> 64 \<and> rodar (\<lambda>_. 0) n sched_exemplo = Some s' \<and> proc_atual_ptr s' = 0x2000"
  by (rule sched_justo [OF sched_exemplo_inv])
     (simp_all add: sched_exemplo_def proc_exemplo_def MAX_PROCESSOS_def elegivel_def)

lemma rodar_total: "sched_inv s xs \<Longrightarrow> \<exists>s'. rodar es n s = Some s' \<and> sched_inv s' xs"
proof (induction n arbitrary: s es)
  case (Suc n)
  from tick_seguro [OF Suc.prems, of "es 0"] obtain e t where
    "sched_tick (es 0) s = Some (e, t)" "sched_inv t xs" by blast
  with Suc.IH [of t "\<lambda>k. es (Suc k)"] show ?case by simp
qed simp

lemma sched_exemplo2_inv: "sched_inv (sched_exemplo\<lparr>procs := (procs sched_exemplo)(0x4000 := proc_exemplo 3 PROC_READY 1 0, 0x3000 := proc_exemplo 2 PROC_READY 0 0x4000)\<rparr>)
    [0x1000, 0x2000, 0x3000, 0x4000]"
  by (simp add: sched_inv_def fila_def sched_exemplo_def proc_exemplo_def PROC_READY_def PROC_RUNNING_def)

theorem sched_fome_witness:
  "\<exists>s'. rodar (\<lambda>_. 0) 1000 (sched_exemplo\<lparr>procs := (procs sched_exemplo)(0x4000 := proc_exemplo 3 PROC_READY 1 0, 0x3000 := proc_exemplo 2 PROC_READY 0 0x4000)\<rparr>)
     = Some s' \<and> proc_atual_ptr s' \<noteq> 0x3000"
proof -
  let ?s = "sched_exemplo\<lparr>procs := (procs sched_exemplo)(0x4000 := proc_exemplo 3 PROC_READY 1 0, 0x3000 := proc_exemplo 2 PROC_READY 0 0x4000)\<rparr>"
  obtain s' where r: "rodar (\<lambda>_. 0) 1000 ?s = Some s'" using rodar_total [OF sched_exemplo2_inv] by blast
  have "proc_atual_ptr s' \<noteq> 0x3000"
    by (rule sched_fome [OF sched_exemplo2_inv, where q = "0x1000" and r = "0x2000" and es = "\<lambda>_. 0" and n = 1000])
       (use r in \<open>simp_all add: sched_exemplo_def proc_exemplo_def MAX_PROCESSOS_def del: rodar.simps\<close>)
  with r show ?thesis by blast
qed


section \<open>Stack memory\<close>

lemma escrever32_apply: "escrever32 a w m x = (if x - a < 4 then le32 w ! unat (x - a) else m x)"
proof -
  have "x - a < 4 \<longleftrightarrow> x = a \<or> x = a + 1 \<or> x = a + 2 \<or> x = a + 3"
  proof
    assume l: "x - a < 4"
    then have u: "unat (x - a) < 4" by (simp add: word_less_nat_alt)
    have e: "x - a = of_nat (unat (x - a))" by simp
    have "unat (x - a) = 0 \<or> unat (x - a) = 1 \<or> unat (x - a) = 2 \<or> unat (x - a) = 3" using u by linarith
    then have "x - a = 0 \<or> x - a = 1 \<or> x - a = 2 \<or> x - a = 3"
      by (elim disjE) (subst (asm) e [symmetric] | simp add: unat_eq_iff [symmetric])+
    then show "x = a \<or> x = a + 1 \<or> x = a + 2 \<or> x = a + 3" by (auto simp: diff_eq_eq add.commute)
  qed (auto simp: word_less_nat_alt)
  then show ?thesis by (auto simp: escrever32_def)
qed

lemma ler_escrever_mesmo [simp]: "ler32 (escrever32 a w m) a = w"
proof -
  have "[le32 w ! 0, le32 w ! 1, le32 w ! 2, le32 w ! 3] = le32 w"
    by (simp add: le32_def numeral_2_eq_2 numeral_3_eq_3)
  then show ?thesis by (simp add: ler32_def escrever32_apply del: One_nat_def)
qed

lemma ler_escrever_outro:
  "4 \<le> b - a \<Longrightarrow> b - a \<le> - 4 \<Longrightarrow> ler32 (escrever32 a w m) b = ler32 m b"
proof -
  assume h: "4 \<le> b - a" "b - a \<le> - 4"
  have "\<not> b + k - a < 4" if "k \<in> {0, 1, 2, 3}" for k
  proof -
    let ?d = "b - a"
    have u: "4 \<le> unat ?d" "unat ?d \<le> 4294967292" using h by (simp_all add: word_le_nat_alt)
    have "unat k \<le> 3" using that by auto
    then have "unat (?d + k) = unat ?d + unat k" using u by (intro unat_add_lem [THEN iffD1]) simp
    moreover have "b + k - a = ?d + k" by simp
    ultimately show ?thesis using u by (simp only: word_less_nat_alt) simp
  qed
  from this [of 0] this [of 1] this [of 2] this [of 3] show ?thesis
    by (simp add: ler32_def escrever32_apply)
qed

lemma ler_escrever_soma [simp]:
  "4 \<le> j - k \<Longrightarrow> j - k \<le> - 4 \<Longrightarrow> ler32 (escrever32 (s + k) w m) (s + j) = ler32 m (s + j)"
  "4 \<le> j \<Longrightarrow> j \<le> - 4 \<Longrightarrow> ler32 (escrever32 s w m) (s + j) = ler32 m (s + j)"
  by (rule ler_escrever_outro; simp)+

lemma quadro_inicial_forma:
  "quadro_inicial stack e m = (stack + 16340,
     fold (\<lambda>(k, w) m. escrever32 (stack + 16340 + k) w m)
       [(40, 0x202), (36, 8), (32, e), (28, 0), (24, 0), (20, 0), (16, 0), (12, 0), (8, 0), (4, 0), (0, 0)] m)"
  by (simp add: quadro_inicial_def empilhar_def STACK_SIZE_def Let_def add.commute)

definition pilha_inicial :: "(u32 \<Rightarrow> u8) \<Rightarrow> u32 \<Rightarrow> u32 \<Rightarrow> bool" where
  "pilha_inicial m esp e \<longleftrightarrow> (\<forall>k \<in> {0, 4, 8, 12, 16, 20, 24, 28}. ler32 m (esp + k) = 0) \<and>
     ler32 m (esp + 32) = e \<and> ler32 m (esp + 36) = 0x08 \<and> ler32 m (esp + 40) = 0x202"

lemma quadro_inicial_ok:
  assumes "quadro_inicial stack e m = (topo, m')"
  shows "topo = stack + 16340" "pilha_inicial m' topo e" "16384 \<le> x - stack \<Longrightarrow> m' x = m x"
proof -
  note f = assms [unfolded quadro_inicial_forma]
  from f show t: "topo = stack + 16340" by simp
  from f have m': "m' = fold (\<lambda>(k, w) m. escrever32 (topo + k) w m)
       [(40, 0x202), (36, 8), (32, e), (28, 0), (24, 0), (20, 0), (16, 0), (12, 0), (8, 0), (4, 0), (0, 0)] m"
    unfolding t prod.inject by (rule conjunct2 [THEN sym])
  show "pilha_inicial m' topo e" unfolding m' pilha_inicial_def by simp
  show "m' x = m x" if "16384 \<le> x - stack"
  proof -
    have "\<not> x - (topo + k) < 4" if "unat k \<le> 40" for k
    proof -
      have u: "16384 \<le> unat (x - stack)" using \<open>16384 \<le> x - stack\<close> by (simp add: word_le_nat_alt)
      have k: "unat (16340 + k) = 16340 + unat k" using that by (subst unat_add_lem [THEN iffD1]) simp_all
      have "x - (topo + k) = (x - stack) - (16340 + k)" unfolding t by simp
      then have "unat (x - (topo + k)) = unat (x - stack) - (16340 + unat k)"
        using u k that by (simp only: unat_sub word_le_nat_alt)
      with u that show ?thesis by (simp add: word_less_nat_alt)
    qed
    from this this [of 0] show ?thesis unfolding m' by (simp add: escrever32_apply)
  qed
qed

lemma copiar_pilha_ok:
  assumes "\<And>j k. j < i + n \<Longrightarrow> k < i + n \<Longrightarrow> d + of_nat j \<noteq> f + of_nat k" "i + n \<le> 2 ^ 32"
  shows "(i \<le> k \<and> k < i + n \<longrightarrow> copiar_pilha d f i n m (d + of_nat k) = m (f + of_nat k)) \<and>
    ((\<forall>j. i \<le> j \<and> j < i + n \<longrightarrow> x \<noteq> d + of_nat j) \<longrightarrow> copiar_pilha d f i n m x = m x)"
  using assms
proof (induction n arbitrary: i m k x)
  case (Suc n)
  define m1 where "m1 = m(d + of_nat i := m (f + of_nat i))"
  have c: "copiar_pilha d f i (Suc n) m = copiar_pilha d f (Suc i) n m1" by (simp add: m1_def)
  have pre: "j < Suc i + n \<Longrightarrow> k < Suc i + n \<Longrightarrow> d + of_nat j \<noteq> f + of_nat k" for j k
    using Suc.prems(1) [of j k] by simp
  have b: "Suc i + n \<le> 2 ^ 32" using Suc.prems(2) by simp
  have IH: "(Suc i \<le> k \<and> k < Suc i + n \<longrightarrow> copiar_pilha d f (Suc i) n m1 (d + of_nat k) = m1 (f + of_nat k)) \<and>
    ((\<forall>j. Suc i \<le> j \<and> j < Suc i + n \<longrightarrow> x \<noteq> d + of_nat j) \<longrightarrow> copiar_pilha d f (Suc i) n m1 x = m1 x)" for k x
    using Suc.IH [of "Suc i" k m1 x] pre b by blast
  have ne: "(of_nat i :: u32) \<noteq> of_nat j" if "Suc i \<le> j" "j < Suc i + n" for j
    using of_nat_u32_inject [of i j] that b by simp
  have eq: "m1 (f + of_nat j) = m (f + of_nat j)" if "j < Suc i + n" for j
    using pre [of i j] that by (auto simp: m1_def)
  show ?case unfolding c
  proof (intro conjI impI)
    assume k: "i \<le> k \<and> k < i + Suc n"
    show "copiar_pilha d f (Suc i) n m1 (d + of_nat k) = m (f + of_nat k)"
    proof (cases "k = i")
      case True
      then have "copiar_pilha d f (Suc i) n m1 (d + of_nat i) = m1 (d + of_nat i)"
        using IH [of _ "d + of_nat i"] ne by auto
      with True show ?thesis by (simp add: m1_def)
    next
      case False
      then have "copiar_pilha d f (Suc i) n m1 (d + of_nat k) = m1 (f + of_nat k)"
        using IH [of k] k by auto
      with eq [of k] k show ?thesis by simp
    qed
  next
    assume x: "\<forall>j. i \<le> j \<and> j < i + Suc n \<longrightarrow> x \<noteq> d + of_nat j"
    then have "copiar_pilha d f (Suc i) n m1 x = m1 x" using IH [of _ x] by auto
    with x show "copiar_pilha d f (Suc i) n m1 x = m x" by (auto simp: m1_def)
  qed
qed auto


section \<open>Creation\<close>

text \<open>The queue, and the heap blocks its PCBs and stacks live in.\<close>

definition proc_ok :: "sis_proc \<Rightarrow> u32 list \<Rightarrow> bool" where
  "proc_ok s xs \<longleftrightarrow> fila s xs \<and> (\<exists>V. vivos (p_heap s) V \<and> (\<forall>q \<in> set xs. (\<exists>n. (unat q, n) \<in> V) \<and>
     (p_stack (procs s q) \<noteq> 0 \<longrightarrow> (\<exists>n \<ge> 16384. (unat (p_stack (procs s q)), n) \<in> V))))"

lemma kmalloc_vivos:
  assumes "vivos h V" "t \<le> 0xFFFFFFFC"
  shows "\<exists>p h'. kmalloc t h = Some (p, h') \<and>
    (p = 0 \<and> vivos h' V \<or> p \<noteq> 0 \<and> (\<exists>n \<ge> unat t. vivos h' (insert (unat p, n) V) \<and> (\<forall>k. (unat p, k) \<notin> V)))"
  using kh.aloca_lei [OF assms]
proof (elim disjE exE conjE)
  fix q n h' assume a: "kmalloc t h = Some (of_nat q, h')" "vivos h' (insert (q, n) V)" "(q, n) \<notin> V" "unat t \<le> n"
  have r: "0x300009 \<le> q \<and> q + n \<le> HEAP_FIM" using kh.regiao [OF a(2), of q n] by simp
  then have u: "unat (of_nat q :: u32) = q" using HEAP_FIM_bound by (intro unat_of_nat_u32) simp
  have "(q, k) \<notin> V" for k using kh.disj [OF a(2), of q n q k] a(3) by auto
  moreover have "(of_nat q :: u32) \<noteq> 0" using r by (intro kh.ender_nulo) auto
  ultimately show ?thesis using a u by auto
qed simp

lemma kfree_vivos: "vivos h V \<Longrightarrow> (unat p, n) \<in> V \<Longrightarrow> \<exists>h'. kfree p h = Some h' \<and> vivos h' (V - {(unat p, n)})"
  using kh.libera_lei [of h V "unat p" n] by simp

lemma insert_menos: "(\<forall>k. (a, k) \<notin> V) \<Longrightarrow> insert (a, n) V - {(a, n)} = V"
  by auto

text \<open>Equal PCBs up to the queue link.\<close>

definition mesmo_pcb :: "processo \<Rightarrow> processo \<Rightarrow> bool" where
  "mesmo_pcb a b \<longleftrightarrow> a\<lparr>p_proximo := 0\<rparr> = b\<lparr>p_proximo := 0\<rparr>"

text \<open>The two allocations of a new process, on every outcome.\<close>

lemma alocar_processo:
  assumes "vivos h V"
  obtains (falha1) h1 where "kmalloc SIZEOF_PROCESSO h = Some (0, h1)" "vivos h1 V"
  | (falha2) p h1 h2 h3 where "kmalloc SIZEOF_PROCESSO h = Some (p, h1)" "p \<noteq> 0" "kmalloc STACK_SIZE h1 = Some (0, h2)"
      "kfree p h2 = Some h3" "vivos h3 V"
  | (ok) p h1 st h2 n k where "kmalloc SIZEOF_PROCESSO h = Some (p, h1)" "p \<noteq> 0" "kmalloc STACK_SIZE h1 = Some (st, h2)"
      "st \<noteq> 0" "vivos h2 (insert (unat st, n) (insert (unat p, k) V))" "16384 \<le> n" "\<forall>k. (unat p, k) \<notin> V"
      "\<forall>n. (unat st, n) \<notin> insert (unat p, k) V"
proof -
  obtain p h1 where a: "kmalloc SIZEOF_PROCESSO h = Some (p, h1)"
    "p = 0 \<and> vivos h1 V \<or> p \<noteq> 0 \<and> (\<exists>n \<ge> unat SIZEOF_PROCESSO. vivos h1 (insert (unat p, n) V) \<and> (\<forall>k. (unat p, k) \<notin> V))"
    using kmalloc_vivos [OF assms, of SIZEOF_PROCESSO] by (auto simp: SIZEOF_PROCESSO_def)
  show ?thesis
  proof (cases "p = 0")
    case True
    with a falha1 show ?thesis by simp
  next
    case False
    with a(2) obtain k where v: "vivos h1 (insert (unat p, k) V)" "\<forall>k. (unat p, k) \<notin> V" by auto
    obtain st h2 where b: "kmalloc STACK_SIZE h1 = Some (st, h2)"
      "st = 0 \<and> vivos h2 (insert (unat p, k) V) \<or> st \<noteq> 0 \<and> (\<exists>n \<ge> unat STACK_SIZE. vivos h2 (insert (unat st, n) (insert (unat p, k) V))
         \<and> (\<forall>n. (unat st, n) \<notin> insert (unat p, k) V))"
      using kmalloc_vivos [OF v(1), of STACK_SIZE] by (auto simp: STACK_SIZE_def)
    have sz: "unat STACK_SIZE = 16384" by (simp add: STACK_SIZE_def)
    show ?thesis
    proof (cases "st = 0")
      case True
      with b have v2: "vivos h2 (insert (unat p, k) V)" by simp
      then obtain h3 where "kfree p h2 = Some h3" "vivos h3 V"
        using kfree_vivos [OF v2, of p k] insert_menos [OF v(2), of k] by auto
      with falha2 a(1) False b(1) True show ?thesis by simp
    next
      case st: False
      with b(2) sz obtain n where "16384 \<le> n" "vivos h2 (insert (unat st, n) (insert (unat p, k) V))"
        "\<forall>n. (unat st, n) \<notin> insert (unat p, k) V" by auto
      with ok a(1) False b(1) st v(2) show ?thesis by metis
    qed
  qed
qed

lemma fora_da_pilha:
  fixes st q :: u32
  assumes "vivos h V" "(unat st, n) \<in> V" "(unat q, k) \<in> V" "16384 \<le> n" "16384 \<le> k" "st \<noteq> q" "i < 16384"
  shows "16384 \<le> (q + of_nat i) - st" "j < 16384 \<Longrightarrow> st + of_nat j \<noteq> q + of_nat i"
proof -
  have d: "unat st + n \<le> unat q \<or> unat q + k \<le> unat st"
    using kh.disj [OF assms(1-3)] assms(6) unat_eq_iff [of st q] by auto
  have b: "unat st + n \<le> HEAP_FIM" "unat q + k \<le> HEAP_FIM"
    using kh.regiao [OF assms(1,2)] kh.regiao [OF assms(1,3)] by simp_all
  have ui: "unat (q + of_nat i) = unat q + i"
  proof -
    have e: "of_nat (unat q + i) = q + of_nat i" by simp
    have "unat (of_nat (unat q + i) :: u32) = unat q + i"
      by (rule unat_of_nat_u32) (use b(2) assms(5,7) HEAP_FIM_bound in linarith)
    with e show ?thesis by metis
  qed
  show "16384 \<le> (q + of_nat i) - st"
  proof (cases "unat st + n \<le> unat q")
    case True
    then have "unat ((q + of_nat i) - st) = unat q + i - unat st"
      using ui by (simp add: unat_sub word_le_nat_alt)
    with True assms(4) show ?thesis by (simp add: word_le_nat_alt)
  next
    case False
    then have l: "unat q + k \<le> unat st" using d by simp
    have "unat ((q + of_nat i) - st) = 2 ^ 32 + (unat q + i) - unat st"
      using l assms(5,7) ui by (simp add: unat_sub_if' )
    with l b assms(7) show ?thesis by (simp add: word_le_nat_alt HEAP_FIM_def)
  qed
  show "st + of_nat j \<noteq> q + of_nat i" if "j < 16384"
  proof -
    have e: "of_nat (unat st + j) = st + of_nat j" by simp
    have "unat (of_nat (unat st + j) :: u32) = unat st + j"
      by (rule unat_of_nat_u32) (use b(1) assms(4) that HEAP_FIM_bound in linarith)
    with e have "unat (st + of_nat j) = unat st + j" by metis
    moreover have "unat st + j \<noteq> unat q + i" using d assms(4,5,7) that by linarith
    ultimately show ?thesis using ui by auto
  qed
qed


text \<open>\<open>proc_criar\<close> always returns.  Either it answers null, and queue and PCBs are as before, with
  no memory leaked in the heap; or a new PCB with the next pid, ready, at the end of the queue, owning a
  new stack whose top is the initial frame: eight zero registers, the entry point, the code segment and
  the flags.  Its credits are whatever the memory held, and no other stack or saved context changes.\<close>

theorem proc_criar_correto:
  assumes "proc_ok s xs"
  shows "(\<exists>s'. proc_criar nm e prio s = Some (0, s') \<and> proc_ok s' xs \<and> s' = s\<lparr>p_heap := p_heap s'\<rparr>) \<or>
    (\<exists>p s'. proc_criar nm e prio s = Some (p, s') \<and> p \<noteq> 0 \<and> p \<notin> set xs \<and> proc_ok s' (xs @ [p]) \<and>
       prox_pid s' = prox_pid s + 1 \<and> pid (procs s' p) = prox_pid s \<and> estado (procs s' p) = PROC_READY \<and>
       prioridade (procs s' p) = prio \<and> creditos (procs s' p) = creditos (procs s p) \<and>
       c_eip (ctx (procs s' p)) = e \<and> c_esp (ctx (procs s' p)) = p_stack (procs s' p) + 16340 \<and>
       pilha_inicial (ram s') (c_esp (ctx (procs s' p))) e \<and>
       (\<forall>q \<in> set xs. mesmo_pcb (procs s' q) (procs s q) \<and>
          (p_stack (procs s q) \<noteq> 0 \<longrightarrow> (\<forall>i < 16384. ram s' (p_stack (procs s q) + of_nat i) = ram s (p_stack (procs s q) + of_nat i)))))"
proof -
  obtain V where f: "fila s xs" and v: "vivos (p_heap s) V" "\<And>q. q \<in> set xs \<Longrightarrow> \<exists>n. (unat q, n) \<in> V"
    "\<And>q. q \<in> set xs \<Longrightarrow> p_stack (procs s q) \<noteq> 0 \<Longrightarrow> \<exists>n \<ge> 16384. (unat (p_stack (procs s q)), n) \<in> V"
    using assms by (auto simp: proc_ok_def)
  have same: "proc_ok (s\<lparr>p_heap := h\<rparr>) xs" if "vivos h V" for h
    using f v that by (auto simp: proc_ok_def fila_def)
  from v(1) show ?thesis
  proof (cases rule: alocar_processo)
    case (falha1 h1)
    then show ?thesis using same by (intro disjI1 exI [of _ "s\<lparr>p_heap := h1\<rparr>"]) (simp add: proc_criar_def)
  next
    case (falha2 p h1 h2 h3)
    then show ?thesis using same by (intro disjI1 exI [of _ "s\<lparr>p_heap := h3\<rparr>"]) (simp add: proc_criar_def)
  next
    case (ok p h1 st h2 n k)
    obtain topo m where q: "quadro_inicial st e (ram s) = (topo, m)" by fastforce
    note qo = quadro_inicial_ok [OF q]
    define P where "P = (procs s p)\<lparr>pid := prox_pid s, estado := PROC_READY, prioridade := prio, p_stack := st,
        stack_size := STACK_SIZE, page_dir := 0, p_proximo := 0, nome := str_copy (nome (procs s p)) nm 32 0,
        p_id := identidade_gerar (prox_pid s) (ticks s) st, ctx := (ctx (procs s p))\<lparr>c_esp := topo, c_eip := e\<rparr>\<rparr>"
    define t where "t = s\<lparr>p_heap := h2, prox_pid := prox_pid s + 1, ram := m, procs := (procs s)(p := P)\<rparr>"
    have pn: "p \<notin> set xs" using v(2) [of p] ok(7) by auto
    have ft: "fila t xs"
      using f by (subst fila_agree [of _ s]) (use pn in \<open>auto simp: t_def\<close>)
    obtain t' where t': "fila_adicionar p t = Some t'" "fila t' (xs @ [p])"
      "t' = t\<lparr>procs := procs t', fila_pronto := fila_pronto t'\<rparr>"
      "\<And>q. procs t' q = (procs t q)\<lparr>p_proximo := p_proximo (procs t' q)\<rparr>"
      using fila_adicionar_ok [OF ft pn ok(2)] by blast
    have r: "proc_criar nm e prio s = Some (p, t')"
      using ok(1-4) q t'(1) by (simp add: proc_criar_def Let_def t_def P_def)
    have campos: "p_heap t' = h2" "ram t' = m" "prox_pid t' = prox_pid s + 1"
      by (subst t'(3), simp add: t_def)+
    have pq: "procs t' q = (procs s q)\<lparr>p_proximo := p_proximo (procs t' q)\<rparr>" if "q \<noteq> p" for q
      using t'(4) [of q] that by (simp add: t_def)
    have mp: "\<forall>q \<in> set xs. mesmo_pcb (procs t' q) (procs s q)"
      unfolding mesmo_pcb_def by (intro ballI, subst pq) (use pn in auto)
    have pp: "procs t' p = P\<lparr>p_proximo := p_proximo (procs t' p)\<rparr>" using t'(4) [of p] by (simp add: t_def)
    have ppc: "pid (procs t' p) = prox_pid s" "estado (procs t' p) = PROC_READY" "prioridade (procs t' p) = prio"
      "creditos (procs t' p) = creditos (procs s p)" "c_eip (ctx (procs t' p)) = e" "c_esp (ctx (procs t' p)) = topo"
      "p_stack (procs t' p) = st"
      by (subst pp, simp add: P_def)+
    let ?V = "insert (unat st, n) (insert (unat p, k) V)"
    have pst: "p_stack (procs t' q) = p_stack (procs s q)" if "q \<in> set xs" for q
      using pq [of q] that pn by (metis processo.select_convs(8) processo.surjective processo.update_convs(11))
    have "proc_ok t' (xs @ [p])"
      unfolding proc_ok_def campos using t'(2) ok(5,6) v(2,3) pst ppc(7)
      by (intro conjI exI [of _ ?V]) (auto, blast+)
    moreover have "m (p_stack (procs s q) + of_nat i) = ram s (p_stack (procs s q) + of_nat i)"
      if q: "q \<in> set xs" "p_stack (procs s q) \<noteq> 0" "i < 16384" for q i
    proof -
      obtain k' where k': "16384 \<le> k'" "(unat (p_stack (procs s q)), k') \<in> V" using v(3) [OF q(1,2)] by blast
      have "st \<noteq> p_stack (procs s q)" using ok(8) k'(2) by auto
      then show ?thesis using qo(3) fora_da_pilha(1) [OF ok(5) insertI1 _ ok(6) k'(1) _ q(3)] k'(2) by simp
    qed
    ultimately show ?thesis using r ok(2) pn campos mp ppc qo(1,2)
      by (intro disjI2 exI [of _ p] exI [of _ t']) simp
  qed
qed


definition proc_vazio :: sis_proc where
  "proc_vazio = \<lparr>procs = (\<lambda>_. proc_exemplo 0 0 0 0), ram = (\<lambda>_. 0), p_heap = kheap_init heap_exemplo,
     proc_atual_ptr = 0, fila_pronto = 0, prox_pid = 1, ticks = 0, creditos_atuais = 0\<rparr>"

lemma proc_vazio_ok: "proc_ok proc_vazio []"
proof -
  have "vivos (kheap_init heap_exemplo) {}" using kheap_init_ok by (force simp: vivos_def)
  then show ?thesis by (auto simp: proc_ok_def fila_def proc_vazio_def)
qed

theorem proc_criar_correto_witness:
  "\<exists>p s'. proc_criar (bytes ''a'') 0x1234 2 proc_vazio = Some (p, s') \<and>
     (p = 0 \<or> pilha_inicial (ram s') (c_esp (ctx (procs s' p))) 0x1234)"
  using proc_criar_correto [OF proc_vazio_ok, of "bytes ''a''" "0x1234" 2] by blast

lemma palavra_eax:
  fixes st off :: u32
  assumes "unat off + 32 \<le> 16384" "i < 16384"
  shows "(st + of_nat i) - (st + off + 28) < 4 \<longleftrightarrow> unat off + 28 \<le> i \<and> i < unat off + 32"
proof -
  have u: "unat (off + 28) = unat off + 28" using assms(1) by (subst unat_add_lem [THEN iffD1]) simp_all
  have ui: "unat (of_nat i :: u32) = i" using assms(2) by (intro unat_of_nat_u32) simp
  have e: "(st + of_nat i) - (st + off + 28) = of_nat i - (off + 28)" by simp
  have "unat (of_nat i - (off + 28)) = (if unat off + 28 \<le> i then i - (unat off + 28) else 2 ^ 32 + i - (unat off + 28))"
    using u ui assms by (simp add: unat_sub_if')
  then show ?thesis unfolding e using assms by (auto simp: word_less_nat_alt simp del: diff_diff_eq split: if_splits)
qed



text \<open>A system with one process that runs on its own stack.\<close>

definition fork_exemplo :: sis_proc where
  "fork_exemplo = \<lparr>procs = (\<lambda>_. proc_exemplo 0 0 0 0)
       (0x300009 := (proc_exemplo 1 PROC_RUNNING 2 0)\<lparr>p_stack := 0x30007E,
          ctx := (ctx (proc_exemplo 1 0 2 0))\<lparr>c_esp := 0x304052\<rparr>\<rparr>),
     ram = (\<lambda>_. 7),
     p_heap = \<lparr>heap_inicio = HEAP_INICIO, inicializado = 1,
       blocos = (\<lambda>_. \<lparr>b_tamanho = 0, b_livre = 0, b_proximo = 0\<rparr>)
         (0x300000 := \<lparr>b_tamanho = 108, b_livre = 0, b_proximo = 0x300075\<rparr>,
          0x300075 := \<lparr>b_tamanho = 16384, b_livre = 0, b_proximo = 0x30407E\<rparr>,
          0x30407E := \<lparr>b_tamanho = 245625, b_livre = 1, b_proximo = 0\<rparr>)\<rparr>,
     proc_atual_ptr = 0x300009, fila_pronto = 0x300009, prox_pid = 2, ticks = 0, creditos_atuais = 2\<rparr>"

lemma fork_exemplo_ok: "proc_ok fork_exemplo [0x300009]"
proof -
  have "heap_ok (p_heap fork_exemplo) [(108, False), (16384, False), (245625, True)]"
    by (simp add: heap_ok_def fork_exemplo_def HEAP_INICIO_def HEAP_FIM_def)
  then have "vivos (p_heap fork_exemplo) {(0x300009, 108), (0x30007E, 16384)}"
    unfolding vivos_def by (intro exI conjI) (assumption, auto)
  then show ?thesis
    unfolding proc_ok_def by (intro conjI exI) (auto simp: fila_def fork_exemplo_def proc_exemplo_def)
qed


end
