(* ===== verification/NetBase.thy ===== *)
theory NetBase
  imports KString "HOL-Library.Monad_Syntax"
begin

text \<open>
  The state of the network stack (\<^verbatim>\<open>kernel/net\<close>) and its lowest layer: byte order (\<^verbatim>\<open>net_util.h\<close>), the
  pool of receive buffers (\<^verbatim>\<open>netbuf.c\<close>), the internet checksum (\<^verbatim>\<open>ipv4.c\<close>), and transmission and polling
  of the RTL8139 card (\<^verbatim>\<open>rtl8139.c\<close>).

  A \<open>netbuf_t *\<close> is the index of a pool buffer, \<open>None\<close> for the null pointer.  The card is seen through the
  values its registers show at successive reads (\<open>isr_em\<close>, \<open>cr_em\<close>, \<open>cbr_em\<close>, \<open>tsd_em\<close>) and the contents of the
  receive ring at each of them (\<open>rx_em\<close>); \<open>enviados\<close> is the list of frames handed to it.  \<open>tiques\<close> is what
  \<open>sched_ticks()\<close> returns at its successive calls.
\<close>

section \<open>Types\<close>

record arp_entry =
  ae_ip :: u32
  ae_mac :: "u8 list"
  ae_valid :: u8

text \<open>The kernel registers two callbacks.\<close>

datatype udp_handler = Dns_handler | Dhcp_handler

record udp_binding =
  ub_port :: u16
  ub_handler :: "udp_handler option"

record tcp_socket =
  remote_ip :: u32
  local_port :: u16
  remote_port :: u16
  seq_num :: u32
  ack_num :: u32
  tcp_state :: u8
  rx_buf :: "u8 list"
  rx_head :: u16
  rx_tail :: u16

record net =
  nb_data :: "nat \<Rightarrow> u8 list"
  nb_len :: "nat \<Rightarrow> u16"
  nb_off :: "nat \<Rightarrow> u16"
  nb_next :: "nat \<Rightarrow> nat option"
  free_list :: "nat option"
  livre_count :: int
  rtl_initialized :: bool
  mac_addr :: "u8 list"
  recv_cb :: bool
  rx_read_ptr :: u16
  tx_next :: nat
  rede_t :: nat
  isr_em :: "nat \<Rightarrow> u16"
  cr_em :: "nat \<Rightarrow> u8"
  cbr_em :: "nat \<Rightarrow> u16"
  tsd_em :: "nat \<Rightarrow> u32"
  rx_em :: "nat \<Rightarrow> u8 list"
  enviados :: "u8 list list"
  tiques :: "nat \<Rightarrow> u32"
  tique_n :: nat
  eth_frame :: "u8 list"
  ip_packet :: "u8 list"
  udp_out :: "u8 list"
  tcp_out :: "u8 list"
  arp_cache :: "arp_entry list"
  net_our_ip :: u32
  net_gateway_ip :: u32
  net_netmask :: u32
  net_dns_ip :: u32
  ip_id_counter :: u16
  bindings :: "udp_binding list"
  sockets :: "tcp_socket list"
  next_local_port :: u16
  dns_result_ip :: u32
  dns_got_reply :: bool
  dns_query_id :: u16
  dns_buf :: "u8 list"
  dhcp_got_offer :: bool
  dhcp_got_ack :: bool
  offered_ip :: u32
  server_id :: u32
  offered_gw :: u32
  offered_mask :: u32
  offered_dns :: u32
  xid :: u32
  dhcp_pkt :: "u8 list"

definition sched_ticks_net :: "net \<Rightarrow> u32 \<times> net" where
  "sched_ticks_net s = (tiques s (tique_n s), s\<lparr>tique_n := tique_n s + 1\<rparr>)"

section \<open>Byte order\<close>

definition htons :: "u16 \<Rightarrow> u16" where
  "htons v = drop_bit 8 v OR push_bit 8 v"

definition ntohs :: "u16 \<Rightarrow> u16" where "ntohs v = htons v"

definition htonl :: "u32 \<Rightarrow> u32" where
  "htonl v = drop_bit 24 (v AND 0xFF000000) OR drop_bit 8 (v AND 0x00FF0000) OR
     push_bit 8 (v AND 0x0000FF00) OR push_bit 24 (v AND 0x000000FF)"

definition ntohl :: "u32 \<Rightarrow> u32" where "ntohl v = htonl v"

text \<open>A field of a header, read and written in network order.\<close>

definition be16 :: "u16 \<Rightarrow> u8 list" where "be16 v = le16 (htons v)"
definition be32 :: "u32 \<Rightarrow> u8 list" where "be32 v = le32 (htonl v)"
definition rdb16 :: "u8 list \<Rightarrow> nat \<Rightarrow> u16" where "rdb16 b k = ntohs (rd16 b k)"
definition rdb32 :: "u8 list \<Rightarrow> nat \<Rightarrow> u32" where "rdb32 b k = ntohl (rd32 b k)"

definition MAKE_IP :: "u32 \<Rightarrow> u32 \<Rightarrow> u32 \<Rightarrow> u32 \<Rightarrow> u32" where
  "MAKE_IP a b c d = push_bit 24 a OR push_bit 16 b OR push_bit 8 c OR d"

definition IP_A :: "u32 \<Rightarrow> u32" where "IP_A ip = drop_bit 24 ip AND 0xFF"
definition IP_B :: "u32 \<Rightarrow> u32" where "IP_B ip = drop_bit 16 ip AND 0xFF"
definition IP_C :: "u32 \<Rightarrow> u32" where "IP_C ip = drop_bit 8 ip AND 0xFF"
definition IP_D :: "u32 \<Rightarrow> u32" where "IP_D ip = ip AND 0xFF"

section \<open>The buffer pool\<close>

definition NETBUF_SIZE :: nat where "NETBUF_SIZE = 1536"
definition NETBUF_COUNT :: nat where "NETBUF_COUNT = 16"

fun netbuf_init_loop :: "nat \<Rightarrow> nat \<Rightarrow> net \<Rightarrow> net" where
  "netbuf_init_loop i 0 s = s"
| "netbuf_init_loop i (Suc n) s =
     netbuf_init_loop (Suc i) n (s\<lparr>nb_next := (nb_next s)(i := free_list s), free_list := Some i\<rparr>)"

definition netbuf_init :: "net \<Rightarrow> net" where
  "netbuf_init s = (netbuf_init_loop 0 NETBUF_COUNT (s\<lparr>free_list := None\<rparr>))\<lparr>livre_count := int NETBUF_COUNT\<rparr>"

definition netbuf_alloc :: "net \<Rightarrow> nat option \<times> net" where
  "netbuf_alloc s =
     (case free_list s of
        None \<Rightarrow> (None, s)
      | Some b \<Rightarrow> (Some b, s\<lparr>free_list := nb_next s b, nb_next := (nb_next s)(b := None),
          nb_len := (nb_len s)(b := 0), nb_off := (nb_off s)(b := 0), livre_count := livre_count s - 1\<rparr>))"

definition netbuf_free :: "nat option \<Rightarrow> net \<Rightarrow> net" where
  "netbuf_free buf s =
     (case buf of
        None \<Rightarrow> s
      | Some b \<Rightarrow> s\<lparr>nb_next := (nb_next s)(b := free_list s), free_list := Some b, livre_count := livre_count s + 1\<rparr>)"

definition netbuf_livres :: "net \<Rightarrow> int" where "netbuf_livres s = livre_count s"

section \<open>The internet checksum\<close>

fun soma16 :: "u8 list \<Rightarrow> u32 \<Rightarrow> u32" where
  "soma16 (x # y # r) ac = soma16 r (ac + ucast (rd16 [x, y] 0))"
| "soma16 [x] ac = ac + ucast x"
| "soma16 [] ac = ac"

lemma dobra_dec:
  assumes "drop_bit 16 (x :: u32) \<noteq> 0"
  shows "unat ((x AND 0xFFFF) + drop_bit 16 x) = unat x mod 65536 + unat x div 65536"
    and "unat x mod 65536 + unat x div 65536 < unat x"
proof -
  have l: "unat (x AND 0xFFFF) = unat x mod 65536"
  proof -
    have "x AND 0xFFFF = take_bit 16 x" by (simp add: take_bit_eq_mask mask_eq_exp_minus_1)
    then show ?thesis by (simp add: unsigned_take_bit_eq take_bit_nat_def)
  qed
  have h: "unat (drop_bit 16 x) = unat x div 65536" by (simp add: unat_drop_bit_eq drop_bit_nat_def)
  have u: "unat x < 4294967296" using unsigned_less [of x] by simp
  then have d: "unat x div 65536 < 65536" by (simp add: less_mult_imp_div_less)
  show "unat ((x AND 0xFFFF) + drop_bit 16 x) = unat x mod 65536 + unat x div 65536"
  proof -
    have "unat x mod 65536 < 65536" by simp
    then have "unat (x AND 0xFFFF) + unat (drop_bit 16 x) < 2 ^ LENGTH(32)" using l h d by simp
    then show ?thesis by (subst unat_add_lem [THEN iffD1]) (simp_all only: l h)
  qed
  have "unat x div 65536 \<noteq> 0" using assms h by (metis unat_eq_zero)
  then show "unat x mod 65536 + unat x div 65536 < unat x"
    using div_mult_mod_eq [of "unat x" 65536] by linarith
qed

function dobra :: "u32 \<Rightarrow> u32" where
  "dobra ac = (if drop_bit 16 ac \<noteq> 0 then dobra ((ac AND 0xFFFF) + drop_bit 16 ac) else ac)"
  by pat_completeness auto
termination by (relation "measure unat") (simp_all add: dobra_dec)

declare dobra.simps [simp del]

definition ip_checksum :: "u8 list \<Rightarrow> u16" where
  "ip_checksum d = ucast (NOT (dobra (soma16 d 0)))"

section \<open>The card\<close>

definition RX_BUF_SIZE :: nat where "RX_BUF_SIZE = 8192 + 16 + 1500"
definition TX_DESC_COUNT :: nat where "TX_DESC_COUNT = 4"
definition CR_BUFE :: u8 where "CR_BUFE = 0x01"
definition ISR_ROK :: u16 where "ISR_ROK = 0x0001"
definition ISR_RER :: u16 where "ISR_RER = 0x0002"
definition ISR_RXOVW :: u16 where "ISR_RXOVW = 0x0010"
definition ISR_FOVW :: u16 where "ISR_FOVW = 0x0040"
definition TSD_TABT :: u32 where "TSD_TABT = 0x4000"
definition TSD_TOK :: u32 where "TSD_TOK = 0x8000"

text \<open>Waiting for the end of a transmission: at most 200001 reads of the status.\<close>

fun tsd_espera :: "nat \<Rightarrow> net \<Rightarrow> u32 \<times> net" where
  "tsd_espera t s =
     (let tsd = tsd_em s (rede_t s); s = s\<lparr>rede_t := rede_t s + 1\<rparr> in
      if tsd AND (TSD_TOK OR TSD_TABT) \<noteq> 0 then (tsd, s)
      else case t of 0 \<Rightarrow> (tsd, s) | Suc t \<Rightarrow> tsd_espera t s)"

declare tsd_espera.simps [simp del]

definition rtl8139_send :: "u8 list \<Rightarrow> u16 \<Rightarrow> net \<Rightarrow> int \<times> net" where
  "rtl8139_send data len s =
     (if \<not> rtl_initialized s then (- 1, s)
      else if 1514 < len \<or> len = 0 then (- 1, s)
      else let quadro = take (unat len) data @ replicate (60 - unat len) 0;
               s = s\<lparr>enviados := enviados s @ [quadro]\<rparr>;
               (tsd, s) = tsd_espera 200000 s;
               s = s\<lparr>tx_next := (tx_next s + 1) mod TX_DESC_COUNT\<rparr>
           in (if tsd AND TSD_TOK \<noteq> 0 then 0 else - 1, s))"

text \<open>The frame at the read pointer, copied in two parts when it wraps.\<close>

definition ring_mod :: nat where "ring_mod = RX_BUF_SIZE - 1500"

definition rx_frame :: "u8 list \<Rightarrow> u16 \<Rightarrow> nat \<Rightarrow> u8 list" where
  "rx_frame rx ptr pkt_len =
     (let off = (unat ptr + 4) mod ring_mod in
      if off + pkt_len \<le> ring_mod then slice rx off pkt_len
      else let part1 = ring_mod - off in slice rx off part1 @ slice rx 0 (pkt_len - part1))"

text \<open>\<open>entrega\<close> is the receive callback, \<open>eth_recv\<close>.\<close>

partial_function (option) poll_loop :: "(nat option \<Rightarrow> net \<Rightarrow> net option) \<Rightarrow> int \<Rightarrow> net \<Rightarrow> (int \<times> net) option" where
  "poll_loop entrega frames s =
     (let cr = cr_em s (rede_t s); s = s\<lparr>rede_t := rede_t s + 1\<rparr> in
      if cr AND CR_BUFE \<noteq> 0 then Some (frames, s)
      else let rx = rx_em s (rede_t s); h = unat (rx_read_ptr s) mod ring_mod;
               rx_status = rd16 rx h; rx_len = rd16 rx (h + 2) in
        if rx_status AND 1 = 0 \<or> rx_len = 0 \<or> 1518 < rx_len then
          Some (frames, s\<lparr>rx_read_ptr := cbr_em s (rede_t s + 1), rede_t := rede_t s + 2\<rparr>)
        else let pkt_len = rx_len - 4 in do {
          (n, s) \<leftarrow>
            (if recv_cb s \<and> unat pkt_len \<le> NETBUF_SIZE then
               (case netbuf_alloc s of
                  (None, s) \<Rightarrow> Some (0, s)
                | (Some b, s) \<Rightarrow> do {
                    s \<leftarrow> entrega (Some b) (s\<lparr>nb_data := (nb_data s)(b := splice (nb_data s b) 0 (rx_frame rx (rx_read_ptr s) (unat pkt_len))),
                          nb_len := (nb_len s)(b := pkt_len), nb_off := (nb_off s)(b := 0)\<rparr>);
                    Some (1, s) })
             else Some (0, s));
          poll_loop entrega (frames + n) (s\<lparr>rx_read_ptr := (rx_read_ptr s + 4 + rx_len + 3) AND NOT 3\<rparr>) })"

definition rtl8139_poll :: "(nat option \<Rightarrow> net \<Rightarrow> net option) \<Rightarrow> net \<Rightarrow> (int \<times> net) option" where
  "rtl8139_poll entrega s =
     (if \<not> rtl_initialized s then Some (0, s)
      else let isr = isr_em s (rede_t s); s = s\<lparr>rede_t := rede_t s + 1\<rparr> in
        if isr AND (ISR_ROK OR ISR_RER OR ISR_RXOVW OR ISR_FOVW) = 0 then Some (0, s)
        else poll_loop entrega 0 s)"

definition rtl8139_ready :: "net \<Rightarrow> bool" where "rtl8139_ready s = rtl_initialized s"

section \<open>Byte order: lemmas\<close>

lemma bit_u16_hi [simp]: "16 \<le> n \<Longrightarrow> \<not> bit (w :: u16) n" using bit_imp_le_length [of w n] by auto
lemma bit_u32_hi [simp]: "32 \<le> n \<Longrightarrow> \<not> bit (w :: u32) n" using bit_imp_le_length [of w n] by auto

lemma be16_bytes: "be16 v = [ucast (drop_bit 8 v), ucast v]"
  by (auto simp: be16_def le16_def htons_def intro!: bit_word_eqI simp: bit_simps)

lemma mascaras_u32:
  "(0xFF000000 :: u32) = push_bit 24 (mask 8)" "(0x00FF0000 :: u32) = push_bit 16 (mask 8)"
  "(0x0000FF00 :: u32) = push_bit 8 (mask 8)" "(0x000000FF :: u32) = mask 8"
  by (simp_all add: push_bit_eq_mult mask_eq_exp_minus_1)

lemma be32_bytes: "be32 v = [ucast (drop_bit 24 v), ucast (drop_bit 16 v), ucast (drop_bit 8 v), ucast v]"
  unfolding be32_def le32_def htonl_def mascaras_u32
  by (auto intro!: bit_word_eqI simp: bit_simps)

lemma ntohs_htons [simp]: "ntohs (htons v) = v"
proof (rule bit_word_eqI)
  fix n assume "n < LENGTH(16)"
  then consider "n < 8" | "8 \<le> n" "n < 16" by force
  then show "bit (ntohs (htons v)) n = bit v n"
    by cases (auto simp: ntohs_def htons_def bit_simps)
qed

lemma ntohl_htonl [simp]: "ntohl (htonl v) = v"
proof (rule bit_word_eqI)
  fix n assume "n < LENGTH(32)"
  then consider "n < 8" | "8 \<le> n" "n < 16" | "16 \<le> n" "n < 24" | "24 \<le> n" "n < 32" by force
  then show "bit (ntohl (htonl v)) n = bit v n"
    unfolding ntohl_def htonl_def mascaras_u32
    by cases (auto simp: bit_simps)
qed

lemma length_be [simp]: "length (be16 v) = 2" "length (be32 w) = 4"
  by (simp_all add: be16_def be32_def)

lemma rd_be [simp]: "rdb16 (be16 v) 0 = v" "rdb32 (be32 w) 0 = w"
  by (simp_all add: rdb16_def be16_def rdb32_def be32_def)

lemma rdb_append_ge [buf_simps]:
  "length a \<le> k \<Longrightarrow> rdb16 (a @ b) k = rdb16 b (k - length a)" "length a \<le> k \<Longrightarrow> rdb32 (a @ b) k = rdb32 b (k - length a)"
  by (simp_all add: rdb16_def rdb32_def rd16_append_ge rd32_append_ge)

lemma rdb_append_lt [buf_simps]:
  "k + 2 \<le> length a \<Longrightarrow> rdb16 (a @ b) k = rdb16 a k" "k + 4 \<le> length a \<Longrightarrow> rdb32 (a @ b) k = rdb32 a k"
  by (simp_all add: rdb16_def rdb32_def rd16_append_lt rd32_append_lt)

section \<open>The pool: no buffer is lost or handed out twice\<close>

text \<open>\<open>livres_nb s xs\<close>: the free list is the chain \<open>xs\<close> of distinct buffers and the counter is its length.\<close>

fun cadeia_nb :: "(nat \<Rightarrow> nat option) \<Rightarrow> nat option \<Rightarrow> nat list \<Rightarrow> bool" where
  "cadeia_nb nx p [] \<longleftrightarrow> p = None"
| "cadeia_nb nx p (x # xs) \<longleftrightarrow> p = Some x \<and> cadeia_nb nx (nx x) xs"

definition livres_nb :: "net \<Rightarrow> nat list \<Rightarrow> bool" where
  "livres_nb s xs \<longleftrightarrow> cadeia_nb (nb_next s) (free_list s) xs \<and> distinct xs \<and> set xs \<subseteq> {..<NETBUF_COUNT} \<and> livre_count s = int (length xs)"

lemma cadeia_nb_fora: "b \<notin> set xs \<Longrightarrow> cadeia_nb (nx(b := v)) p xs = cadeia_nb nx p xs"
  by (induction xs arbitrary: p) auto

lemma netbuf_init_loop_ok:
  "cadeia_nb (nb_next s) (free_list s) xs \<Longrightarrow> set xs \<subseteq> {..<i} \<Longrightarrow>
   cadeia_nb (nb_next (netbuf_init_loop i n s)) (free_list (netbuf_init_loop i n s)) (rev [i..<i + n] @ xs)"
proof (induction n arbitrary: i s xs)
  case (Suc n)
  define t where "t = s\<lparr>nb_next := (nb_next s)(i := free_list s), free_list := Some i\<rparr>"
  have "i \<notin> set xs" using Suc.prems(2) by auto
  then have "cadeia_nb (nb_next t) (free_list t) (i # xs)" using Suc.prems(1) by (simp add: t_def cadeia_nb_fora)
  moreover have "set (i # xs) \<subseteq> {..<Suc i}" using Suc.prems(2) by auto
  ultimately have "cadeia_nb (nb_next (netbuf_init_loop (Suc i) n t)) (free_list (netbuf_init_loop (Suc i) n t)) (rev [Suc i..<Suc i + n] @ i # xs)"
    by (rule Suc.IH)
  moreover have "rev [i..<i + Suc n] @ xs = rev [Suc i..<Suc i + n] @ i # xs" by (simp add: upt_conv_Cons del: upt_Suc)
  moreover have "netbuf_init_loop i (Suc n) s = netbuf_init_loop (Suc i) n t" by (simp add: t_def)
  ultimately show ?case by (simp only:)
qed simp

lemma netbuf_init_ok: "livres_nb (netbuf_init s) (rev [0..<16])"
  using netbuf_init_loop_ok [of "s\<lparr>free_list := None\<rparr>" "[]" 0 16]
  by (auto simp: livres_nb_def netbuf_init_def NETBUF_COUNT_def)

lemma netbuf_alloc_ok:
  "livres_nb s xs \<Longrightarrow> (case xs of [] \<Rightarrow> netbuf_alloc s = (None, s)
     | b # ys \<Rightarrow> fst (netbuf_alloc s) = Some b \<and> b < NETBUF_COUNT \<and> livres_nb (snd (netbuf_alloc s)) ys)"
  by (cases xs) (auto simp: livres_nb_def netbuf_alloc_def cadeia_nb_fora)

lemma netbuf_free_ok:
  "livres_nb s xs \<Longrightarrow> b < NETBUF_COUNT \<Longrightarrow> b \<notin> set xs \<Longrightarrow> livres_nb (netbuf_free (Some b) s) (b # xs)"
  by (auto simp: livres_nb_def netbuf_free_def cadeia_nb_fora)

section \<open>The checksum\<close>

text \<open>Sum of the little-endian 16-bit words of a buffer, as a number.\<close>

fun palavras :: "u8 list \<Rightarrow> nat" where
  "palavras (x # y # r) = unat (rd16 [x, y] 0) + palavras r"
| "palavras [x] = unat x"
| "palavras [] = 0"

lemma palavras_le: "palavras d \<le> 65535 * ((length d + 1) div 2)"
proof (induction d rule: palavras.induct)
  case (1 x y r)
  have "unat (rd16 [x, y] 0) < 65536" using unsigned_less [of "rd16 [x, y] 0"] by simp
  with 1 show ?case by simp
next
  case (2 x)
  have "unat x < 256" using unsigned_less [of x] by simp
  then show ?case by simp
qed simp

lemma soma16_palavras:
  "unat a + palavras d < 2 ^ 32 \<Longrightarrow> unat (soma16 d a) = unat a + palavras d"
proof (induction d a rule: soma16.induct)
  case (1 x y r a)
  let ?w = "ucast (rd16 [x, y] 0) :: u32"
  have "unat (a + ?w) = unat a + unat (rd16 [x, y] 0)" using 1(2) by (subst unat_add_lem [THEN iffD1]) simp_all
  with 1 show ?case by simp
next
  case (2 x a)
  then show ?case by (simp, subst unat_add_lem [THEN iffD1]) simp_all
qed simp

lemma dobra_ok: "unat (dobra x) < 65536 \<and> unat (dobra x) mod 65535 = unat x mod 65535 \<and> (dobra x = 0 \<longleftrightarrow> x = 0)"
proof (induction x rule: dobra.induct)
  case (1 x)
  show ?case
  proof (cases "drop_bit 16 x = 0")
    case True
    then have "unat x div 65536 = 0" using unat_drop_bit_eq [of 16 x] by (simp add: drop_bit_nat_def)
    then have "unat x < 65536" by (simp add: div_eq_0_iff)
    then show ?thesis using True by (subst (1 2 3) dobra.simps) simp
  next
    case False
    let ?y = "(x AND 0xFFFF) + drop_bit 16 x"
    have y: "unat ?y = unat x mod 65536 + unat x div 65536" by (rule dobra_dec(1) [OF False])
    have m: "unat ?y mod 65535 = unat x mod 65535"
    proof -
      have "unat x = unat ?y + 65535 * (unat x div 65536)" using y div_mult_mod_eq [of "unat x" 65536] by linarith
      then show ?thesis by (metis mod_mult_self2)
    qed
    have "unat (drop_bit 16 x) \<noteq> 0" using False by (metis unat_eq_zero)
    then have "unat x div 65536 \<noteq> 0" by (simp add: unat_drop_bit_eq drop_bit_nat_def)
    then have "?y \<noteq> 0" "x \<noteq> 0" using y False by (auto simp: unat_eq_zero [symmetric])
    then show ?thesis using 1 [OF False] m False by (subst (1 2 3) dobra.simps) simp
  qed
qed

lemma unat_not16: "unat (NOT (y :: u16)) = 65535 - unat y"
proof -
  have "NOT y = - 1 - y" by (simp add: not_eq_complement)
  then have "unat (NOT y) = unat (- 1 :: u16) - unat y" by (simp only: unat_sub [OF word_n1_ge])
  then show ?thesis by (simp add: unsigned_minus_1_eq_mask mask_eq_exp_minus_1)
qed

lemma unat_checksum:
  assumes "length d \<le> 65535"
  obtains z where "unat (ip_checksum d) = 65535 - z" "z < 65536" "z mod 65535 = palavras d mod 65535" "z = 0 \<longleftrightarrow> palavras d = 0"
proof -
  have "(length d + 1) div 2 \<le> 32768" using assms by simp
  then have l: "palavras d < 2 ^ 32" using palavras_le [of d] by (simp add: le_less_trans)
  let ?x = "dobra (soma16 d 0)"
  have S: "unat (soma16 d 0) = palavras d" using soma16_palavras [of 0 d] l by simp
  have z: "unat ?x < 65536" "unat ?x mod 65535 = palavras d mod 65535" "?x = 0 \<longleftrightarrow> soma16 d 0 = 0"
    using dobra_ok [of "soma16 d 0"] S by simp_all
  have c: "unat (ucast ?x :: u16) = unat ?x" using z(1) by (simp add: unsigned_ucast_eq take_bit_nat_eq_self)
  have "ip_checksum d = NOT (ucast ?x)" unfolding ip_checksum_def by (rule bit_word_eqI) (simp add: bit_simps)
  then have i: "unat (ip_checksum d) = 65535 - unat ?x" using unat_not16 [of "ucast ?x"] c by (simp only:)
  have zz: "unat ?x = 0 \<longleftrightarrow> palavras d = 0" by (simp only: unat_eq_zero z(3) S [symmetric])
  show thesis by (rule that [OF i z(1,2) zz])
qed

lemma palavras_append: "even (length a) \<Longrightarrow> palavras (a @ b) = palavras a + palavras b"
  by (induction a rule: palavras.induct) simp_all

lemma checksum_zero_iff:
  assumes "length d \<le> 65535"
  shows "ip_checksum d = 0 \<longleftrightarrow> palavras d mod 65535 = 0 \<and> palavras d \<noteq> 0"
proof -
  obtain z where z: "unat (ip_checksum d) = 65535 - z" "z < 65536" "z mod 65535 = palavras d mod 65535" "z = 0 \<longleftrightarrow> palavras d = 0"
    using unat_checksum [OF assms] .
  have "ip_checksum d = 0 \<longleftrightarrow> z = 65535" using z(1,2) by (auto simp: unat_eq_zero [symmetric])
  also have "\<dots> \<longleftrightarrow> z mod 65535 = 0 \<and> z \<noteq> 0"
  proof
    assume h: "z mod 65535 = 0 \<and> z \<noteq> 0"
    then obtain q where "z = 65535 * q" by (auto simp: mod_eq_0_iff_dvd dvd_def)
    with h z(2) show "z = 65535" by (cases "q = 0"; cases "q = 1") auto
  qed simp
  finally show ?thesis using z(3,4) by simp
qed

text \<open>Storing the checksum in its zeroed field makes the whole verify.\<close>

lemma checksum_instalado:
  assumes "length d \<le> 65535" "even k" "k + 2 \<le> length d" "slice d k 2 = [0, 0]"
  shows "ip_checksum (splice d k (le16 (ip_checksum d))) = 0"
proof -
  let ?c = "ip_checksum d"
  have d: "d = take k d @ [0, 0] @ drop (k + 2) d"
    using assms(3,4) by (metis append_take_drop_id slice_def drop_drop add.commute)
  have ek: "even (length (take k d))" using assms(2,3) by simp
  have pd: "palavras d = palavras (take k d) + palavras (drop (k + 2) d)"
    by (subst d, subst palavras_append [OF ek]) (simp add: rd16_def)
  have ps: "palavras (splice d k (le16 ?c)) = palavras d + unat ?c"
  proof -
    have "palavras (le16 ?c) = unat ?c" using rd16_le16 [of ?c] by (simp add: le16_def)
    then have "palavras (le16 ?c @ drop (k + 2) d) = unat ?c + palavras (drop (k + 2) d)"
      using palavras_append [of "le16 ?c"] by simp
    then show ?thesis using palavras_append [OF ek, of "le16 ?c @ drop (k + 2) d"] pd by (simp add: splice_def)
  qed
  obtain z where z: "unat ?c = 65535 - z" "z < 65536" "z mod 65535 = palavras d mod 65535" "z = 0 \<longleftrightarrow> palavras d = 0"
    using unat_checksum [OF assms(1)] .
  have "(palavras d + unat ?c) mod 65535 = 0"
  proof -
    have "(palavras d + (65535 - z)) mod 65535 = (z + (65535 - z)) mod 65535"
      using z(3) by (metis mod_add_left_eq)
    also have "z + (65535 - z) = 65535" using z(2) by simp
    finally show ?thesis using z(1) by simp
  qed
  moreover have "palavras d + unat ?c \<noteq> 0" using z by (cases "z = 0") auto
  ultimately show ?thesis using checksum_zero_iff [of "splice d k (le16 ?c)"] assms(1,3) ps by simp
qed

end
