(* ===== verification/Arp.thy ===== *)
theory Arp
  imports NetBase
begin

text \<open>
  Ethernet transmission (\<^verbatim>\<open>kernel/net/ethernet.c\<close>) and address resolution (\<^verbatim>\<open>kernel/net/arp.c\<close>).  The
  wait for a reply polls the card, and polling can run the whole receive path: the polling function is the
  argument \<open>poll\<close> of every operation that waits, tied together in theory \<open>Rede\<close>.

  The address cache is the first instance of the interface \<open>tabela\<close>: a small table of slots, searched from
  the front, in which a new binding goes to the first slot that is free or has its key.
\<close>

section \<open>Ethernet\<close>

definition ETH_PROTO_ARP :: u16 where "ETH_PROTO_ARP = 0x0806"
definition ETH_PROTO_IP :: u16 where "ETH_PROTO_IP = 0x0800"
definition ETH_HDR_LEN :: u16 where "ETH_HDR_LEN = 14"
definition ETH_BROADCAST :: "u8 list" where "ETH_BROADCAST = replicate 6 0xFF"

definition eth_header :: "u8 list \<Rightarrow> u8 list \<Rightarrow> u16 \<Rightarrow> u8 list" where
  "eth_header dst src proto = dst @ src @ be16 proto"

definition eth_send :: "u8 list \<Rightarrow> u16 \<Rightarrow> u8 list \<Rightarrow> u16 \<Rightarrow> net \<Rightarrow> int \<times> net" where
  "eth_send dst proto payload len s =
     (if 1500 < len then (- 1, s)
      else let f = splice (eth_frame s) 0 (eth_header dst (mac_addr s) proto);
               f = splice f (unat ETH_HDR_LEN) (take (unat len) payload);
               s = s\<lparr>eth_frame := f\<rparr>
           in rtl8139_send f (ETH_HDR_LEN + len) s)"

definition eth_poll :: "(nat option \<Rightarrow> net \<Rightarrow> net option) \<Rightarrow> net \<Rightarrow> (int \<times> net) option" where
  "eth_poll entrega s = rtl8139_poll entrega s"

section \<open>ARP\<close>

definition ARP_CACHE_SIZE :: nat where "ARP_CACHE_SIZE = 16"
definition ARP_PKT_LEN :: u16 where "ARP_PKT_LEN = 28"

definition arp_packet :: "u16 \<Rightarrow> u8 list \<Rightarrow> u32 \<Rightarrow> u8 list \<Rightarrow> u32 \<Rightarrow> u8 list" where
  "arp_packet op sha spa tha tpa =
     be16 1 @ be16 0x0800 @ [6, 4] @ be16 op @ sha @ be32 spa @ tha @ be32 tpa"

definition pkt_op :: "u8 list \<Rightarrow> u16" where "pkt_op p = rdb16 p 6"
definition pkt_sha :: "u8 list \<Rightarrow> u8 list" where "pkt_sha p = slice p 8 6"
definition pkt_spa :: "u8 list \<Rightarrow> u32" where "pkt_spa p = rdb32 p 14"
definition pkt_tpa :: "u8 list \<Rightarrow> u32" where "pkt_tpa p = rdb32 p 24"

definition arp_slot :: "u32 \<Rightarrow> u8 list \<Rightarrow> arp_entry list \<Rightarrow> arp_entry list" where
  "arp_slot ip mac c =
     (let e = \<lparr>ae_ip = ip, ae_mac = mac, ae_valid = 1\<rparr> in
      case find (\<lambda>i. ae_valid (c ! i) = 0 \<or> ae_ip (c ! i) = ip) [0..<length c] of
        Some i \<Rightarrow> c[i := e]
      | None \<Rightarrow> c[0 := e])"

definition arp_cache_add :: "u32 \<Rightarrow> u8 list \<Rightarrow> net \<Rightarrow> net" where
  "arp_cache_add ip mac s = s\<lparr>arp_cache := arp_slot ip mac (arp_cache s)\<rparr>"

definition arp_busca :: "arp_entry list \<Rightarrow> u32 \<Rightarrow> u8 list option" where
  "arp_busca c ip =
     map_option (\<lambda>i. ae_mac (c ! i)) (find (\<lambda>i. ae_valid (c ! i) \<noteq> 0 \<and> ae_ip (c ! i) = ip) [0..<length c])"

definition arp_cache_lookup :: "u32 \<Rightarrow> net \<Rightarrow> u8 list option" where
  "arp_cache_lookup ip s = arp_busca (arp_cache s) ip"

definition arp_send_request :: "u32 \<Rightarrow> net \<Rightarrow> net" where
  "arp_send_request target s =
     snd (eth_send ETH_BROADCAST ETH_PROTO_ARP
       (arp_packet 1 (mac_addr s) (net_our_ip s) (replicate 6 0) target) ARP_PKT_LEN s)"

definition arp_recv :: "nat option \<Rightarrow> net \<Rightarrow> net" where
  "arp_recv buf s =
     (case buf of
        None \<Rightarrow> netbuf_free buf s
      | Some b \<Rightarrow>
          if nb_len s b < ARP_PKT_LEN then netbuf_free buf s
          else let p = slice (nb_data s b) (unat (nb_off s b)) 28; sender = pkt_spa p;
            s = (if sender \<noteq> 0 then arp_cache_add sender (pkt_sha p) s else s);
            s = (if pkt_op p = 1 \<and> pkt_tpa p = net_our_ip s then
                   snd (eth_send (pkt_sha p) ETH_PROTO_ARP
                     (arp_packet 2 (mac_addr s) (net_our_ip s) (pkt_sha p) sender) ARP_PKT_LEN s)
                 else s)
          in netbuf_free buf s)"

partial_function (option) arp_espera :: "(net \<Rightarrow> (int \<times> net) option) \<Rightarrow> u32 \<Rightarrow> u32 \<Rightarrow> u32 \<Rightarrow> net \<Rightarrow> (u8 list option \<times> net) option" where
  "arp_espera poll ip start ticks_max s =
     (let (t, s) = sched_ticks_net s in
      if \<not> t - start < ticks_max then Some (None, s)
      else do {
        (_, s) \<leftarrow> poll s;
        case arp_cache_lookup ip s of
          Some mac \<Rightarrow> Some (Some mac, s)
        | None \<Rightarrow> arp_espera poll ip start ticks_max s })"

text \<open>\<open>Some mac\<close> is the result 0 with \<open>mac_out\<close> filled in, \<open>None\<close> the result -1.\<close>

definition arp_resolve :: "(net \<Rightarrow> (int \<times> net) option) \<Rightarrow> u32 \<Rightarrow> u32 \<Rightarrow> net \<Rightarrow> (u8 list option \<times> net) option" where
  "arp_resolve poll ip timeout_ms s =
     (case arp_cache_lookup ip s of
        Some mac \<Rightarrow> Some (Some mac, s)
      | None \<Rightarrow> let s = arp_send_request ip s; (start, s) = sched_ticks_net s in
          arp_espera poll ip start (timeout_ms div 10) s)"

definition arp_gratuitous :: "net \<Rightarrow> net" where
  "arp_gratuitous s = (if net_our_ip s = 0 then s else arp_send_request (net_our_ip s) s)"

section \<open>The table interface\<close>

locale tabela =
  fixes bem_formada :: "'t \<Rightarrow> bool"
    and busca :: "'t \<Rightarrow> 'k \<Rightarrow> 'v option"
    and insere :: "'k \<Rightarrow> 'v \<Rightarrow> 't \<Rightarrow> 't"
    and cabe :: "'t \<Rightarrow> 'k \<Rightarrow> bool"
  assumes insere_bf: "bem_formada t \<Longrightarrow> bem_formada (insere k v t)"
    and busca_mesma: "bem_formada t \<Longrightarrow> cabe t k \<Longrightarrow> busca (insere k v t) k = Some v"
    and busca_outra: "bem_formada t \<Longrightarrow> cabe t k \<Longrightarrow> k' \<noteq> k \<Longrightarrow> busca (insere k v t) k' = busca t k'"
    and cabe_presente: "bem_formada t \<Longrightarrow> busca t k \<noteq> None \<Longrightarrow> cabe t k"
begin

lemma reinsere: "bem_formada t \<Longrightarrow> cabe t k \<Longrightarrow> busca (insere k w (insere k v t)) = busca (insere k w t)"
proof
  fix q assume h: "bem_formada t" "cabe t k"
  have c: "cabe (insere k v t) k" using h by (simp add: cabe_presente insere_bf busca_mesma)
  show "busca (insere k w (insere k v t)) q = busca (insere k w t) q"
    using h c by (cases "q = k") (simp_all add: busca_mesma busca_outra insere_bf)
qed

text \<open>A sequence of insertions that all fit is the map update with the sequence.\<close>

fun insere_todos :: "('k \<times> 'v) list \<Rightarrow> 't \<Rightarrow> 't" where
  "insere_todos [] t = t"
| "insere_todos ((k, v) # xs) t = insere_todos xs (insere k v t)"

fun cabem :: "('k \<times> 'v) list \<Rightarrow> 't \<Rightarrow> bool" where
  "cabem [] t \<longleftrightarrow> True"
| "cabem ((k, v) # xs) t \<longleftrightarrow> cabe t k \<and> cabem xs (insere k v t)"

lemma insere_todos_mapa:
  "bem_formada t \<Longrightarrow> cabem xs t \<Longrightarrow> busca (insere_todos xs t) = busca t ++ map_of (rev xs)"
proof (induction xs arbitrary: t)
  case (Cons x xs)
  obtain k v where x: "x = (k, v)" by (cases x)
  have "busca (insere_todos xs (insere k v t)) = busca (insere k v t) ++ map_of (rev xs)"
    using Cons x by (simp add: insere_bf)
  moreover have "busca (insere k v t) = (busca t)(k \<mapsto> v)"
    using Cons.prems x by (auto simp: fun_eq_iff busca_mesma busca_outra)
  ultimately show ?case by (simp add: x map_add_def fun_eq_iff split: option.splits)
qed simp

end

text \<open>Both tables of the stack are lists of slots with the same search; the facts they share.\<close>

lemma find_upt:
  "find P [a..<b] = Some i \<longleftrightarrow> a \<le> i \<and> i < b \<and> P i \<and> (\<forall>j. a \<le> j \<and> j < i \<longrightarrow> \<not> P j)"
proof
  assume "find P [a..<b] = Some i"
  then show "a \<le> i \<and> i < b \<and> P i \<and> (\<forall>j. a \<le> j \<and> j < i \<longrightarrow> \<not> P j)"
    by (auto simp: find_Some_iff) (metis add.commute le_add_diff_inverse nth_upt less_diff_conv order_less_trans add_less_cancel_left)
next
  assume h: "a \<le> i \<and> i < b \<and> P i \<and> (\<forall>j. a \<le> j \<and> j < i \<longrightarrow> \<not> P j)"
  then show "find P [a..<b] = Some i"
    by (auto simp: find_Some_iff intro!: exI [of _ "i - a"])
qed

lemma slot_mesma:
  assumes "find (\<lambda>i. L (c ! i)) [0..<length c] = Some i" "\<And>x. M x \<Longrightarrow> L x" "M e"
  shows "find (\<lambda>j. M (c[i := e] ! j)) [0..<length c] = Some i"
  using assms unfolding find_upt by (auto simp: nth_list_update)

lemma slot_outra:
  assumes "i < length c" "\<not> M (c ! i)" "\<not> M e"
  shows "find (\<lambda>j. M (c[i := e] ! j)) [0..<length c] = find (\<lambda>j. M (c ! j)) [0..<length c]"
  by (rule find_cong) (use assms in \<open>auto simp: nth_list_update\<close>)

lemma slot_some: "find (\<lambda>j. M (c ! j)) [0..<length c] = Some j \<Longrightarrow> j < length c \<and> M (c ! j)"
  by (simp add: find_upt)

lemma slot_existe: "find (\<lambda>j. M (c ! j)) [0..<length c] \<noteq> None \<Longrightarrow> (\<And>x. M x \<Longrightarrow> L x) \<Longrightarrow> find (\<lambda>j. L (c ! j)) [0..<length c] \<noteq> None"
  by (auto simp: find_None_iff)

definition arp_cabe :: "arp_entry list \<Rightarrow> u32 \<Rightarrow> bool" where
  "arp_cabe c ip \<longleftrightarrow> find (\<lambda>i. ae_valid (c ! i) = 0 \<or> ae_ip (c ! i) = ip) [0..<length c] \<noteq> None"

lemma arp_slot_length [simp]: "length (arp_slot ip mac c) = length c"
  by (simp add: arp_slot_def Let_def split: option.splits)

interpretation ta: tabela "\<lambda>c. length c = ARP_CACHE_SIZE" arp_busca arp_slot arp_cabe
proof
  fix t :: "arp_entry list" and k v k'
  let ?e = "\<lparr>ae_ip = k, ae_mac = v, ae_valid = 1\<rparr>"
  show "length t = ARP_CACHE_SIZE \<Longrightarrow> length (arp_slot k v t) = ARP_CACHE_SIZE" by simp
  { assume "arp_cabe t k"
    then obtain i where i: "find (\<lambda>i. ae_valid (t ! i) = 0 \<or> ae_ip (t ! i) = k) [0..<length t] = Some i"
      by (auto simp: arp_cabe_def)
    have s: "arp_slot k v t = t[i := ?e]" "i < length t" "ae_valid (t ! i) = 0 \<or> ae_ip (t ! i) = k"
      using i [unfolded find_upt] by (simp_all add: arp_slot_def i)
    show "arp_busca (arp_slot k v t) k = Some v"
      using slot_mesma [OF i, of "\<lambda>x. ae_valid x \<noteq> 0 \<and> ae_ip x = k" ?e] s by (simp add: arp_busca_def)
    assume "k' \<noteq> k"
    then have f: "find (\<lambda>j. ae_valid (t[i := ?e] ! j) \<noteq> 0 \<and> ae_ip (t[i := ?e] ! j) = k') [0..<length t] =
        find (\<lambda>j. ae_valid (t ! j) \<noteq> 0 \<and> ae_ip (t ! j) = k') [0..<length t]"
      using slot_outra [OF s(2), of "\<lambda>x. ae_valid x \<noteq> 0 \<and> ae_ip x = k'" ?e] s(3) by auto
    then show "arp_busca (arp_slot k v t) k' = arp_busca t k'"
      using s(2,3) \<open>k' \<noteq> k\<close> unfolding arp_busca_def s(1) length_list_update f
      by (cases "find (\<lambda>j. ae_valid (t ! j) \<noteq> 0 \<and> ae_ip (t ! j) = k') [0..<length t]")
        (auto simp: nth_list_update dest!: slot_some) }
  show "arp_busca t k \<noteq> None \<Longrightarrow> arp_cabe t k"
    using slot_existe [of "\<lambda>x. ae_valid x \<noteq> 0 \<and> ae_ip x = k" t "\<lambda>x. ae_valid x = 0 \<or> ae_ip x = k"]
    by (auto simp: arp_busca_def arp_cabe_def)
qed

text \<open>A full cache loses the binding in slot 0, and nothing else.\<close>

lemma arp_cheia:
  assumes "length c = ARP_CACHE_SIZE" "\<not> arp_cabe c k"
  shows "arp_busca (arp_slot k v c) k = Some v"
    and "k' \<noteq> k \<Longrightarrow> k' \<noteq> ae_ip (c ! 0) \<Longrightarrow> arp_busca (arp_slot k v c) k' = arp_busca c k'"
proof -
  let ?e = "\<lparr>ae_ip = k, ae_mac = v, ae_valid = 1\<rparr>"
  have l: "0 < length c" using assms(1) by (simp add: ARP_CACHE_SIZE_def)
  have s: "arp_slot k v c = c[0 := ?e]" using assms(2) by (simp add: arp_cabe_def arp_slot_def)
  have "find (\<lambda>j. ae_valid (c[0 := ?e] ! j) \<noteq> 0 \<and> ae_ip (c[0 := ?e] ! j) = k) [0..<length c] = Some 0"
    using l unfolding find_upt by simp
  then show "arp_busca (arp_slot k v c) k = Some v" using l by (simp add: arp_busca_def s)
  assume k: "k' \<noteq> k" "k' \<noteq> ae_ip (c ! 0)"
  then have f: "find (\<lambda>j. ae_valid (c[0 := ?e] ! j) \<noteq> 0 \<and> ae_ip (c[0 := ?e] ! j) = k') [0..<length c] =
      find (\<lambda>j. ae_valid (c ! j) \<noteq> 0 \<and> ae_ip (c ! j) = k') [0..<length c]"
    using slot_outra [OF l, of "\<lambda>x. ae_valid x \<noteq> 0 \<and> ae_ip x = k'" ?e] by auto
  show "arp_busca (arp_slot k v c) k' = arp_busca c k'"
    using k l unfolding arp_busca_def s length_list_update f
    by (cases "find (\<lambda>j. ae_valid (c ! j) \<noteq> 0 \<and> ae_ip (c ! j) = k') [0..<length c]")
      (auto simp: nth_list_update dest!: slot_some)
qed

section \<open>Frames on the wire\<close>

lemma tsd_espera_ok: "\<exists>u t. tsd_espera k s = (u, s\<lparr>rede_t := t\<rparr>)"
proof (induction k arbitrary: s)
  case 0
  show ?case by (subst tsd_espera.simps) (auto simp: Let_def)
next
  case (Suc k)
  obtain u t where "tsd_espera k (s\<lparr>rede_t := rede_t s + 1\<rparr>) = (u, s\<lparr>rede_t := t\<rparr>)"
    using Suc [of "s\<lparr>rede_t := rede_t s + 1\<rparr>"] by auto
  then show ?case by (subst tsd_espera.simps) (auto simp: Let_def)
qed

text \<open>What a successful call puts on the wire, and the only fields it changes.\<close>

definition quadro :: "u8 list \<Rightarrow> u8 list \<Rightarrow> u16 \<Rightarrow> u8 list \<Rightarrow> u8 list" where
  "quadro dst src proto p = eth_header dst src proto @ p @ replicate (46 - length p) 0"

definition mesma_rede :: "net \<Rightarrow> net \<Rightarrow> bool" where
  "mesma_rede s s' \<longleftrightarrow> (\<exists>fr env t n. length fr = 1514 \<and> s' = s\<lparr>eth_frame := fr, enviados := env, rede_t := t, tx_next := n\<rparr>)"

definition rede_ok :: "net \<Rightarrow> bool" where
  "rede_ok s \<longleftrightarrow> rtl_initialized s \<and> length (eth_frame s) = 1514 \<and> length (mac_addr s) = 6 \<and> length (ip_packet s) = 1500 \<and>
     length (udp_out s) = 1500"

lemma eth_send_ok:
  assumes "rede_ok s" "length dst = 6" "unat len \<le> length p" "len \<le> 1500"
  shows "\<exists>r s'. eth_send dst proto p len s = (r, s') \<and> mesma_rede s s' \<and>
    enviados s' = enviados s @ [quadro dst (mac_addr s) proto (take (unat len) p)]"
proof -
  have l: "unat len \<le> 1500" using assms(4) by (simp add: word_le_nat_alt)
  define H where "H = eth_header dst (mac_addr s) proto"
  have lH: "length H = 14" using assms(1,2) by (simp add: H_def eth_header_def rede_ok_def)
  define f where "f = splice (splice (eth_frame s) 0 H) 14 (take (unat len) p)"
  have f: "f = H @ take (unat len) p @ drop (14 + unat len) (eth_frame s)"
    using lH assms(1,3) l by (simp add: f_def splice_def rede_ok_def add.commute)
  have lf: "length f = 1514" using f lH assms(1,3) l by (simp add: rede_ok_def)
  have n: "unat (ETH_HDR_LEN + len) = 14 + unat len"
    using l by (subst unat_add_lem [THEN iffD1]) (simp_all add: ETH_HDR_LEN_def)
  then have n2: "\<not> 1514 < ETH_HDR_LEN + len" "ETH_HDR_LEN + len \<noteq> 0" using l by (auto simp: word_less_nat_alt)
  have t: "take (14 + unat len) f = H @ take (unat len) p" using f lH assms(3) by simp
  define s1 where "s1 = s\<lparr>eth_frame := f, enviados := enviados s @ [H @ take (unat len) p @ replicate (46 - unat len) 0]\<rparr>"
  obtain u t where w: "tsd_espera 200000 s1 = (u, s1\<lparr>rede_t := t\<rparr>)" using tsd_espera_ok by blast
  let ?s' = "s1\<lparr>rede_t := t, tx_next := (tx_next s + 1) mod TX_DESC_COUNT\<rparr>"
  have "eth_send dst proto p len s = (if u AND TSD_TOK \<noteq> 0 then 0 else - 1, ?s')"
    using assms(1) assms(4) [unfolded not_less [symmetric]] n n2 t w
    by (simp add: eth_send_def rtl8139_send_def Let_def H_def [symmetric] f_def [symmetric] ETH_HDR_LEN_def [symmetric]
        rede_ok_def s1_def ETH_HDR_LEN_def [THEN arg_cong, of unat, simplified])
  moreover have "mesma_rede s ?s'" unfolding mesma_rede_def by (intro exI conjI, rule lf) (simp add: s1_def)
  ultimately show ?thesis using assms(3) by (simp add: s1_def quadro_def H_def min_absorb2)
qed

lemma mesma_rede_campos:
  assumes "mesma_rede s s'"
  shows "arp_cache s' = arp_cache s" "net_our_ip s' = net_our_ip s" "nb_data s' = nb_data s" "nb_len s' = nb_len s"
    "nb_off s' = nb_off s" "free_list s' = free_list s" "nb_next s' = nb_next s" "livre_count s' = livre_count s"
    "ip_packet s' = ip_packet s" "mac_addr s' = mac_addr s" "sockets s' = sockets s" "rede_ok s \<Longrightarrow> rede_ok s'"
  using assms by (auto simp: mesma_rede_def rede_ok_def)

section \<open>Properties\<close>

lemma rdb_Cons [buf_simps]: "0 < k \<Longrightarrow> rdb16 (x # b) k = rdb16 b (k - 1)" "0 < k \<Longrightarrow> rdb32 (x # b) k = rdb32 b (k - 1)"
  using rdb_append_ge(1) [of "[x]" k b] rdb_append_ge(2) [of "[x]" k b] by simp_all

lemma arp_packet_campos:
  assumes "length sha = 6" "length tha = 6"
  shows "length (arp_packet op sha spa tha tpa) = 28" "pkt_op (arp_packet op sha spa tha tpa) = op"
    "pkt_sha (arp_packet op sha spa tha tpa) = sha" "pkt_spa (arp_packet op sha spa tha tpa) = spa"
    "pkt_tpa (arp_packet op sha spa tha tpa) = tpa"
  using assms by (simp_all add: arp_packet_def pkt_op_def pkt_sha_def pkt_spa_def pkt_tpa_def buf_simps slice_def)

text \<open>What an ARP packet does.  A buffer holding an ARP packet from a sender with a nonzero address makes
  that address resolve to the sender's MAC, whatever the cache held; with room in the cache every other
  binding stays.  A request for our own address is answered, on the wire, with a reply addressed to the
  sender and carrying our MAC; anything else sends nothing.  The buffer goes back to the pool.\<close>

theorem arp_recv_correto:
  assumes "rede_ok s" "length (arp_cache s) = ARP_CACHE_SIZE" "28 \<le> nb_len s b"
    and "slice (nb_data s b) (unat (nb_off s b)) 28 = arp_packet op sha spa tha tpa" "length sha = 6" "length tha = 6" "spa \<noteq> 0"
  defines "s' \<equiv> arp_recv (Some b) s"
  shows "arp_cache_lookup spa s' = Some sha \<and> (arp_cabe (arp_cache s) spa \<longrightarrow> (\<forall>ip. ip \<noteq> spa \<longrightarrow> arp_cache_lookup ip s' = arp_cache_lookup ip s)) \<and>
    enviados s' = enviados s @ (if op = 1 \<and> tpa = net_our_ip s
      then [quadro sha (mac_addr s) ETH_PROTO_ARP (arp_packet 2 (mac_addr s) (net_our_ip s) sha spa)] else []) \<and>
    free_list s' = Some b \<and> livre_count s' = livre_count s + 1"
proof -
  note P = arp_packet_campos [OF assms(5,6)]
  define s1 where "s1 = arp_cache_add spa sha s"
  let ?R = "arp_packet 2 (mac_addr s) (net_our_ip s) sha spa"
  have r1: "rede_ok s1" "mac_addr s1 = mac_addr s" "net_our_ip s1 = net_our_ip s" "enviados s1 = enviados s" "livre_count s1 = livre_count s"
    using assms(1) by (simp_all add: s1_def arp_cache_add_def rede_ok_def)
  have lR: "length ?R = 28" using arp_packet_campos(1) [of "mac_addr s" sha] assms(1,5) by (simp add: rede_ok_def)
  obtain r s2 where s2: "eth_send sha ETH_PROTO_ARP ?R ARP_PKT_LEN s1 = (r, s2)" "mesma_rede s1 s2"
    "enviados s2 = enviados s1 @ [quadro sha (mac_addr s1) ETH_PROTO_ARP (take (unat ARP_PKT_LEN) ?R)]"
    using eth_send_ok [OF r1(1) assms(5), of ARP_PKT_LEN ?R ETH_PROTO_ARP] lR by (auto simp: ARP_PKT_LEN_def)
  have S: "s' = netbuf_free (Some b) (if op = 1 \<and> tpa = net_our_ip s then s2 else s1)"
    using assms(3,7) s2(1) r1(2,3)
    by (simp add: s'_def arp_recv_def assms(4) P Let_def s1_def ARP_PKT_LEN_def not_less)
  have c: "arp_cache s' = arp_slot spa sha (arp_cache s)"
    using mesma_rede_campos(1) [OF s2(2)] by (simp add: S netbuf_free_def s1_def arp_cache_add_def)
  have "arp_busca (arp_slot spa sha (arp_cache s)) spa = Some sha"
    using ta.busca_mesma [OF assms(2)] arp_cheia(1) [OF assms(2)] by blast
  moreover have "arp_cabe (arp_cache s) spa \<longrightarrow> (\<forall>ip. ip \<noteq> spa \<longrightarrow> arp_busca (arp_slot spa sha (arp_cache s)) ip = arp_busca (arp_cache s) ip)"
    using ta.busca_outra [OF assms(2)] by blast
  ultimately show ?thesis
    using s2(3) r1 lR mesma_rede_campos(8) [OF s2(2)]
    by (auto simp: S netbuf_free_def arp_cache_lookup_def ARP_PKT_LEN_def c [unfolded S netbuf_free_def, simplified] s1_def arp_cache_add_def
        split: if_splits)
qed

definition soquete_vazio :: tcp_socket where
  "soquete_vazio = \<lparr>remote_ip = 0, local_port = 0, remote_port = 0, seq_num = 0, ack_num = 0, tcp_state = 0,
     rx_buf = replicate 2048 0, rx_head = 0, rx_tail = 0\<rparr>"

definition net_exemplo :: net where
  "net_exemplo = \<lparr>nb_data = (\<lambda>_. replicate 1536 0), nb_len = (\<lambda>_. 0), nb_off = (\<lambda>_. 0), nb_next = (\<lambda>_. None), free_list = None,
     livre_count = 0, rtl_initialized = True, mac_addr = [0x52, 0x54, 0, 0x12, 0x34, 0x56], recv_cb = True, rx_read_ptr = 0, tx_next = 0,
     rede_t = 0, isr_em = (\<lambda>_. 0), cr_em = (\<lambda>_. 1), cbr_em = (\<lambda>_. 0), tsd_em = (\<lambda>_. 0x8000), rx_em = (\<lambda>_. replicate 9708 0),
     enviados = [], tiques = of_nat, tique_n = 0, eth_frame = replicate 1514 0, ip_packet = replicate 1500 0,
     udp_out = replicate 1500 0, tcp_out = replicate 1500 0, arp_cache = replicate 16 \<lparr>ae_ip = 0, ae_mac = replicate 6 0, ae_valid = 0\<rparr>,
     net_our_ip = 0x0A00020F, net_gateway_ip = 0x0A000202, net_netmask = 0xFFFFFF00, net_dns_ip = 0x0A000203, ip_id_counter = 1,
     bindings = replicate 8 \<lparr>ub_port = 0, ub_handler = None\<rparr>, sockets = replicate 4 soquete_vazio, next_local_port = 49152,
     dns_result_ip = 0, dns_got_reply = False, dns_query_id = 0x1234, dns_buf = replicate 512 0, dhcp_got_offer = False,
     dhcp_got_ack = False, offered_ip = 0, server_id = 0, offered_gw = 0, offered_mask = 0, offered_dns = 0, xid = 0xDEADBEEF,
     dhcp_pkt = replicate 552 0\<rparr>"

lemma net_exemplo_ok: "rede_ok net_exemplo" "length (arp_cache net_exemplo) = ARP_CACHE_SIZE"
  by (simp_all add: rede_ok_def net_exemplo_def ARP_CACHE_SIZE_def)

theorem arp_recv_correto_witness:
  "\<exists>s b. arp_cache_lookup 0x0A000202 (arp_recv (Some b) s) = Some [1, 2, 3, 4, 5, 6] \<and>
     enviados (arp_recv (Some b) s) = enviados s @ [quadro [1, 2, 3, 4, 5, 6] (mac_addr s) ETH_PROTO_ARP
       (arp_packet 2 (mac_addr s) (net_our_ip s) [1, 2, 3, 4, 5, 6] 0x0A000202)]"
proof -
  let ?p = "arp_packet 1 [1, 2, 3, 4, 5, 6] 0x0A000202 (replicate 6 0) 0x0A00020F"
  let ?s = "net_exemplo\<lparr>nb_data := \<lambda>_. replicate 14 0 @ ?p, nb_len := \<lambda>_. 42, nb_off := \<lambda>_. 14\<rparr>"
  have l: "length ?p = 28" by (rule arp_packet_campos(1)) simp_all
  have "rede_ok ?s" "length (arp_cache ?s) = ARP_CACHE_SIZE" "28 \<le> nb_len ?s 0"
    using net_exemplo_ok by (simp_all add: rede_ok_def)
  moreover have "slice (nb_data ?s 0) (unat (nb_off ?s 0)) 28 = ?p" using l by (simp add: slice_def)
  moreover have "net_our_ip ?s = 0x0A00020F" by (simp add: net_exemplo_def)
  ultimately show ?thesis
    using arp_recv_correto [of ?s 0 1 "[1, 2, 3, 4, 5, 6]" "0x0A000202" "replicate 6 0" "0x0A00020F"]
    by (intro exI [of _ ?s] exI [of _ 0]) auto
qed

end
