(* ===== verification/Udp.thy ===== *)
theory Udp
  imports Arp
begin

text \<open>
  Sending IPv4 and UDP (\<^verbatim>\<open>kernel/net/ipv4.c\<close>, \<^verbatim>\<open>udp.c\<close>), the table of UDP ports, and the two protocols that
  receive through it: DNS (\<^verbatim>\<open>dns.c\<close>) and DHCP (\<^verbatim>\<open>dhcp.c\<close>), packet building and parsing.  The received data is
  the tail of the buffer that the C pointer addresses; the length beside it is the sender's.
\<close>

section \<open>IPv4 output\<close>

definition IP_PROTO_TCP :: u8 where "IP_PROTO_TCP = 6"
definition IP_PROTO_UDP :: u8 where "IP_PROTO_UDP = 17"
definition IP_HDR_LEN :: u16 where "IP_HDR_LEN = 20"

definition ip_header :: "u16 \<Rightarrow> u16 \<Rightarrow> u8 \<Rightarrow> u32 \<Rightarrow> u32 \<Rightarrow> u8 list" where
  "ip_header tot ident proto src dst =
     [0x45, 0] @ be16 tot @ be16 ident @ be16 0 @ [64, proto] @ be16 0 @ be32 src @ be32 dst"

definition nexthop :: "u32 \<Rightarrow> net \<Rightarrow> u32" where
  "nexthop dst s =
     (if net_netmask s \<noteq> 0 \<and> dst AND net_netmask s = net_our_ip s AND net_netmask s then dst
      else if net_gateway_ip s \<noteq> 0 then net_gateway_ip s else dst)"

definition ip_send :: "(net \<Rightarrow> (int \<times> net) option) \<Rightarrow> u32 \<Rightarrow> u8 \<Rightarrow> u8 list \<Rightarrow> u16 \<Rightarrow> net \<Rightarrow> (int \<times> net) option" where
  "ip_send poll dst proto payload len s =
     (if 1480 < unat len + unat IP_HDR_LEN then Some (- 1, s)
      else let h = ip_header (IP_HDR_LEN + len) (ip_id_counter s) proto (net_our_ip s) dst;
               h = splice h 10 (le16 (ip_checksum h));
               pk = splice (splice (ip_packet s) 0 h) (unat IP_HDR_LEN) (take (unat len) payload);
               s = s\<lparr>ip_packet := pk, ip_id_counter := ip_id_counter s + 1\<rparr>
        in if dst = 0xFFFFFFFF \<or> dst = 0 then
             Some (eth_send ETH_BROADCAST ETH_PROTO_IP (ip_packet s) (IP_HDR_LEN + len) s)
           else do {
             (mac, s) \<leftarrow> arp_resolve poll (nexthop dst s) 3000 s;
             case mac of
               None \<Rightarrow> Some (- 1, s)
             | Some m \<Rightarrow> Some (eth_send m ETH_PROTO_IP (ip_packet s) (IP_HDR_LEN + len) s) })"

section \<open>UDP\<close>

definition UDP_HDR_LEN :: u16 where "UDP_HDR_LEN = 8"
definition UDP_MAX_HANDLERS :: nat where "UDP_MAX_HANDLERS = 8"

definition udp_header :: "u16 \<Rightarrow> u16 \<Rightarrow> u16 \<Rightarrow> u8 list" where
  "udp_header src dst len = be16 src @ be16 dst @ be16 len @ be16 0"

definition udp_send :: "(net \<Rightarrow> (int \<times> net) option) \<Rightarrow> u32 \<Rightarrow> u16 \<Rightarrow> u16 \<Rightarrow> u8 list \<Rightarrow> u16 \<Rightarrow> net \<Rightarrow> (int \<times> net) option" where
  "udp_send poll dst src_port dst_port dados len s =
     (if 1480 < unat len + unat UDP_HDR_LEN then Some (- 1, s)
      else let o' = splice (splice (udp_out s) 0 (udp_header src_port dst_port (UDP_HDR_LEN + len))) (unat UDP_HDR_LEN) (take (unat len) dados);
               s = s\<lparr>udp_out := o'\<rparr>
           in ip_send poll dst IP_PROTO_UDP o' (UDP_HDR_LEN + len) s)"

definition udp_slot :: "u16 \<Rightarrow> udp_handler \<Rightarrow> udp_binding list \<Rightarrow> udp_binding list option" where
  "udp_slot port h bs =
     map_option (\<lambda>i. bs[i := \<lparr>ub_port = port, ub_handler = Some h\<rparr>])
       (find (\<lambda>i. ub_handler (bs ! i) = None \<or> ub_port (bs ! i) = port) [0..<length bs])"

definition udp_bind :: "u16 \<Rightarrow> udp_handler \<Rightarrow> net \<Rightarrow> int \<times> net" where
  "udp_bind port h s =
     (case udp_slot port h (bindings s) of Some bs \<Rightarrow> (0, s\<lparr>bindings := bs\<rparr>) | None \<Rightarrow> (- 1, s))"

definition udp_unbind :: "u16 \<Rightarrow> net \<Rightarrow> net" where
  "udp_unbind port s =
     s\<lparr>bindings := map (\<lambda>b. if ub_port b = port then \<lparr>ub_port = 0, ub_handler = None\<rparr> else b) (bindings s)\<rparr>"

definition udp_busca :: "udp_binding list \<Rightarrow> u16 \<Rightarrow> udp_handler option" where
  "udp_busca bs port =
     (case find (\<lambda>i. ub_handler (bs ! i) \<noteq> None \<and> ub_port (bs ! i) = port) [0..<length bs] of
        Some i \<Rightarrow> ub_handler (bs ! i) | None \<Rightarrow> None)"

section \<open>DNS\<close>

definition DNS_PORT :: u16 where "DNS_PORT = 53"
definition DNS_SRC_PORT :: u16 where "DNS_SRC_PORT = 5353"
definition ponto :: u8 where "ponto = 46"

lemma resto_rotulo: "p \<noteq> [] \<Longrightarrow> length (tl (dropWhile P p)) < length p"
  using length_dropWhile_le [of P p] by (cases p) (auto simp: less_Suc_eq_le)

function dns_encode_name :: "u8 list \<Rightarrow> u8 list option" where
  "dns_encode_name p =
     (if p = [] then Some [0]
      else let rotulo = takeWhile (\<lambda>c. c \<noteq> ponto) p in
        if 63 < length rotulo then None
        else case dns_encode_name (tl (dropWhile (\<lambda>c. c \<noteq> ponto) p)) of
          None \<Rightarrow> None | Some r \<Rightarrow> Some (of_nat (length rotulo) # rotulo @ r))"
  by pat_completeness auto
termination by (relation "measure length") (use resto_rotulo in auto)

declare dns_encode_name.simps [simp del]

text \<open>Skipping a name: labels up to the terminator, or a compression pointer.\<close>

function pula_nome :: "u8 list \<Rightarrow> nat \<Rightarrow> nat \<Rightarrow> nat" where
  "pula_nome d fim p =
     (if p < fim \<and> d ! p \<noteq> 0 then
        (if d ! p AND 0xC0 = 0xC0 then p + 2 else pula_nome d fim (p + unat (d ! p) + 1))
      else p)"
  by pat_completeness auto
termination by (relation "measure (\<lambda>(d, fim, p). fim - p)") auto

declare pula_nome.simps [simp del]

fun dns_respostas :: "nat \<Rightarrow> u8 list \<Rightarrow> nat \<Rightarrow> nat \<Rightarrow> u32 option" where
  "dns_respostas 0 d fim p = None"
| "dns_respostas (Suc n) d fim p =
     (if \<not> p < fim then None
      else let p = (if d ! p AND 0xC0 = 0xC0 then p + 2 else pula_nome d fim p + 1) in
        if fim < p + 10 then None
        else if rdb16 d p = 1 \<and> rdb16 d (p + 2) = 1 \<and> rdb16 d (p + 8) = 4 then Some (rdb32 d (p + 10))
        else dns_respostas n d fim (p + 10 + unat (rdb16 d (p + 8))))"

definition dns_handler :: "u8 list \<Rightarrow> u16 \<Rightarrow> net \<Rightarrow> net" where
  "dns_handler d len s =
     (if len < 12 then s
      else if rdb16 d 0 \<noteq> dns_query_id s then s
      else if rdb16 d 2 AND 0x8000 = 0 then s
      else if rdb16 d 6 = 0 then s
      else let fim = unat len; p = pula_nome d fim 12;
               p = (if p < fim \<and> d ! p = 0 then p + 1 else p) + 4 in
        case dns_respostas (unat (rdb16 d 6)) d fim p of
          None \<Rightarrow> s
        | Some ip \<Rightarrow> s\<lparr>dns_result_ip := ip, dns_got_reply := True\<rparr>)"

definition dns_header :: "u16 \<Rightarrow> u8 list" where
  "dns_header ident = be16 ident @ be16 0x0100 @ be16 1 @ be16 0 @ be16 0 @ be16 0"

definition dns_query :: "u16 \<Rightarrow> u8 list \<Rightarrow> u8 list" where
  "dns_query ident nome = dns_header ident @ nome @ [0, 1, 0, 1]"

section \<open>DHCP\<close>

definition DHCP_SERVER_PORT :: u16 where "DHCP_SERVER_PORT = 67"
definition DHCP_CLIENT_PORT :: u16 where "DHCP_CLIENT_PORT = 68"
definition DHCP_DISCOVER :: u8 where "DHCP_DISCOVER = 1"
definition DHCP_OFFER :: u8 where "DHCP_OFFER = 2"
definition DHCP_REQUEST :: u8 where "DHCP_REQUEST = 3"
definition DHCP_ACK :: u8 where "DHCP_ACK = 5"
definition OPT_SUBNET_MASK :: u8 where "OPT_SUBNET_MASK = 1"
definition OPT_ROUTER :: u8 where "OPT_ROUTER = 3"
definition OPT_DNS :: u8 where "OPT_DNS = 6"
definition OPT_MSG_TYPE :: u8 where "OPT_MSG_TYPE = 53"
definition OPT_SERVER_ID :: u8 where "OPT_SERVER_ID = 54"
definition OPT_PARAM_REQ :: u8 where "OPT_PARAM_REQ = 55"
definition OPT_END :: u8 where "OPT_END = 255"
definition DHCP_PKT_LEN :: u16 where "DHCP_PKT_LEN = 552"

lemmas opt_defs = OPT_SUBNET_MASK_def OPT_ROUTER_def OPT_DNS_def OPT_MSG_TYPE_def OPT_SERVER_ID_def OPT_PARAM_REQ_def OPT_END_def

definition dhcp_base :: "net \<Rightarrow> u8 list" where
  "dhcp_base s =
     [1, 1, 6, 0] @ be32 (xid s) @ be16 0 @ be16 0x8000 @ replicate 16 0 @ mac_addr s @ replicate 10 0 @
     replicate 192 0 @ be32 0x63825363"

definition com_opcoes :: "u8 list \<Rightarrow> u8 list \<Rightarrow> u8 list" where
  "com_opcoes base opts = base @ opts @ replicate (312 - length opts) 0"

definition build_discover :: "net \<Rightarrow> net" where
  "build_discover s = s\<lparr>dhcp_pkt := com_opcoes (dhcp_base s)
     [OPT_MSG_TYPE, 1, DHCP_DISCOVER, OPT_PARAM_REQ, 3, OPT_SUBNET_MASK, OPT_ROUTER, OPT_DNS, OPT_END]\<rparr>"

definition ip_octetos :: "u32 \<Rightarrow> u8 list" where
  "ip_octetos ip = [ucast (drop_bit 24 ip), ucast (drop_bit 16 ip), ucast (drop_bit 8 ip), ucast ip]"

definition build_request :: "net \<Rightarrow> net" where
  "build_request s = s\<lparr>dhcp_pkt := com_opcoes (dhcp_base s)
     ([OPT_MSG_TYPE, 1, DHCP_REQUEST, 50, 4] @ ip_octetos (offered_ip s) @ [OPT_SERVER_ID, 4] @ ip_octetos (server_id s) @ [OPT_END])\<rparr>"

text \<open>The option loop; \<open>o'\<close> is the index of \<open>opt\<close> in the data, \<open>tipo\<close> is \<open>msg_type\<close>.\<close>

definition dhcp_opcao :: "u8 \<Rightarrow> u8 list \<Rightarrow> nat \<Rightarrow> u8 \<times> net \<Rightarrow> u8 \<times> net" where
  "dhcp_opcao code d p ts =
     (let (tipo, s) = ts in
      if code = OPT_MSG_TYPE then (d ! p, s)
      else if code = OPT_SUBNET_MASK then (tipo, s\<lparr>offered_mask := rdb32 d p\<rparr>)
      else if code = OPT_ROUTER then (tipo, s\<lparr>offered_gw := rdb32 d p\<rparr>)
      else if code = OPT_DNS then (tipo, s\<lparr>offered_dns := rdb32 d p\<rparr>)
      else if code = OPT_SERVER_ID then (tipo, s\<lparr>server_id := rdb32 d p\<rparr>)
      else (tipo, s))"

function dhcp_opcoes :: "u8 list \<Rightarrow> nat \<Rightarrow> u8 \<times> net \<Rightarrow> u8 \<times> net" where
  "dhcp_opcoes d p ts =
     (if p < 552 \<and> d ! p \<noteq> OPT_END then
        (if d ! p = 0 then dhcp_opcoes d (p + 1) ts
         else dhcp_opcoes d (p + 2 + unat (d ! (p + 1))) (dhcp_opcao (d ! p) d (p + 2) ts))
      else ts)"
  by pat_completeness auto
termination by (relation "measure (\<lambda>(d, p, ts). 552 - p)") auto

declare dhcp_opcoes.simps [simp del]

definition dhcp_handler :: "u8 list \<Rightarrow> u16 \<Rightarrow> net \<Rightarrow> net" where
  "dhcp_handler d len s =
     (if len < DHCP_PKT_LEN then s
      else if rdb32 d 4 \<noteq> xid s then s
      else if rdb32 d 236 \<noteq> 0x63825363 then s
      else let (tipo, s) = dhcp_opcoes d 240 (0, s) in
        if tipo = DHCP_OFFER \<and> \<not> dhcp_got_offer s then s\<lparr>offered_ip := rdb32 d 16, dhcp_got_offer := True\<rparr>
        else if tipo = DHCP_ACK \<and> dhcp_got_offer s then s\<lparr>dhcp_got_ack := True\<rparr>
        else s)"

section \<open>UDP input\<close>

definition chama :: "udp_handler \<Rightarrow> u8 list \<Rightarrow> u16 \<Rightarrow> net \<Rightarrow> net" where
  "chama h d len s = (case h of Dns_handler \<Rightarrow> dns_handler d len s | Dhcp_handler \<Rightarrow> dhcp_handler d len s)"

definition udp_recv :: "nat option \<Rightarrow> net \<Rightarrow> net" where
  "udp_recv buf s =
     (case buf of
        None \<Rightarrow> s
      | Some b \<Rightarrow>
          let d = drop (unat (nb_off s b)) (nb_data s b); avail = nb_len s b - nb_off s b in
          if avail < UDP_HDR_LEN then netbuf_free buf s
          else let dst_port = rdb16 d 2; payload_len = rdb16 d 4 - UDP_HDR_LEN in
            case udp_busca (bindings s) dst_port of
              Some h \<Rightarrow> netbuf_free buf (chama h (drop (unat UDP_HDR_LEN) d) payload_len s)
            | None \<Rightarrow> netbuf_free buf s)"

section \<open>The port table\<close>

definition udp_cabe :: "udp_binding list \<Rightarrow> u16 \<Rightarrow> bool" where
  "udp_cabe bs port \<longleftrightarrow> udp_slot port Dns_handler bs \<noteq> None"

definition udp_insere :: "u16 \<Rightarrow> udp_handler \<Rightarrow> udp_binding list \<Rightarrow> udp_binding list" where
  "udp_insere port h bs = (case udp_slot port h bs of Some bs' \<Rightarrow> bs' | None \<Rightarrow> bs)"

lemma udp_busca_alt:
  "udp_busca bs port = Option.bind (find (\<lambda>i. ub_handler (bs ! i) \<noteq> None \<and> ub_port (bs ! i) = port) [0..<length bs]) (\<lambda>i. ub_handler (bs ! i))"
  by (simp add: udp_busca_def split: option.splits)

lemma udp_insere_length [simp]: "length (udp_insere p h bs) = length bs"
  by (auto simp: udp_insere_def udp_slot_def split: option.splits)

interpretation tu: tabela "\<lambda>bs. length bs = UDP_MAX_HANDLERS" udp_busca udp_insere udp_cabe
proof
  fix t :: "udp_binding list" and k v k'
  let ?e = "\<lparr>ub_port = k, ub_handler = Some v\<rparr>"
  show "length t = UDP_MAX_HANDLERS \<Longrightarrow> length (udp_insere k v t) = UDP_MAX_HANDLERS" by simp
  { assume "udp_cabe t k"
    then obtain i where i: "find (\<lambda>i. ub_handler (t ! i) = None \<or> ub_port (t ! i) = k) [0..<length t] = Some i"
      by (auto simp: udp_cabe_def udp_slot_def)
    have s: "udp_insere k v t = t[i := ?e]" "i < length t" "ub_handler (t ! i) = None \<or> ub_port (t ! i) = k"
      using i [unfolded find_upt] by (simp_all add: udp_insere_def udp_slot_def i)
    show "udp_busca (udp_insere k v t) k = Some v"
      using slot_mesma [OF i, of "\<lambda>x. ub_handler x \<noteq> None \<and> ub_port x = k" ?e] s by (simp add: udp_busca_alt)
    assume "k' \<noteq> k"
    then have f: "find (\<lambda>j. ub_handler (t[i := ?e] ! j) \<noteq> None \<and> ub_port (t[i := ?e] ! j) = k') [0..<length t] =
        find (\<lambda>j. ub_handler (t ! j) \<noteq> None \<and> ub_port (t ! j) = k') [0..<length t]"
      using slot_outra [OF s(2), of "\<lambda>x. ub_handler x \<noteq> None \<and> ub_port x = k'" ?e] s(3) by auto
    then show "udp_busca (udp_insere k v t) k' = udp_busca t k'"
      using s(2,3) \<open>k' \<noteq> k\<close> unfolding udp_busca_alt s(1) length_list_update f
      by (cases "find (\<lambda>j. ub_handler (t ! j) \<noteq> None \<and> ub_port (t ! j) = k') [0..<length t]")
        (auto simp: nth_list_update dest!: slot_some) }
  show "udp_busca t k \<noteq> None \<Longrightarrow> udp_cabe t k"
    using slot_existe [of "\<lambda>x. ub_handler x \<noteq> None \<and> ub_port x = k" t "\<lambda>x. ub_handler x = None \<or> ub_port x = k"]
    by (auto simp: udp_busca_alt udp_cabe_def udp_slot_def split: bind_splits)
qed

lemma udp_unbind_busca:
  "p \<noteq> 0 \<Longrightarrow> udp_busca (bindings (udp_unbind p s)) q = (if q = p then None else udp_busca (bindings s) q)"
proof -
  assume p: "p \<noteq> 0"
  let ?f = "\<lambda>b. if ub_port b = p then \<lparr>ub_port = 0, ub_handler = None\<rparr> else b" and ?bs = "bindings s"
  have f: "find (\<lambda>i. ub_handler (map ?f ?bs ! i) \<noteq> None \<and> ub_port (map ?f ?bs ! i) = q) [0..<length ?bs] =
      (if q = p then None else find (\<lambda>i. ub_handler (?bs ! i) \<noteq> None \<and> ub_port (?bs ! i) = q) [0..<length ?bs])"
  proof (cases "q = p")
    case True
    then show ?thesis by (auto simp: find_None_iff p)
  next
    case False
    then have "find (\<lambda>i. ub_handler (map ?f ?bs ! i) \<noteq> None \<and> ub_port (map ?f ?bs ! i) = q) [0..<length ?bs] =
        find (\<lambda>i. ub_handler (?bs ! i) \<noteq> None \<and> ub_port (?bs ! i) = q) [0..<length ?bs]"
      by (intro find_cong) auto
    with False show ?thesis by simp
  qed
  have b: "bindings (udp_unbind p s) = map ?f ?bs" by (simp add: udp_unbind_def)
  show ?thesis
  proof (cases "q = p")
    case True
    show ?thesis unfolding udp_busca_alt b length_map f by (simp add: True)
  next
    case False
    show ?thesis
    proof (cases "find (\<lambda>i. ub_handler (?bs ! i) \<noteq> None \<and> ub_port (?bs ! i) = q) [0..<length ?bs]")
      case None
      show ?thesis unfolding udp_busca_alt b length_map f None by (simp add: False)
    next
      case (Some a)
      then have "a < length ?bs" "ub_port (?bs ! a) = q" by (auto simp: find_upt)
      then show ?thesis unfolding udp_busca_alt b length_map f Some using False by simp
    qed
  qed
qed

section \<open>Sending\<close>

lemma unat_mais16: "unat (a :: u16) + unat b < 65536 \<Longrightarrow> unat (a + b) = unat a + unat b"
  by (subst unat_add_lem [THEN iffD1]) simp_all

text \<open>The header on the wire: its checksum verifies and every other field is the one asked for.\<close>

definition cabecalho :: "u8 list \<Rightarrow> u16 \<Rightarrow> u16 \<Rightarrow> u8 \<Rightarrow> u32 \<Rightarrow> u32 \<Rightarrow> bool" where
  "cabecalho h tot ident proto src dst \<longleftrightarrow>
     length h = 20 \<and> ip_checksum h = 0 \<and> h ! 0 = 0x45 \<and> h ! 9 = proto \<and> rdb16 h 2 = tot \<and> rdb16 h 4 = ident \<and>
     rdb32 h 12 = src \<and> rdb32 h 16 = dst"

lemma rdb_splice_other:
  assumes "k + length xs \<le> length b" "p + 4 \<le> k \<or> k + length xs \<le> p" "p + 4 \<le> length b"
  shows "rdb32 (splice b k xs) p = rdb32 b p"
  using assms by (simp add: rdb32_def rd32_splice_other)

lemma rdb16_splice_other:
  assumes "k + length xs \<le> length b" "p + 2 \<le> k \<or> k + length xs \<le> p" "p + 2 \<le> length b"
  shows "rdb16 (splice b k xs) p = rdb16 b p"
  using assms rd16_slice [of p b] rd16_slice [of p "splice b k xs"] slice_splice_other [of k xs b p 2]
  by (simp add: rdb16_def)

lemma cabecalho_ok:
  fixes tot ident proto src dst
  defines "h \<equiv> ip_header tot ident proto src dst"
  shows "cabecalho (splice h 10 (le16 (ip_checksum h))) tot ident proto src dst"
proof -
  have l: "length h = 20" by (simp add: h_def ip_header_def)
  have z: "slice h 10 2 = [0, 0]" by (simp add: h_def ip_header_def slice_def be16_bytes be32_bytes)
  have f: "h ! 0 = 0x45" "h ! 9 = proto" by (simp_all add: h_def ip_header_def be16_bytes be32_bytes)
  have r: "rdb16 h 2 = tot" "rdb16 h 4 = ident" "rdb32 h 12 = src" "rdb32 h 16 = dst"
    by (simp_all add: h_def ip_header_def buf_simps)
  show ?thesis
    using checksum_instalado [of h 10] l z f r
    by (simp add: cabecalho_def nth_splice rdb_splice_other rdb16_splice_other)
qed

definition destino :: "u32 \<Rightarrow> net \<Rightarrow> u8 list \<Rightarrow> bool" where
  "destino dst s m \<longleftrightarrow> (if dst = 0xFFFFFFFF \<or> dst = 0 then m = ETH_BROADCAST
     else arp_cache_lookup (nexthop dst s) s = Some m) \<and> length m = 6"

lemma destino_muda [simp]:
  "nexthop dst (s\<lparr>ip_packet := x, ip_id_counter := y\<rparr>) = nexthop dst s"
  "arp_cache_lookup ip (s\<lparr>ip_packet := x, ip_id_counter := y\<rparr>) = arp_cache_lookup ip s"
  "destino dst (s\<lparr>udp_out := z\<rparr>) m = destino dst s m"
  by (simp_all add: destino_def nexthop_def arp_cache_lookup_def)

lemma ip_send_ok:
  assumes "rede_ok s" "destino dst s m" "unat len \<le> 1460" "unat len \<le> length payload"
  shows "\<exists>r s' h. ip_send poll dst proto payload len s = Some (r, s') \<and> cabecalho h (20 + len) (ip_id_counter s) proto (net_our_ip s) dst \<and>
    enviados s' = enviados s @ [quadro m (mac_addr s) ETH_PROTO_IP (h @ take (unat len) payload)] \<and> rede_ok s' \<and>
    mesma_rede (s\<lparr>ip_packet := ip_packet s', ip_id_counter := ip_id_counter s + 1\<rparr>) s'"
proof -
  define h0 where "h0 = ip_header (IP_HDR_LEN + len) (ip_id_counter s) proto (net_our_ip s) dst"
  define h where "h = splice h0 10 (le16 (ip_checksum h0))"
  have hc: "cabecalho h (20 + len) (ip_id_counter s) proto (net_our_ip s) dst"
    unfolding h_def h0_def using cabecalho_ok by (simp add: IP_HDR_LEN_def)
  then have lh: "length h = 20" by (simp add: cabecalho_def)
  define pk where "pk = splice (splice (ip_packet s) 0 h) 20 (take (unat len) payload)"
  have pk: "pk = h @ take (unat len) payload @ drop (20 + unat len) (ip_packet s)"
    using lh assms(1,3,4) by (simp add: pk_def splice_def rede_ok_def add.commute)
  have lpk: "length pk = 1500" using pk lh assms(1,3,4) by (simp add: rede_ok_def)
  define s1 where "s1 = s\<lparr>ip_packet := pk, ip_id_counter := ip_id_counter s + 1\<rparr>"
  have r1: "rede_ok s1" using assms(1) lpk by (simp add: s1_def rede_ok_def)
  have n: "unat (IP_HDR_LEN + len) = 20 + unat len" using assms(3) by (simp add: unat_mais16 IP_HDR_LEN_def)
  then have n2: "IP_HDR_LEN + len \<le> 1500" using assms(3) by (simp add: word_le_nat_alt)
  obtain r s' where e: "eth_send m ETH_PROTO_IP pk (IP_HDR_LEN + len) s1 = (r, s')" "mesma_rede s1 s'"
      "enviados s' = enviados s1 @ [quadro m (mac_addr s1) ETH_PROTO_IP (take (unat (IP_HDR_LEN + len)) pk)]"
    using eth_send_ok [OF r1, of m "IP_HDR_LEN + len" pk ETH_PROTO_IP] assms(2) n n2 lpk assms(3) by (auto simp: destino_def)
  have p: "ip_packet s1 = pk" by (simp add: s1_def)
  have i20: "unat IP_HDR_LEN = 20" by (simp add: IP_HDR_LEN_def)
  have "ip_send poll dst proto payload len s = Some (r, s')"
  proof (cases "dst = 0xFFFFFFFF \<or> dst = 0")
    case True
    then show ?thesis using e(1) assms(2,3)
      by (simp add: ip_send_def Let_def destino_def i20 h0_def [symmetric] h_def [symmetric] pk_def [symmetric] s1_def [symmetric] p del: de_Morgan_disj)
  next
    case False
    have "arp_cache_lookup (nexthop dst s) s = Some m" using assms(2) False by (simp add: destino_def)
    then show ?thesis using e(1) assms(3) False
      by (simp add: ip_send_def Let_def i20 h0_def h_def pk_def s1_def arp_resolve_def)
  qed
  moreover have "ip_packet s' = pk" using mesma_rede_campos(9) [OF e(2)] p by simp
  moreover have "take (20 + unat len) pk = h @ take (unat len) payload" using pk lh assms(4) by simp
  ultimately show ?thesis using hc e(2,3) mesma_rede_campos(12) [OF e(2)] r1 n by (intro exI [of _ r] exI [of _ s'] exI [of _ h]) (simp add: s1_def)
qed

lemma udp_send_ok:
  assumes "rede_ok s" "destino dst s m" "unat len \<le> 1452" "unat len \<le> length dados"
  shows "\<exists>r s' h. udp_send poll dst sp dp dados len s = Some (r, s') \<and> cabecalho h (28 + len) (ip_id_counter s) IP_PROTO_UDP (net_our_ip s) dst \<and>
    enviados s' = enviados s @ [quadro m (mac_addr s) ETH_PROTO_IP (h @ udp_header sp dp (8 + len) @ take (unat len) dados)]"
proof -
  define U where "U = udp_header sp dp (UDP_HDR_LEN + len)"
  define o1 where "o1 = splice (splice (udp_out s) 0 U) 8 (take (unat len) dados)"
  have lU: "length U = 8" by (simp add: U_def udp_header_def)
  have o1: "o1 = U @ take (unat len) dados @ drop (8 + unat len) (udp_out s)"
    using lU assms by (simp add: o1_def splice_def rede_ok_def add.commute)
  have lo: "length o1 = 1500" using o1 lU assms by (simp add: rede_ok_def)
  define s1 where "s1 = s\<lparr>udp_out := o1\<rparr>"
  have n: "unat (UDP_HDR_LEN + len) = 8 + unat len" using assms(3) by (simp add: unat_mais16 UDP_HDR_LEN_def)
  have r1: "rede_ok s1" "destino dst s1 m" using assms(1,2) lo
    by (simp_all add: s1_def rede_ok_def)
  obtain r s' h where e: "ip_send poll dst IP_PROTO_UDP o1 (UDP_HDR_LEN + len) s1 = Some (r, s')"
      "cabecalho h (20 + (UDP_HDR_LEN + len)) (ip_id_counter s1) IP_PROTO_UDP (net_our_ip s1) dst"
      "enviados s' = enviados s1 @ [quadro m (mac_addr s1) ETH_PROTO_IP (h @ take (unat (UDP_HDR_LEN + len)) o1)]"
    using ip_send_ok [OF r1, of "UDP_HDR_LEN + len" o1 poll IP_PROTO_UDP] n lo assms(3) by auto
  have "udp_send poll dst sp dp dados len s = Some (r, s')"
    using e(1) assms(3) by (simp add: udp_send_def Let_def UDP_HDR_LEN_def U_def o1_def s1_def)
  moreover have "take (8 + unat len) o1 = udp_header sp dp (8 + len) @ take (unat len) dados"
    using o1 lU assms(4) by (simp add: U_def UDP_HDR_LEN_def)
  ultimately show ?thesis using e n by (intro exI [of _ r] exI [of _ s'] exI [of _ h]) (simp add: s1_def UDP_HDR_LEN_def)
qed

section \<open>DNS: a name and back\<close>

fun junta :: "u8 list list \<Rightarrow> u8 list" where
  "junta [] = []"
| "junta [l] = l"
| "junta (l # m # ls) = l @ ponto # junta (m # ls)"

definition rotulo_ok :: "u8 list \<Rightarrow> bool" where
  "rotulo_ok l \<longleftrightarrow> l \<noteq> [] \<and> length l \<le> 63 \<and> ponto \<notin> set l"

definition codifica :: "u8 list list \<Rightarrow> u8 list" where
  "codifica ls = concat (map (\<lambda>l. of_nat (length l) # l) ls) @ [0]"

lemma rotulo_takeWhile:
  assumes "rotulo_ok l"
  shows "takeWhile (\<lambda>c. c \<noteq> ponto) (l @ ponto # r) = l" "dropWhile (\<lambda>c. c \<noteq> ponto) (l @ ponto # r) = ponto # r"
    "takeWhile (\<lambda>c. c \<noteq> ponto) l = l" "dropWhile (\<lambda>c. c \<noteq> ponto) l = []"
proof -
  have a: "\<And>x. x \<in> set l \<Longrightarrow> x \<noteq> ponto" using assms by (auto simp: rotulo_ok_def)
  show "takeWhile (\<lambda>c. c \<noteq> ponto) (l @ ponto # r) = l" "dropWhile (\<lambda>c. c \<noteq> ponto) (l @ ponto # r) = ponto # r"
    "takeWhile (\<lambda>c. c \<noteq> ponto) l = l" "dropWhile (\<lambda>c. c \<noteq> ponto) l = []"
    by (simp_all add: takeWhile_append2 dropWhile_append2 takeWhile_eq_all_conv dropWhile_eq_Nil_conv a)
qed

lemma dns_encode_name_junta: "list_all rotulo_ok ls \<Longrightarrow> dns_encode_name (junta ls) = Some (codifica ls)"
proof (induction ls rule: junta.induct)
  case 1
  show ?case by (simp add: dns_encode_name.simps codifica_def)
next
  case (2 l)
  then have l: "rotulo_ok l" "l \<noteq> []" "length l \<le> 63" by (simp_all add: rotulo_ok_def)
  show ?case
    by (subst junta.simps, subst dns_encode_name.simps)
      (simp add: Let_def dns_encode_name.simps [of "[]"] codifica_def rotulo_takeWhile(3,4) [OF l(1)] l not_less)
next
  case (3 l m ls)
  then have l: "rotulo_ok l" "length l \<le> 63" and i: "dns_encode_name (junta (m # ls)) = Some (codifica (m # ls))"
    by (simp_all add: rotulo_ok_def)
  show ?case
    by (subst junta.simps, subst dns_encode_name.simps) (simp add: Let_def rotulo_takeWhile(1,2) [OF l(1)] l i not_less, simp add: codifica_def)
qed

lemma rotulo_len:
  assumes "n \<le> 63"
  shows "unat (of_nat n :: u8) = n" "(of_nat n :: u8) AND 0xC0 = 0"
proof -
  show u: "unat (of_nat n :: u8) = n" using assms by (simp add: unat_of_nat)
  have "(of_nat n :: u8) = take_bit 6 (of_nat n)"
    using assms u by (intro word_unat_eq_iff [THEN iffD2]) (simp add: unsigned_take_bit_eq take_bit_nat_eq_self)
  moreover have "(0xC0 :: u8) = push_bit 6 3" by (simp add: push_bit_eq_mult)
  moreover have "take_bit 6 x AND push_bit 6 y = 0" for x y :: u8 by (rule bit_word_eqI) (auto simp: bit_simps)
  ultimately show "(of_nat n :: u8) AND 0xC0 = 0" by metis
qed

lemma codifica_Cons: "codifica (l # ls) = (of_nat (length l) # l) @ codifica ls"
  by (simp add: codifica_def)

lemma pula_nome_codifica:
  "list_all rotulo_ok ls \<Longrightarrow> length pre + length (codifica ls) \<le> fim \<Longrightarrow>
   pula_nome (pre @ codifica ls @ post) fim (length pre) = length pre + length (codifica ls) - 1"
proof (induction ls arbitrary: pre)
  case Nil
  show ?case by (subst pula_nome.simps) (simp add: codifica_def)
next
  case (Cons l ls)
  then have l: "l \<noteq> []" "length l \<le> 63" by (simp_all add: rotulo_ok_def)
  note n = rotulo_len [OF l(2)]
  have nz: "(of_nat (length l) :: u8) \<noteq> 0" using n(1) l(1) by (metis length_0_conv unat_0)
  let ?d = "pre @ codifica (l # ls) @ post"
  have d: "?d ! length pre = of_nat (length l)" by (simp add: codifica_def)
  have "pula_nome ?d fim (length pre) = pula_nome ?d fim (length pre + length l + 1)"
    using Cons.prems(2) d n nz by (subst pula_nome.simps) (simp add: codifica_Cons)
  also have "\<dots> = pula_nome ((pre @ of_nat (length l) # l) @ codifica ls @ post) fim (length (pre @ of_nat (length l) # l))"
    by (simp add: codifica_Cons)
  also have "\<dots> = length (pre @ of_nat (length l) # l) + length (codifica ls) - 1"
    using Cons.prems by (intro Cons.IH) (simp_all add: codifica_Cons)
  finally show ?case by (simp add: codifica_Cons)
qed

text \<open>A resource record whose name is a compression pointer.\<close>

definition rr :: "u16 \<times> u16 \<times> u32 \<times> u8 list \<Rightarrow> u8 list" where
  "rr r = (case r of (t, c, ttl, rd) \<Rightarrow> [0xC0, 0x0C] @ be16 t @ be16 c @ be32 ttl @ be16 (of_nat (length rd)) @ rd)"

definition rr_A :: "u16 \<times> u16 \<times> u32 \<times> u8 list \<Rightarrow> bool" where
  "rr_A r = (case r of (t, c, ttl, rd) \<Rightarrow> t = 1 \<and> c = 1 \<and> length rd = 4)"

definition rr_ip :: "u16 \<times> u16 \<times> u32 \<times> u8 list \<Rightarrow> u32" where
  "rr_ip r = (case r of (t, c, ttl, rd) \<Rightarrow> rdb32 rd 0)"

lemma rdb_tail: "rdb32 (rd @ post) 0 = rdb32 rd 0" if "length rd = 4"
  using rdb_append_lt(2) [of 0 rd post] that by simp

lemma dns_respostas_passo:
  "d ! p = 0xC0 \<Longrightarrow> p + 12 \<le> fim \<Longrightarrow> dns_respostas (Suc n) d fim p =
     (if rdb16 d (p + 2) = 1 \<and> rdb16 d (p + 4) = 1 \<and> rdb16 d (p + 10) = 4 then Some (rdb32 d (p + 12))
      else dns_respostas n d fim (p + 12 + unat (rdb16 d (p + 10))))"
proof -
  have a: "p + 2 + 2 = p + 4" "p + 2 + 8 = p + 10" "p + 2 + 10 = p + 12" by simp_all
  assume "d ! p = 0xC0" "p + 12 \<le> fim"
  then have "p < fim" "d ! p AND 0xC0 = 0xC0" "\<not> fim < p + 12" by simp_all
  then show ?thesis unfolding dns_respostas.simps Let_def by (simp only: a refl if_True if_False not_True_eq_False)
qed

lemma dns_respostas_ok:
  "\<forall>r \<in> set rs. length (snd (snd (snd r))) < 65536 \<Longrightarrow>
   dns_respostas (length rs) (pre @ concat (map rr rs) @ post) (length pre + length (concat (map rr rs)) + k) (length pre) =
   map_option rr_ip (find rr_A rs)"
proof (induction rs arbitrary: pre)
  case (Cons r rs)
  obtain t c ttl rd where r: "r = (t, c, ttl, rd)" by (cases r)
  have rd: "length rd < 65536" using Cons.prems r by simp
  let ?d = "pre @ concat (map rr (r # rs)) @ post" and ?fim = "length pre + length (concat (map rr (r # rs))) + k"
  define T where "T = rd @ concat (map rr rs) @ post"
  have d: "?d = pre @ [0xC0, 0x0C] @ be16 t @ be16 c @ be32 ttl @ be16 (of_nat (length rd)) @ T"
    by (simp add: r rr_def T_def)
  have lr: "length (rr r) = 12 + length rd" by (simp add: r rr_def)
  have i: "?d ! length pre = 0xC0" by (simp add: r rr_def)
  have f: "rdb16 ?d (length pre + 2) = t" "rdb16 ?d (length pre + 4) = c" "rdb16 ?d (length pre + 10) = of_nat (length rd)"
    "rdb32 ?d (length pre + 12) = rdb32 T 0"
    unfolding d by (simp_all add: rdb_append_ge, simp_all add: buf_simps)
  have u: "unat (of_nat (length rd) :: u16) = length rd" using rd by (simp add: unat_of_nat)
  have four: "(of_nat (length rd) :: u16) = 4 \<longleftrightarrow> length rd = 4" using u unat_eq_iff [of "of_nat (length rd) :: u16" 4] by simp
  have IH: "dns_respostas (length rs) ?d ?fim (length pre + 12 + length rd) = map_option rr_ip (find rr_A rs)"
    using Cons.IH [of "pre @ rr r"] Cons.prems lr by (simp add: add.assoc)
  have le: "length pre + 12 \<le> ?fim" using lr by simp
  have T: "length rd = 4 \<Longrightarrow> rdb32 T 0 = rdb32 rd 0" unfolding T_def by (rule rdb_tail)
  have "dns_respostas (Suc (length rs)) ?d ?fim (length pre) =
      (if t = 1 \<and> c = 1 \<and> length rd = 4 then Some (rdb32 rd 0) else map_option rr_ip (find rr_A rs))"
    unfolding dns_respostas_passo [OF i le] f u four IH using T by simp
  also have "\<dots> = map_option rr_ip (find rr_A (r # rs))" by (simp add: r rr_A_def rr_ip_def)
  finally show ?case by simp
qed simp

definition resposta_dns :: "u16 \<Rightarrow> u16 \<Rightarrow> u8 list list \<Rightarrow> (u16 \<times> u16 \<times> u32 \<times> u8 list) list \<Rightarrow> u8 list" where
  "resposta_dns ident flags ls rs =
     be16 ident @ be16 flags @ be16 1 @ be16 (of_nat (length rs)) @ be16 0 @ be16 0 @
     codifica ls @ [0, 1, 0, 1] @ concat (map rr rs)"

text \<open>C23: DNS, query and answer.  For a host name made of labels of at most 63 characters, \<open>dns_encode_name\<close> gives
  the length-prefixed labels and the root; and a reply to the current query that repeats the question and
  carries any sequence of resource records makes \<open>dns_handler\<close> store the address of the first record of type A,
  and nothing when there is none.\<close>

theorem dns_ida_e_volta:
  assumes "list_all rotulo_ok ls" "\<forall>r \<in> set rs. length (snd (snd (snd r))) < 65536" "rs \<noteq> []"
    and "flags AND 0x8000 \<noteq> 0" "length d < 65536"
    and d_def: "d = resposta_dns (dns_query_id s) flags ls rs"
  shows "dns_encode_name (junta ls) = Some (codifica ls) \<and>
    dns_handler d (of_nat (length d)) s =
      (case find rr_A rs of Some r \<Rightarrow> s\<lparr>dns_result_ip := rr_ip r, dns_got_reply := True\<rparr> | None \<Rightarrow> s)"
proof -
  define pre where "pre = be16 (dns_query_id s) @ be16 flags @ be16 1 @ be16 (of_nat (length rs)) @ be16 0 @ be16 0"
  have lp: "length pre = 12" by (simp add: pre_def)
  note d_def = d_def [unfolded resposta_dns_def]
  have d: "d = pre @ codifica ls @ [0, 1, 0, 1] @ concat (map rr rs)" by (simp add: d_def pre_def)
  let ?p = "pre @ codifica ls @ [0, 1, 0, 1]"
  have lc: "0 < length (codifica ls)" by (simp add: codifica_def)
  have c0: "codifica ls ! (length (codifica ls) - 1) = 0" by (simp add: codifica_def nth_append)
  have ld: "unat (of_nat (length d) :: u16) = length d" using assms(5) by (simp add: unat_of_nat)
  have lrr: "length rs * 12 \<le> length (concat (map rr rs))" by (induction rs) (auto simp: rr_def)
  then have lr: "length rs < 65536" using assms(5) by (simp add: d)
  then have ur: "unat (of_nat (length rs) :: u16) = length rs" by (simp add: unat_of_nat)
  have P: "pula_nome d (length d) 12 = 12 + length (codifica ls) - 1"
    using pula_nome_codifica [OF assms(1), of pre "length d" "[0, 1, 0, 1] @ concat (map rr rs)"] lp by (simp add: d)
  have z: "d ! (12 + length (codifica ls) - 1) = 0"
    using lp lc c0 by (simp add: d nth_append)
  have R: "dns_respostas (length rs) d (length d) (12 + length (codifica ls) + 4) = map_option rr_ip (find rr_A rs)"
    using dns_respostas_ok [OF assms(2), of ?p "[]" 0] lp by (simp add: d add.assoc)
  have f: "rdb16 d 0 = dns_query_id s" "rdb16 d 2 = flags" "rdb16 d 6 = of_nat (length rs)"
    by (simp_all add: d_def buf_simps)
  have n: "(of_nat (length rs) :: u16) \<noteq> 0" using ur assms(3) by (metis length_0_conv unat_0)
  have l12: "\<not> (of_nat (length d) :: u16) < 12" using ld lp by (simp add: word_less_nat_alt d)
  have "dns_handler d (of_nat (length d)) s =
      (case find rr_A rs of Some r \<Rightarrow> s\<lparr>dns_result_ip := rr_ip r, dns_got_reply := True\<rparr> | None \<Rightarrow> s)"
    using P z R f n l12 ld ur assms(4) lc lp
    by (simp add: dns_handler_def Let_def del: of_nat_add split: option.splits) (simp add: d)
  then show ?thesis using dns_encode_name_junta [OF assms(1)] by simp
qed

theorem dns_ida_e_volta_witness:
  "dns_encode_name (junta [[97], [98, 99]]) = Some (codifica [[97], [98, 99]]) \<and>
   dns_handler (resposta_dns 0x1234 0x8180 [[97], [98, 99]] [(5, 1, 60, [1, 120, 0]), (1, 1, 60, [10, 0, 2, 2])])
     (of_nat (length (resposta_dns 0x1234 0x8180 [[97], [98, 99]] [(5, 1, 60, [1, 120, 0]), (1, 1, 60, [10, 0, 2, 2])]))) net_exemplo =
   net_exemplo\<lparr>dns_result_ip := 0x0A000202, dns_got_reply := True\<rparr>"
proof -
  let ?rs = "[(5, 1, 60, [1, 120, 0]), (1, 1, 60, [10, 0, 2, 2])] :: (u16 \<times> u16 \<times> u32 \<times> u8 list) list"
  have a: "list_all rotulo_ok [[97], [98, 99 :: u8]]" by (simp add: rotulo_ok_def ponto_def)
  have l: "length (resposta_dns q f [[97], [98, 99]] ?rs) < 65536" for q f
    by (simp add: resposta_dns_def codifica_def rr_def)
  have q: "dns_query_id net_exemplo = 0x1234" by (simp add: net_exemplo_def)
  have r: "rdb32 [10, 0, 2, 2] 0 = 0x0A000202"
    by (simp add: rdb32_def ntohl_def htonl_def rd32_def)
  have F: "find rr_A ?rs = Some (1, 1, 60, [10, 0, 2, 2])" by (simp add: rr_A_def)
  have "dns_encode_name (junta [[97], [98, 99]]) = Some (codifica [[97], [98, 99]]) \<and>
      dns_handler (resposta_dns (dns_query_id net_exemplo) 0x8180 [[97], [98, 99]] ?rs)
        (of_nat (length (resposta_dns (dns_query_id net_exemplo) 0x8180 [[97], [98, 99]] ?rs))) net_exemplo =
      (case find rr_A ?rs of Some r \<Rightarrow> net_exemplo\<lparr>dns_result_ip := rr_ip r, dns_got_reply := True\<rparr> | None \<Rightarrow> net_exemplo)"
    by (rule dns_ida_e_volta [OF a _ _ _ l refl]) simp_all
  then show ?thesis unfolding q F option.case rr_ip_def prod.case r .
qed

section \<open>DHCP: the options\<close>

definition op_bytes :: "u8 \<times> u8 list \<Rightarrow> u8 list" where
  "op_bytes o' = (case o' of (c, v) \<Rightarrow> if c = 0 then [0] else c # of_nat (length v) # v)"

definition op_ok :: "u8 \<times> u8 list \<Rightarrow> bool" where
  "op_ok o' \<longleftrightarrow> (case o' of (c, v) \<Rightarrow> c \<noteq> OPT_END \<and> length v < 256 \<and> (c = OPT_MSG_TYPE \<longrightarrow> v \<noteq> []) \<and>
     (c \<in> {OPT_SUBNET_MASK, OPT_ROUTER, OPT_DNS, OPT_SERVER_ID} \<longrightarrow> 4 \<le> length v))"

definition op_aplica :: "u8 \<times> u8 list \<Rightarrow> u8 \<times> net \<Rightarrow> u8 \<times> net" where
  "op_aplica o' ts = (case o' of (c, v) \<Rightarrow> dhcp_opcao c v 0 ts)"

lemma dhcp_opcao_local:
  assumes "op_ok (c, v)"
  shows "dhcp_opcao c (pre @ v @ post) (length pre) ts = dhcp_opcao c v 0 ts"
proof -
  have h: "c \<in> {OPT_SUBNET_MASK, OPT_ROUTER, OPT_DNS, OPT_SERVER_ID} \<Longrightarrow> rdb32 (pre @ v @ post) (length pre) = rdb32 v 0"
    using assms rdb_append_lt(2) [of 0 v post] by (auto simp: op_ok_def rdb_append_ge)
  have "c = OPT_MSG_TYPE \<Longrightarrow> (pre @ v @ post) ! length pre = v ! 0" using assms by (auto simp: op_ok_def nth_append)
  with h show ?thesis by (auto simp: dhcp_opcao_def split: prod.splits)
qed

lemma dhcp_opcoes_fold:
  "list_all op_ok ops \<Longrightarrow> length pre + length (concat (map op_bytes ops)) < 552 \<Longrightarrow>
   dhcp_opcoes (pre @ concat (map op_bytes ops) @ OPT_END # post) (length pre) ts = fold op_aplica ops ts"
proof (induction ops arbitrary: pre ts)
  case Nil
  show ?case by (subst dhcp_opcoes.simps) simp
next
  case (Cons o' ops)
  obtain c v where o': "o' = (c, v)" by (cases o')
  have ok: "op_ok (c, v)" "c \<noteq> OPT_END" "length v < 256" using Cons.prems(1) o' by (simp_all add: op_ok_def)
  let ?R = "concat (map op_bytes ops) @ OPT_END # post"
  let ?d = "pre @ concat (map op_bytes (o' # ops)) @ OPT_END # post"
  have p: "length pre < 552" using Cons.prems(2) by simp
  show ?case
  proof (cases "c = 0")
    case True
    have d: "?d = (pre @ [0]) @ ?R" "?d ! length pre = 0" using True by (simp_all add: o' op_bytes_def)
    have "dhcp_opcoes ?d (length pre) ts = dhcp_opcoes ?d (length pre + 1) ts"
      using p d(2) by (subst dhcp_opcoes.simps) (simp add: OPT_END_def)
    also have "\<dots> = dhcp_opcoes ((pre @ [0]) @ ?R) (length (pre @ [0])) ts" by (simp only: d(1) length_append list.size One_nat_def add_0)
    also have "\<dots> = fold op_aplica ops ts"
      using Cons.prems by (intro Cons.IH) (simp_all add: o' op_bytes_def True)
    finally have "dhcp_opcoes ?d (length pre) ts = fold op_aplica ops ts" .
    moreover have "op_aplica o' ts = ts" using True by (cases ts) (simp add: o' op_aplica_def dhcp_opcao_def opt_defs)
    ultimately show ?thesis by simp
  next
    case False
    let ?q = "pre @ [c, of_nat (length v)]"
    have d: "?d = ?q @ v @ ?R" "?d ! length pre = c" "?d ! (length pre + 1) = of_nat (length v)"
      using False by (simp_all add: o' op_bytes_def nth_append)
    have u: "unat (of_nat (length v) :: u8) = length v" using ok(3) by (simp add: unat_of_nat)
    have "dhcp_opcoes ?d (length pre) ts =
        dhcp_opcoes ?d (length pre + 2 + length v) (dhcp_opcao c ?d (length pre + 2) ts)"
      using p d(2,3) u ok(2) False by (subst dhcp_opcoes.simps) simp
    also have "dhcp_opcao c ?d (length pre + 2) ts = dhcp_opcao c v 0 ts"
      unfolding d(1) using dhcp_opcao_local [OF ok(1), of ?q ?R ts] by simp
    also have "dhcp_opcoes ?d (length pre + 2 + length v) (dhcp_opcao c v 0 ts) =
        dhcp_opcoes ((?q @ v) @ ?R) (length (?q @ v)) (dhcp_opcao c v 0 ts)" unfolding d(1) by simp
    also have "\<dots> = fold op_aplica ops (dhcp_opcao c v 0 ts)"
      using Cons.prems by (intro Cons.IH) (simp_all add: o' op_bytes_def False)
    finally have "dhcp_opcoes ?d (length pre) ts = fold op_aplica ops (dhcp_opcao c v 0 ts)" .
    moreover have "op_aplica o' ts = dhcp_opcao c v 0 ts" by (simp add: o' op_aplica_def)
    ultimately show ?thesis by simp
  qed
qed

text \<open>the DHCP reply parser.  On a reply to our transaction whose option area is any sequence of well-formed
  options (padding included) closed by the end marker, \<open>dhcp_handler\<close> is the fold of the options over the state,
  followed by the handshake step: the first OFFER records the offered address, an ACK counts only after it, and
  every other message changes nothing further.\<close>

theorem dhcp_handler_dobra:
  assumes "length base = 240" "rdb32 base 4 = xid s" "rdb32 base 236 = 0x63825363"
    and "list_all op_ok ops" "length (concat (map op_bytes ops)) < 312" "552 \<le> len"
  shows "dhcp_handler (base @ concat (map op_bytes ops) @ OPT_END # resto) len s =
    (let (tipo, t) = fold op_aplica ops (0, s) in
     if tipo = DHCP_OFFER \<and> \<not> dhcp_got_offer s then t\<lparr>offered_ip := rdb32 base 16, dhcp_got_offer := True\<rparr>
     else if tipo = DHCP_ACK \<and> dhcp_got_offer s then t\<lparr>dhcp_got_ack := True\<rparr> else t)"
proof -
  let ?d = "base @ concat (map op_bytes ops) @ OPT_END # resto"
  have r: "rdb32 ?d 4 = xid s" "rdb32 ?d 236 = 0x63825363" "rdb32 ?d 16 = rdb32 base 16"
    using assms(1-3) by (simp_all add: rdb_append_lt)
  have f: "dhcp_opcoes ?d 240 (0, s) = fold op_aplica ops (0, s)"
    using dhcp_opcoes_fold [OF assms(4), of base resto "(0, s)"] assms(1,5) by simp
  have g: "dhcp_got_offer (snd (fold op_aplica ops ts)) = dhcp_got_offer (snd ts)" for ts
    by (induction ops arbitrary: ts) (auto simp: op_aplica_def dhcp_opcao_def split: prod.splits)
  have n: "\<not> len < DHCP_PKT_LEN" using assms(6) by (simp add: DHCP_PKT_LEN_def not_less)
  obtain tipo t where F: "fold op_aplica ops (0, s) = (tipo, t)" by fastforce
  have "dhcp_got_offer t = dhcp_got_offer s" using g [of "(0, s)"] F by simp
  then show ?thesis unfolding dhcp_handler_def r f F using n by simp
qed

theorem dhcp_handler_dobra_witness:
  "\<exists>base. dhcp_handler (base @ concat (map op_bytes [(53, [2]), (0, []), (3, [10, 0, 2, 2])]) @ OPT_END # replicate 300 0) 552 net_exemplo =
     net_exemplo\<lparr>offered_gw := 0x0A000202, offered_ip := 0x0A00020F, dhcp_got_offer := True\<rparr>"
proof -
  let ?base = "[2, 1, 6, 0] @ be32 0xDEADBEEF @ be32 0 @ be32 0 @ be32 0x0A00020F @ replicate 216 0 @ be32 0x63825363"
  let ?ops = "[(53, [2]), (0, []), (3, [10, 0, 2, 2])] :: (u8 \<times> u8 list) list"
  have l: "length ?base = 240" by simp
  have b: "rdb32 ?base 4 = 0xDEADBEEF" "rdb32 ?base 236 = 0x63825363" "rdb32 ?base 16 = 0x0A00020F" by (simp_all add: buf_simps)
  have o': "list_all op_ok ?ops" "length (concat (map op_bytes ?ops)) < 312" by (simp_all add: op_ok_def op_bytes_def opt_defs)
  have r: "rdb32 [10, 0, 2, 2] 0 = 0x0A000202"
    by (simp add: rdb32_def ntohl_def htonl_def rd32_def)
  have x: "xid net_exemplo = 0xDEADBEEF" "\<not> dhcp_got_offer net_exemplo" by (simp_all add: net_exemplo_def)
  show ?thesis
    using dhcp_handler_dobra [of ?base net_exemplo ?ops 552 "replicate 300 0"] l b o' r x
    by (intro exI [of _ ?base])
      (simp add: op_aplica_def dhcp_opcao_def opt_defs DHCP_OFFER_def)
qed

end
