(* ===== verification/Tcp.thy ===== *)
theory Tcp
  imports Udp
begin

text \<open>
  TCP (\<^verbatim>\<open>kernel/net/tcp.c\<close>): segments, the four sockets with their state machine and receive ring, and the
  calls of the socket interface.  As in \<^verbatim>\<open>arp.c\<close>, every wait polls the card through the argument \<open>poll\<close>; a
  socket is read again after each call that may have polled, as the C code does through its pointer.
\<close>

section \<open>Constants\<close>

definition TCP_MAX_SOCKETS :: nat where "TCP_MAX_SOCKETS = 4"
definition TCP_RX_BUF_SIZE :: u16 where "TCP_RX_BUF_SIZE = 2048"
definition TCP_CLOSED :: u8 where "TCP_CLOSED = 0"
definition TCP_SYN_SENT :: u8 where "TCP_SYN_SENT = 1"
definition TCP_ESTABLISHED :: u8 where "TCP_ESTABLISHED = 2"
definition TCP_FIN_WAIT :: u8 where "TCP_FIN_WAIT = 3"
definition TCP_CLOSE_WAIT :: u8 where "TCP_CLOSE_WAIT = 4"
definition TCP_HDR_LEN :: u16 where "TCP_HDR_LEN = 20"
definition TCP_FIN :: u8 where "TCP_FIN = 0x01"
definition TCP_SYN :: u8 where "TCP_SYN = 0x02"
definition TCP_RST :: u8 where "TCP_RST = 0x04"
definition TCP_PSH :: u8 where "TCP_PSH = 0x08"
definition TCP_ACK :: u8 where "TCP_ACK = 0x10"

lemmas tcp_estados = TCP_CLOSED_def TCP_SYN_SENT_def TCP_ESTABLISHED_def TCP_FIN_WAIT_def TCP_CLOSE_WAIT_def

section \<open>Segments\<close>

definition tcp_checksum :: "u32 \<Rightarrow> u32 \<Rightarrow> u8 list \<Rightarrow> u16 \<Rightarrow> u16" where
  "tcp_checksum src_ip dst_ip seg seg_len =
     (let ac = (drop_bit 16 src_ip AND 0xFFFF) + (src_ip AND 0xFFFF) + (drop_bit 16 dst_ip AND 0xFFFF) + (dst_ip AND 0xFFFF) +
            ucast IP_PROTO_TCP + ucast seg_len
      in ucast (NOT (dobra (soma16 (take (unat seg_len) seg) ac))))"

definition tcp_header :: "u16 \<Rightarrow> u16 \<Rightarrow> u32 \<Rightarrow> u32 \<Rightarrow> u8 \<Rightarrow> u8 list" where
  "tcp_header src dst seq ack flags =
     be16 src @ be16 dst @ be32 seq @ (if flags AND TCP_ACK \<noteq> 0 then be32 ack else be32 0) @
     [push_bit 4 5, flags] @ be16 2048 @ be16 0 @ be16 0"

definition soquete :: "nat \<Rightarrow> net \<Rightarrow> tcp_socket" where "soquete k s = sockets s ! k"

definition muda :: "nat \<Rightarrow> (tcp_socket \<Rightarrow> tcp_socket) \<Rightarrow> net \<Rightarrow> net" where
  "muda k f s = s\<lparr>sockets := (sockets s)[k := f (sockets s ! k)]\<rparr>"

text \<open>\<open>None\<close> is the null data pointer.\<close>

definition tcp_send_segment :: "(net \<Rightarrow> (int \<times> net) option) \<Rightarrow> nat \<Rightarrow> u8 \<Rightarrow> u8 list option \<Rightarrow> u16 \<Rightarrow> net \<Rightarrow> (int \<times> net) option" where
  "tcp_send_segment poll k flags dados data_len s =
     (let q = soquete k s;
          o' = splice (tcp_out s) 0 (tcp_header (local_port q) (remote_port q) (seq_num q) (ack_num q) flags);
          o' = (case dados of
                  Some d \<Rightarrow> if data_len \<noteq> 0 then splice o' (unat TCP_HDR_LEN) (take (unat data_len) d) else o'
                | None \<Rightarrow> o');
          seg_len = TCP_HDR_LEN + data_len;
          o' = splice o' 16 (le16 (tcp_checksum (net_our_ip s) (remote_ip q) o' seg_len));
          s = s\<lparr>tcp_out := o'\<rparr>
      in ip_send poll (remote_ip q) IP_PROTO_TCP o' seg_len s)"

section \<open>The receive ring\<close>

definition rx_poe :: "u8 \<Rightarrow> tcp_socket \<Rightarrow> tcp_socket" where
  "rx_poe x q =
     (let nx = (rx_tail q + 1) mod TCP_RX_BUF_SIZE in
      if nx \<noteq> rx_head q then q\<lparr>rx_buf := (rx_buf q)[unat (rx_tail q) := x], rx_tail := nx\<rparr> else q)"

definition rx_copia :: "u8 list \<Rightarrow> tcp_socket \<Rightarrow> tcp_socket" where
  "rx_copia payload q = fold rx_poe payload q"

definition rx_avail :: "tcp_socket \<Rightarrow> u16" where
  "rx_avail q =
     (if rx_head q \<le> rx_tail q then rx_tail q - rx_head q else TCP_RX_BUF_SIZE - rx_head q + rx_tail q)"

definition rx_tira :: "tcp_socket \<Rightarrow> u8 \<times> tcp_socket" where
  "rx_tira q = (rx_buf q ! unat (rx_head q), q\<lparr>rx_head := (rx_head q + 1) mod TCP_RX_BUF_SIZE\<rparr>)"

fun rx_le :: "nat \<Rightarrow> tcp_socket \<Rightarrow> u8 list \<times> tcp_socket" where
  "rx_le 0 q = ([], q)"
| "rx_le (Suc n) q = (let (x, q) = rx_tira q; (xs, q) = rx_le n q in (x # xs, q))"

section \<open>Waiting\<close>

text \<open>The waiting loops of \<^verbatim>\<open>tcp.c\<close>, \<^verbatim>\<open>dns.c\<close> and \<^verbatim>\<open>dhcp.c\<close>: poll while the condition holds, up to \<open>lim\<close> ticks
  after \<open>start\<close>; the clock is read only when the condition holds.\<close>

partial_function (option) espera :: "(net \<Rightarrow> (int \<times> net) option) \<Rightarrow> (net \<Rightarrow> bool) \<Rightarrow> u32 \<Rightarrow> u32 \<Rightarrow> net \<Rightarrow> net option" where
  "espera poll cond start lim s =
     (if \<not> cond s then Some s
      else let (t, s) = sched_ticks_net s in
        if \<not> t - start < lim then Some s
        else do { (_, s) \<leftarrow> poll s; espera poll cond start lim s })"

section \<open>The socket interface\<close>

definition tcp_connect :: "(net \<Rightarrow> (int \<times> net) option) \<Rightarrow> u32 \<Rightarrow> u16 \<Rightarrow> net \<Rightarrow> (int \<times> net) option" where
  "tcp_connect poll ip port s =
     (case find (\<lambda>i. tcp_state (soquete i s) = TCP_CLOSED) [0..<TCP_MAX_SOCKETS] of
        None \<Rightarrow> Some (- 1, s)
      | Some k \<Rightarrow> do {
          let s = muda k (\<lambda>_. \<lparr>remote_ip = ip, local_port = next_local_port s, remote_port = port, seq_num = 0x12345678,
              ack_num = 0, tcp_state = TCP_SYN_SENT, rx_buf = replicate (unat TCP_RX_BUF_SIZE) 0, rx_head = 0, rx_tail = 0\<rparr>)
            (s\<lparr>next_local_port := next_local_port s + 1\<rparr>);
          (_, s) \<leftarrow> tcp_send_segment poll k TCP_SYN None 0 s;
          let s = muda k (\<lambda>q. q\<lparr>seq_num := seq_num q + 1\<rparr>) s;
          let (start, s) = sched_ticks_net s;
          s \<leftarrow> espera poll (\<lambda>s. tcp_state (soquete k s) = TCP_SYN_SENT) start 300 s;
          if tcp_state (soquete k s) \<noteq> TCP_ESTABLISHED then Some (- 1, muda k (\<lambda>q. q\<lparr>tcp_state := TCP_CLOSED\<rparr>) s)
          else Some (int k, s) })"

definition tcp_send :: "(net \<Rightarrow> (int \<times> net) option) \<Rightarrow> int \<Rightarrow> u8 list \<Rightarrow> u16 \<Rightarrow> net \<Rightarrow> (int \<times> net) option" where
  "tcp_send poll sock dados len s =
     (if sock < 0 \<or> int TCP_MAX_SOCKETS \<le> sock then Some (- 1, s)
      else if tcp_state (soquete (nat sock) s) \<noteq> TCP_ESTABLISHED then Some (- 1, s)
      else do {
        (ret, s) \<leftarrow> tcp_send_segment poll (nat sock) (TCP_ACK OR TCP_PSH) (Some dados) len s;
        let s = (if ret = 0 then muda (nat sock) (\<lambda>q. q\<lparr>seq_num := seq_num q + ucast len\<rparr>) s else s);
        Some (if ret = 0 then int (unat len) else - 1, s) })"

text \<open>The bytes stored in \<open>buf\<close> are returned with the result.\<close>

partial_function (option) tcp_recv_loop :: "(net \<Rightarrow> (int \<times> net) option) \<Rightarrow> nat \<Rightarrow> u16 \<Rightarrow> u32 \<Rightarrow> u32 \<Rightarrow> net \<Rightarrow> (int \<times> u8 list \<times> net) option" where
  "tcp_recv_loop poll k max_len timeout_ms start s =
     (let q = soquete k s in
      if rx_head q \<noteq> rx_tail q then
        (let avail = rx_avail q; to_copy = (if avail < max_len then avail else max_len);
             (xs, q) = rx_le (unat to_copy) q
         in Some (int (unat to_copy), xs, muda k (\<lambda>_. q) s))
      else if tcp_state q = TCP_CLOSE_WAIT then Some (0, [], s)
      else if tcp_state q = TCP_CLOSED then Some (- 1, [], s)
      else if timeout_ms = 0 then Some (0, [], s)
      else let (t, s) = sched_ticks_net s in
        if timeout_ms div 10 \<le> t - start then Some (0, [], s)
        else do { (_, s) \<leftarrow> poll s; tcp_recv_loop poll k max_len timeout_ms start s })"

definition tcp_recv :: "(net \<Rightarrow> (int \<times> net) option) \<Rightarrow> int \<Rightarrow> u16 \<Rightarrow> u32 \<Rightarrow> net \<Rightarrow> (int \<times> u8 list \<times> net) option" where
  "tcp_recv poll sock max_len timeout_ms s =
     (if sock < 0 \<or> int TCP_MAX_SOCKETS \<le> sock then Some (- 1, [], s)
      else let (start, s) = sched_ticks_net s in tcp_recv_loop poll (nat sock) max_len timeout_ms start s)"

definition tcp_close :: "(net \<Rightarrow> (int \<times> net) option) \<Rightarrow> int \<Rightarrow> net \<Rightarrow> net option" where
  "tcp_close poll sock s =
     (if sock < 0 \<or> int TCP_MAX_SOCKETS \<le> sock then Some s
      else let k = nat sock in
        if tcp_state (soquete k s) = TCP_CLOSED then Some s
        else do {
          (_, s) \<leftarrow> tcp_send_segment poll k (TCP_FIN OR TCP_ACK) None 0 s;
          let s = muda k (\<lambda>q. q\<lparr>seq_num := seq_num q + 1, tcp_state := TCP_FIN_WAIT\<rparr>) s;
          let (start, s) = sched_ticks_net s;
          s \<leftarrow> espera poll (\<lambda>s. tcp_state (soquete k s) = TCP_FIN_WAIT) start 200 s;
          Some (muda k (\<lambda>q. q\<lparr>tcp_state := TCP_CLOSED\<rparr>) s) })"

section \<open>Input\<close>

definition tcp_busca :: "u16 \<Rightarrow> u16 \<Rightarrow> net \<Rightarrow> nat option" where
  "tcp_busca dst_port src_port s =
     find (\<lambda>i. tcp_state (soquete i s) \<noteq> TCP_CLOSED \<and> local_port (soquete i s) = dst_port \<and> remote_port (soquete i s) = src_port)
       [0..<TCP_MAX_SOCKETS]"

text \<open>The switch over the socket's state.  \<open>payload\<close> reads the buffer again, after the FIN has been acknowledged.\<close>

definition tcp_estado :: "(net \<Rightarrow> (int \<times> net) option) \<Rightarrow> nat \<Rightarrow> u8 \<Rightarrow> u32 \<Rightarrow> u16 \<Rightarrow> (net \<Rightarrow> u8 list) \<Rightarrow> net \<Rightarrow> net option" where
  "tcp_estado poll k flags seq payload_len payload s =
     (let st = tcp_state (soquete k s) in
      if st = TCP_SYN_SENT then
        (if flags AND (TCP_SYN OR TCP_ACK) = TCP_SYN OR TCP_ACK then do {
           (_, s) \<leftarrow> tcp_send_segment poll k TCP_ACK None 0
             (muda k (\<lambda>q. q\<lparr>ack_num := seq + 1, tcp_state := TCP_ESTABLISHED\<rparr>) s);
           Some s }
         else Some s)
      else if st = TCP_ESTABLISHED then
        (if flags AND TCP_RST \<noteq> 0 then Some (muda k (\<lambda>q. q\<lparr>tcp_state := TCP_CLOSED\<rparr>) s)
         else do {
           s \<leftarrow> (if flags AND TCP_FIN \<noteq> 0 then do {
                   (_, s) \<leftarrow> tcp_send_segment poll k TCP_ACK None 0
                     (muda k (\<lambda>q. q\<lparr>ack_num := ack_num q + 1, tcp_state := TCP_CLOSE_WAIT\<rparr>) s);
                   Some s }
                 else Some s);
           if payload_len \<noteq> 0 then do {
             (_, s) \<leftarrow> tcp_send_segment poll k TCP_ACK None 0
               (muda k (\<lambda>q. rx_copia (take (unat payload_len) (payload s)) (q\<lparr>ack_num := ack_num q + ucast payload_len\<rparr>)) s);
             Some s }
           else Some s })
      else if st = TCP_FIN_WAIT then
        (if flags AND (TCP_ACK OR TCP_FIN) \<noteq> 0 then Some (muda k (\<lambda>q. q\<lparr>tcp_state := TCP_CLOSED\<rparr>) s) else Some s)
      else Some s)"

definition tcp_recv_dispatch :: "(net \<Rightarrow> (int \<times> net) option) \<Rightarrow> nat option \<Rightarrow> net \<Rightarrow> net option" where
  "tcp_recv_dispatch poll buf s =
     (case buf of
        None \<Rightarrow> Some s
      | Some b \<Rightarrow>
          let off = nb_off s b; d = drop (unat off) (nb_data s b); avail = nb_len s b - off in
          if avail < TCP_HDR_LEN then Some (netbuf_free buf s)
          else let hdr_len = (drop_bit 4 (d ! 12)) * 4; payload_len = avail - ucast hdr_len in
            case tcp_busca (rdb16 d 2) (rdb16 d 0) s of
              None \<Rightarrow> Some (netbuf_free buf s)
            | Some k \<Rightarrow> do {
                s \<leftarrow> tcp_estado poll k (d ! 13) (rdb32 d 4) payload_len
                  (\<lambda>s. drop (unat off + unat hdr_len) (nb_data s b)) s;
                Some (netbuf_free buf s) })"

section \<open>Bounded queues\<close>

text \<open>A queue of capacity \<open>cap\<close> that drops what does not fit, and what sequences of its operations do.\<close>

datatype 'a evento = Chega "'a list" | Le nat

fun fila_corre :: "nat \<Rightarrow> 'a evento list \<Rightarrow> 'a list \<Rightarrow> 'a list \<times> 'a list" where
  "fila_corre cap [] c = ([], c)"
| "fila_corre cap (Chega xs # es) c = fila_corre cap es (take cap (c @ xs))"
| "fila_corre cap (Le n # es) c = (let (ys, c') = fila_corre cap es (drop n c) in (take n c @ ys, c'))"

locale fila =
  fixes bf :: "'q \<Rightarrow> bool"
    and conteudo :: "'q \<Rightarrow> 'a list"
    and cap :: nat
    and poe :: "'a \<Rightarrow> 'q \<Rightarrow> 'q"
    and tira :: "'q \<Rightarrow> 'a \<times> 'q"
  assumes limite: "bf q \<Longrightarrow> length (conteudo q) \<le> cap"
    and poe_bf: "bf q \<Longrightarrow> bf (poe x q)"
    and poe_cabe: "bf q \<Longrightarrow> length (conteudo q) < cap \<Longrightarrow> conteudo (poe x q) = conteudo q @ [x]"
    and poe_cheia: "bf q \<Longrightarrow> length (conteudo q) = cap \<Longrightarrow> conteudo (poe x q) = conteudo q"
    and tira_bf: "bf q \<Longrightarrow> conteudo q \<noteq> [] \<Longrightarrow> bf (snd (tira q))"
    and tira_ok: "bf q \<Longrightarrow> conteudo q \<noteq> [] \<Longrightarrow> conteudo q = fst (tira q) # conteudo (snd (tira q))"
begin

lemma poe_todos: "bf q \<Longrightarrow> bf (fold poe xs q) \<and> conteudo (fold poe xs q) = take cap (conteudo q @ xs)"
proof (induction xs arbitrary: q)
  case Nil
  then show ?case by (simp add: limite)
next
  case (Cons x xs)
  have l: "length (conteudo q) \<le> cap" by (rule limite [OF Cons.prems])
  have "conteudo (poe x q) = take cap (conteudo q @ [x])"
    using l poe_cabe [OF Cons.prems] poe_cheia [OF Cons.prems] by (cases "length (conteudo q) = cap") auto
  moreover have "take cap (take cap (conteudo q @ [x]) @ xs) = take cap (conteudo q @ x # xs)"
    using l by (cases "length (conteudo q) = cap") auto
  ultimately show ?case using Cons.IH [OF poe_bf [OF Cons.prems]] by simp
qed

fun tira_n :: "nat \<Rightarrow> 'q \<Rightarrow> 'a list \<times> 'q" where
  "tira_n 0 q = ([], q)"
| "tira_n (Suc n) q = (let (x, q) = tira q; (xs, q) = tira_n n q in (x # xs, q))"

lemma tira_n_ok:
  "bf q \<Longrightarrow> n \<le> length (conteudo q) \<Longrightarrow>
   fst (tira_n n q) = take n (conteudo q) \<and> conteudo (snd (tira_n n q)) = drop n (conteudo q) \<and> bf (snd (tira_n n q))"
proof (induction n arbitrary: q)
  case (Suc n)
  then have ne: "conteudo q \<noteq> []" by auto
  obtain x q' where t: "tira q = (x, q')" by (cases "tira q")
  have "conteudo q = x # conteudo q'" "bf q'" using tira_ok [OF Suc.prems(1) ne] tira_bf [OF Suc.prems(1) ne] t by simp_all
  then show ?case using Suc.IH [of q'] Suc.prems(2) t by (auto split: prod.splits)
qed simp

text \<open>Reading takes what there is, at most \<open>n\<close>.\<close>

fun corre :: "'a evento list \<Rightarrow> 'q \<Rightarrow> 'a list \<times> 'q" where
  "corre [] q = ([], q)"
| "corre (Chega xs # es) q = corre es (fold poe xs q)"
| "corre (Le n # es) q =
     (let (xs, q) = tira_n (min n (length (conteudo q))) q; (ys, q) = corre es q in (xs @ ys, q))"

lemma corre_simula:
  "bf q \<Longrightarrow> fst (corre es q) = fst (fila_corre cap es (conteudo q)) \<and>
     conteudo (snd (corre es q)) = snd (fila_corre cap es (conteudo q)) \<and> bf (snd (corre es q))"
proof (induction es arbitrary: q)
  case (Cons e es)
  show ?case
  proof (cases e)
    case (Chega xs)
    then show ?thesis using poe_todos [OF Cons.prems, of xs] Cons.IH [of "fold poe xs q"] by simp
  next
    case (Le n)
    let ?m = "min n (length (conteudo q))"
    obtain xs q' where t: "tira_n ?m q = (xs, q')" by (cases "tira_n ?m q")
    have "xs = take n (conteudo q)" "conteudo q' = drop n (conteudo q)" "bf q'"
      using tira_n_ok [OF Cons.prems, of ?m] t by (auto simp: min_def)
    then show ?thesis using Cons.IH [of q'] Le t by (auto split: prod.splits)
  qed
qed simp

end

section \<open>The receive ring is a bounded queue\<close>

definition sq_ok :: "tcp_socket \<Rightarrow> bool" where
  "sq_ok q \<longleftrightarrow> length (rx_buf q) = 2048 \<and> rx_head q < 2048 \<and> rx_tail q < 2048 \<and> tcp_state q \<le> TCP_CLOSE_WAIT"

definition rx_n :: "tcp_socket \<Rightarrow> nat" where
  "rx_n q = (if unat (rx_head q) \<le> unat (rx_tail q) then unat (rx_tail q) - unat (rx_head q)
     else unat (rx_tail q) + 2048 - unat (rx_head q))"

definition rx_conteudo :: "tcp_socket \<Rightarrow> u8 list" where
  "rx_conteudo q = map (\<lambda>i. rx_buf q ! ((unat (rx_head q) + i) mod 2048)) [0..<rx_n q]"

lemma length_rx_conteudo [simp]: "length (rx_conteudo q) = rx_n q" by (simp add: rx_conteudo_def)

lemma mod_anel: "x < 4096 \<Longrightarrow> x mod 2048 = (if x < 2048 then x else x - 2048 :: nat)"
  by (simp add: mod_if)

lemma unat_avanca: "h < 2048 \<Longrightarrow> unat ((h + 1) mod TCP_RX_BUF_SIZE :: u16) = (unat h + 1) mod 2048"
  by (simp add: unat_mod unat_mais16 word_less_nat_alt TCP_RX_BUF_SIZE_def)

lemma rx_n_cheia:
  assumes "sq_ok q"
  shows "(rx_tail q + 1) mod TCP_RX_BUF_SIZE = rx_head q \<longleftrightarrow> rx_n q = 2047"
proof -
  have l: "unat (rx_head q) < 2048" "unat (rx_tail q) < 2048" using assms by (simp_all add: sq_ok_def word_less_nat_alt)
  have "(rx_tail q + 1) mod TCP_RX_BUF_SIZE = rx_head q \<longleftrightarrow> (unat (rx_tail q) + 1) mod 2048 = unat (rx_head q)"
    using unat_avanca [of "rx_tail q"] assms by (metis unat_eq_iff sq_ok_def)
  also have "\<dots> \<longleftrightarrow> rx_n q = 2047" using l by (auto simp: rx_n_def mod_anel)
  finally show ?thesis .
qed

lemma rx_poe_ok:
  assumes "sq_ok q"
  shows "sq_ok (rx_poe x q)" and "rx_n q < 2047 \<Longrightarrow> rx_conteudo (rx_poe x q) = rx_conteudo q @ [x]"
    and "rx_n q = 2047 \<Longrightarrow> rx_poe x q = q"
proof -
  have l: "unat (rx_head q) < 2048" "unat (rx_tail q) < 2048" "length (rx_buf q) = 2048"
    using assms by (simp_all add: sq_ok_def word_less_nat_alt)
  have t: "unat ((rx_tail q + 1) mod TCP_RX_BUF_SIZE) = (unat (rx_tail q) + 1) mod 2048"
    using unat_avanca assms by (simp add: sq_ok_def)
  then have "(rx_tail q + 1) mod TCP_RX_BUF_SIZE < 2048" by (simp add: word_less_nat_alt)
  then show "sq_ok (rx_poe x q)" using assms by (simp add: rx_poe_def Let_def sq_ok_def)
  show "rx_poe x q = q" if "rx_n q = 2047" using rx_n_cheia [OF assms] that by (simp add: rx_poe_def Let_def)
  assume n: "rx_n q < 2047"
  then have p: "rx_poe x q = q\<lparr>rx_buf := (rx_buf q)[unat (rx_tail q) := x], rx_tail := (rx_tail q + 1) mod TCP_RX_BUF_SIZE\<rparr>"
    using rx_n_cheia [OF assms] by (simp add: rx_poe_def Let_def)
  have n': "rx_n (rx_poe x q) = rx_n q + 1"
    using n l t by (auto simp: p rx_n_def mod_anel split: if_splits)
  have i: "(unat (rx_head q) + rx_n q) mod 2048 = unat (rx_tail q)" using l by (auto simp: rx_n_def mod_anel)
  have o': "(unat (rx_head q) + j) mod 2048 \<noteq> unat (rx_tail q)" if "j < rx_n q" for j
    using that l by (auto simp: rx_n_def mod_anel split: if_splits)
  show "rx_conteudo (rx_poe x q) = rx_conteudo q @ [x]"
    unfolding rx_conteudo_def n' using i l by (simp add: p) (metis o' nth_list_update_neq atLeastLessThan_iff)
qed

lemma rx_tira_ok:
  assumes "sq_ok q" "rx_conteudo q \<noteq> []"
  shows "sq_ok (snd (rx_tira q))" and "rx_conteudo q = fst (rx_tira q) # rx_conteudo (snd (rx_tira q))"
proof -
  have l: "unat (rx_head q) < 2048" "unat (rx_tail q) < 2048" using assms by (simp_all add: sq_ok_def word_less_nat_alt)
  have t: "unat ((rx_head q + 1) mod TCP_RX_BUF_SIZE) = (unat (rx_head q) + 1) mod 2048"
    using unat_avanca assms(1) by (simp add: sq_ok_def)
  then have "(rx_head q + 1) mod TCP_RX_BUF_SIZE < 2048" by (simp add: word_less_nat_alt)
  then show "sq_ok (snd (rx_tira q))" using assms by (simp add: rx_tira_def sq_ok_def)
  have "rx_n q \<noteq> 0" using assms(2) by (metis length_0_conv length_rx_conteudo)
  then have n: "rx_n q = Suc (rx_n (snd (rx_tira q)))"
    using l t by (auto simp: rx_n_def rx_tira_def mod_anel split: if_splits)
  have "rx_conteudo q = rx_buf q ! unat (rx_head q) # map (\<lambda>j. rx_buf q ! ((unat (rx_head q) + Suc j) mod 2048)) [0..<rx_n (snd (rx_tira q))]"
    unfolding rx_conteudo_def n using l by (simp add: upt_conv_Cons map_Suc_upt [symmetric] o_def del: upt_Suc)
  then show "rx_conteudo q = fst (rx_tira q) # rx_conteudo (snd (rx_tira q))"
    by (simp add: rx_tira_def rx_conteudo_def t mod_add_left_eq)
qed

interpretation rx: fila sq_ok rx_conteudo 2047 rx_poe rx_tira
proof
  fix q x
  assume q: "sq_ok q"
  have "rx_n q < 2048" using q by (auto simp: rx_n_def sq_ok_def word_less_nat_alt)
  then show "length (rx_conteudo q) \<le> 2047" by simp
  show "sq_ok (rx_poe x q)" using rx_poe_ok(1) [OF q] .
  show "length (rx_conteudo q) < 2047 \<Longrightarrow> rx_conteudo (rx_poe x q) = rx_conteudo q @ [x]" using rx_poe_ok(2) [OF q] by simp
  show "length (rx_conteudo q) = 2047 \<Longrightarrow> rx_conteudo (rx_poe x q) = rx_conteudo q" using rx_poe_ok(3) [OF q] by simp
  show "rx_conteudo q \<noteq> [] \<Longrightarrow> sq_ok (snd (rx_tira q))" using rx_tira_ok(1) [OF q] .
  show "rx_conteudo q \<noteq> [] \<Longrightarrow> rx_conteudo q = fst (rx_tira q) # rx_conteudo (snd (rx_tira q))" using rx_tira_ok(2) [OF q] .
qed

lemma rx_le_tira_n: "rx_le n q = rx.tira_n n q"
  by (induction n arbitrary: q) (auto simp: Let_def)

lemma rx_avail_ok:
  assumes "sq_ok q"
  shows "unat (rx_avail q) = rx_n q" and "rx_head q \<noteq> rx_tail q \<longleftrightarrow> rx_conteudo q \<noteq> []"
proof -
  have l: "unat (rx_head q) < 2048" "unat (rx_tail q) < 2048" using assms by (simp_all add: sq_ok_def word_less_nat_alt)
  show "unat (rx_avail q) = rx_n q"
  proof (cases "rx_head q \<le> rx_tail q")
    case True
    then show ?thesis using l by (simp add: rx_avail_def rx_n_def unat_sub word_le_nat_alt)
  next
    case False
    then have h: "unat (rx_tail q) < unat (rx_head q)" by (simp add: word_le_nat_alt)
    have "unat (TCP_RX_BUF_SIZE - rx_head q) = 2048 - unat (rx_head q)"
      using l by (subst unat_sub) (simp_all add: TCP_RX_BUF_SIZE_def word_le_nat_alt)
    then show ?thesis using False l h by (simp add: rx_avail_def rx_n_def unat_mais16)
  qed
  have "rx_conteudo q = [] \<longleftrightarrow> rx_n q = 0" by (metis length_0_conv length_rx_conteudo)
  also have "\<dots> \<longleftrightarrow> unat (rx_head q) = unat (rx_tail q)" using l by (auto simp: rx_n_def)
  finally show "rx_head q \<noteq> rx_tail q \<longleftrightarrow> rx_conteudo q \<noteq> []" by (simp add: unat_eq_iff)
qed

text \<open>One run of the socket's receive side: segments arrive (\<open>rx_copia\<close>), the program reads at most \<open>n\<close> bytes
  (the copy of \<open>tcp_recv\<close>).\<close>

fun rx_corre :: "u8 evento list \<Rightarrow> tcp_socket \<Rightarrow> u8 list \<times> tcp_socket" where
  "rx_corre [] q = ([], q)"
| "rx_corre (Chega xs # es) q = rx_corre es (rx_copia xs q)"
| "rx_corre (Le n # es) q =
     (let (xs, q) = rx_le (min n (unat (rx_avail q))) q; (ys, q) = rx_corre es q in (xs @ ys, q))"

lemma rx_corre_corre: "sq_ok q \<Longrightarrow> rx_corre es q = rx.corre es q"
proof (induction es arbitrary: q)
  case (Cons e es)
  show ?case
  proof (cases e)
    case (Chega xs)
    then show ?thesis using Cons.IH [of "fold rx_poe xs q"] rx.poe_todos [OF Cons.prems, of xs] by (simp add: rx_copia_def)
  next
    case (Le n)
    obtain xs q' where t: "rx.tira_n (min n (rx_n q)) q = (xs, q')" by (cases "rx.tira_n (min n (rx_n q)) q")
    then have "sq_ok q'" using rx.tira_n_ok [OF Cons.prems, of "min n (rx_n q)"] by simp
    then show ?thesis using Le t Cons.IH [of q'] rx_avail_ok(1) [OF Cons.prems] by (simp add: rx_le_tira_n Let_def)
  qed
qed simp

text \<open>C20: the receive ring of a socket implements a bounded byte queue.  For any sequence of arriving payloads and
  reads, from any well-formed ring, the bytes read are those a queue of capacity 2047 gives, in order, and what
  remains in the ring is what remains in the queue; bytes that do not fit are dropped.\<close>

theorem tcp_anel_fila:
  assumes "sq_ok q"
  shows "fst (rx_corre es q) = fst (fila_corre 2047 es (rx_conteudo q)) \<and>
    rx_conteudo (snd (rx_corre es q)) = snd (fila_corre 2047 es (rx_conteudo q)) \<and> sq_ok (snd (rx_corre es q))"
  unfolding rx_corre_corre [OF assms] by (rule rx.corre_simula [OF assms])

theorem tcp_anel_fila_witness:
  "fst (rx_corre [Chega [1, 2, 3], Le 2, Chega [4, 5], Le 9] (soquete_vazio\<lparr>rx_head := 2046, rx_tail := 2046\<rparr>)) = [1, 2, 3, 4, 5]"
proof -
  let ?q = "soquete_vazio\<lparr>rx_head := 2046, rx_tail := 2046\<rparr>"
  have "sq_ok ?q" by (simp add: sq_ok_def soquete_vazio_def TCP_CLOSE_WAIT_def)
  moreover have "rx_conteudo ?q = []" by (simp add: rx_conteudo_def rx_n_def)
  ultimately show ?thesis using tcp_anel_fila [of ?q "[Chega [1, 2, 3], Le 2, Chega [4, 5], Le 9]"] by simp
qed

section \<open>Segments on the wire, data in\<close>

lemma mesma_rede_mais: "mesma_rede s s' \<Longrightarrow> bindings s' = bindings s \<and> tcp_out s' = tcp_out s \<and> udp_out s' = udp_out s \<and>
    tiques s' = tiques s \<and> tique_n s' = tique_n s"
  by (auto simp: mesma_rede_def)

lemma length_tcp_header [simp]: "length (tcp_header a b c d e) = 20" by (simp add: tcp_header_def)

text \<open>An empty segment to a peer whose MAC is known: one frame out, the sockets as they were.\<close>

lemma segmento_vazio_ok:
  assumes "rede_ok s" "length (tcp_out s) = 1500" "destino (remote_ip (soquete k s)) s m"
  shows "\<exists>r s' h seg. tcp_send_segment poll k flags None 0 s = Some (r, s') \<and>
    sockets s' = sockets s \<and> nb_data s' = nb_data s \<and> nb_off s' = nb_off s \<and> arp_cache s' = arp_cache s \<and> rede_ok s' \<and> length (tcp_out s') = 1500 \<and>
    free_list s' = free_list s \<and> livre_count s' = livre_count s \<and> nb_next s' = nb_next s \<and>
    enviados s' = enviados s @ [quadro m (mac_addr s) ETH_PROTO_IP (h @ seg)] \<and> cabecalho h 40 (ip_id_counter s) IP_PROTO_TCP (net_our_ip s) (remote_ip (soquete k s)) \<and>
    length seg = 20 \<and> take 16 seg = take 16 (tcp_header (local_port (soquete k s)) (remote_port (soquete k s)) (seq_num (soquete k s)) (ack_num (soquete k s)) flags)"
proof -
  let ?q = "soquete k s"
  define H where "H = tcp_header (local_port ?q) (remote_port ?q) (seq_num ?q) (ack_num ?q) flags"
  define o1 where "o1 = splice (tcp_out s) 0 H"
  define c where "c = le16 (tcp_checksum (net_our_ip s) (remote_ip ?q) o1 20)"
  define o2 where "o2 = splice o1 16 c"
  have l: "length H = 20" "length o1 = 1500" "length c = 2" "length o2 = 1500"
    using assms(2) by (simp_all add: H_def o1_def c_def o2_def)
  have t: "take 16 (take 20 o2) = take 16 H"
    using l assms(2) by (simp add: o2_def o1_def splice_def min_def)
  define s1 where "s1 = s\<lparr>tcp_out := o2\<rparr>"
  have r1: "rede_ok s1" using assms(1) by (simp add: s1_def rede_ok_def)
  have "nexthop ip (s\<lparr>tcp_out := o2\<rparr>) = nexthop ip s" "arp_cache_lookup ip (s\<lparr>tcp_out := o2\<rparr>) = arp_cache_lookup ip s" for ip
    by (simp_all add: nexthop_def arp_cache_lookup_def)
  then have d1: "destino (remote_ip ?q) s1 m" using assms(3) by (simp add: destino_def s1_def)
  obtain r s' h where e: "ip_send poll (remote_ip ?q) IP_PROTO_TCP o2 20 s1 = Some (r, s')"
      "cabecalho h (20 + 20) (ip_id_counter s1) IP_PROTO_TCP (net_our_ip s1) (remote_ip ?q)"
      "enviados s' = enviados s1 @ [quadro m (mac_addr s1) ETH_PROTO_IP (h @ take (unat (20 :: u16)) o2)]" "rede_ok s'"
      "mesma_rede (s1\<lparr>ip_packet := ip_packet s', ip_id_counter := ip_id_counter s1 + 1\<rparr>) s'"
    using ip_send_ok [OF r1 d1, of 20 o2 poll IP_PROTO_TCP] l(4) by auto
  have "tcp_send_segment poll k flags None 0 s = Some (r, s')"
    using e(1) by (simp add: tcp_send_segment_def Let_def TCP_HDR_LEN_def s1_def H_def o1_def c_def o2_def)
  then show ?thesis
    using e mesma_rede_campos [OF e(5)] mesma_rede_mais [OF e(5)] l(4) t
    by (intro exI [of _ r] exI [of _ s'] exI [of _ h] exI [of _ "take 20 o2"]) (simp add: s1_def H_def)
qed

lemma soquete_muda [simp]:
  "k < length (sockets s) \<Longrightarrow> soquete k (muda k f s) = f (soquete k s)" "j \<noteq> k \<Longrightarrow> soquete j (muda k f s) = soquete j s"
  by (simp_all add: soquete_def muda_def)

lemma muda_campos [simp]:
  "rede_ok (muda k f s) = rede_ok s" "tcp_out (muda k f s) = tcp_out s" "nb_data (muda k f s) = nb_data s" "nb_off (muda k f s) = nb_off s"
  "nb_len (muda k f s) = nb_len s" "free_list (muda k f s) = free_list s" "nb_next (muda k f s) = nb_next s" "livre_count (muda k f s) = livre_count s"
  "enviados (muda k f s) = enviados s" "mac_addr (muda k f s) = mac_addr s" "net_our_ip (muda k f s) = net_our_ip s"
  "ip_id_counter (muda k f s) = ip_id_counter s" "length (sockets (muda k f s)) = length (sockets s)"
  "destino dst (muda k f s) m = destino dst s m"
  by (simp_all add: muda_def rede_ok_def destino_def nexthop_def arp_cache_lookup_def)

text \<open>The header of a segment of ours: what the receiver reads from it.\<close>

lemma segmento_campos:
  assumes "length seg = 20" "take 16 seg = take 16 (tcp_header sp dp seq ack flags)"
  shows "rdb16 (seg @ x) 0 = sp" "rdb16 (seg @ x) 2 = dp" "rdb32 (seg @ x) 4 = seq" "(seg @ x) ! 12 = 0x50" "(seg @ x) ! 13 = flags"
proof -
  let ?H = "tcp_header sp dp seq ack flags"
  have n: "(seg @ x) ! i = ?H ! i" if "i < 16" for i
    using arg_cong [OF assms(2), of "\<lambda>l. l ! i"] that assms(1) by (simp add: nth_append)
  have H: "rdb16 ?H 0 = sp" "rdb16 ?H 2 = dp" "rdb32 ?H 4 = seq" "?H ! 12 = 0x50" "?H ! 13 = flags"
    by (simp_all add: tcp_header_def buf_simps) (simp_all add: be16_bytes be32_bytes)
  show "rdb16 (seg @ x) 0 = sp" "rdb16 (seg @ x) 2 = dp" "rdb32 (seg @ x) 4 = seq" "(seg @ x) ! 12 = 0x50" "(seg @ x) ! 13 = flags"
    using H n by (simp_all add: rdb16_def rdb32_def rd16_def rd32_def)
qed

text \<open>C21: data in on an established connection.  A segment with the header our own sender builds, without RST or
  FIN, for the connection of socket \<open>k\<close>, appends its payload to what the socket holds (up to the ring's
  capacity), advances the acknowledgement number by the payload's length, answers with one frame carrying that
  acknowledgement, leaves the other sockets alone and gives the buffer back.\<close>

theorem tcp_dados_entregues:
  assumes "rede_ok s" "length (tcp_out s) = 1500" "length (sockets s) = 4" "k < 4"
    and "drop (unat (nb_off s b)) (nb_data s b) = seg @ dados @ resto" "nb_len s b = nb_off s b + 20 + of_nat (length dados)"
    and "length seg = 20" "take 16 seg = take 16 (tcp_header sp dp seq ack flags)" "dados \<noteq> []" "length dados < 65516"
    and "tcp_busca dp sp s = Some k" "tcp_state (soquete k s) = TCP_ESTABLISHED" "sq_ok (soquete k s)"
    and "flags AND TCP_RST = 0" "flags AND TCP_FIN = 0" "destino (remote_ip (soquete k s)) s m"
  shows "\<exists>s' h ackseg. tcp_recv_dispatch poll (Some b) s = Some s' \<and>
    rx_conteudo (soquete k s') = take 2047 (rx_conteudo (soquete k s) @ dados) \<and>
    ack_num (soquete k s') = ack_num (soquete k s) + of_nat (length dados) \<and>
    (\<forall>j. j \<noteq> k \<longrightarrow> soquete j s' = soquete j s) \<and> free_list s' = Some b \<and>
    enviados s' = enviados s @ [quadro m (mac_addr s) ETH_PROTO_IP (h @ ackseg)] \<and>
    take 16 ackseg = take 16 (tcp_header (local_port (soquete k s)) (remote_port (soquete k s)) (seq_num (soquete k s))
      (ack_num (soquete k s) + of_nat (length dados)) TCP_ACK)"
proof -
  note f = segmento_campos [OF assms(7,8), of "dados @ resto"]
  have u: "unat (of_nat (length dados) :: u16) = length dados" using assms(10) by (simp add: unat_of_nat)
  have av: "nb_len s b - nb_off s b = 20 + of_nat (length dados)" by (simp add: assms(6))
  have av20: "\<not> 20 + of_nat (length dados) < (20 :: u16)"
    using assms(10) u by (simp add: word_less_nat_alt unat_mais16)
  have hl: "drop_bit 4 (0x50 :: u8) * 4 = 20" by (simp add: drop_bit_eq_div)
  have nz: "(of_nat (length dados) :: u16) \<noteq> 0" using u assms(9) by (metis length_0_conv unat_0)
  have uc: "(ucast (of_nat (length dados) :: u16) :: u32) = of_nat (length dados)"
    by (rule unat_eq_iff [THEN iffD1]) (use u assms(10) in \<open>simp add: unat_of_nat\<close>)
  define q1 where "q1 = rx_copia dados (soquete k s\<lparr>ack_num := ack_num (soquete k s) + of_nat (length dados)\<rparr>)"
  define s1 where "s1 = muda k (\<lambda>q. rx_copia dados (q\<lparr>ack_num := ack_num q + of_nat (length dados)\<rparr>)) s"
  have q1: "soquete k s1 = q1" using assms(3,4) by (simp add: s1_def q1_def)
  have campo: "remote_ip (rx_copia xs q) = remote_ip q" "local_port (rx_copia xs q) = local_port q" "remote_port (rx_copia xs q) = remote_port q"
    "seq_num (rx_copia xs q) = seq_num q" "ack_num (rx_copia xs q) = ack_num q" for xs q
    unfolding rx_copia_def by (induction xs arbitrary: q) (simp_all add: rx_poe_def Let_def)
  have rip: "remote_ip (soquete k s1) = remote_ip (soquete k s)" unfolding q1 by (simp add: q1_def campo)
  have d1: "destino (remote_ip (soquete k s1)) s1 m" unfolding rip unfolding s1_def using assms(16) by simp
  obtain r s2 h a where e: "tcp_send_segment poll k TCP_ACK None 0 s1 = Some (r, s2)" "sockets s2 = sockets s1"
      "enviados s2 = enviados s1 @ [quadro m (mac_addr s1) ETH_PROTO_IP (h @ a)]"
      "take 16 a = take 16 (tcp_header (local_port (soquete k s1)) (remote_port (soquete k s1)) (seq_num (soquete k s1)) (ack_num (soquete k s1)) TCP_ACK)"
    using segmento_vazio_ok [of s1 k m poll TCP_ACK] d1 assms(1,2) by (auto simp: s1_def)
  have pl: "take (unat (of_nat (length dados) :: u16)) (drop (unat (nb_off s b) + unat (20 :: u8)) (nb_data s b)) = dados"
  proof -
    have "drop (unat (nb_off s b) + 20) (nb_data s b) = drop 20 (seg @ dados @ resto)"
      unfolding assms(5) [symmetric] drop_drop by (simp only: add.commute)
    then have "drop (unat (nb_off s b) + 20) (nb_data s b) = dados @ resto" using assms(7) by simp
    moreover have "unat (20 :: u8) = 20" by simp
    ultimately show ?thesis using u by (simp only:) simp
  qed
  have E: "tcp_estado poll k flags seq (of_nat (length dados)) (\<lambda>s. drop (unat (nb_off s' b) + unat (20 :: u8)) (nb_data s b)) s = Some s2"
    if "nb_off s' = nb_off s" for s'
    using e(1) assms(12,14,15) nz pl that by (simp add: tcp_estado_def Let_def tcp_estados uc s1_def)
  have "tcp_recv_dispatch poll (Some b) s = Some (netbuf_free (Some b) s2)"
    using E [OF refl] f assms(11)
    by (simp add: tcp_recv_dispatch_def Let_def assms(5) av av20 TCP_HDR_LEN_def hl)
  moreover have "sq_ok (soquete k s\<lparr>ack_num := x\<rparr>)" "rx_conteudo (soquete k s\<lparr>ack_num := x\<rparr>) = rx_conteudo (soquete k s)" for x
    using assms(13) by (simp_all add: sq_ok_def rx_conteudo_def rx_n_def)
  then have "rx_conteudo q1 = take 2047 (rx_conteudo (soquete k s) @ dados)"
    using rx.poe_todos [of "soquete k s\<lparr>ack_num := ack_num (soquete k s) + of_nat (length dados)\<rparr>" dados] by (simp add: q1_def rx_copia_def)
  moreover have "soquete j (netbuf_free (Some b) s2) = soquete j s1" for j using e(2) by (simp add: soquete_def netbuf_free_def)
  ultimately show ?thesis using e(3,4) q1
    by (intro exI [of _ "netbuf_free (Some b) s2"] exI [of _ h] exI [of _ a])
      (simp add: netbuf_free_def s1_def q1_def campo)
qed

definition net_conectada :: net where
  "net_conectada = arp_cache_add 0x0A000202 [1, 2, 3, 4, 5, 6] (net_exemplo\<lparr>
     sockets := soquete_vazio\<lparr>remote_ip := 0x0A000202, local_port := 49152, remote_port := 80, seq_num := 7, ack_num := 9,
       tcp_state := TCP_ESTABLISHED\<rparr> # replicate 3 soquete_vazio,
     nb_data := \<lambda>_. replicate 34 0 @ tcp_header 80 49152 9 7 TCP_ACK @ [104, 105], nb_len := \<lambda>_. 56, nb_off := \<lambda>_. 34\<rparr>)"

lemma net_conectada_destino: "destino 0x0A000202 net_conectada [1, 2, 3, 4, 5, 6]"
proof -
  have n: "nexthop 0x0A000202 net_conectada = 0x0A000202"
    by (simp add: nexthop_def net_conectada_def arp_cache_add_def net_exemplo_def)
  have "arp_cabe (arp_cache net_exemplo) 0x0A000202"
    by (simp add: arp_cabe_def net_exemplo_def find_None_iff) (intro exI [of _ 0], simp)
  then have "arp_busca (arp_slot 0x0A000202 [1, 2, 3, 4, 5, 6] (arp_cache net_exemplo)) 0x0A000202 = Some [1, 2, 3, 4, 5, 6]"
    using ta.busca_mesma [OF net_exemplo_ok(2)] by blast
  then have "arp_cache_lookup 0x0A000202 net_conectada = Some [1, 2, 3, 4, 5, 6]"
    by (simp add: arp_cache_lookup_def net_conectada_def arp_cache_add_def)
  then show ?thesis unfolding destino_def n by simp
qed

theorem tcp_dados_entregues_witness:
  "\<exists>s'. tcp_recv_dispatch (\<lambda>_. None) (Some 0) net_conectada = Some s' \<and> rx_conteudo (soquete 0 s') = [104, 105] \<and>
     ack_num (soquete 0 s') = 11"
proof -
  let ?s = net_conectada and ?seg = "tcp_header 80 49152 9 7 TCP_ACK"
  have q: "soquete 0 ?s = soquete_vazio\<lparr>remote_ip := 0x0A000202, local_port := 49152, remote_port := 80, seq_num := 7, ack_num := 9,
       tcp_state := TCP_ESTABLISHED\<rparr>" by (simp add: soquete_def net_conectada_def arp_cache_add_def)
  have a: "rede_ok ?s" "length (tcp_out ?s) = 1500" "length (sockets ?s) = 4"
    using net_exemplo_ok(1) by (simp_all add: net_conectada_def arp_cache_add_def rede_ok_def) (simp add: net_exemplo_def)
  have d: "drop (unat (nb_off ?s 0)) (nb_data ?s 0) = ?seg @ [104, 105] @ []" "nb_len ?s 0 = nb_off ?s 0 + 20 + of_nat (length [104, 105 :: u8])"
    by (simp_all add: net_conectada_def arp_cache_add_def)
  have b: "tcp_busca 49152 80 ?s = Some 0"
    using q unfolding tcp_busca_def find_upt by (simp add: TCP_MAX_SOCKETS_def tcp_estados)
  have r: "rx_conteudo (soquete 0 ?s) = []" "sq_ok (soquete 0 ?s)"
    by (simp_all add: q rx_conteudo_def rx_n_def sq_ok_def soquete_vazio_def tcp_estados)
  have f: "TCP_ACK AND TCP_RST = 0" "TCP_ACK AND TCP_FIN = 0" by (simp_all add: TCP_ACK_def TCP_RST_def TCP_FIN_def)
  have m: "destino (remote_ip (soquete 0 ?s)) ?s [1, 2, 3, 4, 5, 6]" using net_conectada_destino by (simp add: q)
  have "\<exists>s' h ackseg. tcp_recv_dispatch (\<lambda>_. None) (Some 0) ?s = Some s' \<and>
      rx_conteudo (soquete 0 s') = take 2047 (rx_conteudo (soquete 0 ?s) @ [104, 105]) \<and>
      ack_num (soquete 0 s') = ack_num (soquete 0 ?s) + of_nat (length [104, 105 :: u8]) \<and>
      (\<forall>j. j \<noteq> 0 \<longrightarrow> soquete j s' = soquete j ?s) \<and> free_list s' = Some 0 \<and>
      enviados s' = enviados ?s @ [quadro [1, 2, 3, 4, 5, 6] (mac_addr ?s) ETH_PROTO_IP (h @ ackseg)] \<and>
      take 16 ackseg = take 16 (tcp_header (local_port (soquete 0 ?s)) (remote_port (soquete 0 ?s)) (seq_num (soquete 0 ?s))
        (ack_num (soquete 0 ?s) + of_nat (length [104, 105 :: u8])) TCP_ACK)"
    by (rule tcp_dados_entregues [OF a _ d _ refl _ _ b _ r(2) f m]) (simp_all add: q)
  then show ?thesis unfolding r(1) by (auto simp: q)
qed

section \<open>Reading\<close>

lemma tcp_recv_loop_dados:
  assumes "k < length (sockets s)" "sq_ok (soquete k s)" "rx_conteudo (soquete k s) \<noteq> []"
  shows "\<exists>q. tcp_recv_loop poll k max_len tmo start s =
    Some (int (min (length (rx_conteudo (soquete k s))) (unat max_len)), take (unat max_len) (rx_conteudo (soquete k s)), muda k (\<lambda>_. q) s) \<and>
    rx_conteudo q = drop (unat max_len) (rx_conteudo (soquete k s)) \<and> sq_ok q"
proof -
  let ?q = "soquete k s"
  define n where "n = (if rx_avail ?q < max_len then rx_avail ?q else max_len)"
  have n: "unat n = min (length (rx_conteudo ?q)) (unat max_len)"
    using rx_avail_ok(1) [OF assms(2)] by (auto simp: n_def word_less_nat_alt)
  obtain xs q where t: "rx_le (unat n) ?q = (xs, q)" by (cases "rx_le (unat n) ?q")
  then have "xs = take (unat n) (rx_conteudo ?q) \<and> rx_conteudo q = drop (unat n) (rx_conteudo ?q) \<and> sq_ok q"
    using rx.tira_n_ok [OF assms(2), of "unat n"] n by (simp add: rx_le_tira_n)
  moreover have "tcp_recv_loop poll k max_len tmo start s = Some (int (unat n), xs, muda k (\<lambda>_. q) s)"
    using rx_avail_ok(2) [OF assms(2)] assms(3) t by (subst tcp_recv_loop.simps) (simp add: Let_def n_def split: prod.splits)
  ultimately show ?thesis using n by (intro exI [of _ q]) (auto simp: min_def)
qed

text \<open>What polling must do for a wait to end: it returns, in states that \<open>I\<close> describes, and never turns the clock back.\<close>

definition poll_retorna :: "(net \<Rightarrow> bool) \<Rightarrow> (net \<Rightarrow> (int \<times> net) option) \<Rightarrow> bool" where
  "poll_retorna I poll \<longleftrightarrow> (\<forall>s. I s \<longrightarrow> I (snd (sched_ticks_net s)) \<and>
     (\<exists>r s'. poll s = Some (r, s') \<and> I s' \<and> tiques s' = tiques s \<and> tique_n s \<le> tique_n s'))"

lemma tcp_recv_loop_retorna:
  assumes p: "poll_retorna I poll" and N: "\<forall>n \<ge> N. tmo div 10 \<le> T n - start" and I: "\<And>s. I s \<Longrightarrow> k < length (sockets s) \<and> sq_ok (soquete k s)"
  shows "I s \<Longrightarrow> tiques s = T \<Longrightarrow> \<exists>r xs s'. tcp_recv_loop poll k max_len tmo start s = Some (r, xs, s') \<and> length xs \<le> unat max_len \<and>
    (r = int (length xs) \<or> r = - 1 \<and> xs = [])"
proof (induction "N - tique_n s" arbitrary: s rule: less_induct)
  case less
  let ?q = "soquete k s"
  show ?case
  proof (cases "rx_conteudo ?q = []")
    case False
    then show ?thesis using tcp_recv_loop_dados [of k s poll max_len tmo start] I [OF less.prems(1)]
      by (auto simp: min_def)
  next
    case True
    then have e: "rx_head ?q = rx_tail ?q" using rx_avail_ok(2) I [OF less.prems(1)] by blast
    let ?s1 = "snd (sched_ticks_net s)"
    obtain r s2 where p2: "poll ?s1 = Some (r, s2)" "I s2" "tiques s2 = tiques ?s1" "tique_n ?s1 \<le> tique_n s2"
      using p less.prems(1) unfolding poll_retorna_def by blast
    have t1: "tiques ?s1 = T" "tique_n ?s1 = tique_n s + 1" using less.prems(2) by (simp_all add: sched_ticks_net_def)
    show ?thesis
    proof (cases "tmo div 10 \<le> T (tique_n s) - start \<or> tmo = 0 \<or> tcp_state ?q = TCP_CLOSED \<or> tcp_state ?q = TCP_CLOSE_WAIT")
      case True
      then show ?thesis using e less.prems(2) by (subst tcp_recv_loop.simps) (auto simp: Let_def sched_ticks_net_def)
    next
      case False
      then have "tique_n s < N" using N by (meson not_le)
      then have "N - tique_n s2 < N - tique_n s" using p2(4) t1(2) by simp
      then have "\<exists>r xs s'. tcp_recv_loop poll k max_len tmo start s2 = Some (r, xs, s') \<and> length xs \<le> unat max_len \<and>
          (r = int (length xs) \<or> r = - 1 \<and> xs = [])"
        using less.hyps p2(2,3) t1(1) by simp
      moreover have "tcp_recv_loop poll k max_len tmo start s = tcp_recv_loop poll k max_len tmo start s2"
        using False e less.prems(2) p2(1) by (subst tcp_recv_loop.simps) (simp add: Let_def sched_ticks_net_def)
      ultimately show ?thesis by simp
    qed
  qed
qed

end
