(* ===== verification/Rede.thy ===== *)
theory Rede
  imports Tcp
begin

text \<open>
  The network stack put together: IPv4 input (\<^verbatim>\<open>ipv4.c\<close>), Ethernet input (\<^verbatim>\<open>ethernet.c\<close>), the polling of the card
  that runs them, and the clients that wait for an answer, DNS (\<^verbatim>\<open>dns.c\<close>) and DHCP (\<^verbatim>\<open>dhcp.c\<close>).

  Receiving can send (an acknowledgement, an ARP reply), sending can wait for an ARP answer, and waiting polls:
  \<open>eth_poll_n n\<close> is the polling function with at most \<open>n\<close> such polls nested, \<open>None\<close> beyond.
\<close>

section \<open>Input\<close>

definition ip_recv :: "(net \<Rightarrow> (int \<times> net) option) \<Rightarrow> nat option \<Rightarrow> net \<Rightarrow> net option" where
  "ip_recv poll buf s =
     (case buf of
        None \<Rightarrow> Some s
      | Some b \<Rightarrow>
          let d = drop (unat (nb_off s b)) (nb_data s b); avail = nb_len s b - nb_off s b in
          if avail < IP_HDR_LEN then Some (netbuf_free buf s)
          else if drop_bit 4 (d ! 0) \<noteq> 4 then Some (netbuf_free buf s)
          else if d ! 0 AND 0xF \<noteq> 5 then Some (netbuf_free buf s)
          else if ip_checksum (take (unat IP_HDR_LEN) d) \<noteq> 0 then Some (netbuf_free buf s)
          else let dst = rdb32 d 16 in
            if net_our_ip s \<noteq> 0 \<and> dst \<noteq> net_our_ip s \<and> dst \<noteq> 0xFFFFFFFF then Some (netbuf_free buf s)
            else let s = s\<lparr>nb_off := (nb_off s)(b := nb_off s b + IP_HDR_LEN)\<rparr>; proto = d ! 9 in
              if proto = IP_PROTO_UDP then Some (udp_recv buf s)
              else if proto = IP_PROTO_TCP then tcp_recv_dispatch poll buf s
              else Some (netbuf_free buf s))"

definition eth_recv :: "(net \<Rightarrow> (int \<times> net) option) \<Rightarrow> nat option \<Rightarrow> net \<Rightarrow> net option" where
  "eth_recv poll buf s =
     (case buf of
        None \<Rightarrow> Some (netbuf_free buf s)
      | Some b \<Rightarrow>
          if nb_len s b < ETH_HDR_LEN then Some (netbuf_free buf s)
          else let proto = rdb16 (drop (unat (nb_off s b)) (nb_data s b)) 12;
                   s = s\<lparr>nb_off := (nb_off s)(b := nb_off s b + ETH_HDR_LEN)\<rparr> in
            if proto = ETH_PROTO_ARP then Some (arp_recv buf s)
            else if proto = ETH_PROTO_IP then ip_recv poll buf s
            else Some (netbuf_free buf s))"

fun eth_poll_n :: "nat \<Rightarrow> net \<Rightarrow> (int \<times> net) option" where
  "eth_poll_n 0 s = None"
| "eth_poll_n (Suc n) s = eth_poll (eth_recv (eth_poll_n n)) s"

section \<open>DNS and DHCP\<close>

definition dns_resolve :: "(net \<Rightarrow> (int \<times> net) option) \<Rightarrow> u8 list \<Rightarrow> net \<Rightarrow> (u32 option \<times> net) option" where
  "dns_resolve poll hostname s =
     (if net_dns_ip s = 0 then Some (None, s)
      else let s = s\<lparr>dns_got_reply := False, dns_result_ip := 0, dns_query_id := dns_query_id s + 1\<rparr>;
               s = s\<lparr>dns_buf := splice (dns_buf s) 0 (dns_header (dns_query_id s))\<rparr> in
        case dns_encode_name hostname of
          None \<Rightarrow> Some (None, s)
        | Some nome \<Rightarrow> do {
            let q = dns_query (dns_query_id s) nome;
            let s = s\<lparr>dns_buf := splice (dns_buf s) 0 q\<rparr>;
            let s = snd (udp_bind DNS_SRC_PORT Dns_handler s);
            (_, s) \<leftarrow> udp_send poll (net_dns_ip s) DNS_SRC_PORT DNS_PORT (dns_buf s) (of_nat (length q)) s;
            let (start, s) = sched_ticks_net s;
            s \<leftarrow> espera poll (\<lambda>s. \<not> dns_got_reply s) start 300 s;
            let s = udp_unbind DNS_SRC_PORT s;
            Some (if \<not> dns_got_reply s then None else Some (dns_result_ip s), s) })"

definition dhcp_init :: "(net \<Rightarrow> (int \<times> net) option) \<Rightarrow> net \<Rightarrow> (int \<times> net) option" where
  "dhcp_init poll s =
     do {
       let s = s\<lparr>dhcp_got_offer := False, dhcp_got_ack := False, offered_ip := 0, server_id := 0\<rparr>;
       let s = snd (udp_bind DHCP_CLIENT_PORT Dhcp_handler s);
       let s = build_discover s;
       (_, s) \<leftarrow> udp_send poll 0xFFFFFFFF DHCP_CLIENT_PORT DHCP_SERVER_PORT (dhcp_pkt s) DHCP_PKT_LEN s;
       let (start, s) = sched_ticks_net s;
       s \<leftarrow> espera poll (\<lambda>s. \<not> dhcp_got_offer s) start 500 s;
       if \<not> dhcp_got_offer s then Some (- 1, udp_unbind DHCP_CLIENT_PORT s)
       else do {
         let s = build_request s;
         (_, s) \<leftarrow> udp_send poll 0xFFFFFFFF DHCP_CLIENT_PORT DHCP_SERVER_PORT (dhcp_pkt s) DHCP_PKT_LEN s;
         let (start, s) = sched_ticks_net s;
         s \<leftarrow> espera poll (\<lambda>s. \<not> dhcp_got_ack s) start 500 s;
         let s = udp_unbind DHCP_CLIENT_PORT s;
         if \<not> dhcp_got_ack s then Some (- 1, s)
         else Some (0, s\<lparr>net_our_ip := offered_ip s, net_gateway_ip := offered_gw s, net_netmask := offered_mask s,
           net_dns_ip := offered_dns s\<rparr>) } }"

section \<open>What the stack never breaks\<close>

text \<open>\<open>tipo\<close>: every buffer has its declared size and every table and socket is legal.\<close>

definition tipo :: "net \<Rightarrow> bool" where
  "tipo s \<longleftrightarrow> length (eth_frame s) = 1514 \<and> length (mac_addr s) = 6 \<and> length (ip_packet s) = 1500 \<and> length (udp_out s) = 1500 \<and>
     length (tcp_out s) = 1500 \<and> (\<forall>b. length (nb_data s b) = NETBUF_SIZE) \<and>
     length (arp_cache s) = ARP_CACHE_SIZE \<and> (\<forall>e \<in> set (arp_cache s). length (ae_mac e) = 6) \<and>
     length (bindings s) = UDP_MAX_HANDLERS \<and> length (sockets s) = TCP_MAX_SOCKETS \<and> (\<forall>q \<in> set (sockets s). sq_ok q)"

text \<open>The transitions of a socket that incoming segments may cause.\<close>

inductive tcp_passo :: "u8 \<Rightarrow> u8 \<Rightarrow> bool" where
  syn_ack: "tcp_passo TCP_SYN_SENT TCP_ESTABLISHED"
| fin: "tcp_passo TCP_ESTABLISHED TCP_CLOSE_WAIT"
| rst: "tcp_passo TCP_ESTABLISHED TCP_CLOSED"
| fin_ack: "tcp_passo TCP_FIN_WAIT TCP_CLOSED"

definition estados :: "net \<Rightarrow> net \<Rightarrow> bool" where
  "estados s s' \<longleftrightarrow> (\<forall>k. tcp_passo\<^sup>*\<^sup>* (tcp_state (soquete k s)) (tcp_state (soquete k s')))"

definition pool_eq :: "net \<Rightarrow> net \<Rightarrow> bool" where
  "pool_eq s s' \<longleftrightarrow> (\<forall>xs. livres_nb s xs \<longrightarrow> (\<exists>xs'. livres_nb s' xs' \<and> set xs' = set xs))"

definition evolui :: "net \<Rightarrow> net \<Rightarrow> bool" where
  "evolui s s' \<longleftrightarrow> (tipo s \<longrightarrow> tipo s' \<and> estados s s' \<and> pool_eq s s')"

lemma evolui_refl [simp, intro]: "evolui s s"
  by (auto simp: evolui_def estados_def pool_eq_def)

lemma pool_eq_trans: "pool_eq s t \<Longrightarrow> pool_eq t u \<Longrightarrow> pool_eq s u"
  unfolding pool_eq_def by metis

lemma evolui_trans: "evolui s t \<Longrightarrow> evolui t u \<Longrightarrow> evolui s u"
  unfolding evolui_def estados_def using pool_eq_trans by (meson rtranclp_trans)

text \<open>Changes that touch neither the typed fields nor the pool.\<close>

lemma evolui_campos:
  assumes "length (eth_frame s') = length (eth_frame s)" "mac_addr s' = mac_addr s" "length (ip_packet s') = length (ip_packet s)"
    "length (udp_out s') = length (udp_out s)" "length (tcp_out s') = length (tcp_out s)" "nb_data s' = nb_data s" "arp_cache s' = arp_cache s"
    "length (bindings s') = length (bindings s)" "sockets s' = sockets s" "nb_next s' = nb_next s" "free_list s' = free_list s" "livre_count s' = livre_count s"
  shows "evolui s s'"
  using assms by (auto simp: evolui_def tipo_def estados_def soquete_def pool_eq_def livres_nb_def)

lemma evolui_tique: "sched_ticks_net s = (t, s') \<Longrightarrow> evolui s s'"
  by (rule evolui_campos) (auto simp: sched_ticks_net_def)

lemma evolui_rtl_send: "rtl8139_send d len s = (r, s') \<Longrightarrow> evolui s s'"
proof -
  assume h: "rtl8139_send d len s = (r, s')"
  define s1 where "s1 = s\<lparr>enviados := enviados s @ [take (unat len) d @ replicate (60 - unat len) 0]\<rparr>"
  obtain u t where "tsd_espera 200000 s1 = (u, s1\<lparr>rede_t := t\<rparr>)" using tsd_espera_ok by blast
  with h have "s' = s \<or> s' = s1\<lparr>rede_t := t, tx_next := (tx_next s1 + 1) mod TX_DESC_COUNT\<rparr>"
    by (auto simp: rtl8139_send_def Let_def s1_def split: if_splits)
  then show ?thesis by (elim disjE) (auto intro: evolui_campos simp: s1_def)
qed

lemma evolui_eth_send: "eth_send dst proto p len s = (r, s') \<Longrightarrow> length dst = 6 \<Longrightarrow> evolui s s'"
proof -
  assume h: "eth_send dst proto p len s = (r, s')" "length dst = 6"
  show ?thesis
  proof (cases "1500 < len")
    case True
    then show ?thesis using h by (simp add: eth_send_def)
  next
    case False
    then have l: "unat len \<le> 1500" by (simp add: word_less_nat_alt not_less)
    define f where "f = splice (splice (eth_frame s) 0 (eth_header dst (mac_addr s) proto)) (unat ETH_HDR_LEN) (take (unat len) p)"
    have e: "rtl8139_send f (ETH_HDR_LEN + len) (s\<lparr>eth_frame := f\<rparr>) = (r, s')" using h(1) False by (simp add: eth_send_def Let_def f_def)
    have "length f = 1514" if "tipo s"
    proof -
      have "length (eth_header dst (mac_addr s) proto) = 14" "length (eth_frame s) = 1514"
        using that h(2) by (simp_all add: tipo_def eth_header_def)
      then show ?thesis using l by (simp add: f_def ETH_HDR_LEN_def)
    qed
    then have "evolui s (s\<lparr>eth_frame := f\<rparr>)"
      by (auto simp: evolui_def tipo_def estados_def soquete_def pool_eq_def livres_nb_def)
    then show ?thesis using evolui_rtl_send [OF e] evolui_trans by blast
  qed
qed

section \<open>Address resolution and sending\<close>

lemma evolui_arp_request: "tipo s \<Longrightarrow> evolui s (arp_send_request ip s)"
  unfolding arp_send_request_def by (rule evolui_eth_send [OF surjective_pairing]) (simp add: ETH_BROADCAST_def)

lemma arp_mac: "tipo s \<Longrightarrow> arp_cache_lookup ip s = Some m \<Longrightarrow> length m = 6"
  by (auto simp: arp_cache_lookup_def arp_busca_def tipo_def find_upt)

text \<open>\<open>poll_ok\<close>: polling, when it returns, keeps the invariants.\<close>

definition poll_ok :: "(net \<Rightarrow> (int \<times> net) option) \<Rightarrow> bool" where
  "poll_ok poll \<longleftrightarrow> (\<forall>s r s'. poll s = Some (r, s') \<longrightarrow> evolui s s')"

lemma poll_okD: "poll_ok poll \<Longrightarrow> poll s = Some (r, s') \<Longrightarrow> evolui s s'"
  unfolding poll_ok_def by blast

lemma evolui_arp_espera:
  assumes "arp_espera poll ip start tm s = Some (m, s')" "poll_ok poll"
  shows "evolui s s' \<and> (m \<noteq> None \<longrightarrow> m = arp_cache_lookup ip s')"
proof -
  have "poll_ok poll \<longrightarrow> evolui s (snd (m, s')) \<and> (fst (m, s') \<noteq> None \<longrightarrow> fst (m, s') = arp_cache_lookup ip (snd (m, s')))"
  proof (rule arp_espera.raw_induct
    [where P = "\<lambda>poll ip start tm s y. poll_ok poll \<longrightarrow> evolui s (snd y) \<and> (fst y \<noteq> None \<longrightarrow> fst y = arp_cache_lookup ip (snd y))",
      OF _ assms(1)], goal_cases)
    case (1 f poll ip start tm s y)
    obtain t s1 where t: "sched_ticks_net s = (t, s1)" by (cases "sched_ticks_net s")
    note e1 = evolui_tique [OF t]
    show ?case
    proof (cases "t - start < tm")
      case False
      then show ?thesis using 1(2) t e1 by auto
    next
      case True
      then obtain r s2 where p: "poll s1 = Some (r, s2)"
        "(case arp_cache_lookup ip s2 of Some mac \<Rightarrow> Some (Some mac, s2) | None \<Rightarrow> f poll ip start tm s2) = Some y"
        using 1(2) t by (auto simp: bind_eq_Some_conv)
      show ?thesis
      proof
        assume ok: "poll_ok poll"
        have e2: "evolui s s2" using evolui_trans [OF e1 poll_okD [OF ok p(1)]] .
        show "evolui s (snd y) \<and> (fst y \<noteq> None \<longrightarrow> fst y = arp_cache_lookup ip (snd y))"
        proof (cases "arp_cache_lookup ip s2")
          case None
          then have "f poll ip start tm s2 = Some y" using p(2) by simp
          then show ?thesis using 1(1) ok e2 evolui_trans by blast
        next
          case (Some mac)
          then show ?thesis using p(2) e2 by auto
        qed
      qed
    qed
  qed
  then show ?thesis using assms(2) by simp
qed

lemma evolui_arp_resolve:
  assumes "arp_resolve poll ip tm s = Some (m, s')" "poll_ok poll" "tipo s"
  shows "evolui s s'" and "m = Some mac \<Longrightarrow> length mac = 6"
proof -
  have "evolui s s' \<and> (m \<noteq> None \<longrightarrow> m = arp_cache_lookup ip s')"
  proof (cases "arp_cache_lookup ip s")
    case None
    obtain t s1 where t: "sched_ticks_net (arp_send_request ip s) = (t, s1)" by (cases "sched_ticks_net (arp_send_request ip s)")
    then have "arp_espera poll ip t (tm div 10) s1 = Some (m, s')" using assms(1) None by (simp add: arp_resolve_def)
    from evolui_arp_espera [OF this assms(2)] show ?thesis
      using evolui_trans [OF evolui_trans [OF evolui_arp_request [OF assms(3)] evolui_tique [OF t]]] by blast
  qed (use assms(1) in \<open>auto simp: arp_resolve_def\<close>)
  then show "evolui s s'" "m = Some mac \<Longrightarrow> length mac = 6"
    using assms(3) arp_mac [of s' ip mac] by (auto simp: evolui_def)
qed

lemma evolui_ip_send:
  assumes "ip_send poll dst proto payload len s = Some (r, s')" "poll_ok poll"
  shows "evolui s s'"
proof (cases "1480 < unat len + unat IP_HDR_LEN \<or> \<not> tipo s")
  case True
  then consider "1480 < unat len + unat IP_HDR_LEN" | "\<not> tipo s" by blast
  then show ?thesis using assms(1) by cases (auto simp: ip_send_def, simp add: evolui_def)
next
  case False
  then have l: "unat len \<le> 1460" and ts: "tipo s" by (simp_all add: IP_HDR_LEN_def)
  define h where "h = (let h = ip_header (IP_HDR_LEN + len) (ip_id_counter s) proto (net_our_ip s) dst in splice h 10 (le16 (ip_checksum h)))"
  have lh: "length h = 20" by (simp add: h_def Let_def ip_header_def)
  define pk where "pk = splice (splice (ip_packet s) 0 h) (unat IP_HDR_LEN) (take (unat len) payload)"
  have "length pk = 1500" using lh l ts by (simp add: pk_def IP_HDR_LEN_def tipo_def)
  then have e1: "evolui s (s\<lparr>ip_packet := pk, ip_id_counter := ip_id_counter s + 1\<rparr>)" (is "evolui s ?s1")
    using ts by (intro evolui_campos) (simp_all add: tipo_def)
  show ?thesis
  proof (cases "dst = 0xFFFFFFFF \<or> dst = 0")
    case True
    then have "eth_send ETH_BROADCAST ETH_PROTO_IP pk (IP_HDR_LEN + len) ?s1 = (r, s')"
      using assms(1) False by (simp add: ip_send_def Let_def h_def [unfolded Let_def] pk_def)
    then show ?thesis using evolui_trans [OF e1 evolui_eth_send] by (simp add: ETH_BROADCAST_def)
  next
    case d: False
    then obtain mac s2 where a: "arp_resolve poll (nexthop dst ?s1) 3000 ?s1 = Some (mac, s2)"
      "(case mac of None \<Rightarrow> Some (- 1, s2) | Some m \<Rightarrow> Some (eth_send m ETH_PROTO_IP (ip_packet s2) (IP_HDR_LEN + len) s2)) = Some (r, s')"
      using assms(1) False by (auto simp: ip_send_def Let_def h_def [unfolded Let_def] pk_def bind_eq_Some_conv)
    have t1: "tipo ?s1" using e1 ts by (simp add: evolui_def)
    note e2 = evolui_trans [OF e1 evolui_arp_resolve(1) [OF a(1) assms(2) t1]]
    show ?thesis
    proof (cases mac)
      case None
      then show ?thesis using a(2) e2 by simp
    next
      case (Some m)
      then have "eth_send m ETH_PROTO_IP (ip_packet s2) (IP_HDR_LEN + len) s2 = (r, s')" using a(2) by simp
      from evolui_trans [OF e2 evolui_eth_send [OF this]] evolui_arp_resolve(2) [OF a(1) assms(2) t1 Some] show ?thesis by blast
    qed
  qed
qed

section \<open>Input\<close>

text \<open>\<open>libera b s s'\<close>: from \<open>s\<close>, with \<open>b\<close> in use, to \<open>s'\<close>, with \<open>b\<close> back in the pool.\<close>

definition libera :: "nat \<Rightarrow> net \<Rightarrow> net \<Rightarrow> bool" where
  "libera b s s' \<longleftrightarrow> (tipo s \<longrightarrow> tipo s' \<and> estados s s' \<and>
     (b < NETBUF_COUNT \<longrightarrow> (\<forall>xs. livres_nb s xs \<longrightarrow> b \<notin> set xs \<longrightarrow> (\<exists>xs'. livres_nb s' xs' \<and> set xs' = insert b (set xs)))))"

lemma libera_free: "libera b s (netbuf_free (Some b) s)"
  unfolding libera_def
proof (intro impI conjI allI)
  assume "tipo s"
  then show "tipo (netbuf_free (Some b) s)" by (simp add: netbuf_free_def tipo_def)
  show "estados s (netbuf_free (Some b) s)" by (simp add: netbuf_free_def estados_def soquete_def)
  fix xs assume "b < NETBUF_COUNT" "livres_nb s xs" "b \<notin> set xs"
  then show "\<exists>xs'. livres_nb (netbuf_free (Some b) s) xs' \<and> set xs' = insert b (set xs)"
    using netbuf_free_ok by (intro exI [of _ "b # xs"]) simp
qed

lemma libera_depois: "evolui s t \<Longrightarrow> libera b t u \<Longrightarrow> libera b s u"
  unfolding evolui_def libera_def estados_def pool_eq_def by (metis rtranclp_trans)

lemmas libera_apos = libera_depois [OF _ libera_free]

lemma muda_fora: "length (sockets s) \<le> k \<Longrightarrow> muda k f s = s"
  by (simp add: muda_def list_update_beyond)

lemma evolui_muda:
  assumes "sq_ok (soquete k s) \<Longrightarrow> sq_ok (f (soquete k s))" "tcp_passo\<^sup>*\<^sup>* (tcp_state (soquete k s)) (tcp_state (f (soquete k s)))"
  shows "evolui s (muda k f s)"
proof (cases "k < length (sockets s)")
  case True
  have "tipo s \<Longrightarrow> tipo (muda k f s)"
    using True assms(1) by (auto simp: tipo_def muda_def soquete_def dest!: set_update_subset_insert [THEN subsetD])
  moreover have "estados s (muda k f s)"
    unfolding estados_def
  proof
    fix j
    show "tcp_passo\<^sup>*\<^sup>* (tcp_state (soquete j s)) (tcp_state (soquete j (muda k f s)))"
      using assms(2) True by (cases "j = k") simp_all
  qed
  moreover have "pool_eq s (muda k f s)" by (auto simp: pool_eq_def livres_nb_def)
  ultimately show ?thesis by (simp add: evolui_def)
qed (simp add: muda_fora not_less)

lemma evolui_segmento:
  assumes "tcp_send_segment poll k flags None 0 s = Some (r, s')" "poll_ok poll"
  shows "evolui s s'"
proof (cases "tipo s")
  case True
  define H where "H = tcp_header (local_port (soquete k s)) (remote_port (soquete k s)) (seq_num (soquete k s)) (ack_num (soquete k s)) flags"
  define o2 where "o2 = splice (splice (tcp_out s) 0 H) 16 (le16 (tcp_checksum (net_our_ip s) (remote_ip (soquete k s)) (splice (tcp_out s) 0 H) TCP_HDR_LEN))"
  have "length o2 = 1500" using True by (simp add: o2_def H_def tipo_def)
  then have e: "evolui s (s\<lparr>tcp_out := o2\<rparr>)" using True by (intro evolui_campos) (simp_all add: tipo_def)
  have "ip_send poll (remote_ip (soquete k s)) IP_PROTO_TCP o2 TCP_HDR_LEN (s\<lparr>tcp_out := o2\<rparr>) = Some (r, s')"
    using assms(1) by (simp add: tcp_send_segment_def Let_def o2_def H_def)
  from evolui_trans [OF e evolui_ip_send [OF this assms(2)]] show ?thesis .
qed (simp add: evolui_def)

lemma rx_copia_ok: "sq_ok q \<Longrightarrow> sq_ok (rx_copia xs q)" "tcp_state (rx_copia xs q) = tcp_state q"
proof -
  show "sq_ok q \<Longrightarrow> sq_ok (rx_copia xs q)" using rx.poe_todos [of q xs] by (simp add: rx_copia_def)
  show "tcp_state (rx_copia xs q) = tcp_state q"
    unfolding rx_copia_def by (induction xs arbitrary: q) (simp_all add: rx_poe_def Let_def)
qed

lemma sq_ok_campos [simp]:
  "sq_ok (q\<lparr>ack_num := a\<rparr>) = sq_ok q" "sq_ok (q\<lparr>ack_num := a, tcp_state := st\<rparr>) = (sq_ok (q\<lparr>tcp_state := st\<rparr>))"
  "sq_ok q \<Longrightarrow> st \<le> TCP_CLOSE_WAIT \<Longrightarrow> sq_ok (q\<lparr>tcp_state := st\<rparr>)"
  by (simp_all add: sq_ok_def)

lemma evolui_passo:
  "tcp_state (soquete k s) = a \<Longrightarrow> tcp_passo a b \<Longrightarrow>
   evolui s (muda k (\<lambda>q. q\<lparr>tcp_state := b\<rparr>) s) \<and> evolui s (muda k (\<lambda>q. q\<lparr>ack_num := f q, tcp_state := b\<rparr>) s)"
proof -
  assume a: "tcp_state (soquete k s) = a" "tcp_passo a b"
  have "b \<le> TCP_CLOSE_WAIT" using a(2) by cases (simp_all add: tcp_estados)
  then show ?thesis using a by (intro conjI evolui_muda) auto
qed

lemma evolui_tcp_estado:
  assumes "tcp_estado poll k flags seq n payload s = Some s'" "poll_ok poll"
  shows "evolui s s'"
proof -
  let ?st = "tcp_state (soquete k s)"
  have seg: "evolui t u" if "tcp_send_segment poll k TCP_ACK None 0 t = Some (r, u)" for t r u
    using evolui_segmento [OF that assms(2)] .
  consider (syn) "?st = TCP_SYN_SENT" | (est) "?st = TCP_ESTABLISHED" | (fw) "?st = TCP_FIN_WAIT"
    | (nada) "s' = s"
    using assms(1) by (auto simp: tcp_estado_def Let_def split: if_splits)
  then show ?thesis
  proof cases
    case syn
    note p = evolui_passo [OF syn tcp_passo.syn_ack, of "\<lambda>_. seq + 1"]
    show ?thesis
      using assms(1) syn p evolui_trans [OF conjunct2 [OF p] seg]
      by (auto simp: tcp_estado_def Let_def bind_eq_Some_conv split: if_splits)
  next
    case est
    show ?thesis
    proof (cases "flags AND TCP_RST = 0")
      case False
      then show ?thesis using assms(1) est evolui_passo [OF est tcp_passo.rst] by (auto simp: tcp_estado_def Let_def tcp_estados)
    next
      case True
      let ?f = "if flags AND TCP_FIN \<noteq> 0 then do {
          (_, s) \<leftarrow> tcp_send_segment poll k TCP_ACK None 0 (muda k (\<lambda>q. q\<lparr>ack_num := ack_num q + 1, tcp_state := TCP_CLOSE_WAIT\<rparr>) s);
          Some s } else Some s"
      let ?g = "\<lambda>q s. rx_copia (take (unat n) (payload s)) (q\<lparr>ack_num := ack_num q + ucast n\<rparr>)"
      obtain s1 where s1: "?f = Some s1" "(if n \<noteq> 0 then do {
          (_, s) \<leftarrow> tcp_send_segment poll k TCP_ACK None 0 (muda k (\<lambda>q. ?g q s1) s1); Some s } else Some s1) = Some s'"
        using assms(1) est True by (auto simp: tcp_estado_def Let_def tcp_estados bind_eq_Some_conv)
      have e1: "evolui s s1"
        using s1(1) evolui_passo [OF est tcp_passo.fin, of "\<lambda>q. ack_num q + 1"] evolui_trans seg
        by (auto simp: bind_eq_Some_conv split: if_splits)
      have e2: "evolui s1 (muda k (\<lambda>q. ?g q s1) s1)"
        by (rule evolui_muda) (simp_all add: rx_copia_ok)
      show ?thesis using s1(2) e1 evolui_trans [OF evolui_trans [OF e1 e2] seg]
        by (auto simp: bind_eq_Some_conv split: if_splits)
    qed
  next
    case fw
    then show ?thesis using assms(1) evolui_passo [OF fw tcp_passo.fin_ack]
      by (auto simp: tcp_estado_def Let_def tcp_estados split: if_splits)
  qed simp
qed

lemma libera_tcp:
  assumes "tcp_recv_dispatch poll (Some b) s = Some s'" "poll_ok poll"
  shows "libera b s s'"
proof -
  have "s' = netbuf_free (Some b) s \<or> (\<exists>k f q n p t. tcp_estado poll k f q n p s = Some t \<and> s' = netbuf_free (Some b) t)"
    using assms(1) by (simp add: tcp_recv_dispatch_def Let_def bind_eq_Some_conv split: if_splits option.splits) blast+
  then show ?thesis using libera_free libera_apos [OF evolui_tcp_estado [OF _ assms(2)]] by blast
qed

lemma evolui_dns: "evolui s (dns_handler d len s)"
  by (auto simp: dns_handler_def Let_def split: option.splits intro: evolui_campos)

lemma evolui_dhcp_opcoes: "evolui (snd ts) (snd (dhcp_opcoes d p ts))"
proof (induction d p ts rule: dhcp_opcoes.induct)
  case (1 d p ts)
  have op: "evolui (snd ts) (snd (dhcp_opcao c d k ts))" for c k
    by (cases ts) (auto simp: dhcp_opcao_def intro: evolui_campos)
  show ?case
    using 1 evolui_trans [OF op] by (subst dhcp_opcoes.simps) auto
qed

lemma evolui_dhcp: "evolui s (dhcp_handler d len s)"
proof -
  obtain ty t where t: "dhcp_opcoes d 240 (0, s) = (ty, t)" by (cases "dhcp_opcoes d 240 (0, s)")
  have e: "evolui s t" using evolui_dhcp_opcoes [of "(0, s)" d 240] t by simp
  have "evolui t (t\<lparr>offered_ip := x, dhcp_got_offer := True\<rparr>)" "evolui t (t\<lparr>dhcp_got_ack := True\<rparr>)" for x
    by (rule evolui_campos; simp)+
  then show ?thesis using e evolui_trans [OF e] by (simp add: dhcp_handler_def t)
qed

lemma libera_udp: "libera b s (udp_recv (Some b) s)"
proof -
  have "udp_recv (Some b) s = netbuf_free (Some b) s \<or> (\<exists>h d n. udp_recv (Some b) s = netbuf_free (Some b) (chama h d n s))"
    by (auto simp: udp_recv_def Let_def split: option.splits)
  moreover have "evolui s (chama h d n s)" for h d n
    by (cases h) (simp_all add: chama_def evolui_dns evolui_dhcp)
  ultimately show ?thesis using libera_free libera_apos by metis
qed

lemma evolui_off: "evolui s (s\<lparr>nb_off := f\<rparr>)" by (rule evolui_campos) simp_all

lemma libera_ip:
  assumes "ip_recv poll (Some b) s = Some s'" "poll_ok poll"
  shows "libera b s s'"
proof -
  have "s' = netbuf_free (Some b) s \<or> (\<exists>f. let t = s\<lparr>nb_off := f\<rparr> in s' = udp_recv (Some b) t \<or> tcp_recv_dispatch poll (Some b) t = Some s' \<or>
      s' = netbuf_free (Some b) t)"
    using assms(1) by (simp add: ip_recv_def Let_def split: if_splits) blast+
  then show ?thesis
    unfolding Let_def using libera_free libera_udp libera_tcp [OF _ assms(2)] libera_depois [OF evolui_off] by metis
qed

lemma evolui_arp_add: "length mac = 6 \<Longrightarrow> evolui s (arp_cache_add ip mac s)"
proof -
  assume m: "length mac = 6"
  have "tipo s \<Longrightarrow> tipo (arp_cache_add ip mac s)"
    using m by (auto simp: tipo_def arp_cache_add_def arp_slot_def Let_def split: option.splits dest!: set_update_subset_insert [THEN subsetD])
  then show ?thesis
    by (auto simp: evolui_def estados_def soquete_def pool_eq_def livres_nb_def arp_cache_add_def)
qed

lemma libera_arp:
  assumes "unat (nb_off s b) \<le> 1508"
  shows "libera b s (arp_recv (Some b) s)"
proof (cases "tipo s")
  case True
  let ?p = "slice (nb_data s b) (unat (nb_off s b)) 28"
  have l: "length (pkt_sha ?p) = 6" using True assms by (simp add: pkt_sha_def slice_def tipo_def NETBUF_SIZE_def)
  define s1 where "s1 = (if pkt_spa ?p \<noteq> 0 then arp_cache_add (pkt_spa ?p) (pkt_sha ?p) s else s)"
  have e1: "evolui s s1" using evolui_arp_add [OF l] by (simp add: s1_def)
  define s2 where "s2 = (if pkt_op ?p = 1 \<and> pkt_tpa ?p = net_our_ip s1 then snd (eth_send (pkt_sha ?p) ETH_PROTO_ARP
      (arp_packet 2 (mac_addr s1) (net_our_ip s1) (pkt_sha ?p) (pkt_spa ?p)) ARP_PKT_LEN s1) else s1)"
  have e2: "evolui s1 s2" using evolui_eth_send [OF surjective_pairing l] by (simp add: s2_def)
  have "arp_recv (Some b) s = netbuf_free (Some b) s \<or> arp_recv (Some b) s = netbuf_free (Some b) s2"
    by (simp add: arp_recv_def Let_def s1_def s2_def)
  then show ?thesis using libera_free libera_apos [OF evolui_trans [OF e1 e2]] by metis
qed (simp add: libera_def)

lemma libera_eth:
  assumes "eth_recv poll (Some b) s = Some s'" "poll_ok poll" "nb_off s b = 0"
  shows "libera b s s'"
proof -
  let ?t = "s\<lparr>nb_off := (nb_off s)(b := nb_off s b + ETH_HDR_LEN)\<rparr>"
  have o14: "unat (nb_off ?t b) \<le> 1508" using assms(3) by (simp add: ETH_HDR_LEN_def)
  have "s' = netbuf_free (Some b) s \<or> s' = arp_recv (Some b) ?t \<or> ip_recv poll (Some b) ?t = Some s' \<or> s' = netbuf_free (Some b) ?t"
    using assms(1) by (auto simp: eth_recv_def Let_def split: if_splits)
  then show ?thesis
    using libera_free libera_arp [OF o14] libera_ip [OF _ assms(2)] libera_depois [OF evolui_off] by metis
qed

section \<open>The poll loop\<close>

lemma evolui_entrega:
  assumes a: "netbuf_alloc s = (Some b, s1)" and l: "length fr \<le> NETBUF_SIZE"
    and e: "libera b (s1\<lparr>nb_data := (nb_data s1)(b := splice (nb_data s1 b) 0 fr), nb_len := x, nb_off := y\<rparr>) s3"
  shows "evolui s s3"
  unfolding evolui_def
proof (intro impI)
  let ?s2 = "s1\<lparr>nb_data := (nb_data s1)(b := splice (nb_data s1 b) 0 fr), nb_len := x, nb_off := y\<rparr>"
  assume t: "tipo s"
  have f: "free_list s = Some b" using a by (auto simp: netbuf_alloc_def split: option.splits)
  have s1: "nb_data s1 = nb_data s" "sockets s1 = sockets s" using a by (auto simp: netbuf_alloc_def split: option.splits)
  have "tipo s1" using a t by (auto simp: netbuf_alloc_def tipo_def split: option.splits)
  then have t2: "tipo ?s2" using l by (simp add: tipo_def)
  have p: "livres_nb ?s2 ys = livres_nb s1 ys" for ys by (simp add: livres_nb_def)
  show "tipo s3 \<and> estados s s3 \<and> pool_eq s s3"
  proof (intro conjI)
    show "tipo s3" using e t2 by (simp add: libera_def)
    have "estados ?s2 s3" using e t2 by (simp add: libera_def)
    then show "estados s s3" by (simp add: estados_def soquete_def s1)
    show "pool_eq s s3"
      unfolding pool_eq_def
    proof (intro allI impI)
      fix xs assume xs: "livres_nb s xs"
      then obtain ys where ys: "xs = b # ys" using f by (cases xs) (auto simp: livres_nb_def)
      have "b < NETBUF_COUNT" "livres_nb s1 ys" using netbuf_alloc_ok [OF xs] a by (simp_all add: ys)
      moreover have "b \<notin> set ys" using xs by (simp add: ys livres_nb_def)
      ultimately show "\<exists>xs'. livres_nb s3 xs' \<and> set xs' = set xs"
        using e t2 p by (simp add: libera_def ys)
    qed
  qed
qed

definition entrega_ok :: "(nat option \<Rightarrow> net \<Rightarrow> net option) \<Rightarrow> bool" where
  "entrega_ok f \<longleftrightarrow> (\<forall>b s s'. f (Some b) s = Some s' \<longrightarrow> nb_off s b = 0 \<longrightarrow> libera b s s')"

lemma length_rx_frame: "length (rx_frame rx p n) \<le> n"
proof (cases "(unat p + 4) mod ring_mod + n \<le> ring_mod")
  case True
  then show ?thesis by (simp add: rx_frame_def Let_def slice_def)
next
  case False
  have "length (take (a - o') (drop o' rx)) \<le> a - o'" "length (take (n - (a - o')) rx) \<le> n - (a - o')" for a o' by simp_all
  then show ?thesis using False by (simp add: rx_frame_def Let_def slice_def)
qed

lemma evolui_poll_loop:
  assumes "poll_loop f n s = Some (r, s')" "entrega_ok f"
  shows "evolui s s'"
proof -
  have "entrega_ok f \<longrightarrow> evolui s (snd (r, s'))"
  proof (rule poll_loop.raw_induct [where P = "\<lambda>f n s y. entrega_ok f \<longrightarrow> evolui s (snd y)", OF _ assms(1)], goal_cases)
    case (1 g f n s y)
    show ?case
    proof
      assume ok: "entrega_ok f"
      let ?s1 = "s\<lparr>rede_t := rede_t s + 1\<rparr>"
      have e1: "evolui s ?s1" by (rule evolui_campos) simp_all
      let ?rx = "rx_em s (rede_t s + 1)" and ?p = "rx_read_ptr s"
      let ?h = "unat ?p mod ring_mod"
      define k where "k = rd16 ?rx (?h + 2) - 4"
      consider (vazio) "y = (n, ?s1)" | (ruim) "y = (n, ?s1\<lparr>rx_read_ptr := cbr_em s (rede_t s + 2), rede_t := rede_t s + 3\<rparr>)"
        | (mais) m s2 where "evolui s s2" "g f m (s2\<lparr>rx_read_ptr := (rx_read_ptr s2 + 4 + rd16 ?rx (?h + 2) + 3) AND NOT 3\<rparr>) = Some y"
      proof (cases "cr_em s (rede_t s) AND CR_BUFE \<noteq> 0 \<or> rd16 ?rx ?h AND 1 = 0 \<or> rd16 ?rx (?h + 2) = 0 \<or> 1518 < rd16 ?rx (?h + 2)")
        case True
        then show ?thesis using 1(2) that(1,2) by (cases "cr_em s (rede_t s) AND CR_BUFE = 0") (simp_all add: Let_def numeral_3_eq_3)
      next
        case b: False
        show ?thesis
        proof (cases "recv_cb s \<and> unat k \<le> NETBUF_SIZE")
          case False
          then show ?thesis using 1(2) b e1 that(3) [of ?s1 n] by (auto simp: Let_def k_def)
        next
          case True
          obtain o' s1 where al: "netbuf_alloc ?s1 = (o', s1)" by (cases "netbuf_alloc ?s1")
          show ?thesis
          proof (cases o')
            case None
            then have "s1 = ?s1" using al by (auto simp: netbuf_alloc_def split: option.splits)
            then show ?thesis using 1(2) b True al None e1 that(3) [of ?s1 n] by (auto simp: Let_def k_def)
          next
            case (Some j)
            have rp: "rx_read_ptr s1 = ?p" using al by (auto simp: netbuf_alloc_def split: option.splits)
            let ?s2 = "s1\<lparr>nb_data := (nb_data s1)(j := splice (nb_data s1 j) 0 (rx_frame ?rx ?p (unat k))), nb_len := (nb_len s1)(j := k), nb_off := (nb_off s1)(j := 0)\<rparr>"
            obtain s3 where s3: "f (Some j) ?s2 = Some s3"
              "g f (n + 1) (s3\<lparr>rx_read_ptr := (rx_read_ptr s3 + 4 + rd16 ?rx (?h + 2) + 3) AND NOT 3\<rparr>) = Some y"
              using 1(2) b True al Some rp by (auto simp: Let_def k_def bind_eq_Some_conv)
            have "libera j ?s2 s3" using ok s3(1) by (simp add: entrega_ok_def)
            moreover have "length (rx_frame ?rx ?p (unat k)) \<le> NETBUF_SIZE" using length_rx_frame [of ?rx ?p "unat k"] True by simp
            ultimately have "evolui ?s1 s3" using evolui_entrega al Some by blast
            then show ?thesis using that(3) [of s3 "n + 1"] evolui_trans [OF e1] s3(2) by blast
          qed
        qed
      qed
      then show "evolui s (snd y)"
      proof cases
        case ruim
        then show ?thesis by (auto intro: evolui_campos)
      next
        case (mais m s2)
        have "evolui s2 (s2\<lparr>rx_read_ptr := x\<rparr>)" for x by (rule evolui_campos) simp_all
        then show ?thesis using mais 1(1) [OF mais(2)] ok evolui_trans by blast
      qed (use e1 in simp)
    qed
  qed
  then show ?thesis using assms(2) by simp
qed

lemma eth_poll_n_ok: "poll_ok (eth_poll_n n)"
proof (induction n)
  case 0
  show ?case by (simp add: poll_ok_def)
next
  case (Suc n)
  have ent: "entrega_ok (eth_recv (eth_poll_n n))" using libera_eth [OF _ Suc] by (simp add: entrega_ok_def)
  have "evolui s (s\<lparr>rede_t := rede_t s + 1\<rparr>)" for s by (rule evolui_campos) simp_all
  then show ?case
    unfolding poll_ok_def using evolui_poll_loop [OF _ ent] evolui_trans
    by (auto simp: eth_poll_def rtl8139_poll_def Let_def split: if_splits) blast+
qed

section \<open>Properties\<close>

lemma eth_poll_n_evolui: "eth_poll_n n s = Some (r, s') \<Longrightarrow> evolui s s'"
  by (rule poll_okD [OF eth_poll_n_ok])



text \<open>A card that shows one frame, of an unknown protocol, and then nothing.\<close>

definition net_um_quadro :: net where
  "net_um_quadro = net_exemplo\<lparr>free_list := Some 0, livre_count := 1, isr_em := \<lambda>_. 1, cr_em := \<lambda>n. if n = 1 then 0 else 1,
     rx_em := \<lambda>_. [1, 0, 64, 0] @ replicate 9704 0\<rparr>"

lemma net_um_quadro_ok: "tipo net_um_quadro" "livres_nb net_um_quadro [0]"
  by (simp_all add: net_um_quadro_def net_exemplo_def tipo_def sq_ok_def soquete_vazio_def NETBUF_SIZE_def ARP_CACHE_SIZE_def UDP_MAX_HANDLERS_def
      TCP_MAX_SOCKETS_def TCP_CLOSE_WAIT_def livres_nb_def NETBUF_COUNT_def)

lemma net_um_quadro_poll: "\<exists>s'. eth_poll_n (Suc n) net_um_quadro = Some (1, s') \<and> livre_count s' = 1 \<and> tcp_state (soquete 0 s') = 0"
proof -
  define rx where "rx = [1, 0, 64, 0] @ replicate 9704 (0 :: u8)"
  have rx: "rd16 rx 0 = 1" "rd16 rx (Suc (Suc 0)) = 64" by (simp_all add: rx_def rd16_def)
  define f where "f = rx_frame rx 0 60"
  have f: "f = replicate 60 0" by (simp add: f_def rx_frame_def ring_mod_def RX_BUF_SIZE_def rx_def slice_def)
  have p: "rdb16 (splice (replicate 1536 0) 0 f) 12 = 0"
    by (simp add: f splice_def rdb16_def ntohs_def htons_def rd16_def nth_append)
  show ?thesis
    apply (simp add: eth_poll_def rtl8139_poll_def Let_def net_um_quadro_def net_exemplo_def ISR_ROK_def ISR_RER_def ISR_RXOVW_def ISR_FOVW_def)
    apply (subst poll_loop.simps)
    apply (simp add: Let_def CR_BUFE_def rx_def [symmetric, simplified] rx netbuf_alloc_def NETBUF_SIZE_def f_def [symmetric] eth_recv_def p
        ETH_PROTO_ARP_def ETH_PROTO_IP_def ETH_HDR_LEN_def netbuf_free_def)
    apply (subst poll_loop.simps)
    apply (simp add: Let_def CR_BUFE_def soquete_def soquete_vazio_def)
    done
qed



text \<open>A datagram that arrives: what the receive path makes of the frame \<open>udp_send\<close> produced.\<close>

lemma udp_chega:
  assumes "cabecalho h (28 + len) ident IP_PROTO_UDP src dst" "length m = 6" "length mac = 6" "unat len \<le> 1452" "length p = unat len"
    and "take (length fr) (nb_data t b) = fr" "fr = quadro m mac ETH_PROTO_IP (h @ udp_header sp dp (8 + len) @ p)"
    and "nb_off t b = 0" "nb_len t b = of_nat (length fr)" "net_our_ip t = 0 \<or> dst = net_our_ip t \<or> dst = 0xFFFFFFFF"
    and "udp_busca (bindings t) dp = Some hnd"
  shows "\<exists>D. eth_recv poll (Some b) t = Some (netbuf_free (Some b) (chama hnd D len (t\<lparr>nb_off := (nb_off t)(b := 34)\<rparr>))) \<and>
    take (unat len) D = p"
proof -
  have lh: "length h = 20" using assms(1) by (simp add: cabecalho_def)
  let ?U = "udp_header sp dp (8 + len)"
  have lU: "length ?U = 8" by (simp add: udp_header_def)
  let ?E = "eth_header m mac ETH_PROTO_IP"
  have lE: "length ?E = 14" using assms(2,3) by (simp add: eth_header_def)
  define R where "R = drop (length fr) (nb_data t b)"
  have R: "nb_data t b = fr @ R" using append_take_drop_id [of "length fr" "nb_data t b"] by (simp only: assms(6) R_def)
  define Z where "Z = replicate (46 - length (h @ ?U @ p)) (0 :: u8) @ R"
  have dat: "nb_data t b = ?E @ h @ ?U @ p @ Z"
    unfolding R by (simp add: assms(7) Z_def quadro_def)
  have lf: "60 \<le> length fr" "length fr \<le> 1514" using assms(4,5,7) lE lh lU by (simp_all add: quadro_def)
  then have n: "unat (nb_len t b) = length fr" using assms(9) by (simp add: unat_of_nat)
  let ?t1 = "t\<lparr>nb_off := (nb_off t)(b := 14)\<rparr>" and ?t2 = "t\<lparr>nb_off := (nb_off t)(b := 34)\<rparr>"
  have d1: "drop 14 (nb_data t b) = h @ ?U @ p @ Z" "drop 34 (nb_data t b) = ?U @ p @ Z"
    using lE lh by (simp_all add: dat)
  have e: "rdb16 (nb_data t b) 12 = ETH_PROTO_IP" using assms(2,3) by (simp add: dat eth_header_def buf_simps)
  have nl: "\<not> nb_len t b < 14" "\<not> nb_len t b - 14 < 20" "\<not> nb_len t b - 34 < 8"
    using n lf by (simp_all add: word_less_nat_alt unat_sub word_le_nat_alt)
  have E: "eth_recv poll (Some b) t = ip_recv poll (Some b) ?t1"
    using e nl(1) assms(8) by (simp add: eth_recv_def Let_def ETH_HDR_LEN_def ETH_PROTO_ARP_def ETH_PROTO_IP_def)
  have h: "ip_checksum h = 0" "h ! 0 = 0x45" "h ! 9 = IP_PROTO_UDP" "rdb32 h 16 = dst" using assms(1) by (simp_all add: cabecalho_def)
  have hx: "(h @ x) ! 0 = 0x45" "(h @ x) ! 9 = IP_PROTO_UDP" "rdb32 (h @ x) 16 = dst" "take 20 (h @ x) = h" for x
    using h lh by (simp_all add: nth_append rdb_append_lt)
  have n45: "drop_bit 4 (0x45 :: u8) = 4" "(0x45 :: u8) AND 0xF = 5" by (simp_all add: drop_bit_eq_div)
  define W where "W = ?U @ p @ Z"
  have dW: "drop 14 (nb_data t b) = h @ W" unfolding d1 W_def ..
  have I: "ip_recv poll (Some b) ?t1 = Some (udp_recv (Some b) ?t2)"
    using nl(2) assms(10) h(1) n45 by (simp add: ip_recv_def Let_def dW IP_HDR_LEN_def hx [of W, unfolded take_append] lh) blast
  have U: "rdb16 (?U @ x) 2 = dp" "rdb16 (?U @ x) 4 = 8 + len" for x by (simp_all add: udp_header_def buf_simps)
  have "udp_recv (Some b) ?t2 = netbuf_free (Some b) (chama hnd (p @ Z) len ?t2)"
    using nl(3) U assms(11) lU by (simp add: udp_recv_def Let_def d1 UDP_HDR_LEN_def)
  then show ?thesis using E I assms(5) by (intro exI [of _ "p @ Z"]) simp
qed

text \<open>C17: UDP end to end.  When the destination's MAC is known, \<open>udp_send\<close> puts one frame on the wire; any machine
  that takes that frame in for its own address (or for the broadcast one), whatever its own state, passes the
  checksum and address checks and calls the handler bound to the port with exactly the length and the bytes
  sent, then frees the buffer.\<close>

theorem udp_fim_a_fim:
  assumes "rede_ok s" "destino dst s m" "unat len \<le> 1452" "unat len \<le> length dados"
  shows "\<exists>r s' fr. udp_send poll dst sp dp dados len s = Some (r, s') \<and> enviados s' = enviados s @ [fr] \<and>
    (\<forall>t b hnd poll'. take (length fr) (nb_data t b) = fr \<longrightarrow> nb_off t b = 0 \<longrightarrow> nb_len t b = of_nat (length fr) \<longrightarrow>
       (net_our_ip t = 0 \<or> dst = net_our_ip t \<or> dst = 0xFFFFFFFF) \<longrightarrow> udp_busca (bindings t) dp = Some hnd \<longrightarrow>
       (\<exists>D. eth_recv poll' (Some b) t = Some (netbuf_free (Some b) (chama hnd D len (t\<lparr>nb_off := (nb_off t)(b := 34)\<rparr>))) \<and>
          take (unat len) D = take (unat len) dados))"
proof -
  obtain r s' h where e: "udp_send poll dst sp dp dados len s = Some (r, s')"
      "cabecalho h (28 + len) (ip_id_counter s) IP_PROTO_UDP (net_our_ip s) dst"
      "enviados s' = enviados s @ [quadro m (mac_addr s) ETH_PROTO_IP (h @ udp_header sp dp (8 + len) @ take (unat len) dados)]"
    using udp_send_ok [OF assms, of poll sp dp] by blast
  have l: "length m = 6" "length (mac_addr s) = 6" "length (take (unat len) dados) = unat len"
    using assms by (simp_all add: destino_def rede_ok_def)
  show ?thesis
    using e udp_chega [OF e(2) l(1,2) assms(3) l(3) _ refl] by blast
qed

theorem udp_fim_a_fim_witness:
  "\<exists>r s' fr t D. udp_send (\<lambda>_. None) 0x0A000202 5353 53 [1, 2, 3] 3 net_conectada = Some (r, s') \<and> enviados s' = enviados net_conectada @ [fr] \<and>
     eth_recv (\<lambda>_. None) (Some 0) t = Some (netbuf_free (Some 0) (chama Dns_handler D 3 (t\<lparr>nb_off := (nb_off t)(0 := 34)\<rparr>))) \<and>
     nb_data t 0 = fr \<and> take 3 D = [1, 2, 3]"
proof -
  have ok: "rede_ok net_conectada" using net_exemplo_ok(1) by (simp add: net_conectada_def arp_cache_add_def rede_ok_def)
  have "\<exists>r s' fr. udp_send (\<lambda>_. None) 0x0A000202 5353 53 [1, 2, 3] 3 net_conectada = Some (r, s') \<and> enviados s' = enviados net_conectada @ [fr] \<and>
    (\<forall>t b hnd poll'. take (length fr) (nb_data t b) = fr \<longrightarrow> nb_off t b = 0 \<longrightarrow> nb_len t b = of_nat (length fr) \<longrightarrow>
       (net_our_ip t = 0 \<or> 0x0A000202 = net_our_ip t \<or> 0x0A000202 = (0xFFFFFFFF :: u32)) \<longrightarrow> udp_busca (bindings t) 53 = Some hnd \<longrightarrow>
       (\<exists>D. eth_recv poll' (Some b) t = Some (netbuf_free (Some b) (chama hnd D 3 (t\<lparr>nb_off := (nb_off t)(b := 34)\<rparr>))) \<and>
          take (unat (3 :: u16)) D = take (unat (3 :: u16)) [1, 2, 3]))"
    by (rule udp_fim_a_fim [OF ok net_conectada_destino]) simp_all
  then obtain r s' fr where f: "udp_send (\<lambda>_. None) 0x0A000202 5353 53 [1, 2, 3] 3 net_conectada = Some (r, s')" "enviados s' = enviados net_conectada @ [fr]"
    and g: "\<forall>t b hnd poll'. take (length fr) (nb_data t b) = fr \<longrightarrow> nb_off t b = 0 \<longrightarrow> nb_len t b = of_nat (length fr) \<longrightarrow>
       (net_our_ip t = 0 \<or> 0x0A000202 = net_our_ip t \<or> 0x0A000202 = (0xFFFFFFFF :: u32)) \<longrightarrow> udp_busca (bindings t) 53 = Some hnd \<longrightarrow>
       (\<exists>D. eth_recv poll' (Some b) t = Some (netbuf_free (Some b) (chama hnd D 3 (t\<lparr>nb_off := (nb_off t)(b := 34)\<rparr>))) \<and>
          take (unat (3 :: u16)) D = take (unat (3 :: u16)) [1, 2, 3])"
    by (elim exE conjE)
  let ?t = "net_exemplo\<lparr>net_our_ip := 0x0A000202, nb_data := \<lambda>_. fr, nb_len := \<lambda>_. of_nat (length fr),
      bindings := [\<lparr>ub_port = 53, ub_handler = Some Dns_handler\<rparr>]\<rparr>"
  have "nb_off ?t 0 = 0" "udp_busca (bindings ?t) 53 = Some Dns_handler" "nb_data ?t 0 = fr" by (simp_all add: net_exemplo_def udp_busca_def find_upt)
  then obtain D where D: "eth_recv (\<lambda>_. None) (Some 0) ?t = Some (netbuf_free (Some 0) (chama Dns_handler D 3 (?t\<lparr>nb_off := (nb_off ?t)(0 := 34)\<rparr>)))"
    "take 3 D = [1, 2, 3]"
    using g [rule_format, of ?t 0 Dns_handler "\<lambda>_. None"] by auto
  show ?thesis
    by (rule exI [of _ r], rule exI [of _ s'], rule exI [of _ fr], rule exI [of _ ?t], rule exI [of _ D]) (intro conjI f D, simp)
qed



end
