(* ===== verification/Sha256.thy ===== *)
theory Sha256
  imports KString
begin

text \<open>
  SHA-256 and HMAC (\<^verbatim>\<open>kernel/net/tls.c\<close>).  A message is the list of the \<open>len\<close> bytes passed with it.  The incremental
  interface (init, update, final) is proved equal to the reference definition: the message padded, cut into
  blocks of 64 bytes and folded through the compression function, however it was split between the updates.
\<close>

section \<open>Compression\<close>

definition ROR32 :: "u32 \<Rightarrow> nat \<Rightarrow> u32" where "ROR32 x n = drop_bit n x OR push_bit (32 - n) x"
definition CH :: "u32 \<Rightarrow> u32 \<Rightarrow> u32 \<Rightarrow> u32" where "CH e f g = (e AND f) XOR (NOT e AND g)"
definition MAJ :: "u32 \<Rightarrow> u32 \<Rightarrow> u32 \<Rightarrow> u32" where "MAJ a b c = (a AND b) XOR (a AND c) XOR (b AND c)"
definition EP0 :: "u32 \<Rightarrow> u32" where "EP0 x = ROR32 x 2 XOR ROR32 x 13 XOR ROR32 x 22"
definition EP1 :: "u32 \<Rightarrow> u32" where "EP1 x = ROR32 x 6 XOR ROR32 x 11 XOR ROR32 x 25"
definition SIG0 :: "u32 \<Rightarrow> u32" where "SIG0 x = ROR32 x 7 XOR ROR32 x 18 XOR drop_bit 3 x"
definition SIG1 :: "u32 \<Rightarrow> u32" where "SIG1 x = ROR32 x 17 XOR ROR32 x 19 XOR drop_bit 10 x"

definition sha256_k :: "u32 list" where
  "sha256_k = concat [
    [0x428a2f98, 0x71374491, 0xb5c0fbcf, 0xe9b5dba5],
    [0x3956c25b, 0x59f111f1, 0x923f82a4, 0xab1c5ed5],
    [0xd807aa98, 0x12835b01, 0x243185be, 0x550c7dc3],
    [0x72be5d74, 0x80deb1fe, 0x9bdc06a7, 0xc19bf174],
    [0xe49b69c1, 0xefbe4786, 0x0fc19dc6, 0x240ca1cc],
    [0x2de92c6f, 0x4a7484aa, 0x5cb0a9dc, 0x76f988da],
    [0x983e5152, 0xa831c66d, 0xb00327c8, 0xbf597fc7],
    [0xc6e00bf3, 0xd5a79147, 0x06ca6351, 0x14292967],
    [0x27b70a85, 0x2e1b2138, 0x4d2c6dfc, 0x53380d13],
    [0x650a7354, 0x766a0abb, 0x81c2c92e, 0x92722c85],
    [0xa2bfe8a1, 0xa81a664b, 0xc24b8b70, 0xc76c51a3],
    [0xd192e819, 0xd6990624, 0xf40e3585, 0x106aa070],
    [0x19a4c116, 0x1e376c08, 0x2748774c, 0x34b0bcb5],
    [0x391c0cb3, 0x4ed8aa4a, 0x5b9cca4f, 0x682e6ff3],
    [0x748f82ee, 0x78a5636f, 0x84c87814, 0x8cc70208],
    [0x90befffa, 0xa4506ceb, 0xbef9a3f7, 0xc67178f2]]"

definition sha_w16 :: "u8 list \<Rightarrow> u32 list" where
  "sha_w16 block = map (\<lambda>i. push_bit 24 (ucast (block ! (i * 4))) OR push_bit 16 (ucast (block ! (i * 4 + 1)))
     OR push_bit 8 (ucast (block ! (i * 4 + 2))) OR ucast (block ! (i * 4 + 3))) [0..<16]"

definition sha_w :: "u8 list \<Rightarrow> u32 list" where
  "sha_w block = fold (\<lambda>i w. w @ [SIG1 (w ! (i - 2)) + w ! (i - 7) + SIG0 (w ! (i - 15)) + w ! (i - 16)]) [16..<64] (sha_w16 block)"

fun sha_rodada :: "u32 \<Rightarrow> u32 \<Rightarrow> u32 list \<Rightarrow> u32 list" where
  "sha_rodada k w [a, b, c, d, e, f, g, h] =
     (let t1 = h + EP1 e + CH e f g + k + w; t2 = EP0 a + MAJ a b c in [t1 + t2, a, b, c, d + t1, e, f, g])"
| "sha_rodada k w s = s"

definition sha_comprime :: "u32 list \<Rightarrow> u8 list \<Rightarrow> u32 list" where
  "sha_comprime st block = map2 (+) st (fold (\<lambda>(k, w). sha_rodada k w) (zip sha256_k (sha_w block)) st)"

section \<open>The incremental interface\<close>

record sha256_ctx =
  sc_state :: "u32 list"
  sc_count :: u64
  sc_buf :: "u8 list"

definition sha256_transform :: "u8 list \<Rightarrow> sha256_ctx \<Rightarrow> sha256_ctx" where
  "sha256_transform block c = c\<lparr>sc_state := sha_comprime (sc_state c) block\<rparr>"

definition sha_h0 :: "u32 list" where
  "sha_h0 = [0x6a09e667, 0xbb67ae85, 0x3c6ef372, 0xa54ff53a, 0x510e527f, 0x9b05688c, 0x1f83d9ab, 0x5be0cd19]"

definition sha256_init :: "sha256_ctx \<Rightarrow> sha256_ctx" where
  "sha256_init c = c\<lparr>sc_count := 0, sc_state := sha_h0\<rparr>"

fun sha_entra :: "u8 list \<Rightarrow> nat \<Rightarrow> sha256_ctx \<Rightarrow> sha256_ctx" where
  "sha_entra [] i c = c"
| "sha_entra (x # xs) i c =
     (let c = c\<lparr>sc_buf := (sc_buf c)[i := x]\<rparr> in
      if i + 1 = 64 then sha_entra xs 0 (sha256_transform (sc_buf c) c) else sha_entra xs (i + 1) c)"

definition sha256_update :: "u8 list \<Rightarrow> sha256_ctx \<Rightarrow> sha256_ctx" where
  "sha256_update data c =
     sha_entra data (unat (sc_count c AND 63)) (c\<lparr>sc_count := sc_count c + of_nat (length data)\<rparr>)"

definition be32 :: "u32 \<Rightarrow> u8 list" where
  "be32 w = [ucast (drop_bit 24 w), ucast (drop_bit 16 w), ucast (drop_bit 8 w), ucast w]"

definition be64 :: "u64 \<Rightarrow> u8 list" where "be64 w = map (\<lambda>k. ucast (drop_bit (56 - k * 8) w)) [0..<8]"

text \<open>The bit count is stored twice in the same eight bytes, with the same value.\<close>

definition sha256_final :: "sha256_ctx \<Rightarrow> u8 list \<times> sha256_ctx" where
  "sha256_final c =
     (let i = unat (sc_count c AND 63);
          c = c\<lparr>sc_buf := (sc_buf c)[i := 0x80]\<rparr>; i = i + 1;
          (i, c) = (if 56 < i then
              (let c = c\<lparr>sc_buf := splice (sc_buf c) i (replicate (64 - i) 0)\<rparr> in (0, sha256_transform (sc_buf c) c))
            else (i, c));
          c = c\<lparr>sc_buf := splice (sc_buf c) i (replicate (56 - i) 0)\<rparr>;
          c = c\<lparr>sc_buf := splice (sc_buf c) 56 (be64 (sc_count c * 8))\<rparr>;
          c = sha256_transform (sc_buf c) c
      in (concat (map be32 (sc_state c)), c))"

text \<open>The context on the stack of a caller is whatever the stack held.\<close>

definition sha256 :: "sha256_ctx \<Rightarrow> u8 list \<Rightarrow> u8 list" where
  "sha256 lixo data = fst (sha256_final (sha256_update data (sha256_init lixo)))"

definition hmac_sha256 :: "sha256_ctx \<Rightarrow> u8 list \<Rightarrow> u8 list \<Rightarrow> u8 list" where
  "hmac_sha256 lixo key msg =
     (let k0 = splice (replicate 64 0) 0 (if 64 < length key then sha256 lixo key else key);
          ipad = map (\<lambda>x. x XOR 0x36) k0; opad = map (\<lambda>x. x XOR 0x5C) k0;
          (inner, c) = sha256_final (sha256_update msg (sha256_update ipad (sha256_init lixo)))
      in fst (sha256_final (sha256_update inner (sha256_update opad (sha256_init c)))))"

section \<open>The reference\<close>

text \<open>The padding and the fold over the blocks, as the standard has them.\<close>

function sha_blocos :: "u32 list \<Rightarrow> u8 list \<Rightarrow> u32 list" where
  "sha_blocos st xs = (if length xs < 64 then st else sha_blocos (sha_comprime st (take 64 xs)) (drop 64 xs))"
  by pat_completeness auto
termination by (relation "measure (\<lambda>(st, xs). length xs)") auto

declare sha_blocos.simps [simp del]

definition sha_preenche :: "u8 list \<Rightarrow> u8 list" where
  "sha_preenche m = m @ [0x80] @ replicate ((119 - length m mod 64) mod 64) 0 @ be64 (of_nat (length m) * 8)"

definition sha_ref :: "u8 list \<Rightarrow> u8 list" where
  "sha_ref m = concat (map be32 (sha_blocos sha_h0 (sha_preenche m)))"

lemma sha_blocos_curto: "length xs < 64 \<Longrightarrow> sha_blocos st xs = st"
  by (subst sha_blocos.simps) simp

lemma sha_blocos_append: "length b = 64 \<Longrightarrow> sha_blocos st (b @ xs) = sha_blocos (sha_comprime st b) xs"
  by (subst sha_blocos.simps) simp

text \<open>\<open>absorvido m c\<close>: the context has taken the message \<open>m\<close>: the whole blocks are compressed, the rest waits in the buffer.\<close>

definition absorvido :: "u8 list \<Rightarrow> sha256_ctx \<Rightarrow> bool" where
  "absorvido m c \<longleftrightarrow> (\<exists>bs r. m = bs @ r \<and> length bs mod 64 = 0 \<and> length r < 64 \<and> (\<forall>xs. sha_blocos sha_h0 (bs @ xs) = sha_blocos (sc_state c) xs) \<and>
     length (sc_buf c) = 64 \<and> take (length r) (sc_buf c) = r) \<and> sc_count c = of_nat (length m)"

lemma sha_init_absorvido: "length (sc_buf c) = 64 \<Longrightarrow> absorvido [] (sha256_init c)"
  by (simp add: absorvido_def sha256_init_def)

lemma sha_entra_ok:
  assumes "length bs mod 64 = 0" "length r < 64" "\<forall>xs. sha_blocos sha_h0 (bs @ xs) = sha_blocos (sc_state c) xs"
    "length (sc_buf c) = 64" "take (length r) (sc_buf c) = r" "sc_count c = of_nat (length (bs @ r @ data))"
  shows "absorvido (bs @ r @ data) (sha_entra data (length r) c)"
  using assms
proof (induction data arbitrary: bs r c)
  case Nil
  then show ?case unfolding absorvido_def by (intro conjI exI [of _ bs] exI [of _ r]) simp_all
next
  case (Cons x data)
  let ?b = "(sc_buf c)[length r := x]"
  have t: "take (Suc (length r)) ?b = r @ [x]"
    using Cons.prems(2,4,5) by (simp add: take_Suc_conv_app_nth)
  show ?case
  proof (cases "length r + 1 = 64")
    case False
    then show ?thesis
      using Cons.prems t Cons.IH [of bs "r @ [x]" "c\<lparr>sc_buf := ?b\<rparr>"] by simp
  next
    case True
    then have b: "?b = r @ [x]" using t Cons.prems(4) by simp
    let ?c = "sha256_transform ?b (c\<lparr>sc_buf := ?b\<rparr>)"
    have st: "sha_blocos sha_h0 ((bs @ r @ [x]) @ xs) = sha_blocos (sc_state ?c) xs" for xs
      using Cons.prems(3) sha_blocos_append [of "r @ [x]" "sc_state c" xs] True b by (simp add: sha256_transform_def)
    have "length (bs @ r @ [x]) mod 64 = (length bs + 64) mod 64" using True by simp
    then have "length (bs @ r @ [x]) mod 64 = 0" using Cons.prems(1) by simp
    then have "absorvido ((bs @ r @ [x]) @ [] @ data) (sha_entra data (length ([] :: u8 list)) ?c)"
      using st Cons.prems(4,6) by (intro Cons.IH) (simp_all add: sha256_transform_def)
    then show ?thesis using True by simp
  qed
qed

lemma resto64: "unat (of_nat n AND (63 :: u64)) = n mod 64"
proof -
  have "of_nat n AND (63 :: u64) = take_bit 6 (of_nat n)" by (simp add: take_bit_eq_mask mask_eq_exp_minus_1)
  then show ?thesis by (simp only: unsigned_take_bit_eq unsigned_of_nat) (simp add: take_bit_eq_mod mod_mod_cancel)
qed

lemma sha_update_ok:
  assumes "absorvido m c"
  shows "absorvido (m @ data) (sha256_update data c)"
proof -
  obtain bs r where h: "m = bs @ r" "length bs mod 64 = 0" "length r < 64" "\<forall>xs. sha_blocos sha_h0 (bs @ xs) = sha_blocos (sc_state c) xs"
      "length (sc_buf c) = 64" "take (length r) (sc_buf c) = r" "sc_count c = of_nat (length m)"
    using assms by (auto simp: absorvido_def)
  have "length m mod 64 = length r" using h(1-3) by (metis length_append mod_add_left_eq add_0 mod_less)
  then have "unat (sc_count c AND 63) = length r" using h(7) resto64 by simp
  then show ?thesis
    using sha_entra_ok [OF h(2,3), of "c\<lparr>sc_count := sc_count c + of_nat (length data)\<rparr>" data] h
    by (simp add: sha256_update_def)
qed

lemma take_splice_fim: "k \<le> length b \<Longrightarrow> take (k + length xs) (splice b k xs) = take k b @ xs"
  by (simp add: splice_def)

lemma sha_final_ok:
  assumes "absorvido m c"
  shows "fst (sha256_final c) = sha_ref m" and "length (sc_buf (snd (sha256_final c))) = 64"
proof -
  obtain bs r where h: "m = bs @ r" "length bs mod 64 = 0" "length r < 64" "\<forall>xs. sha_blocos sha_h0 (bs @ xs) = sha_blocos (sc_state c) xs"
      "length (sc_buf c) = 64" "take (length r) (sc_buf c) = r" "sc_count c = of_nat (length m)"
    using assms by (auto simp: absorvido_def)
  have lm: "length m mod 64 = length r" using h(1-3) by (metis length_append mod_add_left_eq add_0 mod_less)
  then have i: "unat (sc_count c AND 63) = length r" using h(7) resto64 by simp
  let ?n = "be64 (sc_count c * 8)"
  have ln: "length ?n = 8" by (simp add: be64_def)
  define b1 where "b1 = (sc_buf c)[length r := 0x80]"
  have b1: "length b1 = 64" "take (Suc (length r)) b1 = r @ [0x80]"
    using h(3,5,6) by (simp_all add: b1_def take_Suc_conv_app_nth)
  have fecha: "splice (splice b k (replicate (56 - k) 0)) 56 ?n = take k b @ replicate (56 - k) 0 @ ?n" if "length b = 64" "k \<le> 56" for b k
  proof -
    have "take (k + length (replicate (56 - k) (0 :: u8))) (splice b k (replicate (56 - k) 0)) = take k b @ replicate (56 - k) 0"
      using that by (intro take_splice_fim) simp
    then show ?thesis using that ln unfolding splice_def [of _ 56] by simp
  qed
  have "fst (sha256_final c) = sha_ref m \<and> length (sc_buf (snd (sha256_final c))) = 64"
  proof (cases "56 < Suc (length r)")
    case False
    define b where "b = splice (splice b1 (Suc (length r)) (replicate (56 - Suc (length r)) 0)) 56 ?n"
    have b: "b = r @ [0x80] @ replicate (55 - length r) 0 @ ?n" using fecha [OF b1(1), of "Suc (length r)"] False b1(2) by (simp add: b_def)
    have e: "119 - length r = 64 + (55 - length r)" using False by simp
    have "(119 - length r) mod 64 = 55 - length r" unfolding e mod_add_self1 by simp
    then have "sha_preenche m = bs @ b @ []" using h(1,7) lm by (simp add: sha_preenche_def b)
    moreover have lb: "length b = 64" using False ln by (simp add: b)
    ultimately have "sha_blocos sha_h0 (sha_preenche m) = sha_comprime (sc_state c) b"
      using h(4) sha_blocos_append [of b "sc_state c" "[]"] by (simp add: sha_blocos_curto)
    moreover have "sha256_final c = (let c = sha256_transform b (c\<lparr>sc_buf := b\<rparr>) in (concat (map be32 (sc_state c)), c))"
      using False by (simp add: sha256_final_def i Let_def b_def b1_def)
    ultimately show ?thesis using lb by (simp add: sha256_transform_def sha_ref_def Let_def)
  next
    case True
    define b2 where "b2 = splice b1 (Suc (length r)) (replicate (64 - Suc (length r)) 0)"
    define b where "b = splice (splice b2 0 (replicate 56 0)) 56 ?n"
    have b2: "b2 = r @ [0x80] @ replicate (63 - length r) 0" using b1 h(3) by (simp add: b2_def splice_def)
    then have lb2: "length b2 = 64" using h(3) by simp
    have b: "b = replicate 56 0 @ ?n" using fecha [OF lb2, of 0] by (simp add: b_def)
    have e: "(119 - length m mod 64) mod 64 = (63 - length r) + 56" using True h(3) lm by simp
    have "sha_preenche m = bs @ b2 @ b @ []" unfolding sha_preenche_def e replicate_add using h(1,7) by (simp add: b b2)
    moreover have lb: "length b = 64" using ln by (simp add: b)
    ultimately have "sha_blocos sha_h0 (sha_preenche m) = sha_comprime (sha_comprime (sc_state c) b2) b"
      using h(4) sha_blocos_append [OF lb2] sha_blocos_append [OF lb, of _ "[]"] by (simp add: sha_blocos_curto)
    moreover have "sha256_final c = (let c = sha256_transform b (c\<lparr>sc_buf := b, sc_state := sha_comprime (sc_state c) b2\<rparr>) in (concat (map be32 (sc_state c)), c))"
      using True by (simp add: sha256_final_def i Let_def b_def b2_def b1_def sha256_transform_def)
    ultimately show ?thesis using lb by (simp add: sha256_transform_def sha_ref_def Let_def)
  qed
  then show "fst (sha256_final c) = sha_ref m" "length (sc_buf (snd (sha256_final c))) = 64" by simp_all
qed

lemma length_sha_ref: "length (sha_ref m) \<le> 64"
proof -
  have "length (sha_blocos st xs) \<le> length st" for st xs
  proof (induction st xs rule: sha_blocos.induct)
    case (1 st xs)
    show ?case
    proof (cases "length xs < 64")
      case False
      then have "length (sha_blocos st xs) \<le> length (sha_comprime st (take 64 xs))" using 1 by (subst sha_blocos.simps) simp
      also have "\<dots> \<le> length st" by (simp add: sha_comprime_def)
      finally show ?thesis .
    qed (simp add: sha_blocos_curto)
  qed
  from this [of sha_h0 "sha_preenche m"] show ?thesis
    by (simp add: sha_ref_def length_concat o_def be32_def sum_list_triv sha_h0_def)
qed

text \<open>C27: the incremental hash is the standard's.  For any message given to \<open>sha256_update\<close> in any number of pieces,
  of any sizes, \<open>sha256_final\<close> returns the hash of the padded concatenation, whatever the context held before
  \<open>sha256_init\<close>; so does \<open>sha256\<close> in one call, and \<open>hmac_sha256\<close> is the nested hash of its definition.\<close>

theorem sha256_incremental:
  assumes "length (sc_buf lixo) = 64"
  shows "fst (sha256_final (fold sha256_update pedacos (sha256_init lixo))) = sha_ref (concat pedacos) \<and>
    hmac_sha256 lixo key msg =
      (let k = (if 64 < length key then sha_ref key else key); k0 = k @ replicate (64 - length k) 0
       in sha_ref (map (\<lambda>x. x XOR 0x5C) k0 @ sha_ref (map (\<lambda>x. x XOR 0x36) k0 @ msg)))"
proof
  have ab: "absorvido (m @ concat ps) (fold sha256_update ps c)" if "absorvido m c" for m ps c
    using that
  proof (induction ps arbitrary: m c)
    case (Cons p ps)
    from Cons.IH [OF sha_update_ok [OF Cons.prems, of p]] show ?case by simp
  qed simp
  show "fst (sha256_final (fold sha256_update pedacos (sha256_init lixo))) = sha_ref (concat pedacos)"
    using ab [OF sha_init_absorvido [OF assms], of pedacos] sha_final_ok(1) by simp
  have um: "fst (sha256_final (fold sha256_update ps (sha256_init c))) = sha_ref (concat ps)" "length (sc_buf (snd (sha256_final (fold sha256_update ps (sha256_init c))))) = 64"
    if "length (sc_buf c) = 64" for ps c
    using ab [OF sha_init_absorvido [OF that], of ps] sha_final_ok by simp_all
  let ?k = "if 64 < length key then sha_ref key else key"
  have f1: "sha256_final (sha256_update x (sha256_init c)) = sha256_final (fold sha256_update [x] (sha256_init c))"
    "sha256_final (sha256_update y (sha256_update x (sha256_init c))) = sha256_final (fold sha256_update [x, y] (sha256_init c))" for x y c
    by simp_all
  have k: "sha256 lixo key = sha_ref key" using um(1) [OF assms, of "[key]"] by (simp add: sha256_def)
  have lk: "length ?k \<le> 64" using length_sha_ref [of key] by simp
  define k0 where "k0 = splice (replicate 64 0) 0 ?k"
  have k0: "k0 = ?k @ replicate (64 - length ?k) 0" using lk by (simp add: k0_def splice_def)
  show "hmac_sha256 lixo key msg =
      (let k = (if 64 < length key then sha_ref key else key); k0 = k @ replicate (64 - length k) 0
       in sha_ref (map (\<lambda>x. x XOR 0x5C) k0 @ sha_ref (map (\<lambda>x. x XOR 0x36) k0 @ msg)))"
    unfolding hmac_sha256_def k k0_def [symmetric] Let_def f1 case_prod_beta k0 [symmetric]
    using um [OF assms] by (simp only: um(1) concat.simps append_Nil2)
qed

text \<open>The standard's example \<open>"abc"\<close>, in two pieces.\<close>

lemma sha_ref_abc: "sha_ref [97, 98, 99] =
  [0xba, 0x78, 0x16, 0xbf, 0x8f, 0x01, 0xcf, 0xea, 0x41, 0x41, 0x40, 0xde, 0x5d, 0xae, 0x22, 0x23,
   0xb0, 0x03, 0x61, 0xa3, 0x96, 0x17, 0x7a, 0x9c, 0xb4, 0x10, 0xff, 0x61, 0xf2, 0x00, 0x15, 0xad]"
  by code_simp

theorem sha256_incremental_witness:
  "fst (sha256_final (fold sha256_update [[97], [98, 99]] (sha256_init \<lparr>sc_state = [], sc_count = 7, sc_buf = replicate 64 1\<rparr>))) =
  [0xba, 0x78, 0x16, 0xbf, 0x8f, 0x01, 0xcf, 0xea, 0x41, 0x41, 0x40, 0xde, 0x5d, 0xae, 0x22, 0x23,
   0xb0, 0x03, 0x61, 0xa3, 0x96, 0x17, 0x7a, 0x9c, 0xb4, 0x10, 0xff, 0x61, 0xf2, 0x00, 0x15, 0xad]"
  using sha256_incremental [of "\<lparr>sc_state = [], sc_count = 7, sc_buf = replicate 64 1\<rparr>" "[[97], [98, 99]]"] sha_ref_abc by simp

end
