(* ===== verification/Poly1305.thy ===== *)
theory Poly1305
  imports Prelude
begin

text \<open>
  Poly1305 (\<^verbatim>\<open>kernel/net/tls.c\<close>, \<open>poly1305_mac\<close>): the message authentication code computed on five limbs of 26 bits
  in 32-bit words, with 64-bit products.  It is proved equal to the definition of the standard, which computes
  with natural numbers modulo \<open>2 ^ 130 - 5\<close>: no addition, product or carry of the code overflows its width.
\<close>

section \<open>The code\<close>

type_synonym limbs = "u32 \<times> u32 \<times> u32 \<times> u32 \<times> u32"

definition poly_clamp :: "u8 list \<Rightarrow> u8 list" where
  "poly_clamp rb = rb[3 := rb ! 3 AND 15, 7 := rb ! 7 AND 15, 11 := rb ! 11 AND 15, 15 := rb ! 15 AND 15,
     4 := rb ! 4 AND 252, 8 := rb ! 8 AND 252, 12 := rb ! 12 AND 252]"

abbreviation b32 :: "u8 list \<Rightarrow> nat \<Rightarrow> u32" where "b32 b i \<equiv> ucast (b ! i)"

definition poly_r :: "u8 list \<Rightarrow> limbs" where
  "poly_r rb =
     ((((b32 rb 0 OR push_bit 8 (b32 rb 1)) OR push_bit 16 (b32 rb 2)) OR push_bit 24 (b32 rb 3)) AND 0x3FFFFFF,
      ((((drop_bit 2 (b32 rb 3) OR push_bit 6 (b32 rb 4)) OR push_bit 14 (b32 rb 5)) OR push_bit 22 (b32 rb 6)) OR push_bit 30 (b32 rb 7)) AND 0x3FFFFFF,
      ((((drop_bit 4 (b32 rb 6) OR push_bit 4 (b32 rb 7)) OR push_bit 12 (b32 rb 8)) OR push_bit 20 (b32 rb 9)) OR push_bit 28 (b32 rb 10)) AND 0x3FFFFFF,
      ((((drop_bit 6 (b32 rb 9) OR push_bit 2 (b32 rb 10)) OR push_bit 10 (b32 rb 11)) OR push_bit 18 (b32 rb 12)) OR push_bit 26 (b32 rb 13)) AND 0x3FFFFFF,
      (((drop_bit 8 (b32 rb 12) OR push_bit 0 (b32 rb 13)) OR push_bit 8 (b32 rb 14)) OR push_bit 16 (b32 rb 15)) AND 0x3FFFFFF)"

definition poly_soma_bloco :: "u8 list \<Rightarrow> limbs \<Rightarrow> limbs" where
  "poly_soma_bloco blk h = (case h of (h0, h1, h2, h3, h4) \<Rightarrow>
     (h0 + ((((b32 blk 0 OR push_bit 8 (b32 blk 1)) OR push_bit 16 (b32 blk 2)) OR push_bit 24 (b32 blk 3)) AND 0x3FFFFFF),
      h1 + ((((drop_bit 2 (b32 blk 3) OR push_bit 6 (b32 blk 4)) OR push_bit 14 (b32 blk 5)) OR push_bit 22 (b32 blk 6)) AND 0x3FFFFFF),
      h2 + ((((drop_bit 4 (b32 blk 6) OR push_bit 4 (b32 blk 7)) OR push_bit 12 (b32 blk 8)) OR push_bit 20 (b32 blk 9)) AND 0x3FFFFFF),
      h3 + ((((drop_bit 6 (b32 blk 9) OR push_bit 2 (b32 blk 10)) OR push_bit 10 (b32 blk 11)) OR push_bit 18 (b32 blk 12)) AND 0x3FFFFFF),
      h4 + ((((drop_bit 8 (b32 blk 12) OR b32 blk 13) OR push_bit 8 (b32 blk 14)) OR push_bit 16 (b32 blk 15)) OR push_bit 24 (b32 blk 16))))"

abbreviation mul64 :: "u32 \<Rightarrow> u32 \<Rightarrow> u64" where "mul64 a b \<equiv> ucast a * ucast b"

definition poly_produtos :: "limbs \<Rightarrow> limbs \<Rightarrow> u64 \<times> u64 \<times> u64 \<times> u64 \<times> u64" where
  "poly_produtos r h = (case r of (r0, r1, r2, r3, r4) \<Rightarrow> case h of (h0, h1, h2, h3, h4) \<Rightarrow>
     let s0 = r1 * 5; s1 = r2 * 5; s2 = r3 * 5; s3 = r4 * 5 in
     (mul64 h0 r0 + mul64 h1 s3 + mul64 h2 s2 + mul64 h3 s1 + mul64 h4 s0,
      mul64 h0 r1 + mul64 h1 r0 + mul64 h2 s3 + mul64 h3 s2 + mul64 h4 s1,
      mul64 h0 r2 + mul64 h1 r1 + mul64 h2 r0 + mul64 h3 s3 + mul64 h4 s2,
      mul64 h0 r3 + mul64 h1 r2 + mul64 h2 r1 + mul64 h3 r0 + mul64 h4 s3,
      mul64 h0 r4 + mul64 h1 r3 + mul64 h2 r2 + mul64 h3 r1 + mul64 h4 r0))"

definition limb64 :: "u64 \<Rightarrow> u32" where "limb64 d = ucast d AND 0x3FFFFFF"
definition vai64 :: "u64 \<Rightarrow> u32" where "vai64 d = ucast (drop_bit 26 d)"

definition poly_reduz :: "u64 \<times> u64 \<times> u64 \<times> u64 \<times> u64 \<Rightarrow> limbs" where
  "poly_reduz d = (case d of (d0, d1, d2, d3, d4) \<Rightarrow>
     let h0 = limb64 d0; c = vai64 d0;
         d1 = d1 + ucast c; h1 = limb64 d1; c = vai64 d1;
         d2 = d2 + ucast c; h2 = limb64 d2; c = vai64 d2;
         d3 = d3 + ucast c; h3 = limb64 d3; c = vai64 d3;
         d4 = d4 + ucast c; h4 = limb64 d4; c = vai64 d4;
         h0 = h0 + c * 5; c = drop_bit 26 h0; h0 = h0 AND 0x3FFFFFF; h1 = h1 + c
     in (h0, h1, h2, h3, h4))"

definition poly_blk :: "u8 list \<Rightarrow> u8 list" where
  "poly_blk chunk = (splice (replicate 17 0) 0 chunk)[length chunk := 1]"

function poly_loop :: "limbs \<Rightarrow> u8 list \<Rightarrow> limbs \<Rightarrow> limbs" where
  "poly_loop r msg h =
     (if msg = [] then h
      else poly_loop r (drop 16 msg) (poly_reduz (poly_produtos r (poly_soma_bloco (poly_blk (take 16 msg)) h))))"
  by pat_completeness auto
termination by (relation "measure (\<lambda>(r, msg, h). length msg)") auto

declare poly_loop.simps [simp del]

definition poly_vai_final :: "limbs \<Rightarrow> limbs" where
  "poly_vai_final h = (case h of (h0, h1, h2, h3, h4) \<Rightarrow>
     let c = drop_bit 26 h1; h1 = h1 AND 0x3FFFFFF; h2 = h2 + c;
         c = drop_bit 26 h2; h2 = h2 AND 0x3FFFFFF; h3 = h3 + c;
         c = drop_bit 26 h3; h3 = h3 AND 0x3FFFFFF; h4 = h4 + c;
         c = drop_bit 26 h4; h4 = h4 AND 0x3FFFFFF; h0 = h0 + c * 5;
         c = drop_bit 26 h0; h0 = h0 AND 0x3FFFFFF; h1 = h1 + c
     in (h0, h1, h2, h3, h4))"

definition poly_escolhe :: "u32 \<Rightarrow> u32 \<Rightarrow> u32 \<Rightarrow> u32" where
  "poly_escolhe mask' h g = (h AND NOT mask') OR (g AND mask')"

definition poly_menos_p :: "limbs \<Rightarrow> limbs" where
  "poly_menos_p h = (case h of (h0, h1, h2, h3, h4) \<Rightarrow>
     let g0 = h0 + 5; c = drop_bit 26 g0; g0 = g0 AND 0x3FFFFFF;
         g1 = h1 + c; c = drop_bit 26 g1; g1 = g1 AND 0x3FFFFFF;
         g2 = h2 + c; c = drop_bit 26 g2; g2 = g2 AND 0x3FFFFFF;
         g3 = h3 + c; c = drop_bit 26 g3; g3 = g3 AND 0x3FFFFFF;
         g4 = h4 + c - push_bit 26 1;
         m = drop_bit 31 g4 - 1
     in (poly_escolhe m h0 g0, poly_escolhe m h1 g1, poly_escolhe m h2 g2, poly_escolhe m h3 g3, poly_escolhe m h4 g4))"

text \<open>The last sum: a word of 32 bits from two limbs, the word of the key and the carry in \<open>F\<close>.\<close>

definition poly_f :: "u8 list \<Rightarrow> nat \<Rightarrow> u32" where
  "poly_f sk i = ((b32 sk i OR push_bit 8 (b32 sk (i + 1))) OR push_bit 16 (b32 sk (i + 2))) OR push_bit 24 (b32 sk (i + 3))"

definition bytes_f :: "u64 \<Rightarrow> u8 list" where
  "bytes_f F = [ucast F, ucast (drop_bit 8 F), ucast (drop_bit 16 F), ucast (drop_bit 24 F)]"

definition poly_tag :: "limbs \<Rightarrow> u8 list \<Rightarrow> u8 list" where
  "poly_tag h sk = (case h of (h0, h1, h2, h3, h4) \<Rightarrow>
     let F0 = ucast ((h0 OR push_bit 26 h1) AND 0xFFFFFFFF) + ucast (poly_f sk 0);
         F1 = drop_bit 32 F0 + (ucast ((drop_bit 6 h1 OR push_bit 20 h2) AND 0xFFFFFFFF) + ucast (poly_f sk 4));
         F2 = drop_bit 32 F1 + (ucast ((drop_bit 12 h2 OR push_bit 14 h3) AND 0xFFFFFFFF) + ucast (poly_f sk 8));
         F3 = drop_bit 32 F2 + (ucast ((drop_bit 18 h3 OR push_bit 8 h4) AND 0xFFFFFFFF) + ucast (poly_f sk 12))
     in bytes_f F0 @ bytes_f F1 @ bytes_f F2 @ bytes_f F3)"

definition poly1305_mac :: "u8 list \<Rightarrow> u8 list \<Rightarrow> u8 list" where
  "poly1305_mac key msg =
     poly_tag (poly_menos_p (poly_vai_final (poly_loop (poly_r (poly_clamp (take 16 key))) msg (0, 0, 0, 0, 0)))) (drop 16 key)"

section \<open>The standard\<close>

fun le_nat :: "u8 list \<Rightarrow> nat" where
  "le_nat [] = 0"
| "le_nat (x # xs) = unat x + 256 * le_nat xs"

fun nat_le :: "nat \<Rightarrow> nat \<Rightarrow> u8 list" where
  "nat_le 0 n = []"
| "nat_le (Suc k) n = of_nat (n mod 256) # nat_le k (n div 256)"

definition poly_p :: nat where "poly_p = 2 ^ 130 - 5"

function poly_acc :: "nat \<Rightarrow> u8 list \<Rightarrow> nat \<Rightarrow> nat" where
  "poly_acc r msg a = (if msg = [] then a else poly_acc r (drop 16 msg) ((a + le_nat (take 16 msg @ [1])) * r mod poly_p))"
  by pat_completeness auto
termination by (relation "measure (\<lambda>(r, msg, a). length msg)") auto

declare poly_acc.simps [simp del]

definition poly1305_ref :: "u8 list \<Rightarrow> u8 list \<Rightarrow> u8 list" where
  "poly1305_ref key msg =
     nat_le 16 ((poly_acc (le_nat (take 16 key) AND 0x0ffffffc0ffffffc0ffffffc0fffffff) msg 0 + le_nat (drop 16 key)) mod 2 ^ 128)"

section \<open>Words as naturals\<close>

lemma ou_soma:
  fixes x y :: u32
  assumes "unat x < 2 ^ k" "unat x + unat y * 2 ^ k < 2 ^ 32"
  shows "unat (x OR push_bit k y) = unat x + unat y * 2 ^ k"
proof -
  have p: "unat (push_bit k y) = unat y * 2 ^ k"
    using assms(2) by (simp add: unsigned_push_bit_eq push_bit_nat_def take_bit_nat_eq_self_iff)
  have "x OR push_bit k y = x + push_bit k y"
  proof (rule disjunctive_add [symmetric])
    fix n
    show "\<not> bit x n \<or> \<not> bit (push_bit k y) n"
    proof (cases "n < k")
      case False
      have "take_bit k x = x" using assms(1) by (intro unat_eq_iff [THEN iffD1]) (simp add: unsigned_take_bit_eq take_bit_nat_eq_self)
      then have "\<not> bit x n" using False by (metis bit_take_bit_iff)
      then show ?thesis ..
    qed (simp add: bit_simps)
  qed
  then show ?thesis using p assms(2) by (simp add: unat_add_lem [THEN iffD1])
qed

lemma u8_lt: "unat (x :: u8) < 256" using unsigned_less [of x] by simp

lemma unat_drop: "unat (drop_bit k x) = unat x div 2 ^ k" for x :: "'a::len word"
  using unsigned_less [of x] by (simp only: unsigned_drop_bit_eq) (simp add: drop_bit_eq_div take_bit_nat_eq_self)

lemma unat_26: "unat (x AND 0x3FFFFFF) = unat x mod 2 ^ 26" for x :: u32
proof -
  have "x AND 0x3FFFFFF = take_bit 26 x" by (simp add: take_bit_eq_mask mask_eq_exp_minus_1)
  then show ?thesis by (simp only: unsigned_take_bit_eq) (simp only: take_bit_eq_mod)
qed

lemma descarta: "26 \<le> k \<Longrightarrow> (x OR push_bit k y) AND 0x3FFFFFF = x AND 0x3FFFFFF" for x y :: u32
proof -
  assume k: "26 \<le> k"
  have "(z AND 0x3FFFFFF) = take_bit 26 z" for z :: u32 by (simp add: take_bit_eq_mask mask_eq_exp_minus_1)
  moreover have "take_bit 26 (push_bit k y) = 0" using k by (intro bit_eqI) (auto simp: bit_simps)
  ultimately show ?thesis by (simp add: take_bit_or)
qed

text \<open>The five limbs of 16 bytes.\<close>

lemma carga4:
  fixes x :: u32 and p q t :: u8
  assumes "unat x < 2 ^ i" "i = 2 \<or> i = 4 \<or> i = 6 \<or> i = 8"
  shows "unat (((x OR push_bit i (ucast p)) OR push_bit (i + 8) (ucast q)) OR push_bit (i + 16) (ucast t)) =
    unat x + 2 ^ i * (unat p + 256 * unat q + 65536 * unat t)"
proof -
  note l = u8_lt [of p] u8_lt [of q] u8_lt [of t]
  have g: "unat (((x OR push_bit i (ucast p)) OR push_bit (i + 8) (ucast q)) OR push_bit (i + 16) (ucast t)) =
      unat x + unat p * 2 ^ i + unat q * 2 ^ (i + 8) + unat t * 2 ^ (i + 16)"
    if "unat x + unat p * 2 ^ i < 2 ^ (i + 8)" "unat x + unat p * 2 ^ i + unat q * 2 ^ (i + 8) < 2 ^ (i + 16)"
      "unat x + unat p * 2 ^ i + unat q * 2 ^ (i + 8) + unat t * 2 ^ (i + 16) < 2 ^ 32"
  proof -
    have a: "unat (x OR push_bit i (ucast p)) = unat x + unat p * 2 ^ i"
      using that(3) assms(1) by (subst ou_soma) simp_all
    have b: "unat ((x OR push_bit i (ucast p)) OR push_bit (i + 8) (ucast q)) = unat x + unat p * 2 ^ i + unat q * 2 ^ (i + 8)"
      using that(1,3) by (subst ou_soma) (simp_all add: a)
    show ?thesis using that(2,3) by (subst ou_soma) (simp_all add: b)
  qed
  have "unat x + unat p * 2 ^ i < 2 ^ (i + 8) \<and> unat x + unat p * 2 ^ i + unat q * 2 ^ (i + 8) < 2 ^ (i + 16) \<and>
      unat x + unat p * 2 ^ i + unat q * 2 ^ (i + 8) + unat t * 2 ^ (i + 16) < 2 ^ 32"
    using assms(2,1) l by (elim disjE) simp_all
  then show ?thesis using g by (simp add: algebra_simps power_add)
qed

definition val :: "limbs \<Rightarrow> nat" where
  "val h = (case h of (h0, h1, h2, h3, h4) \<Rightarrow>
     unat h0 + 2 ^ 26 * unat h1 + 2 ^ 52 * unat h2 + 2 ^ 78 * unat h3 + 2 ^ 104 * unat h4)"

lemma le_nat_16:
  assumes "length b = 16"
  shows "le_nat b = unat (b ! 0) + 2 ^ 8 * unat (b ! 1) + 2 ^ 16 * unat (b ! 2) + 2 ^ 24 * unat (b ! 3) + 2 ^ 32 * unat (b ! 4) +
    2 ^ 40 * unat (b ! 5) + 2 ^ 48 * unat (b ! 6) + 2 ^ 56 * unat (b ! 7) + 2 ^ 64 * unat (b ! 8) + 2 ^ 72 * unat (b ! 9) +
    2 ^ 80 * unat (b ! 10) + 2 ^ 88 * unat (b ! 11) + 2 ^ 96 * unat (b ! 12) + 2 ^ 104 * unat (b ! 13) + 2 ^ 112 * unat (b ! 14) + 2 ^ 120 * unat (b ! 15)"
proof -
  have "\<exists>x0 x1 x2 x3 x4 x5 x6 x7 x8 x9 x10 x11 x12 x13 x14 x15. b = [x0, x1, x2, x3, x4, x5, x6, x7, x8, x9, x10, x11, x12, x13, x14, x15]"
    using assms by (auto simp: numeral_eq_Suc length_Suc_conv)
  then show ?thesis by (elim exE) (simp add: algebra_simps)
qed

text \<open>The value of each limb of 16 bytes, before the last.\<close>

lemma limbs_16:
  fixes b :: "u8 list"
  shows "unat ((((b32 b 0 OR push_bit 8 (b32 b 1)) OR push_bit 16 (b32 b 2)) OR push_bit 24 (b32 b 3)) AND 0x3FFFFFF) =
      unat (b ! 0) + 2 ^ 8 * unat (b ! 1) + 2 ^ 16 * unat (b ! 2) + 2 ^ 24 * (unat (b ! 3) mod 4)"
    and "unat ((((drop_bit 2 (b32 b 3) OR push_bit 6 (b32 b 4)) OR push_bit 14 (b32 b 5)) OR push_bit 22 (b32 b 6)) AND 0x3FFFFFF) =
      unat (b ! 3) div 4 + 2 ^ 6 * unat (b ! 4) + 2 ^ 14 * unat (b ! 5) + 2 ^ 22 * (unat (b ! 6) mod 16)"
    and "unat ((((drop_bit 4 (b32 b 6) OR push_bit 4 (b32 b 7)) OR push_bit 12 (b32 b 8)) OR push_bit 20 (b32 b 9)) AND 0x3FFFFFF) =
      unat (b ! 6) div 16 + 2 ^ 4 * unat (b ! 7) + 2 ^ 12 * unat (b ! 8) + 2 ^ 20 * (unat (b ! 9) mod 64)"
    and "unat ((((drop_bit 6 (b32 b 9) OR push_bit 2 (b32 b 10)) OR push_bit 10 (b32 b 11)) OR push_bit 18 (b32 b 12)) AND 0x3FFFFFF) =
      unat (b ! 9) div 64 + 2 ^ 2 * unat (b ! 10) + 2 ^ 10 * unat (b ! 11) + 2 ^ 18 * unat (b ! 12)"
proof -
  have m: "(x + k * (n :: nat)) mod (k * j) = x + k * (n mod j)" if "x < k" for x k n j
    using that by (simp add: mod_mult2_eq)
  note l = u8_lt [of "b ! 0"] u8_lt [of "b ! 1"] u8_lt [of "b ! 2"] u8_lt [of "b ! 3"] u8_lt [of "b ! 4"] u8_lt [of "b ! 5"]
    u8_lt [of "b ! 6"] u8_lt [of "b ! 7"] u8_lt [of "b ! 8"] u8_lt [of "b ! 9"] u8_lt [of "b ! 10"] u8_lt [of "b ! 11"] u8_lt [of "b ! 12"]
  show "unat ((((b32 b 0 OR push_bit 8 (b32 b 1)) OR push_bit 16 (b32 b 2)) OR push_bit 24 (b32 b 3)) AND 0x3FFFFFF) =
      unat (b ! 0) + 2 ^ 8 * unat (b ! 1) + 2 ^ 16 * unat (b ! 2) + 2 ^ 24 * (unat (b ! 3) mod 4)"
    using carga4 [of "b32 b 0" 8 "b ! 1" "b ! 2" "b ! 3"] m [of "unat (b ! 0) + 2 ^ 8 * unat (b ! 1) + 2 ^ 16 * unat (b ! 2)" "2 ^ 24" "unat (b ! 3)" 4] l
    by (simp add: unat_26 add.assoc)
  show "unat ((((drop_bit 2 (b32 b 3) OR push_bit 6 (b32 b 4)) OR push_bit 14 (b32 b 5)) OR push_bit 22 (b32 b 6)) AND 0x3FFFFFF) =
      unat (b ! 3) div 4 + 2 ^ 6 * unat (b ! 4) + 2 ^ 14 * unat (b ! 5) + 2 ^ 22 * (unat (b ! 6) mod 16)"
    using carga4 [of "drop_bit 2 (b32 b 3)" 6 "b ! 4" "b ! 5" "b ! 6"] m [of "unat (b ! 3) div 4 + 2 ^ 6 * unat (b ! 4) + 2 ^ 14 * unat (b ! 5)" "2 ^ 22" "unat (b ! 6)" 16] l
    by (simp add: unat_26 unat_drop add.assoc)
  show "unat ((((drop_bit 4 (b32 b 6) OR push_bit 4 (b32 b 7)) OR push_bit 12 (b32 b 8)) OR push_bit 20 (b32 b 9)) AND 0x3FFFFFF) =
      unat (b ! 6) div 16 + 2 ^ 4 * unat (b ! 7) + 2 ^ 12 * unat (b ! 8) + 2 ^ 20 * (unat (b ! 9) mod 64)"
    using carga4 [of "drop_bit 4 (b32 b 6)" 4 "b ! 7" "b ! 8" "b ! 9"] m [of "unat (b ! 6) div 16 + 2 ^ 4 * unat (b ! 7) + 2 ^ 12 * unat (b ! 8)" "2 ^ 20" "unat (b ! 9)" 64] l
    by (simp add: unat_26 unat_drop add.assoc)
  show "unat ((((drop_bit 6 (b32 b 9) OR push_bit 2 (b32 b 10)) OR push_bit 10 (b32 b 11)) OR push_bit 18 (b32 b 12)) AND 0x3FFFFFF) =
      unat (b ! 9) div 64 + 2 ^ 2 * unat (b ! 10) + 2 ^ 10 * unat (b ! 11) + 2 ^ 18 * unat (b ! 12)"
    using carga4 [of "drop_bit 6 (b32 b 9)" 2 "b ! 10" "b ! 11" "b ! 12"] l
    by (simp add: unat_26 unat_drop add.assoc)
qed

text \<open>Bounds between two blocks (\<open>pequeno\<close>) and of the factors of a product.\<close>

definition pequeno :: "limbs \<Rightarrow> bool" where
  "pequeno h = (case h of (h0, h1, h2, h3, h4) \<Rightarrow>
     unat h0 < 2 ^ 26 \<and> unat h1 < 2 ^ 26 + 64 \<and> unat h2 < 2 ^ 26 \<and> unat h3 < 2 ^ 26 \<and> unat h4 < 2 ^ 26)"

definition medio :: "limbs \<Rightarrow> bool" where
  "medio h = (case h of (h0, h1, h2, h3, h4) \<Rightarrow>
     unat h0 \<le> 2 ^ 27 + 64 \<and> unat h1 \<le> 2 ^ 27 + 64 \<and> unat h2 \<le> 2 ^ 27 + 64 \<and> unat h3 \<le> 2 ^ 27 + 64 \<and> unat h4 \<le> 2 ^ 26 + 2 ^ 25)"

definition fator :: "limbs \<Rightarrow> bool" where
  "fator r = (case r of (r0, r1, r2, r3, r4) \<Rightarrow>
     unat r0 \<le> 2 ^ 26 \<and> unat r1 \<le> 2 ^ 26 \<and> unat r2 \<le> 2 ^ 26 \<and> unat r3 \<le> 2 ^ 26 \<and> unat r4 \<le> 2 ^ 20)"

lemma div_mod_mais: "unat x = k * (unat x div k) + unat x mod k" for x :: u8 by simp

lemma drop8: "drop_bit 8 (ucast (x :: u8) :: u32) = 0"
  by (rule bit_word_eqI) (simp add: bit_simps)

lemma junta_limbs:
  fixes x0 :: nat
  assumes "x3 = 4 * q3 + t3" "x6 = 16 * q6 + t6" "x9 = 64 * q9 + t9"
  shows "x0 + 2 ^ 8 * x1 + 2 ^ 16 * x2 + 2 ^ 24 * t3 + 2 ^ 26 * (q3 + 2 ^ 6 * x4 + 2 ^ 14 * x5 + 2 ^ 22 * t6) +
    2 ^ 52 * (q6 + 2 ^ 4 * x7 + 2 ^ 12 * x8 + 2 ^ 20 * t9) + 2 ^ 78 * (q9 + 2 ^ 2 * x10 + 2 ^ 10 * x11 + 2 ^ 18 * x12) + 2 ^ 104 * w =
    x0 + 2 ^ 8 * x1 + 2 ^ 16 * x2 + 2 ^ 24 * x3 + 2 ^ 32 * x4 + 2 ^ 40 * x5 + 2 ^ 48 * x6 + 2 ^ 56 * x7 + 2 ^ 64 * x8 + 2 ^ 72 * x9 +
    2 ^ 80 * x10 + 2 ^ 88 * x11 + 2 ^ 96 * x12 + 2 ^ 104 * w"
  unfolding assms by simp

lemma poly_r_ok:
  assumes "length b = 16" "unat (b ! 15) < 16"
  shows "val (poly_r b) = le_nat b" and "fator (poly_r b)"
proof -
  note l = u8_lt [of "b ! 0"] u8_lt [of "b ! 1"] u8_lt [of "b ! 2"] u8_lt [of "b ! 3"] u8_lt [of "b ! 4"] u8_lt [of "b ! 5"] u8_lt [of "b ! 6"]
    u8_lt [of "b ! 7"] u8_lt [of "b ! 8"] u8_lt [of "b ! 9"] u8_lt [of "b ! 10"] u8_lt [of "b ! 11"] u8_lt [of "b ! 12"] u8_lt [of "b ! 13"] u8_lt [of "b ! 14"]
  have z: "drop_bit 8 (b32 b 12) OR push_bit 0 (b32 b 13) = b32 b 13"
    by (simp only: drop8) simp
  have u1: "unat (b32 b 13 OR push_bit 8 (b32 b 14)) = unat (b ! 13) + unat (b ! 14) * 2 ^ 8"
    using l by (subst ou_soma) simp_all
  have u2: "unat ((b32 b 13 OR push_bit 8 (b32 b 14)) OR push_bit 16 (b32 b 15)) = unat (b ! 13) + unat (b ! 14) * 2 ^ 8 + unat (b ! 15) * 2 ^ 16"
    using l assms(2) by (subst ou_soma) (simp_all add: u1)
  have u: "unat ((((drop_bit 8 (b32 b 12) OR push_bit 0 (b32 b 13)) OR push_bit 8 (b32 b 14)) OR push_bit 16 (b32 b 15)) AND 0x3FFFFFF) =
      unat (b ! 13) + 2 ^ 8 * unat (b ! 14) + 2 ^ 16 * unat (b ! 15)"
    unfolding z unat_26 u2 using l assms(2) by simp
  note s = poly_r_def descarta [of 30, simplified] descarta [of 28, simplified] descarta [of 26, simplified] limbs_16 u
  show "val (poly_r b) = le_nat b"
    unfolding s val_def le_nat_16 [OF assms(1)] prod.case junta_limbs [OF div_mod_mais div_mod_mais div_mod_mais] by simp
  have m: "unat (b ! 3) mod 4 < 4" "unat (b ! 6) mod 16 < 16" "unat (b ! 9) mod 64 < 64"
      "unat (b ! 3) div 4 < 64" "unat (b ! 6) div 16 < 16" "unat (b ! 9) div 64 < 4" using l by simp_all
  show "fator (poly_r b)"
    unfolding s fator_def prod.case by (intro conjI) (use l m assms(2) in simp_all)
qed

lemma unat_soma32: "unat x + unat y < 2 ^ 32 \<Longrightarrow> unat (x + y) = unat x + unat y" for x y :: u32
  by (subst unat_add_lem [THEN iffD1]) simp_all

lemma soma_ok: "g = h + x \<Longrightarrow> unat x = v \<Longrightarrow> unat h + v < 2 ^ 32 \<Longrightarrow> unat g = unat h + v" for g h x :: u32
  by (simp add: unat_soma32)

lemma poly_soma_ok:
  assumes "length b = 17" "unat (b ! 16) \<le> 1" "pequeno h"
  shows "val (poly_soma_bloco b h) = val h + (le_nat (take 16 b) + 2 ^ 128 * unat (b ! 16))" and "medio (poly_soma_bloco b h)"
proof -
  obtain h0 h1 h2 h3 h4 where h: "h = (h0, h1, h2, h3, h4)" using prod_cases5 by blast
  note l = u8_lt [of "b ! 0"] u8_lt [of "b ! 1"] u8_lt [of "b ! 2"] u8_lt [of "b ! 3"] u8_lt [of "b ! 4"] u8_lt [of "b ! 5"] u8_lt [of "b ! 6"]
    u8_lt [of "b ! 7"] u8_lt [of "b ! 8"] u8_lt [of "b ! 9"] u8_lt [of "b ! 10"] u8_lt [of "b ! 11"] u8_lt [of "b ! 12"] u8_lt [of "b ! 13"] u8_lt [of "b ! 14"] u8_lt [of "b ! 15"]
  have z: "drop_bit 8 (b32 b 12) OR b32 b 13 = b32 b 13"
    by (simp only: drop8) simp
  have u: "unat ((((drop_bit 8 (b32 b 12) OR b32 b 13) OR push_bit 8 (b32 b 14)) OR push_bit 16 (b32 b 15)) OR push_bit 24 (b32 b 16)) =
      unat (b ! 13) + 2 ^ 8 * unat (b ! 14) + 2 ^ 16 * unat (b ! 15) + 2 ^ 24 * unat (b ! 16)"
    unfolding z using carga4 [of "b32 b 13" 8 "b ! 14" "b ! 15" "b ! 16"] l by simp
  have m: "unat (b ! 3) mod 4 < 4" "unat (b ! 6) mod 16 < 16" "unat (b ! 9) mod 64 < 64"
      "unat (b ! 3) div 4 < 64" "unat (b ! 6) div 16 < 16" "unat (b ! 9) div 64 < 4" using l by simp_all
  have P: "unat h0 < 2 ^ 26" "unat h1 < 2 ^ 26 + 64" "unat h2 < 2 ^ 26" "unat h3 < 2 ^ 26" "unat h4 < 2 ^ 26"
    using assms(3) by (simp_all add: pequeno_def h)
  obtain g0 g1 g2 g3 g4 where g: "poly_soma_bloco b h = (g0, g1, g2, g3, g4)" using prod_cases5 by blast
  have G: "unat g0 = unat h0 + (unat (b ! 0) + 2 ^ 8 * unat (b ! 1) + 2 ^ 16 * unat (b ! 2) + 2 ^ 24 * (unat (b ! 3) mod 4))"
    "unat g1 = unat h1 + (unat (b ! 3) div 4 + 2 ^ 6 * unat (b ! 4) + 2 ^ 14 * unat (b ! 5) + 2 ^ 22 * (unat (b ! 6) mod 16))"
    "unat g2 = unat h2 + (unat (b ! 6) div 16 + 2 ^ 4 * unat (b ! 7) + 2 ^ 12 * unat (b ! 8) + 2 ^ 20 * (unat (b ! 9) mod 64))"
    "unat g3 = unat h3 + (unat (b ! 9) div 64 + 2 ^ 2 * unat (b ! 10) + 2 ^ 10 * unat (b ! 11) + 2 ^ 18 * unat (b ! 12))"
    "unat g4 = unat h4 + (unat (b ! 13) + 2 ^ 8 * unat (b ! 14) + 2 ^ 16 * unat (b ! 15) + 2 ^ 24 * unat (b ! 16))"
  proof -
    note E = g [symmetric, unfolded h poly_soma_bloco_def prod.case prod.inject]
    show "unat g0 = unat h0 + (unat (b ! 0) + 2 ^ 8 * unat (b ! 1) + 2 ^ 16 * unat (b ! 2) + 2 ^ 24 * (unat (b ! 3) mod 4))"
      by (rule soma_ok [OF conjunct1 [OF E] limbs_16(1)]) (use P l m in simp)
    show "unat g1 = unat h1 + (unat (b ! 3) div 4 + 2 ^ 6 * unat (b ! 4) + 2 ^ 14 * unat (b ! 5) + 2 ^ 22 * (unat (b ! 6) mod 16))"
      by (rule soma_ok [OF _ limbs_16(2)]) (use E in blast, use P l m in simp)
    show "unat g2 = unat h2 + (unat (b ! 6) div 16 + 2 ^ 4 * unat (b ! 7) + 2 ^ 12 * unat (b ! 8) + 2 ^ 20 * (unat (b ! 9) mod 64))"
      by (rule soma_ok [OF _ limbs_16(3)]) (use E in blast, use P l m in simp)
    show "unat g3 = unat h3 + (unat (b ! 9) div 64 + 2 ^ 2 * unat (b ! 10) + 2 ^ 10 * unat (b ! 11) + 2 ^ 18 * unat (b ! 12))"
      by (rule soma_ok [OF _ limbs_16(4)]) (use E in blast, use P l m in simp)
    show "unat g4 = unat h4 + (unat (b ! 13) + 2 ^ 8 * unat (b ! 14) + 2 ^ 16 * unat (b ! 15) + 2 ^ 24 * unat (b ! 16))"
      by (rule soma_ok [OF _ u]) (use E in blast, use P l m assms(2) in simp)
  qed
  have t: "length (take 16 b) = 16" "\<And>i. i < 16 \<Longrightarrow> take 16 b ! i = b ! i" using assms(1) by simp_all
  show "val (poly_soma_bloco b h) = val h + (le_nat (take 16 b) + 2 ^ 128 * unat (b ! 16))"
    unfolding g unfolding h val_def prod.case G le_nat_16 [OF t(1)]
    using junta_limbs [OF div_mod_mais [of "b ! 3"] div_mod_mais [of "b ! 6"] div_mod_mais [of "b ! 9"], of "unat (b ! 0)" "unat (b ! 1)" "unat (b ! 2)" "unat (b ! 4)"
      "unat (b ! 5)" "unat (b ! 7)" "unat (b ! 8)" "unat (b ! 10)" "unat (b ! 11)" "unat (b ! 12)" "unat (b ! 13) + 2 ^ 8 * unat (b ! 14) + 2 ^ 16 * unat (b ! 15) + 2 ^ 24 * unat (b ! 16)"]
    by (simp add: t(2))
  show "medio (poly_soma_bloco b h)"
    unfolding g medio_def prod.case G by (intro conjI) (use P l m assms(2) in simp_all)
qed

section \<open>One block\<close>

definition val64 :: "u64 \<times> u64 \<times> u64 \<times> u64 \<times> u64 \<Rightarrow> nat" where
  "val64 d = (case d of (d0, d1, d2, d3, d4) \<Rightarrow>
     unat d0 + 2 ^ 26 * unat d1 + 2 ^ 52 * unat d2 + 2 ^ 78 * unat d3 + 2 ^ 104 * unat d4)"

definition cabe :: "u64 \<times> u64 \<times> u64 \<times> u64 \<times> u64 \<Rightarrow> bool" where
  "cabe d = (case d of (d0, d1, d2, d3, d4) \<Rightarrow>
     unat d0 < 2 ^ 57 \<and> unat d1 < 2 ^ 57 \<and> unat d2 < 2 ^ 57 \<and> unat d3 < 2 ^ 57 \<and> unat d4 < 2 ^ 55 - 2 ^ 32)"

lemma unat_mul64: "unat (mul64 a b) = unat a * unat b" for a b :: u32
proof -
  have "unat a < 2 ^ 32" "unat b < 2 ^ 32" using unsigned_less [of a] unsigned_less [of b] by simp_all
  then have "unat a * unat b \<le> (2 ^ 32 - 1) * (2 ^ 32 - 1)" by (intro mult_le_mono) simp_all
  then show ?thesis by (subst unat_mult_lem [THEN iffD1]) simp_all
qed

lemma unat_soma5: "unat a + unat b + unat c + unat d + unat e < 2 ^ 64 \<Longrightarrow> unat (a + b + c + d + e) = unat a + unat b + unat c + unat d + unat e"
  for a b c d e :: u64
  by (simp add: unat_word_ariths mod_simps)

lemma unat_vezes5: "unat x \<le> 2 ^ 26 \<Longrightarrow> unat (x * 5) = unat x * 5" for x :: u32
  by (subst unat_mult_lem [THEN iffD1]) simp_all

text \<open>The products modulo \<open>2 ^ 130 - 5\<close>, with \<open>B\<close> the base of the limbs.\<close>

lemma produto_identidade:
  fixes B :: nat
  shows "(h0 * r0 + h1 * (r4 * 5) + h2 * (r3 * 5) + h3 * (r2 * 5) + h4 * (r1 * 5)) + B * (h0 * r1 + h1 * r0 + h2 * (r4 * 5) + h3 * (r3 * 5) + h4 * (r2 * 5)) +
    B * B * (h0 * r2 + h1 * r1 + h2 * r0 + h3 * (r4 * 5) + h4 * (r3 * 5)) + B * B * B * (h0 * r3 + h1 * r2 + h2 * r1 + h3 * r0 + h4 * (r4 * 5)) +
    B * B * B * B * (h0 * r4 + h1 * r3 + h2 * r2 + h3 * r1 + h4 * r0) +
    B * B * B * B * B * ((h1 * r4 + h2 * r3 + h3 * r2 + h4 * r1) + B * (h2 * r4 + h3 * r3 + h4 * r2) + B * B * (h3 * r4 + h4 * r3) + B * B * B * (h4 * r4)) =
    (h0 + B * h1 + B * B * h2 + B * B * B * h3 + B * B * B * B * h4) * (r0 + B * r1 + B * B * r2 + B * B * B * r3 + B * B * B * B * r4) +
    5 * ((h1 * r4 + h2 * r3 + h3 * r2 + h4 * r1) + B * (h2 * r4 + h3 * r3 + h4 * r2) + B * B * (h3 * r4 + h4 * r3) + B * B * B * (h4 * r4))"
  by (simp add: algebra_simps)

lemma mod_p: "D + 2 ^ 130 * K = X + 5 * K \<Longrightarrow> D mod poly_p = X mod poly_p"
proof -
  assume h: "D + 2 ^ 130 * K = X + 5 * K"
  have "D + poly_p * K = X" using h by (simp add: poly_p_def)
  then show ?thesis by (metis mod_mult_self2)
qed

lemma poly_produtos_ok:
  assumes "medio h" "fator r"
  shows "val64 (poly_produtos r h) mod poly_p = val h * val r mod poly_p" and "cabe (poly_produtos r h)"
proof -
  obtain h0 h1 h2 h3 h4 where h: "h = (h0, h1, h2, h3, h4)" using prod_cases5 by blast
  obtain r0 r1 r2 r3 r4 where r: "r = (r0, r1, r2, r3, r4)" using prod_cases5 by blast
  have H: "unat h0 \<le> 2 ^ 27 + 64" "unat h1 \<le> 2 ^ 27 + 64" "unat h2 \<le> 2 ^ 27 + 64" "unat h3 \<le> 2 ^ 27 + 64" "unat h4 \<le> 2 ^ 26 + 2 ^ 25"
    using assms(1) by (simp_all add: medio_def h)
  have R: "unat r0 \<le> 2 ^ 26" "unat r1 \<le> 2 ^ 26" "unat r2 \<le> 2 ^ 26" "unat r3 \<le> 2 ^ 26" "unat r4 \<le> 2 ^ 20" "unat r4 \<le> 2 ^ 26"
    using assms(2) by (simp_all add: fator_def r)
  note M = mult_le_mono [OF H(1) R(1)] mult_le_mono [OF H(1) R(2)] mult_le_mono [OF H(1) R(3)] mult_le_mono [OF H(1) R(4)] mult_le_mono [OF H(1) R(5)]
    mult_le_mono [OF H(2) R(1)] mult_le_mono [OF H(2) R(2)] mult_le_mono [OF H(2) R(3)] mult_le_mono [OF H(2) R(4)] mult_le_mono [OF H(2) R(5)]
    mult_le_mono [OF H(3) R(1)] mult_le_mono [OF H(3) R(2)] mult_le_mono [OF H(3) R(3)] mult_le_mono [OF H(3) R(4)] mult_le_mono [OF H(3) R(5)]
    mult_le_mono [OF H(4) R(1)] mult_le_mono [OF H(4) R(2)] mult_le_mono [OF H(4) R(3)] mult_le_mono [OF H(4) R(4)] mult_le_mono [OF H(4) R(5)]
    mult_le_mono [OF H(5) R(1)] mult_le_mono [OF H(5) R(2)] mult_le_mono [OF H(5) R(3)] mult_le_mono [OF H(5) R(4)] mult_le_mono [OF H(5) R(5)]
  note U = unat_mul64 unat_vezes5 [OF R(2)] unat_vezes5 [OF R(3)] unat_vezes5 [OF R(4)] unat_vezes5 [OF R(6)]
  obtain d0 d1 d2 d3 d4 where d: "poly_produtos r h = (d0, d1, d2, d3, d4)" using prod_cases5 by blast
  note E = d [symmetric, unfolded h r poly_produtos_def prod.case prod.inject Let_def]
  have D: "unat d0 = unat h0 * unat r0 + unat h1 * (unat r4 * 5) + unat h2 * (unat r3 * 5) + unat h3 * (unat r2 * 5) + unat h4 * (unat r1 * 5)"
    "unat d1 = unat h0 * unat r1 + unat h1 * unat r0 + unat h2 * (unat r4 * 5) + unat h3 * (unat r3 * 5) + unat h4 * (unat r2 * 5)"
    "unat d2 = unat h0 * unat r2 + unat h1 * unat r1 + unat h2 * unat r0 + unat h3 * (unat r4 * 5) + unat h4 * (unat r3 * 5)"
    "unat d3 = unat h0 * unat r3 + unat h1 * unat r2 + unat h2 * unat r1 + unat h3 * unat r0 + unat h4 * (unat r4 * 5)"
    "unat d4 = unat h0 * unat r4 + unat h1 * unat r3 + unat h2 * unat r2 + unat h3 * unat r1 + unat h4 * unat r0"
    using E M by (simp_all add: unat_soma5 U)
  show "cabe (poly_produtos r h)" unfolding d cabe_def prod.case D using M by simp
  let ?K = "(unat h1 * unat r4 + unat h2 * unat r3 + unat h3 * unat r2 + unat h4 * unat r1) + 2 ^ 26 * (unat h2 * unat r4 + unat h3 * unat r3 + unat h4 * unat r2) +
    2 ^ 26 * 2 ^ 26 * (unat h3 * unat r4 + unat h4 * unat r3) + 2 ^ 26 * 2 ^ 26 * 2 ^ 26 * (unat h4 * unat r4)"
  have B: "(2 :: nat) ^ 52 = 2 ^ 26 * 2 ^ 26" "(2 :: nat) ^ 78 = 2 ^ 26 * 2 ^ 26 * 2 ^ 26" "(2 :: nat) ^ 104 = 2 ^ 26 * 2 ^ 26 * 2 ^ 26 * 2 ^ 26"
    "(2 :: nat) ^ 130 = 2 ^ 26 * 2 ^ 26 * 2 ^ 26 * 2 ^ 26 * 2 ^ 26" by simp_all
  have "val64 (poly_produtos r h) + 2 ^ 130 * ?K = val h * val r + 5 * ?K"
    unfolding d unfolding D val64_def val_def h r prod.case B by (rule produto_identidade)
  then show "val64 (poly_produtos r h) mod poly_p = val h * val r mod poly_p" by (rule mod_p)
qed

text \<open>The carries.\<close>

lemma unat_limb64: "unat (limb64 d) = unat d mod 2 ^ 26"
proof -
  have "unat (ucast d :: u32) = unat d mod 2 ^ 32" by (simp add: unsigned_ucast_eq take_bit_eq_mod)
  then show ?thesis by (simp add: limb64_def unat_26 mod_mod_cancel)
qed

lemma unat_vai64: "unat d < 2 ^ 58 \<Longrightarrow> unat (vai64 d) = unat d div 2 ^ 26"
proof -
  assume h: "unat d < 2 ^ 58"
  have "unat (vai64 d) = (unat d div 2 ^ 26) mod 2 ^ 32" by (simp add: vai64_def unsigned_ucast_eq take_bit_eq_mod unat_drop)
  then show ?thesis using h by simp
qed

lemma unat_mais_vai: "unat d < 2 ^ 57 \<Longrightarrow> unat (d + ucast c) = unat d + unat c" for d :: u64 and c :: u32
proof -
  assume h: "unat d < 2 ^ 57"
  have "unat c < 2 ^ 32" using unsigned_less [of c] by simp
  then show ?thesis using h by (subst unat_add_lem [THEN iffD1]) simp_all
qed

lemma carga_identidade:
  fixes d0 :: nat
  assumes "d0 = 2 ^ 26 * q0 + t0" "d1 + q0 = 2 ^ 26 * q1 + t1" "d2 + q1 = 2 ^ 26 * q2 + t2" "d3 + q2 = 2 ^ 26 * q3 + t3" "d4 + q3 = 2 ^ 26 * q4 + t4"
    "t0 + q4 * 5 = 2 ^ 26 * q5 + t5"
  shows "(t5 + 2 ^ 26 * (t1 + q5) + 2 ^ 52 * t2 + 2 ^ 78 * t3 + 2 ^ 104 * t4) + 2 ^ 130 * q4 = (d0 + 2 ^ 26 * d1 + 2 ^ 52 * d2 + 2 ^ 78 * d3 + 2 ^ 104 * d4) + 5 * q4"
  using assms by simp

lemma poly_reduz_ok:
  assumes "cabe d"
  shows "val (poly_reduz d) mod poly_p = val64 d mod poly_p" and "pequeno (poly_reduz d)"
proof -
  obtain d0 d1 d2 d3 d4 where d: "d = (d0, d1, d2, d3, d4)" using prod_cases5 by blast
  have D: "unat d0 < 2 ^ 57" "unat d1 < 2 ^ 57" "unat d2 < 2 ^ 57" "unat d3 < 2 ^ 57" "unat d4 < 2 ^ 55 - 2 ^ 32" "unat d4 < 2 ^ 57"
    using assms by (simp_all add: cabe_def d)
  have lt: "unat c < 2 ^ 32" for c :: u32 using unsigned_less [of c] by simp
  define c0 where "c0 = vai64 d0"
  define e1 where "e1 = d1 + ucast c0"
  define c1 where "c1 = vai64 e1"
  define e2 where "e2 = d2 + ucast c1"
  define c2 where "c2 = vai64 e2"
  define e3 where "e3 = d3 + ucast c2"
  define c3 where "c3 = vai64 e3"
  define e4 where "e4 = d4 + ucast c3"
  define c4 where "c4 = vai64 e4"
  define h0 where "h0 = limb64 d0 + c4 * 5"
  define c5 where "c5 = drop_bit 26 h0"
  have E: "unat e1 = unat d1 + unat c0" "unat e2 = unat d2 + unat c1" "unat e3 = unat d3 + unat c2" "unat e4 = unat d4 + unat c3"
    using D unat_mais_vai by (simp_all add: e1_def e2_def e3_def e4_def)
  have C: "unat c0 = unat d0 div 2 ^ 26" "unat c1 = unat e1 div 2 ^ 26" "unat c2 = unat e2 div 2 ^ 26" "unat c3 = unat e3 div 2 ^ 26" "unat c4 = unat e4 div 2 ^ 26"
    unfolding c0_def c1_def c2_def c3_def c4_def
    by (rule unat_vai64, use D E lt [of c0] lt [of c1] lt [of c2] lt [of c3] in simp)+
  have c4: "unat c4 < 2 ^ 29" unfolding C using E(4) D(5) lt [of c3] by (simp add: less_mult_imp_div_less)
  have c45: "unat (c4 * 5) = unat c4 * 5" using c4 by (subst unat_mult_lem [THEN iffD1]) simp_all
  have l0: "unat (limb64 d0) < 2 ^ 26" by (simp add: unat_limb64)
  have H0: "unat h0 = unat d0 mod 2 ^ 26 + unat c4 * 5"
    unfolding h0_def using c4 l0 c45 by (subst unat_soma32) (simp_all add: unat_limb64)
  have c5: "unat c5 = unat h0 div 2 ^ 26" "unat c5 < 64"
    using H0 c4 l0 by (simp_all add: c5_def unat_drop less_mult_imp_div_less unat_limb64)
  have h1: "unat (limb64 e1 + c5) = unat e1 mod 2 ^ 26 + unat c5"
  proof -
    have "unat (limb64 e1) < 2 ^ 26" by (simp add: unat_limb64)
    then show ?thesis using c5(2) by (subst unat_soma32) (simp_all add: unat_limb64)
  qed
  have r: "poly_reduz d = (h0 AND 0x3FFFFFF, limb64 e1 + c5, limb64 e2, limb64 e3, limb64 e4)"
    by (simp only: poly_reduz_def d prod.case Let_def c0_def e1_def c1_def e2_def c2_def e3_def c3_def e4_def c4_def h0_def c5_def)
  have q: "n = 2 ^ 26 * (n div 2 ^ 26) + n mod 2 ^ 26" for n :: nat by simp
  have "val (poly_reduz d) + 2 ^ 130 * unat c4 = val64 d + 5 * unat c4"
    unfolding r unfolding d val_def val64_def prod.case unat_limb64 unat_26 h1
    using q [of "unat d0"] q [of "unat e1"] q [of "unat e2"] q [of "unat e3"] q [of "unat e4"] q [of "unat h0"]
    by (intro carga_identidade [where ?q0.0 = "unat c0" and ?q1.0 = "unat c1" and ?q2.0 = "unat c2" and ?q3.0 = "unat c3" and ?t0.0 = "unat d0 mod 2 ^ 26"])
      (simp_all only: C [symmetric] E [symmetric] c5(1) [symmetric] H0 [symmetric])
  then show "val (poly_reduz d) mod poly_p = val64 d mod poly_p" by (rule mod_p)
  show "pequeno (poly_reduz d)"
    unfolding r pequeno_def prod.case unat_limb64 unat_26 h1 using c5(2) by (intro conjI) (simp_all add: add_strict_mono)
qed

section \<open>All blocks\<close>

lemma le_nat_append: "le_nat (xs @ ys) = le_nat xs + 256 ^ length xs * le_nat ys"
  by (induction xs) (simp_all add: algebra_simps)

lemma le_nat_zeros [simp]: "le_nat (replicate n 0) = 0" by (induction n) simp_all

lemma poly_blk_ok:
  assumes "length c \<le> 16"
  shows "length (poly_blk c) = 17" "unat (poly_blk c ! 16) \<le> 1" "le_nat (take 16 (poly_blk c)) + 2 ^ 128 * unat (poly_blk c ! 16) = le_nat (c @ [1])"
proof -
  have b: "poly_blk c = c @ 1 # replicate (16 - length c) 0"
  proof -
    have e: "17 - length c = Suc (16 - length c)" using assms by simp
    show ?thesis by (simp add: poly_blk_def splice_def e)
  qed
  show l: "length (poly_blk c) = 17" using assms by (simp add: b)
  show "unat (poly_blk c ! 16) \<le> 1" using assms by (cases "length c = 16") (simp_all add: b nth_append nth_Cons')
  have "poly_blk c = take 16 (poly_blk c) @ [poly_blk c ! 16]" using l by (metis Suc_eq_plus1 lessI less_add_same_cancel1 numeral_Bit0 numeral_Bit1 numeral_plus_one order_refl semiring_norm(2) take_Suc_conv_app_nth take_all zero_less_one eval_nat_numeral(3))
  then have "le_nat (poly_blk c) = le_nat (take 16 (poly_blk c)) + 256 ^ 16 * unat (poly_blk c ! 16)"
    using l le_nat_append [of "take 16 (poly_blk c)" "[poly_blk c ! 16]"] by simp
  moreover have "le_nat (poly_blk c) = le_nat (c @ [1])" by (simp add: b le_nat_append)
  ultimately show "le_nat (take 16 (poly_blk c)) + 2 ^ 128 * unat (poly_blk c ! 16) = le_nat (c @ [1])" by simp
qed

lemma poly_loop_ok:
  assumes "fator r" "pequeno h" "val h mod poly_p = a mod poly_p"
  shows "val (poly_loop r msg h) mod poly_p = poly_acc (val r) msg a mod poly_p \<and> pequeno (poly_loop r msg h)"
  using assms
proof (induction r msg h arbitrary: a rule: poly_loop.induct)
  case (1 r msg h)
  show ?case
  proof (cases "msg = []")
    case True
    then show ?thesis using 1 by (simp add: poly_loop.simps poly_acc.simps)
  next
    case False
    let ?b = "poly_blk (take 16 msg)"
    let ?h = "poly_reduz (poly_produtos r (poly_soma_bloco ?b h))"
    let ?a = "(a + le_nat (take 16 msg @ [1])) * val r mod poly_p"
    have t16: "length (take 16 msg) \<le> 16" by simp
    note b = poly_blk_ok [OF t16]
    note s = poly_soma_ok [OF b(1,2) "1.prems"(2)]
    note p = poly_produtos_ok [OF s(2) "1.prems"(1)]
    have "val ?h mod poly_p = (val h + le_nat (take 16 msg @ [1])) * val r mod poly_p"
      using poly_reduz_ok(1) [OF p(2)] p(1) s(1) b(3) by simp
    also have "\<dots> = ?a mod poly_p" using "1.prems"(3) by (metis mod_add_cong mod_mod_trivial mod_mult_cong)
    finally have "val (poly_loop r (drop 16 msg) ?h) mod poly_p = poly_acc (val r) (drop 16 msg) ?a mod poly_p \<and> pequeno (poly_loop r (drop 16 msg) ?h)"
      using poly_reduz_ok(2) [OF p(2)] by (intro "1.IH" [OF False "1.prems"(1)])
    then show ?thesis using False by (simp add: poly_loop.simps [of r msg] poly_acc.simps [of "val r" msg])
  qed
qed

lemma poly_acc_lt: "a < poly_p \<Longrightarrow> poly_acc r msg a < poly_p"
proof (induction r msg a rule: poly_acc.induct)
  case (1 r msg a)
  then show ?case by (cases "msg = []") (subst poly_acc.simps, simp add: poly_p_def)+
qed

section \<open>The end\<close>

definition reduzido :: "limbs \<Rightarrow> bool" where
  "reduzido h = (case h of (h0, h1, h2, h3, h4) \<Rightarrow>
     unat h0 < 2 ^ 26 \<and> unat h1 < 2 ^ 26 \<and> unat h2 < 2 ^ 26 \<and> unat h3 < 2 ^ 26 \<and> unat h4 < 2 ^ 26)"

lemma unat_mais_26: "g = x + drop_bit 26 y \<Longrightarrow> unat x \<le> 2 ^ 28 \<Longrightarrow> unat g = unat x + unat y div 2 ^ 26" for g x y :: u32
proof -
  assume h: "g = x + drop_bit 26 y" "unat x \<le> 2 ^ 28"
  have "unat y < 2 ^ 32" using unsigned_less [of y] by simp
  then have "unat y div 2 ^ 26 < 64" by (simp add: less_mult_imp_div_less)
  then show ?thesis unfolding h(1) using h(2) by (subst unat_soma32) (simp_all add: unat_drop)
qed

lemma poly_vai_final_ok:
  assumes "pequeno h"
  shows "val (poly_vai_final h) mod poly_p = val h mod poly_p" and "reduzido (poly_vai_final h)"
proof -
  obtain h0 h1 h2 h3 h4 where h: "h = (h0, h1, h2, h3, h4)" using prod_cases5 by blast
  have H: "unat h0 < 2 ^ 26" "unat h1 < 2 ^ 26 + 64" "unat h2 < 2 ^ 26" "unat h3 < 2 ^ 26" "unat h4 < 2 ^ 26"
    using assms by (simp_all add: pequeno_def h)
  define g2 where "g2 = h2 + drop_bit 26 h1"
  define g3 where "g3 = h3 + drop_bit 26 g2"
  define g4 where "g4 = h4 + drop_bit 26 g3"
  define g0 where "g0 = h0 + drop_bit 26 g4 * 5"
  define g1 where "g1 = (h1 AND 0x3FFFFFF) + drop_bit 26 g0"
  have r: "poly_vai_final h = (g0 AND 0x3FFFFFF, g1, g2 AND 0x3FFFFFF, g3 AND 0x3FFFFFF, g4 AND 0x3FFFFFF)"
    by (simp only: poly_vai_final_def h prod.case Let_def g2_def g3_def g4_def g0_def g1_def)
  have G: "unat g2 = unat h2 + unat h1 div 2 ^ 26" "unat g3 = unat h3 + unat g2 div 2 ^ 26" "unat g4 = unat h4 + unat g3 div 2 ^ 26"
    using unat_mais_26 [OF g2_def] unat_mais_26 [OF g3_def] unat_mais_26 [OF g4_def] H by simp_all
  have c: "unat h1 div 2 ^ 26 \<le> 1" "unat g2 div 2 ^ 26 \<le> unat h1 div 2 ^ 26" "unat g3 div 2 ^ 26 \<le> unat g2 div 2 ^ 26" "unat g4 div 2 ^ 26 \<le> unat g3 div 2 ^ 26"
  proof -
    have u: "x div 2 ^ 26 \<le> c" if "x = y + c" "y < 2 ^ 26" "c \<le> 1" for x y c :: nat
      using that by (cases "c = 0") (simp_all add: div_le_mono less_Suc_eq_le [symmetric] less_mult_imp_div_less)
    show a: "unat h1 div 2 ^ 26 \<le> 1" using H(2) less_mult_imp_div_less [of "unat h1" 2 "2 ^ 26"] by simp
    show b: "unat g2 div 2 ^ 26 \<le> unat h1 div 2 ^ 26" using u [OF G(1) H(3) a] .
    show d: "unat g3 div 2 ^ 26 \<le> unat g2 div 2 ^ 26" using u [OF G(2) H(4)] a b by simp
    show "unat g4 div 2 ^ 26 \<le> unat g3 div 2 ^ 26" using u [OF G(3) H(5)] a b d by simp
  qed
  have c5: "unat (drop_bit 26 g4 * 5) = unat g4 div 2 ^ 26 * 5" using c by (subst unat_mult_lem [THEN iffD1]) (simp_all add: unat_drop)
  have G0: "unat g0 = unat h0 + unat g4 div 2 ^ 26 * 5" unfolding g0_def using H(1) c c5 by (subst unat_soma32) simp_all
  have G1: "unat g1 = unat h1 mod 2 ^ 26 + unat g0 div 2 ^ 26"
  proof -
    have "unat (h1 AND 0x3FFFFFF) \<le> 2 ^ 28" by (simp add: unat_26 less_imp_le [OF less_le_trans [OF mod_less_divisor]])
    from unat_mais_26 [OF g1_def this] show ?thesis by (simp add: unat_26)
  qed
  have q: "n = 2 ^ 26 * (n div 2 ^ 26) + n mod 2 ^ 26" for n :: nat by simp
  have A: "unat h0 = 2 ^ 26 * 0 + unat h0" "unat h1 + 0 = 2 ^ 26 * (unat h1 div 2 ^ 26) + unat h1 mod 2 ^ 26"
    "unat h2 + unat h1 div 2 ^ 26 = 2 ^ 26 * (unat g2 div 2 ^ 26) + unat g2 mod 2 ^ 26"
    "unat h3 + unat g2 div 2 ^ 26 = 2 ^ 26 * (unat g3 div 2 ^ 26) + unat g3 mod 2 ^ 26"
    "unat h4 + unat g3 div 2 ^ 26 = 2 ^ 26 * (unat g4 div 2 ^ 26) + unat g4 mod 2 ^ 26"
    "unat h0 + unat g4 div 2 ^ 26 * 5 = 2 ^ 26 * (unat g0 div 2 ^ 26) + unat g0 mod 2 ^ 26"
    unfolding G(1) [symmetric] G(2) [symmetric] G(3) [symmetric] G0 [symmetric] mult_0_right add_0_right by (rule refl q | simp only: add_0_left)+
  have "val (poly_vai_final h) + 2 ^ 130 * (unat g4 div 2 ^ 26) = val h + 5 * (unat g4 div 2 ^ 26)"
    unfolding r unfolding h val_def prod.case unat_26 G1 by (rule carga_identidade [OF A])
  then show "val (poly_vai_final h) mod poly_p = val h mod poly_p" by (rule mod_p)
  have "unat h1 mod 2 ^ 26 + unat g0 div 2 ^ 26 < 2 ^ 26"
  proof (cases "unat h1 < 2 ^ 26")
    case True
    then have "unat h1 div 2 ^ 26 = 0" by simp
    then have "unat g4 div 2 ^ 26 = 0" using c by simp
    then have "unat g0 div 2 ^ 26 = 0" using G0 H(1) by simp
    then show ?thesis by simp
  next
    case False
    then have "unat h1 mod 2 ^ 26 < 64" using H(2) by (simp add: le_mod_geq)
    moreover have "unat g0 div 2 ^ 26 < 2" using G0 H(1) c by (intro less_mult_imp_div_less) simp
    ultimately show ?thesis by simp
  qed
  then show "reduzido (poly_vai_final h)" unfolding r reduzido_def prod.case unat_26 G1 by simp
qed

lemma poly_escolhe_simps: "poly_escolhe 0 h g = h" "poly_escolhe (- 1) h g = g"
  by (simp_all add: poly_escolhe_def)

lemma mascara:
  fixes e :: u32
  assumes "unat e \<le> 2 ^ 26"
  shows "drop_bit 31 (e - push_bit 26 1) - 1 = (if unat e = 2 ^ 26 then - 1 else 0)" and "unat e = 2 ^ 26 \<Longrightarrow> e - push_bit 26 1 = 0"
proof -
  have p: "push_bit 26 (1 :: u32) = 2 ^ 26" by simp
  have z: "e - push_bit 26 1 = 0" if "unat e = 2 ^ 26" using that unat_eq_iff [of e "2 ^ 26"] by (simp add: p)
  then show "unat e = 2 ^ 26 \<Longrightarrow> e - push_bit 26 1 = 0" .
  show "drop_bit 31 (e - push_bit 26 1) - 1 = (if unat e = 2 ^ 26 then - 1 else 0)"
  proof (cases "unat e = 2 ^ 26")
    case False
    then have lt: "unat e < 2 ^ 26" using assms by simp
    then have "unat (e - push_bit 26 1) = 2 ^ 32 + unat e - 2 ^ 26" by (simp add: p unat_sub_if')
    then have "unat (drop_bit 31 (e - push_bit 26 1)) = (2 ^ 32 + unat e - 2 ^ 26) div 2 ^ 31" by (simp only: unat_drop)
    also have "\<dots> = unat (1 :: u32)"
    proof -
      have "2 ^ 32 + unat e - 2 ^ 26 = 2 ^ 31 + (2 ^ 31 - 2 ^ 26 + unat e)" by simp
      moreover have "2 ^ 31 - 2 ^ 26 + unat e < 2 ^ 31" using lt by simp
      ultimately show ?thesis by (simp only: div_add_self1 div_less) simp
    qed
    finally have "drop_bit 31 (e - push_bit 26 1) = 1" by (simp only: unat_eq_iff)
    then show ?thesis using False by simp
  next
    case True
    show ?thesis unfolding z [OF True] using True by simp
  qed
qed

lemma menos_p_identidade:
  fixes h0 :: nat
  assumes "h0 + 5 = 2 ^ 26 * q0 + t0" "h1 + q0 = 2 ^ 26 * q1 + t1" "h2 + q1 = 2 ^ 26 * q2 + t2" "h3 + q2 = 2 ^ 26 * q3 + t3"
  shows "h0 + 2 ^ 26 * h1 + 2 ^ 52 * h2 + 2 ^ 78 * h3 + 2 ^ 104 * h4 + 5 = t0 + 2 ^ 26 * t1 + 2 ^ 52 * t2 + 2 ^ 78 * t3 + 2 ^ 104 * (h4 + q3)"
  using assms by simp

lemma poly_menos_p_ok:
  assumes "reduzido h"
  shows "val (poly_menos_p h) = val h mod poly_p" and "reduzido (poly_menos_p h)"
proof -
  obtain h0 h1 h2 h3 h4 where h: "h = (h0, h1, h2, h3, h4)" using prod_cases5 by blast
  have H: "unat h0 < 2 ^ 26" "unat h1 < 2 ^ 26" "unat h2 < 2 ^ 26" "unat h3 < 2 ^ 26" "unat h4 < 2 ^ 26"
    using assms by (simp_all add: reduzido_def h)
  define g0 where "g0 = h0 + 5"
  define g1 where "g1 = h1 + drop_bit 26 g0"
  define g2 where "g2 = h2 + drop_bit 26 g1"
  define g3 where "g3 = h3 + drop_bit 26 g2"
  define e where "e = h4 + drop_bit 26 g3"
  define m where "m = drop_bit 31 (e - push_bit 26 1) - 1"
  have r: "poly_menos_p h = (poly_escolhe m h0 (g0 AND 0x3FFFFFF), poly_escolhe m h1 (g1 AND 0x3FFFFFF), poly_escolhe m h2 (g2 AND 0x3FFFFFF),
      poly_escolhe m h3 (g3 AND 0x3FFFFFF), poly_escolhe m h4 (e - push_bit 26 1))"
    by (simp only: poly_menos_p_def h prod.case Let_def g0_def g1_def g2_def g3_def e_def m_def)
  have G0: "unat g0 = unat h0 + 5" unfolding g0_def using H(1) by (subst unat_soma32) simp_all
  have G: "unat g1 = unat h1 + unat g0 div 2 ^ 26" "unat g2 = unat h2 + unat g1 div 2 ^ 26" "unat g3 = unat h3 + unat g2 div 2 ^ 26" "unat e = unat h4 + unat g3 div 2 ^ 26"
    using unat_mais_26 [OF g1_def] unat_mais_26 [OF g2_def] unat_mais_26 [OF g3_def] unat_mais_26 [OF e_def] H by simp_all
  have u: "x div 2 ^ 26 \<le> 1" if "x = y + c" "y < 2 ^ 26" "c \<le> 5" for x y c :: nat
    using that less_mult_imp_div_less [of x 2 "2 ^ 26"] by simp
  have c: "unat g0 div 2 ^ 26 \<le> 1" using u [OF G0 H(1)] by simp
  then have c: "unat g1 div 2 ^ 26 \<le> 1" using u [OF G(1) H(2)] by simp
  then have c: "unat g2 div 2 ^ 26 \<le> 1" using u [OF G(2) H(3)] by simp
  then have c: "unat g3 div 2 ^ 26 \<le> 1" using u [OF G(3) H(4)] by simp
  then have e26: "unat e \<le> 2 ^ 26" using G(4) H(5) by simp
  note M = mascara [OF e26]
  have q: "n = 2 ^ 26 * (n div 2 ^ 26) + n mod 2 ^ 26" for n :: nat by simp
  have I: "val h + 5 = unat g0 mod 2 ^ 26 + 2 ^ 26 * (unat g1 mod 2 ^ 26) + 2 ^ 52 * (unat g2 mod 2 ^ 26) + 2 ^ 78 * (unat g3 mod 2 ^ 26) + 2 ^ 104 * unat e"
    unfolding h val_def prod.case G(4)
    by (rule menos_p_identidade) (unfold G0 [symmetric] G(1) [symmetric] G(2) [symmetric] G(3) [symmetric], rule q)+
  have T: "unat g0 mod 2 ^ 26 < 2 ^ 26" "unat g1 mod 2 ^ 26 < 2 ^ 26" "unat g2 mod 2 ^ 26 < 2 ^ 26" "unat g3 mod 2 ^ 26 < 2 ^ 26" by simp_all
  have "val (poly_menos_p h) = val h mod poly_p \<and> reduzido (poly_menos_p h)"
  proof (cases "unat e = 2 ^ 26")
    case True
    then have "m = - 1" "e - push_bit 26 1 = 0" using M by (simp_all add: m_def)
    then have r': "poly_menos_p h = (g0 AND 0x3FFFFFF, g1 AND 0x3FFFFFF, g2 AND 0x3FFFFFF, g3 AND 0x3FFFFFF, 0)"
      by (simp only: r poly_escolhe_simps)
    then have v: "val (poly_menos_p h) = unat g0 mod 2 ^ 26 + 2 ^ 26 * (unat g1 mod 2 ^ 26) + 2 ^ 52 * (unat g2 mod 2 ^ 26) + 2 ^ 78 * (unat g3 mod 2 ^ 26)"
      by (simp only: val_def prod.case unat_26) simp
    then have "val h = val (poly_menos_p h) + poly_p" using I True by (simp add: poly_p_def)
    moreover have "val (poly_menos_p h) < poly_p" unfolding v poly_p_def using T by simp
    ultimately have "val h mod poly_p = val (poly_menos_p h)" by simp
    then show ?thesis using T by (simp only: r' reduzido_def prod.case unat_26) simp
  next
    case False
    then have "m = 0" using M by (simp add: m_def)
    then have "poly_menos_p h = (h0, h1, h2, h3, h4)" by (simp only: r poly_escolhe_simps)
    then have r': "poly_menos_p h = h" unfolding h [symmetric] .
    have "unat e < 2 ^ 26" using False e26 by simp
    then have "val h < poly_p" using I T unfolding poly_p_def by simp
    then show ?thesis using assms r' by simp
  qed
  then show "val (poly_menos_p h) = val h mod poly_p" "reduzido (poly_menos_p h)" by simp_all
qed

section \<open>The tag\<close>

lemma nat_le_add: "nat_le (a + b) n = nat_le a n @ nat_le b (n div 256 ^ a)"
  by (induction a arbitrary: n) (simp_all add: div_mult2_eq)

lemma nat_le_mod: "256 ^ k dvd m \<Longrightarrow> nat_le k (n mod m) = nat_le k n"
proof (induction k arbitrary: n m)
  case (Suc k)
  then obtain j where m: "m = 256 * (256 ^ k * j)" by (auto simp: dvd_def ac_simps)
  have "n mod m mod 256 = n mod 256" by (simp add: m mod_mod_cancel)
  moreover have "n mod m div 256 = (n div 256) mod (256 ^ k * j)" unfolding m by (simp add: mod_mult2_eq)
  ultimately show ?case using Suc.IH [of "256 ^ k * j" "n div 256"] by simp
qed simp

lemma bytes_f_ok: "bytes_f F = nat_le 4 (unat F)"
proof -
  have b: "ucast G = (of_nat (unat G mod 256) :: u8)" for G :: u64
    by (simp add: unat_eq_iff [symmetric] unsigned_ucast_eq unsigned_of_nat take_bit_eq_mod)
  have f: "(4 :: nat) = Suc (Suc (Suc (Suc 0)))" by simp
  have n: "unat F div 2 ^ 8 = unat F div 256" "unat F div 2 ^ 16 = unat F div 256 div 256" "unat F div 2 ^ 24 = unat F div 256 div 256 div 256"
    by (simp_all add: div_mult2_eq [symmetric])
  show ?thesis unfolding bytes_f_def b unat_drop n unfolding f nat_le.simps by (rule refl)
qed

text \<open>Each word of the sum, from two limbs.\<close>

lemma ou_corta:
  fixes x y :: u32
  assumes "unat x < 2 ^ k" "k \<le> 32"
  shows "unat ((x OR push_bit k y) AND 0xFFFFFFFF) = unat x + 2 ^ k * (unat y mod 2 ^ (32 - k))"
proof -
  have "push_bit k y = push_bit k (take_bit (32 - k) y)" using assms(2) by (intro bit_word_eqI) (auto simp: bit_simps)
  moreover have "unat (take_bit (32 - k) y) = unat y mod 2 ^ (32 - k)" by (simp only: unsigned_take_bit_eq) (simp only: take_bit_eq_mod)
  moreover have "unat x + unat y mod 2 ^ (32 - k) * 2 ^ k < 2 ^ 32"
  proof -
    have "(unat y mod 2 ^ (32 - k) + 1) * 2 ^ k \<le> 2 ^ (32 - k) * 2 ^ k" by (intro mult_le_mono1) (simp add: Suc_le_eq)
    also have "\<dots> = 2 ^ 32" using assms(2) by (simp only: power_add [symmetric]) simp
    finally show ?thesis using assms(1) by simp
  qed
  ultimately have "unat (x OR push_bit k y) = unat x + 2 ^ k * (unat y mod 2 ^ (32 - k))"
    using ou_soma [OF assms(1), of "take_bit (32 - k) y"] by simp
  moreover have "z AND 0xFFFFFFFF = z" for z :: u32
  proof -
    have "z AND mask 32 = take_bit 32 z" by (simp only: take_bit_eq_mask)
    then show ?thesis by (simp add: mask_eq_exp_minus_1 take_bit_word_eq_self)
  qed
  ultimately show ?thesis by simp
qed

lemma poly_f_ok: "unat (poly_f sk i) = unat (sk ! i) + 2 ^ 8 * unat (sk ! (i + 1)) + 2 ^ 16 * unat (sk ! (i + 2)) + 2 ^ 24 * unat (sk ! (i + 3))"
  using carga4 [of "b32 sk i" 8 "sk ! (i + 1)" "sk ! (i + 2)" "sk ! (i + 3)"] u8_lt [of "sk ! i"] by (simp add: poly_f_def)

lemma nat_le_passo: "nat_le (4 + k) (F + 2 ^ 32 * A) = nat_le 4 F @ nat_le k (F div 2 ^ 32 + A)"
proof -
  have "nat_le 4 ((F + 2 ^ 32 * A) mod 2 ^ 32) = nat_le 4 (F + 2 ^ 32 * A)" "nat_le 4 (F mod 2 ^ 32) = nat_le 4 F"
    by (rule nat_le_mod, simp)+
  moreover have "(F + 2 ^ 32 * A) mod 2 ^ 32 = F mod 2 ^ 32" by (simp only: mod_mult_self2)
  ultimately have "nat_le 4 (F + 2 ^ 32 * A) = nat_le 4 F" by metis
  moreover have "(F + 2 ^ 32 * A) div 256 ^ 4 = F div 2 ^ 32 + A" by simp
  ultimately show ?thesis by (simp only: nat_le_add)
qed

lemma palavras_identidade:
  fixes h0 :: nat
  assumes "h1 = 2 ^ 6 * q1 + t1" "h2 = 2 ^ 12 * q2 + t2" "h3 = 2 ^ 18 * q3 + t3" "h4 = 2 ^ 24 * q4 + t4"
  shows "h0 + 2 ^ 26 * h1 + 2 ^ 52 * h2 + 2 ^ 78 * h3 + 2 ^ 104 * h4 + (f0 + 2 ^ 32 * f1 + 2 ^ 64 * f2 + 2 ^ 96 * f3) =
    ((h0 + 2 ^ 26 * t1) + f0) + 2 ^ 32 * (((q1 + 2 ^ 20 * t2) + f1) + 2 ^ 32 * (((q2 + 2 ^ 14 * t3) + f2) + 2 ^ 32 * (((q3 + 2 ^ 8 * t4) + f3) + 2 ^ 32 * q4)))"
  unfolding assms by simp

lemma unat_wf: "unat (ucast w + ucast f :: u64) = unat w + unat f" for w f :: u32
proof -
  have "unat w < 2 ^ 32" "unat f < 2 ^ 32" using unsigned_less [of w] unsigned_less [of f] by simp_all
  then show ?thesis by (subst unat_add_lem [THEN iffD1]) simp_all
qed

lemma unat_F: "unat (drop_bit 32 F + (ucast w + ucast f)) = unat F div 2 ^ 32 + (unat w + unat f)" for F :: u64 and w f :: u32
proof -
  have l: "unat w < 2 ^ 32" "unat f < 2 ^ 32" "unat F < 2 ^ 64" using unsigned_less [of w] unsigned_less [of f] unsigned_less [of F] by simp_all
  then have "unat F div 2 ^ 32 < 2 ^ 32" by (simp add: less_mult_imp_div_less)
  then show ?thesis using l by (subst unat_add_lem [THEN iffD1]) (simp_all add: unat_drop unat_wf)
qed

lemma poly_tag_ok:
  assumes "reduzido h" "length sk = 16"
  shows "poly_tag h sk = nat_le 16 ((val h + le_nat sk) mod 2 ^ 128)"
proof -
  obtain h0 h1 h2 h3 h4 where h: "h = (h0, h1, h2, h3, h4)" using prod_cases5 by blast
  have H: "unat h0 < 2 ^ 26" "unat h1 < 2 ^ 26" "unat h2 < 2 ^ 26" "unat h3 < 2 ^ 26" "unat h4 < 2 ^ 26"
    using assms(1) by (simp_all add: reduzido_def h)
  define w0 where "w0 = (h0 OR push_bit 26 h1) AND 0xFFFFFFFF"
  define w1 where "w1 = (drop_bit 6 h1 OR push_bit 20 h2) AND 0xFFFFFFFF"
  define w2 where "w2 = (drop_bit 12 h2 OR push_bit 14 h3) AND 0xFFFFFFFF"
  define w3 where "w3 = (drop_bit 18 h3 OR push_bit 8 h4) AND 0xFFFFFFFF"
  define F0 where "F0 = (ucast w0 + ucast (poly_f sk 0) :: u64)"
  define F1 where "F1 = drop_bit 32 F0 + (ucast w1 + ucast (poly_f sk 4))"
  define F2 where "F2 = drop_bit 32 F1 + (ucast w2 + ucast (poly_f sk 8))"
  define F3 where "F3 = drop_bit 32 F2 + (ucast w3 + ucast (poly_f sk 12))"
  have t: "poly_tag h sk = bytes_f F0 @ bytes_f F1 @ bytes_f F2 @ bytes_f F3"
    by (simp only: poly_tag_def h prod.case Let_def w0_def w1_def w2_def w3_def F0_def F1_def F2_def F3_def)
  have W: "unat w0 = unat h0 + 2 ^ 26 * (unat h1 mod 2 ^ 6)" "unat w1 = unat h1 div 2 ^ 6 + 2 ^ 20 * (unat h2 mod 2 ^ 12)"
    "unat w2 = unat h2 div 2 ^ 12 + 2 ^ 14 * (unat h3 mod 2 ^ 18)" "unat w3 = unat h3 div 2 ^ 18 + 2 ^ 8 * (unat h4 mod 2 ^ 24)"
    using ou_corta [of h0 26 h1] ou_corta [of "drop_bit 6 h1" 20 h2] ou_corta [of "drop_bit 12 h2" 14 h3] ou_corta [of "drop_bit 18 h3" 8 h4] H
    by (simp_all add: w0_def w1_def w2_def w3_def unat_drop less_mult_imp_div_less)
  have F: "unat F0 = unat w0 + unat (poly_f sk 0)" "unat F1 = unat F0 div 2 ^ 32 + (unat w1 + unat (poly_f sk 4))"
    "unat F2 = unat F1 div 2 ^ 32 + (unat w2 + unat (poly_f sk 8))" "unat F3 = unat F2 div 2 ^ 32 + (unat w3 + unat (poly_f sk 12))"
    by (simp_all only: F0_def F1_def F2_def F3_def unat_F unat_wf)
  have sk: "le_nat sk = unat (poly_f sk 0) + 2 ^ 32 * unat (poly_f sk 4) + 2 ^ 64 * unat (poly_f sk 8) + 2 ^ 96 * unat (poly_f sk 12)"
    unfolding poly_f_ok le_nat_16 [OF assms(2)] add_0 by simp
  have q: "n = 2 ^ k * (n div 2 ^ k) + n mod 2 ^ k" for n k :: nat by simp
  define A3 where "A3 = (unat w3 + unat (poly_f sk 12)) + 2 ^ 32 * (unat h4 div 2 ^ 24)"
  define A2 where "A2 = (unat w2 + unat (poly_f sk 8)) + 2 ^ 32 * A3"
  define A1 where "A1 = (unat w1 + unat (poly_f sk 4)) + 2 ^ 32 * A2"
  have N: "val h + le_nat sk = unat F0 + 2 ^ 32 * A1"
    unfolding h val_def prod.case sk A1_def A2_def A3_def F W by (rule palavras_identidade) (rule q)+
  have s: "unat F0 div 2 ^ 32 + A1 = unat F1 + 2 ^ 32 * A2" "unat F1 div 2 ^ 32 + A2 = unat F2 + 2 ^ 32 * A3"
      "unat F2 div 2 ^ 32 + A3 = unat F3 + 2 ^ 32 * (unat h4 div 2 ^ 24)"
    unfolding A1_def A2_def A3_def F(2-4) by (simp_all only: add.assoc)
  have "nat_le 16 ((val h + le_nat sk) mod 2 ^ 128) = nat_le 16 (val h + le_nat sk)" by (rule nat_le_mod) simp
  also have "\<dots> = nat_le (4 + (4 + (4 + (4 + 0)))) (unat F0 + 2 ^ 32 * A1)" unfolding N by simp
  also have "\<dots> = bytes_f F0 @ bytes_f F1 @ bytes_f F2 @ bytes_f F3"
    unfolding nat_le_passo s bytes_f_ok by simp
  finally show ?thesis using t by simp
qed

section \<open>The key\<close>

lemma e_nat: "a < 256 \<Longrightarrow> b < 256 \<Longrightarrow> (a + 256 * x) AND (b + 256 * y) = (a AND b) + 256 * (x AND y)" for a b x y :: nat
proof -
  assume h: "a < 256" "b < 256"
  let ?n = "(a + 256 * x) AND (b + 256 * y)"
  have "take_bit 8 ?n = a AND b" unfolding take_bit_and using h by (simp add: take_bit_eq_mod)
  moreover have "drop_bit 8 ?n = x AND y" unfolding drop_bit_and using h by (simp add: drop_bit_eq_div)
  ultimately have "?n mod 256 = a AND b" "?n div 256 = x AND y" by (simp_all add: take_bit_eq_mod drop_bit_eq_div)
  then show ?thesis using mult_div_mod_eq [of 256 ?n] by simp
qed

lemma le_nat_e: "length xs = length ys \<Longrightarrow> le_nat (map2 (AND) xs ys) = le_nat xs AND le_nat ys"
proof (induction xs ys rule: list_induct2)
  case (Cons x xs y ys)
  then show ?case using e_nat [OF u8_lt [of x] u8_lt [of y]] by (simp add: unsigned_and_eq)
qed simp

lemma poly_clamp_ok:
  assumes "length b = 16"
  shows "le_nat (poly_clamp b) = le_nat b AND 0x0ffffffc0ffffffc0ffffffc0fffffff" and "length (poly_clamp b) = 16" and "unat (poly_clamp b ! 15) < 16"
proof -
  let ?m = "[255, 255, 255, 15, 252, 255, 255, 15, 252, 255, 255, 15, 252, 255, 255, 15] :: u8 list"
  have "x AND 255 = x" for x :: u8
  proof -
    have "x AND mask 8 = take_bit 8 x" by (simp only: take_bit_eq_mask)
    then show ?thesis by (simp add: mask_eq_exp_minus_1 take_bit_word_eq_self)
  qed
  moreover have "\<exists>x0 x1 x2 x3 x4 x5 x6 x7 x8 x9 x10 x11 x12 x13 x14 x15. b = [x0, x1, x2, x3, x4, x5, x6, x7, x8, x9, x10, x11, x12, x13, x14, x15]"
    using assms by (auto simp: numeral_eq_Suc length_Suc_conv)
  ultimately have c: "poly_clamp b = map2 (AND) b ?m" by (elim exE) (simp add: poly_clamp_def)
  have "le_nat ?m = 0x0ffffffc0ffffffc0ffffffc0fffffff" by simp
  then show "le_nat (poly_clamp b) = le_nat b AND 0x0ffffffc0ffffffc0ffffffc0fffffff"
    unfolding c using assms by (subst le_nat_e) simp_all
  show "length (poly_clamp b) = 16" by (simp add: poly_clamp_def assms)
  have "poly_clamp b ! 15 = b ! 15 AND 15" using assms by (simp add: poly_clamp_def)
  moreover have "unat (b ! 15 AND 15) \<le> unat (15 :: u8)" by (rule word_and_le1 [THEN word_le_nat_alt [THEN iffD1]])
  ultimately show "unat (poly_clamp b ! 15) < 16" by simp
qed

lemma poly1305_ok:
  assumes "length key = 32"
  shows "poly1305_mac key msg = poly1305_ref key msg"
proof -
  have k: "length (take 16 key) = 16" "length (drop 16 key) = 16" using assms by simp_all
  note c = poly_clamp_ok [OF k(1)]
  note r = poly_r_ok [OF c(2,3)]
  let ?h = "poly_loop (poly_r (poly_clamp (take 16 key))) msg (0, 0, 0, 0, 0)"
  have p: "pequeno (0, 0, 0, 0, 0)" "val (0, 0, 0, 0, 0) = 0" by (simp_all add: pequeno_def val_def)
  have l: "val ?h mod poly_p = poly_acc (le_nat (take 16 key) AND 0x0ffffffc0ffffffc0ffffffc0fffffff) msg 0" "pequeno ?h"
    using poly_loop_ok [OF r(2) p(1), of 0 msg] poly_acc_lt [of 0 "val (poly_r (poly_clamp (take 16 key)))" msg] p(2)
    by (simp_all add: r(1) c(1) poly_p_def)
  note v = poly_vai_final_ok [OF l(2)]
  note m = poly_menos_p_ok [OF v(2)]
  show ?thesis
    unfolding poly1305_mac_def poly1305_ref_def poly_tag_ok [OF m(2) k(2)] m(1) v(1) l(1) by (rule refl)
qed

text \<open>C26: Poly1305 in 26-bit limbs is Poly1305.  For every key and every message \<open>poly1305_mac\<close> returns the tag of the
  standard: the polynomial of the 16-byte blocks at the clamped key modulo \<open>2 ^ 130 - 5\<close>, plus the second half of the
  key modulo \<open>2 ^ 128\<close>, in little-endian order.  So no 32-bit sum, 64-bit product or carry of the code wraps.\<close>

theorem poly1305_mac_correto:
  assumes "length key = 32"
  shows "poly1305_mac key msg = poly1305_ref key msg"
  using assms by (rule poly1305_ok)

text \<open>The test vector of the standard.\<close>

theorem poly1305_mac_correto_witness:
  "poly1305_ref [0x85, 0xd6, 0xbe, 0x78, 0x57, 0x55, 0x6d, 0x33, 0x7f, 0x44, 0x52, 0xfe, 0x42, 0xd5, 0x06, 0xa8,
      0x01, 0x03, 0x80, 0x8a, 0xfb, 0x0d, 0xb2, 0xfd, 0x4a, 0xbf, 0xf6, 0xaf, 0x41, 0x49, 0xf5, 0x1b] (bytes ''Cryptographic Forum Research Group'') =
    [0xa8, 0x06, 0x1d, 0xc1, 0x30, 0x51, 0x36, 0xc6, 0xc2, 0x2b, 0x8b, 0xaf, 0x0c, 0x01, 0x27, 0xa9]"
proof -
  have "poly1305_mac [0x85, 0xd6, 0xbe, 0x78, 0x57, 0x55, 0x6d, 0x33, 0x7f, 0x44, 0x52, 0xfe, 0x42, 0xd5, 0x06, 0xa8,
      0x01, 0x03, 0x80, 0x8a, 0xfb, 0x0d, 0xb2, 0xfd, 0x4a, 0xbf, 0xf6, 0xaf, 0x41, 0x49, 0xf5, 0x1b] (bytes ''Cryptographic Forum Research Group'') =
    [0xa8, 0x06, 0x1d, 0xc1, 0x30, 0x51, 0x36, 0xc6, 0xc2, 0x2b, 0x8b, 0xaf, 0x0c, 0x01, 0x27, 0xa9]"
    by code_simp
  then show ?thesis by (subst poly1305_mac_correto [symmetric]) simp_all
qed

end
