(* ===== verification/Tls.thy ===== *)
theory Tls
  imports Rede Sha256 Poly1305
begin

text \<open>
  ChaCha20, the authenticated encryption ChaCha20-Poly1305 and the records of SpaceTLS over TCP
  (\<^verbatim>\<open>kernel/net/tls.c\<close>).  The lengths that end the authenticated text are written with shifts of a 32-bit value by
  32 and more, which C does not define: \<open>desl x n\<close> is what the compiled code gives for \<open>x >> n\<close>, an argument of the
  definitions; no theorem depends on it.  \<open>lixo\<close> is the stack where a SHA-256 context is declared.
\<close>

section \<open>ChaCha20\<close>

definition ROTL32 :: "u32 \<Rightarrow> nat \<Rightarrow> u32" where "ROTL32 v n = push_bit n v OR drop_bit (32 - n) v"

definition QR :: "nat \<Rightarrow> nat \<Rightarrow> nat \<Rightarrow> nat \<Rightarrow> u32 list \<Rightarrow> u32 list" where
  "QR a b c d x =
     (let x = x[a := x ! a + x ! b]; x = x[d := x ! d XOR x ! a]; x = x[d := ROTL32 (x ! d) 16];
          x = x[c := x ! c + x ! d]; x = x[b := x ! b XOR x ! c]; x = x[b := ROTL32 (x ! b) 12];
          x = x[a := x ! a + x ! b]; x = x[d := x ! d XOR x ! a]; x = x[d := ROTL32 (x ! d) 8];
          x = x[c := x ! c + x ! d]; x = x[b := x ! b XOR x ! c]; x = x[b := ROTL32 (x ! b) 7]
      in x)"

definition chacha_dupla :: "u32 list \<Rightarrow> u32 list" where
  "chacha_dupla x =
     (let x = QR 0 4 8 12 x; x = QR 1 5 9 13 x; x = QR 2 6 10 14 x; x = QR 3 7 11 15 x;
          x = QR 0 5 10 15 x; x = QR 1 6 11 12 x; x = QR 2 7 8 13 x; x = QR 3 4 9 14 x in x)"

definition chacha20_block :: "u32 list \<Rightarrow> u32 list" where
  "chacha20_block inp = map2 (+) ((chacha_dupla ^^ 10) inp) inp"

definition chacha_estado :: "u8 list \<Rightarrow> u8 list \<Rightarrow> u32 \<Rightarrow> u32 list" where
  "chacha_estado key nonce counter =
     map (\<lambda>i. rd32 (bytes ''expand 32-byte k'') (4 * i)) [0..<4] @ map (\<lambda>i. rd32 key (4 * i)) [0..<8] @ [counter] @ map (\<lambda>i. rd32 nonce (4 * i)) [0..<3]"

function chacha_loop :: "u32 list \<Rightarrow> u8 list \<Rightarrow> u8 list" where
  "chacha_loop st xs =
     (if xs = [] then []
      else map2 (XOR) (take 64 xs) (concat (map le32 (chacha20_block st))) @ chacha_loop (st[12 := st ! 12 + 1]) (drop 64 xs))"
  by pat_completeness auto
termination by (relation "measure (\<lambda>(st, xs). length xs)") auto

declare chacha_loop.simps [simp del]

definition chacha20_encrypt :: "u8 list \<Rightarrow> u8 list \<Rightarrow> u32 \<Rightarrow> u8 list \<Rightarrow> u8 list" where
  "chacha20_encrypt key nonce counter inp = chacha_loop (chacha_estado key nonce counter) inp"

section \<open>ChaCha20-Poly1305\<close>

definition enche16 :: "u8 list \<Rightarrow> u8 list" where
  "enche16 xs = xs @ replicate ((16 - length xs mod 16) mod 16) 0"

definition tam_bytes :: "(u32 \<Rightarrow> nat \<Rightarrow> u32) \<Rightarrow> nat \<Rightarrow> u8 list" where
  "tam_bytes desl n = map (\<lambda>i. ucast (desl (of_nat n) (i * 8))) [0..<8]"

definition mac_input :: "(u32 \<Rightarrow> nat \<Rightarrow> u32) \<Rightarrow> u8 list \<Rightarrow> u8 list \<Rightarrow> u8 list" where
  "mac_input desl aad cipher = enche16 (enche16 aad @ cipher) @ tam_bytes desl (length aad) @ tam_bytes desl (length cipher)"

definition chacha20poly1305_encrypt :: "(u32 \<Rightarrow> nat \<Rightarrow> u32) \<Rightarrow> u8 list \<Rightarrow> u8 list \<Rightarrow> u8 list \<Rightarrow> u8 list \<Rightarrow> u8 list \<times> u8 list" where
  "chacha20poly1305_encrypt desl key nonce aad plain =
     (let otk = chacha20_encrypt key nonce 0 (replicate 32 0); cipher = chacha20_encrypt key nonce 1 plain
      in (cipher, poly1305_mac otk (mac_input desl aad cipher)))"

text \<open>\<open>None\<close> is -1, and then nothing is written to the caller's buffer.\<close>

definition chacha20poly1305_decrypt :: "(u32 \<Rightarrow> nat \<Rightarrow> u32) \<Rightarrow> u8 list \<Rightarrow> u8 list \<Rightarrow> u8 list \<Rightarrow> u8 list \<Rightarrow> u8 list \<Rightarrow> u8 list option" where
  "chacha20poly1305_decrypt desl key nonce aad cipher tag =
     (let otk = chacha20_encrypt key nonce 0 (replicate 32 0);
          expected = poly1305_mac otk (mac_input desl aad cipher);
          diff = fold (\<lambda>i d. d OR (expected ! i XOR tag ! i)) [0..<16] 0
      in if diff \<noteq> (0 :: u8) then None else Some (chacha20_encrypt key nonce 1 cipher))"

section \<open>SpaceTLS\<close>

definition TLS_MAX_RECORD :: nat where "TLS_MAX_RECORD = 4096"
definition STLS_MAGIC :: u32 where "STLS_MAGIC = 0x534C5300"
definition STLS_VER :: u8 where "STLS_VER = 1"
definition STLS_MAX_SOCKS :: nat where "STLS_MAX_SOCKS = 4"

definition stls_hdr :: "u8 \<Rightarrow> u16 \<Rightarrow> u8 list" where
  "stls_hdr ty len = le32 STLS_MAGIC @ [STLS_VER, ty] @ le16 len"

record tls_sock =
  ts_tcp :: int
  send_key :: "u8 list"
  recv_key :: "u8 list"
  send_nonce :: "u8 list"
  recv_nonce :: "u8 list"
  send_seq :: u32
  recv_seq :: u32
  ts_ready :: bool

text \<open>\<open>tls_rpkt i\<close> is the byte at \<open>pkt + i\<close> of the receive buffer and of what lies after it.\<close>

record tls =
  t_net :: net
  tls_socks :: "nat \<Rightarrow> tls_sock"
  tls_rpkt :: "nat \<Rightarrow> u8"

definition com_rede :: "(net \<Rightarrow> ('r \<times> net) option) \<Rightarrow> tls \<Rightarrow> ('r \<times> tls) option" where
  "com_rede f t = map_option (\<lambda>(r, s). (r, t\<lparr>t_net := s\<rparr>)) (f (t_net t))"

definition tls_muda :: "nat \<Rightarrow> (tls_sock \<Rightarrow> tls_sock) \<Rightarrow> tls \<Rightarrow> tls" where
  "tls_muda k f t = t\<lparr>tls_socks := (tls_socks t)(k := f (tls_socks t k))\<rparr>"

definition nonce_inc :: "u8 list \<Rightarrow> u32 \<Rightarrow> u8 list" where
  "nonce_inc n seq =
     n[8 := n ! 8 XOR ucast seq, 9 := n ! 9 XOR ucast (drop_bit 8 seq), 10 := n ! 10 XOR ucast (drop_bit 16 seq), 11 := n ! 11 XOR ucast (drop_bit 24 seq)]"

definition tls_connect :: "sha256_ctx \<Rightarrow> (net \<Rightarrow> (int \<times> net) option) \<Rightarrow> int \<Rightarrow> u8 list \<Rightarrow> tls \<Rightarrow> (int \<times> tls) option" where
  "tls_connect lixo poll tcp_sock psk t =
     (case find (\<lambda>i. \<not> ts_ready (tls_socks t i)) [0..<STLS_MAX_SOCKS] of
        None \<Rightarrow> Some (- 1, t)
      | Some k \<Rightarrow>
          let m = hmac_sha256 lixo psk (bytes ''spacetls_nonce'');
              t = tls_muda k (\<lambda>_. \<lparr>ts_tcp = tcp_sock, send_key = hmac_sha256 lixo psk (bytes ''spacetls_send_key''),
                recv_key = hmac_sha256 lixo psk (bytes ''spacetls_recv_key''), send_nonce = slice m 0 12, recv_nonce = slice m 12 12,
                send_seq = 0, recv_seq = 0, ts_ready = False\<rparr>) t
          in do {
            (_, t) \<leftarrow> com_rede (tcp_send poll tcp_sock (stls_hdr 1 0) 8) t;
            ((n, resp), t) \<leftarrow> com_rede (\<lambda>s. map_option (\<lambda>(n, xs, s). ((n, xs), s)) (tcp_recv poll tcp_sock 8 2000 s)) t;
            Some (if n < 8 then (- 1, t)
              else if rd32 resp 0 \<noteq> STLS_MAGIC \<or> resp ! 4 \<noteq> STLS_VER then (- 1, t)
              else (int k, tls_muda k (\<lambda>q. q\<lparr>ts_ready := True\<rparr>) t)) })"

definition tls_valido :: "int \<Rightarrow> tls \<Rightarrow> bool" where
  "tls_valido sock t \<longleftrightarrow> \<not> (sock < 0 \<or> int STLS_MAX_SOCKS \<le> sock \<or> \<not> ts_ready (tls_socks t (nat sock)))"

text \<open>The record that \<open>tls_send\<close> hands to TCP, and the socket after it.\<close>

definition tls_pacote :: "(u32 \<Rightarrow> nat \<Rightarrow> u32) \<Rightarrow> u8 list \<Rightarrow> tls_sock \<Rightarrow> u8 list \<times> tls_sock" where
  "tls_pacote desl dados q =
     (let hdr = stls_hdr 2 (of_nat (length dados) + 16);
          (cipher, tag) = chacha20poly1305_encrypt desl (send_key q) (nonce_inc (send_nonce q) (send_seq q)) hdr dados
      in (hdr @ cipher @ tag, q\<lparr>send_seq := send_seq q + 1\<rparr>))"

definition tls_send :: "(u32 \<Rightarrow> nat \<Rightarrow> u32) \<Rightarrow> (net \<Rightarrow> (int \<times> net) option) \<Rightarrow> int \<Rightarrow> u8 list \<Rightarrow> tls \<Rightarrow> (int \<times> tls) option" where
  "tls_send desl poll sock dados t =
     (if \<not> tls_valido sock t then Some (- 1, t)
      else let (pkt, q) = tls_pacote desl dados (tls_socks t (nat sock)); t = tls_muda (nat sock) (\<lambda>_. q) t
        in com_rede (tcp_send poll (ts_tcp q) pkt (8 + of_nat (length dados) + 16)) t)"

text \<open>What \<open>tls_recv\<close> does with the buffer once TCP has filled it: the payload length is that of the header.\<close>

definition tls_abre :: "(u32 \<Rightarrow> nat \<Rightarrow> u32) \<Rightarrow> (nat \<Rightarrow> u8) \<Rightarrow> u16 \<Rightarrow> tls_sock \<Rightarrow> u8 list option \<times> tls_sock" where
  "tls_abre desl pkt max' q =
     (let hdr = map pkt [0..<8] in
      if rd32 hdr 0 \<noteq> STLS_MAGIC \<or> hdr ! 5 \<noteq> 2 then (None, q)
      else let plen = rd16 hdr 6 - 16; tag = map pkt [8 + unat plen..<8 + unat plen + 16];
               plen = (if max' < plen then max' else plen); cipher = map pkt [8..<8 + unat plen]
        in (chacha20poly1305_decrypt desl (recv_key q) (nonce_inc (recv_nonce q) (recv_seq q)) hdr cipher tag, q\<lparr>recv_seq := recv_seq q + 1\<rparr>))"

definition tls_recv :: "(u32 \<Rightarrow> nat \<Rightarrow> u32) \<Rightarrow> (net \<Rightarrow> (int \<times> net) option) \<Rightarrow> int \<Rightarrow> u16 \<Rightarrow> u32 \<Rightarrow> tls \<Rightarrow> (u8 list option \<times> tls) option" where
  "tls_recv desl poll sock max' timeout_ms t =
     (if \<not> tls_valido sock t then Some (None, t)
      else do {
        ((n, xs), t) \<leftarrow> com_rede (\<lambda>s. map_option (\<lambda>(n, xs, s). ((n, xs), s))
          (tcp_recv poll (ts_tcp (tls_socks t (nat sock))) (of_nat (TLS_MAX_RECORD + 24)) timeout_ms s)) t;
        let t = t\<lparr>tls_rpkt := \<lambda>i. if i < length xs then xs ! i else tls_rpkt t i\<rparr>;
        if n < 8 then Some (None, t)
        else let (r, q) = tls_abre desl (tls_rpkt t) max' (tls_socks t (nat sock)) in Some (r, tls_muda (nat sock) (\<lambda>_. q) t) })"

definition tls_close :: "(net \<Rightarrow> (int \<times> net) option) \<Rightarrow> int \<Rightarrow> tls \<Rightarrow> tls option" where
  "tls_close poll sock t =
     (if sock < 0 \<or> int STLS_MAX_SOCKS \<le> sock then Some t
      else do {
        (_, t) \<leftarrow> com_rede (\<lambda>s. map_option (Pair ()) (tcp_close poll (ts_tcp (tls_socks t (nat sock))) s)) t;
        Some (tls_muda (nat sock) (\<lambda>q. q\<lparr>ts_ready := False\<rparr>) t) })"

definition tls_ready :: "int \<Rightarrow> tls \<Rightarrow> bool" where "tls_ready sock t = tls_valido sock t"

section \<open>The stream cipher\<close>

lemma length_QR [simp]: "length (QR a b c d x) = length x" by (simp add: QR_def Let_def)

lemma length_chacha20_block: "length st = 16 \<Longrightarrow> length (chacha20_block st) = 16"
proof -
  assume l: "length st = 16"
  have "length ((chacha_dupla ^^ n) x) = length x" for n x by (induction n) (simp_all add: chacha_dupla_def Let_def)
  then show ?thesis using l by (simp add: chacha20_block_def)
qed

lemma length_ks: "length st = 16 \<Longrightarrow> length (concat (map le32 (chacha20_block st))) = 64"
  by (simp add: length_concat o_def length_chacha20_block sum_list_triv)

lemma length_chacha_loop: "length st = 16 \<Longrightarrow> length (chacha_loop st xs) = length xs"
proof (induction st xs rule: chacha_loop.induct)
  case (1 st xs)
  then show ?case by (subst chacha_loop.simps) (auto simp: length_ks min_def)
qed

lemma xor_duas: "length ks = length xs \<Longrightarrow> map2 (XOR) (map2 (XOR) xs ks) ks = xs" for xs ks :: "u8 list"
  by (induction ks xs rule: list_induct2) (simp_all add: xor.assoc)

lemma map2_take: "map2 f xs ys = map2 f xs (take (length xs) ys)"
proof (induction xs arbitrary: ys)
  case (Cons x xs)
  from Cons.IH [of "tl ys"] show ?case by (cases ys) simp_all
qed simp

lemma chacha_loop_Nil [simp]: "chacha_loop st [] = []" by (simp add: chacha_loop.simps)

lemma chacha_loop_duas: "length st = 16 \<Longrightarrow> chacha_loop st (chacha_loop st xs) = xs"
proof (induction st xs rule: chacha_loop.induct)
  case (1 st xs)
  let ?ks = "concat (map le32 (chacha20_block st))" and ?st = "st[12 := st ! 12 + 1]"
  let ?a = "map2 (XOR) (take 64 xs) ?ks"
  show ?case
  proof (cases "xs = []")
    case True
    then show ?thesis by (simp add: chacha_loop.simps)
  next
    case False
    have c: "chacha_loop st xs = ?a @ chacha_loop ?st (drop 64 xs)" using False by (subst chacha_loop.simps) simp
    have la: "length ?a = min 64 (length xs)" using length_ks [OF "1.prems"] by simp
    have r: "length (chacha_loop ?st (drop 64 xs)) = length xs - 64" using "1.prems" by (simp add: length_chacha_loop)
    have t: "take 64 (chacha_loop st xs) = ?a" "drop 64 (chacha_loop st xs) = chacha_loop ?st (drop 64 xs)"
      unfolding c using la r by (simp_all add: min_def)
    have "chacha_loop st xs \<noteq> []" using False length_chacha_loop [OF "1.prems", of xs] by auto
    then have "chacha_loop st (chacha_loop st xs) = map2 (XOR) ?a ?ks @ chacha_loop ?st (chacha_loop ?st (drop 64 xs))"
      by (subst chacha_loop.simps) (simp only: t if_False)
    also have "map2 (XOR) ?a ?ks = take 64 xs"
    proof -
      let ?k = "take (length (take 64 xs)) ?ks"
      have lk: "length ?k = length (take 64 xs)" using length_ks [OF "1.prems"] by simp
      have "map2 (XOR) ?a ?ks = map2 (XOR) ?a (take (length ?a) ?ks)" by (rule map2_take)
      also have "length ?a = length (take 64 xs)" using la by simp
      also have a: "?a = map2 (XOR) (take 64 xs) ?k" by (rule map2_take)
      also have "map2 (XOR) (map2 (XOR) (take 64 xs) ?k) ?k = take 64 xs" by (rule xor_duas [OF lk])
      finally show ?thesis by (simp only: a [symmetric])
    qed
    also have "chacha_loop ?st (chacha_loop ?st (drop 64 xs)) = drop 64 xs" using False "1.prems" by (intro "1.IH") simp_all
    finally show ?thesis by simp
  qed
qed

lemma length_estado [simp]: "length (chacha_estado k n c) = 16" by (simp add: chacha_estado_def)

lemma chacha20_duas: "chacha20_encrypt k n c (chacha20_encrypt k n c xs) = xs" "length (chacha20_encrypt k n c xs) = length xs"
  by (simp_all add: chacha20_encrypt_def chacha_loop_duas length_chacha_loop)

section \<open>Authentication\<close>

lemma diff_zero: "fold (\<lambda>i d. d OR (x i XOR y i)) is (0 :: u8) = 0 \<longleftrightarrow> (\<forall>i \<in> set is. x i = y i)"
proof -
  have "fold (\<lambda>i d. d OR (x i XOR y i)) is d = 0 \<longleftrightarrow> d = 0 \<and> (\<forall>i \<in> set is. x i = y i)" for d :: u8
  proof (induction "is" arbitrary: d)
    case (Cons j js)
    have "d OR (x j XOR y j) = 0 \<longleftrightarrow> d = 0 \<and> x j = y j"
      by (metis or_eq_0_iff xor_self_eq xor.right_neutral xor.left_commute or.right_neutral)
    then show ?case using Cons.IH by auto
  qed simp
  then show ?thesis by simp
qed

lemma length_nat_le [simp]: "length (nat_le k n) = k" by (induction k arbitrary: n) simp_all

lemma length_mac: "length k = 32 \<Longrightarrow> length (poly1305_mac k m) = 16"
  by (simp add: poly1305_mac_def poly_tag_def Let_def bytes_f_def split: prod.splits)

lemma decrypt_ok:
  assumes "length tag = 16"
  shows "chacha20poly1305_decrypt desl key nonce aad cipher tag =
    (if tag = poly1305_mac (chacha20_encrypt key nonce 0 (replicate 32 0)) (mac_input desl aad cipher) then Some (chacha20_encrypt key nonce 1 cipher) else None)"
proof -
  let ?e = "poly1305_mac (chacha20_encrypt key nonce 0 (replicate 32 0)) (mac_input desl aad cipher)"
  have "length ?e = 16" by (rule length_mac) (simp add: chacha20_duas)
  then have "(\<forall>i \<in> set [0..<16]. ?e ! i = tag ! i) \<longleftrightarrow> tag = ?e" using assms by (auto intro!: nth_equalityI)
  then show ?thesis using diff_zero [of "\<lambda>i. ?e ! i" "\<lambda>i. tag ! i" "[0..<16]"] by (simp add: chacha20poly1305_decrypt_def Let_def)
qed

lemma chacha_sela:
  assumes "chacha20poly1305_encrypt desl key nonce aad plain = (cipher, tag)"
  shows "chacha20poly1305_decrypt desl key nonce aad cipher tag = Some plain" "length cipher = length plain" "length tag = 16"
proof -
  let ?otk = "chacha20_encrypt key nonce 0 (replicate 32 0)"
  have c: "cipher = chacha20_encrypt key nonce 1 plain" "tag = poly1305_mac ?otk (mac_input desl aad cipher)"
    using assms by (auto simp: chacha20poly1305_encrypt_def Let_def)
  show l: "length tag = 16" unfolding c(2) by (rule length_mac) (simp add: chacha20_duas)
  show "chacha20poly1305_decrypt desl key nonce aad cipher tag = Some plain" "length cipher = length plain"
    using decrypt_ok [OF l] c by (simp_all add: chacha20_duas)
qed



text \<open>A socket, and the other end of its channel.\<close>

definition tls_exemplo :: tls_sock where
  "tls_exemplo = \<lparr>ts_tcp = 0, send_key = replicate 32 7, recv_key = replicate 32 7, send_nonce = replicate 12 1, recv_nonce = replicate 12 1,
     send_seq = 5, recv_seq = 5, ts_ready = True\<rparr>"

definition desl0 :: "u32 \<Rightarrow> nat \<Rightarrow> u32" where "desl0 x n = (if n < 32 then drop_bit n x else 0)"



end
