(* ===== verification/Pkg.thy ===== *)
theory Pkg
  imports Vfs Kheap
begin

text \<open>
  The package manager (\<^verbatim>\<open>kernel/pkg/pkg_checksum.c\<close>, \<^verbatim>\<open>pkg_db.c\<close>, \<^verbatim>\<open>pkg_solver.c\<close>, \<^verbatim>\<open>pkg_install.c\<close>) over the VFS and the
  kernel heap.  The text of the data base is a buffer; the scanning loops are functions on what follows a pointer.
  The messages on the screen are left out; \<open>pkg_list\<close> and \<open>pkg_info\<close> return what they print.

  What the code reads without having written it comes from \<open>p_lixo\<close>: the n-th array the code leaves uninitialised
  (a path or a line on the stack, the block of a package in the heap) starts with the bytes \<open>p_lixo s n\<close>, which go on
  past the array's end with the memory that follows it.
\<close>

section \<open>Checksum\<close>

definition pkg_checksum :: "u8 list \<Rightarrow> u32" where
  "pkg_checksum data = fold (\<lambda>x h. (push_bit 5 h + h) + ucast x) data 5381"

text \<open>A step of the hash is a bijection: 33 has an inverse modulo \<open>2 ^ 32\<close>.\<close>

lemma passo_hash: "push_bit 5 h + h = 33 * (h :: u32)" "33 * g = 33 * (h :: u32) \<longleftrightarrow> g = h"
proof -
  show "push_bit 5 h + h = 33 * h" by (simp add: push_bit_eq_mult)
  have "1041204193 * (33 * x) = x" for x :: u32
  proof -
    have "(1041204193 * 33 :: u32) = 1" by simp
    then show ?thesis unfolding mult.assoc [symmetric] by (simp only: mult_1)
  qed
  then show "33 * g = 33 * h \<longleftrightarrow> g = h" by metis
qed

lemma fold_hash_inj: "fold (\<lambda>x h. (push_bit 5 h + h) + ucast x) xs g = fold (\<lambda>x h. (push_bit 5 h + h) + ucast x) xs h \<longleftrightarrow> g = (h :: u32)"
  by (induction xs arbitrary: g h) (simp_all add: passo_hash)

lemma pkg_checksum_troca: "i < length xs \<Longrightarrow> pkg_checksum (xs[i := y]) = pkg_checksum xs \<longleftrightarrow> y = xs ! i"
proof -
  assume i: "i < length xs"
  have u: "ucast (a :: u8) = (ucast b :: u32) \<longleftrightarrow> a = b" for a b
    by (simp add: unat_eq_iff [symmetric])
  show ?thesis unfolding pkg_checksum_def upd_conv_take_nth_drop [OF i]
    by (subst (3) id_take_nth_drop [OF i]) (simp add: fold_hash_inj u)
qed

section \<open>State\<close>

definition PKG_DB_PATH :: "u8 list" where "PKG_DB_PATH = bytes ''/pkg/db''"
definition PKG_DB_MAX :: nat where "PKG_DB_MAX = 2048"

record pkg =
  p_vfs :: vfs
  p_heap :: kheap
  db_buf :: "u8 list"
  lst_buf :: "u8 list"
  novo_buf :: "u8 list"
  hdr_buf :: "u8 list"
  p_lixo :: "nat \<Rightarrow> u8 list"

definition lixo :: "pkg \<Rightarrow> u8 list \<times> pkg" where
  "lixo s = (p_lixo s 0, s\<lparr>p_lixo := \<lambda>n. p_lixo s (Suc n)\<rparr>)"

definition com_vfs :: "(vfs \<Rightarrow> ('r \<times> vfs) option) \<Rightarrow> pkg \<Rightarrow> ('r \<times> pkg) option" where
  "com_vfs f s = map_option (\<lambda>(r, v). (r, s\<lparr>p_vfs := v\<rparr>)) (f (p_vfs s))"

definition entrada0 :: "u8 list" where "entrada0 = replicate 13 0"

section \<open>Scanning the data base\<close>

definition nl :: u8 where "nl = 10"

fun extrair_token :: "u8 list \<Rightarrow> nat \<Rightarrow> u8 list \<times> u8 list" where
  "extrair_token p 0 = ([], p)"
| "extrair_token p (Suc k) =
     (if char_at p 0 \<noteq> 0 \<and> char_at p 0 \<noteq> espaco \<and> char_at p 0 \<noteq> nl \<and> char_at p 0 \<noteq> 13 then
        let (t, r) = extrair_token (tl p) k in (char_at p 0 # t, r)
      else ([], p))"

definition prox_linha :: "u8 list \<Rightarrow> u8 list" where
  "prox_linha q = (let q = dropWhile (\<lambda>c. c \<noteq> 0 \<and> c \<noteq> nl) q in if char_at q 0 = nl then tl q else q)"

lemma extrair_token_drop: "\<exists>n. snd (extrair_token p k) = drop n p"
proof (induction p k rule: extrair_token.induct)
  case (2 p k)
  show ?case
  proof (cases "char_at p 0 \<noteq> 0 \<and> char_at p 0 \<noteq> espaco \<and> char_at p 0 \<noteq> nl \<and> char_at p 0 \<noteq> 13")
    case True
    then obtain n where "snd (extrair_token (tl p) k) = drop n (tl p)" using 2 by blast
    then show ?thesis using True by (intro exI [of _ "Suc n"]) (simp add: split_beta drop_Suc)
  qed (auto intro: exI [of _ 0])
qed (auto intro: exI [of _ 0])

lemma prox_linha_menor: "char_at p 0 \<noteq> 0 \<Longrightarrow> length (prox_linha p) < length p"
proof -
  assume h: "char_at p 0 \<noteq> 0"
  then obtain x xs where p: "p = x # xs" "x \<noteq> 0" by (cases p) (auto simp: char_at_def)
  show ?thesis
  proof (cases "x = nl")
    case False
    then show ?thesis using p length_dropWhile_le [of "\<lambda>c. c \<noteq> 0 \<and> c \<noteq> nl" xs] by (auto simp: prox_linha_def Let_def)
  qed (use p in \<open>simp add: prox_linha_def char_at_def nl_def\<close>)
qed

lemma prox_drop_menor: "char_at p 0 \<noteq> 0 \<Longrightarrow> length (prox_linha (drop n p)) < length p"
proof (cases "n = 0")
  case False
  assume "char_at p 0 \<noteq> 0"
  then have "length (drop n p) < length p" using False by (cases p) (auto simp: char_at_def)
  moreover have "length (prox_linha q) \<le> length q" for q
    using length_dropWhile_le [of "\<lambda>c. c \<noteq> 0 \<and> c \<noteq> nl" q] by (auto simp: prox_linha_def Let_def)
  ultimately show ?thesis using le_less_trans by blast
qed (simp add: prox_linha_menor)

lemma prox_token_menor: "char_at p 0 \<noteq> 0 \<Longrightarrow> length (prox_linha (snd (extrair_token p k))) < length p"
  using extrair_token_drop [of p k] prox_drop_menor by metis

function db_busca :: "u8 list \<Rightarrow> u8 list \<Rightarrow> bool" where
  "db_busca p name =
     (if char_at p 0 = 0 then False
      else if k_strcmp (fst (extrair_token p 32)) name = 0 then True
      else db_busca (prox_linha (snd (extrair_token p 32))) name)"
  by pat_completeness auto
termination by (relation "measure (\<lambda>(p, name). length p)") (auto simp: prox_token_menor)

text \<open>One line: name, version, and where the next line starts.\<close>

definition linha_db :: "u8 list \<Rightarrow> u8 list \<times> u8 list \<times> u8 list" where
  "linha_db p =
     (let (nome, q) = extrair_token p 32; q = dropWhile (\<lambda>c. c = espaco) q; (versao, q) = extrair_token q 16
      in (nome, versao, prox_linha q))"

lemma linha_db_menor: "char_at p 0 \<noteq> 0 \<Longrightarrow> length (snd (snd (linha_db p))) < length p"
proof -
  assume h: "char_at p 0 \<noteq> 0"
  obtain n where n: "snd (extrair_token p 32) = drop n p" using extrair_token_drop by blast
  define d where "d = dropWhile (\<lambda>c. c = espaco) (drop n p)"
  have "d = drop (length (takeWhile (\<lambda>c. c = espaco) (drop n p)) + n) p" by (simp add: d_def dropWhile_eq_drop)
  moreover obtain k where "snd (extrair_token d 16) = drop k d" using extrair_token_drop by blast
  ultimately have "snd (snd (linha_db p)) = prox_linha (drop (k + (length (takeWhile (\<lambda>c. c = espaco) (drop n p)) + n)) p)"
    by (simp add: linha_db_def split_beta Let_def n d_def [symmetric])
  then show ?thesis using prox_drop_menor [OF h] by simp
qed

function db_linhas :: "u8 list \<Rightarrow> (u8 list \<times> u8 list) list" where
  "db_linhas p =
     (if char_at p 0 = 0 then []
      else (fst (linha_db p), fst (snd (linha_db p))) # db_linhas (snd (snd (linha_db p))))"
  by pat_completeness auto
termination by (relation "measure length") (auto simp: linha_db_menor)

text \<open>The lines whose name is not \<open>name\<close>: what \<open>pkg_db_remove\<close> copies to the new buffer.\<close>

function db_sem :: "u8 list \<Rightarrow> u8 list \<Rightarrow> u8 list" where
  "db_sem p name =
     (if char_at p 0 = 0 then []
      else let resto = prox_linha p; linha = take (length p - length resto) p in
        (if k_strcmp (fst (extrair_token p 32)) name \<noteq> 0 then linha else []) @ db_sem resto name)"
  by pat_completeness auto
termination by (relation "measure (\<lambda>(p, name). length p)") (auto simp: prox_linha_menor)

text \<open>The lines of a list of files, at most \<open>k\<close> of them, each cut at 63 bytes; empty ones are skipped.\<close>

function lst_linhas :: "u8 list \<Rightarrow> nat \<Rightarrow> u8 list list" where
  "lst_linhas p k =
     (if char_at p 0 = 0 \<or> k = 0 then []
      else let l = takeWhile (\<lambda>c. c \<noteq> 0 \<and> c \<noteq> nl) (take 63 p); r = drop (length l) p;
               r = (if char_at r 0 = nl then tl r else r)
        in if l = [] then lst_linhas r k else l # lst_linhas r (k - 1))"
  by pat_completeness auto
termination
proof (relation "measure (\<lambda>(p, k). length p)")
  fix p k x xa xb
  assume h: "\<not> (char_at p 0 = 0 \<or> k = (0 :: nat))" "x = takeWhile (\<lambda>c. c \<noteq> 0 \<and> c \<noteq> nl) (take 63 p)" "xa = drop (length x) p"
    "xb = (if char_at xa 0 = nl then tl xa else xa)"
  obtain c cs where p: "p = c # cs" "c \<noteq> 0" using h(1) by (cases p) (auto simp: char_at_def)
  have n: "x \<noteq> [] \<or> c = nl" using h(2) p by (auto simp: take_Cons')
  then show "((xb, k), p, k) \<in> measure (\<lambda>(p, k). length p)" if "x = []" using that h(3,4) p by (simp add: char_at_def)
  show "((xb, k - 1), p, k) \<in> measure (\<lambda>(p, k). length p)" if "x \<noteq> []" using that h(3,4) p by (cases x) auto
qed simp

declare db_busca.simps [simp del] db_linhas.simps [simp del] db_sem.simps [simp del] lst_linhas.simps [simp del]

section \<open>The data base\<close>

definition db_ler :: "pkg \<Rightarrow> (nat \<times> pkg) option" where
  "db_ler s =
     do {
       (e, s) \<leftarrow> com_vfs (vfs_open PKG_DB_PATH entrada0) s;
       if e = None then Some (0, s)
       else do {
         ((r, b), s) \<leftarrow> com_vfs (vfs_read PKG_DB_PATH (db_buf s) (of_nat (PKG_DB_MAX - 1))) s;
         let n = (case r of None \<Rightarrow> 0 | Some n \<Rightarrow> unat n);
         Some (n, s\<lparr>db_buf := b[n := 0]\<rparr>) } }"

definition pkg_is_installed :: "u8 list \<Rightarrow> pkg \<Rightarrow> (bool \<times> pkg) option" where
  "pkg_is_installed name s =
     do { (n, s) \<leftarrow> db_ler s; Some (n \<noteq> 0 \<and> db_busca (db_buf s) name, s) }"

definition pkg_list :: "pkg \<Rightarrow> ((u8 list \<times> u8 list) list \<times> pkg) option" where
  "pkg_list s = do { (n, s) \<leftarrow> db_ler s; Some (if n = 0 then [] else db_linhas (db_buf s), s) }"

text \<open>The path of a file that belongs to a package: the prefix, at most 8 bytes of the name, the suffix after the first
  zero byte, whatever was in the array.\<close>

definition caminho :: "u8 list \<Rightarrow> u8 list \<Rightarrow> u8 list \<Rightarrow> u8 list \<Rightarrow> u8 list" where
  "caminho b pre name suf =
     (let b = splice b 0 (strn pre (length pre + 1)); b = splice b (length pre) (strn name 8)
      in splice b (k_strlen b) (strn suf 5))"

definition lst_path :: "u8 list \<Rightarrow> pkg \<Rightarrow> u8 list \<times> pkg" where
  "lst_path name s = (let (b, s) = lixo s in (caminho b (bytes ''/pkg/'') name (bytes ''.lst''), s))"

definition pkg_files_load :: "u8 list \<Rightarrow> nat \<Rightarrow> pkg \<Rightarrow> (u8 list list \<times> pkg) option" where
  "pkg_files_load name max' s =
     (let (path, s) = lst_path name s in do {
        ((r, b), s) \<leftarrow> com_vfs (vfs_read path (lst_buf s) 1023) s;
        let n = (case r of None \<Rightarrow> 0 | Some n \<Rightarrow> unat n);
        if n = 0 then Some ([], s\<lparr>lst_buf := b\<rparr>)
        else let b = b[n := 0] in Some (lst_linhas b max', s\<lparr>lst_buf := b\<rparr>) })"

text \<open>The lines up to the first that does not fit the buffer of 1024 bytes.\<close>

fun lst_monta :: "u8 list list \<Rightarrow> nat \<Rightarrow> u8 list \<Rightarrow> nat \<times> u8 list" where
  "lst_monta [] pos b = (pos, b)"
| "lst_monta (p # ps) pos b =
     (let plen = k_strlen p in
      if pos + plen + 1 \<ge> 1023 then (pos, b)
      else lst_monta ps (pos + plen + 1) ((splice b pos (take plen p))[pos + plen := nl]))"

definition pkg_files_save :: "u8 list \<Rightarrow> u8 list list \<Rightarrow> pkg \<Rightarrow> (u32 option \<times> pkg) option" where
  "pkg_files_save name paths s =
     (let (path, s) = lst_path name s; (pos, b) = lst_monta paths 0 (lst_buf s); s = s\<lparr>lst_buf := b[pos := 0]\<rparr>
      in com_vfs (vfs_write path (lst_buf s) (of_nat pos)) s)"

definition pkg_info :: "u8 list \<Rightarrow> pkg \<Rightarrow> ((u8 list \<times> u8 list \<times> u8 list list) option \<times> pkg) option" where
  "pkg_info name s =
     do {
       (n, s) \<leftarrow> db_ler s;
       if n = 0 then Some (None, s)
       else case find (\<lambda>(nome, _). k_strcmp nome name = 0) (db_linhas (db_buf s)) of
         None \<Rightarrow> Some (None, s)
       | Some (nome, versao) \<Rightarrow> do { (paths, s) \<leftarrow> pkg_files_load name 8 s; Some (Some (nome, versao, paths), s) } }"

definition linha_nova :: "u8 list \<Rightarrow> u8 list \<Rightarrow> u8 list \<Rightarrow> u8 list" where
  "linha_nova b name version =
     (let b = splice b 0 (strn name 32); pos = k_strlen b;
          b = splice (b[pos := espaco]) (pos + 1) (strn version 16); pos = pos + 1; pos = pos + k_strlen (drop pos b)
      in b[pos := nl, pos + 1 := 0])"

definition pkg_db_add :: "u8 list \<Rightarrow> u8 list \<Rightarrow> pkg \<Rightarrow> (u32 option \<times> pkg) option" where
  "pkg_db_add name version s =
     do {
       (n, s) \<leftarrow> db_ler s;
       let (b, s) = lixo s; linha = linha_nova b name version; len = k_strlen linha in
       if n + len \<ge> PKG_DB_MAX then Some (None, s)
       else let s = s\<lparr>db_buf := splice (db_buf s) n (take (len + 1) linha)\<rparr> in
         com_vfs (vfs_write PKG_DB_PATH (db_buf s) (of_nat (n + len))) s }"

definition pkg_db_remove :: "u8 list \<Rightarrow> pkg \<Rightarrow> (u32 option \<times> pkg) option" where
  "pkg_db_remove name s =
     do {
       (n, s) \<leftarrow> db_ler s;
       if n = 0 then Some (None, s)
       else let novo = db_sem (db_buf s) name; s = s\<lparr>novo_buf := (splice (novo_buf s) 0 novo)[length novo := 0]\<rparr> in
         if novo = [] then do { (_, s) \<leftarrow> com_vfs (vfs_unlink PKG_DB_PATH) s; Some (Some 0, s) }
         else com_vfs (vfs_write PKG_DB_PATH (novo_buf s) (of_nat (length novo))) s }"

section \<open>The format of a package\<close>

definition SPK_MAGIC :: u32 where "SPK_MAGIC = 0x53504B21"
definition SPK_VERSION :: u32 where "SPK_VERSION = 1"
definition SPK_MAX_DEPS :: nat where "SPK_MAX_DEPS = 8"
definition SPK_MAX_FILES :: u32 where "SPK_MAX_FILES = 8"
definition SPK_MAX_SIZE :: u32 where "SPK_MAX_SIZE = 64 * 1024"

definition hdr_tam :: nat where "hdr_tam = 392"
definition spk_magic :: "u8 list \<Rightarrow> u32" where "spk_magic h = rd32 h 0"
definition spk_version :: "u8 list \<Rightarrow> u32" where "spk_version h = rd32 h 4"
definition spk_name :: "u8 list \<Rightarrow> u8 list" where "spk_name h = drop 8 h"
definition spk_pkg_version :: "u8 list \<Rightarrow> u8 list" where "spk_pkg_version h = drop 40 h"
definition spk_num_deps :: "u8 list \<Rightarrow> u32" where "spk_num_deps h = rd32 h 88"
definition spk_dep :: "u8 list \<Rightarrow> nat \<Rightarrow> u8 list" where "spk_dep h i = drop (92 + 32 * i) h"
definition spk_num_files :: "u8 list \<Rightarrow> u32" where "spk_num_files h = rd32 h 348"
definition spk_payload :: "u8 list \<Rightarrow> u32" where "spk_payload h = rd32 h 352"
definition spk_checksum :: "u8 list \<Rightarrow> u32" where "spk_checksum h = rd32 h 356"

definition reg_tam :: nat where "reg_tam = 73"
definition reg_ini :: "nat \<Rightarrow> nat" where "reg_ini i = hdr_tam + reg_tam * i"
definition reg_path :: "u8 list \<Rightarrow> nat \<Rightarrow> u8 list" where "reg_path h i = drop (reg_ini i) h"
definition reg_size :: "u8 list \<Rightarrow> nat \<Rightarrow> u32" where "reg_size h i = rd32 h (reg_ini i + 64)"
definition reg_offset :: "u8 list \<Rightarrow> nat \<Rightarrow> u32" where "reg_offset h i = rd32 h (reg_ini i + 68)"

section \<open>The order of installation\<close>

definition ler_header :: "u8 list \<Rightarrow> pkg \<Rightarrow> (u8 list option \<times> pkg) option" where
  "ler_header spk_path s =
     do {
       ((r, b), s) \<leftarrow> com_vfs (vfs_read spk_path (hdr_buf s) (of_nat hdr_tam)) s;
       let s = s\<lparr>hdr_buf := b\<rparr>;
       let (hdr, s) = lixo s; hdr = splice hdr 0 (take hdr_tam (hdr_buf s)) in
       Some (if (case r of None \<Rightarrow> True | Some n \<Rightarrow> unat n < hdr_tam) then (None, s)
         else if spk_magic hdr \<noteq> SPK_MAGIC then (None, s) else (Some hdr, s)) }"

text \<open>The order is an array of rows of 64 bytes; \<open>k_strncpy\<close> leaves a row of 64 or more characters without its zero.\<close>

definition linha64 :: "nat \<Rightarrow> u8 list \<Rightarrow> u8 list" where "linha64 i b = drop (64 * i) b"
definition poe64 :: "nat \<Rightarrow> u8 list \<Rightarrow> u8 list \<Rightarrow> u8 list" where "poe64 i p b = splice b (64 * i) (strn p 64)"

fun solve_laco :: "u8 list \<Rightarrow> nat list \<Rightarrow> nat \<Rightarrow> nat \<times> u8 list \<Rightarrow> pkg \<Rightarrow> ((nat \<times> u8 list) option \<times> pkg) option" where
  "solve_laco hdr [] max' (n, order) s = Some (Some (n, order), s)"
| "solve_laco hdr (i # is) max' (n, order) s =
     (let dep = spk_dep hdr i in
      if char_at dep 0 = 0 then solve_laco hdr is max' (n, order) s
      else do {
        (inst, s) \<leftarrow> pkg_is_installed dep s;
        if inst then solve_laco hdr is max' (n, order) s
        else let (b, s) = lixo s; dep_path = caminho b (bytes ''/pkg/incoming/'') dep (bytes ''.spk'') in do {
          (e, s) \<leftarrow> com_vfs (vfs_open dep_path entrada0) s;
          if e = None \<or> n \<ge> max' then Some (None, s)
          else solve_laco hdr is max' (n + 1, poe64 n dep_path order) s } })"

definition pkg_solve_deps :: "u8 list \<Rightarrow> u8 list \<Rightarrow> nat \<Rightarrow> pkg \<Rightarrow> ((nat \<times> u8 list) option \<times> pkg) option" where
  "pkg_solve_deps spk_path order max' s =
     do {
       (h, s) \<leftarrow> ler_header spk_path s;
       case h of
         None \<Rightarrow> Some (None, s)
       | Some hdr \<Rightarrow> do {
           (r, s) \<leftarrow> solve_laco hdr [0..<min (unat (spk_num_deps hdr)) SPK_MAX_DEPS] max' (0, order) s;
           Some (case r of
             None \<Rightarrow> (None, s)
           | Some (n, order) \<Rightarrow> if n \<ge> max' then (None, s) else (Some (n + 1, poe64 n spk_path order), s)) } }"

section \<open>Installing and removing\<close>

text \<open>The path cut at its last slash, when that is not the first character.\<close>

definition ensure_parent_dir :: "u8 list \<Rightarrow> pkg \<Rightarrow> pkg option" where
  "ensure_parent_dir path s =
     (let parent = strn path 64 @ [0] in
      case ult_barra parent (k_strlen parent) of
        Some (Suc i) \<Rightarrow> do { (_, s) \<leftarrow> com_vfs (vfs_mkdir (parent[Suc i := 0])) s; Some s }
      | _ \<Rightarrow> Some s)"

definition com_kfree :: "u32 \<Rightarrow> pkg \<Rightarrow> pkg option" where
  "com_kfree p s = map_option (\<lambda>h. s\<lparr>p_heap := h\<rparr>) (kfree p (p_heap s))"

text \<open>The files of the package \<open>m\<close> from the i-th on: \<open>Inl\<close> for the jump to \<open>rollback\<close>, with the files installed.\<close>

fun extrai :: "u8 list \<Rightarrow> u32 \<Rightarrow> nat list \<Rightarrow> nat \<times> u8 list \<Rightarrow> pkg \<Rightarrow> ((bool \<times> nat \<times> u8 list) \<times> pkg) option" where
  "extrai m pay [] (n, inst) s = Some ((True, n, inst), s)"
| "extrai m pay (i # is) (n, inst) s =
     (if spk_payload m < reg_offset m i + reg_size m i then Some ((False, n, inst), s)
      else do {
        s \<leftarrow> ensure_parent_dir (reg_path m i) s;
        (w, s) \<leftarrow> com_vfs (vfs_write (reg_path m i) (drop (unat (pay + reg_offset m i)) m) (reg_size m i)) s;
        if w = None then Some ((False, n, inst), s)
        else extrai m pay is (n + 1, poe64 n (reg_path m i) inst) s })"

fun remove_arquivos :: "u8 list list \<Rightarrow> pkg \<Rightarrow> pkg option" where
  "remove_arquivos [] s = Some s"
| "remove_arquivos (p # ps) s = do { (_, s) \<leftarrow> com_vfs (vfs_unlink p) s; remove_arquivos ps s }"

text \<open>The package in memory, from its checks to the end: the part of \<open>instalar_spk\<close> after the file is read.  \<open>m\<close> is the
  memory from the start of the block on.\<close>

definition spk_valido :: "u8 list \<Rightarrow> u32 \<Rightarrow> bool" where
  "spk_valido m lidos =
     (spk_magic m = SPK_MAGIC \<and> spk_version m = SPK_VERSION \<and> spk_num_files m \<noteq> 0 \<and> spk_num_files m \<le> SPK_MAX_FILES \<and>
      (let total = of_nat hdr_tam + spk_num_files m * of_nat reg_tam in
       total + spk_payload m \<le> lidos \<and>
       pkg_checksum (take (unat (spk_payload m)) (drop (unat total) m)) = spk_checksum m))"

definition spk_instala :: "u8 list \<Rightarrow> u32 \<Rightarrow> pkg \<Rightarrow> (int \<times> pkg) option" where
  "spk_instala m lidos s =
     (if \<not> spk_valido m lidos then Some (- 1, s)
      else do {
        (ja, s) \<leftarrow> pkg_is_installed (spk_name m) s;
        if ja then Some (- 1, s)
        else let (inst, s) = lixo s in do {
          ((ok, n, inst), s) \<leftarrow>
            extrai m (of_nat hdr_tam + spk_num_files m * of_nat reg_tam) [0..<unat (spk_num_files m)] (0, inst) s;
          let paths = map (\<lambda>i. linha64 i inst) [0..<n];
          (ok, s) \<leftarrow> (if \<not> ok then Some (False, s)
            else do {
              (r, s) \<leftarrow> pkg_files_save (spk_name m) paths s;
              if r = None then Some (False, s)
              else do { (r, s) \<leftarrow> pkg_db_add (spk_name m) (spk_pkg_version m) s; Some (r \<noteq> None, s) } });
          if ok then Some (0, s) else do { s \<leftarrow> remove_arquivos paths s; Some (- 1, s) } } })"

definition instalar_spk :: "u8 list \<Rightarrow> pkg \<Rightarrow> (int \<times> pkg) option" where
  "instalar_spk spk_path s =
     do {
       (e, s) \<leftarrow> com_vfs (vfs_open spk_path entrada0) s;
       case e of
         None \<Rightarrow> Some (- 1, s)
       | Some e \<Rightarrow>
           if SPK_MAX_SIZE < ve_size e \<or> ve_size e < of_nat hdr_tam then Some (- 1, s)
           else do {
             (buf, h) \<leftarrow> kmalloc (ve_size e + 1) (p_heap s);
             let s = s\<lparr>p_heap := h\<rparr>;
             if buf = 0 then Some (- 1, s)
             else let (m, s) = lixo s in do {
               ((r, m), s) \<leftarrow> com_vfs (vfs_read spk_path m (ve_size e)) s;
               (res, s) \<leftarrow> (case r of
                   None \<Rightarrow> Some (- 1, s)
                 | Some lidos \<Rightarrow> if lidos = 0 \<or> lidos < ve_size e then Some (- 1, s) else spk_instala m lidos s);
               s \<leftarrow> com_kfree buf s;
               Some (res, s) } } }"

definition garante_dir :: "u8 list \<Rightarrow> pkg \<Rightarrow> pkg option" where
  "garante_dir path s =
     do {
       (e, s) \<leftarrow> com_vfs (vfs_open path entrada0) s;
       if e = None then do { (_, s) \<leftarrow> com_vfs (vfs_mkdir path) s; Some s } else Some s }"

definition pkg_init :: "pkg \<Rightarrow> pkg option" where
  "pkg_init s =
     (if \<not> vfs_mounted (p_vfs s) then Some s
      else do {
        s \<leftarrow> garante_dir (bytes ''/pkg'') s;
        s \<leftarrow> garante_dir (bytes ''/pkg/incoming'') s;
        s \<leftarrow> garante_dir (bytes ''/usr'') s;
        garante_dir (bytes ''/usr/bin'') s })"

fun instala_ordem :: "u8 list list \<Rightarrow> pkg \<Rightarrow> (int \<times> pkg) option" where
  "instala_ordem [] s = Some (0, s)"
| "instala_ordem (p # ps) s = do { (r, s) \<leftarrow> instalar_spk p s; if r \<noteq> 0 then Some (- 1, s) else instala_ordem ps s }"

definition pkg_install :: "u8 list \<Rightarrow> pkg \<Rightarrow> (int \<times> pkg) option" where
  "pkg_install spk_path s =
     (if \<not> vfs_mounted (p_vfs s) then Some (- 1, s)
      else let (order, s) = lixo s in do {
        (r, s) \<leftarrow> pkg_solve_deps spk_path order 9 s;
        case r of
          None \<Rightarrow> Some (- 1, s)
        | Some (n, order) \<Rightarrow> instala_ordem (map (\<lambda>i. linha64 i order) [0..<n]) s })"

definition pkg_remove :: "u8 list \<Rightarrow> pkg \<Rightarrow> (int \<times> pkg) option" where
  "pkg_remove name s =
     (if \<not> vfs_mounted (p_vfs s) then Some (- 1, s)
      else do {
        (inst, s) \<leftarrow> pkg_is_installed name s;
        if \<not> inst then Some (- 1, s)
        else do {
          (paths, s) \<leftarrow> pkg_files_load name 8 s;
          s \<leftarrow> remove_arquivos paths s;
          let (path, s) = lst_path name s in do {
            (_, s) \<leftarrow> com_vfs (vfs_unlink path) s;
            (_, s) \<leftarrow> pkg_db_remove name s;
            Some (0, s) } } })"

section \<open>The text of the data base\<close>

definition sep_db :: "u8 \<Rightarrow> bool" where "sep_db c = (c = 0 \<or> c = espaco \<or> c = nl \<or> c = 13)"

definition palavra :: "nat \<Rightarrow> u8 list \<Rightarrow> bool" where "palavra k w = (length w \<le> k \<and> (\<forall>c \<in> set w. \<not> sep_db c))"

definition linha_texto :: "u8 list \<times> u8 list \<Rightarrow> u8 list" where "linha_texto e = fst e @ espaco # snd e @ [nl]"

definition db_texto :: "(u8 list \<times> u8 list) list \<Rightarrow> u8 list" where "db_texto L = concat (map linha_texto L)"

definition entrada_ok :: "u8 list \<times> u8 list \<Rightarrow> bool" where
  "entrada_ok e = (fst e \<noteq> [] \<and> palavra 32 (fst e) \<and> palavra 16 (snd e))"

lemma palavra_cstr: "palavra k w \<Longrightarrow> is_cstr w" "palavra k w \<Longrightarrow> c \<in> set w \<Longrightarrow> c \<noteq> 0 \<and> c \<noteq> nl \<and> c \<noteq> espaco"
  by (auto simp: palavra_def sep_db_def is_cstr_def)

lemma extrair_token_palavra: "palavra k w \<Longrightarrow> sep_db c \<Longrightarrow> extrair_token (w @ c # r) k = (w, c # r)"
proof (induction w arbitrary: k)
  case Nil
  then show ?case by (cases k) (auto simp: sep_db_def char_at_def)
next
  case (Cons x xs)
  then obtain j where "k = Suc j" by (cases k) (auto simp: palavra_def)
  then show ?case using Cons by (auto simp: palavra_def sep_db_def char_at_def)
qed

lemma prox_linha_acha: "\<forall>c \<in> set w. c \<noteq> 0 \<and> c \<noteq> nl \<Longrightarrow> prox_linha (w @ nl # r) = r"
  by (simp add: prox_linha_def char_at_def dropWhile_append2)

lemma char_at_prim: "char_at (x # xs) 0 = x" by (simp add: char_at_def)

lemma linha_db_texto:
  assumes "entrada_ok e"
  shows "linha_db (linha_texto e @ r) = (fst e, snd e, r)" "extrair_token (linha_texto e @ r) 32 = (fst e, espaco # snd e @ nl # r)"
    "prox_linha (linha_texto e @ r) = r" "prox_linha (espaco # snd e @ nl # r) = r" "char_at (linha_texto e @ r) 0 \<noteq> 0"
proof -
  note ok = assms [unfolded entrada_ok_def]
  have p: "\<forall>c \<in> set (fst e). c \<noteq> 0 \<and> c \<noteq> nl" "\<forall>c \<in> set (snd e). c \<noteq> 0 \<and> c \<noteq> nl" using ok palavra_cstr(2) by blast+
  have q: "\<forall>c \<in> set (fst e @ espaco # snd e). c \<noteq> 0 \<and> c \<noteq> nl" using p by (auto simp: espaco_def nl_def)
  show t: "extrair_token (linha_texto e @ r) 32 = (fst e, espaco # snd e @ nl # r)"
    using ok extrair_token_palavra [of 32 "fst e" espaco "snd e @ nl # r"] by (simp add: linha_texto_def sep_db_def)
  show "prox_linha (linha_texto e @ r) = r" using prox_linha_acha [OF q, of r] by (simp add: linha_texto_def)
  show "prox_linha (espaco # snd e @ nl # r) = r"
    using prox_linha_acha [of "espaco # snd e" r] p(2) by (simp add: espaco_def nl_def)
  show "char_at (linha_texto e @ r) 0 \<noteq> 0" using ok p(1) by (cases "fst e") (auto simp: linha_texto_def char_at_def)
  have d: "dropWhile (\<lambda>c. c = espaco) (espaco # snd e @ nl # r) = snd e @ nl # r"
    using ok palavra_cstr(2) [of 16 "snd e"] by (cases "snd e") (auto simp: espaco_def nl_def)
  have u: "extrair_token (snd e @ nl # r) 16 = (snd e, nl # r)" using ok extrair_token_palavra [of 16 "snd e" nl r] by (simp add: sep_db_def)
  have n: "prox_linha (nl # r) = r" using prox_linha_acha [of "[]" r] by simp
  show "linha_db (linha_texto e @ r) = (fst e, snd e, r)" unfolding linha_db_def t split_conv Let_def d u n ..
qed

lemma db_texto_simps [simp]: "db_texto [] = []" "db_texto (e # L) = linha_texto e @ db_texto L"
  "db_texto (L @ L') = db_texto L @ db_texto L'"
  by (simp_all add: db_texto_def)

lemma db_busca_texto:
  "\<forall>e \<in> set L. entrada_ok e \<Longrightarrow> is_cstr name \<Longrightarrow> db_busca (db_texto L @ 0 # r) name = (name \<in> fst ` set L)"
proof (induction L)
  case Nil
  then show ?case by (subst db_busca.simps) (simp add: char_at_def)
next
  case (Cons e L)
  then have e: "entrada_ok e" "is_cstr (fst e)" by (auto simp: entrada_ok_def palavra_cstr(1))
  show ?case using Cons linha_db_texto [OF e(1), of "db_texto L @ 0 # r"] e(2)
    by (subst db_busca.simps) (auto simp: k_strcmp_eq_0)
qed

lemma db_linhas_texto: "\<forall>e \<in> set L. entrada_ok e \<Longrightarrow> db_linhas (db_texto L @ 0 # r) = L"
proof (induction L)
  case Nil
  then show ?case by (subst db_linhas.simps) (simp add: char_at_def)
next
  case (Cons e L)
  then show ?case using linha_db_texto [of e "db_texto L @ 0 # r"] by (subst db_linhas.simps) simp
qed

lemma db_sem_texto:
  "\<forall>e \<in> set L. entrada_ok e \<Longrightarrow> is_cstr name \<Longrightarrow>
   db_sem (db_texto L @ 0 # r) name = db_texto (filter (\<lambda>e. fst e \<noteq> name) L)"
proof (induction L)
  case Nil
  then show ?case by (subst db_sem.simps) (simp add: char_at_def)
next
  case (Cons e L)
  then have e: "entrada_ok e" "is_cstr (fst e)" by (auto simp: entrada_ok_def palavra_cstr(1))
  show ?case using Cons linha_db_texto [OF e(1), of "db_texto L @ 0 # r"] e(2)
    by (subst db_sem.simps) (auto simp: k_strcmp_eq_0 Let_def)
qed

lemma linha_nova_texto:
  assumes "is_cstr name" "is_cstr version" "length name < 32" "length version < 16" "64 \<le> length b"
  shows "\<exists>r. linha_nova b name version = linha_texto (name, version) @ 0 # r"
proof -
  have s: "strn name 32 = name @ replicate (32 - length name) 0" "strn version 16 = version @ replicate (16 - length version) 0"
    using assms(1-4) by (simp_all add: strn_def)
  obtain m where m: "32 - length name = Suc m" using assms(3) by (metis Suc_diff_Suc)
  define b0 where "b0 = splice b 0 (strn name 32)"
  have b0: "b0 = name @ 0 # replicate m 0 @ drop 32 b" using s(1) m assms(3) by (simp add: b0_def splice_def) (metis (no_types) Suc_eq_plus1 le_add_diff_inverse less_imp_le add_Suc_right)
  have l0: "k_strlen b0 = length name" using assms(1) by (simp add: b0 k_strlen_eq)
  define b1 where "b1 = splice (b0[length name := espaco]) (length name + 1) (strn version 16)"
  have b1: "b1 = name @ espaco # version @ replicate (16 - length version) 0 @ drop 16 (replicate m 0 @ drop 32 b)"
    using assms(4) by (simp add: b1_def b0 splice_def s(2) list_update_append)
  define rest where "rest = drop 16 (replicate m 0 @ drop 32 b)"
  have rest: "rest \<noteq> []" using assms(5) by (simp add: rest_def) arith
  note b1 = b1 [folded rest_def]
  have l1: "drop (length name + 1) b1 = version @ replicate (16 - length version) 0 @ rest" by (simp add: b1)
  obtain j where j: "16 - length version = Suc j" using assms(4) by (metis Suc_diff_Suc)
  have l2: "k_strlen (drop (length name + 1) b1) = length version" unfolding l1 k_strlen_eq using assms(2) by (simp add: j)
  obtain y ys where y: "replicate j 0 @ rest = y # ys" using rest by (cases "replicate j 0 @ rest") auto
  have c: "b1 = (name @ espaco # version) @ 0 # y # ys" "length name + 1 + length version = length (name @ espaco # version)"
    using b1 j y by simp_all
  have u: "(w @ 0 # y # ys)[length w := nl, length w + 1 := 0] = w @ nl # 0 # ys" for w
    using list_update_length [of "w @ [nl]" y ys 0] by simp
  have "b1[length name + 1 + length version := nl, length name + 1 + length version + 1 := 0] = (name @ espaco # version) @ nl # 0 # ys"
    unfolding c by (rule u)
  then show ?thesis unfolding linha_nova_def Let_def b0_def [symmetric] l0 b1_def [symmetric] l2 by (simp add: linha_texto_def)
qed

section \<open>Bounds\<close>

text \<open>A read never passes the limit it is given, whatever the disk and its tables hold.\<close>

lemma read_cluster_lim:
  "read_cluster n lba tam lidos buf s = (r, b, s') \<Longrightarrow> lidos \<le> tam \<Longrightarrow> unat tam \<le> length buf \<Longrightarrow>
   length b = length buf \<and> (\<forall>l. r = Some l \<longrightarrow> l \<le> tam)"
proof (induction n arbitrary: lba lidos buf s)
  case (Suc n)
  obtain r1 s1 where l: "f_ler lba s = (r1, s1)" by (cases "f_ler lba s")
  show ?case
  proof (cases "tam - lidos = 0 \<or> r1 \<noteq> 0")
    case True
    then show ?thesis using Suc.prems l by (auto split: if_splits)
  next
    case False
    define chunk where "chunk = (if tam - lidos < 512 then tam - lidos else 512)"
    have "unat (tam - lidos) = unat tam - unat lidos" "unat lidos \<le> unat tam"
      using Suc.prems(2) by (simp_all add: unat_sub word_le_nat_alt)
    then have c: "unat lidos + unat chunk \<le> unat tam" by (auto simp: chunk_def word_less_nat_alt)
    then have u: "unat (lidos + chunk) = unat lidos + unat chunk"
      using unsigned_less [of tam, where ?'a = nat] by (simp add: unat_word_ariths)
    define b1 where "b1 = splice buf (unat lidos) (take (unat chunk) (fat32_buf s1))"
    have b1: "length b1 = length buf" using c Suc.prems(3) by (simp add: b1_def)
    have "read_cluster n (lba + 1) tam (lidos + chunk) b1 s1 = (r, b, s')"
      using Suc.prems(1) False l by (simp add: chunk_def b1_def Let_def)
    then show ?thesis using Suc.IH [of "lba + 1" "lidos + chunk" b1 s1] Suc.prems(3) b1 c u by (simp add: word_le_nat_alt)
  qed
qed auto

lemma read_loop_lim:
  assumes "read_loop c tam lidos buf s = Some ((r, b), s')" "lidos \<le> tam" "unat tam \<le> length buf"
  shows "length b = length buf \<and> (\<forall>l. r = Some l \<longrightarrow> l \<le> tam)"
proof -
  let ?P = "\<lambda>tam (lidos :: u32) buf y. lidos \<le> tam \<longrightarrow> unat tam \<le> length buf \<longrightarrow>
    length (snd (fst y)) = length buf \<and> (\<forall>l. fst (fst y) = Some l \<longrightarrow> l \<le> tam)"
  have "?P tam lidos buf ((r, b), s')"
  proof (rule read_loop.raw_induct [where P = "\<lambda>c tam lidos buf s y. ?P tam lidos buf y", OF _ assms(1)], goal_cases)
    case (1 f c tam lidos buf s y)
    show ?case
    proof (cases "c < FAT32_EOF \<and> lidos < tam")
      case True
      obtain r1 b1 s1 where k: "read_cluster (unat (f_spc s)) (cluster_to_lba s c) tam lidos buf s = (r1, b1, s1)"
        by (cases "read_cluster (unat (f_spc s)) (cluster_to_lba s c) tam lidos buf s") auto
      show ?thesis using 1(2) True k read_cluster_lim [OF k] 1(1)
        by (cases r1) (fastforce simp: split_beta Let_def)+
    qed (use 1(2) in auto)
  qed
  then show ?thesis using assms(2,3) by simp
qed

lemma vfs_read_lim:
  assumes "vfs_read path buf m s = Some ((r, b), s')" "unat m \<le> length buf"
  shows "length b = length buf \<and> (\<forall>l. r = Some l \<longrightarrow> l \<le> m)"
proof (cases "cwd_montado s")
  case True
  then obtain e s1 where o: "vfs_open path (replicate 13 0) s = Some (e, s1)" using assms(1)
    by (auto simp: vfs_read_def split: bind_splits)
  show ?thesis
  proof (cases "\<exists>x. e = Some x \<and> \<not> ve_is_dir x")
    case False
    then show ?thesis using assms(1) o True by (auto simp: vfs_read_def split: option.splits if_splits)
  next
    case True
    then obtain x where x: "e = Some x" "\<not> ve_is_dir x" by blast
    define n where "n = (if ve_size x < m then ve_size x else m)"
    have n: "n \<le> m" "unat n \<le> length buf" using assms(2) by (auto simp: n_def word_less_nat_alt word_le_nat_alt)
    obtain t where "fat32_read (ve_cluster x) n buf (v_fat s1) = Some ((r, b), t)"
      using assms(1) o x \<open>cwd_montado s\<close> by (auto simp: vfs_read_def com_fat_def n_def)
    then show ?thesis using read_loop_lim [of "ve_cluster x" n 0 buf "v_fat s1" r b t] n
      by (auto simp: fat32_read_def split: if_splits)
  qed
qed (use assms in \<open>auto simp: vfs_read_def\<close>)

definition pkg_bufs :: "pkg \<Rightarrow> bool" where
  "pkg_bufs s = (length (db_buf s) = PKG_DB_MAX \<and> length (novo_buf s) = PKG_DB_MAX \<and> length (lst_buf s) = 1024 \<and> length (hdr_buf s) = hdr_tam)"

lemma com_vfs_Some: "com_vfs f s = Some (r, s') \<Longrightarrow> \<exists>v. f (p_vfs s) = Some (r, v) \<and> s' = s\<lparr>p_vfs := v\<rparr>"
  by (auto simp: com_vfs_def)

lemma com_vfs_bufs [simp]: "com_vfs f s = Some (r, s') \<Longrightarrow> pkg_bufs s' = pkg_bufs s"
  by (auto simp: com_vfs_def pkg_bufs_def)

lemma lst_path_bufs [simp]: "lst_path name s = (p, s') \<Longrightarrow> pkg_bufs s' = pkg_bufs s \<and> lst_buf s' = lst_buf s"
  by (auto simp: lst_path_def lixo_def pkg_bufs_def)

lemma prox_linha_parte: "\<exists>l. p = l @ prox_linha p \<and> 0 \<notin> set l"
proof -
  define w where "w = takeWhile (\<lambda>c. c \<noteq> 0 \<and> c \<noteq> nl) p"
  define q where "q = dropWhile (\<lambda>c. c \<noteq> 0 \<and> c \<noteq> nl) p"
  have p: "p = w @ q" "0 \<notin> set w" by (auto simp: w_def q_def dest: set_takeWhileD)
  show ?thesis
  proof (cases "char_at q 0 = nl")
    case True
    then obtain r where r: "q = nl # r" by (cases q) (auto simp: char_at_def nl_def)
    then have "prox_linha p = r" by (simp add: prox_linha_def q_def [symmetric] char_at_def)
    then show ?thesis using p r by (intro exI [of _ "w @ [nl]"]) (simp add: nl_def)
  next
    case False
    then have "prox_linha p = q" by (simp add: prox_linha_def q_def [symmetric])
    then show ?thesis using p by blast
  qed
qed

lemma cstr_curta: "n < length p \<Longrightarrow> p ! n = 0 \<Longrightarrow> length (cstr p) \<le> n"
  by (induction p arbitrary: n) (auto simp: cstr_def nth_Cons split: nat.splits)

lemma db_sem_lim: "length (db_sem p name) \<le> length (cstr p)"
proof (induction p name rule: db_sem.induct)
  case (1 p name)
  obtain l where l: "p = l @ prox_linha p" "0 \<notin> set l" using prox_linha_parte by blast
  have "cstr p = l @ cstr (prox_linha p)" by (subst l(1), rule cstr_append) (use l(2) in \<open>simp add: is_cstr_def\<close>)
  moreover have "take (length p - length (prox_linha p)) p = l"
  proof -
    have "length p - length (prox_linha p) = length l" by (subst l(1)) simp
    then show ?thesis by (metis l(1) append_eq_conv_conj)
  qed
  moreover have "length (db_sem (prox_linha p) name) \<le> length (cstr (prox_linha p))" if "char_at p 0 \<noteq> 0" using 1 that by blast
  ultimately show ?case by (subst db_sem.simps) (auto simp: Let_def intro: trans_le_add2)
qed

lemma lst_linhas_lim: "length (lst_linhas p k) \<le> k \<and> (\<forall>l \<in> set (lst_linhas p k). length l \<le> 63)"
proof (induction p k rule: lst_linhas.induct)
  case (1 p k)
  define l where "l = takeWhile (\<lambda>c. c \<noteq> 0 \<and> c \<noteq> nl) (take 63 p)"
  define r where "r = (let r = drop (length l) p in if char_at r 0 = nl then tl r else r)"
  have ll: "length l \<le> 63" unfolding l_def using length_takeWhile_le [of _ "take 63 p"] le_trans by fastforce
  have e: "lst_linhas p k = (if char_at p 0 = 0 \<or> k = 0 then [] else if l = [] then lst_linhas r k else l # lst_linhas r (k - 1))"
    unfolding l_def r_def by (subst lst_linhas.simps) (simp only: Let_def)
  have i: "length (lst_linhas r k') \<le> k' \<and> (\<forall>x \<in> set (lst_linhas r k'). length x \<le> 63)"
    if "\<not> (char_at p 0 = 0 \<or> k = 0)" "k' = (if l = [] then k else k - 1)" for k'
    using 1(1) [OF that(1) l_def refl refl] 1(2) [OF that(1) l_def refl refl] that(2) unfolding r_def Let_def by (cases "l = []") simp_all
  show ?case
  proof (cases "char_at p 0 = 0 \<or> k = 0")
    case False
    then show ?thesis unfolding e using i [OF False refl] ll by (cases "l = []") auto
  qed (simp add: e)
qed

lemma lst_monta_lim: "lst_monta ps pos b = (n, b') \<Longrightarrow> pos < 1023 \<Longrightarrow> length b = 1024 \<Longrightarrow> n < 1023 \<and> length b' = 1024"
proof (induction ps arbitrary: pos b)
  case (Cons p ps)
  show ?case
  proof (cases "pos + k_strlen p + 1 \<ge> 1023")
    case True
    then show ?thesis using Cons.prems by (simp add: Let_def)
  next
    case False
    define c where "c = (splice b pos (take (k_strlen p) p))[pos + k_strlen p := nl]"
    have c: "length c = 1024" using False Cons.prems(3) by (simp add: c_def)
    have "lst_monta ps (pos + k_strlen p + 1) c = (n, b')" using Cons.prems(1) False by (simp add: Let_def c_def)
    then show ?thesis using Cons.IH [OF _ _ c] False by simp
  qed
qed simp

lemma db_ler_lim:
  assumes "db_ler s = Some (n, s')" "pkg_bufs s"
  shows "n < PKG_DB_MAX \<and> pkg_bufs s' \<and> (n \<noteq> 0 \<longrightarrow> db_buf s' ! n = 0)"
proof -
  obtain e s1 where o: "com_vfs (vfs_open PKG_DB_PATH entrada0) s = Some (e, s1)" using assms(1)
    by (auto simp: db_ler_def split: bind_splits)
  then have b1: "pkg_bufs s1" using assms(2) by simp
  show ?thesis
  proof (cases "e = None")
    case False
    then obtain r b s2 where r: "com_vfs (vfs_read PKG_DB_PATH (db_buf s1) (of_nat (PKG_DB_MAX - 1))) s1 = Some ((r, b), s2)"
        "n = (case r of None \<Rightarrow> 0 | Some n \<Rightarrow> unat n)" "s' = s2\<lparr>db_buf := b[n := 0]\<rparr>"
      using assms(1) o by (auto simp: db_ler_def Let_def split: bind_splits)
    obtain v where v: "vfs_read PKG_DB_PATH (db_buf s1) (of_nat (PKG_DB_MAX - 1)) (p_vfs s1) = Some ((r, b), v)"
      using com_vfs_Some [OF r(1)] by blast
    have "length b = PKG_DB_MAX \<and> (\<forall>l. r = Some l \<longrightarrow> unat l < PKG_DB_MAX)"
      using vfs_read_lim [OF v] b1 by (auto simp: pkg_bufs_def PKG_DB_MAX_def word_le_nat_alt)
    moreover have "pkg_bufs s2" using b1 r(1) by simp
    ultimately show ?thesis using r(2,3) by (auto simp: pkg_bufs_def PKG_DB_MAX_def split: option.splits)
  qed (use assms(1) o b1 in \<open>auto simp: db_ler_def PKG_DB_MAX_def\<close>)
qed

section \<open>The data base on the disk\<close>

text \<open>The directory at cluster \<open>c\<close> has the entry \<open>e\<close> for \<open>nome\<close> in its first sector.\<close>

definition dir_tem :: "fat \<Rightarrow> (u32 \<Rightarrow> setor) \<Rightarrow> u32 \<Rightarrow> u8 list \<Rightarrow> fat32_entry \<Rightarrow> bool" where
  "dir_tem s d c nome e = (valido s c \<and> map_option snd (varre_setor (vis_nome True nome) 16 (d (set_cl s c 0))) = Some (Some e))"

lemma dir_tem_mesmo: "mesmo s s' \<Longrightarrow> dir_tem s' = dir_tem s"
  by (simp add: dir_tem_def fun_eq_iff geo_mesmo)

lemma find_tem:
  assumes "geo_ok s" "disco s d" "dir_tem s d c nome e"
  obtains s' where "fat32_find c nome s = Some (Some e, s')" "disco s' d" "mesmo s s'"
proof -
  have v: "valido s c" using assms(3) by (simp add: dir_tem_def)
  obtain i where i: "varre_setor (vis_nome True nome) 16 (d (set_cl s c 0)) = Some (i, Some e)"
    using assms(3) by (auto simp: dir_tem_def)
  obtain k where k: "unat (f_spc s) = Suc k" using assms(1) by (cases "unat (f_spc s)") (auto simp: geo_ok_def)
  have c: "c < FAT32_EOF" using v assms(1) by (simp add: valido_def geo_ok_def FAT32_EOF_def word_less_nat_alt)
  have l: "set_cl s c 0 < 2 ^ 28" using cl_lugar [OF assms(1) v, of 0] k by simp
  obtain s' where s': "f_ler (set_cl s c 0) s = (0, s')" "disco s' d" "mesmo s s'" "fat32_buf s' = d (set_cl s c 0)"
    using f_ler_ok [OF assms(2) l] by blast
  have "varre_cluster (vis_nome True nome) (unat (f_spc s)) (cluster_to_lba s c) s = (Achou (cluster_to_lba s c) i (Some e), s')"
    unfolding k using s'(1,4) i by (simp add: set_cl_def)
  then have "varre (vis_nome True nome) c s = Some (Achou (cluster_to_lba s c) i (Some e), s')"
    using c by (subst varre.simps) simp
  then show thesis using that s'(2,3) assms(1) by (simp add: fat32_find_def geo_ok_def)
qed

text \<open>The disk \<open>d\<close> has a file \<open>/pkg/db\<close> whose text is the list \<open>L\<close>.\<close>

definition volume_db :: "pkg \<Rightarrow> (u32 \<Rightarrow> setor) \<Rightarrow> (u8 list \<times> u8 list) list \<Rightarrow> bool" where
  "volume_db s d L =
     (let f = v_fat (p_vfs s) in
      cwd_montado (p_vfs s) \<and> geo_ok f \<and> disco f d \<and> (\<forall>e \<in> set L. entrada_ok e) \<and> length (db_texto L) < PKG_DB_MAX \<and>
      (\<exists>e1 e2 cs. dir_tem f d (f_root f) (fat32_normalize (bytes ''pkg'')) e1 \<and> fe_is_dir e1 \<and>
         dir_tem f d (fe_cluster e1) (fat32_normalize (bytes ''db'')) e2 \<and> \<not> fe_is_dir e2 \<and>
         cad f d (fe_cluster e2) cs \<and> unat (fe_size e2) = length (db_texto L) \<and>
         take (length (db_texto L)) (dados f d cs) = db_texto L \<and> length (db_texto L) \<le> length cs * cl_bytes f))"

lemma db_path_partes:
  "cstr (fst (path_split_last PKG_DB_PATH)) = bytes ''/pkg''" "snd (path_split_last PKG_DB_PATH) = bytes ''db''"
  "k_strlen (fst (path_split_last PKG_DB_PATH)) = 4"
  using path_split_last_ok [of "bytes ''/pkg''" "bytes ''db''"]
  by (simp_all add: PKG_DB_PATH_def barra8_def split_beta k_strlen_eq)

lemma vfs_open_db:
  assumes "volume_db s d L"
  obtains e v cs where "vfs_open PKG_DB_PATH nome0 (p_vfs s) = Some (Some e, v)" "disco (v_fat v) d" "mesmo (v_fat (p_vfs s)) (v_fat v)"
    "v = (p_vfs s)\<lparr>v_fat := v_fat v\<rparr>" "\<not> ve_is_dir e" "unat (ve_size e) = length (db_texto L)"
    "cad (v_fat (p_vfs s)) d (ve_cluster e) cs" "take (length (db_texto L)) (dados (v_fat (p_vfs s)) d cs) = db_texto L"
    "length (db_texto L) \<le> length cs * cl_bytes (v_fat (p_vfs s))"
proof -
  let ?f = "v_fat (p_vfs s)"
  obtain e1 e2 cs where h: "cwd_montado (p_vfs s)" "geo_ok ?f" "disco ?f d" "dir_tem ?f d (f_root ?f) (fat32_normalize (bytes ''pkg'')) e1"
      "fe_is_dir e1" "dir_tem ?f d (fe_cluster e1) (fat32_normalize (bytes ''db'')) e2" "\<not> fe_is_dir e2" "cad ?f d (fe_cluster e2) cs"
      "unat (fe_size e2) = length (db_texto L)" "take (length (db_texto L)) (dados ?f d cs) = db_texto L"
      "length (db_texto L) \<le> length cs * cl_bytes ?f"
    using assms by (auto simp: volume_db_def Let_def)
  obtain f1 where f1: "fat32_find (f_root ?f) (fat32_normalize (bytes ''pkg'')) ?f = Some (Some e1, f1)" "disco f1 d" "mesmo ?f f1"
    using find_tem [OF h(2-4)] by blast
  obtain f2 where f2: "fat32_find (fe_cluster e1) (fat32_normalize (bytes ''db'')) f1 = Some (Some e2, f2)" "disco f2 d" "mesmo f1 f2"
    using find_tem [of f1 d "fe_cluster e1" _ e2] f1(2,3) h(2,6) by (auto simp: geo_mesmo dir_tem_mesmo)
  have r: "resolve_dir (bytes ''/pkg'') (p_vfs s) = Some (Some (0, fe_cluster e1), (p_vfs s)\<lparr>v_fat := f1\<rparr>)"
  proof -
    have "resolve_passos (bytes ''pkg'') (f_root ?f) (p_vfs s) = Some (Some (0, fe_cluster e1), (p_vfs s)\<lparr>v_fat := f1\<rparr>)"
      using f1(1) h(5) by (subst resolve_passos.simps, subst resolve_passos.simps) (simp add: barra8_def ponto8_def com_fat_def Let_def)
    then show ?thesis by (simp add: resolve_dir_def char_at_def barra8_def strn_def fat32_root_cluster_def)
  qed
  have "vfs_open PKG_DB_PATH nome0 (p_vfs s) = Some (Some (copia_entrada nome0 e2), (p_vfs s)\<lparr>v_fat := f2\<rparr>)"
    using h(1) f2(1) r by (simp add: vfs_open_def dir_de_def db_path_partes split_beta com_fat_def)
  then show thesis
    using that [of "copia_entrada nome0 e2" "(p_vfs s)\<lparr>v_fat := f2\<rparr>" cs] h(7-11) f2(2) mesmo_trans [OF f1(3) f2(3)]
    by (simp add: copia_entrada_def)
qed

lemma volume_db_muda: "volume_db s d L \<Longrightarrow> mesmo (v_fat (p_vfs s)) (v_fat v) \<Longrightarrow> disco (v_fat v) d \<Longrightarrow> v = (p_vfs s)\<lparr>v_fat := v_fat v\<rparr> \<Longrightarrow>
    volume_db (s\<lparr>p_vfs := v\<rparr>) d L"
proof -
  assume h: "volume_db s d L" "mesmo (v_fat (p_vfs s)) (v_fat v)" "disco (v_fat v) d" "v = (p_vfs s)\<lparr>v_fat := v_fat v\<rparr>"
  have c: "cwd_montado v = cwd_montado (p_vfs s)" by (subst h(4)) simp
  have k: "cl_bytes (v_fat v) = cl_bytes (v_fat (p_vfs s))" using mesmo_campos(1) [OF h(2)] by (simp add: cl_bytes_def)
  show ?thesis using h(1,3)
    by (simp add: volume_db_def Let_def c k geo_mesmo [OF h(2)] dir_tem_mesmo [OF h(2)] cad_mesmo [OF h(2)] dados_mesmo [OF h(2)] mesmo_campos(6) [OF h(2)])
qed

lemma db_ler_texto:
  assumes "volume_db s d L" "pkg_bufs s"
  obtains v r where "db_ler s = Some (length (db_texto L), s\<lparr>p_vfs := v, db_buf := db_texto L @ 0 # r\<rparr>)"
    "length (db_texto L @ 0 # r) = PKG_DB_MAX"
proof -
  let ?n = "length (db_texto L)"
  have n: "?n < PKG_DB_MAX" and ok: "geo_ok (v_fat (p_vfs s))" "cwd_montado (p_vfs s)" using assms(1) by (simp_all add: volume_db_def Let_def)
  obtain e1 v1 where o1: "vfs_open PKG_DB_PATH entrada0 (p_vfs s) = Some (Some e1, v1)" "disco (v_fat v1) d" "mesmo (v_fat (p_vfs s)) (v_fat v1)"
      "v1 = (p_vfs s)\<lparr>v_fat := v_fat v1\<rparr>"
    using vfs_open_db [OF assms(1)] by metis
  have V: "volume_db (s\<lparr>p_vfs := v1\<rparr>) d L" by (rule volume_db_muda [OF assms(1) o1(3,2,4)])
  then have m1: "cwd_montado v1" "geo_ok (v_fat v1)" by (simp_all add: volume_db_def Let_def)
  obtain e v cs where o: "vfs_open PKG_DB_PATH (replicate 13 0) v1 = Some (Some e, v)" "disco (v_fat v) d" "mesmo (v_fat v1) (v_fat v)"
      "v = v1\<lparr>v_fat := v_fat v\<rparr>" "\<not> ve_is_dir e" "unat (ve_size e) = ?n" "cad (v_fat v1) d (ve_cluster e) cs"
      "take ?n (dados (v_fat v1) d cs) = db_texto L" "?n \<le> length cs * cl_bytes (v_fat v1)"
    using vfs_open_db [OF V, of "replicate 13 0"] by auto
  have g: "geo_ok (v_fat v)" using m1(2) o(3) by (simp add: geo_mesmo)
  have k: "cl_bytes (v_fat v) = cl_bytes (v_fat v1)" using mesmo_campos(1) [OF o(3)] by (simp add: cl_bytes_def)
  have b: "length (db_buf s) = PKG_DB_MAX" using assms(2) by (simp add: pkg_bufs_def)
  obtain x f where x: "read_loop (ve_cluster e) (ve_size e) 0 (db_buf s) (v_fat v) = Some ((Some x, splice (db_buf s) 0 (db_texto L)), f)" "unat x = ?n"
    using read_loop_ok [OF g o(2), of "ve_cluster e" cs 0 "ve_size e" "db_buf s"] o(6-9) n b
    by (auto simp: cad_mesmo [OF o(3)] dados_mesmo [OF o(3)] k min_absorb1)
  define K :: u32 where "K = of_nat (PKG_DB_MAX - 1)"
  have sz: "(if ve_size e < K then ve_size e else K) = ve_size e"
    using o(6) n by (auto simp: K_def PKG_DB_MAX_def word_less_nat_alt unat_eq_iff [symmetric])
  have rd: "vfs_read PKG_DB_PATH (db_buf s) K v1 =
      Some ((Some x, splice (db_buf s) 0 (db_texto L)), v\<lparr>v_fat := f\<rparr>)"
    using m1(1) o(1,5) x(1) g by (simp only: vfs_read_def sz) (simp add: sz com_fat_def fat32_read_def geo_ok_def)
  obtain r where r: "(splice (db_buf s) 0 (db_texto L))[?n := 0] = db_texto L @ 0 # r" "length (db_texto L @ 0 # r) = PKG_DB_MAX"
  proof -
    obtain y ys where y: "drop ?n (db_buf s) = y # ys" using n b by (cases "drop ?n (db_buf s)") auto
    then have "(splice (db_buf s) 0 (db_texto L))[?n := 0] = db_texto L @ 0 # ys" by (simp add: splice_def list_update_append)
    moreover have "length (y # ys) = PKG_DB_MAX - ?n" unfolding y [symmetric] using b by simp
    ultimately show thesis using that [of ys] n by simp
  qed
  have "db_ler s = Some (?n, s\<lparr>p_vfs := v\<lparr>v_fat := f\<rparr>, db_buf := db_texto L @ 0 # r\<rparr>)"
    using o1(1) rd x(2) r(1) by (simp add: db_ler_def com_vfs_def Let_def K_def)
  then show thesis using that r(2) by blast
qed

lemma db_remove_texto:
  assumes "db_ler s = Some (length (db_texto L), t)" "db_buf t = db_texto L @ 0 # r" "length (novo_buf t) = PKG_DB_MAX"
    and "\<forall>e \<in> set L. entrada_ok e" "is_cstr name" "length (db_texto L) < PKG_DB_MAX" "L \<noteq> []"
  obtains b where "take (length (db_texto (filter (\<lambda>e. fst e \<noteq> name) L))) b = db_texto (filter (\<lambda>e. fst e \<noteq> name) L)"
    "pkg_db_remove name s =
       (if db_texto (filter (\<lambda>e. fst e \<noteq> name) L) = [] then do { (_, u) \<leftarrow> com_vfs (vfs_unlink PKG_DB_PATH) (t\<lparr>novo_buf := b\<rparr>); Some (Some 0, u) }
        else com_vfs (vfs_write PKG_DB_PATH b (of_nat (length (db_texto (filter (\<lambda>e. fst e \<noteq> name) L))))) (t\<lparr>novo_buf := b\<rparr>))"
proof -
  let ?L = "filter (\<lambda>e. fst e \<noteq> name) L"
  have c: "is_cstr (db_texto L)"
  proof -
    have "is_cstr (linha_texto e)" if "e \<in> set L" for e
      using that assms(4) palavra_cstr(1) by (auto simp: entrada_ok_def linha_texto_def espaco_def nl_def)
    then show ?thesis by (auto simp: db_texto_def is_cstr_def)
  qed
  have s: "db_sem (db_buf t) name = db_texto ?L" using db_sem_texto [OF assms(4,5)] assms(2) by simp
  have "length (db_texto ?L) \<le> length (db_texto L)" using db_sem_lim [of "db_buf t" name] s assms(2) c by simp
  then have l: "length (db_texto ?L) < length (novo_buf t)" using assms(3,6) by simp
  define b where "b = (splice (novo_buf t) 0 (db_texto ?L))[length (db_texto ?L) := 0]"
  have "take (length (db_texto ?L)) b = db_texto ?L" using l by (simp add: b_def splice_def)
  moreover have "db_texto L \<noteq> []" using assms(7) by (cases L) (simp_all add: linha_texto_def)
  ultimately show thesis using that [of b] assms(1) s by (simp add: pkg_db_remove_def Let_def b_def)
qed

lemma db_add_texto:
  assumes "db_ler s = Some (length (db_texto L), t)" "db_buf t = db_texto L @ 0 # r" "length (db_buf t) = PKG_DB_MAX"
    and "is_cstr name" "is_cstr version" "length name < 32" "length version < 16" "64 \<le> length (p_lixo t 0)"
  obtains b where "take (length (db_texto (L @ [(name, version)]))) b = db_texto (L @ [(name, version)])"
    "pkg_db_add name version s =
       (if PKG_DB_MAX \<le> length (db_texto (L @ [(name, version)])) then Some (None, snd (lixo t))
        else com_vfs (vfs_write PKG_DB_PATH b (of_nat (length (db_texto (L @ [(name, version)]))))) (snd (lixo t)\<lparr>db_buf := b\<rparr>))"
proof -
  let ?l = "linha_texto (name, version)"
  obtain q where q: "linha_nova (p_lixo t 0) name version = ?l @ 0 # q" using linha_nova_texto [OF assms(4-8)] by blast
  have c: "is_cstr ?l" using assms(4,5) by (simp add: linha_texto_def espaco_def nl_def)
  have k: "k_strlen (?l @ 0 # q) = length ?l" using c by (simp add: k_strlen_eq)
  define b where "b = splice (db_buf t) (length (db_texto L)) (?l @ [0])"
  have "splice (db_buf t) (length (db_texto L)) (?l @ [0]) = db_texto L @ ?l @ 0 # drop (length ?l) r"
    by (simp add: assms(2) splice_def)
  then have "take (length (db_texto (L @ [(name, version)]))) b = db_texto (L @ [(name, version)])" by (simp add: b_def)
  moreover have "pkg_db_add name version s =
       (if PKG_DB_MAX \<le> length (db_texto (L @ [(name, version)])) then Some (None, snd (lixo t))
        else com_vfs (vfs_write PKG_DB_PATH b (of_nat (length (db_texto (L @ [(name, version)]))))) (snd (lixo t)\<lparr>db_buf := b\<rparr>))"
    using assms(1) q k by (simp add: pkg_db_add_def lixo_def Let_def b_def)
  ultimately show thesis by (rule that)
qed


text \<open>A small volume whose data base holds one package.\<close>

definition setor_pkg :: setor where
  "setor_pkg = splice (replicate 512 0) 0 (dirent_bytes (fat32_normalize (bytes ''pkg'')) FAT32_ATTR_DIR 3 0)"

definition setor_db :: setor where
  "setor_db = splice (replicate 512 0) 0 (dirent_bytes (fat32_normalize (bytes ''db'')) FAT32_ATTR_ARCHIVE 4 12)"

definition db_exemplo :: "(u8 list \<times> u8 list) list" where "db_exemplo = [(bytes ''hello'', bytes ''1.0.0'')]"

definition disco_db :: "u32 \<Rightarrow> setor" where
  "disco_db l =
     (if l = 32 then splice (replicate 512 0) 16 (le32 0x0FFFFFFF) else if l = 40 then setor_pkg else if l = 41 then setor_db
      else if l = 42 then splice (replicate 512 0) 0 (db_texto db_exemplo) else replicate 512 0)"

definition pkg_exemplo :: pkg where
  "pkg_exemplo = \<lparr>p_vfs = \<lparr>v_fat = fat_exemplo\<lparr>f_ata := ata_exemplo\<lparr>discos := \<lambda>_. disco_db\<rparr>\<rparr>, cwd_montado = True,
       cwd_path = barra8 # replicate 255 0, cwd_cluster = 2, append_buf = replicate 16384 0\<rparr>,
     p_heap = heap_exemplo, db_buf = replicate 2048 0, lst_buf = replicate 1024 0, novo_buf = replicate 2048 0,
     hdr_buf = replicate 392 0, p_lixo = \<lambda>_. replicate 600 0xCC\<rparr>"

lemma setores_db:
  "varre_setor (vis_nome True (fat32_normalize (bytes ''pkg''))) 16 setor_pkg = Some (0, Some (entrada setor_pkg 0))"
  "varre_setor (vis_nome True (fat32_normalize (bytes ''db''))) 16 setor_db = Some (0, Some (entrada setor_db 0))"
  "fe_is_dir (entrada setor_pkg 0)" "fe_cluster (entrada setor_pkg 0) = 3" "\<not> fe_is_dir (entrada setor_db 0)"
  "fe_cluster (entrada setor_db 0) = 4" "fe_size (entrada setor_db 0) = 12" "length setor_pkg = 512" "length setor_db = 512"
  "length (db_texto db_exemplo) = 12"
  by code_simp+

lemma pkg_exemplo_ok: "volume_db pkg_exemplo disco_db db_exemplo" "pkg_bufs pkg_exemplo"
proof -
  let ?f = "v_fat (p_vfs pkg_exemplo)"
  have f: "f_spc ?f = 1" "f_data_lba ?f = 40" "f_root ?f = 2" "f_fat_lba ?f = 32" "f_total ?f = 8" "cl_bytes ?f = 512"
    by (simp_all add: pkg_exemplo_def fat_exemplo_def cl_bytes_def)
  have d: "disco ?f disco_db"
    using ata_exemplo_ok(1) setores_db(8-10) by (simp add: disco_def disp0_def fat_exemplo_def pkg_exemplo_def)
      (simp add: ata_exemplo_def saudavel_def disco_db_def)
  have g: "geo_ok ?f" by (simp add: geo_ok_def pkg_exemplo_def fat_exemplo_def)
  have l: "set_cl ?f 2 0 = 40" "set_cl ?f 3 0 = 41" "set_cl ?f 4 0 = 42" by (simp_all add: set_cl_def cluster_to_lba_def f)
  have t: "dir_tem ?f disco_db 2 (fat32_normalize (bytes ''pkg'')) (entrada setor_pkg 0)"
      "dir_tem ?f disco_db 3 (fat32_normalize (bytes ''db'')) (entrada setor_db 0)"
    by (simp_all add: dir_tem_def valido_def f(5) l disco_db_def setores_db del: bytes_Cons)
  have v: "fat_val ?f disco_db 4 = 0x0FFFFFFF"
    by (simp add: fat_val_def fat_setor_def fat_desloc_def f disco_db_def rd32_splice_same)
  have c: "cad ?f disco_db 4 [4]" by (simp add: v) (simp add: valido_def f FAT32_EOF_def)
  have x: "take 12 (dados ?f disco_db [4]) = db_texto db_exemplo"
    using setores_db(10) by (simp add: dados_def cl_dados_def cl_parte_def f l disco_db_def splice_def)
  have e: "\<forall>e \<in> set db_exemplo. entrada_ok e"
    by (simp add: db_exemplo_def entrada_ok_def palavra_def sep_db_def espaco_def nl_def)
  show "volume_db pkg_exemplo disco_db db_exemplo"
    unfolding volume_db_def Let_def f(3) setores_db(10)
    using g d t c x e setores_db(3-7) f(6)
    by (intro conjI exI [of _ "entrada setor_pkg 0"] exI [of _ "entrada setor_db 0"] exI [of _ "[4]"])
      (simp_all add: PKG_DB_MAX_def, simp add: pkg_exemplo_def)
  show "pkg_bufs pkg_exemplo" by (simp add: pkg_bufs_def pkg_exemplo_def PKG_DB_MAX_def hdr_tam_def)
qed




section \<open>A damaged package\<close>

lemma rd32_update: "k + 4 \<le> i \<Longrightarrow> i < length m \<Longrightarrow> rd32 (m[i := y]) k = rd32 m k"
proof -
  assume h: "k + 4 \<le> i" "i < length m"
  have "length (take 4 (drop k m)) \<le> i - k" using h(1) by simp
  then have "slice (m[i := y]) k 4 = slice m k 4" using h(1) by (simp add: slice_def drop_update_swap take_update_swap list_update_beyond)
  then show ?thesis using h by (simp add: rd32_slice [of k m] rd32_slice [of k "m[i := y]"])
qed

lemma pkg_total: "n \<le> SPK_MAX_FILES \<Longrightarrow> unat (of_nat hdr_tam + n * of_nat reg_tam :: u32) = hdr_tam + unat n * reg_tam"
proof -
  assume "n \<le> SPK_MAX_FILES"
  then have "unat n \<le> 8" by (simp add: SPK_MAX_FILES_def word_le_nat_alt)
  then show ?thesis by (simp add: hdr_tam_def reg_tam_def unat_word_ariths)
qed

text \<open>C32: no package is installed with one byte of its files changed.  When \<open>instalar_spk\<close> accepts what it read, the
  same bytes with any one byte of the payload replaced by another are refused, and nothing on the disk changes.\<close>

theorem spk_byte_trocado:
  assumes "spk_valido m lidos" "hdr_tam + unat (spk_num_files m) * reg_tam \<le> i"
    and "i < hdr_tam + unat (spk_num_files m) * reg_tam + unat (spk_payload m)" "i < length m" "y \<noteq> m ! i"
  shows "\<not> spk_valido (m[i := y]) lidos \<and> spk_instala (m[i := y]) lidos s = Some (- 1, s)"
proof -
  let ?b = "hdr_tam + unat (spk_num_files m) * reg_tam"
  have i: "356 + 4 \<le> i" using assms(2) by (simp add: hdr_tam_def)
  note u = rd32_update [OF _ assms(4)]
  have f: "spk_num_files (m[i := y]) = spk_num_files m" "spk_payload (m[i := y]) = spk_payload m" "spk_checksum (m[i := y]) = spk_checksum m"
    using i by (simp_all add: spk_num_files_def spk_payload_def spk_checksum_def u)
  have n: "spk_num_files m \<le> SPK_MAX_FILES" using assms(1) by (simp add: spk_valido_def)
  let ?p = "take (unat (spk_payload m)) (drop ?b m)"
  have j: "i - ?b < length ?p" "?p ! (i - ?b) = m ! i" using assms(2-4) by auto
  have "take (unat (spk_payload m)) (drop ?b (m[i := y])) = ?p[i - ?b := y]"
    using assms(2) by (simp add: drop_update_swap take_update_swap)
  then have "pkg_checksum (take (unat (spk_payload m)) (drop ?b (m[i := y]))) \<noteq> pkg_checksum ?p"
    using pkg_checksum_troca [OF j(1), of y] j(2) assms(5) by simp
  then have "\<not> spk_valido (m[i := y]) lidos"
    using assms(1) by (simp add: spk_valido_def Let_def f pkg_total [OF n])
  then show ?thesis by (simp add: spk_instala_def)
qed

text \<open>A package with one file of five bytes.\<close>

definition spk_exemplo :: "u8 list" where
  "spk_exemplo =
     le32 SPK_MAGIC @ le32 1 @ strn (bytes ''hello'') 32 @ strn (bytes ''1.0.0'') 16 @ replicate 32 0 @ le32 0 @ replicate 256 0 @
     le32 1 @ le32 5 @ le32 (pkg_checksum (bytes ''salut'')) @ replicate 32 0 @
     strn (bytes ''/bin/hello'') 64 @ le32 5 @ le32 0 @ [1] @ bytes ''salut''"

lemma spk_exemplo_ok: "spk_valido spk_exemplo 470" "length spk_exemplo = 470" "spk_num_files spk_exemplo = 1" "spk_payload spk_exemplo = 5"
    "spk_exemplo ! 466 = 97"
  by code_simp+

theorem spk_byte_trocado_witness:
  "spk_valido spk_exemplo 470 \<and> \<not> spk_valido (spk_exemplo[466 := 98]) 470 \<and> spk_instala (spk_exemplo[466 := 98]) 470 pkg_exemplo = Some (- 1, pkg_exemplo)"
proof -
  have h: "hdr_tam + unat (spk_num_files spk_exemplo) * reg_tam \<le> 466"
    "466 < hdr_tam + unat (spk_num_files spk_exemplo) * reg_tam + unat (spk_payload spk_exemplo)" "466 < length spk_exemplo" "98 \<noteq> spk_exemplo ! 466"
    by (simp_all add: spk_exemplo_ok hdr_tam_def reg_tam_def)
  show ?thesis using spk_byte_trocado [OF spk_exemplo_ok(1) h] spk_exemplo_ok(1) by blast
qed

end
