(* ===== verification/Shell.thy ===== *)
theory Shell
  imports KString "HOL-Library.Signed_Division"
begin

text \<open>
  The shell (\<^verbatim>\<open>kernel/shell/shell.c\<close>) and the keyboard (\<^verbatim>\<open>kernel/teclado.c\<close>): the text screen, the line editor
  with its history, the parser and the main loop, one step for each key.  What a command does is the argument \<open>corpo\<close>
  of \<open>comandos_executar\<close>; its result is \<open>None\<close> when the command does not return.  \<open>'m\<close> is the rest of the machine.
\<close>

section \<open>The keyboard\<close>

definition TECLA_SETA_CIMA :: u8 where "TECLA_SETA_CIMA = 0x81"
definition TECLA_SETA_BAIXO :: u8 where "TECLA_SETA_BAIXO = 0x82"
definition TECLA_SETA_ESQ :: u8 where "TECLA_SETA_ESQ = 0x83"
definition TECLA_SETA_DIR :: u8 where "TECLA_SETA_DIR = 0x84"

record teclado =
  ultimo_char :: u8
  prefixo_e0 :: bool

text \<open>The table of 128 scancodes.\<close>

definition scancode_map :: "u8 list" where
  "scancode_map =
    [0, 27, 49, 50, 51, 52, 53, 54, 55, 56, 57, 48, 45, 61, 8, 9,
     113, 119, 101, 114, 116, 121, 117, 105, 111, 112, 96, 91, 10, 0, 97, 115,
     100, 102, 103, 104, 106, 107, 108, 59, 39, 39, 0, 93, 122, 120, 99, 118,
     98, 110, 109, 44, 46, 47, 0, 42, 0, 32, 0, 0, 0, 0, 0, 0,
     0, 0, 0, 0, 0, 0, 0, 55, 56, 57, 45, 52, 53, 54, 43, 49,
     50, 51, 48, 46, 0, 0, 92, 0, 0, 0, 0, 0, 0, 0, 0, 0,
     0, 0, 0, 0, 0, 0, 0, 0, 0, 0, 0, 0, 0, 0, 0, 0,
     0, 0, 0, 47, 0, 0, 0, 0, 0, 0, 0, 0, 0, 0, 0, 0]"

text \<open>The scancode read from the port comes in as an argument.\<close>

definition seta :: "u8 \<Rightarrow> u8 option" where
  "seta sc = (if sc = 0x48 then Some TECLA_SETA_CIMA else if sc = 0x50 then Some TECLA_SETA_BAIXO
     else if sc = 0x4B then Some TECLA_SETA_ESQ else if sc = 0x4D then Some TECLA_SETA_DIR else None)"

definition teclado_handler :: "u8 \<Rightarrow> teclado \<Rightarrow> teclado" where
  "teclado_handler sc s =
     (if sc AND 0x80 \<noteq> 0 then s\<lparr>prefixo_e0 := False\<rparr>
      else if sc = 0xE0 then s\<lparr>prefixo_e0 := True\<rparr>
      else if prefixo_e0 s then
        s\<lparr>prefixo_e0 := False, ultimo_char := (case seta sc of Some c \<Rightarrow> c | None \<Rightarrow> 0x90 + sc)\<rparr>
      else case seta sc of
        Some c \<Rightarrow> s\<lparr>ultimo_char := c\<rparr>
      | None \<Rightarrow> if sc < 128 \<and> scancode_map ! unat sc \<noteq> 0 then s\<lparr>ultimo_char := scancode_map ! unat sc\<rparr> else s)"

definition teclado_ultimo_char :: "teclado \<Rightarrow> u8 \<times> teclado" where
  "teclado_ultimo_char s = (ultimo_char s, s\<lparr>ultimo_char := 0\<rparr>)"

section \<open>State of the shell\<close>

definition VGA_COLS :: int where "VGA_COLS = 80"
definition VGA_ROWS :: int where "VGA_ROWS = 25"
definition MAX_INPUT :: nat where "MAX_INPUT = 128"
definition HISTORICO_MAX :: nat where "HISTORICO_MAX = 16"
definition ARGS_MAX :: nat where "ARGS_MAX = 16"

record shell =
  vga :: "u16 list"
  cur_col :: int
  cur_lin :: int
  cor_atual :: u8
  input_buf :: "u8 list"
  input_len :: nat
  historico :: "u8 list list"
  hist_total :: nat
  hist_nav :: int
  tokens :: "u8 list"
  argv :: "nat list"

section \<open>The screen\<close>

definition branco :: u8 where "branco = 32"

definition celula :: "u8 \<Rightarrow> u8 \<Rightarrow> u16" where "celula c cor = ucast c OR push_bit 8 (ucast cor)"

definition poe :: "u8 \<Rightarrow> shell \<Rightarrow> shell" where
  "poe c s = s\<lparr>vga := (vga s)[nat (cur_lin s * VGA_COLS + cur_col s) := celula c (cor_atual s)]\<rparr>"

definition shell_clear :: "shell \<Rightarrow> shell" where
  "shell_clear s =
     s\<lparr>vga := splice (vga s) 0 (replicate (nat (VGA_COLS * VGA_ROWS)) (celula branco (cor_atual s))), cur_col := 0, cur_lin := 0\<rparr>"

definition scroll :: "shell \<Rightarrow> shell" where
  "scroll s =
     (let n = nat ((VGA_ROWS - 1) * VGA_COLS);
          v = fold (\<lambda>i v. v[i := v ! (i + nat VGA_COLS)]) [0..<n] (vga s)
      in s\<lparr>vga := splice v n (replicate (nat VGA_COLS) (celula branco (cor_atual s))), cur_lin := VGA_ROWS - 1\<rparr>)"

definition linha_prox :: "shell \<Rightarrow> shell" where
  "linha_prox s =
     (let s = s\<lparr>cur_col := 0, cur_lin := cur_lin s + 1\<rparr> in if cur_lin s \<ge> VGA_ROWS then scroll s else s)"

definition shell_write_char :: "u8 \<Rightarrow> shell \<Rightarrow> shell" where
  "shell_write_char c s =
     (if c = 10 then linha_prox s
      else if c = 8 then if cur_col s > 0 then poe branco (s\<lparr>cur_col := cur_col s - 1\<rparr>) else s
      else let s = poe c s; s = s\<lparr>cur_col := cur_col s + 1\<rparr> in if cur_col s \<ge> VGA_COLS then linha_prox s else s)"

definition shell_write :: "u8 list \<Rightarrow> shell \<Rightarrow> shell" where "shell_write t s = fold shell_write_char (cstr t) s"

definition shell_writeln :: "u8 list \<Rightarrow> shell \<Rightarrow> shell" where "shell_writeln t s = shell_write_char 10 (shell_write t s)"

definition shell_set_cor :: "u8 \<Rightarrow> shell \<Rightarrow> shell" where "shell_set_cor c s = s\<lparr>cor_atual := c OR 0x00\<rparr>"

definition shell_write_hex :: "u32 \<Rightarrow> shell \<Rightarrow> shell" where
  "shell_write_hex v s =
     fold (\<lambda>i. shell_write_char (bytes ''0123456789ABCDEF'' ! unat (drop_bit (i * 4) v AND 0xF))) (rev [0..<8]) (shell_write (bytes ''0x'') s)"

text \<open>The digits go to the buffer from the last to the first.\<close>

function digitos :: "u32 \<Rightarrow> u8 list" where
  "digitos n = (if n = 0 then [] else (48 + ucast (n mod 10)) # digitos (n div 10))"
  by pat_completeness auto
termination by (relation "measure unat") (auto simp: unat_div word_neq_0_conv word_less_nat_alt)

declare digitos.simps [simp del]

definition shell_write_num :: "u32 \<Rightarrow> shell \<Rightarrow> shell" where
  "shell_write_num n s = (if n = 0 then shell_write_char 48 s else fold shell_write_char (rev (digitos n)) s)"

definition prompt :: "shell \<Rightarrow> shell" where
  "prompt s =
     (let cor_salva = cor_atual s;
          s = shell_write (bytes ''SpaceOS'') (shell_set_cor 0x0A s);
          s = shell_write (bytes ''> '') (shell_set_cor 0x07 s)
      in s\<lparr>cor_atual := cor_salva\<rparr>)"

section \<open>The parser\<close>

text \<open>\<open>argv\<close> holds indices into \<open>tokens\<close>.\<close>

function parser_loop :: "u8 list \<Rightarrow> nat \<Rightarrow> nat list \<Rightarrow> u8 list \<times> nat list" where
  "parser_loop t i av =
     (if char_at t i = 0 \<or> length av \<ge> ARGS_MAX then (t, av)
      else let i = i + length (takeWhile (\<lambda>c. c = branco) (drop i t)) in
        if char_at t i = 0 then (t, av)
        else let j = i + length (takeWhile (\<lambda>c. c \<noteq> branco \<and> c \<noteq> 0) (drop i t)) in
          if char_at t j = branco then parser_loop (t[j := 0]) (j + 1) (av @ [i]) else parser_loop t j (av @ [i]))"
  by pat_completeness auto
termination
proof (relation "measure (\<lambda>(t, i, av). length t - i)")
  fix t i and av :: "nat list" and x xa
  assume h: "\<not> (char_at t i = 0 \<or> length av \<ge> ARGS_MAX)" "x = i + length (takeWhile (\<lambda>c. c = branco) (drop i t))" "char_at t x \<noteq> 0"
    "xa = x + length (takeWhile (\<lambda>c. c \<noteq> branco \<and> c \<noteq> 0) (drop x t))"
  have i: "i < length t" "x < length t" using h(1,3) by (auto simp: char_at_def split: if_splits)
  show "((t[xa := 0], xa + 1, av @ [x]), t, i, av) \<in> measure (\<lambda>(t, i, av). length t - i)" using h(2,4) i(1) by simp
  assume b: "char_at t xa \<noteq> branco"
  have "takeWhile (\<lambda>c. c \<noteq> branco \<and> c \<noteq> 0) (drop x t) \<noteq> []"
  proof
    assume "takeWhile (\<lambda>c. c \<noteq> branco \<and> c \<noteq> 0) (drop x t) = []"
    then have "xa = x" "t ! x = branco \<or> t ! x = 0" using h(4) i(2) by (simp_all add: takeWhile_eq_Nil_iff hd_drop_conv_nth)
    then show False using b h(3) i(2) by (simp add: char_at_def)
  qed
  then have "0 < length (takeWhile (\<lambda>c. c \<noteq> branco \<and> c \<noteq> 0) (drop x t))" by blast
  then have "i < xa" using h(2,4) by linarith
  then show "((t, xa, av @ [x]), t, i, av) \<in> measure (\<lambda>(t, i, av). length t - i)" using i(1) by simp
qed simp

declare parser_loop.simps [simp del]

definition parser :: "u8 list \<Rightarrow> shell \<Rightarrow> shell" where
  "parser entrada s =
     (let (t, av) = parser_loop (splice (tokens s) 0 (take (MAX_INPUT - 1) (cstr entrada) @ [0])) 0 []
      in s\<lparr>tokens := t, argv := av\<rparr>)"

definition args :: "shell \<Rightarrow> u8 list list" where "args s = map (\<lambda>i. drop i (tokens s)) (argv s)"

section \<open>The history\<close>

definition str_copia :: "u8 list \<Rightarrow> u8 list \<Rightarrow> nat \<Rightarrow> u8 list" where
  "str_copia dst src max' = splice dst 0 (take (max' - 1) (cstr src) @ [0])"

function iguais :: "u8 list \<Rightarrow> u8 list \<Rightarrow> bool" where
  "iguais a b = (if char_at a 0 \<noteq> 0 \<or> char_at b 0 \<noteq> 0 then if char_at a 0 \<noteq> char_at b 0 then False else iguais (tl a) (tl b) else True)"
  by pat_completeness auto
termination by (relation "measure (\<lambda>(a, b). length a)") (auto simp: char_at_def split: if_splits)

declare iguais.simps [simp del]

definition historico_salvar :: "u8 list \<Rightarrow> shell \<Rightarrow> shell" where
  "historico_salvar cmd s =
     (if char_at cmd 0 = 0 then s
      else if hist_total s > 0 \<and> iguais cmd (historico s ! ((hist_total s - 1) mod HISTORICO_MAX)) then s
      else let k = hist_total s mod HISTORICO_MAX in
        s\<lparr>historico := (historico s)[k := str_copia (historico s ! k) cmd MAX_INPUT], hist_total := hist_total s + 1\<rparr>)"

fun apaga :: "nat \<Rightarrow> shell \<Rightarrow> shell" where
  "apaga 0 s = s"
| "apaga (Suc n) s =
     (let s = s\<lparr>cur_col := cur_col s - 1\<rparr>; s = (if cur_col s < 0 then s\<lparr>cur_col := 0\<rparr> else s) in apaga n (poe branco s))"

definition historico_carregar :: "int \<Rightarrow> shell \<Rightarrow> shell" where
  "historico_carregar pos s =
     (if hist_total s = 0 then s
      else let s = (apaga (input_len s) s)\<lparr>input_len := 0\<rparr>;
               idx = (int (hist_total s) - 1 - pos) smod int HISTORICO_MAX;
               idx = (if idx < 0 then idx + int HISTORICO_MAX else idx);
               cmd = take (MAX_INPUT - 1) (cstr (historico s ! nat idx));
               s = fold shell_write_char cmd s
        in s\<lparr>input_buf := (splice (input_buf s) 0 cmd)[length cmd := 0], input_len := length cmd\<rparr>)"

section \<open>Running a command\<close>

text \<open>The comparison of a name, and the search in the table of names; \<open>corpo i\<close> is the i-th command.\<close>

function nome_igual :: "u8 list \<Rightarrow> u8 list \<Rightarrow> bool" where
  "nome_igual a b =
     (if char_at a 0 \<noteq> 0 \<and> char_at b 0 \<noteq> 0 then if char_at a 0 \<noteq> char_at b 0 then False else nome_igual (tl a) (tl b)
      else char_at a 0 = 0 \<and> char_at b 0 = 0)"
  by pat_completeness auto
termination by (relation "measure (\<lambda>(a, b). length a)") (auto simp: char_at_def split: if_splits)

declare nome_igual.simps [simp del]

definition tabela :: "u8 list list" where
  "tabela = map bytes [''help'', ''clear'', ''info'', ''cor'', ''eco'', ''tecla'', ''mem'', ''paging'', ''espaco'', ''heap'', ''slab'',
     ''proc'', ''syscall'', ''reboot'', ''fork'', ''disco'', ''ls'', ''cd'', ''pwd'', ''cat'', ''mkdir'', ''rm'', ''cp'', ''mv'', ''spk'',
     ''pci'', ''shutdown'', ''net'', ''spfs'', ''audit'', ''ahci'', ''dma'', ''usb'', ''wifi'', ''secboot'']"

fun procura :: "u8 list \<Rightarrow> u8 list list \<Rightarrow> nat \<Rightarrow> nat option" where
  "procura a [] i = None"
| "procura a (b # bs) i = (if nome_igual a b then Some i else procura a bs (i + 1))"

definition comandos_executar ::
  "(nat \<Rightarrow> u8 list list \<Rightarrow> 'm \<times> shell \<Rightarrow> ('m \<times> shell) option) \<Rightarrow> u8 list list \<Rightarrow> 'm \<times> shell \<Rightarrow> (int \<times> 'm \<times> shell) option" where
  "comandos_executar corpo av ms =
     (if av = [] then Some (0, ms)
      else case procura (av ! 0) tabela 0 of
        Some i \<Rightarrow> map_option (\<lambda>ms. (0, ms)) (corpo i av ms)
      | None \<Rightarrow> Some (- 1, ms))"

section \<open>The main loop\<close>

definition shell_antes :: "shell \<Rightarrow> shell" where
  "shell_antes s = (let s = shell_write_char 10 s in s\<lparr>input_buf := (input_buf s)[input_len s := 0]\<rparr>)"

definition shell_prepara :: "shell \<Rightarrow> shell" where
  "shell_prepara s = (let s = (historico_salvar (input_buf s) s)\<lparr>hist_nav := - 1\<rparr> in parser (input_buf s) s)"

definition shell_nao_achou :: "shell \<Rightarrow> shell" where
  "shell_nao_achou s = shell_writeln (input_buf s) (shell_write (bytes ''comando nao encontrado: '') s)"

definition shell_depois :: "shell \<Rightarrow> shell" where
  "shell_depois s = prompt (s\<lparr>input_len := 0, input_buf := (input_buf s)[0 := 0]\<rparr>)"

definition shell_enter :: "(nat \<Rightarrow> u8 list list \<Rightarrow> 'm \<times> shell \<Rightarrow> ('m \<times> shell) option) \<Rightarrow> 'm \<times> shell \<Rightarrow> ('m \<times> shell) option" where
  "shell_enter corpo ms =
     (let (m, s) = ms; s = shell_antes s in
      if input_len s > 0 then
        let s = shell_prepara s in
        case comandos_executar corpo (args s) (m, s) of
          None \<Rightarrow> None
        | Some (r, m, s) \<Rightarrow> Some (m, shell_depois (if r = - 1 then shell_nao_achou s else s))
      else Some (m, shell_depois s))"

definition shell_cima :: "shell \<Rightarrow> shell" where
  "shell_cima s =
     (if hist_total s = 0 then s
      else let s = (if hist_nav s < int (hist_total s) - 1 then s\<lparr>hist_nav := hist_nav s + 1\<rparr> else s)
        in historico_carregar (hist_nav s) s)"

definition shell_baixo :: "shell \<Rightarrow> shell" where
  "shell_baixo s =
     (if hist_nav s > 0 then let s = s\<lparr>hist_nav := hist_nav s - 1\<rparr> in historico_carregar (hist_nav s) s
      else if hist_nav s = 0 then
        let s = apaga (input_len s) s in s\<lparr>input_len := 0, input_buf := (input_buf s)[0 := 0], hist_nav := - 1\<rparr>
      else s)"

text \<open>A \<open>char\<close> is signed: the codes of the special keys are below the space.\<close>

definition shell_tecla ::
  "(nat \<Rightarrow> u8 list list \<Rightarrow> 'm \<times> shell \<Rightarrow> ('m \<times> shell) option) \<Rightarrow> u8 \<Rightarrow> 'm \<times> shell \<Rightarrow> ('m \<times> shell) option" where
  "shell_tecla corpo c ms =
     (let (m, s) = ms in
      if c = 0 then Some ms
      else if c = 10 then shell_enter corpo ms
      else if c = 8 then
        Some (m, if input_len s > 0 then shell_write_char 8 (s\<lparr>input_len := input_len s - 1\<rparr>) else s)
      else if c = TECLA_SETA_CIMA then Some (m, shell_cima s)
      else if c = TECLA_SETA_BAIXO then Some (m, shell_baixo s)
      else if sint c \<ge> 32 \<and> input_len s < MAX_INPUT - 1 then
        let s = s\<lparr>input_buf := (input_buf s)[input_len s := c], input_len := input_len s + 1\<rparr>
        in Some (m, (shell_write_char c s)\<lparr>hist_nav := - 1\<rparr>)
      else Some (m, s))"

fun shell_teclas ::
  "(nat \<Rightarrow> u8 list list \<Rightarrow> 'm \<times> shell \<Rightarrow> ('m \<times> shell) option) \<Rightarrow> u8 list \<Rightarrow> 'm \<times> shell \<Rightarrow> ('m \<times> shell) option" where
  "shell_teclas corpo [] ms = Some ms"
| "shell_teclas corpo (c # cs) ms = (case shell_tecla corpo c ms of None \<Rightarrow> None | Some ms \<Rightarrow> shell_teclas corpo cs ms)"

text \<open>Before the loop.\<close>

definition shell_abertura :: "shell \<Rightarrow> shell" where
  "shell_abertura s =
     (let s = shell_set_cor 0x0F (shell_clear s);
          s = fold shell_writeln (map bytes [''================================'', ''  SpaceOS v0.2 - Lua'', ''  Shell inicializada'',
                ''  Digite 'help' para comecar'', ''================================'', ''''  ]) s
      in prompt s)"

section \<open>Comparisons and numbers\<close>

lemma nome_igual_eq: "nome_igual a b \<longleftrightarrow> cstr a = cstr b"
proof (induction a b rule: nome_igual.induct)
  case (1 a b)
  then show ?case
    by (subst nome_igual.simps; cases "char_at a 0 = 0"; cases "char_at b 0 = 0") (auto simp: cstr_step cstr_stop)
qed

lemma iguais_eq: "iguais a b \<longleftrightarrow> cstr a = cstr b"
proof (induction a b rule: iguais.induct)
  case (1 a b)
  then show ?case
    by (subst iguais.simps; cases "char_at a 0 = 0"; cases "char_at b 0 = 0") (auto simp: cstr_step cstr_stop)
qed

text \<open>\<open>shell_write_num\<close> writes the decimal digits of the number, at most ten of them: the buffer has twelve bytes.\<close>

lemma digito: "unat (48 + ucast (n mod 10 :: u32) :: u8) = 48 + unat n mod 10"
proof -
  have "unat (ucast (n mod 10) :: u8) = unat n mod 10"
    by (simp add: unsigned_ucast_eq unat_mod take_bit_nat_eq_self_iff)
  then show ?thesis by (simp add: unat_word_ariths)
qed

lemma digitos_Cons: "n \<noteq> 0 \<Longrightarrow> digitos n = (48 + ucast (n mod 10)) # digitos (n div 10)"
  by (subst digitos.simps) simp

lemma digitos_0 [simp]: "digitos 0 = []" by (subst digitos.simps) simp

lemma digitos_valor: "foldr (\<lambda>c v. 10 * v + (unat c - 48)) (digitos n) 0 = unat n"
proof (induction n rule: digitos.induct)
  case (1 n)
  then show ?case by (cases "n = 0") (simp_all add: digitos_Cons digito unat_div)
qed

lemma digitos_algarismos: "c \<in> set (digitos n) \<Longrightarrow> 48 \<le> unat c \<and> unat c < 58"
proof (induction n rule: digitos.induct)
  case (1 n)
  have "unat n mod 10 < 10" by simp
  then show ?case using 1 by (cases "n = 0") (auto simp: digitos_Cons digito)
qed

lemma digitos_tamanho: "unat n < 10 ^ k \<Longrightarrow> length (digitos n) \<le> k"
proof (induction k arbitrary: n)
  case (Suc k)
  have "unat (n div 10) < 10 ^ k" using Suc.prems by (simp add: unat_div less_mult_imp_div_less mult.commute)
  then show ?case using Suc.IH by (cases "n = 0") (simp_all add: digitos_Cons)
qed (simp add: unsigned_eq_0_iff)

lemma digitos_ok: "length (digitos n) \<le> 10"
  using digitos_tamanho [of n 10] unsigned_less [of n, where ?'a = nat] by simp

section \<open>What each function of the screen changes\<close>

definition tela_ok :: "shell \<Rightarrow> bool" where
  "tela_ok s = (length (vga s) = 2000 \<and> 0 \<le> cur_col s \<and> cur_col s < VGA_COLS \<and> 0 \<le> cur_lin s \<and> cur_lin s < VGA_ROWS)"

definition resto :: "shell \<Rightarrow> u8 list \<times> nat \<times> u8 list list \<times> nat \<times> int \<times> u8 list \<times> nat list" where
  "resto s = (input_buf s, input_len s, historico s, hist_total s, hist_nav s, tokens s, argv s)"

lemma resto_iff: "resto s = resto t \<longleftrightarrow> input_buf s = input_buf t \<and> input_len s = input_len t \<and> historico s = historico t \<and>
    hist_total s = hist_total t \<and> hist_nav s = hist_nav t \<and> tokens s = tokens t \<and> argv s = argv t"
  by (simp add: resto_def)

lemma poe_ok [simp]: "resto (poe c s) = resto s" "tela_ok (poe c s) = tela_ok s" "cor_atual (poe c s) = cor_atual s"
  by (simp_all add: poe_def resto_def tela_ok_def)

lemma length_fold_update [simp]: "length (fold (\<lambda>i v. v[i := f i v]) is v) = length v"
  by (induction "is" arbitrary: v) simp_all

lemma scroll_ok: "length (vga s) = 2000 \<Longrightarrow> 0 \<le> cur_col s \<Longrightarrow> cur_col s < VGA_COLS \<Longrightarrow> tela_ok (scroll s)" "resto (scroll s) = resto s"
    "cor_atual (scroll s) = cor_atual s"
  by (simp_all add: scroll_def tela_ok_def resto_def VGA_ROWS_def VGA_COLS_def Let_def)

lemma linha_prox_ok: "tela_ok s \<Longrightarrow> tela_ok (linha_prox s)" "resto (linha_prox s) = resto s" "cor_atual (linha_prox s) = cor_atual s"
proof -
  have c: "resto (s\<lparr>cur_col := 0, cur_lin := cur_lin s + 1\<rparr>) = resto s" by (simp add: resto_def)
  show "resto (linha_prox s) = resto s" "cor_atual (linha_prox s) = cor_atual s"
    by (simp_all add: linha_prox_def Let_def scroll_ok c)
  assume "tela_ok s"
  then show "tela_ok (linha_prox s)" unfolding linha_prox_def Let_def
    using scroll_ok(1) [of "s\<lparr>cur_col := 0, cur_lin := cur_lin s + 1\<rparr>"] by (auto simp: tela_ok_def VGA_COLS_def)
qed

lemma escreve_ok: "tela_ok s \<Longrightarrow> tela_ok (shell_write_char c s)" "resto (shell_write_char c s) = resto s" "cor_atual (shell_write_char c s) = cor_atual s"
proof -
  let ?p = "poe c s" let ?q = "?p\<lparr>cur_col := cur_col ?p + 1\<rparr>"
  have r: "resto (s\<lparr>cur_col := k\<rparr>) = resto s" for k and s :: shell by (simp add: resto_def)
  show "resto (shell_write_char c s) = resto s" "cor_atual (shell_write_char c s) = cor_atual s"
    by (simp_all add: shell_write_char_def Let_def linha_prox_ok r)
  assume t: "tela_ok s"
  show "tela_ok (shell_write_char c s)"
  proof (cases "c = 10 \<or> c = 8")
    case True
    then show ?thesis using t linha_prox_ok(1) [OF t] by (auto simp: shell_write_char_def) (simp add: tela_ok_def)
  next
    case False
    have p: "tela_ok ?p" using t by simp
    have "tela_ok (linha_prox ?q)" if "cur_col ?q \<ge> VGA_COLS"
      using p scroll_ok(1) [of "?q\<lparr>cur_col := 0, cur_lin := cur_lin ?q + 1\<rparr>"]
      by (auto simp: linha_prox_def Let_def tela_ok_def VGA_COLS_def)
    moreover have "tela_ok ?q" if "\<not> cur_col ?q \<ge> VGA_COLS" using that p by (simp add: tela_ok_def)
    ultimately show ?thesis using False by (simp add: shell_write_char_def Let_def)
  qed
qed

lemma escreve_fold: "tela_ok s \<Longrightarrow> tela_ok (fold shell_write_char cs s)" "resto (fold shell_write_char cs s) = resto s"
    "cor_atual (fold shell_write_char cs s) = cor_atual s"
  by (induction cs arbitrary: s) (simp_all add: escreve_ok)

lemma shell_write_ok: "tela_ok s \<Longrightarrow> tela_ok (shell_write t s)" "resto (shell_write t s) = resto s"
    "tela_ok s \<Longrightarrow> tela_ok (shell_writeln t s)" "resto (shell_writeln t s) = resto s"
  by (simp_all add: shell_write_def shell_writeln_def escreve_fold escreve_ok)

lemma cor_ok [simp]: "tela_ok (s\<lparr>cor_atual := c\<rparr>) = tela_ok s" "resto (s\<lparr>cor_atual := c\<rparr>) = resto s"
    "tela_ok (shell_set_cor c s) = tela_ok s" "resto (shell_set_cor c s) = resto s"
  by (simp_all add: tela_ok_def resto_def shell_set_cor_def)

lemma prompt_ok: "tela_ok s \<Longrightarrow> tela_ok (prompt s)" "resto (prompt s) = resto s"
  by (simp_all add: prompt_def Let_def shell_write_ok)

lemma escreve_fold_f: "(tela_ok t \<longrightarrow> tela_ok (fold (\<lambda>i. shell_write_char (g i)) is t)) \<and> resto (fold (\<lambda>i. shell_write_char (g i)) is t) = resto t"
  by (induction "is" arbitrary: t) (simp_all add: escreve_ok)

lemma numero_ok: "tela_ok s \<Longrightarrow> tela_ok (shell_write_num n s)" "resto (shell_write_num n s) = resto s"
    "tela_ok s \<Longrightarrow> tela_ok (shell_write_hex n s)" "resto (shell_write_hex n s) = resto s"
proof -
  show "tela_ok s \<Longrightarrow> tela_ok (shell_write_num n s)" "resto (shell_write_num n s) = resto s"
    by (simp_all add: shell_write_num_def escreve_fold escreve_ok)
  show "tela_ok s \<Longrightarrow> tela_ok (shell_write_hex n s)"
    unfolding shell_write_hex_def by (rule escreve_fold_f [THEN conjunct1, rule_format], rule shell_write_ok(1))
  show "resto (shell_write_hex n s) = resto s"
    unfolding shell_write_hex_def by (rule trans, rule escreve_fold_f [THEN conjunct2], rule shell_write_ok(2))
qed

lemma clear_ok: "length (vga s) = 2000 \<Longrightarrow> tela_ok (shell_clear s)" "resto (shell_clear s) = resto s"
  by (simp_all add: shell_clear_def tela_ok_def resto_def VGA_COLS_def VGA_ROWS_def)

definition recua :: "shell \<Rightarrow> shell" where
  "recua s = (let s = s\<lparr>cur_col := cur_col s - 1\<rparr> in if cur_col s < 0 then s\<lparr>cur_col := 0\<rparr> else s)"

lemma recua_ok: "tela_ok s \<Longrightarrow> tela_ok (recua s)" "resto (recua s) = resto s" "apaga (Suc n) s = apaga n (poe branco (recua s))"
  by (auto simp: recua_def Let_def tela_ok_def VGA_COLS_def resto_def)

lemma apaga_ok: "(tela_ok s \<longrightarrow> tela_ok (apaga n s)) \<and> resto (apaga n s) = resto s"
  by (induction n arbitrary: s) (simp_all add: recua_ok del: apaga.simps(2))

section \<open>The words of a line\<close>

function palavras :: "u8 list \<Rightarrow> u8 list list" where
  "palavras xs =
     (let ys = dropWhile (\<lambda>c. c = branco) xs in
      if ys = [] then [] else takeWhile (\<lambda>c. c \<noteq> branco) ys # palavras (dropWhile (\<lambda>c. c \<noteq> branco) ys))"
  by pat_completeness auto
termination
proof (relation "measure length")
  fix xs x :: "u8 list" assume h: "x = dropWhile (\<lambda>c. c = branco) xs" "x \<noteq> []"
  then have "hd x \<noteq> branco" using hd_dropWhile [of "\<lambda>c. c = branco" xs] by simp
  then obtain y ys where y: "x = y # ys" "y \<noteq> branco" using h(2) by (cases x) auto
  have "length (dropWhile (\<lambda>c. c \<noteq> branco) x) < length x" using y length_dropWhile_le [of "\<lambda>c. c \<noteq> branco" ys] by simp
  also have "\<dots> \<le> length xs" using h(1) length_dropWhile_le by simp
  finally show "(dropWhile (\<lambda>c. c \<noteq> branco) x, xs) \<in> measure length" by simp
qed simp

declare palavras.simps [simp del]

lemma cstr_fica: "take (length pre) t = pre \<Longrightarrow> 0 \<in> set (drop k pre) \<Longrightarrow> cstr (drop k t) = cstr (drop k pre)"
proof -
  assume h: "take (length pre) t = pre" "0 \<in> set (drop k pre)"
  have l: "length pre \<le> length t" "k \<le> length pre" using h by (metis nat_le_linear take_all_iff order_refl length_take min.absorb2, metis nat_le_linear drop_all empty_iff list.set(1))
  have "drop k t = drop k pre @ drop (length pre) t"
    by (subst append_take_drop_id [of "length pre" t, symmetric], subst h(1)) (use l in simp)
  then show ?thesis using h(2) by (simp add: cstr_def takeWhile_append1)
qed

lemma takeWhile_dropWhile: "\<not> Q y \<Longrightarrow> takeWhile (\<lambda>c. P c \<and> Q c) (dropWhile P xs @ y # zs) = []"
  by (induction xs) auto

lemma parser_loop_ok:
  "is_cstr rest \<Longrightarrow> length av \<le> ARGS_MAX \<Longrightarrow> \<forall>k \<in> set av. 0 \<in> set (drop k pre) \<Longrightarrow>
   \<exists>t' av'. parser_loop (pre @ rest @ 0 # z) (length pre) av = (t', av') \<and> length t' = length (pre @ rest @ 0 # z) \<and>
     take (length pre) t' = pre \<and> (\<forall>k \<in> set av'. 0 \<in> set (drop k t')) \<and> length av' \<le> ARGS_MAX \<and>
     map (\<lambda>i. cstr (drop i t')) av' = map (\<lambda>i. cstr (drop i pre)) av @ take (ARGS_MAX - length av) (palavras rest)"
proof (induction rest arbitrary: pre av rule: length_induct)
  case (1 rest)
  define T where "T = pre @ rest @ 0 # z"
  define sp where "sp = takeWhile (\<lambda>c. c = branco) rest"
  define x where "x = dropWhile (\<lambda>c. c = branco) rest"
  define w where "w = takeWhile (\<lambda>c. c \<noteq> branco) x"
  define r where "r = dropWhile (\<lambda>c. c \<noteq> branco) x"
  have parts: "rest = sp @ x" "x = w @ r" by (simp_all add: sp_def x_def w_def r_def)
  have c: "is_cstr x" "is_cstr w" "is_cstr r" using 1(2) parts by auto
  have fica: "map (\<lambda>i. cstr (drop i T)) av = map (\<lambda>i. cstr (drop i pre)) av" "\<forall>k \<in> set av. 0 \<in> set (drop k T)"
    using 1(4) cstr_fica [of pre T] by (auto simp: T_def)
  have a0: "char_at T (length pre) = (if rest = [] then 0 else hd rest)" by (cases rest) (simp_all add: char_at_def T_def)
  have tkT: "take (length pre) T = pre" by (simp add: T_def)
  show ?case
  proof (cases "rest = [] \<or> length av = ARGS_MAX")
    case True
    have pl: "parser_loop T (length pre) av = (T, av)" using True a0 by (subst parser_loop.simps) auto
    have "take (ARGS_MAX - length av) (palavras rest) = []" using True by (auto simp: palavras.simps)
    then have "map (\<lambda>i. cstr (drop i T)) av = map (\<lambda>i. cstr (drop i pre)) av @ take (ARGS_MAX - length av) (palavras rest)"
      unfolding fica(1) by (simp only: append_Nil2)
    then show ?thesis unfolding T_def [symmetric] using pl fica(2) tkT 1(3) by blast
  next
    case False
    have n0: "char_at T (length pre) \<noteq> 0" using a0 False 1(2) by (cases rest) (auto simp: is_cstr_def)
    have tw: "takeWhile (\<lambda>c. c = branco) (drop (length pre) T) = sp"
    proof -
      have "takeWhile (\<lambda>c. c = branco) (x @ 0 # z) = []"
        using takeWhile_dropWhile [of "\<lambda>c. c = branco" 0 "\<lambda>c. c = branco" rest z] by (simp add: x_def branco_def)
      moreover have "\<forall>c \<in> set sp. c = branco" unfolding sp_def by (auto dest: set_takeWhileD)
      ultimately show ?thesis using parts(1) by (simp add: takeWhile_append2 T_def)
    qed
    show ?thesis
    proof (cases "x = []")
      case True
      then have "parser_loop T (length pre) av = (T, av)"
        using n0 False 1(3) tw parts(1) by (subst parser_loop.simps) (auto simp: Let_def char_at_def nth_append T_def)
      moreover have "palavras rest = []" using True by (subst palavras.simps) (simp add: x_def)
      ultimately show ?thesis unfolding T_def [symmetric] using fica tkT 1(3) by simp
    next
      case x: False
      let ?i = "length pre + length sp" let ?j = "?i + length w"
      have t1: "T = (pre @ sp) @ w @ r @ 0 # z" using parts by (simp add: T_def)
      have hx: "hd x \<noteq> branco" using hd_dropWhile [of "\<lambda>c. c = branco" rest] x by (simp add: x_def)
      then have wn: "w \<noteq> []" using x by (cases x) (auto simp: w_def)
      have ci: "char_at T ?i \<noteq> 0" using wn c(2) unfolding t1 by (cases w) (auto simp: char_at_def nth_append is_cstr_def)
      have tw2: "takeWhile (\<lambda>c. c \<noteq> branco \<and> c \<noteq> 0) (drop ?i T) = w"
      proof -
        have "takeWhile (\<lambda>c. c \<noteq> branco \<and> c \<noteq> 0) (r @ 0 # z) = []"
          using takeWhile_dropWhile [of "\<lambda>c. c \<noteq> 0" 0 "\<lambda>c. c \<noteq> branco" x z] by (simp add: r_def)
        moreover have "\<forall>c \<in> set w. c \<noteq> branco \<and> c \<noteq> 0" using c(2) unfolding w_def is_cstr_def by (auto dest: set_takeWhileD)
        ultimately show ?thesis unfolding t1 by (simp add: takeWhile_append2)
      qed
      have pw: "palavras rest = w # palavras r" using x by (subst palavras.simps) (simp add: x_def [symmetric] w_def r_def Let_def)
      have step: "parser_loop T (length pre) av =
          (if char_at T ?j = branco then parser_loop (T[?j := 0]) (?j + 1) (av @ [?i]) else parser_loop T ?j (av @ [?i]))"
        using n0 False 1(3) ci by (subst parser_loop.simps) (simp only: tw tw2 Let_def, simp)
      have la: "length av < ARGS_MAX" using False 1(3) by simp
      show ?thesis
      proof (cases "r = []")
        case True
        have cj: "char_at T ?j = 0" unfolding t1 True by (simp add: char_at_def nth_append)
        have p: "parser_loop T (length pre) av = (T, av @ [?i])"
          unfolding step using cj by (simp add: branco_def) (subst parser_loop.simps, simp)
        have w: "drop ?i T = w @ 0 # z" unfolding t1 True by simp
        have "take (ARGS_MAX - length av) (palavras rest) = [w]"
          using la unfolding pw True by (subst palavras.simps) (simp add: take_Cons')
        then show ?thesis unfolding T_def [symmetric] using fica tkT la c(2) unfolding p by (simp add: w)
      next
        case r: False
        then obtain r' where r': "r = branco # r'" using hd_dropWhile [of "\<lambda>c. c \<noteq> branco" x] by (cases r) (auto simp: r_def)
        let ?pre = "pre @ sp @ w @ [0]"
        have cj: "char_at T ?j = branco" unfolding t1 r' by (simp add: char_at_def nth_append)
        have tj: "T[?j := 0] = ?pre @ r' @ 0 # z" unfolding t1 r' by (simp add: list_update_append)
        have lr: "length r' < length rest" using parts r' by simp
        have cr: "is_cstr r'" using c(3) r' by simp
        have av: "\<forall>k \<in> set (av @ [?i]). 0 \<in> set (drop k ?pre)" using 1(4) by auto
        have la': "length (av @ [?i]) \<le> ARGS_MAX" using la by simp
        obtain t' av' where q: "parser_loop (?pre @ r' @ 0 # z) (length ?pre) (av @ [?i]) = (t', av')"
            "length t' = length (?pre @ r' @ 0 # z)" "take (length ?pre) t' = ?pre" "\<forall>k \<in> set av'. 0 \<in> set (drop k t')" "length av' \<le> ARGS_MAX"
            "map (\<lambda>i. cstr (drop i t')) av' = map (\<lambda>i. cstr (drop i ?pre)) (av @ [?i]) @ take (ARGS_MAX - length (av @ [?i])) (palavras r')"
          using 1(1) lr cr la' av by blast
        have p: "parser_loop T (length pre) av = (t', av')"
          unfolding step using cj q(1) tj by (simp add: add.assoc)
        have "take (length pre) (take (length ?pre) t') = take (length pre) ?pre" using q(3) by simp
        then have tk: "take (length pre) t' = pre" by (simp add: min_def)
        have wd: "cstr (drop ?i ?pre) = w" using c(2) by simp
        have old: "map (\<lambda>i. cstr (drop i ?pre)) av = map (\<lambda>i. cstr (drop i pre)) av"
          using 1(4) cstr_fica [of pre ?pre] by simp
        have pr: "palavras r = palavras r'" unfolding r' by (subst (1 2) palavras.simps) simp
        have "take (ARGS_MAX - length av) (palavras rest) = w # take (ARGS_MAX - length (av @ [?i])) (palavras r')"
        proof -
          have "ARGS_MAX - length av = Suc (ARGS_MAX - length (av @ [?i]))" using la by simp
          then show ?thesis unfolding pw pr by (simp only: take_Suc_Cons)
        qed
        then show ?thesis using p q tk wd old r' parts by (intro exI [of _ t'] exI [of _ av']) (simp add: T_def)
      qed
    qed
  qed
qed

section \<open>The invariant\<close>

definition linha_ok :: "shell \<Rightarrow> bool" where
  "linha_ok s = (length (input_buf s) = MAX_INPUT \<and> input_len s < MAX_INPUT \<and> 0 \<notin> set (take (input_len s) (input_buf s)))"

definition hist_ok :: "shell \<Rightarrow> bool" where
  "hist_ok s = (length (historico s) = HISTORICO_MAX \<and> (\<forall>h \<in> set (historico s). length h = MAX_INPUT \<and> 0 \<in> set h) \<and>
     - 1 \<le> hist_nav s \<and> hist_nav s < int (hist_total s))"

definition args_ok :: "shell \<Rightarrow> bool" where
  "args_ok s = (length (tokens s) = MAX_INPUT \<and> length (argv s) \<le> ARGS_MAX \<and> (\<forall>i \<in> set (argv s). 0 \<in> set (drop i (tokens s))))"

definition shell_ok :: "shell \<Rightarrow> bool" where
  "shell_ok s = (tela_ok s \<and> linha_ok s \<and> hist_ok s \<and> args_ok s)"

lemma ok_resto: "resto s = resto t \<Longrightarrow> linha_ok s = linha_ok t" "resto s = resto t \<Longrightarrow> hist_ok s = hist_ok t" "resto s = resto t \<Longrightarrow> args_ok s = args_ok t"
  by (auto simp: resto_iff linha_ok_def hist_ok_def args_ok_def)

lemma shell_ok_resto: "shell_ok s \<Longrightarrow> resto t = resto s \<Longrightarrow> tela_ok t \<Longrightarrow> shell_ok t"
  using ok_resto [of t s] by (simp add: shell_ok_def)

lemma shell_ok_tela: "shell_ok s \<Longrightarrow> tela_ok s" by (simp add: shell_ok_def)

lemma shell_ok_char: "shell_ok s \<Longrightarrow> shell_ok (shell_write_char c s)"
  by (rule shell_ok_resto [OF _ escreve_ok(2) escreve_ok(1) [OF shell_ok_tela]])

lemma shell_ok_write: "shell_ok s \<Longrightarrow> shell_ok (shell_write t s)" "shell_ok s \<Longrightarrow> shell_ok (shell_writeln t s)"
  by (rule shell_ok_resto [OF _ shell_write_ok(2) shell_write_ok(1) [OF shell_ok_tela]], assumption, assumption)
    (rule shell_ok_resto [OF _ shell_write_ok(4) shell_write_ok(3) [OF shell_ok_tela]])

lemma shell_ok_prompt: "shell_ok s \<Longrightarrow> shell_ok (prompt s)"
  by (rule shell_ok_resto [OF _ prompt_ok(2) prompt_ok(1) [OF shell_ok_tela]])

lemma smod_indice: "(if (a :: int) smod 16 < 0 then a smod 16 + 16 else a smod 16) \<in> {0..<16}"
proof -
  have "0 \<le> \<bar>a\<bar> mod 16 \<and> \<bar>a\<bar> mod 16 < 16" by simp
  moreover have "a smod 16 = sgn a * (\<bar>a\<bar> mod 16)"
    by (cases "a \<ge> 0") (auto simp: signed_modulo_int_def signed_divide_int_def sgn_if minus_div_mult_eq_mod minus_mult_div_eq_mod algebra_simps)
  ultimately show ?thesis by (auto simp: sgn_if)
qed

lemma cstr_0: "0 \<in> set h \<Longrightarrow> length (cstr h) < length h"
  unfolding cstr_def by (induction h) auto

lemma carregar_ok:
  assumes "shell_ok s"
  shows "shell_ok (historico_carregar pos s)"
proof (cases "hist_total s = 0")
  case False
  define s1 where "s1 = (apaga (input_len s) s)\<lparr>input_len := 0\<rparr>"
  define idx where "idx = (let i = (int (hist_total s1) - 1 - pos) smod int HISTORICO_MAX in if i < 0 then i + int HISTORICO_MAX else i)"
  define cmd where "cmd = take (MAX_INPUT - 1) (cstr (historico s1 ! nat idx))"
  define s2 where "s2 = fold shell_write_char cmd s1"
  have e: "historico_carregar pos s = s2\<lparr>input_buf := (splice (input_buf s2) 0 cmd)[length cmd := 0], input_len := length cmd\<rparr>"
    using False by (simp add: historico_carregar_def s1_def idx_def cmd_def s2_def Let_def)
  have a: "tela_ok (apaga (input_len s) s)" "resto (apaga (input_len s) s) = resto s" using assms apaga_ok [of s "input_len s"] by (simp_all add: shell_ok_def)
  have h1: "tela_ok s1" "hist_ok s1" "args_ok s1" "length (input_buf s1) = MAX_INPUT"
    using a assms by (auto simp: s1_def shell_ok_def tela_ok_def hist_ok_def args_ok_def linha_ok_def resto_iff)
  then have h2: "tela_ok s2" "resto s2 = resto s1" by (simp_all add: s2_def escreve_fold)
  have l: "length cmd < MAX_INPUT" by (simp add: cmd_def MAX_INPUT_def)
  have z: "0 \<notin> set cmd" unfolding cmd_def cstr_def by (auto dest: in_set_takeD set_takeWhileD)
  have b: "length (input_buf s2) = MAX_INPUT" "hist_ok s2" "args_ok s2" using h1 h2(2) ok_resto [of s2 s1] by (simp_all add: resto_iff)
  have "take (length cmd) ((splice (input_buf s2) 0 cmd)[length cmd := 0]) = cmd" using l b(1) by (simp add: splice_def)
  then show ?thesis using h2(1) b l z unfolding e
    by (simp add: shell_ok_def linha_ok_def hist_ok_def args_ok_def tela_ok_def)
qed (use assms in \<open>simp add: historico_carregar_def\<close>)

lemma salvar_ok:
  assumes "hist_ok s"
  shows "hist_ok (historico_salvar cmd s)" "tela_ok (historico_salvar cmd s) = tela_ok s" "linha_ok (historico_salvar cmd s) = linha_ok s"
    "args_ok (historico_salvar cmd s) = args_ok s" "input_buf (historico_salvar cmd s) = input_buf s" "input_len (historico_salvar cmd s) = input_len s"
proof -
  let ?k = "hist_total s mod HISTORICO_MAX"
  have l: "length (historico s) = HISTORICO_MAX" "\<forall>h \<in> set (historico s). length h = MAX_INPUT \<and> 0 \<in> set h" using assms by (simp_all add: hist_ok_def)
  have k: "?k < length (historico s)" unfolding l(1) by (simp add: HISTORICO_MAX_def)
  then have "length (historico s ! ?k) = MAX_INPUT" using l(2) by simp
  then have r: "length (str_copia (historico s ! ?k) cmd MAX_INPUT) = MAX_INPUT \<and> 0 \<in> set (str_copia (historico s ! ?k) cmd MAX_INPUT)"
    by (simp add: str_copia_def MAX_INPUT_def splice_def)
  then show "hist_ok (historico_salvar cmd s)" using assms k
    by (auto simp: historico_salvar_def hist_ok_def Let_def dest: set_update_subset_insert [THEN subsetD])
qed (auto simp: historico_salvar_def tela_ok_def linha_ok_def args_ok_def Let_def)

text \<open>The parser on a line of the editor.\<close>

lemma parser_ok:
  assumes "length (tokens s) = MAX_INPUT"
  shows "args_ok (parser entrada s)" "map cstr (args (parser entrada s)) = take ARGS_MAX (palavras (take (MAX_INPUT - 1) (cstr entrada)))"
    "tela_ok (parser entrada s) = tela_ok s" "linha_ok (parser entrada s) = linha_ok s" "hist_ok (parser entrada s) = hist_ok s"
    "input_buf (parser entrada s) = input_buf s"
proof -
  let ?l = "take (MAX_INPUT - 1) (cstr entrada)"
  obtain z where z: "splice (tokens s) 0 (?l @ [0]) = [] @ ?l @ 0 # z" by (simp add: splice_def)
  have len: "length ([] @ ?l @ 0 # z) = MAX_INPUT" unfolding z [symmetric] using assms by (simp add: MAX_INPUT_def)
  obtain t av where p: "parser_loop ([] @ ?l @ 0 # z) 0 [] = (t, av)" "length t = MAX_INPUT" "\<forall>k \<in> set av. 0 \<in> set (drop k t)" "length av \<le> ARGS_MAX"
      "map (\<lambda>i. cstr (drop i t)) av = take ARGS_MAX (palavras ?l)"
    using parser_loop_ok [of ?l "[]" "[]" z] len by auto
  have e: "parser entrada s = s\<lparr>tokens := t, argv := av\<rparr>" unfolding parser_def z p(1) by simp
  show "args_ok (parser entrada s)" "map cstr (args (parser entrada s)) = take ARGS_MAX (palavras ?l)"
    "tela_ok (parser entrada s) = tela_ok s" "linha_ok (parser entrada s) = linha_ok s" "hist_ok (parser entrada s) = hist_ok s"
    "input_buf (parser entrada s) = input_buf s"
    using p(2-5) by (simp_all add: e args_ok_def args_def o_def tela_ok_def linha_ok_def hist_ok_def)
qed

lemma antes_ok: "shell_ok s \<Longrightarrow> shell_ok (shell_antes s)"
proof -
  assume "shell_ok s"
  then have "shell_ok (shell_write_char 10 s)" by (rule shell_ok_char)
  then show ?thesis by (auto simp: shell_antes_def Let_def shell_ok_def tela_ok_def linha_ok_def hist_ok_def args_ok_def)
qed

lemma prepara_ok:
  assumes "shell_ok s"
  shows "shell_ok (shell_prepara s)"
    "map cstr (args (shell_prepara s)) = take ARGS_MAX (palavras (take (MAX_INPUT - 1) (cstr (input_buf s))))"
    "input_buf (shell_prepara s) = input_buf s"
proof -
  let ?h = "historico_salvar (input_buf s) s" let ?n = "?h\<lparr>hist_nav := - 1\<rparr>"
  have hs: "hist_ok s" using assms by (simp add: shell_ok_def)
  have h: "shell_ok ?h" using assms salvar_ok [OF hs, of "input_buf s"] by (simp add: shell_ok_def)
  have n: "shell_ok ?n" using h by (auto simp: shell_ok_def tela_ok_def linha_ok_def hist_ok_def args_ok_def)
  have t: "length (tokens ?n) = MAX_INPUT" using n by (simp add: shell_ok_def args_ok_def)
  have b: "input_buf ?n = input_buf s" using salvar_ok(5) [OF hs] by simp
  show "shell_ok (shell_prepara s)" using parser_ok [OF t, of "input_buf ?n"] n by (simp add: shell_prepara_def shell_ok_def Let_def)
  show "map cstr (args (shell_prepara s)) = take ARGS_MAX (palavras (take (MAX_INPUT - 1) (cstr (input_buf s))))"
    "input_buf (shell_prepara s) = input_buf s"
    using parser_ok(2,6) [OF t, of "input_buf ?n"] b by (simp_all add: shell_prepara_def Let_def)
qed

lemma depois_ok: "shell_ok s \<Longrightarrow> shell_ok (shell_depois s) \<and> input_len (shell_depois s) = 0"
proof
  let ?u = "s\<lparr>input_len := 0, input_buf := (input_buf s)[0 := 0]\<rparr>"
  assume "shell_ok s"
  then have "shell_ok ?u" by (auto simp: shell_ok_def tela_ok_def linha_ok_def hist_ok_def args_ok_def MAX_INPUT_def)
  then show "shell_ok (shell_depois s)" unfolding shell_depois_def by (rule shell_ok_prompt)
  show "input_len (shell_depois s) = 0" using prompt_ok(2) [of ?u] by (simp add: resto_iff shell_depois_def)
qed

lemma letra_ok:
  assumes "shell_ok s" "sint c \<ge> 32" "input_len s < MAX_INPUT - 1"
  shows "shell_ok ((shell_write_char c (s\<lparr>input_buf := (input_buf s)[input_len s := c], input_len := input_len s + 1\<rparr>))\<lparr>hist_nav := - 1\<rparr>)"
proof -
  let ?t = "s\<lparr>input_buf := (input_buf s)[input_len s := c], input_len := input_len s + 1\<rparr>"
  have "c \<noteq> 0" using assms(2) by auto
  then have "shell_ok ?t" using assms(1,3)
    by (auto simp: shell_ok_def tela_ok_def linha_ok_def hist_ok_def args_ok_def take_Suc_conv_app_nth)
  then have "shell_ok (shell_write_char c ?t)" by (rule shell_ok_char)
  then show ?thesis by (auto simp: shell_ok_def tela_ok_def linha_ok_def hist_ok_def args_ok_def)
qed

section \<open>Commands that only write\<close>

text \<open>The interface of the commands: what the main loop needs of \<open>corpo\<close>.\<close>

locale comandos =
  fixes corpo :: "nat \<Rightarrow> u8 list list \<Rightarrow> 'm \<times> shell \<Rightarrow> ('m \<times> shell) option"
  assumes corpo_escreve: "corpo i av (m, s) = Some (m', s') \<Longrightarrow> tela_ok s \<Longrightarrow> tela_ok s' \<and> resto s' = resto s"
begin

lemma executar_ok:
  assumes "comandos_executar corpo av (m, s) = Some (r, m', s')" "tela_ok s"
  shows "tela_ok s' \<and> resto s' = resto s"
  using assms corpo_escreve by (auto simp: comandos_executar_def split: if_splits option.splits)

lemma enter_ok:
  assumes "shell_ok s" "shell_enter corpo (m, s) = Some (m', s')"
  shows "shell_ok s' \<and> input_len s' = 0"
proof (cases "input_len (shell_antes s) > 0")
  case False
  then have "s' = shell_depois (shell_antes s)" using assms(2) by (simp add: shell_enter_def Let_def)
  then show ?thesis using depois_ok [OF antes_ok [OF assms(1)]] by simp
next
  case True
  note s2 = prepara_ok(1) [OF antes_ok [OF assms(1)]]
  obtain r m1 s3 where x: "comandos_executar corpo (args (shell_prepara (shell_antes s))) (m, shell_prepara (shell_antes s)) = Some (r, m1, s3)"
      "s' = shell_depois (if r = - 1 then shell_nao_achou s3 else s3)"
    using assms(2) True by (auto simp: shell_enter_def Let_def split: option.splits)
  have "tela_ok s3 \<and> resto s3 = resto (shell_prepara (shell_antes s))" using executar_ok [OF x(1)] s2 by (simp add: shell_ok_def)
  then have s3: "shell_ok s3" using shell_ok_resto [OF s2] by blast
  then have "shell_ok (shell_nao_achou s3)" unfolding shell_nao_achou_def by (intro shell_ok_write)
  then have "shell_ok (if r = - 1 then shell_nao_achou s3 else s3)" using s3 by simp
  then show ?thesis unfolding x(2) by (rule depois_ok)
qed

lemma tecla_ok:
  assumes "shell_ok s" "shell_tecla corpo c (m, s) = Some (m', s')"
  shows "shell_ok s'"
proof -
  have cima: "shell_ok (shell_cima s)"
  proof -
    have "shell_ok (if hist_nav s < int (hist_total s) - 1 then s\<lparr>hist_nav := hist_nav s + 1\<rparr> else s)"
      using assms(1) by (auto simp: shell_ok_def tela_ok_def linha_ok_def hist_ok_def args_ok_def)
    then show ?thesis using assms(1) carregar_ok by (simp add: shell_cima_def Let_def)
  qed
  have baixo: "shell_ok (shell_baixo s)"
  proof -
    have a: "tela_ok (apaga (input_len s) s)" "resto (apaga (input_len s) s) = resto s" using assms(1) apaga_ok by (simp_all add: shell_ok_def)
    have "shell_ok ((apaga (input_len s) s)\<lparr>input_len := 0, input_buf := (input_buf (apaga (input_len s) s))[0 := 0], hist_nav := - 1\<rparr>)"
      using a assms(1) by (auto simp: shell_ok_def tela_ok_def linha_ok_def hist_ok_def args_ok_def resto_iff MAX_INPUT_def)
    moreover have "shell_ok (s\<lparr>hist_nav := hist_nav s - 1\<rparr>)" if "hist_nav s > 0"
      using assms(1) that by (auto simp: shell_ok_def tela_ok_def linha_ok_def hist_ok_def args_ok_def)
    ultimately show ?thesis using assms(1) carregar_ok by (simp add: shell_baixo_def Let_def)
  qed
  have volta: "shell_ok (shell_write_char 8 (s\<lparr>input_len := input_len s - 1\<rparr>))" if "input_len s > 0"
  proof -
    have "take (input_len s - 1) (input_buf s) = take (input_len s - 1) (take (input_len s) (input_buf s))" by simp
    then have "0 \<notin> set (take (input_len s - 1) (input_buf s))" using assms(1) by (metis in_set_takeD linha_ok_def shell_ok_def)
    then have "shell_ok (s\<lparr>input_len := input_len s - 1\<rparr>)"
      using assms(1) by (auto simp: shell_ok_def tela_ok_def linha_ok_def hist_ok_def args_ok_def)
    then show ?thesis by (rule shell_ok_char)
  qed
  show ?thesis using assms cima baixo volta letra_ok [OF assms(1)] enter_ok [OF assms(1)]
    by (auto simp: shell_tecla_def Let_def split: if_splits)
qed

lemma teclas_ok: "shell_ok s \<Longrightarrow> shell_teclas corpo cs (m, s) = Some (m', s') \<Longrightarrow> shell_ok s'"
proof (induction cs arbitrary: m s)
  case (Cons c cs)
  then obtain m1 s1 where t: "shell_tecla corpo c (m, s) = Some (m1, s1)" "shell_teclas corpo cs (m1, s1) = Some (m', s')"
    by (auto split: option.splits)
  then show ?case using Cons.IH tecla_ok [OF Cons.prems(1) t(1)] by blast
qed simp

end

section \<open>A line typed\<close>

lemma teclas_append: "shell_teclas corpo (cs @ ds) ms = (case shell_teclas corpo cs ms of None \<Rightarrow> None | Some ms \<Rightarrow> shell_teclas corpo ds ms)"
  by (induction cs arbitrary: ms) (auto split: option.splits)

lemma teclas_letras:
  assumes "shell_ok s" "\<forall>c \<in> set cs. sint c \<ge> 32" "input_len s + length cs < MAX_INPUT"
  obtains s1 where "shell_teclas corpo cs (m, s) = Some (m, s1)" "shell_ok s1" "input_len s1 = input_len s + length cs"
    "take (input_len s1) (input_buf s1) = take (input_len s) (input_buf s) @ cs"
proof -
  have "\<exists>s1. shell_teclas corpo cs (m, s) = Some (m, s1) \<and> shell_ok s1 \<and> input_len s1 = input_len s + length cs \<and>
    take (input_len s1) (input_buf s1) = take (input_len s) (input_buf s) @ cs"
    using assms
  proof (induction cs arbitrary: s)
    case (Cons c cs)
    let ?t = "s\<lparr>input_buf := (input_buf s)[input_len s := c], input_len := input_len s + 1\<rparr>"
    let ?u = "(shell_write_char c ?t)\<lparr>hist_nav := - 1\<rparr>"
    have c: "sint c \<ge> 32" "input_len s < MAX_INPUT - 1" using Cons.prems(2,3) by simp_all
    have n: "c \<noteq> 0" "c \<noteq> 10" "c \<noteq> 8" "c \<noteq> TECLA_SETA_CIMA" "c \<noteq> TECLA_SETA_BAIXO"
      using c(1) by (auto simp: TECLA_SETA_CIMA_def TECLA_SETA_BAIXO_def)
    have t: "shell_tecla corpo c (m, s) = Some (m, ?u)" using n c by (simp add: shell_tecla_def Let_def)
    have u: "shell_ok ?u" by (rule letra_ok [OF Cons.prems(1) c])
    have b: "input_len ?u = input_len s + 1" "input_buf ?u = (input_buf s)[input_len s := c]"
      using escreve_ok(2) [of c ?t] by (simp_all add: resto_iff)
    have l: "input_len s < length (input_buf s)" using Cons.prems(1) by (simp add: shell_ok_def linha_ok_def)
    have p: "take (input_len s + 1) ((input_buf s)[input_len s := c]) = take (input_len s) (input_buf s) @ [c]"
      using l by (simp add: take_Suc_conv_app_nth)
    obtain s1 where "shell_teclas corpo cs (m, ?u) = Some (m, s1)" "shell_ok s1" "input_len s1 = input_len ?u + length cs"
        "take (input_len s1) (input_buf s1) = take (input_len ?u) (input_buf ?u) @ cs"
      using Cons.IH [OF u] Cons.prems(2,3) b(1) by auto
    then show ?case using t p unfolding b by simp
  qed simp
  then show thesis using that by blast
qed

lemma cstr_corta: "is_cstr p \<Longrightarrow> take (length p) b = p \<Longrightarrow> length p < length b \<Longrightarrow> cstr (b[length p := 0]) = p"
  by (metis cstr_append_0 upd_conv_take_nth_drop)

lemma salvar_linha:
  assumes "hist_ok s" "cstr cmd \<noteq> []" "length (cstr cmd) < MAX_INPUT"
  shows "cstr (historico (historico_salvar cmd s) ! ((hist_total (historico_salvar cmd s) - 1) mod HISTORICO_MAX)) = cstr cmd"
proof -
  have c: "char_at cmd 0 \<noteq> 0" using assms(2) cstr_stop by blast
  let ?k = "hist_total s mod HISTORICO_MAX"
  have k: "?k < length (historico s)" "length (historico s ! ?k) = MAX_INPUT"
    using assms(1) by (simp_all add: hist_ok_def HISTORICO_MAX_def)
  have "cstr (str_copia (historico s ! ?k) cmd MAX_INPUT) = cstr cmd" using assms(3) by (simp add: str_copia_def splice_def)
  then show ?thesis using c k by (auto simp: historico_salvar_def Let_def iguais_eq)
qed

lemma procura_some: "procura a bs k = Some j \<Longrightarrow> k \<le> j \<and> j - k < length bs \<and> cstr a = cstr (bs ! (j - k))"
proof (induction bs arbitrary: k)
  case (Cons b bs)
  show ?case
  proof (cases "nome_igual a b")
    case True
    then show ?thesis using Cons.prems by (simp add: nome_igual_eq)
  next
    case False
    then have "k + 1 \<le> j \<and> j - (k + 1) < length bs \<and> cstr a = cstr (bs ! (j - (k + 1)))" using Cons by simp
    moreover from this have "j - k = Suc (j - (k + 1))" by (metis Suc_diff_Suc Suc_eq_plus1 Suc_le_eq)
    ultimately show ?thesis by simp
  qed
qed simp

lemma procura_none: "procura a bs k = None \<Longrightarrow> \<forall>b \<in> set bs. cstr a \<noteq> cstr b"
  by (induction bs arbitrary: k) (auto simp: nome_igual_eq split: if_splits)

lemma tabela_nomes: "distinct tabela" "length tabela = 35" "list_all is_cstr tabela"
  by (code_simp, code_simp, code_simp)

lemma procura_tabela: "i < length tabela \<Longrightarrow> cstr a = tabela ! i \<Longrightarrow> procura a tabela 0 = Some i"
proof -
  assume h: "i < length tabela" "cstr a = tabela ! i"
  have c: "cstr (tabela ! j) = tabela ! j" if "j < length tabela" for j using that tabela_nomes(3) by (simp add: list_all_length)
  show ?thesis
  proof (cases "procura a tabela 0")
    case None
    then show ?thesis using procura_none [OF None] h c nth_mem by metis
  next
    case (Some j)
    then have "j < length tabela" "tabela ! i = tabela ! j" using procura_some [OF Some] h c by simp_all
    then show ?thesis using Some h(1) tabela_nomes(1) by (simp add: nth_eq_iff_index_eq)
  qed
qed

lemma linha_digitada:
  assumes "shell_ok s" "input_len s = 0" "line \<noteq> []" "length line < MAX_INPUT" "\<forall>c \<in> set line. sint c \<ge> 32"
  shows "\<exists>s2 av. shell_ok s2 \<and> map cstr av = take ARGS_MAX (palavras line) \<and>
     cstr (historico s2 ! ((hist_total s2 - 1) mod HISTORICO_MAX)) = line \<and>
     (\<forall>i < length tabela. palavras line \<noteq> [] \<longrightarrow> hd (palavras line) = tabela ! i \<longrightarrow>
        shell_teclas corpo (line @ [10]) (m, s) = map_option (\<lambda>(m, s). (m, shell_depois s)) (corpo i av (m, s2))) \<and>
     (palavras line \<noteq> [] \<longrightarrow> hd (palavras line) \<notin> set tabela \<longrightarrow>
        shell_teclas corpo (line @ [10]) (m, s) = Some (m, shell_depois (shell_nao_achou s2))) \<and>
     (palavras line = [] \<longrightarrow> shell_teclas corpo (line @ [10]) (m, s) = Some (m, shell_depois s2))"
proof -
  obtain s1 where t: "shell_teclas corpo line (m, s) = Some (m, s1)" "shell_ok s1" "input_len s1 = length line"
      "take (length line) (input_buf s1) = line"
    using teclas_letras [OF assms(1,5), of corpo m] assms(2,4) by auto
  have z: "is_cstr line" using assms(5) by (force simp: is_cstr_def)
  define a where "a = shell_antes s1"
  define s2 where "s2 = shell_prepara a"
  have a: "shell_ok a" "input_len a = length line" "cstr (input_buf a) = line"
  proof -
    have r: "input_buf (shell_write_char 10 s1) = input_buf s1" "input_len (shell_write_char 10 s1) = input_len s1"
      using escreve_ok(2) [of 10 s1] by (simp_all add: resto_iff)
    show "shell_ok a" unfolding a_def by (rule antes_ok [OF t(2)])
    show "input_len a = length line" by (simp add: a_def shell_antes_def r t(3))
    have "length line < length (input_buf s1)" using t(2) assms(4) by (simp add: shell_ok_def linha_ok_def)
    then show "cstr (input_buf a) = line" using cstr_corta [OF z t(4)] by (simp add: a_def shell_antes_def r t(3))
  qed
  have w: "map cstr (args s2) = take ARGS_MAX (palavras line)" "shell_ok s2"
    using prepara_ok [OF a(1)] a(3) assms(4) by (simp_all add: s2_def)
  have h: "cstr (historico s2 ! ((hist_total s2 - 1) mod HISTORICO_MAX)) = line"
    using salvar_linha [of a "input_buf a"] a assms(3,4) by (simp add: s2_def shell_prepara_def parser_def shell_ok_def split_beta)
  have e: "shell_teclas corpo (line @ [10]) (m, s) = (case comandos_executar corpo (args s2) (m, s2) of None \<Rightarrow> None
      | Some (r, m, s) \<Rightarrow> Some (m, shell_depois (if r = - 1 then shell_nao_achou s else s)))"
    using t(1) a(2) assms(3) by (simp add: teclas_append shell_tecla_def shell_enter_def a_def [symmetric] s2_def [symmetric] split: option.splits)
  have g: "args s2 = [] \<longleftrightarrow> palavras line = []" using w(1) by (metis ARGS_MAX_def list.map_disc_iff take_eq_Nil zero_neq_numeral)
  have p: "cstr (args s2 ! 0) = hd (palavras line)" if "palavras line \<noteq> []"
  proof -
    have "hd (map cstr (args s2)) = hd (palavras line)" using that w(1) by (simp add: ARGS_MAX_def)
    then show ?thesis using that g by (simp add: hd_map hd_conv_nth)
  qed
  have 1: "shell_teclas corpo (line @ [10]) (m, s) = map_option (\<lambda>(m, s). (m, shell_depois s)) (corpo i (args s2) (m, s2))"
    if "i < length tabela" "palavras line \<noteq> []" "hd (palavras line) = tabela ! i" for i
    using procura_tabela [OF that(1), of "args s2 ! 0"] p that g
    unfolding e by (cases "corpo i (args s2) (m, s2)") (simp_all add: comandos_executar_def split_beta)
  have 2: "shell_teclas corpo (line @ [10]) (m, s) = Some (m, shell_depois (shell_nao_achou s2))"
    if "palavras line \<noteq> []" "hd (palavras line) \<notin> set tabela"
  proof -
    have "procura (args s2 ! 0) tabela 0 = None"
    proof (rule ccontr)
      assume "procura (args s2 ! 0) tabela 0 \<noteq> None"
      then obtain j where "procura (args s2 ! 0) tabela 0 = Some j" by blast
      then have j: "j < length tabela" "cstr (args s2 ! 0) = cstr (tabela ! j)" using procura_some [of _ _ 0 j] by simp_all
      then have "cstr (tabela ! j) = tabela ! j" using tabela_nomes(3) by (simp add: list_all_length)
      then show False using j that p by (metis nth_mem)
    qed
    then show ?thesis using that g unfolding e by (simp add: comandos_executar_def)
  qed
  have 3: "shell_teclas corpo (line @ [10]) (m, s) = Some (m, shell_depois s2)" if "palavras line = []"
    using that g unfolding e by (simp add: comandos_executar_def)
  show ?thesis by (intro exI [of _ s2] exI [of _ "args s2"] conjI allI impI w h 1 2 3)
qed

text \<open>C33: a line typed at the prompt runs its command.  Typing up to 127 printable characters and Enter in a well-formed
  shell stores the line in the history and, when its first word is the i-th name of the table, runs the i-th command
  with the first 16 words of the line as its arguments; any other first word gives the message, a line of spaces
  nothing; then the line is empty again and the prompt is written.\<close>

theorem shell_linha:
  assumes "shell_ok s" "input_len s = 0" "line \<noteq> []" "length line < MAX_INPUT" "\<forall>c \<in> set line. sint c \<ge> 32"
  shows "\<exists>s2 av. shell_ok s2 \<and> map cstr av = take ARGS_MAX (palavras line) \<and>
     cstr (historico s2 ! ((hist_total s2 - 1) mod HISTORICO_MAX)) = line \<and>
     (\<forall>i < length tabela. palavras line \<noteq> [] \<longrightarrow> hd (palavras line) = tabela ! i \<longrightarrow>
        shell_teclas corpo (line @ [10]) (m, s) = map_option (\<lambda>(m, s). (m, shell_depois s)) (corpo i av (m, s2))) \<and>
     (palavras line \<noteq> [] \<longrightarrow> hd (palavras line) \<notin> set tabela \<longrightarrow>
        shell_teclas corpo (line @ [10]) (m, s) = Some (m, shell_depois (shell_nao_achou s2))) \<and>
     (palavras line = [] \<longrightarrow> shell_teclas corpo (line @ [10]) (m, s) = Some (m, shell_depois s2))"
  by (rule linha_digitada [OF assms])

definition shell_exemplo :: shell where
  "shell_exemplo = \<lparr>vga = replicate 2000 0, cur_col = 0, cur_lin = 24, cor_atual = 0x0F, input_buf = replicate 128 0, input_len = 0,
     historico = replicate 16 (replicate 128 0), hist_total = 0, hist_nav = - 1, tokens = replicate 128 0, argv = []\<rparr>"

lemma shell_exemplo_ok: "shell_ok shell_exemplo" "input_len shell_exemplo = 0"
  by (simp_all add: shell_ok_def tela_ok_def linha_ok_def hist_ok_def args_ok_def shell_exemplo_def VGA_COLS_def VGA_ROWS_def
      MAX_INPUT_def HISTORICO_MAX_def ARGS_MAX_def)

text \<open>A line with two spaces, and a machine that notes the number of the command.\<close>

theorem shell_linha_witness:
  "\<exists>s2 av. map cstr av = [bytes ''eco'', bytes ''oi''] \<and>
     shell_teclas (\<lambda>i av (n, s). Some (i, s)) (bytes ''eco  oi'' @ [10]) (0 :: nat, shell_exemplo) = Some (4, shell_depois s2)"
proof -
  let ?c = "\<lambda>i av (n :: nat, s :: shell). Some (i :: nat, s)" and ?l = "bytes ''eco  oi''"
  have w: "palavras ?l = [bytes ''eco'', bytes ''oi'']" by code_simp
  have t: "(4 :: nat) < length tabela" "tabela ! 4 = bytes ''eco''" by code_simp+
  have l: "?l \<noteq> []" "length ?l < MAX_INPUT" "\<forall>c \<in> set ?l. sint c \<ge> 32" by (simp_all add: MAX_INPUT_def)
  obtain s2 av where A: "map cstr av = take ARGS_MAX (palavras ?l)"
      "\<forall>i < length tabela. palavras ?l \<noteq> [] \<longrightarrow> hd (palavras ?l) = tabela ! i \<longrightarrow>
        shell_teclas ?c (?l @ [10]) (0, shell_exemplo) = map_option (\<lambda>(m, s). (m, shell_depois s)) (?c i av (0, s2))"
    using shell_linha [OF shell_exemplo_ok l, of ?c 0] by blast
  have "shell_teclas ?c (?l @ [10]) (0, shell_exemplo) = map_option (\<lambda>(m, s). (m, shell_depois s)) (?c 4 av (0, s2))"
    using A(2) t w by (metis list.discI list.sel(1))
  then show ?thesis using A(1) w by (intro exI [of _ s2] exI [of _ av]) (simp add: ARGS_MAX_def)
qed

section \<open>The prefix of the keyboard\<close>

text \<open>The test for the prefix byte \<open>0xE0\<close> stands after the test of its high bit, so it is never reached.\<close>

theorem teclado_e0_morto: "\<not> prefixo_e0 s \<Longrightarrow> \<not> prefixo_e0 (fold teclado_handler scs s)"
proof (induction scs arbitrary: s)
  case (Cons sc scs)
  have "\<not> prefixo_e0 (teclado_handler sc s)"
    using Cons.prems by (cases "sc = 0xE0") (auto simp: teclado_handler_def split: option.splits)
  then show ?case using Cons.IH by simp
qed simp

end
