(* ===== verification/Comandos.thy ===== *)
theory Comandos
  imports Pkg Shell
begin

text \<open>
  The commands of \<^verbatim>\<open>kernel/shell/comandos.c\<close> that show text or use the file system, over the machine \<open>pkg\<close> (VFS, heap,
  uninitialised memory) and the shell.  The arguments are the strings \<open>argv\<close> points to.  The other commands, tests and
  reports of hardware drivers, are the argument \<open>outros\<close>, which \<open>Nucleo\<close> gives.
\<close>

section \<open>Writing\<close>

type_synonym maq = "pkg \<times> shell"

definition diz :: "u8 list \<Rightarrow> maq \<Rightarrow> maq" where "diz t ms = (fst ms, shell_writeln t (snd ms))"
definition diz2 :: "u8 list \<Rightarrow> u8 list \<Rightarrow> maq \<Rightarrow> maq" where "diz2 t u ms = (fst ms, shell_writeln u (shell_write t (snd ms)))"
definition dizem :: "u8 list list \<Rightarrow> maq \<Rightarrow> maq" where "dizem ts ms = (fst ms, fold shell_writeln ts (snd ms))"

text \<open>A call of the machine below the shell.\<close>

definition chama :: "(pkg \<Rightarrow> ('r \<times> pkg) option) \<Rightarrow> maq \<Rightarrow> ('r \<times> maq) option" where
  "chama f ms = map_option (\<lambda>(r, m). (r, m, snd ms)) (f (fst ms))"

definition montado :: "maq \<Rightarrow> bool" where "montado ms = vfs_mounted (p_vfs (fst ms))"

definition aloca :: "u32 \<Rightarrow> pkg \<Rightarrow> (u32 \<times> pkg) option" where
  "aloca n m = map_option (\<lambda>(p, h). (p, m\<lparr>p_heap := h\<rparr>)) (kmalloc n (p_heap m))"

definition libera :: "u32 \<Rightarrow> pkg \<Rightarrow> (unit \<times> pkg) option" where "libera p m = map_option (Pair ()) (com_kfree p m)"

definition preenche :: "u8 list \<Rightarrow> nat \<Rightarrow> shell \<Rightarrow> shell" where
  "preenche t n s = fold shell_write_char (replicate (n - length (cstr t)) branco) s"

definition mostra_texto :: "u8 list \<Rightarrow> shell \<Rightarrow> shell" where
  "mostra_texto t s = fold (\<lambda>c s. if c = 10 then shell_writeln [] s else if c \<noteq> 13 then shell_write_char c s else s) t s"

section \<open>Text\<close>

definition descricoes :: "u8 list list" where
  "descricoes =
    [bytes ''Lista todos os comandos'',
     bytes ''limpa a tela'',
     bytes ''Lista informa'' @ [0xC3, 0xA7, 0xC3, 0xB5] @ bytes ''es do sistema'',
     bytes ''Altera a cor do texto ex: cor 10'',
     bytes ''Repete o texto digitado ex: eco Ol'' @ [0xC3, 0xA1] @ bytes '', mundo!'',
     bytes ''mostra codigo da tecla pressionada'',
     bytes ''mostra informacoes de memoria'',
     bytes ''testa o sistema de paging'',
     bytes ''mostra layout de memoria virtual'',
     bytes ''testa kmalloc e kfree'',
     bytes ''testa o slab allocator'',
     bytes ''lista processos'',
     bytes ''testa as syscalls'',
     bytes ''Reinicia o sistema'',
     bytes ''testa fork e identidade'',
     bytes ''testa o driver ATA'',
     bytes ''lista arquivos: ls [caminho]'',
     bytes ''muda diretorio: cd <caminho>'',
     bytes ''mostra diretorio atual'',
     bytes ''mostra arquivo: cat <arquivo>'',
     bytes ''cria diretorio: mkdir <nome>'',
     bytes ''apaga arquivo: rm <arquivo>'',
     bytes ''copia arquivo: cp <orig> <dest>'',
     bytes ''move/renomeia: mv <orig> <dest>'',
     bytes ''gerenciador de pacotes: spk <install|remove|list|info>'',
     bytes ''lista dispositivos PCI detectados'',
     bytes ''desliga o sistema via ACPI'',
     bytes ''info/init de rede: net [init|dns <host>]'',
     bytes ''SpaceFS: spfs <fmt|ls|cat|write|info> [args]'',
     bytes ''log de auditoria: audit [n_linhas]'',
     bytes ''info do controlador AHCI/SATA'',
     bytes ''info do Bus Master DMA'',
     bytes ''lista dispositivos USB'',
     bytes ''info do adaptador WiFi'',
     bytes ''status de integridade do kernel'']"

definition cmd_help :: "u8 list list \<Rightarrow> maq \<Rightarrow> maq option" where
  "cmd_help av ms =
     (let ms = dizem [bytes ''Comandos disponiveis'', []] ms;
          s = fold (\<lambda>(n, d) s. shell_writeln d (shell_write (bytes ''- '') (preenche n 10 (shell_write n (shell_write (bytes ''  '') s)))))
                (zip tabela descricoes) (snd ms)
      in Some (diz [] (fst ms, s)))"

definition cmd_clear :: "u8 list list \<Rightarrow> maq \<Rightarrow> maq option" where "cmd_clear av ms = Some (fst ms, shell_clear (snd ms))"

definition cmd_info :: "u8 list list \<Rightarrow> maq \<Rightarrow> maq option" where
  "cmd_info av ms =
     Some (dizem (map bytes
       [''================================'', ''  SpaceOS v0.2 - Lua'', ''  O unico OS onde voce'', ''  controla tudo - e pode provar'',
        ''================================'', [], ''Kernel:      SpaceOS bare metal'', ''Arch:        x86 32-bit'',
        ''Build:       2025'', ''Status:      v0.2 Lua - Shell ativa'', []]) ms)"

definition cmd_espaco :: "u8 list list \<Rightarrow> maq \<Rightarrow> maq option" where
  "cmd_espaco av ms =
     Some (dizem (map bytes
       [''=== Espaco de enderecos ==='', [], ''0x00000000 - 0xBFFFFFFF  usuario  (3GB)'', ''0xC0000000 - 0xFFFFFFFF  kernel   (1GB)'', [],
        ''Kernel mapeado em: 0x00100000'', ''Heap kernel em:    0x00300000'', [], ''Paginas kernel: Ring 3 nao tem acesso'',
        ''Paginas usuario: Ring 0 e Ring 3 tem acesso'', [], ''Espaco kernel vs usuario: OK'']) ms)"

text \<open>The number is an \<open>int\<close>, whose overflow is the wrap-around of the machine.\<close>

definition num_arg :: "u8 list \<Rightarrow> u32" where
  "num_arg t = fold (\<lambda>c n. n * 10 + (ucast c - 48)) (takeWhile (\<lambda>c. 48 \<le> c \<and> c \<le> 57) t) 0"

definition cmd_cor :: "u8 list list \<Rightarrow> maq \<Rightarrow> maq option" where
  "cmd_cor av ms =
     (if length av < 2 then
        Some (dizem (map bytes
          [''uso: cor [0-15]'', ''  0=preto  1=azul    2=verde   3=ciano'', ''  4=verm   5=roxo    6=marrom  7=cinza'',
           ''  8=cinzaE 9=azulE  10=verdeE 11=cianoE'', '' 12=vermE 13=roxoE  14=amarelo 15=branco'']) ms)
      else let n = sint (num_arg (av ! 1)) in
        if n < 0 \<or> n > 15 then Some (fst ms, shell_write (bytes ''cor deve ser entre 0 e 15'') (snd ms))
        else Some (diz (bytes ''cor alterada!'') (fst ms, shell_set_cor (of_int n) (snd ms))))"

definition cmd_eco :: "u8 list list \<Rightarrow> maq \<Rightarrow> maq option" where
  "cmd_eco av ms =
     Some (diz [] (fst ms, fold (\<lambda>i s. shell_write (av ! i) (if i > 1 then shell_write_char branco s else s)) [1..<length av] (snd ms)))"

section \<open>Files\<close>

definition cmd_pwd :: "u8 list list \<Rightarrow> maq \<Rightarrow> maq option" where
  "cmd_pwd av ms =
     (if \<not> montado ms then Some (diz (bytes ''pwd: sem filesystem montado'') ms)
      else Some (diz (vfs_getcwd (p_vfs (fst ms))) ms))"

definition ls_linha :: "vfs_entry \<Rightarrow> shell \<Rightarrow> shell" where
  "ls_linha e s =
     (if ve_is_dir e then shell_writeln (bytes ''/'') (shell_write (ve_name e) s)
      else shell_writeln [] (shell_write (bytes '' B'') (shell_write_num (ve_size e) (preenche (ve_name e) 16 (shell_write (ve_name e) s)))))"

definition cmd_ls :: "u8 list list \<Rightarrow> maq \<Rightarrow> maq option" where
  "cmd_ls av ms =
     (if \<not> montado ms then Some (diz (bytes ''ls: sem filesystem montado'') ms)
      else let path = (if length av \<ge> 2 then av ! 1 else []); (b, m) = lixo (fst ms) in do {
        (r, ms) \<leftarrow> chama (com_vfs (vfs_readdir (Some path) 64 (\<lambda>i. take 13 (drop (24 * i) b)))) (m, snd ms);
        case r of
          None \<Rightarrow>
            let s = shell_write (bytes ''ls: caminho nao encontrado'') (snd ms);
                s = (if length av \<ge> 2 then shell_write (av ! 1) (shell_write (bytes '': '') s) else s)
            in Some (diz [] (fst ms, s))
        | Some [] \<Rightarrow> Some (diz (bytes ''(diretorio vazio)'') ms)
        | Some es \<Rightarrow> Some (fst ms, fold ls_linha es (snd ms)) })"

definition cmd_cd :: "u8 list list \<Rightarrow> maq \<Rightarrow> maq option" where
  "cmd_cd av ms =
     (if \<not> montado ms then Some (diz (bytes ''cd: sem filesystem montado'') ms)
      else if length av < 2 then do {
        (r, ms) \<leftarrow> chama (com_vfs (vfs_chdir (bytes ''/''))) ms;
        Some (if r \<noteq> 0 then diz (bytes ''cd: erro ao voltar para /'') ms else ms) }
      else do {
        (r, ms) \<leftarrow> chama (com_vfs (vfs_chdir (av ! 1))) ms;
        Some (if r \<noteq> 0 then diz2 (bytes ''cd: nao encontrado: '') (av ! 1) ms else ms) })"

definition cmd_cat :: "u8 list list \<Rightarrow> maq \<Rightarrow> maq option" where
  "cmd_cat av ms =
     (if \<not> montado ms then Some (diz (bytes ''cat: sem filesystem montado'') ms)
      else if length av < 2 then Some (diz (bytes ''uso: cat <arquivo>'') ms)
      else do {
        (e, ms) \<leftarrow> chama (com_vfs (vfs_open (av ! 1) entrada0)) ms;
        case e of
          None \<Rightarrow> Some (diz2 (bytes ''cat: arquivo nao encontrado: '') (av ! 1) ms)
        | Some e \<Rightarrow>
            if ve_is_dir e then
              Some (diz (bytes '' e um diretorio'') (fst ms, shell_write (av ! 1) (shell_write (bytes ''cat: '') (snd ms))))
            else if ve_size e = 0 then Some (diz (bytes ''(arquivo vazio)'') ms)
            else do {
              (p, ms) \<leftarrow> chama (aloca (ve_size e + 1)) ms;
              if p = 0 then Some (diz (bytes ''cat: sem memoria'') ms)
              else let (b, m) = lixo (fst ms) in do {
                ((r, b), ms) \<leftarrow> chama (com_vfs (vfs_read (av ! 1) b (ve_size e))) (m, snd ms);
                let ms = (case r of
                    None \<Rightarrow> diz (bytes ''cat: erro de leitura'') ms
                  | Some n \<Rightarrow> diz [] (fst ms, mostra_texto (take (unat n) b) (snd ms)));
                (_, ms) \<leftarrow> chama (libera p) ms;
                Some ms } } })"

definition cmd_mkdir :: "u8 list list \<Rightarrow> maq \<Rightarrow> maq option" where
  "cmd_mkdir av ms =
     (if \<not> montado ms then Some (diz (bytes ''mkdir: sem filesystem montado'') ms)
      else if length av < 2 then Some (diz (bytes ''uso: mkdir <nome>'') ms)
      else do {
        (r, ms) \<leftarrow> chama (com_vfs (vfs_mkdir (av ! 1))) ms;
        Some (diz2 (if r \<noteq> 0 then bytes ''mkdir: erro ao criar: '' else bytes ''Diretorio criado: '') (av ! 1) ms) })"

definition cmd_rm :: "u8 list list \<Rightarrow> maq \<Rightarrow> maq option" where
  "cmd_rm av ms =
     (if \<not> montado ms then Some (diz (bytes ''rm: sem filesystem montado'') ms)
      else if length av < 2 then Some (diz (bytes ''uso: rm <arquivo>'') ms)
      else do {
        (e, ms) \<leftarrow> chama (com_vfs (vfs_open (av ! 1) entrada0)) ms;
        case e of
          None \<Rightarrow> Some (diz2 (bytes ''rm: nao encontrado: '') (av ! 1) ms)
        | Some e \<Rightarrow>
            if ve_is_dir e then
              Some (diz (bytes '' e um diretorio (use rmdir)'') (fst ms, shell_write (av ! 1) (shell_write (bytes ''rm: '') (snd ms))))
            else do {
              (r, ms) \<leftarrow> chama (com_vfs (vfs_unlink (av ! 1))) ms;
              Some (diz2 (if r \<noteq> 0 then bytes ''rm: erro ao apagar: '' else bytes ''Apagado: '') (av ! 1) ms) } })"

definition seta_para :: "u8 list \<Rightarrow> u8 list \<Rightarrow> maq \<Rightarrow> maq" where
  "seta_para a b ms = diz b (fst ms, shell_write (bytes '' -> '') (shell_write a (snd ms)))"

definition cmd_cp :: "u8 list list \<Rightarrow> maq \<Rightarrow> maq option" where
  "cmd_cp av ms =
     (if \<not> montado ms then Some (diz (bytes ''cp: sem filesystem montado'') ms)
      else if length av < 3 then Some (diz (bytes ''uso: cp <origem> <destino>'') ms)
      else do {
        (e, ms) \<leftarrow> chama (com_vfs (vfs_open (av ! 1) entrada0)) ms;
        case e of
          None \<Rightarrow> Some (diz2 (bytes ''cp: origem nao encontrada: '') (av ! 1) ms)
        | Some e \<Rightarrow>
            if ve_is_dir e then Some (diz (bytes ''cp: nao copia diretorios'') ms)
            else do {
              (p, ms) \<leftarrow> chama (aloca (ve_size e + 1)) ms;
              if p = 0 then Some (diz (bytes ''cp: sem memoria'') ms)
              else let (b, m) = lixo (fst ms) in do {
                ((r, b), ms) \<leftarrow> chama (com_vfs (vfs_read (av ! 1) b (ve_size e))) (m, snd ms);
                ms \<leftarrow> (if r = None then Some (diz (bytes ''cp: erro de leitura'') ms)
                  else do {
                    (w, ms) \<leftarrow> chama (com_vfs (vfs_write (av ! 2) b (ve_size e))) ms;
                    Some (if w = None then diz2 (bytes ''cp: erro ao escrever: '') (av ! 2) ms else seta_para (av ! 1) (av ! 2) ms) });
                (_, ms) \<leftarrow> chama (libera p) ms;
                Some ms } } })"

definition cmd_mv :: "u8 list list \<Rightarrow> maq \<Rightarrow> maq option" where
  "cmd_mv av ms =
     (if \<not> montado ms then Some (diz (bytes ''mv: sem filesystem montado'') ms)
      else if length av < 3 then Some (diz (bytes ''uso: mv <origem> <destino>'') ms)
      else do {
        (r, ms) \<leftarrow> chama (com_vfs (vfs_rename (av ! 1) (av ! 2))) ms;
        Some (seta_para (av ! 1) (av ! 2) (if r \<noteq> 0 then (fst ms, shell_write (bytes ''mv: erro ao mover: '') (snd ms)) else ms)) })"

section \<open>The table\<close>

definition corpo :: "(nat \<Rightarrow> u8 list list \<Rightarrow> maq \<Rightarrow> maq option) \<Rightarrow> nat \<Rightarrow> u8 list list \<Rightarrow> maq \<Rightarrow> maq option" where
  "corpo outros i av ms =
     (if i = 0 then cmd_help av ms else if i = 1 then cmd_clear av ms else if i = 2 then cmd_info av ms
      else if i = 3 then cmd_cor av ms else if i = 4 then cmd_eco av ms else if i = 8 then cmd_espaco av ms
      else if i = 16 then cmd_ls av ms else if i = 17 then cmd_cd av ms else if i = 18 then cmd_pwd av ms
      else if i = 19 then cmd_cat av ms else if i = 20 then cmd_mkdir av ms else if i = 21 then cmd_rm av ms
      else if i = 22 then cmd_cp av ms else if i = 23 then cmd_mv av ms else outros i av ms)"

section \<open>The commands only write on the screen\<close>

named_theorems escritas

definition escrita :: "shell \<Rightarrow> shell \<Rightarrow> bool" where
  "escrita s t = ((tela_ok s \<longrightarrow> tela_ok t) \<and> resto t = resto s)"

lemma escrita_refl [simp]: "escrita s s" by (simp add: escrita_def)

lemma clear_tela: "tela_ok s \<Longrightarrow> tela_ok (shell_clear s)" by (rule clear_ok(1)) (simp add: tela_ok_def)

lemma escrita_passo [escritas]:
  "escrita s t \<Longrightarrow> escrita s (shell_write x t)" "escrita s t \<Longrightarrow> escrita s (shell_writeln x t)"
  "escrita s t \<Longrightarrow> escrita s (shell_write_char c t)" "escrita s t \<Longrightarrow> escrita s (shell_write_num n t)"
  "escrita s t \<Longrightarrow> escrita s (shell_set_cor c t)" "escrita s t \<Longrightarrow> escrita s (fold shell_write_char cs t)"
  "escrita s t \<Longrightarrow> escrita s (shell_clear t)"
  by (auto simp: escrita_def shell_write_ok escreve_ok numero_ok escreve_fold clear_tela clear_ok(2))

lemma escrita_preenche [escritas]: "escrita s t \<Longrightarrow> escrita s (preenche x k t)"
  unfolding preenche_def by (erule escrita_passo(6))

lemma escrita_fold: "(\<And>x t. escrita s t \<Longrightarrow> escrita s (f x t)) \<Longrightarrow> escrita s t \<Longrightarrow> escrita s (fold f xs t)"
  by (induction xs arbitrary: t) simp_all

lemma escrita_texto [escritas]:
  "escrita s t \<Longrightarrow> escrita s (mostra_texto x t)" "escrita s t \<Longrightarrow> escrita s (fold shell_writeln xs t)" "escrita s t \<Longrightarrow> escrita s (fold ls_linha es t)"
  unfolding mostra_texto_def
  by (rule escrita_fold; auto intro!: escritas simp: ls_linha_def)+

lemma escrita_diz [escritas]: "escrita s (snd ms) \<Longrightarrow> escrita s (snd (diz x ms))" "escrita s (snd ms) \<Longrightarrow> escrita s (snd (diz2 x y ms))"
  "escrita s (snd ms) \<Longrightarrow> escrita s (snd (dizem xs ms))" "escrita s (snd ms) \<Longrightarrow> escrita s (snd (seta_para x y ms))"
  by (auto simp: diz_def diz2_def dizem_def seta_para_def intro!: escritas)

lemma chama_snd: "chama f ms = Some (r, m, s) \<Longrightarrow> s = snd ms" by (auto simp: chama_def)

lemma cmd_texto_escreve:
  "cmd_help av ms = Some ms' \<Longrightarrow> escrita (snd ms) (snd ms')" "cmd_clear av ms = Some ms' \<Longrightarrow> escrita (snd ms) (snd ms')"
  "cmd_info av ms = Some ms' \<Longrightarrow> escrita (snd ms) (snd ms')" "cmd_espaco av ms = Some ms' \<Longrightarrow> escrita (snd ms) (snd ms')"
  "cmd_cor av ms = Some ms' \<Longrightarrow> escrita (snd ms) (snd ms')" "cmd_eco av ms = Some ms' \<Longrightarrow> escrita (snd ms) (snd ms')"
proof -
  show "cmd_help av ms = Some ms' \<Longrightarrow> escrita (snd ms) (snd ms')"
    unfolding cmd_help_def Let_def option.inject
    by (erule subst, rule escrita_diz, simp only: snd_conv, rule escrita_fold) (auto intro!: escritas)
  show "cmd_eco av ms = Some ms' \<Longrightarrow> escrita (snd ms) (snd ms')"
    unfolding cmd_eco_def option.inject
    by (erule subst, rule escrita_diz, simp only: snd_conv, rule escrita_fold) (auto intro!: escritas)
  show "cmd_cor av ms = Some ms' \<Longrightarrow> escrita (snd ms) (snd ms')"
    unfolding cmd_cor_def Let_def by (simp only: split: if_splits) (auto intro!: escritas simp del: bytes_Cons list.map)
  show "cmd_clear av ms = Some ms' \<Longrightarrow> escrita (snd ms) (snd ms')" by (auto simp: cmd_clear_def intro!: escritas)
  show "cmd_info av ms = Some ms' \<Longrightarrow> escrita (snd ms) (snd ms')" "cmd_espaco av ms = Some ms' \<Longrightarrow> escrita (snd ms) (snd ms')"
    unfolding cmd_info_def cmd_espaco_def option.inject by (erule subst, rule escrita_diz, rule escrita_refl)+
qed

lemma cmd_arquivos_escreve:
  "cmd_pwd av ms = Some ms' \<Longrightarrow> escrita (snd ms) (snd ms')" "cmd_cd av ms = Some ms' \<Longrightarrow> escrita (snd ms) (snd ms')"
  "cmd_mkdir av ms = Some ms' \<Longrightarrow> escrita (snd ms) (snd ms')" "cmd_mv av ms = Some ms' \<Longrightarrow> escrita (snd ms) (snd ms')"
  unfolding cmd_pwd_def cmd_cd_def cmd_mkdir_def cmd_mv_def Let_def
  by (auto split: if_splits bind_splits dest!: chama_snd intro!: escritas simp del: bytes_Cons)

lemma cmd_rm_escreve: "cmd_rm av ms = Some ms' \<Longrightarrow> escrita (snd ms) (snd ms')"
  unfolding cmd_rm_def Let_def
  by (auto split: if_splits bind_splits option.splits dest!: chama_snd intro!: escritas simp del: bytes_Cons)

lemma cmd_ls_escreve: "cmd_ls av ms = Some ms' \<Longrightarrow> escrita (snd ms) (snd ms')"
  unfolding cmd_ls_def Let_def
  by (auto split: if_splits bind_splits option.splits list.splits prod.splits dest!: chama_snd intro!: escritas simp del: bytes_Cons fold.simps)

lemma cmd_cat_escreve: "cmd_cat av ms = Some ms' \<Longrightarrow> escrita (snd ms) (snd ms')"
  unfolding cmd_cat_def Let_def
  by (auto split: if_splits bind_splits option.splits prod.splits dest!: chama_snd intro!: escritas simp del: bytes_Cons)

lemma cmd_cp_escreve: "cmd_cp av ms = Some ms' \<Longrightarrow> escrita (snd ms) (snd ms')"
  unfolding cmd_cp_def Let_def
  by (auto split: if_splits bind_splits option.splits prod.splits dest!: chama_snd intro!: escritas simp: diz_def diz2_def seta_para_def simp del: bytes_Cons)

lemmas comandos_escrevem = cmd_texto_escreve cmd_arquivos_escreve cmd_rm_escreve cmd_ls_escreve cmd_cat_escreve cmd_cp_escreve

lemma corpo_so_escreve:
  assumes "\<And>i av ms ms'. outros i av ms = Some ms' \<Longrightarrow> escrita (snd ms) (snd ms')" "corpo outros i av ms = Some ms'"
  shows "escrita (snd ms) (snd ms')"
  using assms(2) unfolding corpo_def by (auto split: if_splits intro: comandos_escrevem assms(1))

text \<open>The machine with the commands above alone: another one does not return.\<close>

interpretation arq: comandos "corpo (\<lambda>i av ms. None)"
  by unfold_locales (drule corpo_so_escreve [rotated], simp, simp add: escrita_def)

text \<open>the invariant of the shell.  From any well-formed state and for any sequence of keys, special and control ones
  included, and any commands that only write on the screen besides the modelled ones, the state stays well-formed:
  the cursor is on the 80 by 25 screen, so no cell is written outside it, the line and the history entries fit their
  buffers of 128 bytes and end in them, every argument points to a terminated word, and the position in the history
  is one of its commands.\<close>

theorem shell_invariante:
  assumes "\<And>i av ms ms'. outros i av ms = Some ms' \<Longrightarrow> escrita (snd ms) (snd ms')"
    and "shell_ok s" "shell_teclas (corpo outros) teclas (m, s) = Some (m', s')"
  shows "shell_ok s'"
proof -
  have "comandos (corpo outros)"
    by unfold_locales (drule corpo_so_escreve [rotated], erule assms(1), simp add: escrita_def)
  then show ?thesis by (rule comandos.teclas_ok [OF _ assms(2,3)])
qed

lemma cmd_cor_maq: "\<exists>s'. cmd_cor av (m, s) = Some (m, s')"
  by (auto simp: cmd_cor_def diz_def dizem_def Let_def simp del: list.map bytes_Cons)

text \<open>The line \<open>cor 2\<close>, then an arrow up.\<close>

lemma teclas_exemplo: "\<exists>s'. shell_teclas (corpo (\<lambda>i av ms. None)) (bytes ''cor 2'' @ [10, 0x81]) (pkg_exemplo, shell_exemplo) = Some (pkg_exemplo, s')"
proof -
  have w: "palavras (bytes ''cor 2'') = [bytes ''cor'', bytes ''2'']" by code_simp
  have t: "(3 :: nat) < length tabela" "tabela ! 3 = bytes ''cor''" by code_simp+
  have c: "\<forall>c \<in> set (bytes ''cor 2''). sint c \<ge> 32" "bytes ''cor 2'' \<noteq> []" "length (bytes ''cor 2'') < MAX_INPUT" by (simp_all add: MAX_INPUT_def)
  let ?c = "corpo (\<lambda>i av ms. None)"
  obtain s2 av where A: "\<forall>i < length tabela. palavras (bytes ''cor 2'') \<noteq> [] \<longrightarrow> hd (palavras (bytes ''cor 2'')) = tabela ! i \<longrightarrow>
        shell_teclas ?c (bytes ''cor 2'' @ [10]) (pkg_exemplo, shell_exemplo) =
        map_option (\<lambda>(m, s). (m, shell_depois s)) (?c i av (pkg_exemplo, s2))"
    using linha_digitada [OF shell_exemplo_ok c(2,3,1), of ?c pkg_exemplo] by blast
  have s: "shell_teclas ?c (bytes ''cor 2'' @ [10]) (pkg_exemplo, shell_exemplo) =
        map_option (\<lambda>(m, s). (m, shell_depois s)) (?c 3 av (pkg_exemplo, s2))"
    using A t w by (metis list.discI list.sel(1))
  obtain m' s3 where k: "corpo (\<lambda>i av ms. None) 3 av (pkg_exemplo, s2) = Some (m', s3)" "m' = pkg_exemplo"
    using cmd_cor_maq [of av pkg_exemplo s2] by (auto simp: corpo_def)
  have "shell_teclas (corpo (\<lambda>i av ms. None)) (bytes ''cor 2'' @ [10]) (pkg_exemplo, shell_exemplo) = Some (pkg_exemplo, shell_depois s3)"
    unfolding s k(1) using k(2) by simp
  then have "shell_teclas (corpo (\<lambda>i av ms. None)) ((bytes ''cor 2'' @ [10]) @ [0x81]) (pkg_exemplo, shell_exemplo) =
      Some (pkg_exemplo, shell_cima (shell_depois s3))"
    unfolding teclas_append by (simp add: shell_tecla_def TECLA_SETA_CIMA_def)
  then show ?thesis by (simp only: append_assoc append_Cons append_Nil) blast
qed

theorem shell_invariante_witness:
  "\<exists>s'. shell_teclas (corpo (\<lambda>i av ms. None)) (bytes ''cor 2'' @ [10, 0x81]) (pkg_exemplo, shell_exemplo) = Some (pkg_exemplo, s') \<and> shell_ok s'"
proof -
  obtain s' where "shell_teclas (corpo (\<lambda>i av ms. None)) (bytes ''cor 2'' @ [10, 0x81]) (pkg_exemplo, shell_exemplo) = Some (pkg_exemplo, s')"
    using teclas_exemplo by blast
  then show ?thesis using shell_invariante [OF _ shell_exemplo_ok(1), of "\<lambda>i av ms. None"] by blast
qed

end
