(* ===== verification/Auditoria.thy ===== *)
theory Auditoria
  imports Comandos
begin

text \<open>
  The audit log (\<^verbatim>\<open>kernel/fs/audit.c\<close>) and the measurement of the kernel at boot (\<^verbatim>\<open>kernel/cpu/secboot.c\<close>), both over the
  hash of \<open>pkg_checksum\<close>.  The text of an entry is the list of the bytes written to \<open>entry[256]\<close>; the clock and the bytes
  of the kernel between \<open>_start\<close> and \<open>_end\<close> are arguments.
\<close>

section \<open>The hash\<close>

definition djb2 :: "u8 list \<Rightarrow> u32 \<Rightarrow> u32" where
  "djb2 data seed = fold (\<lambda>x h. (push_bit 5 h + h) + ucast x) data seed"

definition hexd :: "u32 \<Rightarrow> u8" where "hexd v = bytes ''0123456789abcdef'' ! unat (v AND 0xF)"

text \<open>The eight digits, written from the last to the first.\<close>

fun hex_loop :: "nat \<Rightarrow> u32 \<Rightarrow> u8 list \<Rightarrow> u8 list" where
  "hex_loop 0 v out = out"
| "hex_loop (Suc i) v out = hex_loop i (drop_bit 4 v) (hexd v # out)"

definition u32_to_hex :: "u32 \<Rightarrow> u8 list" where "u32_to_hex v = hex_loop 8 v []"

section \<open>The audit log\<close>

definition AUDIT_PATH :: "u8 list" where "AUDIT_PATH = bytes ''/var/log/audit.log''"

record audit =
  last_hash :: u32
  a_buf :: "u8 list"
  a_vfs :: vfs

definition append_str :: "u8 list \<Rightarrow> u8 list \<Rightarrow> u8 list" where
  "append_str t s = t @ take (255 - length t) (cstr s)"

text \<open>The part of the entry that is hashed: the details are cut at 64 bytes, without regard to the size of the buffer.\<close>

definition audit_corpo :: "u32 \<Rightarrow> u8 list \<Rightarrow> u8 list \<Rightarrow> u8 list" where
  "audit_corpo ticks event details =
     (let t = append_str (append_str [] (bytes ''T='')) (u32_to_hex ticks);
          t = append_str (append_str t (bytes '' E='')) event;
          t = append_str t (bytes '' D='') @ take 64 (cstr details)
      in append_str t (bytes '' H=''))"

definition audit_log :: "u32 \<Rightarrow> u8 list \<Rightarrow> u8 list \<Rightarrow> audit \<Rightarrow> audit option" where
  "audit_log ticks event details s =
     (let t = audit_corpo ticks event details; h = djb2 t (last_hash s);
          t = append_str t (u32_to_hex h); t = (if length t < 255 then t @ [10] else t)
      in map_option (\<lambda>(_, v). s\<lparr>last_hash := h, a_vfs := v\<rparr>) (vfs_append AUDIT_PATH t (of_nat (length t)) (a_vfs s)))"

definition audit_init :: "u32 \<Rightarrow> audit \<Rightarrow> audit option" where
  "audit_init ticks s =
     (if \<not> vfs_mounted (a_vfs s) then Some s
      else do {
        (_, v) \<leftarrow> vfs_mkdir (bytes ''/var'') (a_vfs s);
        (_, v) \<leftarrow> vfs_mkdir (bytes ''/var/log'') v;
        audit_log ticks (bytes ''BOOT'') (bytes ''SpaceOS kernel started'') (s\<lparr>a_vfs := v\<rparr>) })"

text \<open>Where the last lines start: after the newline number \<open>skip\<close>, at 0 when there is none.\<close>

fun acha_linha :: "u8 list \<Rightarrow> nat \<Rightarrow> int \<Rightarrow> int \<Rightarrow> nat" where
  "acha_linha [] i seen skip = 0"
| "acha_linha (c # cs) i seen skip =
     (if c = 10 then if seen + 1 = skip then i + 1 else acha_linha cs (i + 1) (seen + 1) skip
      else acha_linha cs (i + 1) seen skip)"

definition audit_inicio :: "u8 list \<Rightarrow> int \<Rightarrow> nat" where
  "audit_inicio t n_lines =
     (let skip = int (length (filter (\<lambda>c. c = 10) t)) - n_lines; skip = (if skip < 0 then 0 else skip) in acha_linha t 0 0 skip)"

definition audit_dump :: "int \<Rightarrow> audit \<times> shell \<Rightarrow> (audit \<times> shell) option" where
  "audit_dump n_lines as =
     (let (a, s) = as in do {
        ((r, b), v) \<leftarrow> vfs_read AUDIT_PATH (a_buf a) (of_nat (4096 - 1)) (a_vfs a);
        let n = (case r of None \<Rightarrow> 0 | Some n \<Rightarrow> unat n); a = a\<lparr>a_buf := b, a_vfs := v\<rparr> in
        if n = 0 then Some (a, shell_writeln (bytes ''(log vazio)'') s)
        else let b = b[n := 0]; t = take n b in
          Some (a\<lparr>a_buf := b\<rparr>,
            fold (\<lambda>c s. if c = 10 then shell_writeln [] s else shell_write_char c s) (drop (audit_inicio t n_lines) t) s) })"

section \<open>Secure boot\<close>

definition SECBOOT_HASH_PATH :: "u8 list" where "SECBOOT_HASH_PATH = bytes ''/boot/kernel.hash''"

record secboot =
  sb_verified :: bool
  measured_hash :: u32
  hash_buf :: "u8 list"
  sb_vfs :: vfs

definition djb2_range :: "u8 list \<Rightarrow> u32" where
  "djb2_range p = fold (\<lambda>x h. (push_bit 5 h + h) + ucast x) p 5381"

definition hexval :: "u8 \<Rightarrow> u8 option" where
  "hexval c = (if 48 \<le> c \<and> c \<le> 57 then Some (c - 48) else if 97 \<le> c \<and> c \<le> 102 then Some (c - 97 + 10)
     else if 65 \<le> c \<and> c \<le> 70 then Some (c - 65 + 10) else None)"

fun hex_le :: "u8 list \<Rightarrow> u32 \<Rightarrow> u32" where
  "hex_le [] v = v"
| "hex_le (c # cs) v =
     (if c = 0 then v else case hexval c of None \<Rightarrow> v | Some d \<Rightarrow> hex_le cs (push_bit 4 v OR ucast d))"

definition hex_to_u32 :: "u8 list \<Rightarrow> u32" where
  "hex_to_u32 s =
     (let s = (if char_at s 0 = 48 \<and> (char_at s 1 = 120 \<or> char_at s 1 = 88) then drop 2 s else s) in hex_le s 0)"

definition secboot_measure :: "u8 list \<Rightarrow> u32" where "secboot_measure img = djb2_range img"

definition secboot_texto :: "u32 \<Rightarrow> u8 list" where
  "secboot_texto h = bytes ''0x'' @ map (\<lambda>i. hexd (drop_bit (28 - i * 4) h)) [0..<8] @ [10]"

definition secboot_init :: "u8 list \<Rightarrow> secboot \<times> shell \<Rightarrow> (secboot \<times> shell) option" where
  "secboot_init img bs =
     (let (b, s) = bs; b = b\<lparr>measured_hash := secboot_measure img\<rparr> in
      if \<not> vfs_mounted (sb_vfs b) then Some (b\<lparr>sb_verified := True\<rparr>, s)
      else do {
        (_, v) \<leftarrow> vfs_mkdir (bytes ''/boot'') (sb_vfs b);
        ((r, t), v) \<leftarrow> vfs_read SECBOOT_HASH_PATH (hash_buf b) (of_nat (32 - 1)) v;
        let n = (case r of None \<Rightarrow> 0 | Some n \<Rightarrow> unat n); b = b\<lparr>hash_buf := t\<rparr> in
        if n = 0 then do {
          (_, v) \<leftarrow> vfs_write SECBOOT_HASH_PATH (secboot_texto (measured_hash b)) 11 v;
          Some (b\<lparr>sb_vfs := v, sb_verified := True\<rparr>, shell_writeln (bytes ''SecBoot: hash inicial registrado'') s) }
        else let t = t[n := 0]; b = b\<lparr>hash_buf := t, sb_vfs := v\<rparr>; stored = hex_to_u32 t in
          if stored = measured_hash b then
            Some (b\<lparr>sb_verified := True\<rparr>, shell_writeln (bytes ''SecBoot: integridade verificada'') s)
          else
            let s = shell_write (bytes ''SecBoot: AVISO '' @ [0xE2, 0x80, 0x94] @ bytes '' hash diverge! medido=0x'') s;
                s = shell_write_hex (measured_hash b) s;
                s = shell_write_hex stored (shell_write (bytes '' armazenado=0x'') s)
            in Some (b\<lparr>sb_verified := False\<rparr>, shell_writeln [] s) })"

definition secboot_verified :: "secboot \<Rightarrow> bool" where "secboot_verified b = sb_verified b"

definition secboot_status :: "secboot \<times> shell \<Rightarrow> secboot \<times> shell" where
  "secboot_status bs =
     (let (b, s) = bs;
          s = shell_write (bytes ''Hash medido:  0x'') (shell_writeln (bytes ''=== Secure Boot (BIOS) ==='') s);
          s = shell_writeln [] (shell_write_hex (measured_hash b) s);
          s = shell_writeln (if sb_verified b then bytes ''Status:       OK '' @ [0xE2, 0x80, 0x94] @ bytes '' integridade verificada''
                else bytes ''Status:       AVISO '' @ [0xE2, 0x80, 0x94] @ bytes '' hash divergente ou nao verificado'') s;
          s = shell_writeln (bytes ''Modo:         djb2 (HMAC-SHA256 previsto para v1.x)'') s
      in (b, shell_writeln (bytes ''Hash path:    /boot/kernel.hash'') s))"

section \<open>A changed byte\<close>

lemma djb2_checksum: "pkg_checksum xs = djb2 xs 5381" "djb2_range xs = djb2 xs 5381"
  by (simp_all add: pkg_checksum_def djb2_def djb2_range_def)

lemma djb2_append: "djb2 (xs @ ys) h = djb2 ys (djb2 xs h)"
  by (simp add: djb2_def)

text \<open>A run of the log: the clock, the event and the details of each call.\<close>

fun audit_varios :: "(u32 \<times> u8 list \<times> u8 list) list \<Rightarrow> audit \<Rightarrow> audit option" where
  "audit_varios [] s = Some s"
| "audit_varios ((t, e, d) # xs) s = do { s \<leftarrow> audit_log t e d s; audit_varios xs s }"

definition audit_texto :: "(u32 \<times> u8 list \<times> u8 list) list \<Rightarrow> u8 list" where
  "audit_texto xs = concat (map (\<lambda>(t, e, d). audit_corpo t e d) xs)"

text \<open>The hash of an entry is that of the whole log up to it: with one byte of any earlier entry changed, it differs.\<close>

theorem audit_cadeia:
  assumes "audit_varios xs s = Some s'"
  shows "last_hash s' = djb2 (audit_texto xs) (last_hash s)"
  using assms
proof (induction xs arbitrary: s)
  case (Cons x xs)
  obtain t e d where x: "x = (t, e, d)" by (cases x)
  obtain s1 where s1: "audit_log t e d s = Some s1" "audit_varios xs s1 = Some s'" using Cons.prems x by (auto split: bind_splits)
  then have "last_hash s1 = djb2 (audit_corpo t e d) (last_hash s)" by (auto simp: audit_log_def Let_def)
  then show ?case using Cons.IH [OF s1(2)] by (simp add: x audit_texto_def djb2_append)
qed (simp add: audit_texto_def djb2_def)

theorem audit_adulterado:
  assumes "audit_texto ys = (audit_texto xs)[i := b]" "i < length (audit_texto xs)" "b \<noteq> audit_texto xs ! i"
    and "audit_varios xs s = Some s1" "audit_varios ys t = Some t1" "last_hash s = 5381" "last_hash t = 5381"
  shows "last_hash s1 \<noteq> last_hash t1"
  using audit_cadeia [OF assms(4)] audit_cadeia [OF assms(5)] assms(1-3,6,7) pkg_checksum_troca [OF assms(2), of b]
  by (simp add: djb2_checksum)

section \<open>The text of the hash\<close>

lemma and_15: "v AND 0xF = take_bit 4 (v :: u32)" by (simp add: take_bit_eq_mask mask_eq_exp_minus_1)

lemma hexd_val: "hexd v \<noteq> 0" "hexval (hexd v) = Some (ucast (v AND 0xF))"
proof -
  have "unat (v AND 0xF) = take_bit 4 (unat v)" unfolding and_15 by (rule unsigned_take_bit_eq)
  then have "unat (v AND 0xF) < 16" using take_bit_nat_less_exp [of 4 "unat v"] by simp
  then have "unat (v AND 0xF) \<in> set [0..<16]" by simp
  then have "\<exists>k \<in> set [0..<16]. v AND 0xF = of_nat k" by (intro bexI [of _ "unat (v AND 0xF)"]) simp_all
  then have *: "v AND 0xF \<in> set (map of_nat [0..<16])" by auto
  have "\<forall>w \<in> set (map of_nat [0..<16] :: u32 list). bytes ''0123456789abcdef'' ! unat w \<noteq> 0 \<and>
      hexval (bytes ''0123456789abcdef'' ! unat w) = Some (ucast w)"
    by code_simp
  then show "hexd v \<noteq> 0" "hexval (hexd v) = Some (ucast (v AND 0xF))" using * unfolding hexd_def by blast+
qed

lemma nibble: "push_bit 4 (drop_bit (n + 4) h) OR (drop_bit n h AND 0xF) = drop_bit n (h :: u32)"
  unfolding and_15 by (rule bit_word_eqI) (auto simp: bit_simps add.commute add.left_commute not_less)

lemma hex_le_passo: "hex_le (hexd (drop_bit n h) # cs) (drop_bit (n + 4) h) = hex_le cs (drop_bit n h)"
proof -
  have "ucast (ucast (drop_bit n h AND 0xF) :: u8) = drop_bit n h AND 0xF"
    unfolding and_15 by (rule bit_word_eqI) (auto simp: bit_simps)
  then show ?thesis using nibble [of n h] by (simp add: hexd_val)
qed

lemma hex_le_texto: "hex_to_u32 (secboot_texto h @ r) = h"
proof -
  have z: "0 = drop_bit (28 + 4) h" by (rule bit_word_eqI) (auto simp: bit_simps dest: bit_imp_le_length)
  have "hex_to_u32 (secboot_texto h @ r) = hex_le (map (\<lambda>i. hexd (drop_bit (28 - i * 4) h)) [0..<8] @ 10 # r) 0"
    by (simp add: hex_to_u32_def secboot_texto_def char_at_def)
  also have "\<dots> = hex_le (hexd (drop_bit 28 h) # hexd (drop_bit 24 h) # hexd (drop_bit 20 h) # hexd (drop_bit 16 h) # hexd (drop_bit 12 h) #
      hexd (drop_bit 8 h) # hexd (drop_bit 4 h) # hexd (drop_bit 0 h) # 10 # r) (drop_bit (28 + 4) h)"
    unfolding z [symmetric] by (simp add: upt_rec)
  also have "\<dots> = hex_le (10 # r) (drop_bit 0 h)"
    using hex_le_passo [of 28 h] hex_le_passo [of 24 h] hex_le_passo [of 20 h] hex_le_passo [of 16 h] hex_le_passo [of 12 h]
      hex_le_passo [of 8 h] hex_le_passo [of 4 h] hex_le_passo [of 0 h]
    by (simp del: hex_le.simps drop_bit_0)
  also have "\<dots> = h" by (simp add: hexval_def)
  finally show ?thesis .
qed

text \<open>C34: the hash stored at the first boot identifies the kernel.  Whatever follows the stored line in the file, reading it
  back gives the hash that was measured, so the same kernel is verified at the next boots; a kernel with any one byte
  changed measures another hash and is reported.\<close>

theorem secboot_verifica:
  "hex_to_u32 (secboot_texto (secboot_measure img) @ r) = secboot_measure img \<and>
   (\<forall>i y. i < length img \<longrightarrow> y \<noteq> img ! i \<longrightarrow> secboot_measure (img[i := y]) \<noteq> hex_to_u32 (secboot_texto (secboot_measure img) @ r))"
  using pkg_checksum_troca by (auto simp: hex_le_texto secboot_measure_def djb2_checksum)

theorem secboot_verifica_witness:
  "hex_to_u32 (secboot_texto (secboot_measure [1, 2, 3]) @ [0]) = secboot_measure [1, 2, 3] \<and>
   secboot_measure [1, 7, 3] \<noteq> hex_to_u32 (secboot_texto (secboot_measure [1, 2, 3]) @ [0])"
  using secboot_verifica [of "[1, 2, 3]" "[0]", THEN conjunct1]
    secboot_verifica [of "[1, 2, 3]" "[0]", THEN conjunct2, rule_format, of 1 7] by simp

end
