(* ===== verification/Pci.thy ===== *)
theory Pci
  imports Prelude
begin

text \<open>
  The PCI bus (\<^verbatim>\<open>kernel/drivers/pci.c\<close>) and the ACPI tables (\<^verbatim>\<open>kernel/drivers/acpi.c\<close>).  The hardware is an argument:
  \<open>cfg a\<close> is the word read from port \<open>0xCFC\<close> after \<open>a\<close> was written to port \<open>0xCF8\<close>, \<open>mem\<close> the bytes of the physical
  memory where the firmware left its tables.  Writes to ports are lists of (port, value).
\<close>

section \<open>Configuration space\<close>

definition PCI_CONFIG_ADDRESS :: u16 where "PCI_CONFIG_ADDRESS = 0xCF8"
definition PCI_CONFIG_DATA :: u16 where "PCI_CONFIG_DATA = 0xCFC"
definition PCI_MAX_DEVICES :: nat where "PCI_MAX_DEVICES = 64"
definition PCI_VENDOR_ID :: u8 where "PCI_VENDOR_ID = 0x00"
definition PCI_CLASS_CODE :: u8 where "PCI_CLASS_CODE = 0x08"
definition PCI_HEADER_TYPE :: u8 where "PCI_HEADER_TYPE = 0x0E"
definition PCI_BAR0 :: u8 where "PCI_BAR0 = 0x10"
definition PCI_INTERRUPT_LINE :: u8 where "PCI_INTERRUPT_LINE = 0x3C"

record pci_device =
  pd_bus :: u8
  pd_device :: u8
  pd_function :: u8
  vendor_id :: u16
  device_id :: u16
  class_code :: u8
  sub_class :: u8
  prog_if :: u8
  revision :: u8
  header_type :: u8
  bar :: "u32 list"
  interrupt_line :: u8
  interrupt_pin :: u8

record pci =
  pci_devices :: "pci_device list"
  pci_count :: nat

definition pci_addr :: "u8 \<Rightarrow> u8 \<Rightarrow> u8 \<Rightarrow> u8 \<Rightarrow> u32" where
  "pci_addr bus dev func off =
     push_bit 31 1 OR push_bit 16 (ucast bus) OR push_bit 11 (ucast dev) OR push_bit 8 (ucast func) OR ucast (off AND 0xFC)"

definition pci_read :: "(u32 \<Rightarrow> u32) \<Rightarrow> u8 \<Rightarrow> u8 \<Rightarrow> u8 \<Rightarrow> u8 \<Rightarrow> u32" where
  "pci_read cfg bus dev func off = cfg (pci_addr bus dev func off)"

definition pci_write :: "u8 \<Rightarrow> u8 \<Rightarrow> u8 \<Rightarrow> u8 \<Rightarrow> u32 \<Rightarrow> (u16 \<times> u32) list" where
  "pci_write bus dev func off v = [(PCI_CONFIG_ADDRESS, pci_addr bus dev func off), (PCI_CONFIG_DATA, v)]"

section \<open>The scan\<close>

text \<open>The entry of a function; the base addresses and the interrupt are those of before when the header is not of type 0.\<close>

definition pci_preenche :: "(u32 \<Rightarrow> u32) \<Rightarrow> u8 \<Rightarrow> u8 \<Rightarrow> u8 \<Rightarrow> pci_device \<Rightarrow> pci_device" where
  "pci_preenche cfg bus dev func d =
     (let id = pci_read cfg bus dev func PCI_VENDOR_ID; ci = pci_read cfg bus dev func PCI_CLASS_CODE;
          hdr = pci_read cfg bus dev func PCI_HEADER_TYPE;
          d = d\<lparr>pd_bus := bus, pd_device := dev, pd_function := func, vendor_id := ucast (id AND 0xFFFF), device_id := ucast (drop_bit 16 id),
                revision := ucast (ci AND 0xFF), prog_if := ucast (drop_bit 8 ci AND 0xFF), sub_class := ucast (drop_bit 16 ci AND 0xFF),
                class_code := ucast (drop_bit 24 ci AND 0xFF), header_type := ucast (drop_bit 16 hdr AND 0xFF)\<rparr>
      in if header_type d AND 0x7F = 0 then
           let irq = pci_read cfg bus dev func PCI_INTERRUPT_LINE in
           d\<lparr>bar := map (\<lambda>i. pci_read cfg bus dev func (PCI_BAR0 + of_nat (i * 4))) [0..<6],
             interrupt_line := ucast (irq AND 0xFF), interrupt_pin := ucast (drop_bit 8 irq AND 0xFF)\<rparr>
         else d)"

definition pci_scan_function :: "(u32 \<Rightarrow> u32) \<Rightarrow> u8 \<Rightarrow> u8 \<Rightarrow> u8 \<Rightarrow> pci \<Rightarrow> pci" where
  "pci_scan_function cfg bus dev func s =
     (if (ucast (pci_read cfg bus dev func PCI_VENDOR_ID AND 0xFFFF) :: u16) = 0xFFFF then s
      else if pci_count s \<ge> PCI_MAX_DEVICES then s
      else s\<lparr>pci_devices := (pci_devices s)[pci_count s := pci_preenche cfg bus dev func (pci_devices s ! pci_count s)],
             pci_count := pci_count s + 1\<rparr>)"

definition pci_scan_device :: "(u32 \<Rightarrow> u32) \<Rightarrow> u8 \<Rightarrow> u8 \<Rightarrow> pci \<Rightarrow> pci" where
  "pci_scan_device cfg bus dev s =
     (if pci_read cfg bus dev 0 PCI_VENDOR_ID AND 0xFFFF = 0xFFFF then s
      else let s = pci_scan_function cfg bus dev 0 s;
               ht = ucast (drop_bit 16 (pci_read cfg bus dev 0 PCI_HEADER_TYPE) AND 0xFF) :: u8 in
        if ht AND 0x80 \<noteq> 0 then
          fold (\<lambda>f s. if pci_read cfg bus dev (of_nat f) PCI_VENDOR_ID AND 0xFFFF \<noteq> 0xFFFF
              then pci_scan_function cfg bus dev (of_nat f) s else s) [1..<8] s
        else s)"

definition pci_init :: "(u32 \<Rightarrow> u32) \<Rightarrow> pci \<Rightarrow> pci" where
  "pci_init cfg s =
     fold (\<lambda>bus. fold (\<lambda>dev. pci_scan_device cfg (of_nat bus) (of_nat dev)) [0..<32]) [0..<8] (s\<lparr>pci_count := 0\<rparr>)"

section \<open>Looking up\<close>

definition pci_find :: "u16 \<Rightarrow> u16 \<Rightarrow> pci \<Rightarrow> nat option" where
  "pci_find v d s = find (\<lambda>i. vendor_id (pci_devices s ! i) = v \<and> device_id (pci_devices s ! i) = d) [0..<pci_count s]"

definition pci_find_class :: "u8 \<Rightarrow> u8 \<Rightarrow> pci \<Rightarrow> nat option" where
  "pci_find_class c sc s =
     find (\<lambda>i. class_code (pci_devices s ! i) = c \<and> device_id (pci_devices s ! i) = ucast sc) [0..<pci_count s]"

definition pci_get_list :: "pci \<Rightarrow> pci_device list" where "pci_get_list s = pci_devices s"
definition pci_get_count :: "pci \<Rightarrow> nat" where "pci_get_count s = pci_count s"

section \<open>ACPI\<close>

record acpi =
  lapic_base_addr :: u32
  acpi_initialized :: bool

definition m16 :: "(u32 \<Rightarrow> u8) \<Rightarrow> u32 \<Rightarrow> u16" where "m16 mem p = rd16 (map (\<lambda>i. mem (p + of_nat i)) [0..<2]) 0"
definition m32 :: "(u32 \<Rightarrow> u8) \<Rightarrow> u32 \<Rightarrow> u32" where "m32 mem p = rd32 (map (\<lambda>i. mem (p + of_nat i)) [0..<4]) 0"

text \<open>The sum of \<open>n\<close> bytes from \<open>p\<close>.\<close>

fun acpi_soma :: "(u32 \<Rightarrow> u8) \<Rightarrow> u32 \<Rightarrow> nat \<Rightarrow> u8 \<Rightarrow> u8" where
  "acpi_soma mem p 0 s = s"
| "acpi_soma mem p (Suc n) s = acpi_soma mem (p + 1) n (s + mem p)"

definition acpi_checksum :: "(u32 \<Rightarrow> u8) \<Rightarrow> u32 \<Rightarrow> u32 \<Rightarrow> u8" where "acpi_checksum mem p n = acpi_soma mem p (unat n) 0"

definition sig4 :: "(u32 \<Rightarrow> u8) \<Rightarrow> u32 \<Rightarrow> u8 list \<Rightarrow> bool" where
  "sig4 mem a b = (mem a = b ! 0 \<and> mem (a + 1) = b ! 1 \<and> mem (a + 2) = b ! 2 \<and> mem (a + 3) = b ! 3)"

definition sig8 :: "(u32 \<Rightarrow> u8) \<Rightarrow> u32 \<Rightarrow> u8 list \<Rightarrow> bool" where
  "sig8 mem a b = (sig4 mem a b \<and> sig4 mem (a + 4) (drop 4 b))"

definition rsdp_em :: "(u32 \<Rightarrow> u8) \<Rightarrow> u32 \<Rightarrow> bool" where
  "rsdp_em mem p = (sig8 mem p (bytes ''RSD PTR '') \<and> acpi_checksum mem p 20 = 0)"

text \<open>The positions \<open>p, p + 16, \<dots>\<close> below the end; the two ranges have 8192 and 64 of them.\<close>

definition rsdp_busca :: "(u32 \<Rightarrow> u8) \<Rightarrow> u32 \<Rightarrow> nat \<Rightarrow> u32 option" where
  "rsdp_busca mem ini n = map_option (\<lambda>k. ini + of_nat (16 * k)) (find (\<lambda>k. rsdp_em mem (ini + of_nat (16 * k))) [0..<n])"

definition acpi_rsdp :: "(u32 \<Rightarrow> u8) \<Rightarrow> u32 option" where
  "acpi_rsdp mem =
     (case rsdp_busca mem 0x000E0000 8192 of
        Some p \<Rightarrow> Some p
      | None \<Rightarrow> rsdp_busca mem (push_bit 4 (ucast (m16 mem 0x040E))) 64)"

text \<open>The entries \<open>i\<close> and on of the root table: the first table with the signature of the MADT.\<close>

fun acpi_madt :: "(u32 \<Rightarrow> u8) \<Rightarrow> u32 \<Rightarrow> nat \<Rightarrow> u32 option" where
  "acpi_madt mem e 0 = None"
| "acpi_madt mem e (Suc n) =
     (let tbl = m32 mem e in
      if tbl \<noteq> 0 \<and> sig4 mem tbl (bytes ''APIC'') then Some tbl else acpi_madt mem (e + 4) n)"

definition acpi_init :: "(u32 \<Rightarrow> u8) \<Rightarrow> acpi \<Rightarrow> int \<times> acpi" where
  "acpi_init mem s =
     (case acpi_rsdp mem of
        None \<Rightarrow> (- 1, s)
      | Some rsdp \<Rightarrow>
          let rsdt = m32 mem (rsdp + 16); len = m32 mem (rsdt + 4) in
          if \<not> sig4 mem rsdt (bytes ''RSDT'') then (- 1, s)
          else if acpi_checksum mem rsdt len \<noteq> 0 then (- 1, s)
          else case acpi_madt mem (rsdt + 36) (unat ((len - 36) div 4)) of
            Some madt \<Rightarrow> (0, s\<lparr>lapic_base_addr := m32 mem (madt + 36), acpi_initialized := True\<rparr>)
          | None \<Rightarrow> (0, s\<lparr>acpi_initialized := True\<rparr>))"

text \<open>The writes before the processor halts.\<close>

definition acpi_shutdown :: "(u16 \<times> u16) list" where
  "acpi_shutdown = [(0x604, 0x2000), (0xB004, 0x2000), (0x4004, 0x3400)]"

definition acpi_lapic_base :: "acpi \<Rightarrow> u32" where "acpi_lapic_base s = lapic_base_addr s"
definition acpi_ready :: "acpi \<Rightarrow> bool" where "acpi_ready s = acpi_initialized s"

section \<open>What the scan finds\<close>

definition presente :: "(u32 \<Rightarrow> u32) \<Rightarrow> u8 \<times> u8 \<times> u8 \<Rightarrow> bool" where
  "presente cfg = (\<lambda>(b, d, f). pci_read cfg b d f PCI_VENDOR_ID AND 0xFFFF \<noteq> 0xFFFF)"

definition funcoes :: "(u32 \<Rightarrow> u32) \<Rightarrow> u8 \<Rightarrow> u8 \<Rightarrow> (u8 \<times> u8 \<times> u8) list" where
  "funcoes cfg b d =
     (if \<not> presente cfg (b, d, 0) then []
      else (b, d, 0) # (if (ucast (drop_bit 16 (pci_read cfg b d 0 PCI_HEADER_TYPE) AND 0xFF) :: u8) AND 0x80 \<noteq> 0
             then filter (presente cfg) (map (\<lambda>f. (b, d, of_nat f)) [1..<8]) else []))"

definition barramento :: "(u32 \<Rightarrow> u32) \<Rightarrow> (u8 \<times> u8 \<times> u8) list" where
  "barramento cfg = concat (map (\<lambda>b. concat (map (\<lambda>d. funcoes cfg (of_nat b) (of_nat d)) [0..<32])) [0..<8])"

definition lugar :: "pci_device \<Rightarrow> u8 \<times> u8 \<times> u8" where "lugar d = (pd_bus d, pd_device d, pd_function d)"

text \<open>The table after the functions \<open>L\<close>.\<close>

definition tem :: "pci \<Rightarrow> (u8 \<times> u8 \<times> u8) list \<Rightarrow> bool" where
  "tem s L = (length (pci_devices s) = PCI_MAX_DEVICES \<and> pci_count s = min PCI_MAX_DEVICES (length L) \<and>
     map lugar (take (pci_count s) (pci_devices s)) = take PCI_MAX_DEVICES L)"

lemma and_ffff: "(ucast (w AND 0xFFFF :: u32) :: u16) = 0xFFFF \<longleftrightarrow> w AND 0xFFFF = 0xFFFF"
proof -
  have m: "(0xFFFF :: u32) = mask 16" "(0xFFFF :: u16) = mask 16" by (simp_all add: mask_eq_exp_minus_1)
  have "(ucast (take_bit 16 w) :: u16) = mask 16 \<longleftrightarrow> take_bit 16 w = mask 16"
  proof
    assume h: "(ucast (take_bit 16 w) :: u16) = mask 16"
    show "take_bit 16 w = mask 16"
    proof (rule bit_word_eqI)
      fix n assume "n < LENGTH(32)"
      have "bit (ucast (take_bit 16 w) :: u16) n = bit (mask 16 :: u16) n" using h by simp
      then show "bit (take_bit 16 w) n = bit (mask 16 :: u32) n" by (auto simp: bit_simps)
    qed
  next
    assume e: "take_bit 16 w = mask 16"
    have *: "bit (take_bit 16 w) n = bit (mask 16 :: u32) n" for n unfolding e ..
    have "bit w n" if "n < 16" for n using * [of n] that by (simp add: bit_take_bit_iff bit_mask_iff)
    then show "(ucast (take_bit 16 w) :: u16) = mask 16"
      by (intro bit_word_eqI) (simp add: bit_ucast_iff bit_take_bit_iff bit_mask_iff)
  qed
  then show ?thesis by (simp add: m take_bit_eq_mask)
qed

lemma presente_vendor: "presente cfg (b, d, f) \<longleftrightarrow> (ucast (pci_read cfg b d f PCI_VENDOR_ID AND 0xFFFF) :: u16) \<noteq> 0xFFFF"
  by (simp add: presente_def and_ffff)

lemma lugar_preenche: "lugar (pci_preenche cfg b d f x) = (b, d, f)"
  by (simp add: pci_preenche_def lugar_def Let_def)

lemma scan_function_tem: "tem s L \<Longrightarrow> presente cfg (b, d, f) \<Longrightarrow> tem (pci_scan_function cfg b d f s) (L @ [(b, d, f)])"
proof -
  assume h: "tem s L" "presente cfg (b, d, f)"
  show ?thesis
  proof (cases "pci_count s \<ge> PCI_MAX_DEVICES")
    case True
    then show ?thesis using h by (auto simp: tem_def pci_scan_function_def presente_vendor)
  next
    case False
    then have c: "pci_count s = length L" "length L < PCI_MAX_DEVICES" using h(1) by (auto simp: tem_def)
    let ?x = "pci_preenche cfg b d f (pci_devices s ! pci_count s)"
    have "take (Suc (length L)) ((pci_devices s)[length L := ?x]) = take (length L) (pci_devices s) @ [?x]"
      using c h(1) by (simp add: tem_def take_Suc_conv_app_nth)
    then show ?thesis using h False c by (simp add: tem_def pci_scan_function_def presente_vendor lugar_preenche)
  qed
qed

lemma scan_functions_tem: "tem s L \<Longrightarrow>
    tem (fold (\<lambda>f s. if pci_read cfg b d (of_nat f) PCI_VENDOR_ID AND 0xFFFF \<noteq> 0xFFFF then pci_scan_function cfg b d (of_nat f) s else s) fs s)
      (L @ filter (presente cfg) (map (\<lambda>f. (b, d, of_nat f)) fs))"
proof (induction fs arbitrary: s L)
  case (Cons f fs)
  show ?case
  proof (cases "presente cfg (b, d, of_nat f)")
    case True
    then show ?thesis using Cons.IH [OF scan_function_tem [OF Cons.prems True]] by (simp add: presente_def)
  next
    case False
    then show ?thesis using Cons.IH [OF Cons.prems] by (simp add: presente_def)
  qed
qed simp

lemma scan_device_tem: "tem s L \<Longrightarrow> tem (pci_scan_device cfg b d s) (L @ funcoes cfg b d)"
proof (cases "presente cfg (b, d, 0)")
  case True
  assume "tem s L"
  from scan_functions_tem [OF scan_function_tem [OF this True]] scan_function_tem [OF this True]
  show ?thesis using True by (simp add: pci_scan_device_def funcoes_def presente_def Let_def del: upt_Suc)
qed (simp add: pci_scan_device_def funcoes_def presente_def)

lemma fold_tem: "(\<And>x s L. tem s L \<Longrightarrow> tem (g x s) (L @ h x)) \<Longrightarrow> tem s L \<Longrightarrow> tem (fold g xs s) (L @ concat (map h xs))"
  by (induction xs arbitrary: s L) (simp_all flip: append_assoc)

text \<open>\<open>pci_init\<close> lists the functions on the buses 0 to 7 in the order of the scan, the first 64 of them.\<close>

theorem pci_init_lista:
  assumes "length (pci_devices s) = PCI_MAX_DEVICES"
  shows "map lugar (take (pci_count (pci_init cfg s)) (pci_devices (pci_init cfg s))) = take 64 (barramento cfg) \<and>
    pci_count (pci_init cfg s) = min 64 (length (barramento cfg))"
proof -
  have "tem (s\<lparr>pci_count := 0\<rparr>) []" using assms by (simp add: tem_def)
  then have "tem (pci_init cfg s) ([] @ barramento cfg)" unfolding pci_init_def barramento_def
    by (rule fold_tem [rotated]) (rule fold_tem [OF scan_device_tem])
  then show ?thesis unfolding tem_def PCI_MAX_DEVICES_def by simp metis
qed

text \<open>\<open>pci_find_class\<close> compares the subclass with the device id: a network card of class 2, subclass 0 and device id
  \<open>0x8139\<close> is not found.\<close>

theorem pci_find_class_engana:
  assumes "pci_find_class c sc s = Some i"
  shows "device_id (pci_devices s ! i) = ucast sc"
  using assms by (auto simp: pci_find_class_def find_Some_iff)

text \<open>The table found by the search has the signature and the sum zero, on a multiple of 16 bytes from the start.\<close>

theorem acpi_rsdp_ok: "acpi_rsdp mem = Some p \<Longrightarrow> sig8 mem p (bytes ''RSD PTR '') \<and> acpi_checksum mem p 20 = 0"
  by (auto simp: acpi_rsdp_def rsdp_busca_def find_Some_iff rsdp_em_def split: option.splits)

end
