(* ===== verification/Hardware.thy ===== *)
theory Hardware
  imports Pci
begin

text \<open>
  How the drivers see a device.  A device is an argument of the drivers: what a read of one of its registers gives and
  what a write does, each a function of the memory, which the device also reads and writes, and of the state \<open>'h\<close> it
  keeps; \<open>hw_tempo\<close> is what it does while the processor spins without touching it.  Registers are addressed by their
  physical address, or by their port.
\<close>

type_synonym mem = "u32 \<Rightarrow> u8"
type_synonym 'h mundo = "mem \<times> 'h"

text \<open>The width of an access.\<close>

datatype largura = L8 | L16 | L32

record 'h disp =
  hw_le :: "largura \<Rightarrow> u32 \<Rightarrow> 'h mundo \<Rightarrow> u32 \<times> 'h mundo"
  hw_gr :: "largura \<Rightarrow> u32 \<Rightarrow> u32 \<Rightarrow> 'h mundo \<Rightarrow> 'h mundo"
  hw_tempo :: "'h mundo \<Rightarrow> 'h mundo"

section \<open>Memory\<close>

definition mem_le :: "mem \<Rightarrow> u32 \<Rightarrow> nat \<Rightarrow> u8 list" where "mem_le m a n = map (\<lambda>i. m (a + of_nat i)) [0..<n]"

definition mem_gr :: "u32 \<Rightarrow> u8 list \<Rightarrow> mem \<Rightarrow> mem" where
  "mem_gr a bs m = (\<lambda>p. if unat (p - a) < length bs then bs ! unat (p - a) else m p)"

lemma length_mem_le [simp]: "length (mem_le m a n) = n" by (simp add: mem_le_def)

lemma mem_le_same: "length bs \<le> 2 ^ 32 \<Longrightarrow> n = length bs \<Longrightarrow> mem_le (mem_gr a bs m) a n = bs"
  by (rule nth_equalityI) (simp_all add: mem_le_def mem_gr_def unat_of_nat)

text \<open>Two intervals of memory apart, each seen from the start of the other.\<close>

definition longe :: "u32 \<Rightarrow> nat \<Rightarrow> u32 \<Rightarrow> nat \<Rightarrow> bool" where
  "longe a n b k \<longleftrightarrow> unat a + n \<le> unat b \<and> unat b + k \<le> 2 ^ 32 \<or> unat b + k \<le> unat a \<and> unat a + n \<le> 2 ^ 32"

lemma longe_sym: "longe a n b k \<longleftrightarrow> longe b k a n" by (auto simp: longe_def)

lemma longe_fora:
  assumes "longe a n b k" "i < n"
  shows "\<not> unat (a + of_nat i - b) < k"
proof -
  have u: "unat (a + of_nat i) = unat a + i"
    using assms by (subst unat_word_ariths) (auto simp: longe_def unat_of_nat)
  show ?thesis
  proof (cases "b \<le> a + of_nat i")
    case True
    then have "unat (a + of_nat i - b) = unat a + i - unat b" by (simp add: unat_sub u)
    then show ?thesis using assms True by (auto simp: longe_def word_le_nat_alt u)
  next
    case False
    then have l: "unat a + i < unat b" by (simp add: word_le_nat_alt u)
    have "unat (a + of_nat i - b) = (2 ^ 32 + unat (a + of_nat i) - unat b) mod 2 ^ 32"
      using l u by (simp add: unat_sub_if_size word_size word_le_nat_alt)
    then have "unat (a + of_nat i - b) = 2 ^ 32 + (unat a + i) - unat b" using l unsigned_less [of b] by (simp add: u)
    then show ?thesis using assms l by (auto simp: longe_def)
  qed
qed

lemma mem_le_other: "longe a n b (length bs) \<Longrightarrow> mem_le (mem_gr b bs m) a n = mem_le m a n"
  by (rule nth_equalityI) (simp_all add: mem_le_def mem_gr_def longe_fora)

lemma mem_le_append: "mem_le m a (n + k) = mem_le m a n @ mem_le m (a + of_nat n) k"
  by (rule nth_equalityI) (auto simp: mem_le_def nth_append ac_simps)

lemma mem_le_drop: "mem_le m a n = bs \<Longrightarrow> i \<le> n \<Longrightarrow> mem_le m (a + of_nat i) (n - i) = drop i bs"
  using mem_le_append [of m a i "n - i"] by auto

lemma mem_le_nth: "mem_le m a n = bs \<Longrightarrow> i < n \<Longrightarrow> m (a + of_nat i) = bs ! i"
  by (auto simp: mem_le_def)

lemma m32_le: "m32 m a = rd32 (mem_le m a 4) 0" by (simp add: m32_def mem_le_def)

lemma m32_mem:
  assumes "mem_le m a n = bs" "i + 4 \<le> n"
  shows "m32 m (a + of_nat i) = rd32 bs i"
proof -
  have "drop i bs = mem_le m (a + of_nat i) (4 + (n - i - 4))" using mem_le_drop [OF assms(1), of i] assms(2) by simp
  then have "take 4 (drop i bs) = mem_le m (a + of_nat i) 4" by (simp add: mem_le_append)
  moreover have "length bs = n" using assms(1) by auto
  ultimately show ?thesis using assms(2) rd32_slice [of i bs] by (simp add: m32_le slice_def)
qed

lemma unat_mais_n: "unat (e :: u32) + k < 2 ^ 32 \<Longrightarrow> unat (e + of_nat k) = unat e + k" by (simp add: unat_word_ariths unat_of_nat)

section \<open>Waiting\<close>

text \<open>\<open>while (cond && t--)\<close>: the last value of \<open>t\<close>, which is \<open>2 ^ 32 - 1\<close> when the loop ran out.\<close>

fun aguarda :: "('w \<Rightarrow> bool \<times> 'w) \<Rightarrow> nat \<Rightarrow> 'w \<Rightarrow> u32 \<times> 'w" where
  "aguarda c 0 w = (let (b, w) = c w in (if b then - 1 else 0, w))"
| "aguarda c (Suc n) w = (let (b, w) = c w in if b then aguarda c n w else (of_nat (Suc n), w))"

text \<open>The same with a body.\<close>

fun aguarda_c :: "('w \<Rightarrow> bool \<times> 'w) \<Rightarrow> ('w \<Rightarrow> 'w) \<Rightarrow> nat \<Rightarrow> 'w \<Rightarrow> u32 \<times> 'w" where
  "aguarda_c c f 0 w = (let (b, w) = c w in (if b then - 1 else 0, w))"
| "aguarda_c c f (Suc n) w = (let (b, w) = c w in if b then aguarda_c c f n (f w) else (of_nat (Suc n), w))"

declare aguarda.simps [simp del] aguarda_c.simps [simp del]

text \<open>The condition of a wait on bits of a register.\<close>

definition bits_em :: "'h disp \<Rightarrow> largura \<Rightarrow> u32 \<Rightarrow> u32 \<Rightarrow> 'h mundo \<Rightarrow> bool \<times> 'h mundo" where
  "bits_em D l a k w = (let (v, w) = hw_le D l a w in (v AND k \<noteq> 0, w))"

lemma aguarda_sai: "c w = (False, v) \<Longrightarrow> aguarda c n w = (of_nat n, v)" by (cases n) (simp_all add: aguarda.simps)

lemma aguarda_esgota: "(\<And>w. fst (c w)) \<Longrightarrow> fst (aguarda c n w) = - 1"
  by (induction n arbitrary: w) (simp_all add: aguarda.simps split_beta)

lemma aguarda_c_esgota: "(\<And>w. fst (c w)) \<Longrightarrow> fst (aguarda_c c f n w) = - 1"
  by (induction n arbitrary: w) (simp_all add: aguarda_c.simps split_beta)

lemma aguarda_inv: "(\<And>w. P w \<Longrightarrow> P (snd (c w))) \<Longrightarrow> P w \<Longrightarrow> P (snd (aguarda c n w))"
  by (induction n arbitrary: w) (simp_all add: aguarda.simps split_beta)

end
