(* ===== verification/Cpu.thy ===== *)
theory Cpu
  imports Pci Hardware Paging Processos Shell
begin

text \<open>
  The processor (\<^verbatim>\<open>kernel/cpu\<close>): the descriptor tables, the interrupt controller, the timer, the local APIC, the start of
  the other processors, and the report of a page fault.  What is written to a port is a list of (port, value); the
  local APIC is a device of \<open>Hardware\<close>.
\<close>

section \<open>The descriptor tables\<close>

record gdt_entry =
  limite_low :: u16
  gdt_base_low :: u16
  base_mid :: u8
  acesso :: u8
  granularidade :: u8
  gdt_base_high :: u8

definition gdt_set :: "nat \<Rightarrow> u32 \<Rightarrow> u32 \<Rightarrow> u8 \<Rightarrow> u8 \<Rightarrow> gdt_entry list \<Rightarrow> gdt_entry list" where
  "gdt_set num base limite ac gran g =
     g[num := (g ! num)\<lparr>gdt_base_low := ucast (base AND 0xFFFF), base_mid := ucast (drop_bit 16 base AND 0xFF),
        gdt_base_high := ucast (drop_bit 24 base AND 0xFF), limite_low := ucast (limite AND 0xFFFF),
        granularidade := ucast (drop_bit 16 limite AND 0x0F) OR (gran AND 0xF0), acesso := ac\<rparr>]"

text \<open>The pointer loaded with \<^verbatim>\<open>lgdt\<close> and \<^verbatim>\<open>lidt\<close> (limit, base); \<open>a\<close> is the address of the table.\<close>

definition gdt_init :: "u32 \<Rightarrow> gdt_entry list \<Rightarrow> (u16 \<times> u32) \<times> gdt_entry list" where
  "gdt_init a g =
     ((8 * 5 - 1, a),
      gdt_set 4 0 0xFFFFFFFF 0xF2 0xCF (gdt_set 3 0 0xFFFFFFFF 0xFA 0xCF (gdt_set 2 0 0xFFFFFFFF 0x92 0xCF
        (gdt_set 1 0 0xFFFFFFFF 0x9A 0xCF (gdt_set 0 0 0 0 0 g)))))"

definition IDT_ENTRADAS :: nat where "IDT_ENTRADAS = 256"

record idt_entry =
  idt_base_low :: u16
  idt_selector :: u16
  idt_zero :: u8
  idt_flags :: u8
  idt_base_high :: u16

definition idt_set :: "u8 \<Rightarrow> u32 \<Rightarrow> u16 \<Rightarrow> u8 \<Rightarrow> idt_entry list \<Rightarrow> idt_entry list" where
  "idt_set num base sel fl t =
     t[unat num := (t ! unat num)\<lparr>idt_base_low := ucast (base AND 0xFFFF), idt_base_high := ucast (drop_bit 16 base AND 0xFFFF),
        idt_selector := sel, idt_zero := 0, idt_flags := fl\<rparr>]"

definition idt_init :: "u32 \<Rightarrow> idt_entry list \<Rightarrow> (u16 \<times> u32) \<times> idt_entry list" where
  "idt_init a t = ((of_nat (8 * IDT_ENTRADAS - 1), a), fold (\<lambda>i. idt_set (of_nat i) 0 0 0) [0..<IDT_ENTRADAS] t)"

section \<open>The interrupt controller and the timer\<close>

definition PIC1_CMD :: u16 where "PIC1_CMD = 0x20"
definition PIC1_DAD :: u16 where "PIC1_DAD = 0x21"
definition PIC2_CMD :: u16 where "PIC2_CMD = 0xA0"
definition PIC2_DAD :: u16 where "PIC2_DAD = 0xA1"
definition PIT_CMD :: u16 where "PIT_CMD = 0x43"
definition PIT_CH0 :: u16 where "PIT_CH0 = 0x40"
definition TIMER_HZ :: u32 where "TIMER_HZ = 100"
definition PIT_FREQ :: u32 where "PIT_FREQ = 1193182"

definition pic_init :: "(u16 \<times> u8) list" where
  "pic_init =
     concat (map (\<lambda>x. [x, (0x80, 0)])
       [(PIC1_CMD, 0x11), (PIC2_CMD, 0x11), (PIC1_DAD, 0x20), (PIC2_DAD, 0x28), (PIC1_DAD, 0x04), (PIC2_DAD, 0x02),
        (PIC1_DAD, 0x01), (PIC2_DAD, 0x01)])
     @ [(PIC1_DAD, 0xFC), (PIC2_DAD, 0xFF)]"

definition pic_ack :: "u8 \<Rightarrow> (u16 \<times> u8) list" where
  "pic_ack irq = (if irq \<ge> 8 then [(PIC2_CMD, 0x20)] else []) @ [(PIC1_CMD, 0x20)]"

definition timer_init :: "(u16 \<times> u8) list" where
  "timer_init =
     (let divisor = PIT_FREQ div TIMER_HZ in
      [(PIT_CMD, 0x36), (PIT_CH0, ucast (divisor AND 0xFF)), (PIT_CH0, ucast (drop_bit 8 divisor AND 0xFF))])"

record timer =
  tm_ticks :: u32
  tm_portas :: "(u16 \<times> u8) list"

definition timer_ticks :: "timer \<Rightarrow> u32" where "timer_ticks t = tm_ticks t"

text \<open>The stack pointer of the process that runs next; \<open>None\<close> when the search of the scheduler does not end.\<close>

definition timer_handler_c :: "u32 \<Rightarrow> timer \<times> sis_proc \<Rightarrow> (u32 \<times> timer \<times> sis_proc) option" where
  "timer_handler_c esp ts =
     (let t = (fst ts)\<lparr>tm_ticks := tm_ticks (fst ts) + 1, tm_portas := tm_portas (fst ts) @ pic_ack 0\<rparr> in
      map_option (\<lambda>(e, s). (e, t, s)) (sched_tick esp (snd ts)))"

section \<open>The report of a page fault\<close>

text \<open>The digits in \<open>hex\<close>, from the last to the first; then the screen, and the processor stops.\<close>

definition hex8 :: "u32 \<Rightarrow> u8 list" where
  "hex8 v = map (\<lambda>i. bytes ''0123456789ABCDEF'' ! unat (drop_bit (4 * i) v AND 0xF)) (rev [0..<8])"

definition page_fault_handler :: "u32 \<Rightarrow> shell \<Rightarrow> shell" where
  "page_fault_handler cr2 s =
     (let s = shell_writeln (bytes ''*** PAGE FAULT ***'') (shell_write [] s);
          s = shell_write (hex8 cr2) (shell_write (bytes ''Endereco: 0X'') s)
      in shell_writeln (bytes ''Processo encerrado.'') (shell_writeln [] s))"

section \<open>The local APIC\<close>

record apic =
  ap_base :: u32
  ap_pronto :: bool

definition LAPIC_ID :: u32 where "LAPIC_ID = 0x020"
definition LAPIC_TPR :: u32 where "LAPIC_TPR = 0x080"
definition LAPIC_EOI :: u32 where "LAPIC_EOI = 0x0B0"
definition LAPIC_SPURIOUS :: u32 where "LAPIC_SPURIOUS = 0x0F0"
definition LAPIC_ICR_LO :: u32 where "LAPIC_ICR_LO = 0x300"
definition LAPIC_ICR_HI :: u32 where "LAPIC_ICR_HI = 0x310"
definition ICR_INIT :: u32 where "ICR_INIT = 0x00000500"
definition ICR_SIPI :: u32 where "ICR_SIPI = 0x00000600"
definition ICR_LEVEL_ASSERT :: u32 where "ICR_LEVEL_ASSERT = 0x00004000"
definition LAPIC_SPURIOUS_ENABLE :: u32 where "LAPIC_SPURIOUS_ENABLE = 0x100"
definition LAPIC_SPURIOUS_VECTOR :: u32 where "LAPIC_SPURIOUS_VECTOR = 0xFF"

definition lapic_read :: "'h disp \<Rightarrow> apic \<Rightarrow> u32 \<Rightarrow> 'h mundo \<Rightarrow> u32 \<times> 'h mundo" where
  "lapic_read D a reg w = hw_le D L32 (ap_base a + reg) w"

definition lapic_write :: "'h disp \<Rightarrow> apic \<Rightarrow> u32 \<Rightarrow> u32 \<Rightarrow> 'h mundo \<Rightarrow> 'h mundo" where
  "lapic_write D a reg v w = hw_gr D L32 (ap_base a + reg) v w"

definition apic_init :: "u32 \<Rightarrow> 'h disp \<Rightarrow> acpi \<Rightarrow> apic \<times> paging \<times> 'h mundo \<Rightarrow> apic \<times> paging \<times> 'h mundo" where
  "apic_init pd D ac = (\<lambda>(a, pg, w).
     let a = a\<lparr>ap_base := acpi_lapic_base ac\<rparr>;
         pg = paging_mapear pd (ap_base a) (ap_base a) (0x001 OR 0x002) pg;
         w = lapic_write D a LAPIC_SPURIOUS (LAPIC_SPURIOUS_ENABLE OR LAPIC_SPURIOUS_VECTOR) w;
         w = lapic_write D a LAPIC_TPR 0 w
     in (a\<lparr>ap_pronto := True\<rparr>, pg, w))"

definition apic_eoi :: "'h disp \<Rightarrow> apic \<Rightarrow> 'h mundo \<Rightarrow> 'h mundo" where
  "apic_eoi D a w = (if ap_pronto a then lapic_write D a LAPIC_EOI 0 w else w)"

definition apic_id :: "'h disp \<Rightarrow> apic \<Rightarrow> 'h mundo \<Rightarrow> u8 \<times> 'h mundo" where
  "apic_id D a w =
     (if \<not> ap_pronto a then (0, w) else let (v, w) = lapic_read D a LAPIC_ID w in (ucast (drop_bit 24 v AND 0xFF), w))"

definition apic_ready :: "apic \<Rightarrow> bool" where "apic_ready a = ap_pronto a"

definition lapic_wait_ipi :: "'h disp \<Rightarrow> apic \<Rightarrow> 'h mundo \<Rightarrow> 'h mundo" where
  "lapic_wait_ipi D a w = snd (aguarda (bits_em D L32 (ap_base a + LAPIC_ICR_LO) (push_bit 12 1)) 100000 w)"

text \<open>\<open>apic_delay\<close> only lets the time pass.\<close>

definition apic_delay :: "'h disp \<Rightarrow> 'h mundo \<Rightarrow> 'h mundo" where "apic_delay D w = hw_tempo D w"

definition apic_send_init :: "'h disp \<Rightarrow> apic \<Rightarrow> u8 \<Rightarrow> 'h mundo \<Rightarrow> 'h mundo" where
  "apic_send_init D a alvo w =
     (if \<not> ap_pronto a then w
      else let w = lapic_write D a LAPIC_ICR_HI (push_bit 24 (ucast alvo)) w;
               w = lapic_wait_ipi D a (lapic_write D a LAPIC_ICR_LO (ICR_INIT OR ICR_LEVEL_ASSERT) w);
               w = lapic_wait_ipi D a (lapic_write D a LAPIC_ICR_LO ICR_INIT w)
           in apic_delay D w)"

definition sipi_um :: "'h disp \<Rightarrow> apic \<Rightarrow> u8 \<Rightarrow> u8 \<Rightarrow> 'h mundo \<Rightarrow> 'h mundo" where
  "sipi_um D a alvo v w =
     apic_delay D (lapic_wait_ipi D a
       (lapic_write D a LAPIC_ICR_LO (ICR_SIPI OR ICR_LEVEL_ASSERT OR ucast v) (lapic_write D a LAPIC_ICR_HI (push_bit 24 (ucast alvo)) w)))"

definition apic_send_sipi :: "'h disp \<Rightarrow> apic \<Rightarrow> u8 \<Rightarrow> u8 \<Rightarrow> 'h mundo \<Rightarrow> 'h mundo" where
  "apic_send_sipi D a alvo v w = (if \<not> ap_pronto a then w else sipi_um D a alvo v (sipi_um D a alvo v w))"

section \<open>The other processors\<close>

definition MAX_CPUS :: nat where "MAX_CPUS = 4"

record cpu_info =
  ci_apic_id :: u8
  ci_active :: u8
  ci_stack :: u32
  ci_current :: u32

record smp =
  cpus :: "cpu_info list"
  cpu_count :: nat

definition ap_trampoline :: "u8 list" where "ap_trampoline = [0xFA, 0xF4, 0xEB, 0xFC]"

text \<open>The signature of the root pointer, whose sum is not checked here, from \<open>0xE0000\<close> in steps of 16.\<close>

definition smp_rsdp :: "mem \<Rightarrow> u32 option" where
  "smp_rsdp m = map_option (\<lambda>k. 0x000E0000 + of_nat (16 * k)) (find (\<lambda>k. sig8 m (0x000E0000 + of_nat (16 * k)) (bytes ''RSD PTR '')) [0..<8192])"

definition smp_madt :: "mem \<Rightarrow> u32 option" where
  "smp_madt m =
     (case smp_rsdp m of
        None \<Rightarrow> None
      | Some p \<Rightarrow>
          let rsdt = m32 m (p + 16); n = (m32 m (rsdt + 4) - 36) div 4 in
          acpi_madt m (rsdt + 36) (min (unat n) 32))"

text \<open>One entry of the table: a processor that is enabled and is not this one.\<close>

definition madt_entrada :: "mem \<Rightarrow> u8 \<Rightarrow> u32 \<Rightarrow> smp \<Rightarrow> smp" where
  "madt_entrada m bsp e s =
     (if m e = 0 \<and> m (e + 1) \<ge> 8 \<and> m32 m (e + 4) AND 1 \<noteq> 0 \<and> m (e + 3) \<noteq> bsp \<and> cpu_count s < MAX_CPUS then
        s\<lparr>cpus := (cpus s)[cpu_count s := (cpus s ! cpu_count s)\<lparr>ci_apic_id := m (e + 3), ci_active := 0, ci_current := 0\<rparr>],
          cpu_count := cpu_count s + 1\<rparr>
      else s)"

text \<open>The pointers wrap around at the end of the address space, so the walk may not end.\<close>

partial_function (option) madt_loop :: "mem \<Rightarrow> u8 \<Rightarrow> u32 \<Rightarrow> u32 \<Rightarrow> smp \<Rightarrow> smp option" where
  "madt_loop m bsp e fim s =
     (if \<not> e < fim then Some s
      else let s = madt_entrada m bsp e s in
        if m (e + 1) = 0 then Some s else madt_loop m bsp (e + ucast (m (e + 1))) fim s)"

definition parsear_madt :: "'h disp \<Rightarrow> apic \<Rightarrow> smp \<times> 'h mundo \<Rightarrow> (smp \<times> 'h mundo) option" where
  "parsear_madt D a sw =
     (case smp_madt (fst (snd sw)) of
        None \<Rightarrow> Some sw
      | Some madt \<Rightarrow>
          let (bsp, w) = apic_id D a (snd sw) in
          map_option (\<lambda>s. (s, w)) (madt_loop (fst w) bsp (madt + 44) (madt + m32 (fst w) (madt + 4)) (fst sw)))"

definition smp_inicia :: "'h disp \<Rightarrow> apic \<Rightarrow> u8 \<Rightarrow> shell \<times> 'h mundo \<Rightarrow> shell \<times> 'h mundo" where
  "smp_inicia D a i = (\<lambda>(sh, w).
     (shell_writeln (bytes ''...'') (shell_write_num (ucast i) (shell_write (bytes ''SMP: iniciando AP APIC_ID='') sh)),
      apic_send_sipi D a i 0x08 (apic_send_init D a i w)))"

text \<open>A processor that comes up through \<open>ap_main\<close> marks its entry; the trampoline above only halts.\<close>

definition ap_registra :: "u8 \<Rightarrow> smp \<Rightarrow> smp" where
  "ap_registra my s =
     (case find (\<lambda>i. ci_apic_id (cpus s ! i) = my \<and> ci_active (cpus s ! i) = 0) [1..<MAX_CPUS] of
        Some i \<Rightarrow> s\<lparr>cpus := (cpus s)[i := (cpus s ! i)\<lparr>ci_active := 1\<rparr>]\<rparr>
      | None \<Rightarrow> s)"

definition smp_zera :: "u8 \<Rightarrow> smp \<Rightarrow> smp" where
  "smp_zera b s =
     s\<lparr>cpus := \<lparr>ci_apic_id = b, ci_active = 1, ci_stack = 0, ci_current = 0\<rparr> #
        replicate (MAX_CPUS - 1) \<lparr>ci_apic_id = 0, ci_active = 0, ci_stack = 0, ci_current = 0\<rparr>\<rparr>"

definition smp_init :: "'h disp \<Rightarrow> apic \<Rightarrow> smp \<times> shell \<times> 'h mundo \<Rightarrow> (smp \<times> shell \<times> 'h mundo) option" where
  "smp_init D a = (\<lambda>(s, sh, w).
     let (b, w) = apic_id D a w; s = smp_zera b s in
     if \<not> apic_ready a then Some (s, shell_writeln (bytes ''SMP: APIC nao inicializado, skipping'') sh, w)
     else case parsear_madt D a (s, w) of
       None \<Rightarrow> None
     | Some (s, w) \<Rightarrow>
         if cpu_count s \<le> 1 then Some (s, shell_writeln (bytes ''SMP: sistema single-core'') sh, w)
         else
           let w = (mem_gr 0x8000 ap_trampoline (fst w), snd w);
               (sh, w) = fold (\<lambda>i. smp_inicia D a (ci_apic_id (cpus s ! i))) [1..<cpu_count s] (sh, w);
               w = apic_delay D w;
               online = length (filter (\<lambda>i. ci_active (cpus s ! i) \<noteq> 0) [0..<cpu_count s]);
               sh = shell_write_num (of_nat online) (shell_write (bytes ''SMP: '') sh);
               sh = shell_write_num (of_nat (cpu_count s)) (shell_write (bytes ''/'') sh)
           in Some (s, shell_writeln (bytes '' nucleos online'') sh, w))"

definition smp_current_cpu :: "'h disp \<Rightarrow> apic \<Rightarrow> smp \<times> 'h mundo \<Rightarrow> u8 \<times> 'h mundo" where
  "smp_current_cpu D a sw =
     (let (my, w) = apic_id D a (snd sw) in
      (case find (\<lambda>i. ci_apic_id (cpus (fst sw) ! i) = my) [0..<cpu_count (fst sw)] of Some i \<Rightarrow> of_nat i | None \<Rightarrow> 0, w))"

section \<open>What a descriptor says\<close>

text \<open>The base and the limit as the processor puts them together again, and the handler of a gate.\<close>

definition desc_base :: "gdt_entry \<Rightarrow> u32" where
  "desc_base e = ucast (gdt_base_low e) OR push_bit 16 (ucast (base_mid e)) OR push_bit 24 (ucast (gdt_base_high e))"

definition desc_limite :: "gdt_entry \<Rightarrow> u32" where
  "desc_limite e = ucast (limite_low e) OR push_bit 16 (ucast (granularidade e AND 0x0F))"

definition gate_base :: "idt_entry \<Rightarrow> u32" where "gate_base e = ucast (idt_base_low e) OR push_bit 16 (ucast (idt_base_high e))"

lemma masks: "(0xF :: u32) = mask 4" "(0xFF :: u32) = mask 8" "(0xFFFF :: u32) = mask 16" "(0xFFFFF :: u32) = mask 20"
  "(0xF :: u8) = mask 4" "(0xF0 :: u8) = push_bit 4 (mask 4)"
  by (simp_all add: mask_eq_exp_minus_1)

lemma junta_base:
  fixes b :: u32
  shows "ucast (ucast (b AND 0xFFFF) :: u16) OR push_bit 16 (ucast (ucast (drop_bit 16 b AND 0xFF) :: u8))
     OR push_bit 24 (ucast (ucast (drop_bit 24 b AND 0xFF) :: u8)) = b" (is "?l = b")
proof (rule bit_word_eqI)
  fix n assume "n < LENGTH(32)"
  then consider "n < 16" | "16 \<le> n" "n < 24" | "24 \<le> n" "n < 32" by fastforce
  then show "bit ?l n = bit b n" by cases (auto simp: masks bit_simps)
qed

lemma junta_limite:
  fixes b :: u32
  shows "ucast (ucast (b AND 0xFFFF) :: u16) OR push_bit 16 (ucast ((ucast (drop_bit 16 b AND 0x0F) OR (g AND 0xF0) :: u8) AND 0x0F))
     = b AND 0xFFFFF" (is "?l = _")
proof (rule bit_word_eqI)
  fix n assume "n < LENGTH(32)"
  then consider "n < 16" | "16 \<le> n" "n < 20" | "20 \<le> n" "n < 24" | "24 \<le> n" "n < 32" by fastforce
  then show "bit ?l n = bit (b AND 0xFFFFF) n" by cases (auto simp: masks bit_simps)
qed

lemma junta_16:
  fixes b :: u32
  shows "ucast (ucast (b AND 0xFFFF) :: u16) OR push_bit 16 (ucast (ucast (drop_bit 16 b AND 0xFFFF) :: u16)) = b" (is "?l = b")
proof (rule bit_word_eqI)
  fix n assume "n < LENGTH(32)"
  then consider "n < 16" | "16 \<le> n" "n < 32" by fastforce
  then show "bit ?l n = bit b n" by cases (auto simp: masks bit_simps)
qed

lemma alto_F0: "(ucast (x AND 0x0F :: u32) OR (g AND 0xF0) :: u8) AND 0xF0 = g AND 0xF0"
  by (rule bit_word_eqI) (auto simp: masks bit_simps)

theorem gdt_descritor:
  assumes "num < length g"
  shows "desc_base (gdt_set num base limite ac gran g ! num) = base \<and>
     desc_limite (gdt_set num base limite ac gran g ! num) = limite AND 0xFFFFF \<and>
     granularidade (gdt_set num base limite ac gran g ! num) AND 0xF0 = gran AND 0xF0 \<and>
     acesso (gdt_set num base limite ac gran g ! num) = ac"
  using assms by (simp add: gdt_set_def desc_base_def desc_limite_def junta_base junta_limite alto_F0)

theorem idt_porta:
  assumes "unat num < length t"
  shows "gate_base (idt_set num base sel fl t ! unat num) = base"
  using assms by (simp add: idt_set_def gate_base_def junta_16)

section \<open>The processors of the table\<close>

definition reg_bytes :: "u8 \<times> u8 list \<Rightarrow> u8 list" where "reg_bytes r = fst r # of_nat (length (snd r) + 2) # snd r"

definition reg_apic :: "u8 \<Rightarrow> u8 \<times> u8 list \<Rightarrow> u8 list" where
  "reg_apic bsp r = (if fst r = 0 \<and> 6 \<le> length (snd r) \<and> rd32 (snd r) 2 AND 1 \<noteq> 0 \<and> snd r ! 1 \<noteq> bsp then [snd r ! 1] else [])"

definition tem_cpus :: "smp \<Rightarrow> u8 list \<Rightarrow> bool" where
  "tem_cpus s L = (length (cpus s) = MAX_CPUS \<and> cpu_count s = min MAX_CPUS (length L) \<and>
     map ci_apic_id (take (cpu_count s) (cpus s)) = take MAX_CPUS L)"

text \<open>The sequence of registers \<open>L\<close> at \<open>e\<close>: each has the length of its payload, below the limit of a byte.\<close>

definition regs :: "(u8 \<times> u8 list) list \<Rightarrow> u8 list" where "regs L = concat (map reg_bytes L)"

definition tabela_em :: "mem \<Rightarrow> u32 \<Rightarrow> (u8 \<times> u8 list) list \<Rightarrow> bool" where
  "tabela_em m e L = (mem_le m e (length (regs L)) = regs L \<and> unat e + length (regs L) < 2 ^ 32 \<and> (\<forall>r \<in> set L. length (snd r) \<le> 253))"

lemma regs_Cons: "regs (r # L) = reg_bytes r @ regs L" by (simp add: regs_def)

lemma length_reg [simp]: "length (reg_bytes r) = length (snd r) + 2" by (simp add: reg_bytes_def)

lemma unat_n8: "k < 2 ^ 8 \<Longrightarrow> unat (of_nat k :: u8) = k" by (simp add: unat_of_nat)

lemma tabela_Cons:
  assumes "tabela_em m e (r # L)"
  shows "tabela_em m (e + of_nat (length (snd r) + 2)) L" "mem_le m e (length (snd r) + 2) = reg_bytes r"
    "unat (e + of_nat (length (snd r) + 2)) = unat e + (length (snd r) + 2)" "length (snd r) \<le> 253"
proof -
  show u: "unat (e + of_nat (length (snd r) + 2)) = unat e + (length (snd r) + 2)"
    using assms by (intro unat_mais_n) (simp add: tabela_em_def regs_Cons)
  have "mem_le m e (length (snd r) + 2 + length (regs L)) = reg_bytes r @ regs L" using assms by (simp add: tabela_em_def regs_Cons)
  then have *: "mem_le m e (length (snd r) + 2) = reg_bytes r \<and> mem_le m (e + of_nat (length (snd r) + 2)) (length (regs L)) = regs L"
    unfolding mem_le_append by (subst (asm) append_eq_append_conv) simp_all
  then show "mem_le m e (length (snd r) + 2) = reg_bytes r" by blast
  show "tabela_em m (e + of_nat (length (snd r) + 2)) L" "length (snd r) \<le> 253"
    using * u assms by (simp_all add: tabela_em_def regs_Cons)
qed

lemma madt_entrada_ok:
  assumes "tem_cpus s K" "mem_le m e (length (snd r) + 2) = reg_bytes r" "length (snd r) \<le> 253"
  shows "tem_cpus (madt_entrada m bsp e s) (K @ reg_apic bsp r)"
proof -
  note n = mem_le_nth [OF assms(2)]
  have 0: "m e = fst r" "m (e + 1) = of_nat (length (snd r) + 2)" using n [of 0] n [of 1] by (simp_all add: reg_bytes_def)
  have "unat (m (e + 1)) = length (snd r) + 2" unfolding 0(2) by (rule unat_n8) (use assms(3) in simp)
  then have g: "m (e + 1) \<ge> 8 \<longleftrightarrow> 6 \<le> length (snd r)" by (simp add: word_le_nat_alt)
  have l: "m (e + 3) = snd r ! 1 \<and> m32 m (e + 4) = rd32 (snd r) 2" if "6 \<le> length (snd r)"
    using n [of 3] m32_mem [OF assms(2), of 4] that by (simp add: reg_bytes_def rd32_def numeral_eq_Suc)
  show ?thesis
  proof (cases "reg_apic bsp r = [] \<or> MAX_CPUS \<le> cpu_count s")
    case True
    then have "madt_entrada m bsp e s = s" using g l by (auto simp: madt_entrada_def reg_apic_def 0(1) split: if_splits)
    then show ?thesis using True assms(1) by (auto simp: tem_cpus_def)
  next
    case False
    then have c: "fst r = 0" "6 \<le> length (snd r)" "rd32 (snd r) 2 AND 1 \<noteq> 0" "snd r ! 1 \<noteq> bsp" "cpu_count s < MAX_CPUS"
      by (auto simp: reg_apic_def split: if_splits)
    then have k: "cpu_count s = length K" "length K < length (cpus s)" using assms(1) by (auto simp: tem_cpus_def)
    then show ?thesis using assms(1) c l [OF c(2)] g 0(1)
      by (simp add: madt_entrada_def tem_cpus_def reg_apic_def take_Suc_conv_app_nth map_update)
  qed
qed

lemma madt_loop_ok:
  assumes "tabela_em m e L" "tem_cpus s K"
  shows "\<exists>t. madt_loop m bsp e (e + of_nat (length (regs L))) s = Some t \<and> tem_cpus t (K @ concat (map (reg_apic bsp) L))"
  using assms
proof (induction L arbitrary: e s K)
  case Nil
  then show ?case by (subst madt_loop.simps) (simp add: regs_def)
next
  case (Cons r L)
  note t = tabela_Cons [OF Cons.prems(1)]
  let ?e = "e + of_nat (length (snd r) + 2)" and ?f = "e + of_nat (length (regs (r # L)))"
  have u: "unat ?f = unat e + length (regs (r # L))" using Cons.prems(1) by (intro unat_mais_n) (simp add: tabela_em_def)
  then have lt: "e < ?f" by (simp add: word_less_nat_alt regs_Cons)
  have m1: "m (e + 1) = of_nat (length (snd r) + 2)" using mem_le_nth [OF t(2), of 1] by (simp add: reg_bytes_def)
  have v: "unat (m (e + 1)) = length (snd r) + 2" unfolding m1 by (rule unat_n8) (use t(4) in simp)
  then have nz: "m (e + 1) \<noteq> 0" by auto
  have up: "(ucast (m (e + 1)) :: u32) = of_nat (length (snd r) + 2)" unfolding v [symmetric] by simp
  have f: "?f = ?e + of_nat (length (regs L))" by (simp add: regs_Cons)
  have "madt_loop m bsp e ?f s = madt_loop m bsp ?e ?f (madt_entrada m bsp e s)"
    by (subst madt_loop.simps) (simp add: lt nz up Let_def del: of_nat_add of_nat_Suc)
  then show ?case
    using Cons.IH [OF t(1) madt_entrada_ok [OF Cons.prems(2) t(2,4), of bsp]] unfolding f by (simp del: of_nat_add of_nat_Suc)
qed

text \<open>C35: the processors of the firmware's table.  On a machine whose APIC answers with its number, \<open>smp_init\<close> walks the
  table to its end and returns, and then knows exactly this processor and the first three others that are enabled in
  the table, in its order, whatever other records the table holds.\<close>

lemma smp_zera_tem: "cpu_count s = 1 \<Longrightarrow> tem_cpus (smp_zera b s) [b]" by (simp add: tem_cpus_def smp_zera_def MAX_CPUS_def)

lemma tem_cpus_conta: "tem_cpus s L \<Longrightarrow> L \<noteq> [] \<Longrightarrow> 1 \<le> cpu_count s" by (cases L) (auto simp: tem_cpus_def MAX_CPUS_def)

theorem smp_enumera:
  assumes "ap_pronto a" "hw_le D L32 (ap_base a + LAPIC_ID) w = (push_bit 24 (ucast b), w)" "cpu_count s = 1"
    and "smp_madt (fst w) = Some madt" "m32 (fst w) (madt + 4) = 44 + of_nat (length (regs L))" "tabela_em (fst w) (madt + 44) L"
  shows "\<exists>s' sh' w'. smp_init D a (s, sh, w) = Some (s', sh', w') \<and>
     cpu_count s' = min 4 (1 + length (concat (map (reg_apic b) L))) \<and>
     map ci_apic_id (take (cpu_count s') (cpus s')) = take 4 (b # concat (map (reg_apic b) L))"
proof -
  have i: "apic_id D a w = (b, w)"
    using assms(1,2) by (auto simp: apic_id_def lapic_read_def masks intro!: bit_word_eqI simp: bit_simps)
  obtain t where t: "madt_loop (fst w) b (madt + 44) (madt + 44 + of_nat (length (regs L))) (smp_zera b s) = Some t"
      "tem_cpus t ([b] @ concat (map (reg_apic b) L))"
    using madt_loop_ok [OF assms(6) smp_zera_tem [OF assms(3), of b], of b] by blast
  have p: "parsear_madt D a (smp_zera b s, w) = Some (t, w)"
    using assms(4,5) i t(1) by (simp add: parsear_madt_def ac_simps)
  have "\<exists>sh' w'. smp_init D a (s, sh, w) = Some (t, sh', w')"
    using p i assms(1) by (simp add: smp_init_def apic_ready_def split: prod.splits)
  then show ?thesis using t(2) by (auto simp: tem_cpus_def MAX_CPUS_def)
qed

definition regs_exemplo :: "(u8 \<times> u8 list) list" where
  "regs_exemplo = [(0, [0, 0, 1, 0, 0, 0]), (1, [2, 0, 0, 0, 192, 254, 0, 0, 0, 0]), (0, [1, 1, 1, 0, 0, 0]), (0, [2, 2, 0, 0, 0, 0])]"

definition rsdp_exemplo :: "u8 list" where "rsdp_exemplo = bytes ''RSD PTR '' @ replicate 8 0 @ le32 0x1000"
definition rsdt_exemplo :: "u8 list" where "rsdt_exemplo = bytes ''RSDT'' @ le32 40 @ replicate 28 0 @ le32 0x2000"
definition madt_exemplo :: "u8 list" where "madt_exemplo = bytes ''APIC'' @ le32 (44 + 36) @ replicate 36 0 @ regs regs_exemplo"

definition mem_exemplo :: mem where
  "mem_exemplo = mem_gr 0xE0000 rsdp_exemplo (mem_gr 0x1000 rsdt_exemplo (mem_gr 0x2000 madt_exemplo (\<lambda>_. 0)))"

definition disp_exemplo :: "unit disp" where
  "disp_exemplo = \<lparr>hw_le = (\<lambda>l a w. (0, w)), hw_gr = (\<lambda>l a v w. w), hw_tempo = (\<lambda>w. w)\<rparr>"

lemma tam_exemplo: "length rsdp_exemplo = 20" "length rsdt_exemplo = 40" "length madt_exemplo = 80" by code_simp+

lemma le_exemplo: "mem_le mem_exemplo 0xE0000 20 = rsdp_exemplo" "mem_le mem_exemplo 0x1000 40 = rsdt_exemplo"
  "mem_le mem_exemplo 0x2000 80 = madt_exemplo"
  by (simp_all add: mem_exemplo_def mem_le_same mem_le_other longe_def tam_exemplo)

lemma sig4_mem: "mem_le m a n = bs \<Longrightarrow> 4 \<le> n \<Longrightarrow> sig4 m a b \<longleftrightarrow> (\<forall>i \<in> {0, 1, 2, 3}. bs ! i = b ! i)"
  using mem_le_nth [of m a n bs 0] mem_le_nth [of m a n bs 1] mem_le_nth [of m a n bs 2] mem_le_nth [of m a n bs 3] by (simp add: sig4_def)

lemma find_upt_0: "P 0 \<Longrightarrow> 0 < n \<Longrightarrow> find P [0..<n] = Some 0" by (simp add: upt_conv_Cons)

lemma mem_exemplo_ok: "smp_madt mem_exemplo = Some 0x2000" "m32 mem_exemplo (0x2000 + 4) = 44 + of_nat (length (regs regs_exemplo))"
  "tabela_em mem_exemplo (0x2000 + 44) regs_exemplo"
proof -
  note m = m32_mem [OF le_exemplo(1)] m32_mem [OF le_exemplo(2)] m32_mem [OF le_exemplo(3)]
  have "sig4 mem_exemplo 0xE0000 (bytes ''RSD PTR '')"
    by (subst sig4_mem [OF le_exemplo(1)], simp) code_simp
  moreover have "mem_le mem_exemplo (0xE0000 + 4) 16 = drop 4 rsdp_exemplo" using mem_le_drop [OF le_exemplo(1), of 4] by simp
  then have "sig4 mem_exemplo (0xE0000 + 4) (drop 4 (bytes ''RSD PTR ''))" by (subst sig4_mem, assumption, simp) code_simp
  ultimately have "smp_rsdp mem_exemplo = Some 0xE0000" by (simp add: smp_rsdp_def find_upt_0 sig8_def)
  moreover have "rd32 rsdp_exemplo 16 = 0x1000" "rd32 rsdt_exemplo 4 = 40" "rd32 rsdt_exemplo 36 = 0x2000" "rd32 madt_exemplo 4 = 80" by code_simp+
  then have r: "m32 mem_exemplo 0xE0010 = 0x1000" "m32 mem_exemplo 0x1004 = 40" "m32 mem_exemplo 0x1024 = 0x2000" "m32 mem_exemplo 0x2004 = 80"
    using m(1) [of 16] m(2) [of 4] m(2) [of 36] m(3) [of 4] by simp_all
  have a: "sig4 mem_exemplo 0x2000 (bytes ''APIC'')" by (subst sig4_mem [OF le_exemplo(3)], simp) code_simp
  have "acpi_madt mem_exemplo 0x1024 (Suc 0) = Some 0x2000" using a by (simp add: r Let_def del: bytes_Cons)
  ultimately show "smp_madt mem_exemplo = Some 0x2000" using r by (simp add: smp_madt_def)
  have t: "length (regs regs_exemplo) = 36" "drop 44 madt_exemplo = regs regs_exemplo" "\<forall>q \<in> set regs_exemplo. length (snd q) \<le> 253" by code_simp+
  show "m32 mem_exemplo (0x2000 + 4) = 44 + of_nat (length (regs regs_exemplo))" using r t(1) by simp
  show "tabela_em mem_exemplo (0x2000 + 44) regs_exemplo"
    using mem_le_drop [OF le_exemplo(3), of 44] t by (simp add: tabela_em_def)
qed

theorem smp_enumera_witness:
  "\<exists>s' sh' w'. smp_init disp_exemplo \<lparr>ap_base = 0xFEE00000, ap_pronto = True\<rparr> (\<lparr>cpus = [], cpu_count = 1\<rparr>, shell_exemplo, (mem_exemplo, ()))
       = Some (s', sh', w') \<and>
     cpu_count s' = 2 \<and> map ci_apic_id (take (cpu_count s') (cpus s')) = [0, 1]"
proof -
  have r: "concat (map (reg_apic 0) regs_exemplo) = [1]" by code_simp
  show ?thesis
    using smp_enumera [where a = "\<lparr>ap_base = 0xFEE00000, ap_pronto = True\<rparr>" and D = disp_exemplo and w = "(mem_exemplo, ())" and b = 0
        and s = "\<lparr>cpus = [], cpu_count = 1\<rparr>" and madt = "0x2000" and L = regs_exemplo and sh = shell_exemplo] mem_exemplo_ok
    by (simp add: disp_exemplo_def r numeral_2_eq_2)
qed

end
