(* ===== verification/Discos.thy ===== *)
theory Discos
  imports Pci Hardware Paging KString Shell
begin

text \<open>
  The two disk controllers that work by direct memory access: the bus master of the IDE controller
  (\<^verbatim>\<open>kernel/disk/dma.c\<close>) and the SATA controller (\<^verbatim>\<open>kernel/disk/ahci.c\<close>).  The controllers are devices of \<open>Hardware\<close>;
  the addresses of the static buffers they share with the driver, fixed by the linker, are arguments.  A command of the
  configuration space is written through its two ports.
\<close>

definition pci_grava :: "'h disp \<Rightarrow> pci_device \<Rightarrow> u8 \<Rightarrow> u32 \<Rightarrow> 'h mundo \<Rightarrow> 'h mundo" where
  "pci_grava D d off v w = fold (\<lambda>(p, v). hw_gr D L32 (ucast p) v) (pci_write (pd_bus d) (pd_device d) (pd_function d) off v) w"

definition pci_le :: "(u32 \<Rightarrow> u32) \<Rightarrow> pci_device \<Rightarrow> u8 \<Rightarrow> u32" where
  "pci_le cfg d off = pci_read cfg (pd_bus d) (pd_device d) (pd_function d) off"

section \<open>The bus master of the IDE controller\<close>

definition BM_CMD :: u8 where "BM_CMD = 0x00"
definition BM_STATUS :: u8 where "BM_STATUS = 0x02"
definition BM_PRDT :: u8 where "BM_PRDT = 0x04"
definition BM_CMD_START :: u32 where "BM_CMD_START = 0x01"
definition BM_CMD_WRITE :: u32 where "BM_CMD_WRITE = 0x08"
definition BM_ST_ACTIVE :: u32 where "BM_ST_ACTIVE = 0x01"
definition BM_ST_ERR :: u32 where "BM_ST_ERR = 0x02"
definition BM_ST_IRQ :: u32 where "BM_ST_IRQ = 0x04"
definition ATA_CMD_READ_DMA :: u32 where "ATA_CMD_READ_DMA = 0xC8"
definition ATA_CMD_WRITE_DMA :: u32 where "ATA_CMD_WRITE_DMA = 0xCA"

text \<open>The state, and the addresses of \<open>prdt\<close> and \<open>dma_buf\<close>.\<close>

record dma =
  bm_base :: u16
  dma_ok :: bool

record dma_lug =
  l_prdt :: u32
  l_dma_buf :: u32

definition bm_w :: "'h disp \<Rightarrow> dma \<Rightarrow> largura \<Rightarrow> u8 \<Rightarrow> u32 \<Rightarrow> 'h mundo \<Rightarrow> 'h mundo" where
  "bm_w D d l reg v w = hw_gr D l (ucast (bm_base d + ucast reg)) v w"

definition bm_r8 :: "'h disp \<Rightarrow> dma \<Rightarrow> u8 \<Rightarrow> 'h mundo \<Rightarrow> u32 \<times> 'h mundo" where
  "bm_r8 D d reg w = hw_le D L8 (ucast (bm_base d + ucast reg)) w"

definition dma_init :: "(u32 \<Rightarrow> u32) \<Rightarrow> pci \<Rightarrow> 'h disp \<Rightarrow> dma \<times> 'h mundo \<Rightarrow> int \<times> dma \<times> 'h mundo" where
  "dma_init cfg ps D = (\<lambda>(d, w).
     case pci_find_class 0x01 0x01 ps of
       None \<Rightarrow> (- 1, d, w)
     | Some i \<Rightarrow>
         let ide = pci_devices ps ! i in
         if drop_bit 8 (pci_le cfg ide 0x08) AND 0x80 = 0 then (- 1, d, w)
         else let bar4 = bar ide ! 4 in
           if bar4 AND 0x01 = 0 then (- 1, d, w)
           else let d = d\<lparr>bm_base := ucast (bar4 AND NOT 0x3)\<rparr>;
                    w = pci_grava D ide 0x04 (pci_le cfg ide 0x04 OR 0x05) w;
                    w = bm_w D d L8 BM_STATUS (BM_ST_ERR OR BM_ST_IRQ) w
                in (0, d\<lparr>dma_ok := True\<rparr>, w))"

definition dma_disponivel :: "dma \<Rightarrow> bool" where "dma_disponivel d = dma_ok d"

text \<open>The loop \<open>do \<dots> while (t--)\<close> on the status; the last status read.\<close>

fun dma_poll :: "'h disp \<Rightarrow> dma \<Rightarrow> nat \<Rightarrow> 'h mundo \<Rightarrow> u32 \<times> 'h mundo" where
  "dma_poll D d n w =
     (let (st, w) = bm_r8 D d BM_STATUS w in
      if st AND BM_ST_ACTIVE = 0 then (st, w)
      else let w = hw_gr D L8 0x80 0 w in case n of 0 \<Rightarrow> (st, w) | Suc n \<Rightarrow> dma_poll D d n w)"

declare dma_poll.simps [simp del]

definition dma_pede :: "'h disp \<Rightarrow> u32 \<Rightarrow> u8 \<Rightarrow> bool \<Rightarrow> 'h mundo \<Rightarrow> 'h mundo" where
  "dma_pede D lba count wr w =
     fold (\<lambda>(p, v). hw_gr D L8 p v)
       [(0x1F6, 0xE0 OR (drop_bit 24 lba AND 0xF)), (0x1F2, ucast count), (0x1F3, lba AND 0xFF), (0x1F4, drop_bit 8 lba AND 0xFF),
        (0x1F5, drop_bit 16 lba AND 0xFF), (0x1F7, if wr then ATA_CMD_WRITE_DMA else ATA_CMD_READ_DMA)] w"

definition dma_op :: "'h disp \<Rightarrow> dma_lug \<Rightarrow> dma \<Rightarrow> u32 \<Rightarrow> u8 \<Rightarrow> u8 list \<Rightarrow> bool \<Rightarrow> 'h mundo \<Rightarrow> int \<times> u8 list \<times> 'h mundo" where
  "dma_op D l d lba count buffer wr w =
     (if \<not> dma_ok d \<or> count = 0 \<or> count > 16 then (- 1, buffer, w)
      else
        let n = unat count * 512;
            m = (if wr then mem_gr (l_dma_buf l) (take n buffer) (fst w) else fst w);
            m = mem_gr (l_prdt l) (le32 (l_dma_buf l) @ le16 (of_nat n) @ le16 0x8000) m;
            w = (m, snd w);
            w = bm_w D d L8 BM_CMD 0 w;
            w = bm_w D d L8 BM_STATUS (BM_ST_ERR OR BM_ST_IRQ) w;
            w = bm_w D d L32 BM_PRDT (l_prdt l) w;
            w = bm_w D d L8 BM_CMD (if wr then 0 else BM_CMD_WRITE) w;
            w = snd (aguarda (bits_em D L8 0x1F7 0x80) 100000 w);
            w = dma_pede D lba count wr w;
            w = bm_w D d L8 BM_CMD ((if wr then 0 else BM_CMD_WRITE) OR BM_CMD_START) w;
            (st, w) = dma_poll D d 500000 w;
            w = bm_w D d L8 BM_CMD 0 w;
            w = bm_w D d L8 BM_STATUS (BM_ST_ERR OR BM_ST_IRQ) w
        in if st AND BM_ST_ERR \<noteq> 0 then (- 1, buffer, w)
           else (0, if wr then buffer else splice buffer 0 (mem_le (fst w) (l_dma_buf l) n), w))"

definition dma_ler :: "'h disp \<Rightarrow> dma_lug \<Rightarrow> dma \<Rightarrow> u32 \<Rightarrow> u8 \<Rightarrow> u8 list \<Rightarrow> 'h mundo \<Rightarrow> int \<times> u8 list \<times> 'h mundo" where
  "dma_ler D l d lba count buffer w = dma_op D l d lba count buffer False w"

definition dma_gravar :: "'h disp \<Rightarrow> dma_lug \<Rightarrow> dma \<Rightarrow> u32 \<Rightarrow> u8 \<Rightarrow> u8 list \<Rightarrow> 'h mundo \<Rightarrow> int \<times> u8 list \<times> 'h mundo" where
  "dma_gravar D l d lba count buffer w = dma_op D l d lba count buffer True w"

section \<open>The SATA controller\<close>

definition HBA_GHC :: u32 where "HBA_GHC = 0x04"
definition HBA_PI :: u32 where "HBA_PI = 0x0C"
definition GHC_AE :: u32 where "GHC_AE = push_bit 31 1"
definition GHC_HR :: u32 where "GHC_HR = push_bit 0 1"
definition PORT_CLB :: u32 where "PORT_CLB = 0x00"
definition PORT_CLBU :: u32 where "PORT_CLBU = 0x04"
definition PORT_FB :: u32 where "PORT_FB = 0x08"
definition PORT_FBU :: u32 where "PORT_FBU = 0x0C"
definition PORT_IS :: u32 where "PORT_IS = 0x10"
definition PORT_CMD :: u32 where "PORT_CMD = 0x18"
definition PORT_SIG :: u32 where "PORT_SIG = 0x24"
definition PORT_SSTS :: u32 where "PORT_SSTS = 0x28"
definition PORT_SERR :: u32 where "PORT_SERR = 0x30"
definition PORT_CI :: u32 where "PORT_CI = 0x38"
definition PORT_CMD_ST :: u32 where "PORT_CMD_ST = push_bit 0 1"
definition PORT_CMD_FRE :: u32 where "PORT_CMD_FRE = push_bit 4 1"
definition PORT_CMD_FR :: u32 where "PORT_CMD_FR = push_bit 14 1"
definition PORT_CMD_CR :: u32 where "PORT_CMD_CR = push_bit 15 1"
definition SSTS_DET_PRESENT :: u32 where "SSTS_DET_PRESENT = 0x3"
definition SSTS_IPM_ACTIVE :: u32 where "SSTS_IPM_ACTIVE = 0x1"
definition FIS_TYPE_REG_H2D :: u8 where "FIS_TYPE_REG_H2D = 0x27"
definition AHCI_MAX_PORTS :: nat where "AHCI_MAX_PORTS = 4"

record ahci =
  abar_base :: u32
  ahci_port :: int
  ahci_ready :: bool

text \<open>The addresses of \<open>cmd_list\<close>, \<open>fis_buf\<close>, \<open>cmd_tbl\<close> and \<open>xfer_buf\<close>, and of their elements.\<close>

record ahci_lug =
  l_cmd_list :: u32
  l_fis_buf :: u32
  l_cmd_tbl :: u32
  l_xfer_buf :: u32

definition lista_de :: "ahci_lug \<Rightarrow> nat \<Rightarrow> u32" where "lista_de l p = l_cmd_list l + of_nat (1024 * p)"
definition fis_de :: "ahci_lug \<Rightarrow> nat \<Rightarrow> u32" where "fis_de l p = l_fis_buf l + of_nat (256 * p)"
definition tabela_de :: "ahci_lug \<Rightarrow> nat \<Rightarrow> u32" where "tabela_de l p = l_cmd_tbl l + of_nat (144 * p)"

definition hba_r :: "'h disp \<Rightarrow> ahci \<Rightarrow> u32 \<Rightarrow> 'h mundo \<Rightarrow> u32 \<times> 'h mundo" where "hba_r D s off w = hw_le D L32 (abar_base s + off) w"
definition hba_w :: "'h disp \<Rightarrow> ahci \<Rightarrow> u32 \<Rightarrow> u32 \<Rightarrow> 'h mundo \<Rightarrow> 'h mundo" where "hba_w D s off v w = hw_gr D L32 (abar_base s + off) v w"
definition preg :: "nat \<Rightarrow> u32 \<Rightarrow> u32" where "preg p off = 0x100 + of_nat p * 0x80 + off"
definition port_r :: "'h disp \<Rightarrow> ahci \<Rightarrow> nat \<Rightarrow> u32 \<Rightarrow> 'h mundo \<Rightarrow> u32 \<times> 'h mundo" where "port_r D s p off w = hba_r D s (preg p off) w"
definition port_w :: "'h disp \<Rightarrow> ahci \<Rightarrow> nat \<Rightarrow> u32 \<Rightarrow> u32 \<Rightarrow> 'h mundo \<Rightarrow> 'h mundo" where "port_w D s p off v w = hba_w D s (preg p off) v w"

definition port_stop :: "'h disp \<Rightarrow> ahci \<Rightarrow> nat \<Rightarrow> 'h mundo \<Rightarrow> 'h mundo" where
  "port_stop D s p w =
     (let (cmd, w) = port_r D s p PORT_CMD w;
          w = port_w D s p PORT_CMD (cmd AND NOT (PORT_CMD_ST OR PORT_CMD_FRE)) w
      in snd (aguarda (bits_em D L32 (abar_base s + preg p PORT_CMD) (PORT_CMD_CR OR PORT_CMD_FR)) 50000 w))"

definition port_start :: "'h disp \<Rightarrow> ahci \<Rightarrow> nat \<Rightarrow> 'h mundo \<Rightarrow> 'h mundo" where
  "port_start D s p w =
     (let w = snd (aguarda (bits_em D L32 (abar_base s + preg p PORT_CMD) PORT_CMD_CR) 10000 w);
          (cmd, w) = port_r D s p PORT_CMD w
      in port_w D s p PORT_CMD (cmd OR (PORT_CMD_FRE OR PORT_CMD_ST)) w)"

definition porta_liga :: "'h disp \<Rightarrow> ahci_lug \<Rightarrow> ahci \<Rightarrow> nat \<Rightarrow> 'h mundo \<Rightarrow> 'h mundo" where
  "porta_liga D l s p w =
     (let w = port_stop D s p w;
          w = port_w D s p PORT_CLB (lista_de l p) w;
          w = port_w D s p PORT_CLBU 0 w;
          w = port_w D s p PORT_FB (fis_de l p) w;
          w = port_w D s p PORT_FBU 0 w;
          w = (mem_gr (fis_de l p) (replicate 256 0) (mem_gr (lista_de l p) (replicate 1024 0) (fst w)), snd w);
          w = port_w D s p PORT_SERR 0xFFFFFFFF w;
          w = port_w D s p PORT_IS 0xFFFFFFFF w
      in port_start D s p w)"

text \<open>The first implemented port with an active device.\<close>

fun ahci_portas :: "'h disp \<Rightarrow> ahci_lug \<Rightarrow> u32 \<Rightarrow> nat list \<Rightarrow> ahci \<times> 'h mundo \<Rightarrow> ahci \<times> 'h mundo" where
  "ahci_portas D l pi [] sw = sw"
| "ahci_portas D l pi (p # ps) sw =
     (if \<not> bit pi p then ahci_portas D l pi ps sw
      else let (ssts, w) = port_r D (fst sw) p PORT_SSTS (snd sw) in
        if ssts AND 0xF \<noteq> SSTS_DET_PRESENT \<or> drop_bit 8 ssts AND 0xF \<noteq> SSTS_IPM_ACTIVE then ahci_portas D l pi ps (fst sw, w)
        else ((fst sw)\<lparr>ahci_port := int p, ahci_ready := True\<rparr>, porta_liga D l (fst sw) p w))"

definition mapeia2 :: "u32 \<Rightarrow> u32 \<Rightarrow> paging \<Rightarrow> paging" where
  "mapeia2 pd a pg = fold (\<lambda>off. paging_mapear pd (a + off) (a + off) (0x001 OR 0x002)) [0, 0x1000] pg"

definition ahci_init ::
  "(u32 \<Rightarrow> u32) \<Rightarrow> pci \<Rightarrow> u32 \<Rightarrow> 'h disp \<Rightarrow> ahci_lug \<Rightarrow> ahci \<times> paging \<times> 'h mundo \<Rightarrow> int \<times> ahci \<times> paging \<times> 'h mundo" where
  "ahci_init cfg ps pd D l = (\<lambda>(s, pg, w).
     case pci_find_class 0x01 0x06 ps of
       None \<Rightarrow> (- 1, s, pg, w)
     | Some i \<Rightarrow>
         let dev = pci_devices ps ! i; bar5 = bar dev ! 5 in
         if bar5 = 0 \<or> bar5 AND 0x01 \<noteq> 0 then (- 1, s, pg, w)
         else
           let s = s\<lparr>abar_base := bar5 AND NOT 0xFFF\<rparr>;
               pg = mapeia2 pd (abar_base s) pg;
               w = pci_grava D dev 0x04 (pci_le cfg dev 0x04 OR 0x06) w;
               (g, w) = hba_r D s HBA_GHC w; w = hba_w D s HBA_GHC (g OR GHC_AE) w;
               (g, w) = hba_r D s HBA_GHC w; w = hba_w D s HBA_GHC (g OR GHC_HR) w;
               w = snd (aguarda (bits_em D L32 (abar_base s + HBA_GHC) GHC_HR) 100000 w);
               (g, w) = hba_r D s HBA_GHC w; w = hba_w D s HBA_GHC (g OR GHC_AE) w;
               (pi, w) = hba_r D s HBA_PI w;
               (s, w) = ahci_portas D l pi [0..<AHCI_MAX_PORTS] (s, w)
           in (if ahci_ready s then 0 else - 1, s, pg, w))"

definition ahci_disponivel :: "ahci \<Rightarrow> bool" where "ahci_disponivel s = ahci_ready s"

text \<open>What the driver leaves in memory for the controller: the command header, and the command table with the request
  (the FIS) and the single entry that describes the buffer.\<close>

definition fis_h2d :: "u8 \<Rightarrow> u32 \<Rightarrow> u8 \<Rightarrow> u8 list" where
  "fis_h2d cmd lba count =
     [FIS_TYPE_REG_H2D, 0x80, cmd, 0, ucast lba, ucast (drop_bit 8 lba), ucast (drop_bit 16 lba), 0x40, ucast (drop_bit 24 lba), 0, 0, 0,
      count, 0, 0, 0, 0, 0, 0, 0]"

definition cmd_hdr :: "ahci_lug \<Rightarrow> nat \<Rightarrow> bool \<Rightarrow> u8 list" where
  "cmd_hdr l p wr =
     le16 (5 OR (if wr then push_bit 6 1 else 0)) @ le16 1 @ le32 0 @ le32 (tabela_de l p) @ le32 0 @ replicate 16 0"

definition cmd_tbl :: "ahci_lug \<Rightarrow> u8 \<Rightarrow> u32 \<Rightarrow> u8 \<Rightarrow> u8 list" where
  "cmd_tbl l cmd lba count =
     fis_h2d cmd lba count @ replicate 108 0 @ le32 (l_xfer_buf l) @ le32 0 @ le32 0 @ le32 (ucast count * 512 - 1)"

text \<open>The loop \<open>while (t--)\<close>: \<open>None\<close> for the fatal error, otherwise the last value of \<open>t\<close>.\<close>

fun ahci_poll :: "'h disp \<Rightarrow> ahci \<Rightarrow> nat \<Rightarrow> nat \<Rightarrow> 'h mundo \<Rightarrow> u32 option \<times> 'h mundo" where
  "ahci_poll D s p 0 w = (Some (- 1), w)"
| "ahci_poll D s p (Suc n) w =
     (let (ci, w) = port_r D s p PORT_CI w in
      if ci AND 1 = 0 then (Some (of_nat n), w)
      else let (is, w) = port_r D s p PORT_IS w in if is AND push_bit 30 1 \<noteq> 0 then (None, w) else ahci_poll D s p n w)"

definition ahci_issue ::
  "'h disp \<Rightarrow> ahci_lug \<Rightarrow> ahci \<Rightarrow> nat \<Rightarrow> u8 \<Rightarrow> u32 \<Rightarrow> u8 \<Rightarrow> u8 list \<Rightarrow> bool \<Rightarrow> 'h mundo \<Rightarrow> int \<times> u8 list \<times> 'h mundo" where
  "ahci_issue D l s p cmd lba count buf wr w =
     (let n = unat count * 512;
          m = mem_gr (lista_de l p) (cmd_hdr l p wr) (fst w);
          m = (if wr then mem_gr (l_xfer_buf l) (take n buf) m else m);
          m = mem_gr (tabela_de l p) (cmd_tbl l cmd lba count) m;
          w = (m, snd w);
          w = port_w D s p PORT_IS 0xFFFFFFFF w;
          w = port_w D s p PORT_CI 1 w;
          (t, w) = ahci_poll D s p 500000 w
      in case t of
           None \<Rightarrow> (- 1, buf, w)
         | Some t \<Rightarrow>
             if t = 0 then (- 1, buf, w)
             else (0, if wr then buf else splice buf 0 (mem_le (fst w) (l_xfer_buf l) n), w))"

definition ahci_ler :: "'h disp \<Rightarrow> ahci_lug \<Rightarrow> ahci \<Rightarrow> u32 \<Rightarrow> u8 \<Rightarrow> u8 list \<Rightarrow> 'h mundo \<Rightarrow> int \<times> u8 list \<times> 'h mundo" where
  "ahci_ler D l s lba count buf w =
     (if \<not> ahci_ready s \<or> count > 16 then (- 1, buf, w) else ahci_issue D l s (nat (ahci_port s)) 0x25 lba count buf False w)"

definition ahci_gravar :: "'h disp \<Rightarrow> ahci_lug \<Rightarrow> ahci \<Rightarrow> u32 \<Rightarrow> u8 \<Rightarrow> u8 list \<Rightarrow> 'h mundo \<Rightarrow> int \<times> u8 list \<times> 'h mundo" where
  "ahci_gravar D l s lba count buf w =
     (if \<not> ahci_ready s \<or> count > 16 then (- 1, buf, w) else ahci_issue D l s (nat (ahci_port s)) 0x35 lba count buf True w)"

definition ahci_info :: "'h disp \<Rightarrow> ahci \<Rightarrow> shell \<times> 'h mundo \<Rightarrow> shell \<times> 'h mundo" where
  "ahci_info D s = (\<lambda>(sh, w).
     if \<not> ahci_ready s then (shell_writeln (bytes ''AHCI: nenhum dispositivo'') sh, w)
     else
       let sh = shell_writeln (bytes '' ativa'') (shell_write_num (of_int (ahci_port s)) (shell_write (bytes ''AHCI: porta '') sh));
           (sig, w) = port_r D s (nat (ahci_port s)) PORT_SIG w
       in (shell_writeln [] (shell_write_hex sig (shell_write (bytes ''  SIG=0x'') sh)), w))"

section \<open>A controller that works\<close>

text \<open>The request as the controller reads it: the command list is at \<open>a\<close>, and the command table is aligned to 128 bytes, the
  low bits of its address being ignored.  The direction, the command, the first sector, how many, and the buffer.\<close>

definition hba_pedido :: "mem \<Rightarrow> u32 \<Rightarrow> bool \<times> u8 \<times> u32 \<times> nat \<times> u32" where
  "hba_pedido m a =
     (let t = m32 m (a + 8) AND NOT 0x7F in
      (bit (m a) 6, m (t + 2), rd32 [m (t + 4), m (t + 5), m (t + 6), m (t + 8)] 0, unat (m (t + 12)), m32 m (t + 128)))"

definition setores_do :: "(u32 \<Rightarrow> u8 list) \<Rightarrow> u32 \<Rightarrow> nat \<Rightarrow> u8 list" where
  "setores_do d lba n = concat (map (\<lambda>i. d (lba + of_nat i)) [0..<n])"

definition gravados :: "u32 \<Rightarrow> nat \<Rightarrow> u8 list \<Rightarrow> (u32 \<Rightarrow> u8 list) \<Rightarrow> u32 \<Rightarrow> u8 list" where
  "gravados lba n xs d = (\<lambda>x. if unat (x - lba) < n then slice xs (512 * unat (x - lba)) 512 else d x)"

text \<open>The command register stays busy for \<open>k\<close> turns of the polling loop, without a fatal error, and then is clear.\<close>

fun termina :: "'h disp \<Rightarrow> ahci \<Rightarrow> nat \<Rightarrow> nat \<Rightarrow> 'h mundo \<Rightarrow> 'h mundo \<Rightarrow> bool" where
  "termina D s p 0 w v = (let (ci, u) = port_r D s p PORT_CI w in ci AND 1 = 0 \<and> u = v)"
| "termina D s p (Suc k) w v =
     (let (ci, u) = port_r D s p PORT_CI w; (is, u) = port_r D s p PORT_IS u in
      ci AND 1 \<noteq> 0 \<and> is AND push_bit 30 1 = 0 \<and> termina D s p k u v)"

text \<open>The documented behaviour of the controller, whose state shows a disk: clearing the interrupt status does nothing else,
  and issuing a request of at most 16 sectors carries it out before the driver stops looking.\<close>

definition hba_obedece :: "'h disp \<Rightarrow> ahci \<Rightarrow> nat \<Rightarrow> u32 \<Rightarrow> ('h \<Rightarrow> bool) \<Rightarrow> ('h \<Rightarrow> u32 \<Rightarrow> u8 list) \<Rightarrow> bool" where
  "hba_obedece D s p a pronto disco \<longleftrightarrow>
     (\<forall>m h v. pronto h \<longrightarrow> (\<exists>h'. port_w D s p PORT_IS v (m, h) = (m, h') \<and> pronto h' \<and> disco h' = disco h)) \<and>
     (\<forall>m h wr lba n dba. pronto h \<longrightarrow> hba_pedido m a = (wr, if wr then 0x35 else 0x25, lba, n, dba) \<longrightarrow> 0 < n \<longrightarrow> n \<le> 16 \<longrightarrow>
        (\<exists>k m' h'. k < 499999 \<and> termina D s p k (port_w D s p PORT_CI 1 (m, h)) (m', h') \<and> pronto h' \<and>
           (if wr then disco h' = gravados lba n (mem_le m dba (512 * n)) (disco h)
            else disco h' = disco h \<and> mem_le m' dba (512 * n) = setores_do (disco h) lba n)))"

lemma ahci_poll_termina: "termina D s p k w v \<Longrightarrow> k < n \<Longrightarrow> ahci_poll D s p n w = (Some (of_nat (n - 1 - k)), v)"
proof (induction k arbitrary: n w)
  case 0
  then show ?case by (cases n) (auto simp: split_beta)
next
  case (Suc k)
  obtain q where q: "n = Suc q" "k < q" using Suc.prems(2) by (cases n) auto
  have "termina D s p k (snd (port_r D s p PORT_IS (snd (port_r D s p PORT_CI w)))) v" using Suc.prems(1) by (simp add: split_beta Let_def)
  from Suc.IH [OF this q(2)] show ?case using Suc.prems(1) by (simp add: q(1) split_beta Let_def)
qed

text \<open>The buffers of the driver are apart, and the table is aligned.\<close>

definition lugares_ok :: "ahci_lug \<Rightarrow> nat \<Rightarrow> bool" where
  "lugares_ok l p \<longleftrightarrow> tabela_de l p AND 0x7F = 0 \<and> longe (lista_de l p) 32 (tabela_de l p) 144 \<and>
     longe (lista_de l p) 32 (l_xfer_buf l) 8192 \<and> longe (l_xfer_buf l) 8192 (tabela_de l p) 144"

lemma longe_menos: "longe a n b k \<Longrightarrow> n' \<le> n \<Longrightarrow> k' \<le> k \<Longrightarrow> longe a n' b k'" by (auto simp: longe_def)

lemma alinhada: "(t :: u32) AND 0x7F = 0 \<Longrightarrow> t AND NOT 0x7F = t"
proof (rule bit_word_eqI)
  fix n assume "t AND 0x7F = 0" "n < LENGTH(32)"
  then have "\<not> bit (t AND 0x7F) n" by simp
  then show "bit (t AND NOT 0x7F) n = bit t n" using \<open>n < LENGTH(32)\<close> by (auto simp: bit_simps)
qed

definition mem_pedido :: "ahci_lug \<Rightarrow> nat \<Rightarrow> u8 \<Rightarrow> u32 \<Rightarrow> u8 \<Rightarrow> u8 list \<Rightarrow> bool \<Rightarrow> mem \<Rightarrow> mem" where
  "mem_pedido l p cmd lba count buf wr m =
     mem_gr (tabela_de l p) (cmd_tbl l cmd lba count)
       (let m = mem_gr (lista_de l p) (cmd_hdr l p wr) m in if wr then mem_gr (l_xfer_buf l) (take (unat count * 512) buf) m else m)"

lemma length_fis [simp]: "length (fis_h2d cmd lba count) = 20" by (simp add: fis_h2d_def)

lemma length_cmd [simp]: "length (cmd_hdr l p wr) = 32" "length (cmd_tbl l cmd lba count) = 144"
  by (simp_all add: cmd_hdr_def cmd_tbl_def fis_h2d_def)

lemma mem_pedido_ok:
  assumes "lugares_ok l p" "count \<le> 16" "length buf = unat count * 512"
  shows "hba_pedido (mem_pedido l p cmd lba count buf wr m) (lista_de l p) = (wr, cmd, lba, unat count, l_xfer_buf l)"
    and "wr \<Longrightarrow> mem_le (mem_pedido l p cmd lba count buf wr m) (l_xfer_buf l) (512 * unat count) = buf"
proof -
  let ?m = "mem_pedido l p cmd lba count buf wr m"
  have c: "unat count * 512 \<le> 8192" using assms(2) by (simp add: word_le_nat_alt)
  have t: "mem_le ?m (tabela_de l p) 144 = cmd_tbl l cmd lba count" by (simp add: mem_pedido_def mem_le_same)
  have "longe (lista_de l p) 32 (l_xfer_buf l) (length (take (unat count * 512) buf))"
    using assms c longe_menos unfolding lugares_ok_def by (metis length_take min.cobounded2 min.idem le_trans order_refl)
  then have h: "mem_le ?m (lista_de l p) 32 = cmd_hdr l p wr"
    using assms(1) by (simp add: mem_pedido_def mem_le_other mem_le_same lugares_ok_def Let_def)
  have "rd32 (cmd_hdr l p wr) 8 = tabela_de l p" by (simp add: cmd_hdr_def rd32_append_ge rd32_append_lt)
  moreover have "bit (cmd_hdr l p wr ! 0) 6 \<longleftrightarrow> wr" by (simp add: cmd_hdr_def le16_def bit_simps)
  ultimately have hd: "rd32 (cmd_hdr l p wr) 8 = tabela_de l p" "bit (cmd_hdr l p wr ! 0) 6 \<longleftrightarrow> wr" by blast+
  have a: "m32 ?m (lista_de l p + 8) = tabela_de l p" "?m (lista_de l p) = cmd_hdr l p wr ! 0"
    using m32_mem [OF h, of 8] mem_le_nth [OF h, of 0] hd by simp_all
  note n = mem_le_nth [OF t]
  have f: "?m (tabela_de l p + 2) = cmd" "?m (tabela_de l p + 4) = ucast lba" "?m (tabela_de l p + 5) = ucast (drop_bit 8 lba)"
      "?m (tabela_de l p + 6) = ucast (drop_bit 16 lba)" "?m (tabela_de l p + 8) = ucast (drop_bit 24 lba)" "?m (tabela_de l p + 12) = count"
    using n [of 2] n [of 4] n [of 5] n [of 6] n [of 8] n [of 12] by (simp_all add: cmd_tbl_def fis_h2d_def numeral_eq_Suc)
  have "rd32 (cmd_tbl l cmd lba count) 128 = l_xfer_buf l" by (simp add: cmd_tbl_def rd32_append_ge rd32_append_lt)
  then have d: "m32 ?m (tabela_de l p + 128) = l_xfer_buf l" using m32_mem [OF t, of 128] by simp
  have lb: "rd32 [ucast lba, ucast (drop_bit 8 lba), ucast (drop_bit 16 lba), ucast (drop_bit 24 lba)] 0 = lba"
    using rd32_le32 [of lba] by (simp add: le32_def)
  have "tabela_de l p AND NOT 0x7F = tabela_de l p" using assms(1) by (intro alinhada) (simp add: lugares_ok_def)
  then show "hba_pedido ?m (lista_de l p) = (wr, cmd, lba, unat count, l_xfer_buf l)"
    by (simp add: hba_pedido_def a hd f d lb)
  have "longe (l_xfer_buf l) (unat count * 512) (tabela_de l p) (length (cmd_tbl l cmd lba count))"
    by (rule longe_menos [of _ 8192 _ 144]) (use assms(1) c in \<open>simp_all add: lugares_ok_def\<close>)
  note x = mem_le_other [OF this]
  assume wr
  then show "mem_le ?m (l_xfer_buf l) (512 * unat count) = buf"
    using assms(3) c x by (simp add: mem_pedido_def mem_le_same Let_def mult.commute)
qed

lemma ahci_issue_ok:
  assumes "hba_obedece D s p (lista_de l p) pronto disco" "lugares_ok l p" "pronto h" "0 < count" "count \<le> 16"
    and "wr \<Longrightarrow> length buf = unat count * 512"
  shows "\<exists>m' h'. ahci_issue D l s p (if wr then 0x35 else 0x25) lba count buf wr (m, h) =
       (0, if wr then buf else splice buf 0 (setores_do (disco h) lba (unat count)), (m', h')) \<and> pronto h' \<and>
     disco h' = (if wr then gravados lba (unat count) buf (disco h) else disco h)"
proof -
  let ?cmd = "if wr then 0x35 else 0x25 :: u8"
  define b where "b = (if wr then buf else replicate (unat count * 512) 0)"
  let ?m = "mem_pedido l p ?cmd lba count b wr m"
  have lb: "length b = unat count * 512" using assms(6) by (simp add: b_def)
  have n: "0 < unat count" "unat count \<le> 16" using assms(4,5) by (auto simp: word_less_nat_alt word_le_nat_alt)
  note o = assms(1) [unfolded hba_obedece_def]
  obtain h1 where h1: "port_w D s p PORT_IS 0xFFFFFFFF (?m, h) = (?m, h1)" "pronto h1" "disco h1 = disco h" using o assms(3) by blast
  obtain k m' h' where k: "k < 499999" "termina D s p k (port_w D s p PORT_CI 1 (?m, h1)) (m', h')" "pronto h'"
      "if wr then disco h' = gravados lba (unat count) (mem_le ?m (l_xfer_buf l) (512 * unat count)) (disco h1)
       else disco h' = disco h1 \<and> mem_le m' (l_xfer_buf l) (512 * unat count) = setores_do (disco h1) lba (unat count)"
    using o h1(2) mem_pedido_ok(1) [OF assms(2,5) lb, of ?cmd lba wr m] n by blast
  define j where "j = 500000 - 1 - k"
  have "0 < j" "j < 2 ^ 32" using k(1) by (simp_all add: j_def)
  then have t: "(of_nat j :: u32) \<noteq> 0" by (auto simp: word_of_nat_eq_0_iff dest: nat_dvd_not_less)
  have e: "ahci_issue D l s p ?cmd lba count buf wr (m, h) =
      (0, if wr then buf else splice buf 0 (mem_le m' (l_xfer_buf l) (unat count * 512)), (m', h'))"
  proof -
    have "mem_gr (tabela_de l p) (cmd_tbl l ?cmd lba count)
        (if wr then mem_gr (l_xfer_buf l) (take (unat count * 512) buf) (mem_gr (lista_de l p) (cmd_hdr l p wr) m)
         else mem_gr (lista_de l p) (cmd_hdr l p wr) m) = ?m" by (simp add: mem_pedido_def b_def Let_def)
    then show ?thesis
      unfolding ahci_issue_def using h1(1) ahci_poll_termina [OF k(2), of 500000, folded j_def] k(1) t
      by (simp add: Let_def)
  qed
  show ?thesis
    using e k(3,4) h1(3) mem_pedido_ok(2) [OF assms(2,5) lb, of wr ?cmd lba m] by (cases wr) (auto simp: b_def mult.commute)
qed

lemma concat_slices: "512 * n \<le> length xs \<Longrightarrow> concat (map (\<lambda>i. slice xs (512 * i) 512) [0..<n]) = take (512 * n) xs"
proof (induction n)
  case (Suc n)
  have "take (512 * n + 512) xs = take (512 * n) xs @ slice xs (512 * n) 512" by (simp add: slice_def take_add)
  then show ?case using Suc by (simp add: add.commute)
qed simp

lemma setores_gravados: "length xs = 512 * n \<Longrightarrow> n \<le> 16 \<Longrightarrow> setores_do (gravados lba n xs d) lba n = xs"
proof -
  assume l: "length xs = 512 * n" "n \<le> 16"
  have e: "map (\<lambda>i. gravados lba n xs d (lba + of_nat i)) [0..<n] = map (\<lambda>i. slice xs (512 * i) 512) [0..<n]"
    using l(2) by (intro map_cong) (simp_all add: gravados_def unat_of_nat)
  show ?thesis unfolding setores_do_def e using concat_slices [of n xs] l by simp
qed


text \<open>A controller that never answers: the counter is past zero when the loop ends, so the test \<open>t == 0\<close> does not see the
  timeout and the command is reported as done.\<close>

lemma ahci_poll_esgota:
  assumes "\<And>w. fst (port_r D s p PORT_CI w) AND 1 \<noteq> 0" "\<And>w. fst (port_r D s p PORT_IS w) AND push_bit 30 1 = 0"
  shows "fst (ahci_poll D s p n w) = Some (- 1)"
  using assms by (induction n arbitrary: w) (simp_all add: split_beta)

theorem ahci_sem_resposta:
  assumes "\<And>w. fst (port_r D s p PORT_CI w) AND 1 \<noteq> 0" "\<And>w. fst (port_r D s p PORT_IS w) AND push_bit 30 1 = 0"
  shows "fst (ahci_issue D l s p cmd lba count buf wr w) = 0"
  using ahci_poll_esgota [OF assms, of 500000] unfolding ahci_issue_def by (simp add: split_beta Let_def)

text \<open>The same for the bus master: a transfer that is still going on when the driver gives up is reported as done.\<close>

lemma dma_poll_esgota:
  assumes "\<And>w. fst (bm_r8 D d BM_STATUS w) AND BM_ST_ACTIVE \<noteq> 0" "\<And>w. fst (bm_r8 D d BM_STATUS w) AND BM_ST_ERR = 0"
  shows "fst (dma_poll D d n w) AND BM_ST_ERR = 0"
  using assms by (induction n arbitrary: w) (subst dma_poll.simps, simp add: split_beta Let_def)+

theorem dma_sem_resposta:
  assumes "\<And>w. fst (bm_r8 D d BM_STATUS w) AND BM_ST_ACTIVE \<noteq> 0" "\<And>w. fst (bm_r8 D d BM_STATUS w) AND BM_ST_ERR = 0"
    and "dma_ok d" "0 < count" "count \<le> 16"
  shows "fst (dma_op D l d lba count buffer wr w) = 0"
  using assms(3-) dma_poll_esgota [OF assms(1,2), of 500000] unfolding dma_op_def by (auto simp: split_beta Let_def)

text \<open>The tables of the ports after the first are not where the controller looks for them.\<close>

theorem ahci_tabela_desalinhada:
  "l_cmd_tbl l AND 0x7F = 0 \<Longrightarrow> p \<in> {1, 2, 3} \<Longrightarrow> tabela_de l p AND 0x7F \<noteq> 0"
proof -
  assume "l_cmd_tbl l AND 0x7F = 0" "p \<in> {1, 2, 3}"
  moreover have m: "x AND 0x7F = x mod 128" for x :: u32 using take_bit_eq_mask [of 7 x] take_bit_eq_mod [of 7 x] by (simp add: mask_eq_exp_minus_1)
  ultimately have a: "unat (l_cmd_tbl l) mod 128 = 0" by (simp add: m unat_eq_iff [symmetric] unat_mod)
  have "unat (tabela_de l p AND 0x7F) = (unat (l_cmd_tbl l) + 144 * p) mod 2 ^ 32 mod 128"
    using \<open>p \<in> _\<close> by (auto simp: m tabela_de_def unat_mod unat_word_ariths)
  also have "\<dots> = (unat (l_cmd_tbl l) + 144 * p) mod 128" by (simp add: mod_mod_cancel)
  also have "\<dots> \<noteq> 0" using a \<open>p \<in> _\<close> by (auto simp: mod_add_left_eq [symmetric])
  finally show ?thesis by auto
qed

definition hba_executa :: "u32 \<Rightarrow> (u32 \<Rightarrow> u8 list) mundo \<Rightarrow> (u32 \<Rightarrow> u8 list) mundo" where
  "hba_executa a w =
     (case hba_pedido (fst w) a of
        (wr, cmd, lba, n, dba) \<Rightarrow>
          if wr then (fst w, gravados lba n (mem_le (fst w) dba (512 * n)) (snd w))
          else (mem_gr dba (setores_do (snd w) lba n) (fst w), snd w))"

definition hba_exemplo :: "(u32 \<Rightarrow> u8 list) disp" where
  "hba_exemplo = \<lparr>hw_le = (\<lambda>l a w. (0, w)), hw_gr = (\<lambda>l a v w. if a = 0x10000138 then hba_executa 0x4000 w else w), hw_tempo = (\<lambda>w. w)\<rparr>"

definition ahci_exemplo :: ahci where "ahci_exemplo = \<lparr>abar_base = 0x10000000, ahci_port = 0, ahci_ready = True\<rparr>"

definition lug_exemplo :: ahci_lug where
  "lug_exemplo = \<lparr>l_cmd_list = 0x4000, l_fis_buf = 0x5000, l_cmd_tbl = 0x6000, l_xfer_buf = 0x8000\<rparr>"

lemma hba_exemplo_ok: "hba_obedece hba_exemplo ahci_exemplo 0 (lista_de lug_exemplo 0) (\<lambda>h. \<forall>x. length (h x) = 512) id"
proof -
  have reg: "port_w hba_exemplo ahci_exemplo 0 PORT_IS v w = w" "port_w hba_exemplo ahci_exemplo 0 PORT_CI 1 w = hba_executa 0x4000 w"
      "termina hba_exemplo ahci_exemplo 0 0 w w" for v w
    by (simp_all add: port_w_def port_r_def hba_w_def hba_r_def hba_exemplo_def ahci_exemplo_def preg_def PORT_IS_def PORT_CI_def)
  have l: "lista_de lug_exemplo 0 = 0x4000" by (simp add: lista_de_def lug_exemplo_def)
  have len: "length (setores_do h lba n) = 512 * n" if "\<forall>x. length (h x) = 512" for h lba n
    using that by (simp add: setores_do_def length_concat o_def sum_list_triv)
  have P: "\<exists>m' h'. termina hba_exemplo ahci_exemplo 0 0 (hba_executa 0x4000 (m, h)) (m', h') \<and> (\<forall>x. length (h' x) = 512) \<and>
      (if wr then h' = gravados lba n (mem_le m dba (512 * n)) h else h' = h \<and> mem_le m' dba (512 * n) = setores_do h lba n)"
    if "\<forall>x. length (h x) = 512" "hba_pedido m 0x4000 = (wr, cmd, lba, n, dba)" "n \<le> 16" for m h wr cmd lba n dba
  proof (cases wr)
    case True
    have "length (gravados lba n (mem_le m dba (512 * n)) h x) = 512" for x
    proof (cases "unat (x - lba) < n")
      case True
      then have "512 * unat (x - lba) + 512 \<le> 512 * n" by simp
      then show ?thesis using True by (simp add: gravados_def)
    qed (simp add: gravados_def that(1))
    then show ?thesis using True that(2) reg(3) [of "hba_executa 0x4000 (m, h)"] by (auto simp: hba_executa_def)
  next
    case False
    then show ?thesis using that reg(3) [of "hba_executa 0x4000 (m, h)"] len [OF that(1)] by (auto simp: hba_executa_def mem_le_same)
  qed
  show ?thesis unfolding hba_obedece_def l
  proof (intro conjI allI impI)
    fix m v and h :: "u32 \<Rightarrow> u8 list" assume "\<forall>x. length (h x) = 512"
    then show "\<exists>h'. port_w hba_exemplo ahci_exemplo 0 PORT_IS v (m, h) = (m, h') \<and> (\<forall>x. length (h' x) = 512) \<and> id h' = id h"
      by (simp add: reg(1))
  next
    fix m wr lba n dba and h :: "u32 \<Rightarrow> u8 list"
    assume "\<forall>x. length (h x) = 512" "hba_pedido m 0x4000 = (wr, if wr then 0x35 else 0x25, lba, n, dba)" "n \<le> 16"
    from P [OF this] show "\<exists>k m' h'. k < 499999 \<and> termina hba_exemplo ahci_exemplo 0 k (port_w hba_exemplo ahci_exemplo 0 PORT_CI 1 (m, h)) (m', h') \<and>
        (\<forall>x. length (h' x) = 512) \<and> (if wr then id h' = gravados lba n (mem_le m dba (512 * n)) (id h)
         else id h' = id h \<and> mem_le m' dba (512 * n) = setores_do (id h) lba n)"
      unfolding reg(2) id_apply by (intro exI [of _ "0 :: nat"]) simp
  qed
qed


end
