(* ===== verification/Usb.thy ===== *)
theory Usb
  imports Discos
begin

text \<open>
  The USB 2.0 controller (\<^verbatim>\<open>kernel/drivers/usb.c\<close>) and the keyboard on it (\<^verbatim>\<open>kernel/drivers/usbhid.c\<close>).  The driver leaves
  queue heads and transfer descriptors in memory and waits for the controller to change them; \<open>hw_tempo\<close> is what the
  controller does while it waits.
\<close>

section \<open>The controller\<close>

definition EHCI_CAPLENGTH :: u32 where "EHCI_CAPLENGTH = 0x00"
definition EHCI_HCSPARAMS :: u32 where "EHCI_HCSPARAMS = 0x04"
definition EHCI_USBCMD :: u32 where "EHCI_USBCMD = 0x00"
definition EHCI_USBSTS :: u32 where "EHCI_USBSTS = 0x04"
definition EHCI_USBINTR :: u32 where "EHCI_USBINTR = 0x08"
definition EHCI_CTRLDSEG :: u32 where "EHCI_CTRLDSEG = 0x10"
definition EHCI_ALISTADDR :: u32 where "EHCI_ALISTADDR = 0x18"
definition EHCI_CONFIGFLAG :: u32 where "EHCI_CONFIGFLAG = 0x40"
definition EHCI_PORTSC :: "nat \<Rightarrow> u32" where "EHCI_PORTSC n = 0x44 + of_nat n * 4"
definition USBCMD_RS :: u32 where "USBCMD_RS = push_bit 0 1"
definition USBCMD_HCRESET :: u32 where "USBCMD_HCRESET = push_bit 1 1"
definition USBCMD_ASE :: u32 where "USBCMD_ASE = push_bit 5 1"
definition USBSTS_HALTED :: u32 where "USBSTS_HALTED = push_bit 12 1"
definition PORTSC_CCS :: u32 where "PORTSC_CCS = push_bit 0 1"
definition PORTSC_CSC :: u32 where "PORTSC_CSC = push_bit 1 1"
definition PORTSC_PED :: u32 where "PORTSC_PED = push_bit 2 1"
definition PORTSC_PEDC :: u32 where "PORTSC_PEDC = push_bit 3 1"
definition PORTSC_PRST :: u32 where "PORTSC_PRST = push_bit 8 1"
definition PORTSC_PP :: u32 where "PORTSC_PP = push_bit 12 1"
definition PORTSC_OWNER :: u32 where "PORTSC_OWNER = push_bit 13 1"
definition QTD_STS_ACTIVE :: u32 where "QTD_STS_ACTIVE = push_bit 7 1"
definition QTD_STS_HALTED :: u32 where "QTD_STS_HALTED = push_bit 6 1"
definition QTD_PID_OUT :: u32 where "QTD_PID_OUT = push_bit 8 0"
definition QTD_PID_IN :: u32 where "QTD_PID_IN = push_bit 8 1"
definition QTD_PID_SETUP :: u32 where "QTD_PID_SETUP = push_bit 8 2"
definition QTD_IOC :: u32 where "QTD_IOC = push_bit 15 1"
definition QTD_BYTES :: "u16 \<Rightarrow> u32" where "QTD_BYTES n = push_bit 16 (ucast n)"
definition QTD_DT :: u32 where "QTD_DT = push_bit 31 1"
definition QH_EPS_FS :: u32 where "QH_EPS_FS = push_bit 12 0"
definition QH_EPS_HS :: u32 where "QH_EPS_HS = push_bit 12 2"
definition QH_DTC :: u32 where "QH_DTC = push_bit 14 1"
definition QH_H :: u32 where "QH_H = push_bit 15 1"

record usb =
  ehci_mmio :: u32
  op_base :: u32
  n_ports :: nat
  ehci_ok :: bool
  n_devs :: nat

text \<open>The addresses of \<open>async_head\<close>, \<open>qh\<close>, \<open>qtds\<close> and \<open>xfer_buf\<close>.\<close>

record usb_lug =
  l_head :: u32
  l_qh :: u32
  l_qtds :: u32
  l_xfer :: u32

definition qtd_de :: "usb_lug \<Rightarrow> nat \<Rightarrow> u32" where "qtd_de l i = l_qtds l + of_nat (32 * i)"

definition palavras32 :: "u32 list \<Rightarrow> u8 list" where "palavras32 ws = concat (map le32 ws)"

definition op_r :: "'h disp \<Rightarrow> usb \<Rightarrow> u32 \<Rightarrow> 'h mundo \<Rightarrow> u32 \<times> 'h mundo" where "op_r D s reg w = hw_le D L32 (op_base s + reg) w"
definition op_w :: "'h disp \<Rightarrow> usb \<Rightarrow> u32 \<Rightarrow> u32 \<Rightarrow> 'h mundo \<Rightarrow> 'h mundo" where "op_w D s reg v w = hw_gr D L32 (op_base s + reg) v w"
definition cap_r16 :: "'h disp \<Rightarrow> usb \<Rightarrow> u32 \<Rightarrow> 'h mundo \<Rightarrow> u32 \<times> 'h mundo" where "cap_r16 D s reg w = hw_le D L16 (ehci_mmio s + reg) w"
definition cap_r :: "'h disp \<Rightarrow> usb \<Rightarrow> u32 \<Rightarrow> 'h mundo \<Rightarrow> u32 \<times> 'h mundo" where "cap_r D s reg w = hw_le D L32 (ehci_mmio s + reg) w"
definition delay_ms :: "'h disp \<Rightarrow> 'h mundo \<Rightarrow> 'h mundo" where "delay_ms D w = hw_tempo D w"

section \<open>Running the queue\<close>

definition qh_token :: "usb_lug \<Rightarrow> 'h mundo \<Rightarrow> u32" where "qh_token l w = m32 (fst w) (l_qh l + 24)"

fun qh_poll :: "'h disp \<Rightarrow> usb_lug \<Rightarrow> nat \<Rightarrow> 'h mundo \<Rightarrow> 'h mundo" where
  "qh_poll D l 0 w = w"
| "qh_poll D l (Suc n) w = (if qh_token l w AND QTD_STS_ACTIVE = 0 then w else qh_poll D l n (hw_tempo D w))"

text \<open>The two queue heads before the schedule is enabled; the padding of the second is not touched.\<close>

definition head_bytes :: "usb_lug \<Rightarrow> u8 list" where
  "head_bytes l = palavras32 ([l_qh l OR 0x2, QH_H OR QH_DTC OR QH_EPS_HS, push_bit 30 1, 0, 1, 1] @ replicate 10 0)"

definition qh_bytes :: "usb_lug \<Rightarrow> u8 \<Rightarrow> u8 \<Rightarrow> u8 \<Rightarrow> u8 list" where
  "qh_bytes l dev ep speed =
     palavras32 ([l_head l OR 0x2,
       ucast dev OR push_bit 8 (ucast ep) OR (if speed = 2 then QH_EPS_HS else QH_EPS_FS) OR QH_DTC OR push_bit 16 64,
       push_bit 30 1, 0, qtd_de l 0, 1, 0] @ replicate 5 0)"

definition ehci_run_qh :: "'h disp \<Rightarrow> usb_lug \<Rightarrow> usb \<Rightarrow> u8 \<Rightarrow> u8 \<Rightarrow> u8 \<Rightarrow> 'h mundo \<Rightarrow> int \<times> 'h mundo" where
  "ehci_run_qh D l s dev ep speed w =
     (let w = (mem_gr (l_qh l) (qh_bytes l dev ep speed) (mem_gr (l_head l) (head_bytes l) (fst w)), snd w);
          w = op_w D s EHCI_ALISTADDR (l_head l) w;
          (cmd, w) = op_r D s EHCI_USBCMD w;
          w = op_w D s EHCI_USBCMD (cmd OR USBCMD_ASE OR USBCMD_RS) w;
          w = qh_poll D l 500000 w;
          (cmd, w) = op_r D s EHCI_USBCMD w;
          w = op_w D s EHCI_USBCMD (cmd AND NOT USBCMD_ASE) w;
          w = snd (aguarda (bits_em D L32 (op_base s + EHCI_USBSTS) (push_bit 15 1)) 10000 w)
      in (if qh_token l w AND (QTD_STS_HALTED OR QTD_STS_ACTIVE) \<noteq> 0 then - 1 else 0, w))"

section \<open>Transfers\<close>

definition cerr3 :: u32 where "cerr3 = push_bit 10 3"

definition qtd_bytes :: "u32 \<Rightarrow> u32 \<Rightarrow> u32 \<Rightarrow> u8 list" where
  "qtd_bytes nx token buf = palavras32 ([nx, 1, token, buf] @ replicate 4 0)"

text \<open>The setup packet is 8 bytes; \<open>data\<close> is \<open>None\<close> for the null pointer.\<close>

definition usb_control ::
  "'h disp \<Rightarrow> usb_lug \<Rightarrow> usb \<Rightarrow> u8 \<Rightarrow> u8 list \<Rightarrow> u8 list option \<Rightarrow> u16 \<Rightarrow> bool \<Rightarrow> 'h mundo \<Rightarrow> int \<times> u8 list option \<times> 'h mundo" where
  "usb_control D l s dev setup data len is_in w =
     (if \<not> ehci_ok s then (- 1, data, w)
      else
        let m = mem_gr (l_xfer l) setup (fst w);
            m = mem_gr (qtd_de l 0) (qtd_bytes (qtd_de l 1) (QTD_STS_ACTIVE OR QTD_PID_SETUP OR QTD_BYTES 8 OR cerr3) (l_xfer l)) m;
            (n, m) =
              (case data of
                 Some d \<Rightarrow>
                   if len > 0 then
                     (2, mem_gr (qtd_de l 1)
                        (qtd_bytes (qtd_de l 2)
                           (QTD_STS_ACTIVE OR QTD_DT OR (if is_in then QTD_PID_IN else QTD_PID_OUT) OR QTD_BYTES len OR cerr3) (l_xfer l + 8))
                        (mem_gr (l_xfer l + 8) (if is_in then replicate (unat len) 0 else take (unat len) d) m))
                   else (1, m)
               | None \<Rightarrow> (1, m));
            m = mem_gr (qtd_de l n) (qtd_bytes 1 (QTD_STS_ACTIVE OR QTD_IOC OR (if is_in then QTD_PID_OUT else QTD_PID_IN) OR QTD_DT OR cerr3) 0) m;
            (ret, w) = ehci_run_qh D l s dev 0 2 (m, snd w)
        in (ret,
            (case data of
               Some d \<Rightarrow> Some (if ret = 0 \<and> is_in \<and> len > 0 then splice d 0 (mem_le (fst w) (l_xfer l + 8) (unat len)) else d)
             | None \<Rightarrow> None), w))"

definition usb_hid_poll :: "'h disp \<Rightarrow> usb_lug \<Rightarrow> usb \<Rightarrow> u8 \<Rightarrow> u8 \<Rightarrow> u8 list \<Rightarrow> u8 \<Rightarrow> 'h mundo \<Rightarrow> int \<times> u8 list \<times> 'h mundo" where
  "usb_hid_poll D l s dev ep buf len w =
     (if \<not> ehci_ok s then (- 1, buf, w)
      else
        let m = mem_gr (l_xfer l) (replicate (unat len) 0) (fst w);
            m = mem_gr (qtd_de l 0)
                  (qtd_bytes 1 (QTD_STS_ACTIVE OR QTD_PID_IN OR QTD_IOC OR QTD_DT OR QTD_BYTES (ucast len) OR cerr3) (l_xfer l)) m;
            (ret, w) = ehci_run_qh D l s dev (ep AND 0x0F) 2 (m, snd w)
        in (ret, if ret = 0 then splice buf 0 (mem_le (fst w) (l_xfer l) (unat len)) else buf, w))"

section \<open>Ports and devices\<close>

definition USB_REQ_GET_DESCRIPTOR :: u8 where "USB_REQ_GET_DESCRIPTOR = 0x06"
definition USB_REQ_SET_ADDRESS :: u8 where "USB_REQ_SET_ADDRESS = 0x05"
definition USB_REQ_SET_CONFIG :: u8 where "USB_REQ_SET_CONFIG = 0x09"
definition USB_REQ_SET_PROTOCOL :: u8 where "USB_REQ_SET_PROTOCOL = 0x0B"
definition USB_DESC_DEVICE :: u16 where "USB_DESC_DEVICE = 0x01"

definition setup_bytes :: "u8 \<Rightarrow> u8 \<Rightarrow> u16 \<Rightarrow> u16 \<Rightarrow> u16 \<Rightarrow> u8 list" where
  "setup_bytes rt req val idx len = [rt, req] @ le16 val @ le16 idx @ le16 len"

definition port_reset :: "'h disp \<Rightarrow> usb \<Rightarrow> nat \<Rightarrow> 'h mundo \<Rightarrow> int \<times> 'h mundo" where
  "port_reset D s p w =
     (let (ps, w) = op_r D s (EHCI_PORTSC p) w in
      if ps AND PORTSC_CCS = 0 then (- 1, w)
      else
        let w = delay_ms D (op_w D s (EHCI_PORTSC p) (ps OR PORTSC_PP) w);
            (ps, w) = op_r D s (EHCI_PORTSC p) w;
            w = delay_ms D (op_w D s (EHCI_PORTSC p) ((ps AND NOT PORTSC_PED) OR PORTSC_PRST) w);
            (ps, w) = op_r D s (EHCI_PORTSC p) w;
            w = delay_ms D (op_w D s (EHCI_PORTSC p) (ps AND NOT PORTSC_PRST) w);
            (ps, w) = op_r D s (EHCI_PORTSC p) w
        in if ps AND PORTSC_PED = 0 then (- 1, op_w D s (EHCI_PORTSC p) (ps OR PORTSC_OWNER) w) else (0, w))"

text \<open>\<open>desc\<close> is what the 18 bytes of the descriptor hold before it is read.\<close>

definition enumerate_port :: "'h disp \<Rightarrow> usb_lug \<Rightarrow> u8 list \<Rightarrow> nat \<Rightarrow> usb \<times> shell \<times> 'h mundo \<Rightarrow> usb \<times> shell \<times> 'h mundo" where
  "enumerate_port D l desc p = (\<lambda>(s, sh, w).
     let (r, w) = port_reset D s p w in
     if r \<noteq> 0 then (s, sh, w)
     else
       let (r, d, w) = usb_control D l s 0 (setup_bytes 0x80 USB_REQ_GET_DESCRIPTOR (push_bit 8 USB_DESC_DEVICE) 0 8) (Some desc) 8 True w in
       if r \<noteq> 0 then (s, sh, w)
       else
         let addr = of_nat (n_devs s + 1) :: u8;
             (r, _, w) = usb_control D l s 0 (setup_bytes 0 USB_REQ_SET_ADDRESS (ucast addr) 0 0) None 0 False w in
         if r \<noteq> 0 then (s, sh, w)
         else
           let w = delay_ms D w;
               (_, d, w) = usb_control D l s addr (setup_bytes 0x80 USB_REQ_GET_DESCRIPTOR (push_bit 8 USB_DESC_DEVICE) 0 18) d 18 True w;
               (_, _, w) = usb_control D l s addr (setup_bytes 0 USB_REQ_SET_CONFIG 1 0 0) None 0 False w;
               d = (case d of Some d \<Rightarrow> d | None \<Rightarrow> []);
               sh = shell_write_num (ucast addr) (shell_write (bytes ''USB: dispositivo '') sh);
               sh = shell_write_hex (ucast (rd16 d 8)) (shell_write (bytes '' VID='') sh);
               sh = shell_write_hex (ucast (rd16 d 10)) (shell_write (bytes '' PID='') sh)
           in (s\<lparr>n_devs := n_devs s + 1\<rparr>, shell_writeln [] sh, w))"

definition usb_porta :: "'h disp \<Rightarrow> usb_lug \<Rightarrow> (nat \<Rightarrow> u8 list) \<Rightarrow> nat \<Rightarrow> usb \<times> shell \<times> 'h mundo \<Rightarrow> usb \<times> shell \<times> 'h mundo" where
  "usb_porta D l desc p = (\<lambda>(s, sh, w).
     let (ps, w) = op_r D s (EHCI_PORTSC p) w;
         w = delay_ms D (op_w D s (EHCI_PORTSC p) (ps OR PORTSC_PP) w);
         (ps, w) = op_r D s (EHCI_PORTSC p) w;
         w = delay_ms D (op_w D s (EHCI_PORTSC p) (ps OR PORTSC_CSC OR PORTSC_PEDC) w);
         (ps, w) = op_r D s (EHCI_PORTSC p) w
     in if ps AND PORTSC_CCS \<noteq> 0 then enumerate_port D l (desc p) p (s, sh, w) else (s, sh, w))"

definition usb_init ::
  "(u32 \<Rightarrow> u32) \<Rightarrow> pci \<Rightarrow> u32 \<Rightarrow> 'h disp \<Rightarrow> usb_lug \<Rightarrow> (nat \<Rightarrow> u8 list) \<Rightarrow> usb \<times> paging \<times> shell \<times> 'h mundo
    \<Rightarrow> int \<times> usb \<times> paging \<times> shell \<times> 'h mundo" where
  "usb_init cfg ps pd D l desc = (\<lambda>(s, pg, sh, w).
     case pci_find_class 0x0C 0x03 ps of
       None \<Rightarrow> (- 1, s, pg, sh, w)
     | Some i \<Rightarrow>
         let dev = pci_devices ps ! i in
         if (ucast (drop_bit 8 (pci_le cfg dev 0x08)) :: u8) \<noteq> 0x20 then (- 1, s, pg, sh, w)
         else let bar0 = bar dev ! 0 AND NOT 0xF in
           if bar0 = 0 then (- 1, s, pg, sh, w)
           else
             let pg = mapeia2 pd bar0 pg;
                 s = s\<lparr>ehci_mmio := bar0\<rparr>;
                 (c, w) = cap_r16 D s EHCI_CAPLENGTH w;
                 s = s\<lparr>op_base := ehci_mmio s + ucast (ucast c :: u8)\<rparr>;
                 (h, w) = cap_r D s EHCI_HCSPARAMS w;
                 s = s\<lparr>n_ports := unat (h AND 0xF)\<rparr>;
                 w = pci_grava D dev 0x04 (pci_le cfg dev 0x04 OR 0x06) w;
                 w = op_w D s EHCI_USBCMD USBCMD_HCRESET w;
                 w = snd (aguarda (bits_em D L32 (op_base s + EHCI_USBCMD) USBCMD_HCRESET) 100000 w);
                 w = (mem_gr (l_head l) (palavras32 ([l_head l OR 0x2, QH_H OR QH_EPS_HS, push_bit 30 1, 0, 1, 1] @ replicate 10 0)) (fst w), snd w);
                 w = op_w D s EHCI_CTRLDSEG 0 w;
                 w = op_w D s EHCI_ALISTADDR (l_head l) w;
                 w = op_w D s EHCI_USBINTR 0 w;
                 w = op_w D s EHCI_USBSTS 0x3F w;
                 w = delay_ms D (op_w D s EHCI_CONFIGFLAG 1 w);
                 w = op_w D s EHCI_USBCMD (USBCMD_RS OR push_bit 2 3) w;
                 w = snd (aguarda (bits_em D L32 (op_base s + EHCI_USBSTS) USBSTS_HALTED) 50000 w);
                 (s, sh, w) = fold (usb_porta D l desc) [0..<min (n_ports s) 4] (s\<lparr>ehci_ok := True\<rparr>, sh, w)
             in (0, s, pg, sh, w))"

definition usb_ready :: "usb \<Rightarrow> bool" where "usb_ready s = ehci_ok s"
definition usb_device_count :: "usb \<Rightarrow> nat" where "usb_device_count s = n_devs s"

section \<open>The keyboard\<close>

definition hid_to_ascii :: "u8 list" where
  "hid_to_ascii =
     replicate 4 0 @ bytes ''abcdefghijklm'' @ bytes ''nopqrstuvwxyz'' @ bytes ''1234567890''
     @ [10, 27, 8, 9, 32, 45, 61, 91, 93, 92, 0, 59, 39, 96, 44, 46, 47] @ replicate 71 0"

definition hid_to_ascii_shift :: "u8 list" where
  "hid_to_ascii_shift =
     replicate 4 0 @ bytes ''ABCDEFGHIJKLM'' @ bytes ''NOPQRSTUVWXYZ'' @ bytes ''!@#$%^&*()''
     @ [10, 27, 8, 9, 32, 95, 43, 123, 125, 124, 0, 58, 34, 126, 60, 62, 63] @ replicate 71 0"

record hid =
  hid_addr :: u8
  hid_ep :: u8
  hid_ok :: bool
  prev_keys :: "u8 list"

definition usbhid_init :: "'h disp \<Rightarrow> usb_lug \<Rightarrow> usb \<Rightarrow> u8 \<Rightarrow> hid \<times> 'h mundo \<Rightarrow> int \<times> hid \<times> 'h mundo" where
  "usbhid_init D l s dev = (\<lambda>(k, w).
     let (_, _, w) = usb_control D l s dev (setup_bytes 0x21 USB_REQ_SET_PROTOCOL 0 0 0) None 0 False w
     in (0, k\<lparr>hid_addr := dev, prev_keys := replicate 6 0, hid_ok := True\<rparr>, w))"

text \<open>The character of one position of the report: a key that was not down before and has one.\<close>

definition tecla_nova :: "u8 list \<Rightarrow> bool \<Rightarrow> u8 \<Rightarrow> u8 option" where
  "tecla_nova prev shifted kc =
     (if kc = 0 \<or> kc \<in> set prev \<or> kc \<ge> 128 then None
      else let c = (if shifted then hid_to_ascii_shift else hid_to_ascii) ! unat kc in if c \<noteq> 0 then Some c else None)"

fun primeira :: "(u8 \<Rightarrow> u8 option) \<Rightarrow> u8 list \<Rightarrow> u8 option" where
  "primeira f [] = None"
| "primeira f (k # ks) = (case f k of Some c \<Rightarrow> Some c | None \<Rightarrow> primeira f ks)"

text \<open>\<open>rep\<close> is what the report buffer holds before; the result is the character given to the caller.\<close>

definition usbhid_poll :: "'h disp \<Rightarrow> usb_lug \<Rightarrow> usb \<Rightarrow> u8 list \<Rightarrow> hid \<times> 'h mundo \<Rightarrow> u8 option \<times> hid \<times> 'h mundo" where
  "usbhid_poll D l s rep = (\<lambda>(k, w).
     if \<not> hid_ok k then (None, k, w)
     else
       let (r, rep, w) = usb_hid_poll D l s (hid_addr k) (hid_ep k) rep 8 w in
       if r \<noteq> 0 then (None, k, w)
       else
         let shifted = rep ! 0 AND 0x22 \<noteq> 0; teclas = slice rep 2 6
         in (primeira (tecla_nova (prev_keys k) shifted) teclas, k\<lparr>prev_keys := teclas\<rparr>, w))"

definition usbhid_ready :: "hid \<Rightarrow> bool" where "usbhid_ready k = hid_ok k"

section \<open>A race\<close>

text \<open>The token the driver waits on is the one it has just cleared: a controller that changes the memory only as time passes,
  and not within the register writes themselves, has no time to set it, and every transfer is over, and successful,
  before it starts.  A read then returns the zeros the driver put in its buffer.\<close>

definition so_no_tempo :: "'h disp \<Rightarrow> bool" where
  "so_no_tempo D \<longleftrightarrow> (\<forall>t a w. fst (snd (hw_le D t a w)) = fst w) \<and> (\<forall>t a v w. fst (hw_gr D t a v w) = fst w)"

lemma op_mem:
  assumes "so_no_tempo D"
  shows "fst (op_w D s r v w) = fst w" "fst (snd (op_r D s r w)) = fst w"
  using assms unfolding so_no_tempo_def op_w_def op_r_def by blast+

lemma aguarda_mem: "so_no_tempo D \<Longrightarrow> fst (snd (aguarda (bits_em D t a k) n w)) = fst w" for D :: "'h disp"
proof (rule aguarda_inv [where P = "\<lambda>v. fst v = fst w"])
  fix v :: "'h mundo" assume "so_no_tempo D" "fst v = fst w"
  then have "fst (snd (hw_le D t a v)) = fst w" unfolding so_no_tempo_def by metis
  then show "fst (snd (bits_em D t a k v)) = fst w" by (simp add: bits_em_def split_beta)
qed simp

lemma qh_bytes_token: "rd32 (qh_bytes l dev ep sp) 24 = 0" "length (qh_bytes l dev ep sp) = 48" "length (head_bytes l) = 64"
  by (simp_all add: qh_bytes_def head_bytes_def palavras32_def rd32_append_ge rd32_append_lt numeral_eq_Suc)

lemma qh_poll_sai: "qh_token l w = 0 \<Longrightarrow> qh_poll D l n w = w" by (cases n) simp_all

lemma ehci_run_qh_corrida:
  assumes "so_no_tempo D"
  shows "\<exists>h. ehci_run_qh D l s dev ep sp w = (0, (mem_gr (l_qh l) (qh_bytes l dev ep sp) (mem_gr (l_head l) (head_bytes l) (fst w)), h))"
proof -
  let ?M = "mem_gr (l_qh l) (qh_bytes l dev ep sp) (mem_gr (l_head l) (head_bytes l) (fst w))"
  have "mem_le ?M (l_qh l) 48 = qh_bytes l dev ep sp" by (simp add: mem_le_same qh_bytes_token)
  from m32_mem [OF this, of 24] have t: "qh_token l v = 0" if "fst v = ?M" for v :: "'a mundo" using that by (simp add: qh_token_def qh_bytes_token)
  have q: "qh_poll D l 500000 v = v" if "fst v = ?M" for v
    using t [OF that] by (rule qh_poll_sai)
  have e: "\<exists>h. v = (?M, h)" if "fst v = ?M" for v :: "'a mundo" using that by (cases v) simp
  show ?thesis
    unfolding ehci_run_qh_def by (simp add: split_beta Let_def q t e op_mem [OF assms] aguarda_mem [OF assms])
qed

theorem usb_control_corrida:
  assumes "so_no_tempo D" "ehci_ok s" "0 < len" "unat len \<le> length d"
    and "longe (l_xfer l + 8) (unat len) (qtd_de l 1) 32" "longe (l_xfer l + 8) (unat len) (qtd_de l 2) 32"
    and "longe (l_xfer l + 8) (unat len) (l_head l) 64" "longe (l_xfer l + 8) (unat len) (l_qh l) 48"
  shows "\<exists>w'. usb_control D l s dev setup (Some d) len True w = (0, Some (splice d 0 (replicate (unat len) 0)), w')"
proof -
  have q: "length (qtd_bytes a b c) = 32" for a b c by (simp add: qtd_bytes_def palavras32_def numeral_eq_Suc)
  note m = mem_le_other mem_le_same qh_bytes_token q assms(5-8)
  let ?M = "mem_gr (qtd_de l 2) (qtd_bytes 1 (QTD_STS_ACTIVE OR QTD_IOC OR QTD_PID_OUT OR QTD_DT OR cerr3) 0)
         (mem_gr (qtd_de l 1) (qtd_bytes (qtd_de l 2) (QTD_STS_ACTIVE OR QTD_DT OR QTD_PID_IN OR QTD_BYTES len OR cerr3) (l_xfer l + 8))
           (mem_gr (l_xfer l + 8) (replicate (unat len) 0)
             (mem_gr (qtd_de l 0) (qtd_bytes (qtd_de l 1) (QTD_STS_ACTIVE OR QTD_PID_SETUP OR QTD_BYTES 8 OR cerr3) (l_xfer l))
               (mem_gr (l_xfer l) setup (fst w)))))"
  obtain h where h: "ehci_run_qh D l s dev 0 2 (?M, snd w) = (0, (mem_gr (l_qh l) (qh_bytes l dev 0 2) (mem_gr (l_head l) (head_bytes l) ?M), h))"
    using ehci_run_qh_corrida [OF assms(1), of l s dev 0 2 "(?M, snd w)"] by auto
  have "unat len < 2 ^ 16" using unsigned_less [of len] by simp
  then have "mem_le (mem_gr (l_qh l) (qh_bytes l dev 0 2) (mem_gr (l_head l) (head_bytes l) ?M)) (l_xfer l + 8) (unat len) = replicate (unat len) 0"
    by (simp add: m assms(5) [simplified])
  then show ?thesis using assms(2,3) h by (simp add: usb_control_def Let_def)
qed

section \<open>Keys lost\<close>

lemma primeira_velhas: "set ks \<subseteq> set prev \<Longrightarrow> primeira (tecla_nova prev sh) ks = None"
  by (induction ks) (simp_all add: tecla_nova_def)

text \<open>Of two keys that go down between two polls only the first is delivered: the next poll finds the second already down.\<close>

theorem usbhid_segunda_perdida:
  assumes "tecla_nova prev sh a = Some c"
  shows "primeira (tecla_nova prev sh) (a # b # ks) = Some c \<and> primeira (tecla_nova (a # b # ks) sh2) (a # b # ks) = None"
  using assms primeira_velhas [of "a # b # ks" "a # b # ks"] by simp

end
