(* ===== verification/Placas.thy ===== *)
theory Placas
  imports Discos NetBase
begin

text \<open>
  The other cards: audio (\<^verbatim>\<open>kernel/drivers/hda.c\<close>), the detection of wireless cards (\<^verbatim>\<open>kernel/net/wifi.c\<close>), and the start of
  the network card (\<open>rtl8139_init\<close> of \<^verbatim>\<open>kernel/net/rtl8139.c\<close>, whose sending and receiving are in \<open>NetBase\<close>).  The cards are
  devices of \<open>Hardware\<close>.
\<close>

section \<open>Audio\<close>

definition HDA_PCI_VENDOR :: u16 where "HDA_PCI_VENDOR = 0x8086"
definition HDA_PCI_DEVICE :: u16 where "HDA_PCI_DEVICE = 0x2668"
definition HDA_GCTL :: u32 where "HDA_GCTL = 0x08"
definition HDA_STATESTS :: u32 where "HDA_STATESTS = 0x0E"
definition HDA_CORBLBASE :: u32 where "HDA_CORBLBASE = 0x40"
definition HDA_CORBUBASE :: u32 where "HDA_CORBUBASE = 0x44"
definition HDA_CORBWP :: u32 where "HDA_CORBWP = 0x48"
definition HDA_CORBRP :: u32 where "HDA_CORBRP = 0x4A"
definition HDA_CORBCTL :: u32 where "HDA_CORBCTL = 0x4C"
definition HDA_CORBSIZE :: u32 where "HDA_CORBSIZE = 0x4E"
definition HDA_RIRBLBASE :: u32 where "HDA_RIRBLBASE = 0x50"
definition HDA_RIRBUBASE :: u32 where "HDA_RIRBUBASE = 0x54"
definition HDA_RIRBWP :: u32 where "HDA_RIRBWP = 0x58"
definition HDA_RINTCNT :: u32 where "HDA_RINTCNT = 0x5A"
definition HDA_RIRBCTL :: u32 where "HDA_RIRBCTL = 0x5C"
definition HDA_RIRBSIZE :: u32 where "HDA_RIRBSIZE = 0x5E"

record hda =
  hda_base :: u32
  hda_initialized :: bool
  corb_wp :: u16

text \<open>The addresses of the two rings.\<close>

record hda_lug =
  l_corb :: u32
  l_rirb :: u32

definition hda_r :: "'h disp \<Rightarrow> hda \<Rightarrow> largura \<Rightarrow> u32 \<Rightarrow> 'h mundo \<Rightarrow> u32 \<times> 'h mundo" where "hda_r D s t off w = hw_le D t (hda_base s + off) w"
definition hda_w :: "'h disp \<Rightarrow> hda \<Rightarrow> largura \<Rightarrow> u32 \<Rightarrow> u32 \<Rightarrow> 'h mundo \<Rightarrow> 'h mundo" where "hda_w D s t off v w = hw_gr D t (hda_base s + off) v w"

definition hda_procura :: "pci \<Rightarrow> nat option" where
  "hda_procura ps =
     (case pci_find HDA_PCI_VENDOR HDA_PCI_DEVICE ps of
        Some i \<Rightarrow> Some i
      | None \<Rightarrow> find (\<lambda>i. class_code (pci_get_list ps ! i) = 0x04 \<and> sub_class (pci_get_list ps ! i) = 0x03) [0..<pci_get_count ps])"

text \<open>The rings, after the controller left the reset.\<close>

definition hda_aneis :: "'h disp \<Rightarrow> hda_lug \<Rightarrow> hda \<Rightarrow> 'h mundo \<Rightarrow> 'h mundo" where
  "hda_aneis D l s w =
     (let w = hda_w D s L8 HDA_CORBCTL 0 w;
          w = hda_w D s L8 HDA_CORBSIZE 0x02 w;
          w = hda_w D s L32 HDA_CORBLBASE (l_corb l) w;
          w = hda_w D s L32 HDA_CORBUBASE 0 w;
          w = hw_tempo D (hda_w D s L16 HDA_CORBRP 0x8000 w);
          w = hda_w D s L16 HDA_CORBRP 0x0000 w;
          w = hda_w D s L16 HDA_CORBWP 0 w;
          w = hda_w D s L8 HDA_CORBCTL 0x02 w;
          w = hda_w D s L8 HDA_RIRBCTL 0 w;
          w = hda_w D s L8 HDA_RIRBSIZE 0x02 w;
          w = hda_w D s L32 HDA_RIRBLBASE (l_rirb l) w;
          w = hda_w D s L32 HDA_RIRBUBASE 0 w;
          w = hda_w D s L16 HDA_RIRBWP 0x8000 w;
          w = hda_w D s L16 HDA_RINTCNT 1 w
      in hda_w D s L8 HDA_RIRBCTL 0x02 w)"

definition hda_init ::
  "(u32 \<Rightarrow> u32) \<Rightarrow> pci \<Rightarrow> u32 \<Rightarrow> 'h disp \<Rightarrow> hda_lug \<Rightarrow> hda \<times> paging \<times> shell \<times> 'h mundo \<Rightarrow> int \<times> hda \<times> paging \<times> shell \<times> 'h mundo" where
  "hda_init cfg ps pd D l = (\<lambda>(s, pg, sh, w).
     case hda_procura ps of
       None \<Rightarrow> (- 1, s, pg, sh, w)
     | Some i \<Rightarrow>
         let d = pci_devices ps ! i; bar0 = bar d ! 0 AND NOT 0xF in
         if bar0 = 0 then (- 1, s, pg, sh, w)
         else
           let pg = paging_mapear pd bar0 bar0 (0x001 OR 0x002) pg;
               s = s\<lparr>hda_base := bar0\<rparr>;
               w = pci_grava D d 0x04 (pci_le cfg d 0x04 OR 0x06) w;
               w = hw_tempo D (hda_w D s L32 HDA_GCTL 0 w);
               w = hda_w D s L32 HDA_GCTL 1 w;
               (t, w) = aguarda_c (\<lambda>w. let (v, w) = hda_r D s L32 HDA_GCTL w in (v AND 1 = 0, w)) (hw_tempo D) 50 w
           in if t = 0 then (- 1, s, pg, shell_writeln (bytes ''HDA: timeout no reset'') sh, w)
              else
                let w = hw_tempo D w;
                    (st, w) = hda_r D s L16 HDA_STATESTS w;
                    w = hda_aneis D l s w;
                    sh = shell_write_hex (ucast (ucast st :: u16)) (shell_write (bytes ''HDA: inicializado, codecs detectados: 0x'') sh)
                in (0, s\<lparr>corb_wp := 0, hda_initialized := True\<rparr>, pg, shell_writeln [] sh, w))"

definition hda_ready :: "hda \<Rightarrow> bool" where "hda_ready s = hda_initialized s"

definition hda_verbo :: "u8 \<Rightarrow> u8 \<Rightarrow> u16 \<Rightarrow> u8 \<Rightarrow> u32" where
  "hda_verbo codec node verb payload = push_bit 28 (ucast codec) OR push_bit 20 (ucast node) OR push_bit 8 (ucast verb) OR ucast payload"

fun hda_resposta :: "'h disp \<Rightarrow> hda_lug \<Rightarrow> hda \<Rightarrow> u16 \<Rightarrow> nat \<Rightarrow> 'h mundo \<Rightarrow> u32 \<times> 'h mundo" where
  "hda_resposta D l s prev 0 w = (0xFFFFFFFF, w)"
| "hda_resposta D l s prev (Suc n) w =
     (let (v, w) = hda_r D s L16 HDA_RIRBWP w; wp = ucast v :: u16 in
      if wp \<noteq> prev then (m32 (fst w) (l_rirb l + 8 * ucast (wp AND 0xFF)), w) else hda_resposta D l s prev n w)"

definition hda_send_verb :: "'h disp \<Rightarrow> hda_lug \<Rightarrow> u8 \<Rightarrow> u8 \<Rightarrow> u16 \<Rightarrow> u8 \<Rightarrow> hda \<times> 'h mundo \<Rightarrow> u32 \<times> hda \<times> 'h mundo" where
  "hda_send_verb D l codec node verb payload = (\<lambda>(s, w).
     if \<not> hda_initialized s then (0xFFFFFFFF, s, w)
     else
       let s = s\<lparr>corb_wp := (corb_wp s + 1) AND 0xFF\<rparr>;
           w = (mem_gr (l_corb l + 4 * ucast (corb_wp s)) (le32 (hda_verbo codec node verb payload)) (fst w), snd w);
           w = hda_w D s L16 HDA_CORBWP (ucast (corb_wp s)) w;
           (v, w) = hda_r D s L16 HDA_RIRBWP w;
           (r, w) = hda_resposta D l s (ucast v) 10000 w
       in (r, s, w))"

section \<open>Wireless cards\<close>

record wifi_chip =
  wc_vendor :: u16
  wc_device :: u16
  wc_name :: "u8 list"
  wc_chipset :: "u8 list"

definition wifi_chips :: "wifi_chip list" where
  "wifi_chips = map (\<lambda>(v, d, n, c). \<lparr>wc_vendor = v, wc_device = d, wc_name = bytes n, wc_chipset = bytes c\<rparr>)
    [(0x10EC, 0x8180, ''RTL8180'', ''Realtek 802.11b''),
     (0x10EC, 0x8187, ''RTL8187'', ''Realtek 802.11bg''),
     (0x10EC, 0x8185, ''RTL8185'', ''Realtek 802.11bg''),
     (0x10EC, 0xB723, ''RTL8723'', ''Realtek 802.11n''),
     (0x8086, 0x1043, ''IPW2100'', ''Intel PRO/Wireless 2100''),
     (0x8086, 0x1044, ''IPW2100'', ''Intel PRO/Wireless 2100''),
     (0x8086, 0x4220, ''IPW2200'', ''Intel PRO/Wireless 2200BG''),
     (0x8086, 0x4223, ''IPW2915'', ''Intel PRO/Wireless 2915ABG''),
     (0x8086, 0x4229, ''IPW3945'', ''Intel PRO/Wireless 3945ABG''),
     (0x168C, 0x001C, ''AR5416'', ''Atheros 802.11abgn''),
     (0x168C, 0x002A, ''AR9280'', ''Atheros 802.11abgn''),
     (0x168C, 0x0030, ''AR9300'', ''Atheros 802.11abgn''),
     (0x14E4, 0x4324, ''BCM4309'', ''Broadcom 802.11abg''),
     (0x14E4, 0x4328, ''BCM4321'', ''Broadcom 802.11abgn'')]"

record wifi =
  found_chip :: "nat option"
  wifi_ok :: bool

text \<open>The first chip of the table on the bus, when no card has the class of a wireless one.\<close>

definition wifi_init :: "pci \<Rightarrow> wifi \<Rightarrow> int \<times> wifi" where
  "wifi_init ps s =
     (let n = [0..<length wifi_chips] in
      case pci_find_class 0x02 0x80 ps of
        None \<Rightarrow>
          (case find (\<lambda>i. pci_find (wc_vendor (wifi_chips ! i)) (wc_device (wifi_chips ! i)) ps \<noteq> None) n of
             None \<Rightarrow> (- 1, s)
           | Some i \<Rightarrow> (0, s\<lparr>found_chip := Some i, wifi_ok := True\<rparr>))
      | Some k \<Rightarrow>
          let d = pci_devices ps ! k;
              f = find (\<lambda>i. wc_vendor (wifi_chips ! i) = vendor_id d \<and> wc_device (wifi_chips ! i) = device_id d) n
          in (0, s\<lparr>found_chip := (case f of None \<Rightarrow> found_chip s | Some i \<Rightarrow> Some i), wifi_ok := True\<rparr>))"

definition wifi_disponivel :: "wifi \<Rightarrow> bool" where "wifi_disponivel s = wifi_ok s"

definition wifi_info :: "wifi \<Rightarrow> shell \<Rightarrow> shell" where
  "wifi_info s sh =
     (if \<not> wifi_ok s then
        shell_writeln (bytes ''  (driver 802.11 completo previsto para v2.x)'') (shell_writeln (bytes ''WiFi: nenhum adaptador detectado'') sh)
      else
        let sh = shell_write (bytes ''WiFi: '') sh in
        case found_chip s of
          Some i \<Rightarrow>
            shell_writeln (bytes '' [driver pendente v2.x]'')
              (shell_write (wc_chipset (wifi_chips ! i))
                (shell_write (bytes '' '' @ [0xE2, 0x80, 0x94] @ bytes '' '') (shell_write (wc_name (wifi_chips ! i)) sh)))
        | None \<Rightarrow> shell_writeln (bytes ''chipset desconhecido detectado [driver pendente]'') sh)"

section \<open>The start of the network card\<close>

definition RTL8139_VENDOR :: u16 where "RTL8139_VENDOR = 0x10EC"
definition RTL8139_DEVICE :: u16 where "RTL8139_DEVICE = 0x8139"

definition rtl_w :: "'h disp \<Rightarrow> u16 \<Rightarrow> largura \<Rightarrow> u8 \<Rightarrow> u32 \<Rightarrow> 'h mundo \<Rightarrow> 'h mundo" where
  "rtl_w D io t reg v w = hw_gr D t (ucast (io + ucast reg)) v w"

definition rtl_r8 :: "'h disp \<Rightarrow> u16 \<Rightarrow> u8 \<Rightarrow> 'h mundo \<Rightarrow> u8 \<times> 'h mundo" where
  "rtl_r8 D io reg w = (let (v, w) = hw_le D L8 (ucast (io + ucast reg)) w in (ucast v, w))"

definition mostra_mac :: "u8 list \<Rightarrow> shell \<Rightarrow> shell" where
  "mostra_mac mac s =
     fold (\<lambda>i s.
       let s = shell_write_char (bytes ''0123456789ABCDEF'' ! unat (drop_bit 4 (mac ! i) AND 0xF)) s;
           s = shell_write_char (bytes ''0123456789ABCDEF'' ! unat (mac ! i AND 0xF)) s
       in if i < 5 then shell_write_char 58 s else s) [0..<6] s"

text \<open>\<open>rx\<close> is the address of the receive ring.\<close>

definition rtl8139_init ::
  "(u32 \<Rightarrow> u32) \<Rightarrow> pci \<Rightarrow> 'h disp \<Rightarrow> u32 \<Rightarrow> net \<times> shell \<times> 'h mundo \<Rightarrow> int \<times> net \<times> shell \<times> 'h mundo" where
  "rtl8139_init cfg ps D rx = (\<lambda>(s, sh, w).
     case pci_find RTL8139_VENDOR RTL8139_DEVICE ps of
       None \<Rightarrow> (- 1, s, sh, w)
     | Some i \<Rightarrow>
         let d = pci_devices ps ! i;
             bar0 = (if bar d ! 0 AND 0x01 = 0 then bar d ! 1 else bar d ! 0);
             io = ucast (bar0 AND NOT 0x3);
             w = pci_grava D d 0x04 (pci_le cfg d 0x04 OR 0x05) w;
             w = rtl_w D io L8 0x52 0x00 w;
             w = rtl_w D io L8 0x37 0x10 w;
             (t, w) = aguarda_c (\<lambda>w. let (v, w) = rtl_r8 D io 0x37 w in (v AND 0x10 \<noteq> 0, w)) (hw_gr D L8 0x80 0) 100000 w
         in if t = 0 then (- 1, s, sh, w)
            else
              let (mac, w) = fold (\<lambda>i (m, w). let (v, w) = rtl_r8 D io (of_nat i) w in (m @ [v], w)) [0..<6] ([], w);
                  w = rtl_w D io L32 0x30 rx w;
                  w = rtl_w D io L32 0x44 (0x01 OR 0x02 OR 0x04 OR 0x08 OR 0x80 OR 0x00 OR 0x700) w;
                  w = rtl_w D io L32 0x40 0x03000700 w;
                  w = rtl_w D io L16 0x3C (0x0001 OR 0x0004 OR 0x0002 OR 0x0008) w;
                  w = rtl_w D io L8 0x37 (0x08 OR 0x04) w;
                  sh = mostra_mac mac (shell_write (bytes ''RTL8139: MAC '') sh)
              in (0, s\<lparr>mac_addr := mac, rx_read_ptr := 0, rtl_initialized := True\<rparr>, shell_writeln [] sh, w))"

definition rtl8139_set_recv_cb :: "net \<Rightarrow> net" where "rtl8139_set_recv_cb s = s\<lparr>recv_cb := True\<rparr>"
definition rtl8139_get_mac :: "net \<Rightarrow> u8 list" where "rtl8139_get_mac s = mac_addr s"

section \<open>Timeouts\<close>

text \<open>The counter of \<^verbatim>\<open>while (cond && timeout--)\<close> is past zero when the loop runs out, so \<^verbatim>\<open>if (!timeout)\<close> never sees it: a
  controller that stays in the reset is taken for a working one.\<close>

theorem hda_reset_ignorado:
  assumes "hda_procura ps = Some i" "bar (pci_devices ps ! i) ! 0 AND NOT 0xF \<noteq> 0" "\<And>t a w. fst (hw_le D t a w) AND 1 = 0"
  shows "fst (hda_init cfg ps pd D l (s, pg, sh, w)) = 0"
proof -
  have "fst (aguarda_c (\<lambda>w. let (v, w) = hda_r D s' L32 HDA_GCTL w in (v AND 1 = 0, w)) f n v) = - 1" for s' f n v
    by (rule aguarda_c_esgota) (simp add: hda_r_def split_beta assms(3))
  then show ?thesis using assms(1,2) unfolding hda_init_def by (simp add: split_beta Let_def)
qed

theorem rtl8139_reset_ignorado:
  assumes "pci_find RTL8139_VENDOR RTL8139_DEVICE ps = Some i" "\<And>t a w. (ucast (fst (hw_le D t a w)) :: u8) AND 0x10 \<noteq> 0"
  shows "fst (rtl8139_init cfg ps D rx (s, sh, w)) = 0"
proof -
  have "fst (aguarda_c (\<lambda>w. let (v, w) = rtl_r8 D io 0x37 w in (v AND 0x10 \<noteq> 0, w)) f n v) = - 1" for io f n v
    by (rule aguarda_c_esgota) (simp add: rtl_r8_def split_beta assms(2))
  then show ?thesis using assms(1) unfolding rtl8139_init_def by (simp add: split_beta Let_def)
qed

text \<open>The write pointer of the answers is looked at after the command is handed over: an answer that is already there by then
  is never seen.\<close>

lemma hda_resposta_parada:
  "(\<And>w. fst (hda_r D s L16 HDA_RIRBWP w) = v) \<Longrightarrow> fst (hda_resposta D l s (ucast v) n w) = 0xFFFFFFFF"
  by (induction n arbitrary: w) (simp_all add: split_beta Let_def)

theorem hda_resposta_perdida:
  assumes "\<And>w. fst (hda_r D (s\<lparr>corb_wp := (corb_wp s + 1) AND 0xFF\<rparr>) L16 HDA_RIRBWP w) = v"
  shows "fst (hda_send_verb D l codec node verb payload (s, w)) = 0xFFFFFFFF"
  using assms hda_resposta_parada [OF assms] unfolding hda_send_verb_def by (simp add: split_beta Let_def)

end
