(* ===== verification/Remoto.thy ===== *)
theory Remoto
  imports Comandos Rede
begin

text \<open>
  The remote repository of packages (\<^verbatim>\<open>kernel/pkg/pkg_remote.c\<close>): a request over the TCP sockets, the list of the
  repository on the screen, a package saved by the VFS.  The buffers \<open>list_buf\<close>, \<open>r_path\<close> and \<open>spk_path\<close> are the memory from
  the arrays on, as the code may pass their ends; \<open>poll\<close> is the polling of the card, as in \<open>Tcp\<close>.
\<close>

section \<open>State\<close>

record remoto =
  r_net :: net
  r_pkg :: pkg
  r_tela :: shell
  repo_host :: "u8 list"
  repo_port :: u16
  req_buf :: "u8 list"
  http_buf :: "u8 list"
  list_buf :: "u8 list"
  r_path :: "u8 list"
  spk_path :: "u8 list"

definition fala :: "(shell \<Rightarrow> shell) \<Rightarrow> remoto \<Rightarrow> remoto" where "fala f s = s\<lparr>r_tela := f (r_tela s)\<rparr>"
definition avisa :: "u8 list \<Rightarrow> remoto \<Rightarrow> remoto" where "avisa t s = fala (shell_writeln t) s"

definition na_rede :: "(net \<Rightarrow> ('r \<times> net) option) \<Rightarrow> remoto \<Rightarrow> ('r \<times> remoto) option" where
  "na_rede f s = map_option (\<lambda>(r, n). (r, s\<lparr>r_net := n\<rparr>)) (f (r_net s))"

definition no_pkg :: "(pkg \<Rightarrow> ('r \<times> pkg) option) \<Rightarrow> remoto \<Rightarrow> ('r \<times> remoto) option" where
  "no_pkg f s = map_option (\<lambda>(r, m). (r, s\<lparr>r_pkg := m\<rparr>)) (f (r_pkg s))"

definition algarismo :: "u8 \<Rightarrow> bool" where "algarismo c = (48 \<le> c \<and> c \<le> 57)"
definition ponto :: u8 where "ponto = 46"

section \<open>The repository\<close>

definition pkg_remote_set_repo :: "u8 list \<Rightarrow> remoto \<Rightarrow> remoto" where
  "pkg_remote_set_repo host_port s =
     (let h = take 31 (takeWhile (\<lambda>c. c \<noteq> 0 \<and> c \<noteq> 58) host_port); i = length h;
          s = s\<lparr>repo_host := (splice (repo_host s) 0 h)[i := 0]\<rparr> in
      if char_at host_port i = 58 then
        s\<lparr>repo_port := fold (\<lambda>c p. p * 10 + (ucast c - 48)) (takeWhile algarismo (drop (i + 1) host_port)) 0\<rparr>
      else s)"

text \<open>The four octets: how many were read, and the address.\<close>

fun octetos :: "nat \<Rightarrow> u8 list \<Rightarrow> u32 \<Rightarrow> nat \<times> u32" where
  "octetos 0 p ip = (0, ip)"
| "octetos (Suc k) p ip =
     (if char_at p 0 = 0 then (0, ip)
      else let oct = fold (\<lambda>c o'. o' * 10 + (ucast c - 48)) (takeWhile algarismo p) 0; p = dropWhile algarismo p;
               ip = push_bit 8 ip OR (oct AND 0xFF); p = (if char_at p 0 = ponto then tl p else p);
               (n, ip) = octetos k p ip
        in (Suc n, ip))"

definition resolve_host :: "(net \<Rightarrow> (int \<times> net) option) \<Rightarrow> remoto \<Rightarrow> (u32 \<times> remoto) option" where
  "resolve_host poll s =
     (let (n, ip) = octetos 4 (repo_host s) 0 in
      if n = 4 then Some (ip, s)
      else do {
        (r, s) \<leftarrow> na_rede (dns_resolve poll (repo_host s)) s;
        Some (case r of Some ip \<Rightarrow> ip | None \<Rightarrow> 0, s) })"

section \<open>The request\<close>

definition crlf :: "u8 list" where "crlf = [13, 10]"

definition pedido :: "u8 list \<Rightarrow> u8 list \<Rightarrow> u8 list" where
  "pedido path host = bytes ''GET '' @ cstr path @ bytes '' HTTP/1.0'' @ crlf @ bytes ''Host: '' @ cstr host @ crlf @ crlf"

text \<open>Where the body starts in a piece of the answer: after the first empty line.\<close>

definition fim_header :: "u8 list \<Rightarrow> nat option" where
  "fim_header b =
     map_option (\<lambda>i. i + 4)
       (find (\<lambda>i. b ! i = 13 \<and> b ! (i + 1) = 10 \<and> b ! (i + 2) = 13 \<and> b ! (i + 3) = 10) [0..<length b - 3])"

text \<open>The loop of \<open>http_get\<close>; it goes on for as long as pieces without a header arrive.  \<open>hd'\<close> is \<open>header_done\<close>,
  \<open>out\<close> the buffer of the caller.\<close>

partial_function (option) http_loop ::
  "(net \<Rightarrow> (int \<times> net) option) \<Rightarrow> int \<Rightarrow> u32 \<Rightarrow> bool \<Rightarrow> u32 \<Rightarrow> u8 list \<Rightarrow> remoto \<Rightarrow> (u32 \<times> u8 list \<times> remoto) option" where
  "http_loop poll sock max_size hd' tot out s =
     (if \<not> tot < max_size then Some (tot, out, s)
      else do {
        (n, xs, net) \<leftarrow> tcp_recv poll sock 256 3000 (r_net s);
        let s = s\<lparr>r_net := net, http_buf := splice (http_buf s) 0 xs\<rparr>;
        if n \<le> 0 then Some (tot, out, s)
        else if \<not> hd' then
          case fim_header (take (nat n) (http_buf s)) of
            None \<Rightarrow> http_loop poll sock max_size False tot out s
          | Some p \<Rightarrow>
              let k = of_int n - of_nat p in
              if 0 < k \<and> tot + k \<le> max_size then
                http_loop poll sock max_size True (tot + k) (splice out (unat tot) (slice (http_buf s) p (unat k))) s
              else http_loop poll sock max_size True tot out s
        else
          let k = (if tot + of_int n \<le> max_size then of_int n else max_size - tot)
          in http_loop poll sock max_size True (tot + k) (splice out (unat tot) (slice (http_buf s) 0 (unat k))) s })"

text \<open>The result with \<open>*out_len\<close> and the buffer.\<close>

definition http_get ::
  "(net \<Rightarrow> (int \<times> net) option) \<Rightarrow> int \<Rightarrow> u8 list \<Rightarrow> u8 list \<Rightarrow> u32 \<Rightarrow> remoto \<Rightarrow> ((int \<times> u32 \<times> u8 list) \<times> remoto) option" where
  "http_get poll sock path out max_size s =
     (let r = pedido path (repo_host s); s = s\<lparr>req_buf := splice (req_buf s) 0 (r @ [0])\<rparr> in do {
        (_, s) \<leftarrow> na_rede (tcp_send poll sock (req_buf s) (of_nat (length r))) s;
        (tot, out, s) \<leftarrow> http_loop poll sock max_size False 0 out s;
        Some ((if tot > 0 then 0 else - 1, tot, out), s) })"

definition fecha :: "(net \<Rightarrow> (int \<times> net) option) \<Rightarrow> int \<Rightarrow> remoto \<Rightarrow> remoto option" where
  "fecha poll sock s = map_option (\<lambda>n. s\<lparr>r_net := n\<rparr>) (tcp_close poll sock (r_net s))"

section \<open>The list of the repository\<close>

text \<open>The lines, as the loop finds them, and the search of the query in a line.\<close>

function linhas :: "u8 list \<Rightarrow> u8 list list" where
  "linhas p =
     (if char_at p 0 = 0 then []
      else takeWhile (\<lambda>c. c \<noteq> 0 \<and> c \<noteq> nl) p # linhas (prox_linha p))"
  by pat_completeness auto
termination by (relation "measure length") (auto simp: prox_linha_menor)

declare linhas.simps [simp del]

fun comeca :: "u8 list \<Rightarrow> u8 list \<Rightarrow> bool" where
  "comeca l [] = True"
| "comeca [] (y # q) = False"
| "comeca (x # l) (y # q) = (x = y \<and> comeca l q)"

fun achou :: "u8 list \<Rightarrow> u8 list \<Rightarrow> bool" where
  "achou [] q = False"
| "achou (x # l) q = (comeca (x # l) q \<or> achou l q)"

definition mostra_linha :: "u8 list option \<Rightarrow> u8 list \<Rightarrow> shell \<Rightarrow> shell" where
  "mostra_linha query l s =
     (if (case query of None \<Rightarrow> True | Some q \<Rightarrow> cstr q = [] \<or> achou l (cstr q)) then shell_writeln l (shell_write (bytes ''  '') s)
      else s)"

definition corta_linhas :: "u8 list \<Rightarrow> u8 list" where
  "corta_linhas b = (let t = cstr b in map (\<lambda>c. if c = nl then 0 else c) t @ drop (length t) b)"

definition pkg_remote_search :: "(net \<Rightarrow> (int \<times> net) option) \<Rightarrow> u8 list option \<Rightarrow> remoto \<Rightarrow> (int \<times> remoto) option" where
  "pkg_remote_search poll query s =
     (if \<not> rtl8139_ready (r_net s) then Some (- 1, avisa (bytes ''spk search: sem rede (inicialize com 'net init')'') s)
      else do {
        (ip, s) \<leftarrow> resolve_host poll s;
        if ip = 0 then Some (- 1, avisa (bytes ''spk search: nao foi possivel resolver o repositorio'') s)
        else do {
          (sock, s) \<leftarrow> na_rede (tcp_connect poll ip (repo_port s)) s;
          if sock < 0 then Some (- 1, avisa (bytes ''spk search: conexao recusada'') s)
          else do {
            ((ret, n, b), s) \<leftarrow> http_get poll sock (bytes ''/packages/list'') (list_buf s) 4096 s;
            s \<leftarrow> fecha poll sock (s\<lparr>list_buf := b\<rparr>);
            if ret < 0 \<or> n = 0 then Some (- 1, avisa (bytes ''spk search: repositorio nao respondeu'') s)
            else
              let b = (list_buf s)[unat n := 0]; s = avisa [] (avisa (bytes ''Pacotes disponiveis:'') s)
              in Some (0, (fala (fold (mostra_linha query) (linhas b)) s)\<lparr>list_buf := corta_linhas b\<rparr>) } } })"

section \<open>The download\<close>

definition pkg_remote_download :: "(net \<Rightarrow> (int \<times> net) option) \<Rightarrow> u8 list \<Rightarrow> remoto \<Rightarrow> (int \<times> remoto) option" where
  "pkg_remote_download poll pkg_name s =
     (if \<not> rtl8139_ready (r_net s) then Some (- 1, avisa (bytes ''spk: sem rede'') s)
      else do {
        (ip, s) \<leftarrow> resolve_host poll s;
        if ip = 0 then Some (- 1, s)
        else do {
          (sock, s) \<leftarrow> na_rede (tcp_connect poll ip (repo_port s)) s;
          if sock < 0 then Some (- 1, s)
          else let s = s\<lparr>r_path := caminho (r_path s) (bytes ''/packages/'') pkg_name (bytes ''.spk'')\<rparr> in do {
            (buf, s) \<leftarrow> no_pkg (aloca (64 * 1024)) s;
            if buf = 0 then do { s \<leftarrow> fecha poll sock s; Some (- 1, s) }
            else do {
              (b, s) \<leftarrow> no_pkg (Some \<circ> lixo) s;
              ((ret, n, b), s) \<leftarrow> http_get poll sock (r_path s) b (64 * 1024) s;
              s \<leftarrow> fecha poll sock s;
              if ret < 0 \<or> n = 0 then do {
                (_, s) \<leftarrow> no_pkg (Comandos.libera buf) (fala (\<lambda>t. shell_writeln pkg_name (shell_write (bytes ''spk: download falhou: '') t)) s);
                Some (- 1, s) }
              else let s = s\<lparr>spk_path := caminho (spk_path s) (bytes ''/pkg/incoming/'') pkg_name (bytes ''.spk'')\<rparr> in do {
                (w, s) \<leftarrow> no_pkg (com_vfs (vfs_write (spk_path s) b n)) s;
                (_, s) \<leftarrow> no_pkg (Comandos.libera buf) s;
                if w = None then Some (- 1, avisa (bytes ''spk: erro ao salvar pacote no disco'') s)
                else
                  let s = fala (\<lambda>t. shell_writeln (spk_path s) (shell_write (bytes ''Baixado: '') t)) s
                  in Some (0, fala (\<lambda>t. shell_writeln (bytes '' bytes'') (shell_write_num n t)) s) } } } } })"

section \<open>The body of an answer\<close>

text \<open>What the loop makes of the pieces the socket delivers: the header must end inside one of them.\<close>

fun corpo_http :: "u8 list list \<Rightarrow> u8 list" where
  "corpo_http [] = []"
| "corpo_http (c # cs) = (case fim_header c of None \<Rightarrow> corpo_http cs | Some p \<Rightarrow> drop p c @ concat cs)"

text \<open>The socket delivers the pieces, then ends or fails.\<close>

fun recebe :: "(net \<Rightarrow> (int \<times> net) option) \<Rightarrow> int \<Rightarrow> net \<Rightarrow> u8 list list \<Rightarrow> net \<Rightarrow> bool" where
  "recebe poll sock n [] n' = (\<exists>r xs. r \<le> 0 \<and> length xs \<le> 256 \<and> tcp_recv poll sock 256 3000 n = Some (r, xs, n'))"
| "recebe poll sock n (c # cs) n' =
     (0 < length c \<and> length c \<le> 256 \<and>
      (\<exists>t. tcp_recv poll sock 256 3000 n = Some (int (length c), c, t) \<and> recebe poll sock t cs n'))"

lemma splice_splice: "k \<le> length b \<Longrightarrow> splice (splice b k x) (k + length x) y = splice b k (x @ y)"
  by (simp add: splice_def ac_simps)

lemma splice_nada: "splice b k [] = b" by (simp add: splice_def)

lemma take_splice_0: "take (length c) (splice b 0 c) = c" by (simp add: splice_def)

lemma fim_header_cabe: "fim_header c = Some p \<Longrightarrow> p \<le> length c"
  unfolding fim_header_def by (auto simp: find_Some_iff)

lemma http_loop_corpo:
  assumes "recebe poll sock (r_net s) cs n'" "m + length (concat cs) < unat max_size" "unat max_size \<le> length out" "256 \<le> length (http_buf s)"
  shows "\<exists>hb. http_loop poll sock max_size True (of_nat m) out s =
     Some (of_nat (m + length (concat cs)), splice out m (concat cs), s\<lparr>r_net := n', http_buf := hb\<rparr>)"
  using assms
proof (induction cs arbitrary: m out s)
  case Nil
  then obtain r xs where t: "r \<le> 0" "tcp_recv poll sock 256 3000 (r_net s) = Some (r, xs, n')" by auto
  have B: "unat max_size < 2 ^ 32" using unsigned_less [of max_size] by simp
  have "(of_nat m :: u32) < max_size" using Nil.prems(2) B by (simp add: word_less_nat_alt unsigned_of_nat take_bit_nat_eq_self)
  then show ?case using t by (subst http_loop.simps) (simp add: splice_nada, blast)
next
  case (Cons c cs)
  then obtain t where t: "0 < length c" "length c \<le> 256" "tcp_recv poll sock 256 3000 (r_net s) = Some (int (length c), c, t)"
    "recebe poll sock t cs n'" by auto
  have M: "m + length c < unat max_size" "m < unat max_size" using Cons.prems(2) by simp_all
  have B: "unat max_size < 2 ^ 32" using unsigned_less [of max_size] by simp
  have u: "unat (of_nat m :: u32) = m" "unat (of_nat m + of_nat (length c) :: u32) = m + length c"
    using M B t(2) by (simp_all add: unat_word_ariths unsigned_of_nat take_bit_nat_eq_self)
  let ?s = "s\<lparr>r_net := t, http_buf := splice (http_buf s) 0 c\<rparr>"
  have L: "(of_nat m :: u32) < max_size" "(of_nat m + of_nat (length c) :: u32) \<le> max_size"
    using M u by (simp_all add: word_less_nat_alt word_le_nat_alt)
  have sl: "slice (splice (http_buf s) 0 c) 0 (length c) = c" by (simp add: slice_def take_splice_0)
  have k: "unat (of_nat (length c) :: u32) = length c" using t(2) by (simp add: unsigned_of_nat take_bit_nat_eq_self)
  have "http_loop poll sock max_size True (of_nat m) out s =
     http_loop poll sock max_size True (of_nat m + of_nat (length c)) (splice out m c) ?s"
    using t L by (subst http_loop.simps) (simp add: sl k u(1) Let_def)
  moreover have "\<exists>hb. http_loop poll sock max_size True (of_nat (m + length c)) (splice out m c) ?s =
     Some (of_nat (m + length c + length (concat cs)), splice (splice out m c) (m + length c) (concat cs), ?s\<lparr>r_net := n', http_buf := hb\<rparr>)"
    using Cons.prems t M by (intro Cons.IH) auto
  moreover have "splice (splice out m c) (m + length c) (concat cs) = splice out m (concat (c # cs))"
    using M Cons.prems(3) by (simp add: splice_splice)
  ultimately show ?case by (auto simp: ac_simps)
qed

lemma http_loop_header:
  assumes "recebe poll sock (r_net s) cs n'" "length (corpo_http cs) < unat max_size" "unat max_size \<le> length out" "256 \<le> length (http_buf s)"
  shows "\<exists>hb. http_loop poll sock max_size False 0 out s =
     Some (of_nat (length (corpo_http cs)), splice out 0 (corpo_http cs), s\<lparr>r_net := n', http_buf := hb\<rparr>)"
  using assms
proof (induction cs arbitrary: s)
  case Nil
  then obtain r xs where t: "r \<le> 0" "tcp_recv poll sock 256 3000 (r_net s) = Some (r, xs, n')" by auto
  have "0 < max_size" using Nil.prems(2) by (simp add: word_less_nat_alt)
  then show ?case using t by (subst http_loop.simps) (simp add: splice_nada, blast)
next
  case (Cons c cs)
  then obtain t where t: "0 < length c" "length c \<le> 256" "tcp_recv poll sock 256 3000 (r_net s) = Some (int (length c), c, t)"
    "recebe poll sock t cs n'" by auto
  let ?s = "s\<lparr>r_net := t, http_buf := splice (http_buf s) 0 c\<rparr>"
  have Z: "0 < max_size" using Cons.prems(2) by (simp add: word_less_nat_alt)
  show ?case
  proof (cases "fim_header c")
    case None
    have "http_loop poll sock max_size False 0 out s = http_loop poll sock max_size False 0 out ?s"
      using t Z None by (subst http_loop.simps) (simp add: take_splice_0)
    moreover have "\<exists>hb. http_loop poll sock max_size False 0 out ?s =
        Some (of_nat (length (corpo_http cs)), splice out 0 (corpo_http cs), ?s\<lparr>r_net := n', http_buf := hb\<rparr>)"
      using Cons.prems t None by (intro Cons.IH) auto
    ultimately show ?thesis using None by auto
  next
    case (Some p)
    have p: "p \<le> length c" by (rule fim_header_cabe [OF Some])
    have k: "(of_nat (length c) - of_nat p :: u32) = of_nat (length c - p)" using p by simp
    have uk: "unat (of_nat (length c - p) :: u32) = length c - p" using t(2) by (simp add: unsigned_of_nat take_bit_nat_eq_self)
    have le: "(of_nat (length c - p) :: u32) \<le> max_size" using Cons.prems(2) Some uk by (simp add: word_le_nat_alt)
    have sl: "slice (splice (http_buf s) 0 c) p (length c - p) = drop p c"
      using p by (simp add: slice_def splice_def drop_append)
    have "http_loop poll sock max_size False 0 out s =
        http_loop poll sock max_size True (of_nat (length c - p)) (splice out 0 (drop p c)) ?s"
    proof (cases "length c - p = 0")
      case True
      then show ?thesis using t Z Some k by (subst http_loop.simps) (simp add: take_splice_0 splice_nada Let_def del: of_nat_diff)
    next
      case False
      then have "0 < (of_nat (length c - p) :: u32)" using uk by (simp add: word_less_nat_alt)
      then show ?thesis using t Z Some k le uk sl
        by (subst http_loop.simps) (simp add: take_splice_0 Let_def del: of_nat_diff)
    qed
    moreover have "\<exists>hb. http_loop poll sock max_size True (of_nat (length c - p)) (splice out 0 (drop p c)) ?s =
        Some (of_nat (length c - p + length (concat cs)), splice (splice out 0 (drop p c)) (length c - p) (concat cs), ?s\<lparr>r_net := n', http_buf := hb\<rparr>)"
      using Cons.prems t Some by (intro http_loop_corpo) auto
    moreover have "splice (splice out 0 (drop p c)) (length c - p) (concat cs) = splice out 0 (drop p c @ concat cs)"
      using splice_splice [of 0 out "drop p c" "concat cs"] by simp
    ultimately show ?thesis using Some by auto
  qed
qed


lemma rx_le_estado: "tcp_state (snd (rx_le n q)) = tcp_state q"
  by (induction n arbitrary: q) (auto simp: rx_tira_def Let_def split: prod.splits, metis snd_conv tcp_socket.select_convs(6) tcp_socket.surjective tcp_socket.update_convs(8))

text \<open>Reading from a socket that has data.\<close>

lemma tcp_recv_dados:
  assumes "k < 4" "length (sockets s) = 4" "sq_ok (soquete k s)" "rx_conteudo (soquete k s) \<noteq> []"
  shows "\<exists>q t. tcp_recv poll (int k) max_len tmo s =
      Some (int (min (length (rx_conteudo (soquete k s))) (unat max_len)), take (unat max_len) (rx_conteudo (soquete k s)), t) \<and>
    length (sockets t) = 4 \<and> soquete k t = q \<and> rx_conteudo q = drop (unat max_len) (rx_conteudo (soquete k s)) \<and> sq_ok q \<and>
    tcp_state q = tcp_state (soquete k s)"
proof -
  let ?q = "soquete k s" and ?s = "s\<lparr>tique_n := tique_n s + 1\<rparr>"
  define n where "n = (if rx_avail ?q < max_len then rx_avail ?q else max_len)"
  have n: "unat n = min (length (rx_conteudo ?q)) (unat max_len)"
    using rx_avail_ok(1) [OF assms(3)] by (auto simp: n_def word_less_nat_alt)
  obtain xs q where t: "rx_le (unat n) ?q = (xs, q)" by (cases "rx_le (unat n) ?q")
  then have "xs = take (unat n) (rx_conteudo ?q) \<and> rx_conteudo q = drop (unat n) (rx_conteudo ?q) \<and> sq_ok q"
    using rx.tira_n_ok [OF assms(3), of "unat n"] n by (simp add: rx_le_tira_n)
  moreover have sq: "soquete k ?s = ?q" by (simp add: soquete_def)
  have "tcp_recv_loop poll k max_len tmo start ?s = Some (int (unat n), xs, muda k (\<lambda>_. q) ?s)" for start
    using rx_avail_ok(2) [OF assms(3)] assms(4) t sq by (subst tcp_recv_loop.simps) (simp add: Let_def n_def split: prod.splits)
  then have "tcp_recv poll (int k) max_len tmo s = Some (int (unat n), xs, muda k (\<lambda>_. q) ?s)"
    using assms(1) by (simp add: tcp_recv_def sched_ticks_net_def TCP_MAX_SOCKETS_def)
  moreover have "tcp_state q = tcp_state ?q" using rx_le_estado [of "unat n" ?q] t by simp
  ultimately show ?thesis using n assms(1,2) by (intro exI [of _ q] exI [of _ "muda k (\<lambda>_. q) ?s"]) (auto simp: min_def)
qed

text \<open>A server that answered 300 bytes after its header and closed: two reads.\<close>

definition resposta :: "u8 list" where "resposta = bytes ''HTTP/1.0 200 OK'' @ [13, 10, 13, 10] @ replicate 300 65"

definition soquete_resposta :: tcp_socket where
  "soquete_resposta = soquete_vazio\<lparr>tcp_state := TCP_CLOSE_WAIT, rx_buf := resposta @ replicate 1729 0, rx_tail := 319\<rparr>"

definition remoto_exemplo :: remoto where
  "remoto_exemplo = \<lparr>r_net = net_exemplo\<lparr>sockets := soquete_resposta # replicate 3 soquete_vazio\<rparr>, r_pkg = pkg_exemplo, r_tela = shell_exemplo,
     repo_host = splice (replicate 32 0) 0 (bytes ''10.0.2.2''), repo_port = 8080, req_buf = replicate 256 0, http_buf = replicate 256 0,
     list_buf = replicate 4200 0, r_path = replicate 64 0, spk_path = replicate 32 0\<rparr>"

lemma length_bytes: "length (bytes t) = length t" by (induction t) simp_all

lemma resposta_fila: "sq_ok soquete_resposta" "rx_conteudo soquete_resposta = resposta" "length resposta = 319"
proof -
  show l: "length resposta = 319" by (simp add: resposta_def length_bytes del: bytes_Cons)
  show "sq_ok soquete_resposta" using l by (simp add: sq_ok_def soquete_resposta_def soquete_vazio_def tcp_estados)
  have "rx_conteudo soquete_resposta = map (\<lambda>i. resposta ! i) [0..<319]"
    unfolding rx_conteudo_def
    using l by (auto simp: rx_n_def soquete_resposta_def soquete_vazio_def nth_append intro!: map_cong)
  then show "rx_conteudo soquete_resposta = resposta" using map_nth [of resposta] l by simp
qed

lemma resposta_corpo: "corpo_http [take 256 resposta, drop 256 resposta] = replicate 300 65"
proof -
  define h where "h = bytes ''HTTP/1.0 200 OK'' @ [13, 10, 13, 10]"
  have l: "length h = 19" by (simp add: h_def length_bytes del: bytes_Cons)
  have r: "resposta = h @ replicate 300 65" by (simp add: resposta_def h_def)
  have t: "take 256 resposta = h @ replicate 237 65" unfolding r using l by simp
  have d: "drop 256 resposta = replicate 63 65" unfolding r using l by simp
  have f: "fim_header (h @ replicate 237 65) = Some 19"
  proof -
    have "13 \<notin> set (bytes ''HTTP/1.0 200 OK'')" "length (bytes ''HTTP/1.0 200 OK'') = 15" by (simp_all add: length_bytes)
    then have "\<forall>i < 15. \<not> (h ! i = 13)" unfolding h_def by (metis nth_append nth_mem)
    then have a: "\<forall>i \<in> set [0..<15]. (h @ replicate 237 65) ! i \<noteq> 13" using l by (simp add: nth_append)
    have b: "(h @ replicate 237 65) ! 15 = 13" "(h @ replicate 237 65) ! 16 = 10" "(h @ replicate 237 65) ! 17 = 13" "(h @ replicate 237 65) ! 18 = 10"
      using l by (simp_all add: nth_append) (simp_all add: h_def)
    have "find (\<lambda>i. (h @ replicate 237 65) ! i = 13 \<and> (h @ replicate 237 65) ! (i + 1) = 10 \<and> (h @ replicate 237 65) ! (i + 2) = 13 \<and>
        (h @ replicate 237 65) ! (i + 3) = 10) [0..<253] = Some 15"
      unfolding find_Some_iff using a b by (intro exI [of _ 15]) simp
    then show ?thesis unfolding fim_header_def using l by simp
  qed
  show ?thesis unfolding t d using f l by (simp add: replicate_add [symmetric])
qed

lemma remoto_recebe: "\<exists>n'. recebe (\<lambda>_. None) 0 (r_net remoto_exemplo) [take 256 resposta, drop 256 resposta] n'"
proof -
  let ?n = "r_net remoto_exemplo"
  have q: "soquete 0 ?n = soquete_resposta" "length (sockets ?n) = 4" by (simp_all add: remoto_exemplo_def soquete_def)
  note f = resposta_fila
  have e: "tcp_state soquete_resposta = TCP_CLOSE_WAIT" "rx_n soquete_resposta = 319"
    using arg_cong [OF f(2), of length] f(3) by (simp_all add: soquete_resposta_def)
  have ne: "resposta \<noteq> []" using f(3) by auto
  obtain q1 t1 where A: "tcp_recv (\<lambda>_. None) 0 256 3000 ?n = Some (int (min 319 256), take 256 resposta, t1)" "length (sockets t1) = 4"
      "soquete 0 t1 = q1" "rx_conteudo q1 = drop 256 resposta" "sq_ok q1" "tcp_state q1 = TCP_CLOSE_WAIT"
    using tcp_recv_dados [where k = 0 and s = ?n and max_len = 256 and poll = "\<lambda>_. None" and tmo = 3000] q f ne e by auto
  have ne1: "drop 256 resposta \<noteq> []" using f(3) by simp
  obtain q2 t2 where B: "tcp_recv (\<lambda>_. None) 0 256 3000 t1 = Some (int 63, drop 256 resposta, t2)" "length (sockets t2) = 4"
      "soquete 0 t2 = q2" "rx_conteudo q2 = []" "sq_ok q2" "tcp_state q2 = TCP_CLOSE_WAIT"
    using tcp_recv_dados [where k = 0 and s = t1 and max_len = 256 and poll = "\<lambda>_. None" and tmo = 3000] A(2-6) f(3) ne1 by auto
  have "soquete 0 (t2\<lparr>tique_n := tique_n t2 + 1\<rparr>) = q2" using B(3) by (simp add: soquete_def)
  then have C: "tcp_recv (\<lambda>_. None) 0 256 3000 t2 = Some (0, [], t2\<lparr>tique_n := tique_n t2 + 1\<rparr>)"
    using B rx_avail_ok(2) [OF B(5)] by (simp add: tcp_recv_def TCP_MAX_SOCKETS_def sched_ticks_net_def, subst tcp_recv_loop.simps) simp
  show ?thesis using A(1) B(1) C f(3) by simp
qed


section \<open>The name of the repository\<close>

text \<open>A character that is no digit stops the octet without being passed, so the loop counts it four times.\<close>

lemma octetos_letra:
  "char_at p 0 \<noteq> 0 \<Longrightarrow> \<not> algarismo (char_at p 0) \<Longrightarrow> char_at p 0 \<noteq> ponto \<Longrightarrow> octetos k p 0 = (k, 0)"
proof (induction k)
  case (Suc k)
  then have "takeWhile algarismo p = []" "dropWhile algarismo p = p" by (cases p; simp add: char_at_def)+
  then show ?case using Suc by simp
qed simp

lemma cstr_dropWhile_algarismo: "cstr (dropWhile algarismo p) = dropWhile algarismo (cstr p)"
  by (induction p) (auto simp: cstr_def algarismo_def)

lemma resto_nome: "c \<in> set xs \<Longrightarrow> \<not> P c \<Longrightarrow> c \<in> set (dropWhile P xs)"
  by (induction xs) auto

lemma octetos_nome: "c \<in> set (cstr p) \<Longrightarrow> \<not> algarismo c \<Longrightarrow> c \<noteq> ponto \<Longrightarrow> fst (octetos k p ip) = k"
proof (induction k arbitrary: p ip)
  case (Suc k)
  let ?p = "dropWhile algarismo p"
  have c: "c \<in> set (cstr ?p)" using Suc.prems by (simp add: cstr_dropWhile_algarismo resto_nome)
  have "c \<in> set (cstr (if char_at ?p 0 = ponto then tl ?p else ?p))"
    using c Suc.prems(3) cstr_step [of ?p] by (auto simp: ponto_def)
  from Suc.IH [OF this Suc.prems(2,3)] have "fst (octetos k (if char_at ?p 0 = ponto then tl ?p else ?p) i) = k" for i .
  moreover have "char_at p 0 \<noteq> 0" using Suc.prems(1) cstr_stop by fastforce
  ultimately show ?case by (simp add: Let_def split_beta)
qed simp

text \<open>C38: a repository with a name.  When the repository was set to a name (its first character, not zero, is no digit, period or
  colon), neither searching nor downloading ever asks the network: the name is read as an address with four empty
  octets, the search says it could not be resolved and both fail, whatever the network and its DNS server would answer.\<close>

theorem repo_nome_falha:
  assumes "s = pkg_remote_set_repo nome s0" "char_at nome 0 \<notin> {0, ponto, 58}" "\<not> algarismo (char_at nome 0)"
    "rtl8139_ready (r_net s0)" "length (repo_host s0) = 32"
  shows "pkg_remote_search poll query s = Some (- 1, avisa (bytes ''spk search: nao foi possivel resolver o repositorio'') s) \<and>
    pkg_remote_download poll pkg_name s = Some (- 1, s) \<and> r_net s = r_net s0"
proof -
  define h where "h = take 31 (takeWhile (\<lambda>c. c \<noteq> 0 \<and> c \<noteq> 58) nome)"
  have h: "h \<noteq> []" "hd h = char_at nome 0" using assms(2) by (cases nome; simp add: h_def char_at_def)+
  have r: "repo_host s = (splice (repo_host s0) 0 h)[length h := 0]" "r_net s = r_net s0"
    unfolding assms(1) by (simp_all add: pkg_remote_set_repo_def Let_def h_def)
  have "char_at (repo_host s) 0 = char_at nome 0"
    using h unfolding r(1) by (cases h) (auto simp: char_at_def splice_def)
  then have "octetos 4 (repo_host s) 0 = (4, 0)" using assms(2,3) octetos_letra [of "repo_host s" 4] by simp
  then have "resolve_host poll s = Some (0, s)" by (simp add: resolve_host_def)
  moreover have "rtl8139_ready (r_net s)" using assms(4) r(2) by simp
  ultimately show ?thesis using r(2) by (simp add: pkg_remote_search_def pkg_remote_download_def del: bytes_Cons)
qed

theorem repo_nome_falha_witness:
  "fst (the (pkg_remote_search (eth_poll_n 1) None (pkg_remote_set_repo (bytes ''repo.spaceos.org:80'') remoto_exemplo))) = - 1"
proof -
  let ?s = "pkg_remote_set_repo (bytes ''repo.spaceos.org:80'') remoto_exemplo"
  have c: "char_at (bytes ''repo.spaceos.org:80'') 0 = 114" by (simp add: char_at_def)
  have "rtl8139_ready (r_net remoto_exemplo)" "length (repo_host remoto_exemplo) = 32"
    by (simp_all add: rtl8139_ready_def remoto_exemplo_def net_exemplo_def)
  then have "pkg_remote_search (eth_poll_n 1) None ?s = Some (- 1, avisa (bytes ''spk search: nao foi possivel resolver o repositorio'') ?s)"
    using repo_nome_falha [OF refl, of "bytes ''repo.spaceos.org:80''" remoto_exemplo "eth_poll_n 1" None "[]"] c
    by (simp add: algarismo_def ponto_def del: bytes_Cons)
  then show ?thesis by simp
qed

section \<open>Names of eight bytes\<close>

text \<open>The path is built in a static array and its end searched from the bytes the call before left: with a name of eight bytes
  or more the suffix is added again at each call.\<close>

theorem caminho_repete:
  assumes "length b = n" "length pre + 16 < n" "is_cstr pre" "is_cstr nome" "8 \<le> length nome" "is_cstr suf" "length suf = 4"
    "cstr (drop (length pre + 8) b) = t" "length pre + 13 + length t \<le> n"
  shows "cstr (caminho b pre nome suf) = pre @ take 8 nome @ t @ suf"
proof -
  define b1 where "b1 = splice (splice b 0 (strn pre (length pre + 1))) (length pre) (strn nome 8)"
  have s1: "strn pre (Suc (length pre)) = pre @ [0]" "strn nome 8 = take 8 nome" "strn suf 5 = suf @ [0]"
    using assms by (simp_all add: strn_def)
  have b1: "b1 = pre @ take 8 nome @ drop (length pre + 8) b"
    using assms by (simp add: b1_def s1 splice_def add.commute)
  have c1: "cstr b1 = pre @ take 8 nome @ t" unfolding b1 using assms by (simp add: cstr_append)
  have k: "k_strlen b1 = length pre + 8 + length t" using assms by (simp add: k_strlen_eq c1)
  have "take (length (cstr x)) x = cstr x" for x :: "u8 list" unfolding cstr_def by (rule takeWhile_eq_take [symmetric])
  from this [of b1] have "take (k_strlen b1) b1 = pre @ take 8 nome @ t" by (simp only: k_strlen_eq c1)
  then have "caminho b pre nome suf = (pre @ take 8 nome @ t @ suf) @ 0 # drop (k_strlen b1 + 5) b1"
    unfolding caminho_def Let_def b1_def [symmetric] s1(3) by (simp add: splice_def assms(7))
  moreover have "is_cstr (pre @ take 8 nome @ t @ suf)" using assms by (auto simp: is_cstr_cstr)
  ultimately show ?thesis by (simp only: cstr_append_0)
qed

text \<open>Two downloads of \<open>spaceedit\<close>: the second asks for a file that does not exist.\<close>

theorem download_sufixo_duplo:
  "cstr (caminho (caminho (replicate 64 0) (bytes ''/packages/'') (bytes ''spaceedit'') (bytes ''.spk''))
     (bytes ''/packages/'') (bytes ''spaceedit'') (bytes ''.spk'')) = bytes ''/packages/spaceedi.spk.spk''"
proof -
  have "caminho (replicate 64 0) (bytes ''/packages/'') (bytes ''spaceedit'') (bytes ''.spk'') =
      bytes ''/packages/spaceedi.spk'' @ replicate 42 0" by code_simp
  moreover have "cstr (drop 18 (bytes ''/packages/spaceedi.spk'' @ replicate 42 0)) = bytes ''.spk''" by code_simp
  ultimately show ?thesis
    using caminho_repete [of "bytes ''/packages/spaceedi.spk'' @ replicate 42 0" 64 "bytes ''/packages/''" "bytes ''spaceedit''" "bytes ''.spk''" "bytes ''.spk''"]
    by (simp add: length_bytes)
qed

end
