(* ===== verification/Nucleo.thy ===== *)
theory Nucleo
  imports Remoto Auditoria Slab SpaceFS Cpu Usb Placas
begin

text \<open>
  The whole kernel as the shell and the system calls see it: \<^verbatim>\<open>kernel/cpu/syscall.c\<close> and the commands of
  \<^verbatim>\<open>kernel/shell/comandos.c\<close> that test and report on the other parts.  The components keep their own states;
  what they share in the machine, the heap, the page allocator, the file system and the disk controller, is kept once
  and handed to each of them for the length of a call.  The messages \<^verbatim>\<open>pkg_install\<close> and \<^verbatim>\<open>pkg_remove\<close> print are left out, as in
  \<open>Pkg\<close>.  The keys \<open>teclado_ultimo_char\<close> returns at its successive calls are \<open>n_teclas\<close>.
\<close>

section \<open>The machine\<close>

record 'h nucleo =
  n_rem :: remoto
  n_pmm :: pmm
  n_slab :: slab_sis
  n_proc :: sis_proc
  n_sfs :: sfs
  n_audit :: audit
  n_secboot :: secboot
  n_pci :: pci
  n_dma :: dma
  n_ahci :: ahci
  n_usb :: usb
  n_wifi :: wifi
  n_teclas :: "nat \<Rightarrow> u8"
  n_mundo :: "'h mundo"
  n_portas :: "(u16 \<times> u16) list"
  spfs_cat_buf :: "u8 list"
  spfs_wr_buf :: "u8 list"

type_synonym 'h ms = "'h nucleo \<times> shell"

definition tela :: "(shell \<Rightarrow> shell) \<Rightarrow> 'h ms \<Rightarrow> 'h ms" where "tela f ms = (fst ms, f (snd ms))"
definition linha :: "u8 list \<Rightarrow> 'h ms \<Rightarrow> 'h ms" where "linha t ms = tela (shell_writeln t) ms"

text \<open>The calls of each component.\<close>

definition no_rem :: "(remoto \<Rightarrow> ('r \<times> remoto) option) \<Rightarrow> 'h ms \<Rightarrow> ('r \<times> 'h ms) option" where
  "no_rem f ms = map_option (\<lambda>(r, t). (r, (fst ms)\<lparr>n_rem := t\<rparr>, r_tela t)) (f ((n_rem (fst ms))\<lparr>r_tela := snd ms\<rparr>))"

definition com_pkg :: "(pkg \<Rightarrow> ('r \<times> pkg) option) \<Rightarrow> 'h ms \<Rightarrow> ('r \<times> 'h ms) option" where
  "com_pkg f ms = map_option (\<lambda>(r, p). (r, (fst ms)\<lparr>n_rem := (n_rem (fst ms))\<lparr>r_pkg := p\<rparr>\<rparr>, snd ms)) (f (r_pkg (n_rem (fst ms))))"

definition com_net :: "(net \<Rightarrow> ('r \<times> net) option) \<Rightarrow> 'h ms \<Rightarrow> ('r \<times> 'h ms) option" where
  "com_net f ms = map_option (\<lambda>(r, n). (r, (fst ms)\<lparr>n_rem := (n_rem (fst ms))\<lparr>r_net := n\<rparr>\<rparr>, snd ms)) (f (r_net (n_rem (fst ms))))"

definition com_heap :: "(kheap \<Rightarrow> ('r \<times> kheap) option) \<Rightarrow> 'h ms \<Rightarrow> ('r \<times> 'h ms) option" where
  "com_heap f = com_pkg (\<lambda>p. map_option (\<lambda>(r, h). (r, pkg.p_heap_update (\<lambda>_. h) p)) (f (pkg.p_heap p)))"

definition com_proc :: "(sis_proc \<Rightarrow> ('r \<times> sis_proc) option) \<Rightarrow> 'h ms \<Rightarrow> ('r \<times> 'h ms) option" where
  "com_proc f ms =
     com_heap (\<lambda>h. map_option (\<lambda>(r, s). ((r, s), sis_proc.p_heap s)) (f (sis_proc.p_heap_update (\<lambda>_. h) (n_proc (fst ms))))) ms \<bind>
     (\<lambda>((r, s), m, t). Some (r, m\<lparr>n_proc := s\<rparr>, t))"

definition com_slab :: "(slab_sis \<Rightarrow> ('r \<times> slab_sis) option) \<Rightarrow> 'h ms \<Rightarrow> ('r \<times> 'h ms) option" where
  "com_slab f ms =
     com_heap (\<lambda>h. map_option (\<lambda>(r, s). ((r, s), sl_heap s)) (f ((n_slab (fst ms))\<lparr>sl_heap := h, sl_pmm := n_pmm (fst ms)\<rparr>))) ms \<bind>
     (\<lambda>((r, s), m, t). Some (r, m\<lparr>n_slab := s, n_pmm := sl_pmm s\<rparr>, t))"

text \<open>SpaceFS uses the controller of the FAT32 drive.\<close>

definition com_sfs :: "(sfs \<Rightarrow> ('r \<times> sfs) option) \<Rightarrow> 'h ms \<Rightarrow> ('r \<times> 'h ms) option" where
  "com_sfs f ms =
     com_pkg (\<lambda>p. let v = p_vfs p in
       map_option (\<lambda>(r, s). ((r, s), p\<lparr>p_vfs := v\<lparr>v_fat := (v_fat v)\<lparr>f_ata := j_ata s\<rparr>\<rparr>\<rparr>)) (f ((n_sfs (fst ms))\<lparr>j_ata := f_ata (v_fat v)\<rparr>))) ms \<bind>
     (\<lambda>((r, s), m, t). Some (r, m\<lparr>n_sfs := s\<rparr>, t))"

text \<open>Bytes of memory nobody wrote.\<close>

definition resto_mem :: "'h ms \<Rightarrow> u8 list \<times> 'h ms" where
  "resto_mem ms = (let (b, p) = Pkg.lixo (r_pkg (n_rem (fst ms))) in (b, (fst ms)\<lparr>n_rem := (n_rem (fst ms))\<lparr>r_pkg := p\<rparr>\<rparr>, snd ms))"

definition ram_de :: "'h ms \<Rightarrow> u32 \<Rightarrow> u8" where "ram_de ms = ram (n_proc (fst ms))"

definition grava32 :: "u32 \<Rightarrow> u32 \<Rightarrow> 'h ms \<Rightarrow> 'h ms" where
  "grava32 a v ms = ((fst ms)\<lparr>n_proc := (n_proc (fst ms))\<lparr>ram := escrever32 a v (ram_de ms)\<rparr>\<rparr>, snd ms)"

text \<open>A number with what is before and after it; a byte and a word in hexadecimal.\<close>

definition campo :: "u8 list \<Rightarrow> u32 \<Rightarrow> u8 list \<Rightarrow> shell \<Rightarrow> shell" where
  "campo a n d s = shell_writeln [] (shell_write d (shell_write_num n (shell_write a s)))"

definition dig_hex :: "u8 \<Rightarrow> u8" where "dig_hex v = bytes ''0123456789ABCDEF'' ! unat (v AND 0xF)"

definition write_hex8 :: "u8 \<Rightarrow> shell \<Rightarrow> shell" where
  "write_hex8 v s = shell_write_char (dig_hex v) (shell_write_char (dig_hex (drop_bit 4 v)) s)"

definition write_hex16 :: "u16 \<Rightarrow> shell \<Rightarrow> shell" where
  "write_hex16 v s = write_hex8 (ucast (v AND 0xFF)) (write_hex8 (ucast (drop_bit 8 v)) s)"

definition traco :: "u8 list" where "traco = [0xE2, 0x80, 0x94]"

text \<open>\<open>while (1) { }\<close>.\<close>

partial_function (option) para_sempre :: "'a \<Rightarrow> 'b option" where "para_sempre x = para_sempre x"

section \<open>Memory and processes\<close>

partial_function (option) tecla_loop :: "'h ms \<Rightarrow> 'h ms option" where
  "tecla_loop ms =
     (let c = n_teclas (fst ms) 0; ms = ((fst ms)\<lparr>n_teclas := \<lambda>i. n_teclas (fst ms) (Suc i)\<rparr>, snd ms) in
      if c = 0 then tecla_loop ms
      else
        let ms = tela (\<lambda>s. shell_writeln (bytes ''0x'' @ [dig_hex (drop_bit 4 c), dig_hex c]) (shell_write (bytes ''char='') s)) ms
        in if c = 27 then Some ms else tecla_loop ms)"

definition cmd_tecla :: "u8 list list \<Rightarrow> 'h ms \<Rightarrow> 'h ms option" where
  "cmd_tecla av ms = tecla_loop (linha (bytes ''Pressione uma tecla (ESC para sair):'') ms)"

definition mem_relato :: "u32 \<Rightarrow> u32 \<Rightarrow> shell \<Rightarrow> shell" where
  "mem_relato tot liv s =
     (let usadas = tot - liv;
          s = shell_writeln [] (shell_writeln (bytes ''=== Memoria do SpaceOS ==='') s);
          s = campo (bytes ''Paginas totais : '') tot [] s;
          s = campo (bytes ''Paginas livres : '') liv [] s;
          s = campo (bytes ''Paginas usadas : '') usadas [] s;
          s = shell_writeln [] s;
          s = campo (bytes ''RAM total  : '') (tot * 4) (bytes '' KB'') s;
          s = campo (bytes ''RAM livre  : '') (liv * 4) (bytes '' KB'') s;
          s = campo (bytes ''RAM usada  : '') (usadas * 4) (bytes '' KB'') s
      in shell_write (bytes ''Teste alloc: '') (shell_writeln [] s))"

definition cmd_mem :: "u8 list list \<Rightarrow> 'h ms \<Rightarrow> 'h ms option" where
  "cmd_mem av ms =
     (let (m, s) = ms; s = mem_relato (pmm_total (n_pmm m)) (pmm_livres (n_pmm m)) s;
          (p1, q) = pmm_alloc (n_pmm m); (p2, q) = pmm_alloc q; (p3, q) = pmm_alloc q in
      if p1 \<noteq> 0 \<and> p2 \<noteq> 0 \<and> p3 \<noteq> 0 then
        let s = shell_writeln (bytes '' OK'') (shell_write (hex8 p1) (shell_write (bytes ''alocou 3 paginas: 0x'') s));
            q = pmm_free p3 (pmm_free p2 (pmm_free p1 q))
        in Some (m\<lparr>n_pmm := q\<rparr>, shell_writeln (bytes ''Liberou 3 paginas: OK'') s)
      else Some (m\<lparr>n_pmm := q\<rparr>, shell_writeln (bytes ''ERRO '' @ traco @ bytes '' pmm_alloc retornou 0'') s))"

definition cmd_paging :: "u8 list list \<Rightarrow> 'h ms \<Rightarrow> 'h ms option" where
  "cmd_paging av ms =
     (let ms = linha [] (linha (bytes ''=== Teste de Paging ==='') ms);
          ms = grava32 0x00200000 0xDEADBEEF ms;
          ms = linha (if ler32 (ram_de ms) 0x00200000 = 0xDEADBEEF then bytes ''Teste 1: escrita/leitura virtual OK'' else bytes ''Teste 1: ERRO'') ms;
          ms = linha [] (linha (bytes ''Teste 2: kernel rodando com paging ativo OK'') ms);
          ms = tela (shell_write (bytes ''MMU ativa '' @ traco @ bytes '' traducao de enderecos funcionando'')) ms
      in Some (linha [] ms))"

definition cmd_heap :: "u8 list list \<Rightarrow> 'h ms \<Rightarrow> 'h ms option" where
  "cmd_heap av ms =
     do {
       let ms = linha [] (linha (bytes ''=== Teste kmalloc/kfree ==='') ms);
       (a, ms) \<leftarrow> com_heap (kmalloc 32) ms;
       (b, ms) \<leftarrow> com_heap (kmalloc 64) ms;
       (c, ms) \<leftarrow> com_heap (kmalloc 128) ms;
       if \<not> (a \<noteq> 0 \<and> b \<noteq> 0 \<and> c \<noteq> 0) then Some (linha (bytes ''ERRO '' @ traco @ bytes '' kmalloc retornou NULL'') ms)
       else do {
         let ms = tela (fold shell_writeln [bytes ''kmalloc(32)  OK'', bytes ''kmalloc(64)  OK'', bytes ''kmalloc(128) OK'']) ms;
         let ms = grava32 c 0xCCCC (grava32 b 0xBBBB (grava32 a 0xAAAA ms));
         if \<not> (ler32 (ram_de ms) a = 0xAAAA \<and> ler32 (ram_de ms) b = 0xBBBB \<and> ler32 (ram_de ms) c = 0xCCCC) then
           Some (linha (bytes ''ERRO '' @ traco @ bytes '' dados corrompidos'') ms)
         else do {
           let ms = linha (bytes ''Escrita/leitura nos blocos OK'') ms;
           (_, ms) \<leftarrow> com_heap (\<lambda>h. map_option (Pair ()) (kfree b h)) ms;
           (d, ms) \<leftarrow> com_heap (kmalloc 64) ms;
           if d = 0 then Some (linha (bytes ''ERRO '' @ traco @ bytes '' kfree nao liberou corretamente'') ms)
           else do {
             let ms = tela (fold shell_writeln [bytes ''kfree + realloc OK'', [], bytes ''kmalloc/kfree funcionando!'']) ms;
             (_, ms) \<leftarrow> com_heap (\<lambda>h. map_option (Pair ()) (kfree a h)) ms;
             (_, ms) \<leftarrow> com_heap (\<lambda>h. map_option (Pair ()) (kfree c h)) ms;
             (_, ms) \<leftarrow> com_heap (\<lambda>h. map_option (Pair ()) (kfree d h)) ms;
             Some ms } } } }"

partial_function (option) slab_info_loop :: "(u32 \<Rightarrow> slab_cache) \<Rightarrow> u32 \<Rightarrow> shell \<Rightarrow> shell option" where
  "slab_info_loop m c s =
     (if c = 0 then Some s
      else slab_info_loop m (prox (m c))
        (shell_writeln (bytes '' objs/slab'') (shell_write_num (objs_por_slab (m c))
          (shell_write (bytes ''B '' @ traco @ bytes '' '') (shell_write_num (obj_size (m c)) (shell_write (bytes ''  Cache '') s))))))"

definition slab_info :: "slab_sis \<Rightarrow> shell \<Rightarrow> shell option" where
  "slab_info l s = slab_info_loop (cachem l) (caches l) (shell_writeln (bytes ''=== Slab caches ativas ==='') s)"

definition cmd_slab :: "u8 list list \<Rightarrow> 'h ms \<Rightarrow> 'h ms option" where
  "cmd_slab av ms =
     do {
       s \<leftarrow> slab_info (n_slab (fst ms)) (snd ms);
       let ms = linha (bytes ''Teste slab_alloc/free (32B):'') (linha [] (fst ms, s));
       let k = cache_32 (n_slab (fst ms));
       (a, ms) \<leftarrow> com_slab (slab_alloc k) ms;
       (b, ms) \<leftarrow> com_slab (slab_alloc k) ms;
       (c, ms) \<leftarrow> com_slab (slab_alloc k) ms;
       if a \<noteq> 0 \<and> b \<noteq> 0 \<and> c \<noteq> 0 then do {
         let ms = grava32 c 0xCCCC (grava32 b 0xBBBB (grava32 a 0xAAAA ms));
         let ms = linha (if ler32 (ram_de ms) a = 0xAAAA \<and> ler32 (ram_de ms) b = 0xBBBB \<and> ler32 (ram_de ms) c = 0xCCCC
             then bytes ''  alloc + escrita OK'' else bytes ''  ERRO na escrita'') ms;
         (_, ms) \<leftarrow> com_slab (\<lambda>l. Some ((), slab_free k c (slab_free k b (slab_free k a l)))) ms;
         let ms = linha (bytes ''  free OK'') ms;
         (d, ms) \<leftarrow> com_slab (slab_alloc k) ms;
         let ms = linha (if d \<noteq> 0 then bytes ''  realloc OK'' else bytes ''  ERRO no realloc'') ms;
         (_, ms) \<leftarrow> com_slab (\<lambda>l. Some ((), if d \<noteq> 0 then slab_free k d l else l)) ms;
         Some ms }
       else Some (linha (bytes ''  ERRO '' @ traco @ bytes '' slab_alloc retornou null'') ms) }"

partial_function (option) proc_lista :: "(u32 \<Rightarrow> processo) \<Rightarrow> u32 \<Rightarrow> shell \<Rightarrow> shell option" where
  "proc_lista m p s =
     (if p = 0 then Some s
      else
        let s = shell_write (bytes '' | '') (shell_write_num (pid (m p)) (shell_write (bytes ''  PID '') s));
            s = shell_write (bytes '' | estado: '') (shell_write (nome (m p)) s)
        in proc_lista m (p_proximo (m p)) (shell_writeln [] (shell_write_num (ucast (estado (m p))) s)))"

definition cmd_proc :: "u8 list list \<Rightarrow> 'h ms \<Rightarrow> 'h ms option" where
  "cmd_proc av ms =
     (let P = n_proc (fst ms); ms = linha (bytes ''=== Processos ==='') ms;
          ms = linha [] (tela (campo (bytes ''Ticks desde boot: '') (ticks P) []) ms)
      in map_option (Pair (fst ms)) (proc_lista (procs P) (fila_pronto P) (snd ms)))"

definition cmd_fork :: "u8 list list \<Rightarrow> 'h ms \<Rightarrow> 'h ms option" where
  "cmd_fork av ms =
     do {
       let P = n_proc (fst ms);
       let atual = proc_atual_ptr P;
       let A = procs P atual;
       let ms = linha [] (linha (bytes ''=== Teste fork + identidade ==='') ms);
       let ms = (if atual \<noteq> 0 then
           linha [] (tela (\<lambda>s. campo (bytes ''Tick nascimento: '') (id_tick (p_id A)) []
             (shell_writeln [] (shell_write (hex8 (id_hash (p_id A))) (shell_write (bytes ''Hash identidade: 0x'')
               (campo (bytes ''PID atual: '') (pid A) [] s))))) ms)
         else ms);
       let ms = linha (bytes ''Chamando fork()...'') ms;
       let ms = (if atual \<noteq> 0 \<and> p_stack A = 0 then linha (bytes ''fork: processo kernel nao pode fazer fork'') ms else ms);
       (filho, ms) \<leftarrow> com_proc proc_fork ms;
       Some (if sint filho > 0 then
           linha (bytes ''fork + identidade OK!'') (tela (campo (bytes ''PAI: filho criado com PID '') filho []) ms)
         else linha (bytes ''ERRO: fork falhou'') ms) }"

section \<open>The disk, the processor, the devices\<close>

definition hex2 :: "u8 \<Rightarrow> u8 list" where "hex2 v = [dig_hex (drop_bit 4 v), dig_hex v]"

definition cmd_disco :: "u8 list list \<Rightarrow> 'h ms \<Rightarrow> 'h ms option" where
  "cmd_disco av ms =
     do {
       let ms = linha [] (linha (bytes ''=== Teste driver ATA ==='') ms);
       (buf, ms) \<leftarrow> com_heap (kmalloc 512) ms;
       if buf = 0 then Some (linha (bytes ''ERRO: sem memoria'') ms)
       else do {
         let (b, ms) = resto_mem ms;
         ((r, b), ms) \<leftarrow> com_pkg (\<lambda>p. let v = p_vfs p; (r, b, a) = ata_ler 0 1 b (f_ata (v_fat v))
             in Some ((r, b), p\<lparr>p_vfs := v\<lparr>v_fat := (v_fat v)\<lparr>f_ata := a\<rparr>\<rparr>\<rparr>)) ms;
         let ms = (if r = 0 then
             let ms = linha (bytes ''Leitura setor 0: OK'') ms;
                 ms = linha (if b ! 510 = 0x55 \<and> b ! 511 = 0xAA then bytes ''Assinatura MBR: 0x55AA encontrada!'' else bytes ''Assinatura MBR: nao encontrada'') ms
             in linha [] (tela (fold (\<lambda>i s. shell_write_char branco (shell_write (hex2 (b ! i)) s)) [0..<16]) (tela (shell_write (bytes ''Primeiros bytes: '')) ms))
           else linha (bytes ''(normal no QEMU sem disco configurado)'') (linha (bytes ''Leitura setor 0: ERRO ou sem disco'') ms));
         (_, ms) \<leftarrow> com_heap (\<lambda>h. map_option (Pair ()) (kfree buf h)) ms;
         Some ms } }"

text \<open>The pulse on the keyboard controller; the loop after it does not end.\<close>

definition reboot_pulso :: "'h ms \<Rightarrow> 'h ms" where
  "reboot_pulso ms = (let (m, s) = linha (bytes ''Reiniciando SpaceOS...'') ms in (m\<lparr>n_portas := n_portas m @ [(0x64, 0xFE)]\<rparr>, s))"

definition cmd_reboot :: "u8 list list \<Rightarrow> 'h ms \<Rightarrow> 'h ms option" where "cmd_reboot av ms = para_sempre (reboot_pulso ms)"

definition pci_linha :: "pci_device \<Rightarrow> shell \<Rightarrow> shell" where
  "pci_linha d s =
     (let s = shell_write (bytes '':'') (write_hex8 (pd_bus d) (shell_write (bytes ''  '') s));
          s = shell_write (bytes ''  '') (write_hex8 (pd_function d) (shell_write (bytes '':'') (write_hex8 (pd_device d) s)));
          s = shell_write (bytes ''  '') (write_hex16 (device_id d) (shell_write (bytes '':'') (write_hex16 (vendor_id d) s)));
          s = shell_write (bytes ''  IRQ'') (write_hex8 (sub_class d) (shell_write (bytes '':'') (write_hex8 (class_code d) s)))
      in shell_writeln [] (shell_write_num (ucast (interrupt_line d)) s))"

definition pci_dump :: "pci \<Rightarrow> shell \<Rightarrow> shell" where
  "pci_dump p s =
     (let s = fold shell_writeln [bytes ''=== Dispositivos PCI ==='', [], bytes ''Bus:Dev:Fn  Vendor:Device  Class:Sub  IRQ''] s;
          s = fold (\<lambda>i. pci_linha (pci_devices p ! i)) [0..<pci_count p] s
      in shell_writeln (bytes '' dispositivo(s)'') (shell_write_num (of_nat (pci_count p)) (shell_write (bytes ''Total: '') (shell_writeln [] s))))"

definition cmd_pci :: "u8 list list \<Rightarrow> 'h ms \<Rightarrow> 'h ms option" where "cmd_pci av ms = Some (tela (pci_dump (n_pci (fst ms))) ms)"

definition acpi_desliga :: "'h ms \<Rightarrow> 'h ms option" where
  "acpi_desliga ms = para_sempre ((fst ms)\<lparr>n_portas := n_portas (fst ms) @ acpi_shutdown\<rparr>, snd ms)"

definition cmd_shutdown :: "u8 list list \<Rightarrow> 'h ms \<Rightarrow> 'h ms option" where
  "cmd_shutdown av ms =
     do { ms \<leftarrow> acpi_desliga (linha (bytes ''Desligando o sistema...'') ms); Some (linha (bytes ''AVISO: shutdown nao suportado neste hardware.'') ms) }"

definition cmd_audit :: "u8 list list \<Rightarrow> 'h ms \<Rightarrow> 'h ms option" where
  "cmd_audit av ms =
     (let n = (if length av \<ge> 2 then sint (num_arg (av ! 1)) else 20); (m, s) = linha (bytes ''=== Audit Log ==='') ms;
          R = n_rem m; P = r_pkg R in
      map_option (\<lambda>(a, s). (m\<lparr>n_audit := a, n_rem := R\<lparr>r_pkg := P\<lparr>p_vfs := a_vfs a\<rparr>\<rparr>\<rparr>, s)) (audit_dump n ((n_audit m)\<lparr>a_vfs := p_vfs P\<rparr>, s)))"

definition cmd_ahci :: "'h disp \<Rightarrow> u8 list list \<Rightarrow> 'h ms \<Rightarrow> 'h ms option" where
  "cmd_ahci D av ms = (let (s, w) = ahci_info D (n_ahci (fst ms)) (snd ms, n_mundo (fst ms)) in Some ((fst ms)\<lparr>n_mundo := w\<rparr>, s))"

definition cmd_dma :: "u8 list list \<Rightarrow> 'h ms \<Rightarrow> 'h ms option" where
  "cmd_dma av ms =
     (let ms = linha (bytes ''=== Bus Master IDE DMA ==='') ms in
      if \<not> dma_disponivel (n_dma (fst ms)) then Some (linha (bytes ''DMA: controlador nao detectado'') ms)
      else Some (tela (fold shell_writeln
        [bytes ''DMA: controlador Bus Master IDE ativo'', bytes ''  Suporte: ATA DMA read (0xC8) / write (0xCA)'',
         bytes ''  PRDT: 2 entradas estaticas em .bss'', bytes ''  Buffer: 8 KB alinhado a pagina'']) ms))"

definition relato_hid :: "u8 list \<Rightarrow> shell \<Rightarrow> shell" where
  "relato_hid b s =
     shell_writeln [] (fold (\<lambda>i s. let s = write_hex8 (b ! i) s in if i < 7 then shell_write_char branco s else s) [0..<8]
       (shell_write (bytes ''  HID report: '') s))"

definition cmd_usb :: "'h disp \<Rightarrow> usb_lug \<Rightarrow> u8 list list \<Rightarrow> 'h ms \<Rightarrow> 'h ms option" where
  "cmd_usb D l av ms =
     (let ms = linha (bytes ''=== USB EHCI ==='') ms; U = n_usb (fst ms); n = usb_device_count U in
      if n = 0 then
        Some (linha (bytes ''  (requer EHCI no QEMU '' @ traco @ bytes '' use -device usb-ehci,id=ehci)'') (linha (bytes ''USB: nenhum dispositivo detectado'') ms))
      else
        let ms = linha (bytes '' dispositivo(s) enumerado(s)'') (tela (\<lambda>s. shell_write_num (of_nat n) (shell_write (bytes ''USB: '') s)) ms);
            (b, ms) = resto_mem ms; (r, b, w) = usb_hid_poll D l U 1 1 b 8 (n_mundo (fst ms)); ms = ((fst ms)\<lparr>n_mundo := w\<rparr>, snd ms)
        in Some (if r = 0 then tela (relato_hid b) ms else ms))"

definition cmd_wifi :: "u8 list list \<Rightarrow> 'h ms \<Rightarrow> 'h ms option" where "cmd_wifi av ms = Some (tela (wifi_info (n_wifi (fst ms))) ms)"

definition cmd_secboot :: "u8 list list \<Rightarrow> 'h ms \<Rightarrow> 'h ms option" where
  "cmd_secboot av ms = (let (b, s) = secboot_status (n_secboot (fst ms), snd ms) in Some ((fst ms)\<lparr>n_secboot := b\<rparr>, s))"

section \<open>The network\<close>

definition print_ip :: "u32 \<Rightarrow> shell \<Rightarrow> shell" where
  "print_ip ip s =
     (let s = shell_write_char ponto (shell_write_num (drop_bit 24 ip AND 0xFF) s);
          s = shell_write_char ponto (shell_write_num (drop_bit 16 ip AND 0xFF) s);
          s = shell_write_char ponto (shell_write_num (drop_bit 8 ip AND 0xFF) s)
      in shell_write_num (ip AND 0xFF) s)"

definition campo_ip :: "u8 list \<Rightarrow> u32 \<Rightarrow> shell \<Rightarrow> shell" where
  "campo_ip t ip s = shell_writeln [] (print_ip ip (shell_write t s))"

definition rede_de :: "'h ms \<Rightarrow> net" where "rede_de ms = r_net (n_rem (fst ms))"

definition net_init :: "(net \<Rightarrow> (int \<times> net) option) \<Rightarrow> 'h ms \<Rightarrow> 'h ms option" where
  "net_init poll ms =
     (if \<not> rtl8139_ready (rede_de ms) then Some (linha (bytes ''net: sem placa de rede'') ms)
      else do {
        (r, ms) \<leftarrow> com_net (dhcp_init poll) (linha (bytes ''Obtendo IP via DHCP...'') ms);
        let N = rede_de ms;
        Some (if r = 0 then
            tela (\<lambda>s. campo_ip (bytes ''DNS:     '') (net_dns_ip N) (campo_ip (bytes ''Mascara: '') (net_netmask N)
              (campo_ip (bytes ''Gateway: '') (net_gateway_ip N) (campo_ip (bytes ''IP:      '') (net_our_ip N) s)))) ms
          else linha (bytes ''DHCP: timeout '' @ traco @ bytes '' sem resposta do servidor'') ms) })"

definition net_dns :: "(net \<Rightarrow> (int \<times> net) option) \<Rightarrow> u8 list \<Rightarrow> 'h ms \<Rightarrow> 'h ms option" where
  "net_dns poll nm ms =
     do {
       (r, ms) \<leftarrow> com_net (dns_resolve poll nm) (linha nm (tela (shell_write (bytes ''Resolvendo: '')) ms));
       Some (case r of Some ip \<Rightarrow> tela (campo_ip (bytes ''  -> '') ip) ms | None \<Rightarrow> linha (bytes ''  -> timeout ou sem resposta'') ms) }"

definition net_status :: "net \<Rightarrow> shell \<Rightarrow> shell" where
  "net_status N s =
     (let s = shell_writeln [] (shell_writeln (bytes ''=== Status de Rede ==='') s) in
      if \<not> rtl8139_ready N then
        shell_writeln (bytes ''Execute QEMU com: -device rtl8139,netdev=net0 -netdev user,id=net0'') (shell_writeln (bytes ''Placa RTL8139: nao detectada'') s)
      else
        let s = shell_write (bytes ''MAC: '') (shell_writeln (bytes ''Placa RTL8139: OK'') s);
            s = fold (\<lambda>i s. let s = write_hex8 (rtl8139_get_mac N ! i) s in if i < 5 then shell_write_char 58 s else s) [0..<6] s;
            s = shell_writeln [] s;
            s = (if net_our_ip N \<noteq> 0 then
                campo_ip (bytes ''DNS:     '') (net_dns_ip N) (campo_ip (bytes ''Gateway: '') (net_gateway_ip N) (campo_ip (bytes ''IP:      '') (net_our_ip N) s))
              else shell_writeln (bytes ''IP: nao configurado (use 'net init')'') s);
            s = shell_write_num (of_int (netbuf_livres N)) (shell_write (bytes ''Buffers livres: '') s)
        in shell_writeln [] (shell_write_num (of_nat NETBUF_COUNT) (shell_write (bytes ''/'') s)))"

definition igual :: "u8 list list \<Rightarrow> nat \<Rightarrow> u8 list \<Rightarrow> bool" where "igual av i t = (k_strcmp (av ! i) t = 0)"

definition cmd_net :: "(net \<Rightarrow> (int \<times> net) option) \<Rightarrow> u8 list list \<Rightarrow> 'h ms \<Rightarrow> 'h ms option" where
  "cmd_net poll av ms =
     (if length av \<ge> 2 \<and> igual av 1 (bytes ''init'') then net_init poll ms
      else if length av \<ge> 3 \<and> igual av 1 (bytes ''dns'') then net_dns poll (av ! 2) ms
      else Some (tela (net_status (rede_de ms)) ms))"

section \<open>Packages\<close>

definition pkg_linha :: "u8 list \<times> u8 list \<Rightarrow> shell \<Rightarrow> shell" where
  "pkg_linha e s = shell_writeln [] (shell_write (snd e) (preenche (fst e) 10 (shell_write (fst e) (shell_write (bytes ''  '') s))))"

definition pkg_list_tela :: "'h ms \<Rightarrow> 'h ms option" where
  "pkg_list_tela ms =
     do {
       (n, ms) \<leftarrow> com_pkg db_ler ms;
       if n = 0 then Some (linha (bytes ''Nenhum pacote instalado.'') ms)
       else
         let L = db_linhas (db_buf (r_pkg (n_rem (fst ms)))); ms = linha [] (linha (bytes ''Pacotes instalados:'') ms);
             ms = linha [] (tela (fold pkg_linha L) ms)
         in Some (linha (bytes '' pacote(s)'') (tela (\<lambda>s. shell_write_num (of_nat (length L)) (shell_write (bytes ''Total: '') s)) ms)) }"

definition pkg_info_tela :: "u8 list \<Rightarrow> 'h ms \<Rightarrow> 'h ms option" where
  "pkg_info_tela name ms =
     do {
       (r, ms) \<leftarrow> com_pkg (pkg_info name) ms;
       Some (case r of
         None \<Rightarrow> linha (bytes '': nao instalado'') (tela (shell_write name) ms)
       | Some (nm, versao, paths) \<Rightarrow>
           let ms = linha nm (tela (shell_write (bytes ''Nome:    '')) ms);
               ms = linha versao (tela (shell_write (bytes ''Versao:  '')) ms)
           in if paths = [] then ms
              else tela (fold (\<lambda>p s. shell_writeln p (shell_write (bytes ''  '') s)) paths) (linha (bytes ''Arquivos:'') ms)) }"

definition spk_uso :: "u8 list list" where
  "spk_uso =
     [bytes ''uso: spk <install|remove|list|info|search> [args]'', bytes ''  spk install <arquivo.spk>'', bytes ''  spk remove  <nome>'',
      bytes ''  spk list'', bytes ''  spk info    <nome>'', bytes ''  spk search  (requer rede '' @ traco @ bytes '' v0.8)'']"

definition cmd_spk :: "(net \<Rightarrow> (int \<times> net) option) \<Rightarrow> u8 list list \<Rightarrow> 'h ms \<Rightarrow> 'h ms option" where
  "cmd_spk poll av ms =
     (let argc = length av in
      if argc < 2 then Some (tela (fold shell_writeln spk_uso) ms)
      else if igual av 1 (bytes ''install'') then
        if argc < 3 then Some (linha (bytes ''uso: spk install <arquivo.spk>'') ms) else map_option snd (com_pkg (pkg_install (av ! 2)) ms)
      else if igual av 1 (bytes ''remove'') then
        if argc < 3 then Some (linha (bytes ''uso: spk remove <nome>'') ms) else map_option snd (com_pkg (pkg_remove (av ! 2)) ms)
      else if igual av 1 (bytes ''list'') then pkg_list_tela ms
      else if igual av 1 (bytes ''info'') then
        if argc < 3 then Some (linha (bytes ''uso: spk info <nome>'') ms) else pkg_info_tela (av ! 2) ms
      else if igual av 1 (bytes ''search'') then
        map_option snd (no_rem (pkg_remote_search poll (Some (if argc \<ge> 3 then av ! 2 else []))) ms)
      else if igual av 1 (bytes ''download'') then
        if argc < 3 then Some (linha (bytes ''uso: spk download <nome>'') ms)
        else do {
          (r, ms) \<leftarrow> no_rem (pkg_remote_download poll (av ! 2)) ms;
          Some (if r = 0 then linha (bytes ''use 'spk install' para instalar'') ms else ms) }
      else
        Some (linha (bytes ''use 'spk' sem argumentos para ver os subcomandos'')
          (linha (av ! 1) (tela (shell_write (bytes ''spk: subcomando desconhecido: '')) ms))))"

section \<open>SpaceFS\<close>

definition spfs_info :: "sfs \<Rightarrow> shell \<Rightarrow> shell" where
  "spfs_info v s =
     (if \<not> sfs_ok v then shell_writeln (bytes ''  use 'spfs fmt' para formatar o disco2'') (shell_writeln (bytes ''SpaceFS: nao montado'') s)
      else
        let s = shell_write (bytes ''Magic:        0x'') (shell_writeln (bytes ''=== SpaceFS ==='') s);
            s = campo (bytes ''Versao:       '') (ss_version (sb v)) [] (shell_writeln (hex8 (ss_magic (sb v))) s);
            s = campo (bytes ''Blocos total: '') (ss_total (sb v)) [] s;
            s = campo (bytes ''Blocos livres:'') (ss_free (sb v)) [] s;
            s = campo (bytes ''Inodes total: '') (ss_inodes (sb v)) [] s;
            s = campo (bytes ''Inodes livres:'') (ss_free_inodes (sb v)) [] s
        in campo (bytes ''Data start:   setor '') (ss_data (sb v)) [] s)"

text \<open>What \<^verbatim>\<open>spfs_ls\<close> prints, from the state before the call.\<close>

definition ls_tela :: "sfs_inode \<Rightarrow> u8 list \<Rightarrow> sfs \<Rightarrow> shell \<Rightarrow> shell" where
  "ls_tela child dir v s =
     (if \<not> sfs_ok v then shell_writeln (bytes ''SpaceFS: nao montado'') s
      else
        let raiz = \<not> (k_strlen dir > 0 \<and> \<not> (char_at dir 0 = barra \<and> char_at dir 1 = 0));
            (achou, v') = (if raiz then (Some (0, 0), v) else path_find dir v) in
        case achou of
          None \<Rightarrow> shell_writeln (bytes ''SpaceFS: caminho nao encontrado'') s
        | Some (i, _) \<Rightarrow>
            let (r, x, _) = inode_read i inode_zero v' in
            if r \<noteq> 0 then s
            else if in_type x \<noteq> 2 then shell_writeln (bytes ''SpaceFS: nao e diretorio'') s
            else
              let (_, L, _) = spfs_ls child (Some dir) v;
                  s = fold (\<lambda>(d, nm) s. shell_writeln [] (shell_write nm (shell_write (if d then bytes ''[D] '' else bytes ''    '') s))) L s
              in if L = [] then shell_writeln (bytes ''(vazio)'') s else s)"

definition inode_lixo :: "'h ms \<Rightarrow> sfs_inode \<times> 'h ms" where
  "inode_lixo ms = (let (b, ms) = resto_mem ms in (inode_of (take 64 b), ms))"

text \<open>The text of \<open>spfs write\<close>: the arguments from \<open>argv[2]\<close> on.\<close>

fun spfs_texto :: "bool \<Rightarrow> u8 list list \<Rightarrow> u8 list \<Rightarrow> u8 list" where
  "spfs_texto pri [] t = t"
| "spfs_texto pri (a # av) t =
     (if \<not> length t < 510 then t
      else let t = (if pri then t else t @ [branco]) in spfs_texto False av (t @ take (510 - length t) (cstr a)))"

definition spfs_uso :: "u8 list list" where
  "spfs_uso =
     map bytes [''uso: spfs <fmt|ls|cat|write|info|mkdir|rm> [args]'', ''  spfs fmt          formata disco2 com SpaceFS'',
       ''  spfs ls [dir]     lista arquivos'', ''  spfs cat <arq>    mostra conteudo'', ''  spfs write <arq> <texto>  escreve texto'',
       ''  spfs mkdir <dir>  cria diretorio'', ''  spfs rm <arq>     apaga arquivo'', ''  spfs info         info do superbloco'']"

definition agora_de :: "'h ms \<Rightarrow> u32" where "agora_de ms = ticks (n_proc (fst ms))"

definition spfs_fmt_cmd :: "'h ms \<Rightarrow> 'h ms option" where
  "spfs_fmt_cmd ms =
     (let (b, ms) = resto_mem (linha (bytes ''Formatando disco2 com SpaceFS...'') ms) in do {
        (r, ms) \<leftarrow> com_sfs (Some \<circ> spfs_format (take 448 b)) ms;
        if r = 0 then map_option snd (com_sfs spfs_mount (linha (bytes ''SpaceFS formatado com sucesso'') ms))
        else Some (linha (bytes ''Erro ao formatar (sem disco2?)'') ms) })"

definition spfs_ls_cmd :: "u8 list \<Rightarrow> 'h ms \<Rightarrow> 'h ms option" where
  "spfs_ls_cmd dir ms =
     (let (child, ms) = inode_lixo ms in do {
        (s, ms) \<leftarrow> com_sfs (\<lambda>v. Some (ls_tela child dir v (snd ms), snd (snd (spfs_ls child (Some dir) v)))) ms;
        Some (fst ms, s) })"

definition spfs_cat_cmd :: "u8 list \<Rightarrow> 'h ms \<Rightarrow> 'h ms option" where
  "spfs_cat_cmd nm ms =
     do {
       ((n, b), ms) \<leftarrow> com_sfs (\<lambda>v. let (n, b, v) = spfs_read nm (spfs_cat_buf (fst ms)) (4096 - 1) v in Some ((n, b), v)) ms;
       let ms = ((fst ms)\<lparr>spfs_cat_buf := b\<rparr>, snd ms);
       if n < 0 then Some (linha nm (tela (shell_write (bytes ''spfs cat: erro ao ler: '')) ms))
       else
         let ms = ((fst ms)\<lparr>spfs_cat_buf := b[nat n := 0]\<rparr>, snd ms)
         in Some (linha [] (tela (mostra_texto (take (nat n) b)) ms)) }"

definition spfs_write_cmd :: "u8 list list \<Rightarrow> 'h ms \<Rightarrow> 'h ms option" where
  "spfs_write_cmd av ms =
     (let t = spfs_texto True (drop 2 av) [] @ [nl]; b = splice (spfs_wr_buf (fst ms)) 0 t; ms = ((fst ms)\<lparr>spfs_wr_buf := b\<rparr>, snd ms);
          (ex, ms) = inode_lixo ms; (nin, ms) = inode_lixo ms in do {
        (r, ms) \<leftarrow> com_sfs (spfs_write (agora_de ms) ex nin (av ! 2) b (of_nat (length t))) ms;
        Some (linha (if r = 0 then bytes ''escrito'' else bytes ''spfs write: erro'') ms) })"

definition cmd_spfs :: "u8 list list \<Rightarrow> 'h ms \<Rightarrow> 'h ms option" where
  "cmd_spfs av ms =
     (let argc = length av in
      if argc < 2 then Some (tela (fold shell_writeln spfs_uso) ms)
      else if igual av 1 (bytes ''fmt'') then spfs_fmt_cmd ms
      else if igual av 1 (bytes ''info'') then Some (tela (spfs_info (n_sfs (fst ms))) ms)
      else if igual av 1 (bytes ''ls'') then
        spfs_ls_cmd (if argc \<ge> 3 then av ! 2 else bytes ''/'') ms
      else if igual av 1 (bytes ''cat'') then
        if argc < 3 then Some (linha (bytes ''uso: spfs cat <arquivo>'') ms) else spfs_cat_cmd (av ! 2) ms
      else if igual av 1 (bytes ''write'') then
        if argc < 4 then Some (linha (bytes ''uso: spfs write <arquivo> <texto>'') ms) else spfs_write_cmd av ms
      else if igual av 1 (bytes ''mkdir'') then
        if argc < 3 then Some (linha (bytes ''uso: spfs mkdir <dir>'') ms)
        else do {
          (r, ms) \<leftarrow> com_sfs (spfs_mkdir (agora_de ms) (av ! 2)) ms;
          Some (linha (if r = 0 then bytes ''diretorio criado'' else bytes ''spfs mkdir: erro'') ms) }
      else if igual av 1 (bytes ''rm'') then
        if argc < 3 then Some (linha (bytes ''uso: spfs rm <arquivo>'') ms)
        else do {
          (r, ms) \<leftarrow> com_sfs (spfs_unlink (av ! 2)) ms;
          Some (linha (if r = 0 then bytes ''apagado'' else bytes ''spfs rm: erro'') ms) }
      else Some (linha (av ! 1) (tela (shell_write (bytes ''spfs: subcomando desconhecido: '')) ms)))"

section \<open>System calls\<close>

definition SYS_EXIT :: u32 where "SYS_EXIT = 0"
definition SYS_WRITE :: u32 where "SYS_WRITE = 1"
definition SYS_GETPID :: u32 where "SYS_GETPID = 2"
definition SYS_PKG_INSTALL :: u32 where "SYS_PKG_INSTALL = 10"
definition SYS_PKG_REMOVE :: u32 where "SYS_PKG_REMOVE = 11"
definition SYS_PKG_LIST :: u32 where "SYS_PKG_LIST = 12"

fun escreve_mem :: "(u32 \<Rightarrow> u8) \<Rightarrow> u32 \<Rightarrow> nat \<Rightarrow> shell \<Rightarrow> shell" where
  "escreve_mem m p 0 s = s"
| "escreve_mem m p (Suc n) s = (if m p = 0 then s else escreve_mem m (p + 1) n (shell_write_char (m p) s))"

text \<open>The string at an address.\<close>

definition texto_em :: "(u32 \<Rightarrow> u8) \<Rightarrow> u32 \<Rightarrow> u8 list" where
  "texto_em m p = takeWhile (\<lambda>c. c \<noteq> 0) (map (\<lambda>i. m (p + of_nat i)) [0..<2 ^ 32])"

text \<open>The handler, with the values its first three instructions read: what it leaves in EAX, if anything.\<close>

definition syscall_handler :: "u32 \<Rightarrow> u32 \<Rightarrow> u32 \<Rightarrow> 'h ms \<Rightarrow> (u32 option \<times> 'h ms) option" where
  "syscall_handler num ebx ecx ms =
     (let P = n_proc (fst ms) in
      if num = SYS_EXIT then Some (None, (fst ms)\<lparr>n_proc := proc_encerrar P\<rparr>, snd ms)
      else if num = SYS_WRITE then Some (None, if ebx \<noteq> 0 then tela (escreve_mem (ram_de ms) ebx (unat ecx)) ms else ms)
      else if num = SYS_GETPID then Some (Some (if proc_atual_ptr P \<noteq> 0 then pid (procs P (proc_atual_ptr P)) else 0), ms)
      else if num = SYS_PKG_INSTALL then
        if ebx \<noteq> 0 then map_option (\<lambda>(_, ms). (None, ms)) (com_pkg (pkg_install (texto_em (ram_de ms) ebx)) ms) else Some (None, ms)
      else if num = SYS_PKG_REMOVE then
        if ebx \<noteq> 0 then map_option (\<lambda>(_, ms). (None, ms)) (com_pkg (pkg_remove (texto_em (ram_de ms) ebx)) ms) else Some (None, ms)
      else if num = SYS_PKG_LIST then map_option (Pair None) (pkg_list_tela ms)
      else Some (None, tela (campo (bytes ''[syscall] numero desconhecido: '') num []) ms))"

definition syscall_init :: "u32 \<Rightarrow> idt_entry list \<Rightarrow> idt_entry list" where
  "syscall_init handler_asm t = idt_set 0x80 handler_asm 0x08 0xEE t"

text \<open>The interrupt gate: it saves the registers, calls the handler and restores them; the value of EAX after it.\<close>

definition syscall_handler_asm :: "u32 \<Rightarrow> u32 \<Rightarrow> u32 \<Rightarrow> 'h ms \<Rightarrow> (u32 \<times> 'h ms) option" where
  "syscall_handler_asm eax ebx ecx ms = map_option (\<lambda>(_, ms). (eax, ms)) (syscall_handler eax ebx ecx ms)"

text \<open>The registers before the first interrupt are \<open>b\<close> and \<open>c\<close>, \<open>msg\<close> is the address of the text.\<close>

definition cmd_syscall :: "u32 \<Rightarrow> u32 \<Rightarrow> u32 \<Rightarrow> u8 list list \<Rightarrow> 'h ms \<Rightarrow> 'h ms option" where
  "cmd_syscall b c msg av ms =
     do {
       (p, ms) \<leftarrow> syscall_handler_asm 2 b c (linha (bytes ''Testando syscalls:'') ms);
       let ms = tela (campo (bytes ''  SYS_GETPID retornou PID: '') p []) ms;
       (_, ms) \<leftarrow> syscall_handler_asm 1 msg 25 ms;
       Some (linha (bytes ''Syscalls OK!'') ms) }"

section \<open>The table\<close>

definition com_maq :: "(maq \<Rightarrow> maq option) \<Rightarrow> 'h ms \<Rightarrow> 'h ms option" where
  "com_maq f ms = map_option (\<lambda>(p, s). ((fst ms)\<lparr>n_rem := (n_rem (fst ms))\<lparr>r_pkg := p\<rparr>\<rparr>, s)) (f (r_pkg (n_rem (fst ms)), snd ms))"

definition corpo_nucleo ::
  "'h disp \<Rightarrow> usb_lug \<Rightarrow> (net \<Rightarrow> (int \<times> net) option) \<Rightarrow> u32 \<times> u32 \<times> u32 \<Rightarrow> nat \<Rightarrow> u8 list list \<Rightarrow> 'h ms \<Rightarrow> 'h ms option" where
  "corpo_nucleo D l poll r i av ms =
     (if i = 5 then cmd_tecla av ms else if i = 6 then cmd_mem av ms else if i = 7 then cmd_paging av ms
      else if i = 9 then cmd_heap av ms else if i = 10 then cmd_slab av ms else if i = 11 then cmd_proc av ms
      else if i = 12 then cmd_syscall (fst r) (fst (snd r)) (snd (snd r)) av ms else if i = 13 then cmd_reboot av ms
      else if i = 14 then cmd_fork av ms else if i = 15 then cmd_disco av ms else if i = 24 then cmd_spk poll av ms
      else if i = 25 then cmd_pci av ms else if i = 26 then cmd_shutdown av ms else if i = 27 then cmd_net poll av ms
      else if i = 28 then cmd_spfs av ms else if i = 29 then cmd_audit av ms else if i = 30 then cmd_ahci D av ms
      else if i = 31 then cmd_dma av ms else if i = 32 then cmd_usb D l av ms else if i = 33 then cmd_wifi av ms
      else if i = 34 then cmd_secboot av ms else com_maq (corpo (\<lambda>i av ms. None) i av) ms)"

end
