(* ===== verification/Sistema.thy ===== *)
theory Sistema
  imports Nucleo Volume
begin

text \<open>
  The shell over the whole kernel.  Every command of the table, whatever its arguments and whatever the network, the disks and the
  devices answer, only writes on the screen, so the invariant of the shell holds for any keys; what \<open>spfs write\<close> leaves on
  the disk and says on the screen.
\<close>

section \<open>Calls leave the screen alone\<close>

lemma snd_tela [simp]: "snd (tela f ms) = f (snd ms)" "snd (linha t ms) = shell_writeln t (snd ms)" "snd (grava32 a v ms) = snd ms"
  by (simp_all add: tela_def linha_def grava32_def)

lemma quieto_pkg: "com_pkg f ms = Some (r, ms') \<Longrightarrow> snd ms' = snd ms"
  by (auto simp: com_pkg_def)

lemma quieto_net: "com_net f ms = Some (r, ms') \<Longrightarrow> snd ms' = snd ms"
  by (auto simp: com_net_def)

lemma quieto_heap: "com_heap f ms = Some (r, ms') \<Longrightarrow> snd ms' = snd ms"
  unfolding com_heap_def by (rule quieto_pkg)

lemma quieto_proc: "com_proc f ms = Some (r, ms') \<Longrightarrow> snd ms' = snd ms"
  by (auto simp: com_proc_def split: bind_splits dest!: quieto_heap)

lemma quieto_slab: "com_slab f ms = Some (r, ms') \<Longrightarrow> snd ms' = snd ms"
  by (auto simp: com_slab_def split: bind_splits dest!: quieto_heap)

lemma quieto_sfs: "com_sfs f ms = Some (r, ms') \<Longrightarrow> snd ms' = snd ms"
  by (auto simp: com_sfs_def split: bind_splits dest!: quieto_pkg)

lemma quieto_mem: "resto_mem ms = (b, ms') \<Longrightarrow> snd ms' = snd ms" "inode_lixo ms = (x, ms') \<Longrightarrow> snd ms' = snd ms"
  by (auto simp: resto_mem_def inode_lixo_def split: prod.splits)

lemmas quietos = quieto_pkg quieto_net quieto_heap quieto_proc quieto_slab quieto_sfs quieto_mem

lemma escrita_campo [escritas]:
  "escrita s t \<Longrightarrow> escrita s (campo a n d t)" "escrita s t \<Longrightarrow> escrita s (write_hex8 v t)" "escrita s t \<Longrightarrow> escrita s (write_hex16 w t)"
  "escrita s t \<Longrightarrow> escrita s (shell_write_hex h t)"
  by (auto simp: campo_def write_hex8_def write_hex16_def shell_write_hex_def Let_def intro!: escritas escrita_fold)

lemma escrita_ip [escritas]: "escrita s t \<Longrightarrow> escrita s (print_ip ip t)" "escrita s t \<Longrightarrow> escrita s (campo_ip x ip t)"
  by (auto simp: print_ip_def campo_ip_def Let_def intro!: escritas)

lemma escrita_relatos [escritas]:
  "escrita s t \<Longrightarrow> escrita s (mem_relato a b t)" "escrita s t \<Longrightarrow> escrita s (pci_dump p t)" "escrita s t \<Longrightarrow> escrita s (relato_hid u t)"
  "escrita s t \<Longrightarrow> escrita s (net_status N t)" "escrita s t \<Longrightarrow> escrita s (spfs_info v t)" "escrita s t \<Longrightarrow> escrita s (ls_tela c d v t)"
  "escrita s t \<Longrightarrow> escrita s (fold pkg_linha L t)" "escrita s t \<Longrightarrow> escrita s (wifi_info W t)"
proof -
  show "escrita s t \<Longrightarrow> escrita s (mem_relato a b t)"
    by (auto simp: mem_relato_def Let_def simp del: bytes_Cons intro!: escritas)
  have "escrita s t \<Longrightarrow> escrita s (pci_linha d t)" for d t by (auto simp: pci_linha_def Let_def simp del: bytes_Cons intro!: escritas)
  then show "escrita s t \<Longrightarrow> escrita s (pci_dump p t)"
    unfolding pci_dump_def Let_def by (intro escritas escrita_fold)
  show "escrita s t \<Longrightarrow> escrita s (relato_hid u t)"
    unfolding relato_hid_def Let_def by (intro escritas escrita_fold) (auto intro!: escritas simp del: bytes_Cons)
  show "escrita s t \<Longrightarrow> escrita s (net_status N t)"
    by (auto simp: net_status_def Let_def simp del: bytes_Cons upt_Suc intro!: escritas escrita_fold)
  show "escrita s t \<Longrightarrow> escrita s (spfs_info v t)"
    by (auto simp: spfs_info_def Let_def simp del: bytes_Cons intro!: escritas)
  show "escrita s t \<Longrightarrow> escrita s (ls_tela c d v t)"
    by (auto simp: ls_tela_def Let_def simp del: bytes_Cons split: option.splits prod.splits intro!: escritas escrita_fold)
  show "escrita s t \<Longrightarrow> escrita s (fold pkg_linha L t)"
    by (rule escrita_fold) (auto simp: pkg_linha_def simp del: bytes_Cons intro!: escritas)
  show "escrita s t \<Longrightarrow> escrita s (wifi_info W t)"
    by (auto simp: wifi_info_def Let_def simp del: bytes_Cons split: option.splits intro!: escritas)
qed

section \<open>The remote repository\<close>

lemma http_loop_tela:
  assumes "http_loop poll sock mx h tot out s = Some y"
  shows "r_tela (snd (snd y)) = r_tela s"
proof (rule http_loop.raw_induct [where P = "\<lambda>poll sock mx h tot out s y. r_tela (snd (snd y)) = r_tela s", OF _ assms], goal_cases)
  case (1 loop poll sock mx h tot out s y)
  show ?case using 1(2) by (auto split: if_splits bind_splits option.splits simp: Let_def dest!: 1(1))
qed

lemma http_get_tela: "http_get poll sock path out mx s = Some (r, s') \<Longrightarrow> r_tela s' = r_tela s"
  by (auto simp: http_get_def Let_def na_rede_def split: bind_splits dest!: http_loop_tela)

lemma remoto_tela:
  "na_rede f s = Some (r, s') \<Longrightarrow> r_tela s' = r_tela s" "no_pkg g s = Some (q, s') \<Longrightarrow> r_tela s' = r_tela s"
  "fecha poll sock s = Some s' \<Longrightarrow> r_tela s' = r_tela s"
  by (auto simp: na_rede_def no_pkg_def fecha_def)

lemma resolve_tela: "resolve_host poll s = Some (r, s') \<Longrightarrow> r_tela s' = r_tela s"
  by (auto simp: resolve_host_def split: if_splits bind_splits prod.splits dest!: remoto_tela)

lemma r_tela_fala [simp]: "r_tela (fala f s) = f (r_tela s)" "r_tela (avisa t s) = shell_writeln t (r_tela s)"
  by (simp_all add: fala_def avisa_def)

lemmas remotos = http_get_tela remoto_tela resolve_tela

lemma search_escreve: "pkg_remote_search poll q s = Some (r, s') \<Longrightarrow> escrita (r_tela s) (r_tela s')"
  unfolding pkg_remote_search_def Let_def
  by (auto split: if_splits bind_splits dest!: remotos intro!: escritas escrita_fold simp: mostra_linha_def simp del: bytes_Cons)

lemma download_escreve: "pkg_remote_download poll q s = Some (r, s') \<Longrightarrow> escrita (r_tela s) (r_tela s')"
  unfolding pkg_remote_download_def Let_def
  by (auto split: if_splits bind_splits dest!: remotos intro!: escritas simp del: bytes_Cons)

lemma rem_escreve:
  "(\<And>s r s'. f s = Some (r, s') \<Longrightarrow> escrita (r_tela s) (r_tela s')) \<Longrightarrow> no_rem f ms = Some (q, ms') \<Longrightarrow> escrita (snd ms) (snd ms')"
  by (force simp: no_rem_def)

lemma no_rem_escreve:
  "no_rem (pkg_remote_search poll q) ms = Some (r, ms') \<Longrightarrow> escrita (snd ms) (snd ms')"
  "no_rem (pkg_remote_download poll n) ms = Some (r, ms') \<Longrightarrow> escrita (snd ms) (snd ms')"
  by (erule rem_escreve [rotated], erule search_escreve) (erule rem_escreve [rotated], erule download_escreve)

section \<open>The loops\<close>

lemma escrita_trans: "escrita s t \<Longrightarrow> escrita t u \<Longrightarrow> escrita s u" by (auto simp: escrita_def)

lemma para_sempre_volta: "para_sempre x = None"
proof -
  have "para_sempre x = Some y \<Longrightarrow> False" for y :: 'a
    by (rule para_sempre.raw_induct [where P = "\<lambda>x y. False"]) auto
  then show ?thesis by (metis option.exhaust)
qed

lemma tecla_loop_escreve:
  assumes "tecla_loop ms = Some ms'"
  shows "escrita (snd ms) (snd ms')"
proof (rule tecla_loop.raw_induct [where P = "\<lambda>ms ms'. escrita (snd ms) (snd ms')", OF _ assms], goal_cases)
  case (1 loop ms ms')
  show ?case using 1(2)
    by (auto simp: Let_def simp del: bytes_Cons split: if_splits dest!: 1(1) intro!: escritas elim!: escrita_trans [rotated])
qed

lemma slab_info_escreve:
  assumes "slab_info_loop m c s = Some s'"
  shows "escrita s s'"
proof (rule slab_info_loop.raw_induct [where P = "\<lambda>m c s s'. escrita s s'", OF _ assms], goal_cases)
  case (1 loop m c s s')
  show ?case
  proof (cases "c = 0")
    case False
    let ?u = "shell_writeln (bytes '' objs/slab'') (shell_write_num (objs_por_slab (m c))
      (shell_write (bytes ''B '' @ traco @ bytes '' '') (shell_write_num (obj_size (m c)) (shell_write (bytes ''  Cache '') s))))"
    have "escrita ?u s'" using 1(2) False by (auto dest!: 1(1))
    moreover have "escrita s ?u" by (intro escritas escrita_refl)
    ultimately show ?thesis by (auto simp: escrita_def)
  qed (use 1(2) in simp)
qed

lemma proc_lista_escreve:
  assumes "proc_lista m c s = Some s'"
  shows "escrita s s'"
proof (rule proc_lista.raw_induct [where P = "\<lambda>m c s s'. escrita s s'", OF _ assms], goal_cases)
  case (1 loop m c s s')
  show ?case
  proof (cases "c = 0")
    case False
    let ?u = "shell_writeln [] (shell_write_num (ucast (estado (m c))) (shell_write (bytes '' | estado: '') (shell_write (nome (m c))
      (shell_write (bytes '' | '') (shell_write_num (pid (m c)) (shell_write (bytes ''  PID '') s))))))"
    have "escrita ?u s'" using 1(2) False by (auto simp: Let_def dest!: 1(1))
    moreover have "escrita s ?u" by (intro escritas escrita_refl)
    ultimately show ?thesis by (auto simp: escrita_def)
  qed (use 1(2) in simp)
qed

lemma slab_info_total_escreve: "slab_info l s = Some s' \<Longrightarrow> escrita s s'"
  unfolding slab_info_def by (drule slab_info_escreve, erule escrita_trans [rotated]) (intro escritas escrita_refl)

section \<open>The commands\<close>

lemma cmd_memoria_escreve:
  "cmd_tecla av ms = Some ms' \<Longrightarrow> escrita (snd ms) (snd ms')" "cmd_mem av ms = Some ms' \<Longrightarrow> escrita (snd ms) (snd ms')"
  "cmd_paging av ms = Some ms' \<Longrightarrow> escrita (snd ms) (snd ms')"
proof -
  show "cmd_tecla av ms = Some ms' \<Longrightarrow> escrita (snd ms) (snd ms')"
    unfolding cmd_tecla_def by (drule tecla_loop_escreve) (auto simp: escrita_def shell_write_ok)
  show "cmd_mem av ms = Some ms' \<Longrightarrow> escrita (snd ms) (snd ms')"
    by (cases ms) (auto simp: cmd_mem_def Let_def simp del: bytes_Cons split: if_splits prod.splits intro!: escritas)
  show "cmd_paging av ms = Some ms' \<Longrightarrow> escrita (snd ms) (snd ms')"
    by (auto simp: cmd_paging_def Let_def simp del: bytes_Cons intro!: escritas)
qed

lemma cmd_heap_escreve: "cmd_heap av ms = Some ms' \<Longrightarrow> escrita (snd ms) (snd ms')"
  unfolding cmd_heap_def Let_def
  by (auto split: if_splits bind_splits dest!: quieto_heap intro!: escritas simp del: bytes_Cons fold.simps)

lemma cmd_slab_escreve: "cmd_slab av ms = Some ms' \<Longrightarrow> escrita (snd ms) (snd ms')"
  unfolding cmd_slab_def Let_def
  by (auto split: if_splits bind_splits dest!: quieto_slab slab_info_total_escreve intro!: escritas simp del: bytes_Cons)

lemma cmd_processos_escreve:
  "cmd_proc av ms = Some ms' \<Longrightarrow> escrita (snd ms) (snd ms')" "cmd_fork av ms = Some ms' \<Longrightarrow> escrita (snd ms) (snd ms')"
proof -
  show "cmd_proc av ms = Some ms' \<Longrightarrow> escrita (snd ms) (snd ms')"
    unfolding cmd_proc_def Let_def
    by (auto dest!: proc_lista_escreve elim!: escrita_trans [rotated] intro!: escritas simp del: bytes_Cons)
  show "cmd_fork av ms = Some ms' \<Longrightarrow> escrita (snd ms) (snd ms')"
    unfolding cmd_fork_def Let_def
    by (auto split: if_splits bind_splits dest!: quieto_proc intro!: escritas simp del: bytes_Cons)
qed

lemma cmd_disco_escreve: "cmd_disco av ms = Some ms' \<Longrightarrow> escrita (snd ms) (snd ms')"
  unfolding cmd_disco_def Let_def
  by (auto split: if_splits bind_splits prod.splits dest!: quietos intro!: escritas escrita_fold simp del: bytes_Cons)

lemma cmd_hw_escreve:
  "cmd_reboot av ms = Some ms' \<Longrightarrow> escrita (snd ms) (snd ms')" "cmd_pci av ms = Some ms' \<Longrightarrow> escrita (snd ms) (snd ms')"
  "cmd_shutdown av ms = Some ms' \<Longrightarrow> escrita (snd ms) (snd ms')" "cmd_dma av ms = Some ms' \<Longrightarrow> escrita (snd ms) (snd ms')"
  "cmd_wifi av ms = Some ms' \<Longrightarrow> escrita (snd ms) (snd ms')" "cmd_secboot av ms = Some ms' \<Longrightarrow> escrita (snd ms) (snd ms')"
  by (auto simp: cmd_reboot_def cmd_pci_def cmd_shutdown_def acpi_desliga_def para_sempre_volta cmd_dma_def cmd_wifi_def
      cmd_secboot_def secboot_status_def Let_def split: if_splits intro!: escritas simp del: bytes_Cons)

lemma cmd_ahci_escreve: "cmd_ahci D av ms = Some ms' \<Longrightarrow> escrita (snd ms) (snd ms')"
  by (auto simp: cmd_ahci_def ahci_info_def Let_def split: if_splits prod.splits intro!: escritas simp del: bytes_Cons)

lemma cmd_audit_escreve: "cmd_audit av ms = Some ms' \<Longrightarrow> escrita (snd ms) (snd ms')"
  by (auto simp: cmd_audit_def audit_dump_def linha_def tela_def Let_def split: if_splits prod.splits bind_splits
      intro!: escritas escrita_fold simp del: bytes_Cons)

lemma cmd_usb_escreve: "cmd_usb D l av ms = Some ms' \<Longrightarrow> escrita (snd ms) (snd ms')"
  by (auto simp: cmd_usb_def Let_def split: if_splits prod.splits dest!: quietos intro!: escritas simp del: bytes_Cons)

lemma cmd_net_escreve: "cmd_net poll av ms = Some ms' \<Longrightarrow> escrita (snd ms) (snd ms')"
  by (auto simp: cmd_net_def net_init_def net_dns_def Let_def split: if_splits prod.splits bind_splits option.splits
      dest!: quietos intro!: escritas simp del: bytes_Cons)

lemma pkg_tela_escreve:
  "pkg_list_tela ms = Some ms' \<Longrightarrow> escrita (snd ms) (snd ms')" "pkg_info_tela nm ms = Some ms' \<Longrightarrow> escrita (snd ms) (snd ms')"
proof -
  show "pkg_list_tela ms = Some ms' \<Longrightarrow> escrita (snd ms) (snd ms')"
    unfolding pkg_list_tela_def Let_def
    by (auto split: if_splits bind_splits dest!: quietos intro!: escritas simp del: bytes_Cons)
  show "pkg_info_tela nm ms = Some ms' \<Longrightarrow> escrita (snd ms) (snd ms')"
    unfolding pkg_info_tela_def Let_def
    by (auto split: if_splits bind_splits option.splits prod.splits dest!: quietos intro!: escritas escrita_fold simp del: bytes_Cons)
qed

lemma cmd_spk_escreve: "cmd_spk poll av ms = Some ms' \<Longrightarrow> escrita (snd ms) (snd ms')"
  unfolding cmd_spk_def Let_def
  by (auto split: if_splits bind_splits dest!: quietos intro!: escritas
      dest!: pkg_tela_escreve no_rem_escreve simp del: bytes_Cons)

lemma cmd_spfs_partes_escreve:
  "spfs_fmt_cmd ms = Some ms' \<Longrightarrow> escrita (snd ms) (snd ms')" "spfs_cat_cmd nm ms = Some ms' \<Longrightarrow> escrita (snd ms) (snd ms')"
  "spfs_write_cmd av ms = Some ms' \<Longrightarrow> escrita (snd ms) (snd ms')"
proof -
  show "spfs_fmt_cmd ms = Some ms' \<Longrightarrow> escrita (snd ms) (snd ms')"
    unfolding spfs_fmt_cmd_def Let_def
    by (auto split: if_splits bind_splits prod.splits dest!: quietos intro!: escritas simp del: bytes_Cons)
  show "spfs_cat_cmd nm ms = Some ms' \<Longrightarrow> escrita (snd ms) (snd ms')"
    unfolding spfs_cat_cmd_def Let_def
    by (auto split: if_splits bind_splits prod.splits dest!: quietos intro!: escritas simp del: bytes_Cons)
  show "spfs_write_cmd av ms = Some ms' \<Longrightarrow> escrita (snd ms) (snd ms')"
    unfolding spfs_write_cmd_def Let_def
    by (auto split: if_splits bind_splits prod.splits dest!: quietos intro!: escritas simp del: bytes_Cons)
qed

lemma quieto_ls:
  "com_sfs (\<lambda>v. Some (ls_tela c d v (snd ms), f v)) ms = Some (s, ms') \<Longrightarrow> escrita (snd ms) s"
  unfolding com_sfs_def com_pkg_def Let_def by (auto split: bind_splits intro!: escritas)

lemma spfs_ls_escreve: "spfs_ls_cmd dir ms = Some ms' \<Longrightarrow> escrita (snd ms) (snd ms')"
  unfolding spfs_ls_cmd_def
  by (auto split: bind_splits prod.splits dest!: quieto_ls quieto_mem)

lemma cmd_spfs_escreve: "cmd_spfs av ms = Some ms' \<Longrightarrow> escrita (snd ms) (snd ms')"
  unfolding cmd_spfs_def Let_def
  by (auto split: if_splits bind_splits dest!: cmd_spfs_partes_escreve spfs_ls_escreve quieto_sfs intro!: escritas simp del: bytes_Cons)

lemma syscall_escreve: "syscall_handler num b c ms = Some (r, ms') \<Longrightarrow> escrita (snd ms) (snd ms')"
proof -
  have m: "escrita s t \<Longrightarrow> escrita s (escreve_mem f p n t)" for s t f p n
    by (induction n arbitrary: p t) (simp_all add: escrita_passo(3))
  show "syscall_handler num b c ms = Some (r, ms') \<Longrightarrow> escrita (snd ms) (snd ms')"
    unfolding syscall_handler_def Let_def
    by (auto split: if_splits dest!: quietos pkg_tela_escreve intro!: escritas m simp del: bytes_Cons)
qed

lemma cmd_syscall_escreve: "cmd_syscall b c msg av ms = Some ms' \<Longrightarrow> escrita (snd ms) (snd ms')"
  unfolding cmd_syscall_def syscall_handler_asm_def Let_def
  by (auto split: bind_splits dest!: syscall_escreve elim!: escrita_trans [rotated] intro!: escritas simp del: bytes_Cons)

section \<open>The table\<close>

lemma com_maq_escreve: "com_maq (corpo (\<lambda>i av ms. None) i av) ms = Some ms' \<Longrightarrow> escrita (snd ms) (snd ms')"
  unfolding com_maq_def by (auto dest!: corpo_so_escreve [rotated])

lemmas todos_escrevem = com_maq_escreve cmd_memoria_escreve cmd_heap_escreve cmd_slab_escreve cmd_processos_escreve cmd_disco_escreve
  cmd_hw_escreve cmd_ahci_escreve cmd_audit_escreve cmd_usb_escreve cmd_net_escreve cmd_spk_escreve cmd_spfs_escreve cmd_syscall_escreve

lemma corpo_nucleo_escreve: "corpo_nucleo D l poll r i av ms = Some ms' \<Longrightarrow> escrita (snd ms) (snd ms')"
  unfolding corpo_nucleo_def by (auto split: if_splits intro: todos_escrevem)

interpretation todos: comandos "corpo_nucleo D l poll r" for D l poll r
  by unfold_locales (drule corpo_nucleo_escreve, simp add: escrita_def)

text \<open>C39: the shell of the whole kernel.  With all 35 commands of the table, from any well-formed state of the shell and any state
  of the other parts, whatever the network, the disks and the devices answer, any sequence of keys that returns leaves the shell
  well-formed: the cursor is on the screen, the line and the history fit their buffers and end in them, every argument is a
  terminated word.\<close>

theorem nucleo_shell:
  assumes "shell_ok s" "shell_teclas (corpo_nucleo D l poll r) teclas (m, s) = Some (m', s')"
  shows "shell_ok s'"
  using assms by (rule todos.teclas_ok)

definition nucleo_exemplo :: "unit nucleo" where
  "nucleo_exemplo = \<lparr>n_rem = remoto_exemplo, n_pmm = pmm_exemplo, n_slab = slab_vazio, n_proc = proc_vazio, n_sfs = sfs_exemplo,
     n_audit = \<lparr>last_hash = 0, a_buf = replicate 4096 0, a_vfs = p_vfs pkg_exemplo\<rparr>,
     n_secboot = \<lparr>sb_verified = False, measured_hash = 0, hash_buf = replicate 32 0, sb_vfs = p_vfs pkg_exemplo\<rparr>,
     n_pci = \<lparr>pci_devices = [], pci_count = 0\<rparr>, n_dma = \<lparr>bm_base = 0xC000, dma_ok = True\<rparr>, n_ahci = ahci_exemplo,
     n_usb = \<lparr>ehci_mmio = 0, op_base = 0, n_ports = 0, ehci_ok = False, n_devs = 0\<rparr>, n_wifi = \<lparr>found_chip = None, wifi_ok = False\<rparr>,
     n_teclas = \<lambda>_. 27, n_mundo = (\<lambda>_. 0, ()), n_portas = [], spfs_cat_buf = replicate 4096 0, spfs_wr_buf = replicate 512 0\<rparr>"

text \<open>The line \<open>dma\<close>.\<close>

theorem nucleo_shell_witness:
  "\<exists>s'. shell_teclas (corpo_nucleo disp_exemplo \<lparr>l_head = 0, l_qh = 0, l_qtds = 0, l_xfer = 0\<rparr> (eth_poll_n 1) (0, 0, 0)) (bytes ''dma'' @ [10])
     (nucleo_exemplo, shell_exemplo) = Some (nucleo_exemplo, s') \<and> shell_ok s'"
proof -
  let ?c = "corpo_nucleo disp_exemplo \<lparr>l_head = 0, l_qh = 0, l_qtds = 0, l_xfer = 0\<rparr> (eth_poll_n 1) (0, 0, 0)"
  have w: "Shell.palavras (bytes ''dma'') = [bytes ''dma'']" by code_simp
  have t: "(31 :: nat) < length Shell.tabela" "Shell.tabela ! 31 = bytes ''dma''" by code_simp+
  have c: "\<forall>c \<in> set (bytes ''dma''). sint c \<ge> 32" "bytes ''dma'' \<noteq> []" "length (bytes ''dma'') < MAX_INPUT" by (simp_all add: MAX_INPUT_def)
  obtain s2 av where A: "\<forall>i < length Shell.tabela. Shell.palavras (bytes ''dma'') \<noteq> [] \<longrightarrow> hd (Shell.palavras (bytes ''dma'')) = Shell.tabela ! i \<longrightarrow>
        shell_teclas ?c (bytes ''dma'' @ [10]) (nucleo_exemplo, shell_exemplo) =
        map_option (\<lambda>(m, s). (m, shell_depois s)) (?c i av (nucleo_exemplo, s2))"
    using linha_digitada [OF shell_exemplo_ok c(2,3,1), of ?c nucleo_exemplo] by blast
  have s: "shell_teclas ?c (bytes ''dma'' @ [10]) (nucleo_exemplo, shell_exemplo) =
        map_option (\<lambda>(m, s). (m, shell_depois s)) (?c 31 av (nucleo_exemplo, s2))"
    using A t w by (metis list.discI list.sel(1))
  have "\<exists>s3. cmd_dma av (nucleo_exemplo, s2) = Some (nucleo_exemplo, s3)"
    by (cases "dma_disponivel (n_dma nucleo_exemplo)") (simp_all add: cmd_dma_def tela_def linha_def Let_def del: bytes_Cons)
  then obtain s3 where k: "?c 31 av (nucleo_exemplo, s2) = Some (nucleo_exemplo, s3)" by (auto simp: corpo_nucleo_def)
  have "shell_teclas ?c (bytes ''dma'' @ [10]) (nucleo_exemplo, shell_exemplo) = Some (nucleo_exemplo, shell_depois s3)"
    unfolding s k by simp
  moreover from this have "shell_ok (shell_depois s3)" by (rule nucleo_shell [OF shell_exemplo_ok(1)])
  ultimately show ?thesis by blast
qed

section \<open>System calls\<close>

text \<open>The gate restores every register, so the caller of \<open>SYS_GETPID\<close> finds its own number 2 in EAX, whatever the process.\<close>

theorem getpid_perdido:
  assumes "syscall_handler SYS_GETPID b c ms = Some (Some p, ms')"
  shows "syscall_handler_asm SYS_GETPID b c ms = Some (2, ms')"
  using assms by (simp add: syscall_handler_asm_def SYS_GETPID_def)

section \<open>spfs write\<close>

lemma spfs_texto_tamanho: "length t \<le> 510 \<Longrightarrow> length (spfs_texto pri av t) \<le> 510"
  by (induction pri av t rule: spfs_texto.induct) (auto simp: Let_def)

lemma spfs_texto_prefixo: "\<exists>r. spfs_texto pri av t = t @ r"
proof (induction pri av t rule: spfs_texto.induct)
  case (2 pri a av t)
  show ?case
  proof (cases "length t < 510")
    case True
    define u where "u = (if pri then t else t @ [branco])"
    have "\<exists>r. spfs_texto False av (u @ take (510 - length u) (cstr a)) = (u @ take (510 - length u) (cstr a)) @ r"
      using 2 True by (simp add: u_def Let_def)
    then show ?thesis using True by (auto simp: Let_def u_def split: if_splits)
  qed simp
qed simp

lemma grava_blocos_corta:
  "feito \<le> tm \<Longrightarrow> grava_blocos b n x tm feito (take (unat tm) buf) s = grava_blocos b n x tm feito buf s"
proof (induction n arbitrary: b x feito s)
  case (Suc n)
  show ?case
  proof (cases "feito < tm")
    case True
    let ?c = "min (tm - feito) 512"
    have c: "?c \<le> tm - feito" by simp
    have f: "unat (tm - feito) = unat tm - unat feito" using Suc.prems by (simp add: unat_sub)
    have u: "unat feito \<le> unat tm" using Suc.prems by (simp add: word_le_nat_alt)
    have k: "unat ?c \<le> unat tm - unat feito" using c f by (simp add: word_le_nat_alt)
    have "slice (take (unat tm) buf) (unat feito) (unat ?c) = slice buf (unat feito) (unat ?c)"
      using k u by (simp add: slice_def drop_take)
    moreover have "feito + ?c \<le> tm"
    proof -
      have "unat feito + unat ?c \<le> unat tm" using k u by simp
      moreover have "unat tm < 2 ^ 32" using unsigned_less [of tm] by simp
      ultimately have "unat (feito + ?c) = unat feito + unat ?c" by (intro unat_add_lem [THEN iffD1]) simp
      then show ?thesis using \<open>unat feito + unat ?c \<le> unat tm\<close> by (simp add: word_le_nat_alt)
    qed
    ultimately show ?thesis using True by (auto simp: Let_def Suc.IH intro!: Option.bind_cong split: prod.splits)
  qed simp
qed simp

lemma spfs_write_corta: "spfs_write agora ex nin path (take (unat tm) buf) tm s = spfs_write agora ex nin path buf tm s"
  unfolding spfs_write_def grava_blocos_corta [OF word_zero_le] by (rule refl)

lemma spfs_texto_nome:
  assumes "is_cstr (av ! 2)" "length (av ! 2) \<le> 27" "4 \<le> length av"
  shows "\<exists>r. spfs_texto True (drop 2 av) [] = av ! 2 @ branco # r"
proof -
  have dv: "drop 2 av = av ! 2 # av ! 3 # drop 4 av" using assms(3) by (simp add: Cons_nth_drop_Suc numeral_eq_Suc)
  have "spfs_texto True (drop 2 av) [] = spfs_texto False (av ! 3 # drop 4 av) (av ! 2)" unfolding dv using assms by simp
  also have "\<dots> = spfs_texto False (drop 4 av) ((av ! 2 @ [branco]) @ take (510 - length (av ! 2 @ [branco])) (cstr (av ! 3)))"
    using assms by (simp add: Let_def)
  finally show ?thesis
    using spfs_texto_prefixo [of False "drop 4 av" "(av ! 2 @ [branco]) @ take (510 - length (av ! 2 @ [branco])) (cstr (av ! 3))"] by auto
qed

definition volume_de :: "'h nucleo \<Rightarrow> sfs" where
  "volume_de m = (n_sfs m)\<lparr>j_ata := f_ata (v_fat (p_vfs (r_pkg (n_rem m))))\<rparr>"

text \<open>C40: \<open>spfs write\<close> of a new name on a mounted volume with room.  The command writes the file and then reports an error: it takes
  the number of bytes \<open>spfs_write\<close> returns for a status, so the word of success appears only when nothing was written.  The file
  holds the arguments from the name on, so its text starts with its own name.\<close>

theorem spfs_write_diz_erro:
  assumes "raiz (volume_de m) d fs" "nome_ok (av ! 2)" "av ! 2 \<notin> set (map fst fs)" "length fs < 16"
    "4 \<le> length av" "igual av 1 (bytes ''write'')" "length (spfs_wr_buf m) = 512"
  shows "\<exists>m' d' t. cmd_spfs av (m, s) = Some (m', shell_writeln (bytes ''spfs write: erro'') s) \<and>
    raiz (volume_de m') d' (fs @ [(av ! 2, av ! 2 @ branco # t)])"
proof -
  define t where "t = spfs_texto True (drop 2 av) [] @ [nl]"
  define b where "b = splice (spfs_wr_buf m) 0 t"
  have lt: "length t \<le> 511" using spfs_texto_tamanho [of "[]" True "drop 2 av"] by (simp add: t_def)
  then have ut: "unat (of_nat (length t) :: u32) = length t" by (simp add: unsigned_of_nat take_bit_nat_eq_self)
  have tb: "take (unat (of_nat (length t) :: u32)) b = t" unfolding ut b_def by (simp add: take_splice_0)
  have n: "is_cstr (av ! 2)" "length (av ! 2) \<le> 27" using assms(2) by (simp_all add: nome_ok_def is_cstr_def)
  obtain r where "spfs_texto True (drop 2 av) [] = av ! 2 @ branco # r" using spfs_texto_nome [OF n assms(5)] by blast
  then have tt: "t = av ! 2 @ branco # (r @ [nl])" by (simp add: t_def)
  then have tne: "t \<noteq> []" by simp
  have f: "\<not> igual av 1 (bytes ''fmt'')" "\<not> igual av 1 (bytes ''info'')" "\<not> igual av 1 (bytes ''ls'')" "\<not> igual av 1 (bytes ''cat'')"
    using assms(6) by (simp_all add: igual_def k_strcmp_eq_0)
  let ?ms = "(m\<lparr>spfs_wr_buf := b\<rparr>, s)"
  obtain ex ms1 where e1: "inode_lixo ?ms = (ex, ms1)" by (cases "inode_lixo ?ms")
  obtain nin ms2 where e2: "inode_lixo ms1 = (nin, ms2)" by (cases "inode_lixo ms1")
  have v: "volume_de (fst ms2) = volume_de m" "snd ms2 = s" "p_vfs (r_pkg (n_rem (fst ms2))) = p_vfs (r_pkg (n_rem m))"
    "n_sfs (fst ms2) = n_sfs m"
    using e1 e2 by (auto simp: inode_lixo_def resto_mem_def volume_de_def Pkg.lixo_def)
  obtain s' d' where w: "spfs_write (agora_de ms2) ex nin (av ! 2) t (of_nat (length t)) (volume_de m) = Some (int (length t), s')"
      "raiz s' d' (fs @ [(av ! 2, t)])"
    using spfs_write_nova [OF assms(1-4), of t "agora_de ms2" ex nin] lt by auto
  have w2: "spfs_write (agora_de ms2) ex nin (av ! 2) b (of_nat (length t)) (volume_de m) = Some (int (length t), s')"
    using spfs_write_corta [of "agora_de ms2" ex nin "av ! 2" "of_nat (length t)" b "volume_de m"] w(1) tb by simp
  obtain m' where c: "com_sfs (spfs_write (agora_de ms2) ex nin (av ! 2) b (of_nat (length t))) ms2 = Some (int (length t), m', s)" "volume_de m' = s'"
    using w2 v by (auto simp: com_sfs_def com_pkg_def volume_de_def Let_def)
  have "cmd_spfs av (m, s) = spfs_write_cmd av (m, s)" using assms(5,6) f by (simp add: cmd_spfs_def Let_def)
  also have "\<dots> = Some (m', shell_writeln (bytes ''spfs write: erro'') s)"
    using e1 e2 c(1) tne by (simp add: spfs_write_cmd_def Let_def t_def [symmetric] b_def [symmetric] linha_def tela_def del: bytes_Cons)
  finally show ?thesis using w(2) c(2) tt by blast
qed

text \<open>\<open>spfs write log.txt oi\<close> on a volume just formatted.\<close>

theorem spfs_write_diz_erro_witness:
  "\<exists>(m :: unit nucleo) m' d' t. cmd_spfs [bytes ''spfs'', bytes ''write'', bytes ''log.txt'', bytes ''oi''] (m, shell_exemplo) =
       Some (m', shell_writeln (bytes ''spfs write: erro'') shell_exemplo) \<and>
     raiz (volume_de m') d' [(bytes ''log.txt'', bytes ''log.txt'' @ branco # t)]"
proof -
  let ?av = "[bytes ''spfs'', bytes ''write'', bytes ''log.txt'', bytes ''oi'']"
  obtain v d where r: "raiz v d []" using exemplo_vazio by blast
  define V where "V = p_vfs (r_pkg (n_rem nucleo_exemplo))"
  define m where "m = nucleo_exemplo\<lparr>n_sfs := v, n_rem := (n_rem nucleo_exemplo)\<lparr>r_pkg := (r_pkg (n_rem nucleo_exemplo))\<lparr>p_vfs :=
      V\<lparr>v_fat := (v_fat V)\<lparr>f_ata := j_ata v\<rparr>\<rparr>\<rparr>\<rparr>\<rparr>"
  have "volume_de m = v" by (simp add: m_def volume_de_def)
  moreover have "length (spfs_wr_buf m) = 512" by (simp add: m_def nucleo_exemplo_def)
  moreover have "igual ?av 1 (bytes ''write'')" by (simp add: igual_def k_strcmp_eq_0)
  ultimately have "\<exists>m' d' t. cmd_spfs ?av (m, shell_exemplo) = Some (m', shell_writeln (bytes ''spfs write: erro'') shell_exemplo) \<and>
      raiz (volume_de m') d' ([] @ [(?av ! 2, ?av ! 2 @ branco # t)])"
    using spfs_write_diz_erro [of m d "[]" ?av shell_exemplo] r nome_exemplo by simp
  then show ?thesis by auto
qed

end
