(* ===== verification/Inicio.thy ===== *)
theory Inicio
  imports Sistema
begin

text \<open>
  The entry of the kernel (\<^verbatim>\<open>kernel/main.c\<close>): its own screen routines and the order in which \<^verbatim>\<open>kernel_main\<close> starts the parts.
  The hardware, the firmware's tables, the linker's addresses and the gates of \<^verbatim>\<open>boot/entry.asm\<close> are the record \<open>placa\<close>.  Interrupts
  that arrive during the start are left out; \<open>b_sti\<close> tells whether they were enabled.
\<close>

section \<open>The screen of the start\<close>

text \<open>The cells are those of the shell's screen; the second cursor is \<open>b_col\<close>, \<open>b_lin\<close>.  Nothing scrolls: what is written below the
  last line goes to the memory after the visible screen and is not kept.\<close>

record 'h boot =
  b_col :: int
  b_lin :: int
  b_tela :: shell
  b_nuc :: "'h nucleo"
  b_gdt :: "gdt_entry list"
  b_idt :: "idt_entry list"
  b_saida :: "(u16 \<times> u8) list"
  b_sti :: bool
  b_pag :: paging
  b_acpi :: acpi
  b_apic :: apic
  b_smp :: smp
  b_hda :: hda

definition COLOR :: u16 where "COLOR = 0x0F"

definition vga_poe :: "int \<Rightarrow> u8 \<Rightarrow> 'h boot \<Rightarrow> 'h boot" where
  "vga_poe pos c b = b\<lparr>b_tela := (b_tela b)\<lparr>vga := (vga (b_tela b))[nat pos := ucast c OR push_bit 8 COLOR]\<rparr>\<rparr>"

definition clean_screen :: "'h boot \<Rightarrow> 'h boot" where
  "clean_screen b = (fold (\<lambda>i. vga_poe (int i) branco) [0..<80 * 25] b)\<lparr>b_col := 0, b_lin := 0\<rparr>"

definition write_char :: "u8 \<Rightarrow> 'h boot \<Rightarrow> 'h boot" where
  "write_char c b =
     (if c = 8 then
        let b = (if b_col b > 0 then b\<lparr>b_col := b_col b - 1\<rparr>
            else if b_lin b > 0 then b\<lparr>b_lin := b_lin b - 1, b_col := VGA_COLS - 1\<rparr> else b)
        in vga_poe (b_lin b * VGA_COLS + b_col b) branco b
      else if c = 10 then b\<lparr>b_col := 0, b_lin := b_lin b + 1\<rparr>
      else
        let b = vga_poe (b_lin b * VGA_COLS + b_col b) c b; b = b\<lparr>b_col := b_col b + 1\<rparr>
        in if b_col b \<ge> VGA_COLS then b\<lparr>b_col := 0, b_lin := b_lin b + 1\<rparr> else b)"

definition escreve :: "u8 list \<Rightarrow> 'h boot \<Rightarrow> 'h boot" where "escreve t b = fold write_char (cstr t) b"
definition escreve_ln :: "u8 list \<Rightarrow> 'h boot \<Rightarrow> 'h boot" where "escreve_ln t b = write_char 10 (escreve t b)"

section \<open>What the machine brings\<close>

record 'h placa =
  k_disp :: "'h disp"
  k_cfg :: "u32 \<Rightarrow> u32"
  k_mmap :: "u32 \<Rightarrow> mmap_entry"
  k_mb :: multiboot_info
  k_fim :: u32
  k_bitmap :: u32
  k_pd :: u32
  k_pts :: u32
  k_gdt :: u32
  k_idt :: u32
  k_teclado_asm :: u32
  k_fault_asm :: u32
  k_timer_asm :: u32
  k_syscall_asm :: u32
  k_ahci :: ahci_lug
  k_hda :: hda_lug
  k_usb :: usb_lug
  k_usb_desc :: "nat \<Rightarrow> u8 list"
  k_rtl_rx :: u32
  k_imagem :: "u8 list"

text \<open>A step on the machine of the commands with the shell's screen.\<close>

definition no_nuc :: "('h ms \<Rightarrow> ('r \<times> 'h ms) option) \<Rightarrow> 'h boot \<Rightarrow> ('r \<times> 'h boot) option" where
  "no_nuc f b = map_option (\<lambda>(r, m, s). (r, b\<lparr>b_nuc := m, b_tela := s\<rparr>)) (f (b_nuc b, b_tela b))"

definition teclado_init :: "u32 \<Rightarrow> idt_entry list \<Rightarrow> idt_entry list" where
  "teclado_init handler_asm t = idt_set 33 handler_asm 0x08 0x8E t"

section \<open>The start\<close>

text \<open>Tables and interrupt controller, up to the moment interrupts are enabled.\<close>

definition inicio_tabelas :: "'h placa \<Rightarrow> 'h boot \<Rightarrow> 'h boot" where
  "inicio_tabelas P b =
     (let b = clean_screen b;
          b = escreve_ln (bytes ''Teclado: inicializando...'') (escreve_ln (bytes ''================================='') (escreve_ln (bytes ''SpaceOS v0.1 - Bare Metal'') b));
          b = escreve_ln (bytes ''GDT ok'') (b\<lparr>b_gdt := snd (gdt_init (k_gdt P) (b_gdt b))\<rparr>);
          b = escreve_ln (bytes ''IDT ok'') (b\<lparr>b_idt := snd (idt_init (k_idt P) (b_idt b))\<rparr>);
          b = escreve_ln (bytes ''PIC ok'') (b\<lparr>b_saida := b_saida b @ pic_init\<rparr>);
          b = escreve_ln (bytes ''Teclado ok'') (b\<lparr>b_idt := teclado_init (k_teclado_asm P) (b_idt b)\<rparr>)
      in b\<lparr>b_sti := True\<rparr>)"

text \<open>Memory, processes and the timer.\<close>

definition inicio_memoria :: "'h placa \<Rightarrow> 'h boot \<Rightarrow> 'h boot option" where
  "inicio_memoria P b =
     do {
       pm \<leftarrow> pmm_init (k_mmap P) (k_fim P) (k_bitmap P) (k_mb P);
       let b = escreve_ln (bytes ''PMM ok'') (b\<lparr>b_nuc := (b_nuc b)\<lparr>n_pmm := pm\<rparr>\<rparr>);
       let b = b\<lparr>b_idt := idt_set 14 (k_fault_asm P) 0x08 0x8E (b_idt b)\<rparr>;
       let pg = paging_init (k_pd P) (k_pts P) ((b_pag b)\<lparr>pg_pmm := pm\<rparr>);
       let b = escreve (bytes ''Paging ok!'') (b\<lparr>b_pag := pg, b_nuc := (b_nuc b)\<lparr>n_pmm := pg_pmm pg\<rparr>\<rparr>);
       (_, b) \<leftarrow> no_nuc (com_heap (\<lambda>h. Some ((), kheap_init h))) b;
       let b = escreve_ln (bytes ''Heap ok'') b;
       (_, b) \<leftarrow> no_nuc (com_slab (\<lambda>l. map_option (Pair ()) (slab_init l))) b;
       let b = escreve_ln (bytes ''Slab ok'') b;
       (_, b) \<leftarrow> no_nuc (com_proc (\<lambda>q. map_option (Pair ()) (proc_init q))) b;
       let b = escreve_ln (bytes ''Proc ok'') b;
       let b = b\<lparr>b_idt := idt_set 32 (k_timer_asm P) 0x08 0x8E (b_idt b), b_saida := b_saida b @ timer_init\<rparr>;
       let b = escreve_ln (bytes ''timer ok!'') b;
       (_, b) \<leftarrow> no_nuc (com_proc (\<lambda>q. map_option (Pair ()) (sched_init q))) b;
       Some (escreve_ln (bytes ''Sched ok'') b) }"

text \<open>A call of the disk controller.\<close>

definition com_ata :: "(ata \<Rightarrow> 'r \<times> ata) \<Rightarrow> pkg \<Rightarrow> ('r \<times> pkg) option" where
  "com_ata f p = (let v = p_vfs p; (r, a) = f (f_ata (v_fat v)) in Some (r, p\<lparr>p_vfs := v\<lparr>v_fat := (v_fat v)\<lparr>f_ata := a\<rparr>\<rparr>\<rparr>))"

definition montado_em :: "'h boot \<Rightarrow> bool" where "montado_em b = vfs_mounted (p_vfs (r_pkg (n_rem (b_nuc b))))"

definition inicio_discos :: "'h placa \<Rightarrow> 'h boot \<Rightarrow> 'h boot option" where
  "inicio_discos P b =
     do {
       (r, b) \<leftarrow> no_nuc (com_pkg (com_ata ata_init)) b;
       let b = escreve_ln (if r = 0 then bytes ''Disco ok'' else bytes ''Sem disco'') b;
       (r, b) \<leftarrow> no_nuc (com_pkg (com_ata ata_init1)) b;
       let b = (if r = 0 then escreve_ln (bytes ''Disco1 ok'') b else b);
       (_, b) \<leftarrow> no_nuc (com_pkg (com_vfs (\<lambda>v. map_option (Pair ()) (vfs_init v)))) b;
       let b = escreve_ln (if montado_em b then bytes ''VFS: FAT32 montado'' else bytes ''VFS: sem filesystem'') b;
       let N = b_nuc b;
       let (r, d, w) = dma_init (k_cfg P) (n_pci N) (k_disp P) (n_dma N, n_mundo N);
       let b = b\<lparr>b_nuc := N\<lparr>n_dma := d, n_mundo := w\<rparr>\<rparr>;
       let b = (if r = 0 then escreve_ln (bytes ''DMA ok'') b else b);
       let N = b_nuc b;
       let (r, a, pg, w) = ahci_init (k_cfg P) (n_pci N) (k_pd P) (k_disp P) (k_ahci P) (n_ahci N, (b_pag b)\<lparr>pg_pmm := n_pmm N\<rparr>, n_mundo N);
       let b = b\<lparr>b_pag := pg, b_nuc := N\<lparr>n_ahci := a, n_mundo := w, n_pmm := pg_pmm pg\<rparr>\<rparr>;
       let b = escreve_ln (if r = 0 then bytes ''AHCI ok'' else bytes ''AHCI: sem dispositivo'') b;
       (r, b) \<leftarrow> no_nuc (com_sfs spfs_mount) b;
       let b = (if r = 0 then escreve_ln (bytes ''SpaceFS montado'') b else b);
       (_, b) \<leftarrow> no_nuc (com_pkg (\<lambda>p. map_option (Pair ()) (pkg_init p))) b;
       let b = escreve_ln (bytes ''PKG ok'') b;
       (_, b) \<leftarrow> no_nuc (\<lambda>(m, s). com_pkg (\<lambda>p. map_option (\<lambda>a. (a, p\<lparr>p_vfs := a_vfs a\<rparr>))
           (audit_init (ticks (n_proc m)) ((n_audit m)\<lparr>a_vfs := p_vfs p\<rparr>))) (m, s) \<bind> (\<lambda>(a, m, s). Some ((), m\<lparr>n_audit := a\<rparr>, s))) b;
       Some b }"

text \<open>The bus, the processors and the devices on it.\<close>

definition inicio_placas :: "'h placa \<Rightarrow> 'h boot \<Rightarrow> 'h boot option" where
  "inicio_placas P b =
     do {
       let b = b\<lparr>b_nuc := (b_nuc b)\<lparr>n_pci := Pci.pci_init (k_cfg P) (n_pci (b_nuc b))\<rparr>\<rparr>;
       let b = (if pci_count (n_pci (b_nuc b)) > 0 then escreve_ln (bytes ''PCI ok'') b else b);
       let (r, ac) = acpi_init (fst (n_mundo (b_nuc b))) (b_acpi b);
       let b = escreve_ln (if r = 0 then bytes ''ACPI ok'' else bytes ''ACPI: sem tabelas'') (b\<lparr>b_acpi := ac\<rparr>);
       let (a, pg, w) = apic_init (k_pd P) (k_disp P) (b_acpi b) (b_apic b, (b_pag b)\<lparr>pg_pmm := n_pmm (b_nuc b)\<rparr>, n_mundo (b_nuc b));
       let b = escreve_ln (bytes ''APIC ok'') (b\<lparr>b_apic := a, b_pag := pg, b_nuc := (b_nuc b)\<lparr>n_mundo := w, n_pmm := pg_pmm pg\<rparr>\<rparr>);
       (sm, sh, w) \<leftarrow> smp_init (k_disp P) (b_apic b) (b_smp b, b_tela b, n_mundo (b_nuc b));
       let b = b\<lparr>b_smp := sm, b_tela := sh, b_nuc := (b_nuc b)\<lparr>n_mundo := w\<rparr>\<rparr>;
       let (r, h, pg, sh, w) = hda_init (k_cfg P) (n_pci (b_nuc b)) (k_pd P) (k_disp P) (k_hda P)
             (b_hda b, (b_pag b)\<lparr>pg_pmm := n_pmm (b_nuc b)\<rparr>, b_tela b, n_mundo (b_nuc b));
       let b = b\<lparr>b_hda := h, b_pag := pg, b_tela := sh, b_nuc := (b_nuc b)\<lparr>n_mundo := w, n_pmm := pg_pmm pg\<rparr>\<rparr>;
       Some (escreve_ln (if r = 0 then bytes ''HDA ok'' else bytes ''HDA: sem dispositivo'') b) }"

definition inicio_rede :: "'h placa \<Rightarrow> 'h boot \<Rightarrow> 'h boot option" where
  "inicio_rede P b =
     do {
       (_, b) \<leftarrow> no_nuc (com_net (\<lambda>n. Some ((), netbuf_init n))) b;
       let b = escreve_ln (bytes ''Netbuf ok'') b;
       let N = b_nuc b;
       let (r, n, sh, w) = rtl8139_init (k_cfg P) (n_pci N) (k_disp P) (k_rtl_rx P) (r_net (n_rem N), b_tela b, n_mundo N);
       let n = (if r = 0 then rtl8139_set_recv_cb n else n);
       let b = b\<lparr>b_tela := sh, b_nuc := N\<lparr>n_rem := (n_rem N)\<lparr>r_net := n\<rparr>, n_mundo := w\<rparr>\<rparr>;
       let b = escreve_ln (if r = 0 then bytes ''RTL8139 ok'' else bytes ''RTL8139: sem placa'') b;
       let N = b_nuc b;
       let b = b\<lparr>b_nuc := N\<lparr>n_wifi := snd (wifi_init (n_pci N) (n_wifi N))\<rparr>\<rparr>;
       let b = (if wifi_disponivel (n_wifi (b_nuc b)) then escreve_ln (bytes ''WiFi: chipset detectado'') b else b);
       let N = b_nuc b;
       let (r, u, pg, sh, w) = usb_init (k_cfg P) (n_pci N) (k_pd P) (k_disp P) (k_usb P) (k_usb_desc P)
             (n_usb N, (b_pag b)\<lparr>pg_pmm := n_pmm N\<rparr>, b_tela b, n_mundo N);
       let b = b\<lparr>b_pag := pg, b_tela := sh, b_nuc := N\<lparr>n_usb := u, n_mundo := w, n_pmm := pg_pmm pg\<rparr>\<rparr>;
       Some (escreve_ln (if r = 0 then bytes ''USB ok'' else bytes ''USB: sem EHCI'') b) }"

definition inicio_fim :: "'h placa \<Rightarrow> 'h boot \<Rightarrow> 'h boot option" where
  "inicio_fim P b =
     do {
       let N = b_nuc b;
       let p = r_pkg (n_rem N);
       (sb, sh) \<leftarrow> secboot_init (k_imagem P) ((n_secboot N)\<lparr>sb_vfs := p_vfs p\<rparr>, b_tela b);
       let b = b\<lparr>b_tela := sh, b_nuc := N\<lparr>n_secboot := sb, n_rem := (n_rem N)\<lparr>r_pkg := p\<lparr>p_vfs := sb_vfs sb\<rparr>\<rparr>\<rparr>\<rparr>;
       let b = escreve_ln (bytes ''Syscall ok'') (b\<lparr>b_idt := syscall_init (k_syscall_asm P) (b_idt b)\<rparr>);
       Some (b\<lparr>b_tela := shell_abertura (b_tela b)\<rparr>) }"

text \<open>Up to the first prompt of the shell.\<close>

definition kernel_main :: "'h placa \<Rightarrow> 'h boot \<Rightarrow> 'h boot option" where
  "kernel_main P b =
     do {
       b \<leftarrow> inicio_memoria P (inicio_tabelas P b);
       b \<leftarrow> inicio_discos P b;
       b \<leftarrow> inicio_placas P b;
       b \<leftarrow> inicio_rede P b;
       inicio_fim P b }"

section \<open>The screen after the start\<close>

lemma fold_mantem: "(\<And>x b. P b \<Longrightarrow> P (f x b)) \<Longrightarrow> P b \<Longrightarrow> P (fold f xs b)"
  by (induction xs arbitrary: b) simp_all

lemma escrita_boot [escritas]:
  "escrita s (b_tela b) \<Longrightarrow> escrita s (b_tela (vga_poe p c b))" "escrita s (b_tela b) \<Longrightarrow> escrita s (b_tela (write_char c b))"
  "escrita s (b_tela b) \<Longrightarrow> escrita s (b_tela (escreve t b))" "escrita s (b_tela b) \<Longrightarrow> escrita s (b_tela (escreve_ln t b))"
  "escrita s (b_tela b) \<Longrightarrow> escrita s (b_tela (clean_screen b))"
proof -
  show p: "escrita s (b_tela b) \<Longrightarrow> escrita s (b_tela (vga_poe p c b))" for p c and b :: "'h boot"
    by (auto simp: vga_poe_def escrita_def tela_ok_def resto_def)
  show c: "escrita s (b_tela b) \<Longrightarrow> escrita s (b_tela (write_char c b))" for c and b :: "'h boot"
    by (auto simp: write_char_def Let_def intro!: p)
  show e: "escrita s (b_tela b) \<Longrightarrow> escrita s (b_tela (escreve t b))" for t and b :: "'h boot"
    unfolding escreve_def by (rule fold_mantem [where P = "\<lambda>b. escrita s (b_tela b)"]) (rule c)
  show "escrita s (b_tela b) \<Longrightarrow> escrita s (b_tela (escreve_ln t b))"
    unfolding escreve_ln_def by (intro c e)
  show "escrita s (b_tela b) \<Longrightarrow> escrita s (b_tela (clean_screen b))"
    by (auto simp: clean_screen_def simp del: upt_Suc intro!: fold_mantem [where P = "\<lambda>b. escrita s (b_tela b)"] p)
qed

lemma boot_tela:
  "no_nuc (com_pkg f1) b = Some (r1, b') \<Longrightarrow> b_tela b' = b_tela b" "no_nuc (com_net f2) b = Some (r2, b') \<Longrightarrow> b_tela b' = b_tela b"
  "no_nuc (com_heap f3) b = Some (r3, b') \<Longrightarrow> b_tela b' = b_tela b" "no_nuc (com_proc f4) b = Some (r4, b') \<Longrightarrow> b_tela b' = b_tela b"
  "no_nuc (com_slab f5) b = Some (r5, b') \<Longrightarrow> b_tela b' = b_tela b" "no_nuc (com_sfs f6) b = Some (r6, b') \<Longrightarrow> b_tela b' = b_tela b"
  "no_nuc (\<lambda>(m, s). com_pkg (f7 m) (m, s) \<bind> (\<lambda>(a, m, s). Some ((), h7 a m, s))) b = Some (r7, b') \<Longrightarrow> b_tela b' = b_tela b"
  by (auto simp: no_nuc_def split: bind_splits dest!: quietos)

text \<open>The result, if there is one, has a property; the rules follow the steps of a \<open>do\<close> block.  \<open>sobre\<close>: it only wrote on the screen.\<close>

definition pos :: "('h boot \<Rightarrow> bool) \<Rightarrow> 'h boot option \<Rightarrow> bool" where
  "pos Q x = (case x of None \<Rightarrow> True | Some b \<Rightarrow> Q b)"

abbreviation sobre :: "shell \<Rightarrow> 'h boot option \<Rightarrow> bool" where
  "sobre s \<equiv> pos (\<lambda>b. escrita s (b_tela b))"

lemma pos_Some: "Q b \<Longrightarrow> pos Q (Some b)" by (simp add: pos_def)
lemma pos_Let_boot: "Q e \<Longrightarrow> (\<And>b. Q b \<Longrightarrow> pos Q (g b)) \<Longrightarrow> pos Q (let b = e in g b)" for e :: "'h boot" by (simp add: Let_def)
lemma pos_Let: "(\<And>x. x = e \<Longrightarrow> pos Q (g x)) \<Longrightarrow> pos Q (let x = e in g x)" by (simp add: Let_def)
lemma pos_par: "(\<And>a b. x = (a, b) \<Longrightarrow> pos Q (g a b)) \<Longrightarrow> pos Q (case x of (a, b) \<Rightarrow> g a b)" by (cases x) simp
lemma pos_bind: "(\<And>x. e = Some x \<Longrightarrow> pos Q (g x)) \<Longrightarrow> pos Q (e \<bind> g)" by (cases e) (auto simp: pos_def)
lemma pos_depois: "pos Q e \<Longrightarrow> (\<And>b. Q b \<Longrightarrow> pos Q (g b)) \<Longrightarrow> pos Q (e \<bind> g)" by (cases e) (auto simp: pos_def)

lemma pos_no_nuc:
  assumes "\<And>r b'. no_nuc f b = Some (r, b') \<Longrightarrow> v b' = v b" and "Q (v b)" and "\<And>r b'. Q (v b') \<Longrightarrow> pos R (g r b')"
  shows "pos R (no_nuc f b \<bind> (\<lambda>(r, b). g r b))"
  by (rule pos_bind) (metis assms case_prod_conv prod.exhaust)

lemma sobre_chamada:
  "escrita s (b_tela b) \<Longrightarrow> (\<And>r b'. escrita s (b_tela b') \<Longrightarrow> sobre s (g1 r b')) \<Longrightarrow> sobre s (no_nuc (com_pkg f1) b \<bind> (\<lambda>(r, b). g1 r b))"
  "escrita s (b_tela b) \<Longrightarrow> (\<And>r b'. escrita s (b_tela b') \<Longrightarrow> sobre s (g2 r b')) \<Longrightarrow> sobre s (no_nuc (com_net f2) b \<bind> (\<lambda>(r, b). g2 r b))"
  "escrita s (b_tela b) \<Longrightarrow> (\<And>r b'. escrita s (b_tela b') \<Longrightarrow> sobre s (g3 r b')) \<Longrightarrow> sobre s (no_nuc (com_heap f3) b \<bind> (\<lambda>(r, b). g3 r b))"
  "escrita s (b_tela b) \<Longrightarrow> (\<And>r b'. escrita s (b_tela b') \<Longrightarrow> sobre s (g4 r b')) \<Longrightarrow> sobre s (no_nuc (com_proc f4) b \<bind> (\<lambda>(r, b). g4 r b))"
  "escrita s (b_tela b) \<Longrightarrow> (\<And>r b'. escrita s (b_tela b') \<Longrightarrow> sobre s (g5 r b')) \<Longrightarrow> sobre s (no_nuc (com_slab f5) b \<bind> (\<lambda>(r, b). g5 r b))"
  "escrita s (b_tela b) \<Longrightarrow> (\<And>r b'. escrita s (b_tela b') \<Longrightarrow> sobre s (g6 r b')) \<Longrightarrow> sobre s (no_nuc (com_sfs f6) b \<bind> (\<lambda>(r, b). g6 r b))"
  "escrita s (b_tela b) \<Longrightarrow> (\<And>r b'. escrita s (b_tela b') \<Longrightarrow> sobre s (g7 r b')) \<Longrightarrow>
    sobre s (no_nuc (\<lambda>(m, s). com_pkg (f7 m) (m, s) \<bind> (\<lambda>(a, m, s). Some ((), h7 a m, s))) b \<bind> (\<lambda>(r, b). g7 r b))"
  by - (rule pos_no_nuc [where v = b_tela and Q = "escrita s"]; (erule boot_tela | simp))+

lemma sobre_campos:
  "escrita s (b_tela b) \<Longrightarrow> escrita s (b_tela (b\<lparr>b_nuc := x1\<rparr>))" "escrita s (b_tela b) \<Longrightarrow> escrita s (b_tela (b\<lparr>b_gdt := x2\<rparr>))"
  "escrita s (b_tela b) \<Longrightarrow> escrita s (b_tela (b\<lparr>b_idt := x3\<rparr>))" "escrita s (b_tela b) \<Longrightarrow> escrita s (b_tela (b\<lparr>b_saida := x4\<rparr>))"
  "escrita s (b_tela b) \<Longrightarrow> escrita s (b_tela (b\<lparr>b_sti := x5\<rparr>))" "escrita s (b_tela b) \<Longrightarrow> escrita s (b_tela (b\<lparr>b_pag := x6\<rparr>))"
  "escrita s (b_tela b) \<Longrightarrow> escrita s (b_tela (b\<lparr>b_acpi := x7\<rparr>))" "escrita s (b_tela b) \<Longrightarrow> escrita s (b_tela (b\<lparr>b_apic := x8\<rparr>))"
  "escrita s (b_tela b) \<Longrightarrow> escrita s (b_tela (b\<lparr>b_smp := x9\<rparr>))" "escrita s (b_tela b) \<Longrightarrow> escrita s (b_tela (b\<lparr>b_hda := x10\<rparr>))"
  "escrita s t \<Longrightarrow> escrita s (b_tela (b\<lparr>b_tela := t\<rparr>))"
  "escrita s (b_tela b) \<Longrightarrow> escrita s (b_tela b') \<Longrightarrow> escrita s (b_tela (if c then b else b'))"
  by simp_all

lemma smp_inicia_tela: "fold (\<lambda>i. smp_inicia D a (g i)) xs (t, w) = (t', w') \<Longrightarrow> escrita t t'"
proof -
  have "escrita t (fst (smp_inicia D a i tw))" if "escrita t (fst tw)" for i tw
    using that by (auto simp: smp_inicia_def split: prod.splits intro!: escritas simp del: bytes_Cons)
  from fold_mantem [where P = "\<lambda>tw. escrita t (fst tw)" and f = "\<lambda>i. smp_inicia D a (g i)" and b = "(t, w)" and xs = xs, OF this]
  show "fold (\<lambda>i. smp_inicia D a (g i)) xs (t, w) = (t', w') \<Longrightarrow> escrita t t'" by simp
qed

lemma smp_tela: "smp_init D a (u, t, w) = Some (u', t', w') \<Longrightarrow> escrita t t'"
  by (auto simp: smp_init_def Let_def split: prod.splits if_splits option.splits intro!: escritas dest!: smp_inicia_tela simp del: bytes_Cons)

lemma hda_tela: "hda_init c ps pd D l (u, pg, t, w) = (r, u', pg', t', w') \<Longrightarrow> escrita t t'"
  by (auto simp: hda_init_def Let_def split: prod.splits if_splits option.splits intro!: escritas simp del: bytes_Cons)

lemma rtl_tela: "rtl8139_init c ps D rx (u, t, w) = (r, u', t', w') \<Longrightarrow> escrita t t'"
proof -
  have m: "escrita t x \<Longrightarrow> escrita t (mostra_mac k x)" for k x
    unfolding mostra_mac_def by (rule escrita_fold) (auto simp: Let_def intro!: escritas simp del: bytes_Cons)
  show "rtl8139_init c ps D rx (u, t, w) = (r, u', t', w') \<Longrightarrow> escrita t t'"
    by (auto simp: rtl8139_init_def Let_def split: prod.splits if_splits option.splits intro!: escritas m simp del: bytes_Cons)
qed

lemma usb_porta_tela: "usb_porta D l desc p (u, t, w) = (u', t', w') \<Longrightarrow> escrita t t'"
  by (auto simp: usb_porta_def enumerate_port_def Let_def split: prod.splits if_splits option.splits intro!: escritas simp del: bytes_Cons)

lemma usb_tela: "usb_init c ps pd D l desc (u, pg, t, w) = (r, u', pg', t', w') \<Longrightarrow> escrita t t'"
proof -
  have p: "fold (usb_porta D l desc) xs (u, t, w) = (u', t', w') \<Longrightarrow> escrita t t'" for xs u w u' w'
    using fold_mantem [where P = "\<lambda>(u, x, w). escrita t x" and f = "usb_porta D l desc" and b = "(u, t, w)" and xs = xs]
    by (auto dest!: usb_porta_tela intro: escrita_trans)
  show "usb_init c ps pd D l desc (u, pg, t, w) = (r, u', pg', t', w') \<Longrightarrow> escrita t t'"
    by (auto simp: usb_init_def Let_def split: prod.splits if_splits option.splits dest!: p)
qed

lemma secboot_tela: "secboot_init img (u, t) = Some (u', t') \<Longrightarrow> escrita t t'"
  by (auto simp: secboot_init_def Let_def split: if_splits bind_splits prod.splits option.splits intro!: escritas simp del: bytes_Cons)

lemma abertura_tela: "escrita s t \<Longrightarrow> escrita s (shell_abertura t)"
proof -
  have p: "escrita s t \<Longrightarrow> escrita s (prompt t)" for t by (simp add: escrita_def prompt_ok)
  show "escrita s t \<Longrightarrow> escrita s (shell_abertura t)"
    unfolding shell_abertura_def Let_def by (intro p escritas)
qed

text \<open>The drivers that write on the screen.\<close>

lemma sobre_placas:
  "escrita s t \<Longrightarrow> (\<And>r u pg x w. escrita s x \<Longrightarrow> sobre s (g1 r u pg x w)) \<Longrightarrow>
    sobre s (let (r, u, pg, x, w) = hda_init c ps pd D lh (u1, pg1, t, w1) in g1 r u pg x w)"
  "escrita s t \<Longrightarrow> (\<And>r u x w. escrita s x \<Longrightarrow> sobre s (g2 r u x w)) \<Longrightarrow>
    sobre s (let (r, u, x, w) = rtl8139_init c ps D rx (u2, t, w2) in g2 r u x w)"
  "escrita s t \<Longrightarrow> (\<And>r u pg x w. escrita s x \<Longrightarrow> sobre s (g3 r u pg x w)) \<Longrightarrow>
    sobre s (let (r, u, pg, x, w) = usb_init c ps pd D lu desc (u3, pg3, t, w3) in g3 r u pg x w)"
  "escrita s t \<Longrightarrow> (\<And>u x w. escrita s x \<Longrightarrow> sobre s (g4 u x w)) \<Longrightarrow> sobre s (smp_init D a (u4, t, w4) \<bind> (\<lambda>(u, x, w). g4 u x w))"
  "escrita s t \<Longrightarrow> (\<And>u x. escrita s x \<Longrightarrow> sobre s (g5 u x)) \<Longrightarrow> sobre s (secboot_init img (u5, t) \<bind> (\<lambda>(u, x). g5 u x))"
  by (auto simp: Let_def split: prod.splits intro!: pos_bind dest!: hda_tela rtl_tela usb_tela smp_tela secboot_tela) (metis escrita_trans)+

lemmas sobre_passo = pos_Some sobre_chamada sobre_placas pos_Let_boot pos_Let pos_par pos_bind escritas abertura_tela sobre_campos

text \<open>Every part of the start only writes on the screen.\<close>

lemma tabelas_tela: "escrita (b_tela b) (b_tela (inicio_tabelas P b))"
  by (auto simp: inicio_tabelas_def Let_def intro!: escritas simp del: bytes_Cons)

lemma memoria_tela: "escrita s (b_tela b) \<Longrightarrow> sobre s (inicio_memoria P b)"
  unfolding inicio_memoria_def by (rule sobre_passo | assumption)+

lemma discos_tela: "escrita s (b_tela b) \<Longrightarrow> sobre s (inicio_discos P b)"
  unfolding inicio_discos_def by (rule sobre_passo | assumption)+

lemma placas_tela: "escrita s (b_tela b) \<Longrightarrow> sobre s (inicio_placas P b)"
  unfolding inicio_placas_def by (rule sobre_passo | assumption)+

lemma rede_tela: "escrita s (b_tela b) \<Longrightarrow> sobre s (inicio_rede P b)"
  unfolding inicio_rede_def by (rule sobre_passo | assumption)+

lemma fim_tela: "escrita s (b_tela b) \<Longrightarrow> sobre s (inicio_fim P b)"
  unfolding inicio_fim_def by (rule sobre_passo | assumption)+

text \<open>Whatever the machine is, if the start ends, the shell begins in a state its invariant accepts.\<close>

theorem kernel_main_shell:
  assumes "kernel_main P b = Some b'" and "shell_ok (b_tela b)"
  shows "shell_ok (b_tela b')"
proof -
  have "sobre (b_tela b) (kernel_main P b)"
    unfolding kernel_main_def
    by (rule pos_depois fim_tela memoria_tela discos_tela placas_tela rede_tela tabelas_tela | assumption)+
  then show ?thesis using assms by (auto simp: pos_def escrita_def intro: shell_ok_resto shell_ok_tela)
qed

text \<open>And every key after it keeps the shell so.\<close>

theorem kernel_main_teclas:
  assumes "kernel_main P b = Some b'" and "shell_ok (b_tela b)"
    and "shell_teclas (corpo_nucleo D l poll r) teclas (b_nuc b', b_tela b') = Some (m, s)"
  shows "shell_ok s"
  using kernel_main_shell [OF assms(1,2)] assms(3) by (rule todos.teclas_ok)

section \<open>What the order of the start loses\<close>

text \<open>The list of the bus is filled after the disk controllers looked into it, so neither the DMA nor the AHCI driver ever
  finds its card.\<close>

definition achados :: "'h boot \<Rightarrow> pci \<times> dma \<times> ahci" where
  "achados b = (n_pci (b_nuc b), n_dma (b_nuc b), n_ahci (b_nuc b))"

lemma achados_escreve [simp]: "achados (escreve_ln t b) = achados b" "achados (escreve t b) = achados b"
proof -
  have c: "achados (write_char c b) = achados b" for c and b :: "'h boot"
    by (simp add: achados_def write_char_def vga_poe_def Let_def)
  show e: "achados (escreve t b) = achados b" for t and b :: "'h boot"
    unfolding escreve_def by (rule fold_mantem [where P = "\<lambda>x. achados x = achados b"]) (simp_all add: c)
  show "achados (escreve_ln t b) = achados b" by (simp add: escreve_ln_def c e)
qed

lemma achados_chamada:
  "no_nuc (com_pkg f1) b = Some (r1, b') \<Longrightarrow> achados b' = achados b" "no_nuc (com_sfs f6) b = Some (r6, b') \<Longrightarrow> achados b' = achados b"
  "no_nuc (\<lambda>(m, s). com_pkg (f7 m) (m, s) \<bind> (\<lambda>(a, m, s). Some ((), m\<lparr>n_audit := a\<rparr>, s))) b = Some (r7, b') \<Longrightarrow> achados b' = achados b"
  by (auto simp: no_nuc_def com_pkg_def com_sfs_def achados_def Let_def split: bind_splits)

lemma pos_achados:
  "achados b = k \<Longrightarrow> (\<And>r b'. achados b' = k \<Longrightarrow> pos R (g1 r b')) \<Longrightarrow> pos R (no_nuc (com_pkg f1) b \<bind> (\<lambda>(r, b). g1 r b))"
  "achados b = k \<Longrightarrow> (\<And>r b'. achados b' = k \<Longrightarrow> pos R (g2 r b')) \<Longrightarrow> pos R (no_nuc (com_sfs f2) b \<bind> (\<lambda>(r, b). g2 r b))"
  "achados b = k \<Longrightarrow> (\<And>r b'. achados b' = k \<Longrightarrow> pos R (g3 r b')) \<Longrightarrow>
    pos R (no_nuc (\<lambda>(m, s). com_pkg (f3 m) (m, s) \<bind> (\<lambda>(a, m, s). Some ((), m\<lparr>n_audit := a\<rparr>, s))) b \<bind> (\<lambda>(r, b). g3 r b))"
  by - (rule pos_no_nuc [where v = achados and Q = "\<lambda>x. x = k"]; (erule achados_chamada | simp))+

lemma pos_procura:
  "pci_count ps = 0 \<Longrightarrow> (\<And>r w. pos R (g1 r d w)) \<Longrightarrow> pos R (let (r, d, w) = dma_init c ps D (d, w) in g1 r d w)"
  "pci_count ps = 0 \<Longrightarrow> (\<And>r pg w. pos R (g2 r a pg w)) \<Longrightarrow> pos R (let (r, a, pg, w) = ahci_init c ps pd D l (a, pg, w) in g2 r a pg w)"
  by (simp_all add: dma_init_def ahci_init_def pci_find_class_def)

lemmas achados_passo = pos_Some pos_achados pos_procura pos_Let_boot pos_Let

theorem boot_sem_dma:
  assumes "inicio_discos P b = Some b'" and "pci_count (n_pci (b_nuc b)) = 0"
  shows "n_dma (b_nuc b') = n_dma (b_nuc b)" and "n_ahci (b_nuc b') = n_ahci (b_nuc b)"
proof -
  obtain ps d a where k: "achados b = (ps, d, a)" "pci_count ps = 0" using assms(2) by (simp add: achados_def)
  have "achados b = (ps, d, a) \<Longrightarrow> pos (\<lambda>x. achados x = (ps, d, a)) (inicio_discos P b)"
    unfolding inicio_discos_def by (rule achados_passo | assumption | simp add: achados_def k(2) del: bytes_Cons; fail | simp del: bytes_Cons; fail)+
  then show "n_dma (b_nuc b') = n_dma (b_nuc b)" and "n_ahci (b_nuc b') = n_ahci (b_nuc b)"
    using assms(1) k(1) by (simp_all add: pos_def achados_def)
qed

text \<open>Interrupts are enabled while the timer's is let through by the controller and its gate is not yet present.\<close>

lemma idt_zera:
  "length (fold (\<lambda>i. idt_set (of_nat i) 0 0 0) xs t) = length t"
  "i < length t \<Longrightarrow> (\<exists>j\<in>set xs. unat (of_nat j :: u8) = i) \<or> idt_flags (t ! i) = 0 \<Longrightarrow>
    idt_flags (fold (\<lambda>i. idt_set (of_nat i) 0 0 0) xs t ! i) = 0"
proof -
  have l: "length (idt_set n x y z t) = length t" for n x y z t by (simp add: idt_set_def)
  show "length (fold (\<lambda>i. idt_set (of_nat i) 0 0 0) xs t) = length t" by (induction xs arbitrary: t) (simp_all add: l)
  show "i < length t \<Longrightarrow> (\<exists>j\<in>set xs. unat (of_nat j :: u8) = i) \<or> idt_flags (t ! i) = 0 \<Longrightarrow>
    idt_flags (fold (\<lambda>i. idt_set (of_nat i) 0 0 0) xs t ! i) = 0"
  proof (induction xs arbitrary: t)
    case (Cons a xs)
    have "idt_flags (idt_set (of_nat a) 0 0 0 t ! i) = (if i = unat (of_nat a :: u8) then 0 else idt_flags (t ! i))"
      using Cons.prems(1) by (auto simp: idt_set_def nth_list_update)
    then show ?case using Cons.prems Cons.IH [of "idt_set (of_nat a) 0 0 0 t"] by (auto simp: l)
  qed simp
qed

lemma idt_vazia: "length t = 256 \<Longrightarrow> i < 256 \<Longrightarrow> idt_flags (snd (idt_init a t) ! i) = 0 \<and> length (snd (idt_init a t)) = 256"
  unfolding idt_init_def IDT_ENTRADAS_def
  by (auto simp: idt_zera unsigned_of_nat take_bit_nat_eq_self simp del: upt_Suc intro!: idt_zera(2) bexI [of _ i])

lemma tabelas_escreve [simp]:
  "b_idt (escreve_ln t b) = b_idt b" "b_saida (escreve_ln t b) = b_saida b"
proof -
  have c: "b_idt (write_char c b) = b_idt b \<and> b_saida (write_char c b) = b_saida b" for c and b :: "'h boot"
    by (simp add: write_char_def vga_poe_def Let_def)
  have "b_idt (escreve t b) = b_idt b \<and> b_saida (escreve t b) = b_saida b"
    unfolding escreve_def by (rule fold_mantem [where P = "\<lambda>x. b_idt x = b_idt b \<and> b_saida x = b_saida b"]) (simp_all add: c)
  then show "b_idt (escreve_ln t b) = b_idt b" "b_saida (escreve_ln t b) = b_saida b" by (simp_all add: escreve_ln_def c)
qed

lemma tabelas_limpa [simp]: "b_idt (clean_screen b) = b_idt b"
  unfolding clean_screen_def by (simp del: upt_Suc, rule fold_mantem [where P = "\<lambda>x. b_idt x = b_idt b"]) (simp_all add: vga_poe_def)

theorem boot_sem_porta_do_timer:
  assumes "length (b_idt b) = 256"
  shows "b_sti (inicio_tabelas P b)" and "idt_flags (b_idt (inicio_tabelas P b) ! 32) = 0"
    and "\<exists>x. b_saida (inicio_tabelas P b) = x @ [(PIC1_DAD, 0xFC), (PIC2_DAD, 0xFF)]"
  using assms idt_vazia [of "b_idt b" 32]
  by (simp_all add: inicio_tabelas_def Let_def teclado_init_def idt_set_def pic_init_def del: bytes_Cons)

end
