(* ===== verification/Spec2Isabelle.thy ===== *)
theory Spec2Isabelle
  imports SpaceFS Volume Vfs Pmm Kheap Slab Paging Processos Journal Rede Tls Pkg Shell Comandos Auditoria Pci Cpu Usb Placas Remoto Sistema Inicio
begin

text \<open>
  A verification development of SpaceOS, a 32-bit x86 kernel written in C (\<^verbatim>\<open>src/kernel\<close>): memory management,
  processes, disk drivers and file systems, a network stack with its cryptography, a package manager and a shell.

  \<^bold>\<open>The parts and how they interact.\<close>  At boot \<^verbatim>\<open>pmm_init\<close> reads the memory map of the boot loader into a bitmap of
  pages.  The kernel heap is one region of 256 KB behind it; the slab caches take their pages from the page
  allocator and their records from the heap, and so do the process control blocks and stacks.  Paging maps the
  first 64 MB to themselves.  The timer calls the scheduler, which picks the next process by its credits.  Two ATA drives
  carry the file systems: FAT32 on drive 0, under the path layer \<^verbatim>\<open>vfs.c\<close>, and SpaceFS on drive 1, every write of
  which goes through the journal.  The network card fills receive buffers of a pool; polling hands them to ARP, IPv4, UDP
  and TCP, and whatever waits for an answer polls in turn.  SpaceTLS runs over the TCP sockets.  The package manager and the
  audit log keep their files in the VFS, and remote packages come over TCP.  The drivers of the bus, the other disk controllers, the
  processors, USB, sound and wireless cards are started once and reported on by commands.  The shell reads the keyboard and runs
  commands, which call all of this; processes reach the same functions through interrupt 0x80.

  \<^bold>\<open>Which theory models which file.\<close>
    \<^item> \<open>Prelude\<close>: words, buffers, the layout of packed structures, C strings.  \<open>KString\<close>: \<^verbatim>\<open>disk/kstring.c\<close>.
    \<^item> \<open>Pmm\<close>, \<open>Kheap\<close>, \<open>Slab\<close>, \<open>Paging\<close>: \<^verbatim>\<open>mem/pmm.c\<close>, \<^verbatim>\<open>kheap.c\<close>, \<^verbatim>\<open>slab.c\<close>, \<^verbatim>\<open>paging.c\<close>.
    \<^item> \<open>Processos\<close>: \<^verbatim>\<open>proc/processo.c\<close>, \<^verbatim>\<open>identidade.c\<close>, \<^verbatim>\<open>sched.c\<close>.
    \<^item> \<open>Ata\<close>: \<^verbatim>\<open>disk/ata.c\<close>.  \<open>Journal\<close>: \<^verbatim>\<open>fs/journal.c\<close>.  \<open>SpaceFS\<close> and \<open>Volume\<close>: \<^verbatim>\<open>fs/spacefs.c\<close>, the code and its
      refinement of a list of files.  \<open>Fat32\<close>, \<open>Vfs\<close>: \<^verbatim>\<open>fs/fat32.c\<close>, \<^verbatim>\<open>fs/vfs.c\<close>.
    \<^item> \<open>NetBase\<close>: \<^verbatim>\<open>net/netbuf.c\<close>, \<^verbatim>\<open>net_util.h\<close>, the sending and receiving of \<^verbatim>\<open>rtl8139.c\<close>.  \<open>Arp\<close>: \<^verbatim>\<open>ethernet.c\<close>, \<^verbatim>\<open>arp.c\<close>.
      \<open>Udp\<close>: \<^verbatim>\<open>ipv4.c\<close>, \<^verbatim>\<open>udp.c\<close>, \<^verbatim>\<open>dns.c\<close>, \<^verbatim>\<open>dhcp.c\<close>.  \<open>Tcp\<close>: \<^verbatim>\<open>tcp.c\<close>.  \<open>Rede\<close>: the receive path that ties them together.
    \<^item> \<open>Sha256\<close>, \<open>Poly1305\<close>, \<open>Tls\<close>: \<^verbatim>\<open>net/tls.c\<close>.
    \<^item> \<open>Pkg\<close>: \<^verbatim>\<open>pkg/pkg_db.c\<close>, \<^verbatim>\<open>pkg_solver.c\<close>, \<^verbatim>\<open>pkg_install.c\<close>, \<^verbatim>\<open>pkg_checksum.c\<close>, \<^verbatim>\<open>spk.h\<close>.
    \<^item> \<open>Shell\<close>: \<^verbatim>\<open>shell/shell.c\<close>, \<^verbatim>\<open>teclado.c\<close>.  \<open>Comandos\<close>: the commands of \<^verbatim>\<open>shell/comandos.c\<close>
      on text and files.
    \<^item> \<open>Auditoria\<close>: \<^verbatim>\<open>fs/audit.c\<close>, \<^verbatim>\<open>cpu/secboot.c\<close>.  \<open>Pci\<close>: \<^verbatim>\<open>drivers/pci.c\<close>, \<^verbatim>\<open>drivers/acpi.c\<close>.
    \<^item> \<open>Hardware\<close>: what a driver sees of a device.  \<open>Cpu\<close>: \<^verbatim>\<open>cpu/gdt.c\<close>, \<^verbatim>\<open>idt.c\<close>, \<^verbatim>\<open>pic.c\<close>, \<^verbatim>\<open>timer.c\<close>, \<^verbatim>\<open>apic.c\<close>, \<^verbatim>\<open>smp.c\<close>,
      \<^verbatim>\<open>mem/paging_fault.c\<close>.  \<open>Discos\<close>: \<^verbatim>\<open>disk/dma.c\<close>, \<^verbatim>\<open>ahci.c\<close>.  \<open>Usb\<close>: \<^verbatim>\<open>drivers/usb.c\<close>, \<^verbatim>\<open>usbhid.c\<close>.  \<open>Placas\<close>:
      \<^verbatim>\<open>drivers/hda.c\<close>, \<^verbatim>\<open>net/wifi.c\<close>, the start of \<^verbatim>\<open>rtl8139.c\<close>.
    \<^item> \<open>Remoto\<close>: \<^verbatim>\<open>pkg/pkg_remote.c\<close>.  \<open>Nucleo\<close>: the record of the whole kernel, in which the components share one heap, page
      allocator, VFS and disk controller; \<^verbatim>\<open>cpu/syscall.c\<close> and the other commands of \<^verbatim>\<open>shell/comandos.c\<close>.  \<open>Sistema\<close>: what holds
      of it.  \<open>Inicio\<close>: \<^verbatim>\<open>main.c\<close>.

  Each theory has a record with the static variables of its files and one definition for each function, under the
  name of the source where Isabelle allows it.  Operations take the state last and return it updated.  A C function that returns
  a negative number on failure returns \<open>None\<close> inside its result or the \<open>int\<close> itself, as its theory says.

  \<^bold>\<open>Interfaces.\<close>  \<open>page_allocator\<close> (the page allocator), \<open>heap_allocator\<close> (the heap and the slab caches), \<open>bloco_disp\<close> (each of
  the two drives), \<open>tabela\<close> (the ARP cache and the UDP ports), \<open>fila\<close> (the receive ring of a socket) and \<open>comandos\<close> (the
  commands of the shell) are locales, each interpreted on the model of the code that provides it.

  \<^bold>\<open>What the lemmas show.\<close>  Memory: the kernel's own pages are never handed out, no page, block or object is given twice or
  lost over any run of operations, freeing coalesces.  Paging: the translation of the processor after each routine.
  Processes: the queue stays well formed, a process with credits runs within 64 ticks.  Disks: a written sector is read
  back; after a power cut at any write of a journaled update, recovery gives the old sector or the new.  File
  systems: SpaceFS refines a list of files that survives power off; a FAT32 file is read back and no other file changes.
  Network: a datagram sent is delivered, buffers are never lost, sockets move along the legal arcs, the receive ring is a
  bounded queue, waiting ends.  Cryptography: the limb arithmetic equals the standard, incremental hashing the
  hash of the whole, a record is opened to what was sent.  Packages: the data base refines a list, whatever the disk
  holds no buffer is passed, no damaged package is accepted.  Shell: a typed line runs its command, no key sequence leads
  outside the screen or the buffers, with every command over the whole kernel and from power on.  Secure boot: the stored hash is
  read back and any changed byte is seen.  Processors: the start knows those of the firmware table.  SATA: what is written is
  read back, and a controller that does not answer gives an error.  Remote packages: the body of an answer is copied byte for
  byte; a repository given by name is never reached.

  \<^bold>\<open>Bounds, fuel and termination.\<close>  Loops that follow pointers or clusters of the memory or the disk may not end: they are
  \<open>partial_function (option)\<close>, \<open>None\<close> meaning that they do not return, and the theorems prove the value \<open>Some\<close>
  under the invariant.  Polling inside polling is bounded by the argument of \<open>eth_poll_n\<close>: a run that nests deeper is \<open>None\<close>, and the
  theorems hold for every bound.  All other loops are structural or have a measure.

  \<^bold>\<open>Arguments of the model.\<close>  What is not code of the repository or is hardware comes in as an argument or a field:
  the status a controller shows at each read, the contents of the card's registers, the clock, the boot loader's memory
  map, linker symbols, the PCI configuration space, firmware tables.  Memory the code reads before writing it
  (\<open>lixo\<close>, \<open>p_lixo\<close> and similar) and the result of a shift C does not define (\<open>desl\<close>) are arguments too.  A device (\<open>'h disp\<close>) is
  a function for the read and one for the write of a register, over the memory, which it reads and writes like the kernel, and
  a state \<open>'h\<close> of its own; the drivers' lemmas state what they ask of it.

  \<^bold>\<open>Not modelled.\<close>  The assembly: single port instructions (\<^verbatim>\<open>cpu/io.h\<close>), the instructions that load the tables, the entry
  points of \<^verbatim>\<open>boot/entry.asm\<close> but for the gate of the system calls, and the lock of \<^verbatim>\<open>cpu/spinlock.h\<close>, which the scheduler takes
  and releases inside one call with interrupts off.  Code on other processors, which never get past a halt; interrupts during the
  start.  The messages \<^verbatim>\<open>pkg_install\<close> and \<^verbatim>\<open>pkg_remove\<close> print.  The build files.
\<close>

end
